(* ===== verification/Prelude.thy ===== *)
theory Prelude
  imports Main "HOL-Library.Word" "HOL-Library.Monad_Syntax"
begin

text \<open>
  Shared vocabulary of the development.

  \<^item> The machine integers of the Rust sources: \<open>u8\<close>, \<open>u32\<close>, \<open>u64\<close> and \<open>usize\<close>
    are words; arithmetic on them wraps, as it does in the release profile the
    repository builds with (\<^verbatim>\<open>MODE := release\<close> in \<^verbatim>\<open>os/Makefile\<close>).
  \<^item> Fallible code returns an option: \<open>None\<close> stands for a panic (a failed
    assertion, an \<open>unwrap\<close> of \<open>None\<close>, an index out of range) or for a spin lock
    that is never released. State is passed explicitly and threaded with the
    \<open>do\<close> notation of the option monad.
  \<^item> Byte buffers are lists of \<open>u8\<close>. \<open>buf_get\<close> and \<open>buf_put\<close> read and overwrite a
    contiguous part; \<open>words_of\<close> and \<open>bytes_of\<close> are the little-endian views of a
    buffer as an array of fixed-width integers, which is what the casts of
    \<^verbatim>\<open>get_ref\<close> and \<^verbatim>\<open>get_mut\<close> produce on the (little-endian) RISC-V target.
\<close>

named_theorems buf_simps \<open>lengths and positions in byte buffers\<close>
named_theorems const_defs \<open>the numeric constants of the sources\<close>

type_synonym u8 = "8 word"
type_synonym u32 = "32 word"
type_synonym u64 = "64 word"
type_synonym usize = "64 word"
type_synonym bytes = "8 word list"

section \<open>Rust indexing\<close>

definition nth_opt :: "'a list \<Rightarrow> nat \<Rightarrow> 'a option" where
  "nth_opt xs i = (if i < length xs then Some (xs ! i) else None)"

definition upd_opt :: "'a list \<Rightarrow> nat \<Rightarrow> 'a \<Rightarrow> 'a list option" where
  "upd_opt xs i v = (if i < length xs then Some (xs[i := v]) else None)"

fun find_idx :: "('a \<Rightarrow> bool) \<Rightarrow> 'a list \<Rightarrow> nat option" where
  "find_idx P [] = None"
| "find_idx P (x # xs) = (if P x then Some 0 else map_option Suc (find_idx P xs))"

section \<open>Slices\<close>

definition buf_get :: "nat \<Rightarrow> nat \<Rightarrow> 'a list \<Rightarrow> 'a list" where
  "buf_get off n xs = take n (drop off xs)"

definition buf_put :: "nat \<Rightarrow> 'a list \<Rightarrow> 'a list \<Rightarrow> 'a list" where
  "buf_put off ys xs = take off xs @ ys @ drop (off + length ys) xs"

section \<open>Little-endian integers\<close>

fun le_dec :: "bytes \<Rightarrow> nat" where
  "le_dec [] = 0"
| "le_dec (b # bs) = unat b + 256 * le_dec bs"

fun le_enc :: "nat \<Rightarrow> nat \<Rightarrow> bytes" where
  "le_enc 0 x = []"
| "le_enc (Suc n) x = of_nat (x mod 256) # le_enc n (x div 256)"

definition word_at :: "nat \<Rightarrow> bytes \<Rightarrow> nat \<Rightarrow> 'a::len word" where
  "word_at w bs i = of_nat (le_dec (buf_get (i * w) w bs))"

definition words_of :: "nat \<Rightarrow> bytes \<Rightarrow> 'a::len word list" where
  "words_of w bs = map (word_at w bs) [0..<length bs div w]"

definition bytes_of :: "nat \<Rightarrow> 'a::len word list \<Rightarrow> bytes" where
  "bytes_of w ws = concat (map (\<lambda>v. le_enc w (unat v)) ws)"

abbreviation u32s :: "bytes \<Rightarrow> u32 list" where
  "u32s \<equiv> words_of 4"

abbreviation u64s :: "bytes \<Rightarrow> u64 list" where
  "u64s \<equiv> words_of 8"

section \<open>Lemmas on options and indexing\<close>

lemma bind_Some_iff:
  "(m \<bind> f) = Some y \<longleftrightarrow> (\<exists>x. m = Some x \<and> f x = Some y)"
  by (cases m) auto

lemma nth_opt_Some [simp]: "i < length xs \<Longrightarrow> nth_opt xs i = Some (xs ! i)"
  by (simp add: nth_opt_def)

lemma nth_opt_None [simp]: "length xs \<le> i \<Longrightarrow> nth_opt xs i = None"
  by (simp add: nth_opt_def)

lemma nth_opt_eq_Some_iff: "nth_opt xs i = Some v \<longleftrightarrow> i < length xs \<and> xs ! i = v"
  by (simp add: nth_opt_def)

lemma upd_opt_Some [simp]: "i < length xs \<Longrightarrow> upd_opt xs i v = Some (xs[i := v])"
  by (simp add: upd_opt_def)

lemma upd_opt_None [simp]: "length xs \<le> i \<Longrightarrow> upd_opt xs i v = None"
  by (simp add: upd_opt_def)

lemma find_idx_SomeD:
  "find_idx P xs = Some i \<Longrightarrow> i < length xs \<and> P (xs ! i) \<and> (\<forall>j<i. \<not> P (xs ! j))"
proof (induction xs arbitrary: i)
  case Nil
  then show ?case by simp
next
  case (Cons x xs)
  show ?case
  proof (cases "P x")
    case True
    with Cons.prems show ?thesis by simp
  next
    case False
    with Cons.prems obtain j where j: "find_idx P xs = Some j" "i = Suc j" by auto
    from Cons.IH [OF j(1)] j(2) False show ?thesis by (auto simp: less_Suc_eq_0_disj)
  qed
qed

lemma find_idx_None_iff: "find_idx P xs = None \<longleftrightarrow> (\<forall>x \<in> set xs. \<not> P x)"
  by (induction xs) auto

lemma find_idx_SomeI:
  "i < length xs \<Longrightarrow> P (xs ! i) \<Longrightarrow> (\<And>j. j < i \<Longrightarrow> \<not> P (xs ! j)) \<Longrightarrow> find_idx P xs = Some i"
proof (induction xs arbitrary: i)
  case Nil
  then show ?case by simp
next
  case (Cons x xs)
  show ?case
  proof (cases i)
    case 0
    with Cons.prems show ?thesis by simp
  next
    case (Suc j)
    have "\<not> P x" using Cons.prems(3) [of 0] Suc by simp
    moreover have "find_idx P xs = Some j"
      using Cons.prems(1,2) Suc Cons.prems(3) [of "Suc _"] by (intro Cons.IH) auto
    ultimately show ?thesis using Suc by simp
  qed
qed

lemma unat_eq_iff [simp]: "unat v = unat w \<longleftrightarrow> v = w"
  by (auto dest: unsigned_word_eqI)

lemma word_add_exact:
  "unat a + unat b < 2 ^ LENGTH('a) \<Longrightarrow> unat (a + b) = unat a + unat b" for a b :: "'a::len word"
  by (simp add: unat_word_ariths)

lemma word_sub_exact: "unat b \<le> unat a \<Longrightarrow> unat (a - b) = unat a - unat b" for a b :: "'a::len word"
  by (simp add: unat_sub word_le_nat_alt)

lemma unat_of_nat_exact: "k < 2 ^ LENGTH('a) \<Longrightarrow> unat (of_nat k :: 'a::len word) = k"
  by (simp add: unat_of_nat take_bit_nat_eq_self)

lemma take_eq_nth: "take k xs = take k ys \<Longrightarrow> i < k \<Longrightarrow> xs ! i = ys ! i"
  by (metis nth_take)

lemma take_eq_prefix:
  assumes "take k xs = take j ys @ zs" and "j \<le> k" and "j \<le> length ys"
  shows "take j xs = take j ys"
proof -
  have "take j xs = take j (take k xs)" using assms(2) by (simp add: min_def)
  also have "\<dots> = take j ys" using assms(1,3) by simp
  finally show ?thesis .
qed

section \<open>Lemmas on slices\<close>

lemma length_buf_get [simp]: "length (buf_get off n xs) = min n (length xs - off)"
  by (simp add: buf_get_def)

lemma length_buf_put [simp]:
  "off + length ys \<le> length xs \<Longrightarrow> length (buf_put off ys xs) = length xs"
  by (simp add: buf_put_def)

lemma nth_buf_get [simp]:
  "i < n \<Longrightarrow> off + i < length xs \<Longrightarrow> buf_get off n xs ! i = xs ! (off + i)"
  by (simp add: buf_get_def)

lemma nth_buf_put:
  "off + length ys \<le> length xs \<Longrightarrow> i < length xs \<Longrightarrow>
    buf_put off ys xs ! i = (if off \<le> i \<and> i < off + length ys then ys ! (i - off) else xs ! i)"
  by (auto simp: buf_put_def nth_append min_def)

lemma buf_get_0_full [simp]: "length xs \<le> n \<Longrightarrow> buf_get 0 n xs = xs"
  by (simp add: buf_get_def)

lemma buf_put_0_full [simp]: "length ys = length xs \<Longrightarrow> buf_put 0 ys xs = ys"
  by (simp add: buf_put_def)

lemma buf_put_Nil [simp]: "buf_put off [] xs = xs"
  by (simp add: buf_put_def)

lemma buf_get_put_same [simp]:
  "off + length ys \<le> length xs \<Longrightarrow> n = length ys \<Longrightarrow> buf_get off n (buf_put off ys xs) = ys"
  by (simp add: buf_get_def buf_put_def)

lemma buf_put_get_same [simp]:
  "off + n \<le> length xs \<Longrightarrow> buf_put off (buf_get off n xs) xs = xs"
  by (rule nth_equalityI) (auto simp: nth_buf_put)

lemma buf_put_put_same [simp]:
  "off + length ys \<le> length xs \<Longrightarrow> length zs = length ys \<Longrightarrow>
    buf_put off zs (buf_put off ys xs) = buf_put off zs xs"
  by (rule nth_equalityI) (auto simp: nth_buf_put)

lemma buf_get_put_disjoint:
  "off + length ys \<le> length xs \<Longrightarrow> o' + n \<le> length xs \<Longrightarrow>
    o' + n \<le> off \<or> off + length ys \<le> o' \<Longrightarrow>
    buf_get o' n (buf_put off ys xs) = buf_get o' n xs"
  by (rule nth_equalityI) (auto simp: nth_buf_put)

lemma buf_get_get:
  "b + m \<le> n \<Longrightarrow> buf_get b m (buf_get a n xs) = buf_get (a + b) m xs"
  by (simp add: buf_get_def take_drop add.commute min_def)

lemma buf_get_append_buf_get:
  "buf_get a (n + m) xs = buf_get a n xs @ buf_get (a + n) m xs"
  by (simp add: buf_get_def take_add add.commute [of n a])

section \<open>Lemmas on the little-endian codec\<close>

lemma length_le_enc [simp]: "length (le_enc n x) = n"
  by (induction n arbitrary: x) auto

lemma le_dec_bound: "le_dec bs < 256 ^ length bs"
proof (induction bs)
  case Nil
  then show ?case by simp
next
  case (Cons b bs)
  have "unat b < 256" using unsigned_less [of b, where ?'a = nat] by simp
  with Cons show ?case by simp
qed

lemma le_dec_enc [simp]: "le_dec (le_enc n x) = x mod 256 ^ n"
proof (induction n arbitrary: x)
  case 0
  then show ?case by simp
next
  case (Suc n)
  have "x mod 256 + 256 * (x div 256 mod 256 ^ n) = x mod (256 * 256 ^ n)"
    by (simp add: mod_mult2_eq)
  with Suc show ?case by (simp add: unat_of_nat)
qed

lemma le_enc_dec [simp]: "n = length bs \<Longrightarrow> le_enc n (le_dec bs) = bs"
proof (induction bs arbitrary: n)
  case Nil
  then show ?case by simp
next
  case (Cons b bs)
  have b: "unat b < 256" using unsigned_less [of b, where ?'a = nat] by simp
  have "(unat b + 256 * le_dec bs) div 256 = le_dec bs"
    and "(unat b + 256 * le_dec bs) mod 256 = unat b"
    using b by simp_all
  with Cons show ?case by simp
qed

lemma word_dec_enc [simp]:
  assumes "LENGTH('a) = 8 * w"
  shows "(of_nat (unat (v :: 'a::len word) mod 256 ^ w) :: 'a word) = v"
proof -
  have "unat v < 256 ^ w"
    using unsigned_less [of v, where ?'a = nat] assms by (simp add: power_mult)
  then show ?thesis by simp
qed

lemma enc_word_dec [simp]:
  assumes "LENGTH('a) = 8 * w" and "length bs = w"
  shows "le_enc w (unat (of_nat (le_dec bs) :: 'a::len word)) = bs"
proof -
  have "le_dec bs < 2 ^ LENGTH('a)"
    using le_dec_bound [of bs] assms by (simp add: power_mult)
  then have "unat (of_nat (le_dec bs) :: 'a word) = le_dec bs"
    by (simp add: unat_of_nat take_bit_nat_eq_self)
  then show ?thesis using assms(2) by simp
qed

lemma length_words_of [simp]: "length (words_of w bs) = length bs div w"
  by (simp add: words_of_def)

lemma nth_words_of [simp]: "i < length bs div w \<Longrightarrow> words_of w bs ! i = word_at w bs i"
  by (simp add: words_of_def)

lemma length_bytes_of [simp]: "length (bytes_of w ws) = w * length ws"
  by (induction ws) (auto simp: bytes_of_def)

lemma buf_get_bytes_of:
  "i < length ws \<Longrightarrow> buf_get (i * w) w (bytes_of w ws) = le_enc w (unat (ws ! i))"
proof (induction ws arbitrary: i)
  case Nil
  then show ?case by simp
next
  case (Cons v ws)
  show ?case
  proof (cases i)
    case 0
    then show ?thesis by (simp add: bytes_of_def buf_get_def)
  next
    case (Suc j)
    with Cons.prems have "buf_get (j * w) w (bytes_of w ws) = le_enc w (unat (ws ! j))"
      by (intro Cons.IH) simp
    with Suc show ?thesis by (simp add: bytes_of_def buf_get_def)
  qed
qed

lemma word_at_bytes_of [simp]:
  "LENGTH('a) = 8 * w \<Longrightarrow> i < length ws \<Longrightarrow> word_at w (bytes_of w ws) i = (ws ! i :: 'a::len word)"
  by (simp add: word_at_def buf_get_bytes_of)

lemma words_of_bytes_of [simp]:
  "LENGTH('a) = 8 * w \<Longrightarrow> words_of w (bytes_of w ws) = (ws :: 'a::len word list)"
  by (cases "w = 0") (auto intro: nth_equalityI)

lemma bytes_of_words_of [simp]:
  assumes "LENGTH('a) = 8 * w" and "w dvd length bs"
  shows "bytes_of w (words_of w bs :: 'a::len word list) = bs"
proof -
  have "w > 0" using assms(1) by (cases w) auto
  have "bytes_of w (map (word_at w bs) [0..<n] :: 'a word list) = take (n * w) bs"
    if "n * w \<le> length bs" for n
    using that
  proof (induction n)
    case 0
    then show ?case by (simp add: bytes_of_def)
  next
    case (Suc n)
    then have len: "length (buf_get (n * w) w bs) = w" by simp
    have "bytes_of w (map (word_at w bs) [0..<Suc n] :: 'a word list)
        = take (n * w) bs @ buf_get (n * w) w bs"
      using Suc assms(1) len by (simp add: bytes_of_def word_at_def comp_def)
    also have "\<dots> = take (n * w + w) bs"
      by (simp only: buf_get_def take_add)
    finally show ?case by (simp add: add.commute)
  qed
  from this [of "length bs div w"] assms(2) \<open>w > 0\<close> show ?thesis
    by (simp add: words_of_def)
qed

lemma bytes_of_update:
  assumes "LENGTH('a) = 8 * w" and "i < length ws"
  shows "bytes_of w (ws[i := (v :: 'a::len word)]) = buf_put (i * w) (le_enc w (unat v)) (bytes_of w ws)"
  using assms(2)
proof (induction ws arbitrary: i)
  case Nil
  then show ?case by simp
next
  case (Cons u ws)
  show ?case
  proof (cases i)
    case 0
    then show ?thesis by (simp add: bytes_of_def buf_put_def)
  next
    case (Suc j)
    with Cons show ?thesis by (simp add: bytes_of_def buf_put_def add.commute)
  qed
qed

end
