(* ===== verification/Address.thy ===== *)
theory Address
  imports Prelude
begin

text \<open>
  Addresses and page numbers of the Sv39 scheme, \<^verbatim>\<open>os/src/mm/address.rs\<close> and the
  constants of \<^verbatim>\<open>os/src/config.rs\<close>.

  The four newtypes over \<open>usize\<close> are datatypes with the source's constructors and its
  derived order. The conversions mask to the width of the type, \<open>usize_of_VirtAddr\<close>
  sign-extends bit 38, and the conversions from an address to a page number panic
  (\<open>None\<close>) on an unaligned address. \<open>SimpleRange\<close> and its iterator are generic in the
  stepped type; the locale \<open>step_by_one\<close> is the contract of the trait \<^verbatim>\<open>StepByOne\<close>, from
  which a loop over a range is shown to visit exactly the elements of the range.
\<close>

unbundle bit_operations_syntax

section \<open>Constants\<close>

definition PAGE_SIZE :: usize where
  "PAGE_SIZE = 0x1000"

definition PAGE_SIZE_BITS :: nat where
  "PAGE_SIZE_BITS = 12"

definition USER_STACK_SIZE :: usize where
  "USER_STACK_SIZE = 4096 * 2"

definition KERNEL_STACK_SIZE :: usize where
  "KERNEL_STACK_SIZE = 4096 * 2"

definition MAX_SYSCALL_NUM :: nat where
  "MAX_SYSCALL_NUM = 500"

definition TRAMPOLINE :: usize where
  "TRAMPOLINE = (- 1) - PAGE_SIZE + 1"

definition TRAP_CONTEXT_BASE :: usize where
  "TRAP_CONTEXT_BASE = TRAMPOLINE - PAGE_SIZE"

definition MEMORY_END :: usize where
  "MEMORY_END = 0x88000000"

definition MMIO :: "(usize \<times> usize) list" where
  "MMIO = [(0x10001000, 0x1000)]"

definition PA_WIDTH_SV39 :: nat where
  "PA_WIDTH_SV39 = 56"

definition VA_WIDTH_SV39 :: nat where
  "VA_WIDTH_SV39 = 39"

definition PPN_WIDTH_SV39 :: nat where
  "PPN_WIDTH_SV39 = PA_WIDTH_SV39 - PAGE_SIZE_BITS"

definition VPN_WIDTH_SV39 :: nat where
  "VPN_WIDTH_SV39 = VA_WIDTH_SV39 - PAGE_SIZE_BITS"

lemmas width_defs [const_defs] =
  PA_WIDTH_SV39_def VA_WIDTH_SV39_def PPN_WIDTH_SV39_def VPN_WIDTH_SV39_def
  PAGE_SIZE_BITS_def PAGE_SIZE_def

section \<open>The four newtypes\<close>

datatype PhysAddr = PhysAddr (pa: usize)

datatype VirtAddr = VirtAddr (va: usize)

datatype PhysPageNum = PhysPageNum (ppn: usize)

datatype VirtPageNum = VirtPageNum (vpn: usize)

instantiation VirtAddr :: linorder
begin

definition less_eq_VirtAddr :: "VirtAddr \<Rightarrow> VirtAddr \<Rightarrow> bool" where
  "less_eq_VirtAddr a b \<longleftrightarrow> va a \<le> va b"

definition less_VirtAddr :: "VirtAddr \<Rightarrow> VirtAddr \<Rightarrow> bool" where
  "less_VirtAddr a b \<longleftrightarrow> va a < va b"

instance
  by standard (auto simp: less_eq_VirtAddr_def less_VirtAddr_def VirtAddr.expand)

end

instantiation VirtPageNum :: linorder
begin

definition less_eq_VirtPageNum :: "VirtPageNum \<Rightarrow> VirtPageNum \<Rightarrow> bool" where
  "less_eq_VirtPageNum a b \<longleftrightarrow> vpn a \<le> vpn b"

definition less_VirtPageNum :: "VirtPageNum \<Rightarrow> VirtPageNum \<Rightarrow> bool" where
  "less_VirtPageNum a b \<longleftrightarrow> vpn a < vpn b"

instance
  by standard (auto simp: less_eq_VirtPageNum_def less_VirtPageNum_def VirtPageNum.expand)

end

instantiation PhysPageNum :: linorder
begin

definition less_eq_PhysPageNum :: "PhysPageNum \<Rightarrow> PhysPageNum \<Rightarrow> bool" where
  "less_eq_PhysPageNum a b \<longleftrightarrow> ppn a \<le> ppn b"

definition less_PhysPageNum :: "PhysPageNum \<Rightarrow> PhysPageNum \<Rightarrow> bool" where
  "less_PhysPageNum a b \<longleftrightarrow> ppn a < ppn b"

instance
  by standard (auto simp: less_eq_PhysPageNum_def less_PhysPageNum_def PhysPageNum.expand)

end

section \<open>Conversions\<close>

definition PhysAddr_of_usize :: "usize \<Rightarrow> PhysAddr" where
  "PhysAddr_of_usize v = PhysAddr (v AND (push_bit PA_WIDTH_SV39 1 - 1))"

definition PhysPageNum_of_usize :: "usize \<Rightarrow> PhysPageNum" where
  "PhysPageNum_of_usize v = PhysPageNum (v AND (push_bit PPN_WIDTH_SV39 1 - 1))"

definition VirtAddr_of_usize :: "usize \<Rightarrow> VirtAddr" where
  "VirtAddr_of_usize v = VirtAddr (v AND (push_bit VA_WIDTH_SV39 1 - 1))"

definition VirtPageNum_of_usize :: "usize \<Rightarrow> VirtPageNum" where
  "VirtPageNum_of_usize v = VirtPageNum (v AND (push_bit VPN_WIDTH_SV39 1 - 1))"

definition usize_of_PhysAddr :: "PhysAddr \<Rightarrow> usize" where
  "usize_of_PhysAddr v = pa v"

definition usize_of_PhysPageNum :: "PhysPageNum \<Rightarrow> usize" where
  "usize_of_PhysPageNum v = ppn v"

definition usize_of_VirtAddr :: "VirtAddr \<Rightarrow> usize" where
  "usize_of_VirtAddr v =
     (if va v \<ge> push_bit (VA_WIDTH_SV39 - 1) 1
      then va v OR NOT (push_bit VA_WIDTH_SV39 1 - 1) else va v)"

definition usize_of_VirtPageNum :: "VirtPageNum \<Rightarrow> usize" where
  "usize_of_VirtPageNum v = vpn v"

definition VirtAddr_floor :: "VirtAddr \<Rightarrow> VirtPageNum" where
  "VirtAddr_floor a = VirtPageNum (va a div PAGE_SIZE)"

definition VirtAddr_ceil :: "VirtAddr \<Rightarrow> VirtPageNum" where
  "VirtAddr_ceil a = VirtPageNum ((va a - 1 + PAGE_SIZE) div PAGE_SIZE)"

definition VirtAddr_page_offset :: "VirtAddr \<Rightarrow> usize" where
  "VirtAddr_page_offset a = va a AND (PAGE_SIZE - 1)"

definition VirtAddr_aligned :: "VirtAddr \<Rightarrow> bool" where
  "VirtAddr_aligned a \<longleftrightarrow> VirtAddr_page_offset a = 0"

definition VirtPageNum_of_VirtAddr :: "VirtAddr \<Rightarrow> VirtPageNum option" where
  "VirtPageNum_of_VirtAddr v = (if VirtAddr_page_offset v = 0 then Some (VirtAddr_floor v) else None)"

definition VirtAddr_of_VirtPageNum :: "VirtPageNum \<Rightarrow> VirtAddr" where
  "VirtAddr_of_VirtPageNum v = VirtAddr (push_bit PAGE_SIZE_BITS (vpn v))"

definition PhysAddr_floor :: "PhysAddr \<Rightarrow> PhysPageNum" where
  "PhysAddr_floor a = PhysPageNum (pa a div PAGE_SIZE)"

definition PhysAddr_ceil :: "PhysAddr \<Rightarrow> PhysPageNum" where
  "PhysAddr_ceil a = PhysPageNum ((pa a - 1 + PAGE_SIZE) div PAGE_SIZE)"

definition PhysAddr_page_offset :: "PhysAddr \<Rightarrow> usize" where
  "PhysAddr_page_offset a = pa a AND (PAGE_SIZE - 1)"

definition PhysAddr_aligned :: "PhysAddr \<Rightarrow> bool" where
  "PhysAddr_aligned a \<longleftrightarrow> PhysAddr_page_offset a = 0"

definition PhysPageNum_of_PhysAddr :: "PhysAddr \<Rightarrow> PhysPageNum option" where
  "PhysPageNum_of_PhysAddr v = (if PhysAddr_page_offset v = 0 then Some (PhysAddr_floor v) else None)"

definition PhysAddr_of_PhysPageNum :: "PhysPageNum \<Rightarrow> PhysAddr" where
  "PhysAddr_of_PhysPageNum v = PhysAddr (push_bit PAGE_SIZE_BITS (ppn v))"

text \<open>The three 9-bit indexes of a virtual page number, most significant first.\<close>

fun index_loop :: "nat \<Rightarrow> usize \<Rightarrow> usize list \<Rightarrow> usize list" where
  "index_loop 0 v idx = idx"
| "index_loop (Suc i) v idx = index_loop i (drop_bit 9 v) (idx[i := v AND 511])"

definition indexes :: "VirtPageNum \<Rightarrow> usize list" where
  "indexes v = index_loop 3 (vpn v) [0, 0, 0]"

section \<open>Ranges\<close>

definition VirtPageNum_step :: "VirtPageNum \<Rightarrow> VirtPageNum" where
  "VirtPageNum_step v = VirtPageNum (vpn v + 1)"

definition PhysPageNum_step :: "PhysPageNum \<Rightarrow> PhysPageNum" where
  "PhysPageNum_step v = PhysPageNum (ppn v + 1)"

record 'a SimpleRange =
  range_l :: 'a
  range_r :: 'a

definition SimpleRange_new :: "'a::linorder \<Rightarrow> 'a \<Rightarrow> 'a SimpleRange option" where
  "SimpleRange_new start end' =
     (if start \<le> end' then Some \<lparr>range_l = start, range_r = end'\<rparr> else None)"

definition get_start :: "'a SimpleRange \<Rightarrow> 'a" where
  "get_start r = range_l r"

definition get_end :: "'a SimpleRange \<Rightarrow> 'a" where
  "get_end r = range_r r"

text \<open>The state of the iterator is its \<open>current\<close>; its \<open>end\<close> never changes.\<close>

definition SimpleRangeIterator_next :: "('a \<Rightarrow> 'a) \<Rightarrow> 'a \<Rightarrow> 'a \<Rightarrow> ('a \<times> 'a) option" where
  "SimpleRangeIterator_next step end' current =
     (if current = end' then None else Some (current, step current))"

text \<open>What a \<^verbatim>\<open>for\<close> loop over a range visits: \<open>None\<close> when the iterator never ends.\<close>

partial_function (option) range_iter :: "('a \<Rightarrow> 'a) \<Rightarrow> 'a \<Rightarrow> 'a \<Rightarrow> 'a list option" where
  "range_iter step end' current =
     (case SimpleRangeIterator_next step end' current of
        None \<Rightarrow> Some []
      | Some (t, current') \<Rightarrow>
          do { ts \<leftarrow> range_iter step end' current'; Some (t # ts) })"

type_synonym VPNRange = "VirtPageNum SimpleRange"

definition vpns :: "VPNRange \<Rightarrow> VirtPageNum list option" where
  "vpns r = range_iter VirtPageNum_step (get_end r) (get_start r)"

section \<open>Widths and page arithmetic\<close>

lemma and_width [simp]: "v AND (push_bit n 1 - 1) = take_bit n v" for v :: usize
  by (simp add: take_bit_eq_mask mask_eq_exp_minus_1 push_bit_eq_mult)

lemma and_width_power [simp]: "v AND (2 ^ n - 1) = take_bit n v" for v :: usize
  by (simp add: take_bit_eq_mask mask_eq_exp_minus_1)

lemma unat_page_size [simp]: "unat PAGE_SIZE = 4096"
  by (simp add: PAGE_SIZE_def)

lemma page_offset_take_bit: "v AND (PAGE_SIZE - 1) = take_bit 12 v"
  using and_width [of v 12] by (simp add: PAGE_SIZE_def)

lemma div_page_size: "v div PAGE_SIZE = drop_bit 12 v"
  by (simp add: PAGE_SIZE_def drop_bit_eq_div)

lemma unat_take_bit: "unat (take_bit n v) = unat v mod 2 ^ n" for v :: "'a::len word"
  unfolding unsigned_take_bit_eq by (simp add: take_bit_eq_mod)

lemma unat_drop_bit: "unat (drop_bit n v) = unat v div 2 ^ n" for v :: "'a::len word"
  unfolding unsigned_drop_bit_eq by (simp add: drop_bit_eq_div take_bit_nat_eq_self)

lemma unat_push_bit:
  "unat v * 2 ^ n < 2 ^ LENGTH('a) \<Longrightarrow> unat (push_bit n v) = unat v * 2 ^ n" for v :: "'a::len word"
  unfolding unsigned_push_bit_eq by (simp add: push_bit_eq_mult take_bit_nat_eq_self)

lemma page_parts:
  "unat v = unat (drop_bit 12 v) * 4096 + unat (take_bit 12 v)" for v :: usize
  by (simp add: unat_take_bit unat_drop_bit)

lemma of_usize_eqs:
  "PhysAddr_of_usize v = PhysAddr (take_bit 56 v)"
  "PhysPageNum_of_usize v = PhysPageNum (take_bit 44 v)"
  "VirtAddr_of_usize v = VirtAddr (take_bit 39 v)"
  "VirtPageNum_of_usize v = VirtPageNum (take_bit 27 v)"
  unfolding PhysAddr_of_usize_def PhysPageNum_of_usize_def VirtAddr_of_usize_def
    VirtPageNum_of_usize_def and_width width_defs by simp_all

text \<open>A virtual address read back as a \<open>usize\<close> is the sign extension of bit 38.\<close>

lemma odd_div_iff: "odd (x div m) \<longleftrightarrow> m \<le> x mod (2 * m)" if "0 < m" for x m :: nat
proof -
  have "x mod (2 * m) = m * (x div m mod 2) + x mod m"
    by (metis mod_mult2_eq mult.commute)
  moreover have "x mod m < m" using that by simp
  ultimately show ?thesis by (cases "odd (x div m)") (auto simp: odd_iff_mod_2_eq_one)
qed

lemma bit_sign_38: "bit v 38 \<longleftrightarrow> 2 ^ 38 \<le> take_bit 39 v" for v :: usize
proof -
  have "bit v 38 \<longleftrightarrow> odd (unat v div 2 ^ 38)"
    using bit_unsigned_iff [of v 38, where ?'a = nat] by (simp add: bit_iff_odd)
  also have "\<dots> \<longleftrightarrow> 2 ^ 38 \<le> unat (take_bit 39 v)"
    using odd_div_iff [of "2 ^ 38" "unat v"] by (simp add: unat_take_bit)
  finally show ?thesis by (simp add: word_le_nat_alt)
qed

lemma usize_of_VirtAddr_of_usize:
  "usize_of_VirtAddr (VirtAddr_of_usize v) = signed_take_bit 38 v"
proof -
  have mask: "push_bit 39 1 - 1 = (mask 39 :: usize)" and top: "push_bit (39 - 1) 1 = (2 ^ 38 :: usize)"
    by (simp_all add: mask_eq_exp_minus_1 push_bit_eq_mult)
  have "take_bit 39 v OR NOT (mask 39) = v OR NOT (mask 39)"
    by (rule bit_eqI) (auto simp: bit_simps)
  moreover have "signed_take_bit 38 v = (if bit v 38 then v OR NOT (mask 39) else take_bit 39 v)"
    by (rule bit_eqI) (auto simp: bit_simps bit_signed_take_bit_iff min_def le_less_Suc_eq
        dest: le_antisym)
  ultimately show ?thesis
    unfolding usize_of_VirtAddr_def of_usize_eqs VA_WIDTH_SV39_def VirtAddr.sel mask top bit_sign_38
    by metis
qed

lemma VirtAddr_roundtrip: "VirtAddr_of_usize (usize_of_VirtAddr (VirtAddr_of_usize v)) = VirtAddr_of_usize v"
  unfolding usize_of_VirtAddr_of_usize
  unfolding of_usize_eqs by (simp add: take_bit_signed_take_bit)

section \<open>Rounding to pages\<close>

lemma VirtAddr_floor_eq: "unat (vpn (VirtAddr_floor a)) = unat (va a) div 4096"
  by (simp add: VirtAddr_floor_def unat_div)

lemma VirtAddr_ceil_eq:
  assumes "va a \<noteq> 0" and "unat (va a) \<le> 2 ^ 64 - 4096"
  shows "unat (vpn (VirtAddr_ceil a)) = (unat (va a) + 4095) div 4096"
proof -
  have "va a - 1 + PAGE_SIZE = va a + 4095" by (simp add: PAGE_SIZE_def)
  moreover have "unat (va a + 4095) = unat (va a) + 4095"
    using assms(2) by (subst word_add_exact) simp_all
  ultimately have "unat (va a - 1 + PAGE_SIZE) = unat (va a) + 4095" by (simp only:)
  then show ?thesis by (simp add: VirtAddr_ceil_def unat_div)
qed

text \<open>For address 0 the subtraction wraps and \<open>ceil\<close> still gives page 0.\<close>

lemma VirtAddr_ceil_0: "VirtAddr_ceil (VirtAddr 0) = VirtPageNum 0"
  by (simp add: VirtAddr_ceil_def PAGE_SIZE_def)

lemma VirtAddr_ceil_39:
  assumes "unat (va a) \<le> 2 ^ 39"
  shows "unat (vpn (VirtAddr_ceil a)) = (unat (va a) + 4095) div 4096"
proof (cases "va a = 0")
  case True
  then show ?thesis using VirtAddr_ceil_0 by (cases a) simp
next
  case False
  with assms show ?thesis by (intro VirtAddr_ceil_eq) simp_all
qed

lemma VirtAddr_floor_le_ceil:
  "unat (va a) \<le> 2 ^ 39 \<Longrightarrow> VirtAddr_floor a \<le> VirtAddr_ceil a"
  by (simp add: less_eq_VirtPageNum_def word_le_nat_alt VirtAddr_floor_eq VirtAddr_ceil_39)

lemma VirtAddr_of_usize_bound: "unat (va (VirtAddr_of_usize v)) < 2 ^ 39"
  by (simp add: of_usize_eqs unat_take_bit)

lemma VirtPageNum_of_VirtAddr_roundtrip:
  "unat (vpn v) < 2 ^ 52 \<Longrightarrow> VirtPageNum_of_VirtAddr (VirtAddr_of_VirtPageNum v) = Some v"
proof -
  assume v: "unat (vpn v) < 2 ^ 52"
  have "take_bit 12 (push_bit 12 (vpn v)) = 0"
    by (rule bit_eqI) (auto simp: bit_simps)
  moreover have "drop_bit 12 (push_bit 12 (vpn v)) = vpn v"
    using v by (subst unat_eq_iff [symmetric]) (simp add: unat_drop_bit unat_push_bit)
  ultimately show ?thesis
    unfolding VirtPageNum_of_VirtAddr_def VirtAddr_page_offset_def VirtAddr_floor_def
      VirtAddr_of_VirtPageNum_def page_offset_take_bit div_page_size PAGE_SIZE_BITS_def VirtAddr.sel
    by simp
qed

lemma VirtAddr_of_VirtPageNum_roundtrip:
  "VirtPageNum_of_VirtAddr a = Some v \<Longrightarrow> VirtAddr_of_VirtPageNum v = a"
proof -
  assume "VirtPageNum_of_VirtAddr a = Some v"
  then have "take_bit 12 (va a) = 0" and v: "vpn v = drop_bit 12 (va a)"
    unfolding VirtPageNum_of_VirtAddr_def VirtAddr_page_offset_def VirtAddr_floor_def
      page_offset_take_bit div_page_size by (auto split: if_splits)
  then have "push_bit 12 (vpn v) = va a"
    using bits_ident [of 12 "va a"] by simp
  then show ?thesis by (cases a) (simp add: VirtAddr_of_VirtPageNum_def PAGE_SIZE_BITS_def)
qed

section \<open>Page table indexes\<close>

lemma indexes_eq:
  "indexes v = [take_bit 9 (drop_bit 18 (vpn v)), take_bit 9 (drop_bit 9 (vpn v)), take_bit 9 (vpn v)]"
proof -
  have "x AND 511 = take_bit 9 x" for x :: usize
    using and_width_power [of x 9] by simp
  then show ?thesis by (simp add: indexes_def numeral_3_eq_3 drop_bit_drop_bit)
qed

lemma length_indexes [simp]: "length (indexes v) = 3"
  by (simp add: indexes_eq)

lemma indexes_bound: "i \<in> set (indexes v) \<Longrightarrow> unat i < 512"
  by (auto simp: indexes_eq unat_take_bit)

lemma indexes_recompose:
  assumes "unat (vpn v) < 2 ^ 27" and "indexes v = [a, b, c]"
  shows "unat (vpn v) = (unat a * 512 + unat b) * 512 + unat c"
proof -
  let ?n = "unat (vpn v)"
  have "?n div 512 div 512 < 512" using assms(1) by (simp add: div_mult2_eq [symmetric] less_mult_imp_div_less)
  moreover have "?n div 262144 = ?n div 512 div 512" by (simp add: div_mult2_eq [symmetric])
  ultimately have "unat (take_bit 9 (drop_bit 18 (vpn v))) = ?n div 512 div 512"
    by (simp add: unat_take_bit unat_drop_bit)
  moreover have "a = take_bit 9 (drop_bit 18 (vpn v))" "b = take_bit 9 (drop_bit 9 (vpn v))"
      "c = take_bit 9 (vpn v)"
    using assms(2) by (auto simp: indexes_eq)
  ultimately show ?thesis by (simp add: unat_take_bit unat_drop_bit)
qed

lemma indexes_inj:
  assumes "unat (vpn v) < 2 ^ 27" and "unat (vpn w) < 2 ^ 27" and "indexes v = indexes w"
  shows "v = w"
proof -
  have "unat (vpn v) = unat (vpn w)"
    using indexes_recompose [OF assms(1) indexes_eq]
      indexes_recompose [OF assms(2) indexes_eq [of v, unfolded assms(3)]] by (simp only:)
  then show ?thesis by (simp add: VirtPageNum.expand)
qed

section \<open>Iteration over a range\<close>

text \<open>
  The contract of \<^verbatim>\<open>StepByOne\<close>: \<open>pos\<close> numbers the values, and a step below another value
  increases the number by one. A \<^verbatim>\<open>for\<close> loop over a range then terminates and visits
  every position from the start of the range up to its end, once and in order.
\<close>

locale step_by_one =
  fixes step :: "'a \<Rightarrow> 'a" and pos :: "'a \<Rightarrow> nat"
  assumes pos_inj: "pos a = pos b \<Longrightarrow> a = b"
    and pos_step: "pos a < pos b \<Longrightarrow> pos (step a) = Suc (pos a)"
begin

lemma range_iter_returns:
  assumes "pos a \<le> pos b"
  shows "\<exists>ts. range_iter step b a = Some ts \<and> map pos ts = [pos a..<pos b]"
  using assms
proof (induction "pos b - pos a" arbitrary: a)
  case 0
  then have "a = b" using pos_inj by simp
  then show ?case by (subst range_iter.simps) (simp add: SimpleRangeIterator_next_def)
next
  case (Suc n)
  then have lt: "pos a < pos b" by simp
  note st = pos_step [OF lt]
  have "n = pos b - pos (step a)" and "pos (step a) \<le> pos b" using Suc.hyps(2) lt st by simp_all
  from Suc.hyps(1) [OF this] obtain ts
    where ts: "range_iter step b (step a) = Some ts" "map pos ts = [Suc (pos a)..<pos b]"
    using st by auto
  have "range_iter step b a = Some (a # ts)"
    using lt ts(1) by (subst range_iter.simps) (auto simp: SimpleRangeIterator_next_def)
  moreover have "map pos (a # ts) = [pos a..<pos b]"
    using ts(2) lt by (simp add: upt_rec [of "pos a"])
  ultimately show ?case by blast
qed

lemma range_iter_set:
  assumes "range_iter step b a = Some ts" and "pos a \<le> pos b"
  shows "map pos ts = [pos a..<pos b]"
  using range_iter_returns [OF assms(2)] assms(1) by auto

end

interpretation vpn_step: step_by_one VirtPageNum_step "\<lambda>v. unat (vpn v)"
proof
  show "a = b" if "unat (vpn a) = unat (vpn b)" for a b
    using that by (simp add: VirtPageNum.expand)
  show "unat (vpn (VirtPageNum_step a)) = Suc (unat (vpn a))" if "unat (vpn a) < unat (vpn b)" for a b
  proof -
    have "unat (vpn b) < 2 ^ 64" using unsigned_less [of "vpn b", where ?'a = nat] by simp
    with that show ?thesis by (simp add: VirtPageNum_step_def word_add_exact)
  qed
qed

interpretation ppn_step: step_by_one PhysPageNum_step "\<lambda>v. unat (ppn v)"
proof
  show "a = b" if "unat (ppn a) = unat (ppn b)" for a b
    using that by (simp add: PhysPageNum.expand)
  show "unat (ppn (PhysPageNum_step a)) = Suc (unat (ppn a))" if "unat (ppn a) < unat (ppn b)" for a b
  proof -
    have "unat (ppn b) < 2 ^ 64" using unsigned_less [of "ppn b", where ?'a = nat] by simp
    with that show ?thesis by (simp add: PhysPageNum_step_def word_add_exact)
  qed
qed

lemma SimpleRange_new_vpns:
  assumes "SimpleRange_new a b = Some (r :: VPNRange)"
  obtains ts where "vpns r = Some ts" and "map (\<lambda>v. unat (vpn v)) ts = [unat (vpn a)..<unat (vpn b)]"
    and "get_start r = a" and "get_end r = b"
proof -
  from assms have ab: "a \<le> b" and r: "r = \<lparr>range_l = a, range_r = b\<rparr>"
    by (auto simp: SimpleRange_new_def split: if_splits)
  from ab have "unat (vpn a) \<le> unat (vpn b)" by (simp add: less_eq_VirtPageNum_def word_le_nat_alt)
  from vpn_step.range_iter_returns [OF this] show ?thesis
    using r that by (auto simp: vpns_def get_start_def get_end_def)
qed

lemma vpns_new:
  assumes "SimpleRange_new a b = Some (r :: VPNRange)" and "vpns r = Some ts"
  shows "distinct ts" and "set ts = {a..<b}" and "length ts = unat (vpn b) - unat (vpn a)"
proof -
  obtain us where us: "vpns r = Some us" "map (\<lambda>v. unat (vpn v)) us = [unat (vpn a)..<unat (vpn b)]"
    by (rule SimpleRange_new_vpns [OF assms(1)])
  with assms(2) have ts: "map (\<lambda>v. unat (vpn v)) ts = [unat (vpn a)..<unat (vpn b)]" by simp
  show "distinct ts" using ts by (metis distinct_map distinct_upt)
  show "length ts = unat (vpn b) - unat (vpn a)" using arg_cong [OF ts, of length] by simp
  have "v \<in> set ts \<longleftrightarrow> unat (vpn v) \<in> {unat (vpn a)..<unat (vpn b)}" for v
  proof -
    have "inj (\<lambda>v. unat (vpn v))" by (rule injI) (simp add: VirtPageNum.expand)
    then have "v \<in> set ts \<longleftrightarrow> unat (vpn v) \<in> set (map (\<lambda>v. unat (vpn v)) ts)"
      using inj_image_mem_iff [of "\<lambda>v. unat (vpn v)" v "set ts"] by simp
    then show ?thesis unfolding ts by simp
  qed
  then show "set ts = {a..<b}"
    unfolding set_eq_iff atLeastLessThan_iff less_eq_VirtPageNum_def less_VirtPageNum_def
      word_le_nat_alt word_less_nat_alt by blast
qed

end
