(* ===== verification/Allocator.thy ===== *)
theory Allocator
  imports Prelude
begin

text \<open>
  The contract of the kernel's resource allocators: physical frames
  (\<^verbatim>\<open>StackFrameAllocator\<close> of \<^verbatim>\<open>os/src/mm/frame_allocator.rs\<close>), process identifiers and
  kernel stacks (\<^verbatim>\<open>RecycleAllocator\<close> of \<^verbatim>\<open>os/src/task/id.rs\<close>). \<open>live\<close> is the set of
  resources handed out and not yet returned, \<open>room\<close> the number of allocations that are
  sure to succeed. The locale proves what a client relies on once, for all of them: any
  sequence of allocations hands out pairwise different resources, and what is returned
  can be allocated again.
\<close>

section \<open>Sequences of requests\<close>

fun alloc_list :: "('s \<Rightarrow> 'a option \<times> 's) \<Rightarrow> nat \<Rightarrow> 's \<Rightarrow> 'a option list \<times> 's" where
  "alloc_list al 0 s = ([], s)"
| "alloc_list al (Suc n) s = (let (x, s1) = al s; (xs, s2) = alloc_list al n s1 in (x # xs, s2))"

fun dealloc_list :: "('a \<Rightarrow> 's \<Rightarrow> 's option) \<Rightarrow> 'a list \<Rightarrow> 's \<Rightarrow> 's option" where
  "dealloc_list de [] s = Some s"
| "dealloc_list de (x # xs) s = do { s1 \<leftarrow> de x s; dealloc_list de xs s1 }"

section \<open>The contract\<close>

locale allocator =
  fixes alloc :: "'s \<Rightarrow> 'a option \<times> 's" and dealloc :: "'a \<Rightarrow> 's \<Rightarrow> 's option"
    and inv :: "'s \<Rightarrow> bool" and live :: "'s \<Rightarrow> 'a set" and room :: "'s \<Rightarrow> nat"
  assumes alloc_law: "inv s \<Longrightarrow> 0 < room s \<Longrightarrow>
      \<exists>x s'. alloc s = (Some x, s') \<and> inv s' \<and> x \<notin> live s \<and> live s' = insert x (live s)
        \<and> Suc (room s') = room s"
    and dealloc_law: "inv s \<Longrightarrow> x \<in> live s \<Longrightarrow>
      \<exists>s'. dealloc x s = Some s' \<and> inv s' \<and> live s' = live s - {x} \<and> room s' = Suc (room s)"
    and dealloc_twice: "inv s \<Longrightarrow> x \<in> live s \<Longrightarrow> dealloc x s = Some s' \<Longrightarrow> dealloc x s' = None"
begin

lemma allocE:
  assumes "inv s" and "0 < room s"
  obtains x s' where "alloc s = (Some x, s')" "inv s'" "x \<notin> live s" "live s' = insert x (live s)"
    "Suc (room s') = room s"
  using alloc_law [OF assms] by blast

lemma deallocE:
  assumes "inv s" and "x \<in> live s"
  obtains s' where "dealloc x s = Some s'" "inv s'" "live s' = live s - {x}" "room s' = Suc (room s)"
  using dealloc_law [OF assms] by blast

lemma alloc_list_distinct:
  assumes "inv s" and "n \<le> room s"
  shows "\<exists>xs s'. alloc_list alloc n s = (map Some xs, s') \<and> inv s' \<and> length xs = n \<and> distinct xs
    \<and> set xs \<inter> live s = {} \<and> live s' = live s \<union> set xs \<and> room s' + n = room s"
  using assms
proof (induction n arbitrary: s)
  case 0
  then show ?case by simp
next
  case (Suc n)
  have "0 < room s" using Suc.prems(2) by simp
  from Suc.prems(1) this obtain x s1 where a: "alloc s = (Some x, s1)" "inv s1" "x \<notin> live s"
      "live s1 = insert x (live s)" "Suc (room s1) = room s"
    by (rule allocE)
  have "n \<le> room s1" using Suc.prems(2) a(5) by simp
  from Suc.IH [OF a(2) this] obtain xs s2
    where b: "alloc_list alloc n s1 = (map Some xs, s2)" "inv s2" "length xs = n" "distinct xs"
      "set xs \<inter> live s1 = {}" "live s2 = live s1 \<union> set xs" "room s2 + n = room s1"
    by blast
  have "alloc_list alloc (Suc n) s = (map Some (x # xs), s2)" using a(1) b(1) by simp
  moreover have "distinct (x # xs)" and "set (x # xs) \<inter> live s = {}"
    and "live s2 = live s \<union> set (x # xs)"
    using a(3,4) b(4,5,6) by auto
  ultimately show ?case using b(2,3,7) a(5) by (intro exI [of _ "x # xs"] exI [of _ s2]) simp
qed

lemma dealloc_list_returns:
  assumes "inv s" and "distinct xs" and "set xs \<subseteq> live s"
  shows "\<exists>s'. dealloc_list dealloc xs s = Some s' \<and> inv s' \<and> live s' = live s - set xs
    \<and> room s' = room s + length xs"
  using assms
proof (induction xs arbitrary: s)
  case Nil
  then show ?case by simp
next
  case (Cons x xs)
  have "x \<in> live s" using Cons.prems(3) by simp
  from Cons.prems(1) this obtain s1 where a: "dealloc x s = Some s1" "inv s1" "live s1 = live s - {x}"
      "room s1 = Suc (room s)"
    by (rule deallocE)
  have "set xs \<subseteq> live s1" using a(3) Cons.prems(2,3) by auto
  moreover have "distinct xs" using Cons.prems(2) by simp
  ultimately obtain s2
    where b: "dealloc_list dealloc xs s1 = Some s2" "inv s2" "live s2 = live s1 - set xs"
      "room s2 = room s1 + length xs"
    using Cons.IH [OF a(2)] by blast
  have "live s2 = live s - set (x # xs)" unfolding b(3) a(3) by auto
  with a(1,4) b show ?case by simp
qed

text \<open>Everything allocated can be given back, and then the allocator has all its room again.\<close>

lemma alloc_dealloc_list:
  assumes "inv s" and "n \<le> room s"
  shows "\<exists>xs s1 s2. alloc_list alloc n s = (map Some xs, s1) \<and> dealloc_list dealloc xs s1 = Some s2
    \<and> inv s2 \<and> live s2 = live s \<and> room s2 = room s"
proof -
  from alloc_list_distinct [OF assms] obtain xs s1
    where a: "alloc_list alloc n s = (map Some xs, s1)" "inv s1" "length xs = n" "distinct xs"
      "set xs \<inter> live s = {}" "live s1 = live s \<union> set xs" "room s1 + n = room s" by blast
  have "set xs \<subseteq> live s1" unfolding a(6) by blast
  from dealloc_list_returns [OF a(2,4) this] obtain s2
    where b: "dealloc_list dealloc xs s1 = Some s2" "inv s2" "live s2 = live s1 - set xs"
      "room s2 = room s1 + length xs" by blast
  have "live s2 = live s" unfolding b(3) a(6) using a(5) by auto
  moreover have "room s2 = room s" using b(4) a(3,7) by simp
  ultimately show ?thesis using a(1) b(1,2) by blast
qed

end

text \<open>An allocator that reports exhaustion instead of handing out a resource twice.\<close>

locale bounded_allocator = allocator +
  assumes alloc_full: "inv s \<Longrightarrow> room s = 0 \<Longrightarrow> alloc s = (None, s)"
begin

lemma alloc_none_iff: "inv s \<Longrightarrow> fst (alloc s) = None \<longleftrightarrow> room s = 0"
  using alloc_full [of s] alloc_law [of s] by (cases "room s = 0") auto

lemma alloc_fresh:
  "inv s \<Longrightarrow> alloc s = (Some x, s') \<Longrightarrow>
    inv s' \<and> x \<notin> live s \<and> live s' = insert x (live s) \<and> Suc (room s') = room s"
  using alloc_full [of s] alloc_law [of s] by (cases "room s = 0") auto

end

end
