(* ===== verification/FrameAllocator.thy ===== *)
theory FrameAllocator
  imports Address Allocator
begin

text \<open>
  Physical memory and the frame allocator, \<^verbatim>\<open>os/src/mm/frame_allocator.rs\<close> and the raw
  accesses of \<^verbatim>\<open>os/src/mm/address.rs\<close>.

  Physical memory is a function from physical byte addresses to bytes: the kernel maps it
  identically, so a \<open>PhysAddr\<close> cast to a pointer reads and writes it directly. A
  \<open>FrameTracker\<close> is a value; where Rust drops one, the model calls \<open>frame_dealloc\<close>.
  The memory and the global \<^verbatim>\<open>FRAME_ALLOCATOR\<close> form the state \<open>kmem\<close>.
\<close>

section \<open>Physical memory\<close>

type_synonym phys_mem = "usize \<Rightarrow> u8"

definition mem_get :: "phys_mem \<Rightarrow> usize \<Rightarrow> nat \<Rightarrow> bytes" where
  "mem_get m a n = map (\<lambda>i. m (a + of_nat i)) [0..<n]"

definition mem_put :: "usize \<Rightarrow> bytes \<Rightarrow> phys_mem \<Rightarrow> phys_mem" where
  "mem_put a bs m = (\<lambda>x. if unat (x - a) < length bs then bs ! unat (x - a) else m x)"

definition page_addr :: "PhysPageNum \<Rightarrow> usize" where
  "page_addr p = pa (PhysAddr_of_PhysPageNum p)"

definition get_bytes_array :: "phys_mem \<Rightarrow> PhysPageNum \<Rightarrow> bytes" where
  "get_bytes_array m p = mem_get m (page_addr p) 4096"

text \<open>Writing through the slice of a page, from offset \<open>off\<close> of it on.\<close>

definition put_bytes_array :: "PhysPageNum \<Rightarrow> nat \<Rightarrow> bytes \<Rightarrow> phys_mem \<Rightarrow> phys_mem" where
  "put_bytes_array p off bs m = mem_put (page_addr p + of_nat off) bs m"

text \<open>\<^verbatim>\<open>get_ref\<close> and \<^verbatim>\<open>get_mut\<close> of a physical address, for a type of \<open>n\<close> bytes. Their check for a null
  pointer is left out: the frames that the kernel hands out lie after its image, not at address 0.\<close>

definition PhysAddr_get_ref :: "nat \<Rightarrow> phys_mem \<Rightarrow> PhysAddr \<Rightarrow> bytes" where
  "PhysAddr_get_ref n m a = mem_get m (pa a) n"

definition PhysAddr_set_mut :: "PhysAddr \<Rightarrow> bytes \<Rightarrow> phys_mem \<Rightarrow> phys_mem" where
  "PhysAddr_set_mut a bs m = mem_put (pa a) bs m"

section \<open>The allocator\<close>

datatype FrameTracker = FrameTracker (frame_ppn: PhysPageNum)

record StackFrameAllocator =
  sfa_current :: usize
  sfa_end :: usize
  sfa_recycled :: "usize list"

definition StackFrameAllocator_new :: StackFrameAllocator where
  "StackFrameAllocator_new = \<lparr>sfa_current = 0, sfa_end = 0, sfa_recycled = []\<rparr>"

definition StackFrameAllocator_init ::
    "PhysPageNum \<Rightarrow> PhysPageNum \<Rightarrow> StackFrameAllocator \<Rightarrow> StackFrameAllocator" where
  "StackFrameAllocator_init l r a = a\<lparr>sfa_current := ppn l, sfa_end := ppn r\<rparr>"

definition StackFrameAllocator_alloc ::
    "StackFrameAllocator \<Rightarrow> PhysPageNum option \<times> StackFrameAllocator" where
  "StackFrameAllocator_alloc a =
     (if sfa_recycled a \<noteq> []
      then (Some (PhysPageNum_of_usize (last (sfa_recycled a))),
            a\<lparr>sfa_recycled := butlast (sfa_recycled a)\<rparr>)
      else if sfa_current a = sfa_end a then (None, a)
      else let a' = a\<lparr>sfa_current := sfa_current a + 1\<rparr>
           in (Some (PhysPageNum_of_usize (sfa_current a' - 1)), a'))"

definition StackFrameAllocator_dealloc ::
    "PhysPageNum \<Rightarrow> StackFrameAllocator \<Rightarrow> StackFrameAllocator option" where
  "StackFrameAllocator_dealloc p a =
     (if ppn p \<ge> sfa_current a \<or> (\<exists>v \<in> set (sfa_recycled a). v = ppn p) then None
      else Some (a\<lparr>sfa_recycled := sfa_recycled a @ [ppn p]\<rparr>))"

section \<open>The kernel's frames\<close>

record kmem =
  phys :: phys_mem
  frame_allocator :: StackFrameAllocator

definition FrameTracker_new :: "PhysPageNum \<Rightarrow> phys_mem \<Rightarrow> FrameTracker \<times> phys_mem" where
  "FrameTracker_new p m = (FrameTracker p, put_bytes_array p 0 (replicate 4096 0) m)"

definition init_frame_allocator :: "usize \<Rightarrow> kmem \<Rightarrow> kmem" where
  "init_frame_allocator ekernel k =
     k\<lparr>frame_allocator := StackFrameAllocator_init
         (PhysAddr_ceil (PhysAddr_of_usize ekernel)) (PhysAddr_floor (PhysAddr_of_usize MEMORY_END))
         (frame_allocator k)\<rparr>"

definition frame_alloc :: "kmem \<Rightarrow> FrameTracker option \<times> kmem" where
  "frame_alloc k =
     (case StackFrameAllocator_alloc (frame_allocator k) of
        (None, a) \<Rightarrow> (None, k\<lparr>frame_allocator := a\<rparr>)
      | (Some p, a) \<Rightarrow>
          (let (f, m) = FrameTracker_new p (phys k)
           in (Some f, k\<lparr>phys := m, frame_allocator := a\<rparr>)))"

definition frame_dealloc :: "PhysPageNum \<Rightarrow> kmem \<Rightarrow> kmem option" where
  "frame_dealloc p k =
     map_option (\<lambda>a. k\<lparr>frame_allocator := a\<rparr>) (StackFrameAllocator_dealloc p (frame_allocator k))"

definition FrameTracker_drop :: "FrameTracker \<Rightarrow> kmem \<Rightarrow> kmem option" where
  "FrameTracker_drop f k = frame_dealloc (frame_ppn f) k"

definition frame_alloc_unwrap :: "kmem \<Rightarrow> (FrameTracker \<times> kmem) option" where
  "frame_alloc_unwrap k = (case frame_alloc k of (f, k') \<Rightarrow> map_option (\<lambda>f. (f, k')) f)"

fun drop_frames :: "FrameTracker list \<Rightarrow> kmem \<Rightarrow> kmem option" where
  "drop_frames [] k = Some k"
| "drop_frames (f # fs) k = do { k1 \<leftarrow> FrameTracker_drop f k; drop_frames fs k1 }"

section \<open>The allocator meets its contract\<close>

text \<open>\<open>lo\<close> is the first frame given to \<open>init\<close>, which the allocator does not record.\<close>

definition sfa_inv :: "usize \<Rightarrow> StackFrameAllocator \<Rightarrow> bool" where
  "sfa_inv lo a \<longleftrightarrow> lo \<le> sfa_current a \<and> sfa_current a \<le> sfa_end a \<and> unat (sfa_end a) \<le> 2 ^ 44
     \<and> distinct (sfa_recycled a) \<and> set (sfa_recycled a) \<subseteq> {lo..<sfa_current a}"

definition sfa_live :: "usize \<Rightarrow> StackFrameAllocator \<Rightarrow> PhysPageNum set" where
  "sfa_live lo a = PhysPageNum ` ({lo..<sfa_current a} - set (sfa_recycled a))"

definition sfa_room :: "StackFrameAllocator \<Rightarrow> nat" where
  "sfa_room a = unat (sfa_end a) - unat (sfa_current a) + length (sfa_recycled a)"

lemma ppn_of_usize_exact: "unat v < 2 ^ 44 \<Longrightarrow> PhysPageNum_of_usize v = PhysPageNum v"
  using unat_take_bit [of 44 v] by (simp add: of_usize_eqs)

lemma sfa_alloc_recycled:
  assumes "sfa_inv lo a" and "sfa_recycled a = xs @ [v]"
  shows "StackFrameAllocator_alloc a = (Some (PhysPageNum v), a\<lparr>sfa_recycled := xs\<rparr>)"
    and "sfa_inv lo (a\<lparr>sfa_recycled := xs\<rparr>)"
    and "PhysPageNum v \<notin> sfa_live lo a"
    and "sfa_live lo (a\<lparr>sfa_recycled := xs\<rparr>) = insert (PhysPageNum v) (sfa_live lo a)"
proof -
  have v: "v \<in> {lo..<sfa_current a}" "v \<notin> set xs" using assms by (auto simp: sfa_inv_def)
  then have "unat v < unat (sfa_end a)" using assms(1)
    by (auto simp: sfa_inv_def word_less_nat_alt word_le_nat_alt)
  then have "unat v < 2 ^ 44" using assms(1) unfolding sfa_inv_def by linarith
  then show "StackFrameAllocator_alloc a = (Some (PhysPageNum v), a\<lparr>sfa_recycled := xs\<rparr>)"
    using assms(2) by (simp add: StackFrameAllocator_alloc_def ppn_of_usize_exact)
  show "sfa_inv lo (a\<lparr>sfa_recycled := xs\<rparr>)" using assms by (auto simp: sfa_inv_def)
  show "PhysPageNum v \<notin> sfa_live lo a" using assms(2) by (auto simp: sfa_live_def)
  show "sfa_live lo (a\<lparr>sfa_recycled := xs\<rparr>) = insert (PhysPageNum v) (sfa_live lo a)"
    using assms(2) v by (auto simp: sfa_live_def)
qed

lemma sfa_alloc_next:
  assumes "sfa_inv lo a" and "sfa_recycled a = []" and "sfa_current a \<noteq> sfa_end a"
  defines "a' \<equiv> a\<lparr>sfa_current := sfa_current a + 1\<rparr>"
  shows "StackFrameAllocator_alloc a = (Some (PhysPageNum (sfa_current a)), a')"
    and "sfa_inv lo a'"
    and "PhysPageNum (sfa_current a) \<notin> sfa_live lo a"
    and "sfa_live lo a' = insert (PhysPageNum (sfa_current a)) (sfa_live lo a)"
    and "Suc (sfa_room a') = sfa_room a"
proof -
  let ?c = "sfa_current a"
  have lt: "?c < sfa_end a" using assms(1,3) unfolding sfa_inv_def by (simp add: order_less_le)
  then have "unat ?c < 2 ^ 44" using assms(1) unfolding sfa_inv_def word_less_nat_alt by linarith
  then show "StackFrameAllocator_alloc a = (Some (PhysPageNum ?c), a')"
    using assms(2,3) by (simp add: StackFrameAllocator_alloc_def ppn_of_usize_exact a'_def)
  have up: "unat (?c + 1) = Suc (unat ?c)" using \<open>unat ?c < 2 ^ 44\<close> by (simp add: word_add_exact)
  show "sfa_inv lo a'"
    using assms(1,2) lt up by (simp add: sfa_inv_def a'_def word_less_nat_alt word_le_nat_alt)
  show "PhysPageNum ?c \<notin> sfa_live lo a" by (auto simp: sfa_live_def)
  have "{lo..<?c + 1} = insert ?c {lo..<?c}"
    using assms(1) up by (auto simp: sfa_inv_def word_less_nat_alt word_le_nat_alt less_Suc_eq)
  then show "sfa_live lo a' = insert (PhysPageNum ?c) (sfa_live lo a)"
    using assms(2) by (simp add: sfa_live_def a'_def)
  show "Suc (sfa_room a') = sfa_room a"
    using lt up assms(2) by (simp add: sfa_room_def a'_def word_less_nat_alt)
qed

interpretation sfa: bounded_allocator StackFrameAllocator_alloc StackFrameAllocator_dealloc
  "sfa_inv lo" "sfa_live lo" sfa_room for lo
proof
  fix a
  assume inv: "sfa_inv lo a"
  show "\<exists>x s'. StackFrameAllocator_alloc a = (Some x, s') \<and> sfa_inv lo s' \<and> x \<notin> sfa_live lo a
      \<and> sfa_live lo s' = insert x (sfa_live lo a) \<and> Suc (sfa_room s') = sfa_room a"
    if room: "0 < sfa_room a"
  proof (cases "sfa_recycled a" rule: rev_cases)
    case Nil
    with room have "sfa_current a \<noteq> sfa_end a" by (auto simp: sfa_room_def)
    from sfa_alloc_next [OF inv Nil this] show ?thesis by blast
  next
    case (snoc xs v)
    have "Suc (sfa_room (a\<lparr>sfa_recycled := xs\<rparr>)) = sfa_room a" using snoc by (simp add: sfa_room_def)
    with sfa_alloc_recycled [OF inv snoc] show ?thesis by blast
  qed
  show "StackFrameAllocator_alloc a = (None, a)" if "sfa_room a = 0"
    using that inv by (auto simp: StackFrameAllocator_alloc_def sfa_room_def sfa_inv_def word_le_nat_alt
        dest: le_antisym)
  fix x
  assume x: "x \<in> sfa_live lo a"
  then obtain v where v: "x = PhysPageNum v" "v \<in> {lo..<sfa_current a}" "v \<notin> set (sfa_recycled a)"
    by (auto simp: sfa_live_def)
  let ?a = "a\<lparr>sfa_recycled := sfa_recycled a @ [v]\<rparr>"
  have de: "StackFrameAllocator_dealloc x a = Some ?a"
    using v by (auto simp: StackFrameAllocator_dealloc_def)
  have "sfa_inv lo ?a" and "sfa_live lo ?a = sfa_live lo a - {x}" and "sfa_room ?a = Suc (sfa_room a)"
    using inv v by (auto simp: sfa_inv_def sfa_live_def sfa_room_def)
  with de show "\<exists>s'. StackFrameAllocator_dealloc x a = Some s' \<and> sfa_inv lo s'
      \<and> sfa_live lo s' = sfa_live lo a - {x} \<and> sfa_room s' = Suc (sfa_room a)" by blast
  show "StackFrameAllocator_dealloc x s' = None" if "StackFrameAllocator_dealloc x a = Some s'" for s'
    using that v unfolding de by (auto simp: StackFrameAllocator_dealloc_def)
qed

section \<open>Reading and writing memory\<close>

lemma length_mem_get [simp]: "length (mem_get m a n) = n"
  by (simp add: mem_get_def)

lemma nth_mem_get [simp]: "i < n \<Longrightarrow> mem_get m a n ! i = m (a + of_nat i)"
  by (simp add: mem_get_def)

lemma mem_get_cong: "(\<And>i. i < n \<Longrightarrow> m (a + of_nat i) = m' (a + of_nat i)) \<Longrightarrow> mem_get m a n = mem_get m' a n"
  by (simp add: mem_get_def)

lemma offset_in_iff:
  fixes a x :: usize
  assumes "unat a + k \<le> 2 ^ 64"
  shows "unat (x - a) < k \<longleftrightarrow> unat a \<le> unat x \<and> unat x < unat a + k"
  using assms unsigned_less [of x, where ?'a = nat]
  by (auto simp: unat_sub_if_size word_size)

lemma mem_put_in: "unat (x - a) < length bs \<Longrightarrow> mem_put a bs m x = bs ! unat (x - a)"
  by (simp add: mem_put_def)

lemma mem_put_out:
  "unat a + length bs \<le> 2 ^ 64 \<Longrightarrow> unat x < unat a \<or> unat a + length bs \<le> unat x \<Longrightarrow> mem_put a bs m x = m x"
  using offset_in_iff [of a "length bs" x] by (auto simp: mem_put_def)

lemma mem_get_put_same [simp]:
  "length bs \<le> 2 ^ 64 \<Longrightarrow> n = length bs \<Longrightarrow> mem_get (mem_put a bs m) a n = bs"
  by (rule nth_equalityI) (simp_all add: mem_put_in unat_of_nat_exact)

lemma mem_get_put_disjoint:
  assumes "unat a + length bs \<le> 2 ^ 64" and "unat b + n \<le> 2 ^ 64"
    and "unat b + n \<le> unat a \<or> unat a + length bs \<le> unat b"
  shows "mem_get (mem_put a bs m) b n = mem_get m b n"
proof (rule mem_get_cong)
  fix i
  assume i: "i < n"
  have lt: "i < 2 ^ 64" using i assms(2) by linarith
  have "unat b + unat (of_nat i :: usize) < 2 ^ 64" using i assms(2) lt by (simp add: unat_of_nat_exact)
  then have "unat (b + of_nat i) = unat b + i" using lt by (simp add: word_add_exact unat_of_nat_exact)
  then show "mem_put a bs m (b + of_nat i) = m (b + of_nat i)"
    using assms(1,3) i by (intro mem_put_out) auto
qed

section \<open>Pages\<close>

text \<open>The frames a physical page number of the RISC-V Sv39 scheme can name.\<close>

definition ppn_ok :: "PhysPageNum \<Rightarrow> bool" where
  "ppn_ok p \<longleftrightarrow> unat (ppn p) < 2 ^ 44"

lemma unat_page_addr: "ppn_ok p \<Longrightarrow> unat (page_addr p) = unat (ppn p) * 4096"
  by (simp add: page_addr_def PhysAddr_of_PhysPageNum_def PAGE_SIZE_BITS_def ppn_ok_def unat_push_bit)

lemma unat_page_offset:
  assumes "ppn_ok p" and "off < 4096"
  shows "unat (page_addr p + of_nat off) = unat (ppn p) * 4096 + off"
proof -
  have "unat (of_nat off :: usize) = off" using assms(2) by (intro unat_of_nat_exact) simp
  moreover have "unat (ppn p) * 4096 + off < 2 ^ 64" using assms by (simp add: ppn_ok_def)
  ultimately show ?thesis using unat_page_addr [OF assms(1)] by (subst word_add_exact) simp_all
qed

text \<open>Two memories that agree on the bytes of a page.\<close>

definition same_page :: "phys_mem \<Rightarrow> phys_mem \<Rightarrow> PhysPageNum \<Rightarrow> bool" where
  "same_page m m' p \<longleftrightarrow> get_bytes_array m p = get_bytes_array m' p"

lemma same_page_refl [simp]: "same_page m m p"
  by (simp add: same_page_def)

lemma same_page_sym: "same_page m m' p \<Longrightarrow> same_page m' m p"
  by (simp add: same_page_def)

lemma same_page_trans: "same_page m m' p \<Longrightarrow> same_page m' m'' p \<Longrightarrow> same_page m m'' p"
  by (simp add: same_page_def)

lemma same_page_byte:
  "same_page m m' p \<Longrightarrow> off < 4096 \<Longrightarrow> m (page_addr p + of_nat off) = m' (page_addr p + of_nat off)"
  unfolding same_page_def get_bytes_array_def by (metis nth_mem_get)

lemma put_bytes_other:
  assumes "ppn_ok p" and "ppn_ok q" and "p \<noteq> q" and "off + length bs \<le> 4096"
  shows "same_page m (put_bytes_array p off bs m) q"
proof -
  have ne: "unat (ppn p) \<noteq> unat (ppn q)" using assms(3) by (auto simp: PhysPageNum.expand)
  have bd: "unat (ppn p) < 2 ^ 44" "unat (ppn q) < 2 ^ 44" using assms(1,2) by (simp_all add: ppn_ok_def)
  have a: "unat (page_addr p + of_nat off) = unat (ppn p) * 4096 + off" if "bs \<noteq> []"
  proof (rule unat_page_offset [OF assms(1)])
    from that have "0 < length bs" by simp
    with assms(4) show "off < 4096" by linarith
  qed
  show ?thesis
  proof (cases "bs = []")
    case True
    then show ?thesis by (simp add: same_page_def put_bytes_array_def mem_put_def)
  next
    case False
    have "mem_get (put_bytes_array p off bs m) (page_addr q) 4096 = mem_get m (page_addr q) 4096"
      unfolding put_bytes_array_def
    proof (rule mem_get_put_disjoint)
      show "unat (page_addr p + of_nat off) + length bs \<le> 2 ^ 64"
        using a [OF False] bd(1) assms(4) by simp
      show "unat (page_addr q) + 4096 \<le> 2 ^ 64" using unat_page_addr [OF assms(2)] bd(2) by simp
      show "unat (page_addr q) + 4096 \<le> unat (page_addr p + of_nat off) \<or>
          unat (page_addr p + of_nat off) + length bs \<le> unat (page_addr q)"
        using a [OF False] unat_page_addr [OF assms(2)] ne assms(4) by linarith
    qed
    then show ?thesis by (simp add: same_page_def get_bytes_array_def)
  qed
qed

lemma length_get_bytes_array [simp]: "length (get_bytes_array m p) = 4096"
  by (simp add: get_bytes_array_def)

lemma get_put_bytes_array:
  assumes "ppn_ok p" and "off + length bs \<le> 4096"
  shows "get_bytes_array (put_bytes_array p off bs m) p = buf_put off bs (get_bytes_array m p)"
proof (rule nth_equalityI)
  show "length (get_bytes_array (put_bytes_array p off bs m) p)
      = length (buf_put off bs (get_bytes_array m p))" using assms(2) by simp
  fix i
  assume "i < length (get_bytes_array (put_bytes_array p off bs m) p)"
  then have i: "i < 4096" by simp
  have bd: "unat (ppn p) < 2 ^ 44" using assms(1) by (simp add: ppn_ok_def)
  have x: "unat (page_addr p + of_nat i) = unat (ppn p) * 4096 + i" using unat_page_offset [OF assms(1) i] .
  show "get_bytes_array (put_bytes_array p off bs m) p ! i = buf_put off bs (get_bytes_array m p) ! i"
  proof (cases "off \<le> i \<and> i < off + length bs")
    case True
    then have "unat (page_addr p + of_nat i - (page_addr p + of_nat off)) = i - off"
      using x unat_page_offset [OF assms(1), of off] i by (subst word_sub_exact) simp_all
    moreover from this True have "mem_put (page_addr p + of_nat off) bs m (page_addr p + of_nat i) = bs ! (i - off)"
      by (subst mem_put_in) (auto simp del: add_diff_cancel_left)
    ultimately show ?thesis
      using True i assms(2) by (simp add: nth_buf_put get_bytes_array_def put_bytes_array_def)
  next
    case False
    show ?thesis
    proof (cases "bs = []")
      case True
      then show ?thesis by (simp add: put_bytes_array_def mem_put_def get_bytes_array_def)
    next
      case ne: False
      then have "0 < length bs" by simp
      then have a: "unat (page_addr p + of_nat off) = unat (ppn p) * 4096 + off"
        using assms by (intro unat_page_offset) linarith+
      have "mem_put (page_addr p + of_nat off) bs m (page_addr p + of_nat i) = m (page_addr p + of_nat i)"
        using False a x bd assms(2) by (intro mem_put_out) auto
      then show ?thesis
        using False i assms(2) by (auto simp: nth_buf_put get_bytes_array_def put_bytes_array_def)
    qed
  qed
qed

section \<open>Frames of the kernel\<close>

definition kmem_inv :: "usize \<Rightarrow> kmem \<Rightarrow> bool" where
  "kmem_inv lo k \<longleftrightarrow> sfa_inv lo (frame_allocator k)"

definition frames_live :: "usize \<Rightarrow> kmem \<Rightarrow> PhysPageNum set" where
  "frames_live lo k = sfa_live lo (frame_allocator k)"

definition frames_room :: "kmem \<Rightarrow> nat" where
  "frames_room k = sfa_room (frame_allocator k)"

lemma live_ppn_ok: "kmem_inv lo k \<Longrightarrow> p \<in> frames_live lo k \<Longrightarrow> ppn_ok p"
  by (auto simp: kmem_inv_def frames_live_def sfa_inv_def sfa_live_def ppn_ok_def word_less_nat_alt
      word_le_nat_alt)

lemma frame_alloc_unwrap_eq:
  "frame_alloc_unwrap k =
     (case StackFrameAllocator_alloc (frame_allocator k) of
        (None, a) \<Rightarrow> None
      | (Some p, a) \<Rightarrow> Some (FrameTracker p,
          k\<lparr>phys := put_bytes_array p 0 (replicate 4096 0) (phys k), frame_allocator := a\<rparr>))"
  by (simp add: frame_alloc_unwrap_def frame_alloc_def FrameTracker_new_def split: prod.splits option.splits)

text \<open>A frame handed out is not in use, it is zeroed, and no other frame changes.\<close>

lemma frame_alloc_returns:
  assumes "kmem_inv lo k" and "0 < frames_room k"
  obtains p k' where "frame_alloc_unwrap k = Some (FrameTracker p, k')" and "kmem_inv lo k'"
    and "p \<notin> frames_live lo k" and "ppn_ok p" and "frames_live lo k' = insert p (frames_live lo k)"
    and "Suc (frames_room k') = frames_room k"
    and "get_bytes_array (phys k') p = replicate 4096 0"
    and "\<forall>q. ppn_ok q \<longrightarrow> q \<noteq> p \<longrightarrow> same_page (phys k) (phys k') q"
proof -
  from sfa.allocE [OF assms [unfolded kmem_inv_def frames_room_def]] obtain p a
    where a: "StackFrameAllocator_alloc (frame_allocator k) = (Some p, a)" "sfa_inv lo a"
      "p \<notin> sfa_live lo (frame_allocator k)"
      "sfa_live lo a = insert p (sfa_live lo (frame_allocator k))"
      "Suc (sfa_room a) = sfa_room (frame_allocator k)" by blast
  let ?k = "k\<lparr>phys := put_bytes_array p 0 (replicate 4096 0) (phys k), frame_allocator := a\<rparr>"
  have fin: "frame_alloc_unwrap k = Some (FrameTracker p, ?k)" by (simp add: frame_alloc_unwrap_eq a(1))
  have inv: "kmem_inv lo ?k" and live: "frames_live lo ?k = insert p (frames_live lo k)"
    using a(2,4) by (simp_all add: kmem_inv_def frames_live_def)
  then have ok: "ppn_ok p" by (auto intro: live_ppn_ok)
  have zero: "get_bytes_array (phys ?k) p = replicate 4096 0" using ok by (simp add: get_put_bytes_array)
  have other: "\<forall>q. ppn_ok q \<longrightarrow> q \<noteq> p \<longrightarrow> same_page (phys k) (phys ?k) q"
    using ok put_bytes_other [of p _ 0 "replicate 4096 0"] by simp
  show ?thesis
    by (rule that [OF fin inv _ ok live _ zero other])
      (use a(3,5) in \<open>simp_all add: frames_live_def frames_room_def\<close>)
qed

lemma FrameTracker_drop_returns:
  assumes "kmem_inv lo k" and "p \<in> frames_live lo k"
  obtains k' where "FrameTracker_drop (FrameTracker p) k = Some k'" and "kmem_inv lo k'"
    and "phys k' = phys k" and "frames_live lo k' = frames_live lo k - {p}"
    and "frames_room k' = Suc (frames_room k)"
proof -
  from sfa.deallocE [OF assms [unfolded kmem_inv_def frames_live_def]] obtain a
    where a: "StackFrameAllocator_dealloc p (frame_allocator k) = Some a" "sfa_inv lo a"
      "sfa_live lo a = sfa_live lo (frame_allocator k) - {p}"
      "sfa_room a = Suc (sfa_room (frame_allocator k))" by blast
  then show ?thesis
    by (intro that [of "k\<lparr>frame_allocator := a\<rparr>"])
      (simp_all add: FrameTracker_drop_def frame_dealloc_def kmem_inv_def frames_live_def frames_room_def)
qed

lemma drop_frames_returns:
  assumes "kmem_inv lo k" and "distinct fs" and "frame_ppn ` set fs \<subseteq> frames_live lo k"
  shows "\<exists>k'. drop_frames fs k = Some k' \<and> kmem_inv lo k' \<and> phys k' = phys k
    \<and> frames_live lo k' = frames_live lo k - frame_ppn ` set fs \<and> frames_room k' = frames_room k + length fs"
  using assms
proof (induction fs arbitrary: k)
  case Nil
  then show ?case by simp
next
  case (Cons f fs)
  have "frame_ppn f \<in> frames_live lo k" using Cons.prems(3) by simp
  from Cons.prems(1) this obtain k1 where a: "FrameTracker_drop (FrameTracker (frame_ppn f)) k = Some k1"
      "kmem_inv lo k1" "phys k1 = phys k" "frames_live lo k1 = frames_live lo k - {frame_ppn f}"
      "frames_room k1 = Suc (frames_room k)"
    by (rule FrameTracker_drop_returns)
  have "frame_ppn f \<notin> frame_ppn ` set fs" using Cons.prems(2) by (auto dest: FrameTracker.expand)
  moreover have "frame_ppn ` set fs \<subseteq> frames_live lo k" using Cons.prems(3) by simp
  ultimately have "frame_ppn ` set fs \<subseteq> frames_live lo k1" unfolding a(4) by blast
  moreover have "distinct fs" using Cons.prems(2) by simp
  ultimately obtain k2 where b: "drop_frames fs k1 = Some k2" "kmem_inv lo k2" "phys k2 = phys k1"
      "frames_live lo k2 = frames_live lo k1 - frame_ppn ` set fs"
      "frames_room k2 = frames_room k1 + length fs"
    using Cons.IH [OF a(2)] by blast
  have "frames_live lo k2 = frames_live lo k - frame_ppn ` set (f # fs)" unfolding b(4) a(4) by auto
  then show ?case using a b by simp
qed

end
