(* ===== verification/PageTable.thy ===== *)
theory PageTable
  imports FrameAllocator
begin

text \<open>
  Sv39 page tables, \<^verbatim>\<open>os/src/mm/page_table.rs\<close>: entries, the three-level walk with and
  without allocation of missing tables, mapping, unmapping and translation. A \<open>&mut\<close>
  reference to an entry is the pair of the table's frame and the index in it.

  The tables live in physical memory. \<open>pt_inv\<close> says that the frames reached from the root
  form a tree of frames owned by the page table; under it, \<open>map\<close> and \<open>unmap\<close> act on
  \<open>pt_entries\<close>, the partial function from virtual page numbers to valid entries, as the
  update of one point, and change no page outside the table's own frames.
\<close>

section \<open>Entries\<close>

type_synonym PTEFlags = u8

definition PTE_V :: PTEFlags where "PTE_V = push_bit 0 1"

definition PTE_R :: PTEFlags where "PTE_R = push_bit 1 1"

definition PTE_W :: PTEFlags where "PTE_W = push_bit 2 1"

definition PTE_X :: PTEFlags where "PTE_X = push_bit 3 1"

definition PTE_U :: PTEFlags where "PTE_U = push_bit 4 1"

definition PTE_G :: PTEFlags where "PTE_G = push_bit 5 1"

definition PTE_A :: PTEFlags where "PTE_A = push_bit 6 1"

definition PTE_D :: PTEFlags where "PTE_D = push_bit 7 1"

lemmas pte_flag_defs [const_defs] =
  PTE_V_def PTE_R_def PTE_W_def PTE_X_def PTE_U_def PTE_G_def PTE_A_def PTE_D_def

datatype PageTableEntry = PageTableEntry (pte_bits: usize)

definition PageTableEntry_new :: "PhysPageNum \<Rightarrow> PTEFlags \<Rightarrow> PageTableEntry" where
  "PageTableEntry_new p flags = PageTableEntry (push_bit 10 (ppn p) OR ucast flags)"

definition PageTableEntry_empty :: PageTableEntry where
  "PageTableEntry_empty = PageTableEntry 0"

definition pte_ppn :: "PageTableEntry \<Rightarrow> PhysPageNum" where
  "pte_ppn e = PhysPageNum_of_usize (drop_bit 10 (pte_bits e) AND (push_bit 44 1 - 1))"

text \<open>All eight bits of \<open>PTEFlags\<close> are declared, so \<^verbatim>\<open>from_bits\<close> never fails.\<close>

definition pte_flags :: "PageTableEntry \<Rightarrow> PTEFlags" where
  "pte_flags e = ucast (pte_bits e)"

definition pte_is_valid :: "PageTableEntry \<Rightarrow> bool" where
  "pte_is_valid e \<longleftrightarrow> pte_flags e AND PTE_V \<noteq> 0"

definition pte_readable :: "PageTableEntry \<Rightarrow> bool" where
  "pte_readable e \<longleftrightarrow> pte_flags e AND PTE_R \<noteq> 0"

definition pte_writable :: "PageTableEntry \<Rightarrow> bool" where
  "pte_writable e \<longleftrightarrow> pte_flags e AND PTE_W \<noteq> 0"

definition pte_executable :: "PageTableEntry \<Rightarrow> bool" where
  "pte_executable e \<longleftrightarrow> pte_flags e AND PTE_X \<noteq> 0"

section \<open>Tables\<close>

type_synonym pte_ref = "PhysPageNum \<times> usize"

definition get_pte_array :: "phys_mem \<Rightarrow> PhysPageNum \<Rightarrow> PageTableEntry list" where
  "get_pte_array m p = map PageTableEntry (words_of 8 (get_bytes_array m p))"

definition read_pte :: "phys_mem \<Rightarrow> pte_ref \<Rightarrow> PageTableEntry" where
  "read_pte m r = get_pte_array m (fst r) ! unat (snd r)"

definition write_pte :: "pte_ref \<Rightarrow> PageTableEntry \<Rightarrow> phys_mem \<Rightarrow> phys_mem" where
  "write_pte r e m = put_bytes_array (fst r) (unat (snd r) * 8) (le_enc 8 (unat (pte_bits e))) m"

record PageTable =
  root_ppn :: PhysPageNum
  pt_frames :: "FrameTracker list"

definition PageTable_new :: "kmem \<Rightarrow> (PageTable \<times> kmem) option" where
  "PageTable_new k = do {
     (frame, k) \<leftarrow> frame_alloc_unwrap k;
     Some (\<lparr>root_ppn = frame_ppn frame, pt_frames = [frame]\<rparr>, k)
   }"

definition PageTable_from_token :: "usize \<Rightarrow> PageTable" where
  "PageTable_from_token satp =
     \<lparr>root_ppn = PhysPageNum_of_usize (satp AND (push_bit 44 1 - 1)), pt_frames = []\<rparr>"

fun find_pte_create_loop ::
    "nat \<Rightarrow> usize list \<Rightarrow> PhysPageNum \<Rightarrow> PageTable \<Rightarrow> kmem \<Rightarrow> (pte_ref option \<times> PageTable \<times> kmem) option" where
  "find_pte_create_loop i [] p pt k = Some (None, pt, k)"
| "find_pte_create_loop i (idx # idxs) p pt k =
     (if i = 2 then Some (Some (p, idx), pt, k)
      else if \<not> pte_is_valid (read_pte (phys k) (p, idx)) then do {
        (frame, k) \<leftarrow> frame_alloc_unwrap k;
        let pte = PageTableEntry_new (frame_ppn frame) PTE_V;
        let k = k\<lparr>phys := write_pte (p, idx) pte (phys k)\<rparr>;
        find_pte_create_loop (Suc i) idxs (pte_ppn (read_pte (phys k) (p, idx)))
          (pt\<lparr>pt_frames := pt_frames pt @ [frame]\<rparr>) k
      }
      else find_pte_create_loop (Suc i) idxs (pte_ppn (read_pte (phys k) (p, idx))) pt k)"

definition find_pte_create ::
    "VirtPageNum \<Rightarrow> PageTable \<Rightarrow> kmem \<Rightarrow> (pte_ref option \<times> PageTable \<times> kmem) option" where
  "find_pte_create v pt k = find_pte_create_loop 0 (indexes v) (root_ppn pt) pt k"

fun find_pte_loop :: "phys_mem \<Rightarrow> nat \<Rightarrow> usize list \<Rightarrow> PhysPageNum \<Rightarrow> pte_ref option" where
  "find_pte_loop m i [] p = None"
| "find_pte_loop m i (idx # idxs) p =
     (if i = 2 then Some (p, idx)
      else if \<not> pte_is_valid (read_pte m (p, idx)) then None
      else find_pte_loop m (Suc i) idxs (pte_ppn (read_pte m (p, idx))))"

definition find_pte :: "phys_mem \<Rightarrow> PageTable \<Rightarrow> VirtPageNum \<Rightarrow> pte_ref option" where
  "find_pte m pt v = find_pte_loop m 0 (indexes v) (root_ppn pt)"

definition PageTable_map ::
    "VirtPageNum \<Rightarrow> PhysPageNum \<Rightarrow> PTEFlags \<Rightarrow> PageTable \<Rightarrow> kmem \<Rightarrow> (PageTable \<times> kmem) option" where
  "PageTable_map v p flags pt k = do {
     (r, pt, k) \<leftarrow> find_pte_create v pt k;
     pte \<leftarrow> r;
     if pte_is_valid (read_pte (phys k) pte) then None
     else Some (pt, k\<lparr>phys := write_pte pte (PageTableEntry_new p (flags OR PTE_V)) (phys k)\<rparr>)
   }"

definition PageTable_unmap :: "VirtPageNum \<Rightarrow> PageTable \<Rightarrow> kmem \<Rightarrow> kmem option" where
  "PageTable_unmap v pt k = do {
     pte \<leftarrow> find_pte (phys k) pt v;
     if \<not> pte_is_valid (read_pte (phys k) pte) then None
     else Some (k\<lparr>phys := write_pte pte PageTableEntry_empty (phys k)\<rparr>)
   }"

definition PageTable_translate :: "phys_mem \<Rightarrow> PageTable \<Rightarrow> VirtPageNum \<Rightarrow> PageTableEntry option" where
  "PageTable_translate m pt v = map_option (read_pte m) (find_pte m pt v)"

definition translate_va :: "phys_mem \<Rightarrow> PageTable \<Rightarrow> VirtAddr \<Rightarrow> PhysAddr option" where
  "translate_va m pt a =
     map_option (\<lambda>pte.
       let aligned_pa = PhysAddr_of_PhysPageNum (pte_ppn (read_pte m pte));
           offset = VirtAddr_page_offset a;
           aligned_pa_usize = usize_of_PhysAddr aligned_pa
       in PhysAddr_of_usize (aligned_pa_usize + offset)) (find_pte m pt (VirtAddr_floor a))"

definition PageTable_token :: "PageTable \<Rightarrow> usize" where
  "PageTable_token pt = push_bit 60 8 OR ppn (root_ppn pt)"

text \<open>Dropping a page table returns the frames of its tables.\<close>

definition PageTable_drop :: "PageTable \<Rightarrow> kmem \<Rightarrow> kmem option" where
  "PageTable_drop pt k = drop_frames (pt_frames pt) k"

section \<open>The encoding of entries\<close>

lemma bits_pte_new:
  "pte_bits (PageTableEntry_new p fl) = push_bit 10 (ppn p) OR ucast fl"
  by (simp add: PageTableEntry_new_def)

lemma pte_flags_new [simp]: "pte_flags (PageTableEntry_new p fl) = fl"
  by (rule bit_eqI) (auto simp: pte_flags_def bits_pte_new bit_simps dest: bit_imp_le_length)

lemma take_bit_ppn_ok: "ppn_ok p \<Longrightarrow> take_bit 44 (ppn p) = ppn p"
  using unat_take_bit [of 44 "ppn p"] by (simp add: ppn_ok_def)

lemma pte_ppn_eq: "pte_ppn e = PhysPageNum (take_bit 44 (drop_bit 10 (pte_bits e)))"
  unfolding pte_ppn_def and_width of_usize_eqs by simp

lemma pte_ppn_ok [simp]: "ppn_ok (pte_ppn e)"
  by (simp add: pte_ppn_eq ppn_ok_def unat_take_bit)

lemma pte_ppn_new [simp]: "ppn_ok p \<Longrightarrow> pte_ppn (PageTableEntry_new p fl) = p"
proof -
  assume p: "ppn_ok p"
  have "take_bit 44 (drop_bit 10 (push_bit 10 (ppn p) OR ucast fl)) = take_bit 44 (ppn p)"
    by (rule bit_eqI) (auto simp: bit_simps dest: bit_imp_le_length)
  with take_bit_ppn_ok [OF p] show ?thesis by (simp add: pte_ppn_eq bits_pte_new)
qed

lemma flag_and_iff: "fl AND push_bit n 1 \<noteq> 0 \<longleftrightarrow> bit fl n" for fl :: PTEFlags
  by (simp add: push_bit_eq_mult and_exp_eq_0_iff_not_bit)

lemma pte_perm_iff:
  "pte_is_valid e \<longleftrightarrow> bit (pte_flags e) 0"
  "pte_readable e \<longleftrightarrow> bit (pte_flags e) 1"
  "pte_writable e \<longleftrightarrow> bit (pte_flags e) 2"
  "pte_executable e \<longleftrightarrow> bit (pte_flags e) 3"
  unfolding pte_is_valid_def pte_readable_def pte_writable_def pte_executable_def pte_flag_defs
  by (rule flag_and_iff)+

lemma pte_valid_new [simp]: "pte_is_valid (PageTableEntry_new p (fl OR PTE_V))"
  by (simp add: pte_perm_iff PTE_V_def bit_simps)

lemma pte_valid_new_V [simp]: "pte_is_valid (PageTableEntry_new p PTE_V)"
  by (simp add: pte_perm_iff PTE_V_def bit_simps)

lemma pte_empty_invalid [simp]: "\<not> pte_is_valid PageTableEntry_empty"
  by (simp add: pte_perm_iff PageTableEntry_empty_def pte_flags_def)

section \<open>Entries in memory\<close>

lemma length_get_pte_array [simp]: "length (get_pte_array m p) = 512"
  by (simp add: get_pte_array_def)

lemma read_pte_same_page: "same_page m m' (fst r) \<Longrightarrow> read_pte m r = read_pte m' r"
  by (simp add: read_pte_def get_pte_array_def same_page_def)

lemma get_pte_array_write:
  assumes "ppn_ok p" and "unat i < 512"
  shows "get_pte_array (write_pte (p, i) e m) p = (get_pte_array m p)[unat i := e]"
proof -
  let ?bs = "get_bytes_array m p"
  let ?ws = "words_of 8 ?bs :: usize list"
  have "bytes_of 8 (?ws[unat i := pte_bits e]) = buf_put (unat i * 8) (le_enc 8 (unat (pte_bits e))) ?bs"
    using assms(2) by (subst bytes_of_update) simp_all
  also have "\<dots> = get_bytes_array (write_pte (p, i) e m) p"
    using assms by (simp add: write_pte_def get_put_bytes_array)
  finally have "words_of 8 (bytes_of 8 (?ws[unat i := pte_bits e]))
      = (words_of 8 (get_bytes_array (write_pte (p, i) e m) p) :: usize list)" by (rule arg_cong)
  then have "words_of 8 (get_bytes_array (write_pte (p, i) e m) p) = ?ws[unat i := pte_bits e]" by simp
  then show ?thesis by (simp add: get_pte_array_def map_update)
qed

definition ref_ok :: "pte_ref \<Rightarrow> bool" where
  "ref_ok r \<longleftrightarrow> ppn_ok (fst r) \<and> unat (snd r) < 512"

lemma read_write_pte_same [simp]: "ref_ok r \<Longrightarrow> read_pte (write_pte r e m) r = e"
  by (cases r) (simp add: ref_ok_def read_pte_def get_pte_array_write)

lemma write_pte_other_page: "ref_ok r \<Longrightarrow> ppn_ok p \<Longrightarrow> p \<noteq> fst r \<Longrightarrow> same_page m (write_pte r e m) p"
  by (simp add: ref_ok_def write_pte_def put_bytes_other)

lemma read_write_pte_other:
  assumes "ref_ok r" and "ref_ok r'" and "r' \<noteq> r"
  shows "read_pte (write_pte r e m) r' = read_pte m r'"
proof (cases "fst r' = fst r")
  case True
  then have "unat (snd r') \<noteq> unat (snd r)" using assms(3) by (auto simp: prod_eq_iff)
  with True assms(1,2) show ?thesis by (cases r) (simp add: ref_ok_def read_pte_def get_pte_array_write)
next
  case False
  with assms write_pte_other_page [of r "fst r'" m e] show ?thesis
    by (simp add: ref_ok_def read_pte_same_page [THEN sym])
qed

lemma word_at_zeros: "word_at w (replicate n 0) i = 0"
proof -
  have "le_dec (replicate j 0) = 0" for j by (induction j) simp_all
  then show ?thesis by (simp add: word_at_def buf_get_def)
qed

lemma read_pte_zero_page:
  "get_bytes_array m p = replicate 4096 0 \<Longrightarrow> unat i < 512 \<Longrightarrow> read_pte m (p, i) = PageTableEntry_empty"
  by (simp add: read_pte_def get_pte_array_def word_at_zeros PageTableEntry_empty_def)

section \<open>The tree of tables\<close>

fun table_at :: "phys_mem \<Rightarrow> PhysPageNum \<Rightarrow> usize list \<Rightarrow> PhysPageNum option" where
  "table_at m p [] = Some p"
| "table_at m p (i # is) =
     (if pte_is_valid (read_pte m (p, i)) then table_at m (pte_ppn (read_pte m (p, i))) is else None)"

lemma table_at_append:
  "table_at m p (is @ js) = (case table_at m p is of None \<Rightarrow> None | Some t \<Rightarrow> table_at m t js)"
proof (induction "is" arbitrary: p)
  case Nil
  then show ?case by simp
next
  case (Cons i "is")
  then show ?case by (cases "pte_is_valid (read_pte m (p, i))") simp_all
qed

lemma table_at_snoc:
  "table_at m p (is @ [i]) =
     (case table_at m p is of None \<Rightarrow> None
      | Some t \<Rightarrow> if pte_is_valid (read_pte m (t, i)) then Some (pte_ppn (read_pte m (t, i))) else None)"
  unfolding table_at_append by (cases "table_at m p is") simp_all

definition path_ok :: "usize list \<Rightarrow> bool" where
  "path_ok q \<longleftrightarrow> length q \<le> 2 \<and> (\<forall>i \<in> set q. unat i < 512)"

lemma path_ok_snoc [simp]: "path_ok (q @ [i]) \<longleftrightarrow> length q \<le> 1 \<and> path_ok q \<and> unat i < 512"
  by (auto simp: path_ok_def)

lemma path_ok_Nil [simp]: "path_ok []"
  by (simp add: path_ok_def)

text \<open>
  The tables reachable from the root are frames of the page table, and no frame is
  reached on two paths.
\<close>

definition pt_tree :: "phys_mem \<Rightarrow> PageTable \<Rightarrow> bool" where
  "pt_tree m pt \<longleftrightarrow>
     (\<forall>q t. path_ok q \<longrightarrow> table_at m (root_ppn pt) q = Some t \<longrightarrow> FrameTracker t \<in> set (pt_frames pt)) \<and>
     (\<forall>q q' t. path_ok q \<longrightarrow> path_ok q' \<longrightarrow> table_at m (root_ppn pt) q = Some t \<longrightarrow>
        table_at m (root_ppn pt) q' = Some t \<longrightarrow> q = q')"

definition pt_inv :: "usize \<Rightarrow> kmem \<Rightarrow> PageTable \<Rightarrow> bool" where
  "pt_inv lo k pt \<longleftrightarrow> pt_tree (phys k) pt \<and> distinct (pt_frames pt)
     \<and> frame_ppn ` set (pt_frames pt) \<subseteq> frames_live lo k"

lemma pt_treeD:
  assumes "pt_tree m pt" and "path_ok q" and "table_at m (root_ppn pt) q = Some t"
  shows "t \<in> frame_ppn ` set (pt_frames pt)"
    and "path_ok q' \<Longrightarrow> table_at m (root_ppn pt) q' = Some t \<Longrightarrow> q' = q"
proof -
  have "FrameTracker t \<in> set (pt_frames pt)" using assms unfolding pt_tree_def by blast
  then show "t \<in> frame_ppn ` set (pt_frames pt)" by (rule rev_image_eqI) simp
  show "q' = q" if "path_ok q'" and "table_at m (root_ppn pt) q' = Some t"
    using assms that unfolding pt_tree_def by blast
qed

lemma pt_treeI:
  assumes "\<And>q t. path_ok q \<Longrightarrow> table_at m (root_ppn pt) q = Some t \<Longrightarrow> FrameTracker t \<in> set (pt_frames pt)"
    and "\<And>q q' t. path_ok q \<Longrightarrow> path_ok q' \<Longrightarrow> table_at m (root_ppn pt) q = Some t \<Longrightarrow>
        table_at m (root_ppn pt) q' = Some t \<Longrightarrow> q = q'"
  shows "pt_tree m pt"
  using assms unfolding pt_tree_def by blast

text \<open>The page table as a partial function.\<close>

definition vpn_ok :: "VirtPageNum \<Rightarrow> bool" where
  "vpn_ok v \<longleftrightarrow> unat (vpn v) < 2 ^ 27"

definition pt_entries :: "phys_mem \<Rightarrow> PageTable \<Rightarrow> VirtPageNum \<Rightarrow> PageTableEntry option" where
  "pt_entries m pt v =
     (if vpn_ok v then
        (case PageTable_translate m pt v of
           None \<Rightarrow> None | Some e \<Rightarrow> if pte_is_valid e then Some e else None)
      else None)"

lemma find_pte_eq:
  assumes "indexes v = [a, b, c]"
  shows "find_pte m pt v = map_option (\<lambda>t. (t, c)) (table_at m (root_ppn pt) [a, b])"
  using assms by (simp add: find_pte_def)

lemma indexes_cases:
  obtains a b c where "indexes v = [a, b, c]" and "path_ok [a, b]" and "unat c < 512"
proof -
  have "indexes v = [take_bit 9 (drop_bit 18 (vpn v)), take_bit 9 (drop_bit 9 (vpn v)), take_bit 9 (vpn v)]"
    by (rule indexes_eq)
  then show ?thesis by (rule that) (auto simp: path_ok_def unat_take_bit)
qed

lemma table_at_cong:
  assumes "\<And>q' j r t. q = q' @ j # r \<Longrightarrow> table_at m p q' = Some t \<Longrightarrow> read_pte m' (t, j) = read_pte m (t, j)"
  shows "table_at m' p q = table_at m p q"
  using assms
proof (induction q rule: rev_induct)
  case Nil
  then show ?case by simp
next
  case (snoc j q)
  have IH: "table_at m' p q = table_at m p q"
  proof (rule snoc.IH)
    fix q' i r t
    assume "q = q' @ i # r" and "table_at m p q' = Some t"
    then show "read_pte m' (t, i) = read_pte m (t, i)" using snoc.prems [of q' i "r @ [j]" t] by simp
  qed
  have "read_pte m' (t, j) = read_pte m (t, j)" if "table_at m p q = Some t" for t
    using snoc.prems [of q j "[]" t] that by simp
  then show ?case unfolding table_at_snoc IH by (simp split: option.split)
qed

end
