(* ===== verification/PageTableMap.thy ===== *)
theory PageTableMap
  imports PageTable
begin

text \<open>
  Correctness of the page table operations: \<open>PageTable_map\<close> and \<open>PageTable_unmap\<close> refine
  the update of one point of the partial function \<open>pt_entries\<close>, keep the tree of tables,
  and touch only frames of the page table itself.
\<close>

declare table_at.simps(2) [simp del]

section \<open>Writing a leaf entry\<close>

lemma table_at_ppn_ok: "ppn_ok p \<Longrightarrow> table_at m p q = Some t \<Longrightarrow> ppn_ok t"
proof (induction q arbitrary: p)
  case (Cons i q)
  then show ?case using Cons.IH [OF pte_ppn_ok] by (auto simp: table_at.simps(2) split: if_splits)
qed simp

lemma path_ok_prefix: "path_ok (q @ r) \<Longrightarrow> path_ok q"
  by (auto simp: path_ok_def)

lemma pt_entries_eq:
  assumes "indexes v = [a, b, c]"
  shows "pt_entries m pt v =
    (if vpn_ok v then
       (case table_at m (root_ppn pt) [a, b] of None \<Rightarrow> None
        | Some t \<Rightarrow> if pte_is_valid (read_pte m (t, c)) then Some (read_pte m (t, c)) else None)
     else None)"
  unfolding pt_entries_def PageTable_translate_def find_pte_eq [OF assms]
  by (cases "table_at m (root_ppn pt) [a, b]") simp_all

lemma leaf_write_tables:
  assumes "pt_tree m pt" and "ppn_ok (root_ppn pt)" and "path_ok [a, b]"
    and t: "table_at m (root_ppn pt) [a, b] = Some t" and "unat c < 512" and "path_ok q"
  shows "table_at (write_pte (t, c) e m) (root_ppn pt) q = table_at m (root_ppn pt) q"
proof (rule table_at_cong)
  fix q' j r t'
  assume q: "q = q' @ j # r" and t': "table_at m (root_ppn pt) q' = Some t'"
  have ok: "path_ok q'" "unat j < 512" "length q' \<le> 1"
    using assms(6) unfolding q by (auto simp: path_ok_def)
  have "t' \<noteq> t"
  proof
    assume "t' = t"
    then have "q' = [a, b]" using pt_treeD(2) [OF assms(1,3) t ok(1)] t' by simp
    then show False using ok(3) by simp
  qed
  then show "read_pte (write_pte (t, c) e m) (t', j) = read_pte m (t', j)"
    using table_at_ppn_ok [OF assms(2) t] table_at_ppn_ok [OF assms(2) t'] assms(5) ok(2)
    by (intro read_write_pte_other) (simp_all add: ref_ok_def)
qed

lemma pt_tree_cong:
  assumes "pt_tree m pt" and "\<And>q. path_ok q \<Longrightarrow> table_at m' (root_ppn pt) q = table_at m (root_ppn pt) q"
  shows "pt_tree m' pt"
  using assms(1) unfolding pt_tree_def by (simp add: assms(2))

lemma leaf_write_entries:
  assumes "pt_tree m pt" and "ppn_ok (root_ppn pt)" and v: "indexes v = [a, b, c]" "vpn_ok v"
    and "path_ok [a, b]" and t: "table_at m (root_ppn pt) [a, b] = Some t" and "unat c < 512"
  shows "pt_entries (write_pte (t, c) e m) pt = (pt_entries m pt)(v := if pte_is_valid e then Some e else None)"
proof
  let ?m = "write_pte (t, c) e m"
  note tabs = leaf_write_tables [OF assms(1,2,5) t assms(7), where e = e]
  have tok: "ref_ok (t, c)" using table_at_ppn_ok [OF assms(2) t] assms(7) by (simp add: ref_ok_def)
  fix w
  show "pt_entries ?m pt w = ((pt_entries m pt)(v := if pte_is_valid e then Some e else None)) w"
  proof (cases "w = v")
    case True
    then show ?thesis
      using tok t tabs [OF assms(5)] v(2) unfolding pt_entries_eq [OF v(1)] True by simp
  next
    case False
    obtain a' b' c' where w: "indexes w = [a', b', c']" "path_ok [a', b']" "unat c' < 512"
      by (rule indexes_cases)
    show ?thesis
    proof (cases "vpn_ok w \<and> table_at m (root_ppn pt) [a', b'] \<noteq> None")
      case no: False
      then have "pt_entries ?m pt w = pt_entries m pt w"
        unfolding pt_entries_eq [OF w(1)] tabs [OF w(2)] by auto
      then show ?thesis using False by simp
    next
      case yes: True
      then obtain t' where t': "table_at m (root_ppn pt) [a', b'] = Some t'" and vw: "vpn_ok w" by auto
      have "(t', c') \<noteq> (t, c)"
      proof
        assume eq: "(t', c') = (t, c)"
        then have "[a', b'] = [a, b]" using pt_treeD(2) [OF assms(1,5) t w(2)] t' by simp
        then have "indexes w = indexes v" using eq w(1) v(1) by simp
        then have "w = v" using vw v(2) unfolding vpn_ok_def by (intro indexes_inj)
        then show False using False by simp
      qed
      moreover have "ref_ok (t', c')" using table_at_ppn_ok [OF assms(2) t'] w(3) by (simp add: ref_ok_def)
      ultimately have "read_pte ?m (t', c') = read_pte m (t', c')"
        using read_write_pte_other [OF tok] by blast
      then have "pt_entries ?m pt w = pt_entries m pt w"
        unfolding pt_entries_eq [OF w(1)] tabs [OF w(2)] t' option.case by (simp only:)
      then show ?thesis using False by simp
    qed
  qed
qed

section \<open>Creating a table\<close>

text \<open>
  The step of \<open>find_pte_create\<close>: from a memory \<open>m\<close> whose entry \<open>i\<close> of the table at path
  \<open>q0\<close> is invalid, a zeroed frame \<open>f\<close> is entered there.
\<close>

definition new_table :: "phys_mem \<Rightarrow> phys_mem \<Rightarrow> PageTable \<Rightarrow> usize list \<Rightarrow> usize \<Rightarrow> PhysPageNum \<Rightarrow> PhysPageNum \<Rightarrow> bool" where
  "new_table m m1 pt q0 i t f \<longleftrightarrow>
     pt_tree m pt \<and> ppn_ok (root_ppn pt) \<and> path_ok (q0 @ [i]) \<and> table_at m (root_ppn pt) q0 = Some t
     \<and> \<not> pte_is_valid (read_pte m (t, i)) \<and> ppn_ok f \<and> FrameTracker f \<notin> set (pt_frames pt)
     \<and> get_bytes_array m1 f = replicate 4096 0 \<and> (\<forall>p. ppn_ok p \<longrightarrow> p \<noteq> f \<longrightarrow> same_page m m1 p)"

abbreviation enter_table :: "PhysPageNum \<Rightarrow> usize \<Rightarrow> PhysPageNum \<Rightarrow> phys_mem \<Rightarrow> phys_mem" where
  "enter_table t i f m1 \<equiv> write_pte (t, i) (PageTableEntry_new f PTE_V) m1"

abbreviation add_frame :: "PhysPageNum \<Rightarrow> PageTable \<Rightarrow> PageTable" where
  "add_frame f pt \<equiv> pt\<lparr>pt_frames := pt_frames pt @ [FrameTracker f]\<rparr>"

lemma new_tableD:
  assumes "new_table m m1 pt q0 i t f"
  shows new_table_tree: "pt_tree m pt" and new_table_root: "ppn_ok (root_ppn pt)"
    and new_table_path: "path_ok q0" "length q0 \<le> 1" "unat i < 512"
    and new_table_at: "table_at m (root_ppn pt) q0 = Some t"
    and new_table_invalid: "\<not> pte_is_valid (read_pte m (t, i))"
    and new_table_f: "ppn_ok f" "FrameTracker f \<notin> set (pt_frames pt)"
    and new_table_zero: "get_bytes_array m1 f = replicate 4096 0"
    and new_table_same: "\<And>p. ppn_ok p \<Longrightarrow> p \<noteq> f \<Longrightarrow> same_page m m1 p"
  using assms by (simp_all add: new_table_def)

lemma new_table_ref: "new_table m m1 pt q0 i t f \<Longrightarrow> ref_ok (t, i)"
  using table_at_ppn_ok [OF new_table_root new_table_at] new_table_path(3) by (simp add: ref_ok_def)

lemma new_table_other:
  assumes N: "new_table m m1 pt q0 i t f" and q: "path_ok q" "table_at m (root_ppn pt) q = Some s"
  shows "s \<noteq> f"
proof
  assume "s = f"
  with pt_treeD(1) [OF new_table_tree [OF N] q] obtain g where "g \<in> set (pt_frames pt)" "f = frame_ppn g"
    by (auto simp: image_iff)
  then have "FrameTracker f \<in> set (pt_frames pt)" by simp
  with new_table_f(2) [OF N] show False ..
qed

lemma enter_table_read_other:
  assumes N: "new_table m m1 pt q0 i t f" and q: "path_ok q" "table_at m (root_ppn pt) q = Some s"
    and j: "unat j < 512" "(s, j) \<noteq> (t, i)"
  shows "read_pte (enter_table t i f m1) (s, j) = read_pte m (s, j)"
proof -
  have ok: "ppn_ok s" by (rule table_at_ppn_ok [OF new_table_root [OF N] q(2)])
  have "read_pte (enter_table t i f m1) (s, j) = read_pte m1 (s, j)"
    using new_table_ref [OF N] j ok by (intro read_write_pte_other) (simp_all add: ref_ok_def)
  also have "\<dots> = read_pte m (s, j)"
    using new_table_same [OF N ok new_table_other [OF N q]]
    by (intro read_pte_same_page) (simp add: same_page_sym)
  finally show ?thesis .
qed

lemma enter_table_read_fresh:
  assumes N: "new_table m m1 pt q0 i t f" and j: "unat j < 512"
  shows "\<not> pte_is_valid (read_pte (enter_table t i f m1) (f, j))"
proof -
  have "t \<noteq> f" by (rule new_table_other [OF N new_table_path(1) [OF N] new_table_at [OF N]])
  then have "read_pte (enter_table t i f m1) (f, j) = read_pte m1 (f, j)"
    using new_table_ref [OF N] new_table_f(1) [OF N] j by (intro read_write_pte_other) (auto simp: ref_ok_def)
  then show ?thesis using read_pte_zero_page [OF new_table_zero [OF N] j] by simp
qed

lemma enter_table_elsewhere:
  assumes N: "new_table m m1 pt q0 i t f" and "path_ok q" and ne: "\<And>r. q \<noteq> q0 @ i # r"
  shows "table_at (enter_table t i f m1) (root_ppn pt) q = table_at m (root_ppn pt) q"
proof (rule table_at_cong)
  fix q' j r s
  assume q: "q = q' @ j # r" and s: "table_at m (root_ppn pt) q' = Some s"
  have ok: "path_ok q'" "unat j < 512" using assms(2) unfolding q by (auto simp: path_ok_def)
  have "(s, j) \<noteq> (t, i)"
  proof
    assume "(s, j) = (t, i)"
    then have "q' = q0" and "j = i"
      using pt_treeD(2) [OF new_table_tree [OF N] new_table_path(1) [OF N] new_table_at [OF N] ok(1)] s
      by auto
    then show False using ne q by blast
  qed
  from enter_table_read_other [OF N ok(1) s ok(2) this]
  show "read_pte (enter_table t i f m1) (s, j) = read_pte m (s, j)" .
qed

lemma enter_table_new:
  assumes N: "new_table m m1 pt q0 i t f"
  shows "table_at (enter_table t i f m1) (root_ppn pt) (q0 @ [i]) = Some f"
proof -
  have "table_at (enter_table t i f m1) (root_ppn pt) q0 = Some t"
    using enter_table_elsewhere [OF N new_table_path(1) [OF N]] new_table_at [OF N] by simp
  then show ?thesis using new_table_f(1) [OF N] new_table_ref [OF N] by (simp add: table_at_snoc)
qed

lemma new_table_none:
  "new_table m m1 pt q0 i t f \<Longrightarrow> table_at m (root_ppn pt) (q0 @ [i]) = None"
  using new_table_at new_table_invalid by (simp add: table_at_snoc)

lemma enter_table_at:
  assumes N: "new_table m m1 pt q0 i t f" and "path_ok q"
  shows "table_at (enter_table t i f m1) (root_ppn pt) q
    = (if q = q0 @ [i] then Some f else table_at m (root_ppn pt) q)"
proof (cases "\<exists>r. q = q0 @ i # r")
  case False
  then have "q \<noteq> q0 @ [i]" by blast
  with False show ?thesis using enter_table_elsewhere [OF assms] by auto
next
  case True
  then obtain r where q: "q = (q0 @ [i]) @ r" by auto
  show ?thesis
  proof (cases r)
    case Nil
    then show ?thesis using q enter_table_new [OF N] by simp
  next
    case (Cons j r')
    have j: "unat j < 512" using assms(2) unfolding q Cons by (auto simp: path_ok_def)
    have "table_at (enter_table t i f m1) (root_ppn pt) q = None"
      unfolding q table_at_append [of _ _ "q0 @ [i]"] enter_table_new [OF N]
      using Cons enter_table_read_fresh [OF N j] by (simp add: table_at.simps(2))
    moreover have "table_at m (root_ppn pt) q = None"
      unfolding q table_at_append [of _ _ "q0 @ [i]"] new_table_none [OF N] by simp
    ultimately show ?thesis using q Cons by simp
  qed
qed

lemma enter_table_tree:
  assumes N: "new_table m m1 pt q0 i t f"
  shows "pt_tree (enter_table t i f m1) (add_frame f pt)"
proof (rule pt_treeI)
  note tree = new_table_tree [OF N]
  fix q s
  assume q: "path_ok q" and s: "table_at (enter_table t i f m1) (root_ppn (add_frame f pt)) q = Some s"
  show "FrameTracker s \<in> set (pt_frames (add_frame f pt))"
    using s tree q unfolding pt_tree_def by (auto simp: enter_table_at [OF N q] split: if_splits)
  fix q'
  assume q': "path_ok q'" and s': "table_at (enter_table t i f m1) (root_ppn (add_frame f pt)) q' = Some s"
  show "q = q'"
    using s s' new_table_other [OF N q] new_table_other [OF N q'] pt_treeD(2) [OF tree q _ q']
    by (auto simp: enter_table_at [OF N q] enter_table_at [OF N q'] split: if_splits)
qed

lemma enter_table_entries:
  assumes N: "new_table m m1 pt q0 i t f"
  shows "pt_entries (enter_table t i f m1) (add_frame f pt) = pt_entries m pt"
proof
  fix v
  obtain a b c where v: "indexes v = [a, b, c]" "path_ok [a, b]" "unat c < 512" by (rule indexes_cases)
  show "pt_entries (enter_table t i f m1) (add_frame f pt) v = pt_entries m pt v"
  proof (cases "[a, b] = q0 @ [i]")
    case True
    have "table_at m (root_ppn pt) [a, b] = None" unfolding True by (rule new_table_none [OF N])
    moreover have "table_at (enter_table t i f m1) (root_ppn pt) [a, b] = Some f"
      unfolding True by (rule enter_table_new [OF N])
    ultimately show ?thesis
      unfolding pt_entries_eq [OF v(1)] using enter_table_read_fresh [OF N v(3)] by simp
  next
    case False
    have eq: "table_at (enter_table t i f m1) (root_ppn pt) [a, b] = table_at m (root_ppn pt) [a, b]"
      using enter_table_at [OF N v(2)] unfolding if_not_P [OF False] .
    show ?thesis
    proof (cases "table_at m (root_ppn pt) [a, b]")
      case None
      then show ?thesis unfolding pt_entries_eq [OF v(1)] using eq by simp
    next
      case (Some s)
      have "s \<noteq> t"
        using pt_treeD(2) [OF new_table_tree [OF N] new_table_path(1) [OF N] new_table_at [OF N] v(2)]
          Some new_table_path(2) [OF N] by auto
      then have "read_pte (enter_table t i f m1) (s, c) = read_pte m (s, c)"
        using enter_table_read_other [OF N v(2) Some v(3)] by simp
      then show ?thesis unfolding pt_entries_eq [OF v(1)] using eq Some by simp
    qed
  qed
qed

lemma enter_table_pages:
  assumes N: "new_table m m1 pt q0 i t f" and p: "ppn_ok p" "p \<notin> frame_ppn ` set (pt_frames (add_frame f pt))"
  shows "same_page m (enter_table t i f m1) p"
proof -
  have "t \<in> frame_ppn ` set (pt_frames pt)"
    by (rule pt_treeD(1) [OF new_table_tree [OF N] new_table_path(1) [OF N] new_table_at [OF N]])
  then have "p \<noteq> f" and "p \<noteq> t" using p(2) by auto
  show ?thesis
    using new_table_same [OF N p(1) \<open>p \<noteq> f\<close>]
      write_pte_other_page [OF new_table_ref [OF N] p(1), of m1] \<open>p \<noteq> t\<close>
    by (simp add: same_page_def)
qed

section \<open>The walk that creates tables\<close>

text \<open>
  What one or more steps of the walk do: some new frames \<open>nf\<close> are taken and appended to
  the page table; translation is unchanged; pages outside the tables are unchanged.
\<close>

definition pt_grows :: "usize \<Rightarrow> PageTable \<Rightarrow> kmem \<Rightarrow> FrameTracker list \<Rightarrow> PageTable \<Rightarrow> kmem \<Rightarrow> bool" where
  "pt_grows lo pt k nf pt' k' \<longleftrightarrow>
     pt' = pt\<lparr>pt_frames := pt_frames pt @ nf\<rparr> \<and> kmem_inv lo k' \<and> pt_inv lo k' pt'
     \<and> frame_ppn ` set nf \<inter> frames_live lo k = {}
     \<and> frames_live lo k' = frames_live lo k \<union> frame_ppn ` set nf
     \<and> frames_room k' + length nf = frames_room k
     \<and> (\<forall>p. ppn_ok p \<longrightarrow> p \<notin> frame_ppn ` set (pt_frames pt') \<longrightarrow> same_page (phys k) (phys k') p)"

lemma pt_grows_refl: "kmem_inv lo k \<Longrightarrow> pt_inv lo k pt \<Longrightarrow> pt_grows lo pt k [] pt k"
  by (simp add: pt_grows_def)

lemma pt_grows_trans:
  assumes "pt_grows lo pt k nf pt1 k1" and "pt_grows lo pt1 k1 nf' pt2 k2"
  shows "pt_grows lo pt k (nf @ nf') pt2 k2"
proof -
  note a = assms(1) [unfolded pt_grows_def] and b = assms(2) [unfolded pt_grows_def]
  have fr: "pt_frames pt2 = pt_frames pt1 @ nf'" using b by simp
  have "same_page (phys k) (phys k2) p" if p: "ppn_ok p" "p \<notin> frame_ppn ` set (pt_frames pt2)" for p
  proof (rule same_page_trans)
    have "p \<notin> frame_ppn ` set (pt_frames pt1)" using p(2) unfolding fr by auto
    then show "same_page (phys k) (phys k1) p" using a p(1) by blast
    show "same_page (phys k1) (phys k2) p" using b p by simp
  qed
  moreover have "frame_ppn ` set (nf @ nf') \<inter> frames_live lo k = {}"
    using a b by auto
  moreover have "frames_live lo k2 = frames_live lo k \<union> frame_ppn ` set (nf @ nf')"
    using a b by auto
  moreover have "pt2 = pt\<lparr>pt_frames := pt_frames pt @ nf @ nf'\<rparr>" and "frames_room k2 + length (nf @ nf') = frames_room k"
    using a b by simp_all
  moreover have "kmem_inv lo k2" and "pt_inv lo k2 pt2" using b by blast+
  ultimately show ?thesis unfolding pt_grows_def by blast
qed

lemma pt_inv_root_ok: "kmem_inv lo k \<Longrightarrow> pt_inv lo k pt \<Longrightarrow> ppn_ok (root_ppn pt)"
proof -
  assume k: "kmem_inv lo k" and pt: "pt_inv lo k pt"
  have "root_ppn pt \<in> frame_ppn ` set (pt_frames pt)"
    using pt by (intro pt_treeD(1) [of "phys k" pt "[]"]) (simp_all add: pt_inv_def)
  then show ?thesis using pt by (intro live_ppn_ok [OF k]) (auto simp: pt_inv_def)
qed

text \<open>One step at level \<open>length q0\<close>.\<close>

lemma ensure_table:
  assumes "kmem_inv lo k" and "pt_inv lo k pt" and "0 < frames_room k" and path: "path_ok (q0 @ [i])"
    and t: "table_at (phys k) (root_ppn pt) q0 = Some t"
    and invalid: "\<not> pte_is_valid (read_pte (phys k) (t, i))"
  obtains f k1 where "frame_alloc_unwrap k = Some (FrameTracker f, k1)"
    and "pt_grows lo pt k [FrameTracker f] (add_frame f pt) (k1\<lparr>phys := enter_table t i f (phys k1)\<rparr>)"
    and "pt_entries (enter_table t i f (phys k1)) (add_frame f pt) = pt_entries (phys k) pt"
    and "table_at (enter_table t i f (phys k1)) (root_ppn pt) (q0 @ [i]) = Some f"
    and "pte_ppn (read_pte (enter_table t i f (phys k1)) (t, i)) = f"
proof -
  from assms(1,3) obtain f k1 where al: "frame_alloc_unwrap k = Some (FrameTracker f, k1)"
      "kmem_inv lo k1" "f \<notin> frames_live lo k" "ppn_ok f" "frames_live lo k1 = insert f (frames_live lo k)"
      "Suc (frames_room k1) = frames_room k" "get_bytes_array (phys k1) f = replicate 4096 0"
      "\<forall>q. ppn_ok q \<longrightarrow> q \<noteq> f \<longrightarrow> same_page (phys k) (phys k1) q"
    by (rule frame_alloc_returns)
  have sub: "frame_ppn ` set (pt_frames pt) \<subseteq> frames_live lo k" and "distinct (pt_frames pt)"
    and tree: "pt_tree (phys k) pt" using assms(2) by (simp_all add: pt_inv_def)
  have fnew: "FrameTracker f \<notin> set (pt_frames pt)" using sub al(3) by (metis FrameTracker.sel imageI subsetD)
  have N: "new_table (phys k) (phys k1) pt q0 i t f"
    unfolding new_table_def
    by (intro conjI tree pt_inv_root_ok [OF assms(1,2)] path t invalid al(4,7,8) fnew)
  let ?k = "k1\<lparr>phys := enter_table t i f (phys k1)\<rparr>"
  have same [simp]: "frames_live lo ?k = frames_live lo k1" "frames_room ?k = frames_room k1"
      "kmem_inv lo ?k \<longleftrightarrow> kmem_inv lo k1"
    by (simp_all add: frames_live_def frames_room_def kmem_inv_def)
  have "frame_ppn ` set (pt_frames (add_frame f pt)) \<subseteq> frames_live lo k1" unfolding al(5) using sub by auto
  then have "pt_inv lo ?k (add_frame f pt)"
    using enter_table_tree [OF N] \<open>distinct (pt_frames pt)\<close> fnew by (simp add: pt_inv_def)
  then have grows: "pt_grows lo pt k [FrameTracker f] (add_frame f pt) ?k"
    unfolding pt_grows_def using al(2,3,5,6) enter_table_pages [OF N] by simp
  have ppn: "pte_ppn (read_pte (enter_table t i f (phys k1)) (t, i)) = f"
    using new_table_ref [OF N] al(4) by simp
  show ?thesis by (rule that [OF al(1) grows enter_table_entries [OF N] enter_table_new [OF N] ppn])
qed

text \<open>Both steps of the walk, as the recursion of the loop makes them.\<close>

definition walk_step :: "usize \<Rightarrow> usize list \<Rightarrow> PageTable \<Rightarrow> kmem \<Rightarrow> usize list \<Rightarrow> PhysPageNum \<Rightarrow> PageTable \<Rightarrow> kmem \<Rightarrow> bool" where
  "walk_step lo q0 pt k q t pt' k' \<longleftrightarrow>
     (\<exists>nf. pt_grows lo pt k nf pt' k' \<and> length nf + length q0 \<le> length q)
     \<and> pt_entries (phys k') pt' = pt_entries (phys k) pt
     \<and> table_at (phys k') (root_ppn pt') q = Some t"

lemma walk_step_trans:
  assumes "walk_step lo q0 pt k q1 t1 pt1 k1" and "walk_step lo q1 pt1 k1 q2 t2 pt2 k2"
  shows "walk_step lo q0 pt k q2 t2 pt2 k2"
proof -
  from assms obtain nf nf' where nf: "pt_grows lo pt k nf pt1 k1" "length nf + length q0 \<le> length q1"
      "pt_grows lo pt1 k1 nf' pt2 k2" "length nf' + length q1 \<le> length q2"
    unfolding walk_step_def by blast
  have "pt_grows lo pt k (nf @ nf') pt2 k2" by (rule pt_grows_trans [OF nf(1,3)])
  moreover have "length (nf @ nf') + length q0 \<le> length q2" using nf(2,4) by simp
  ultimately show ?thesis using assms unfolding walk_step_def by auto
qed

lemma find_pte_create_step:
  assumes "kmem_inv lo k" and "pt_inv lo k pt" and "0 < frames_room k" and path: "path_ok (q0 @ [i])"
    and t: "table_at (phys k) (root_ppn pt) q0 = Some t"
  obtains t' pt' k' where "walk_step lo q0 pt k (q0 @ [i]) t' pt' k'"
    and "\<forall>js. find_pte_create_loop (length q0) (i # js) t pt k = find_pte_create_loop (Suc (length q0)) js t' pt' k'"
proof (cases "pte_is_valid (read_pte (phys k) (t, i))")
  case True
  have "table_at (phys k) (root_ppn pt) (q0 @ [i]) = Some (pte_ppn (read_pte (phys k) (t, i)))"
    using t True by (simp add: table_at_snoc)
  moreover have "pt_grows lo pt k [] pt k" by (rule pt_grows_refl [OF assms(1,2)])
  ultimately have "walk_step lo q0 pt k (q0 @ [i]) (pte_ppn (read_pte (phys k) (t, i))) pt k"
    unfolding walk_step_def by (intro conjI exI [of _ "[]"]) simp_all
  moreover have "length q0 \<noteq> 2" using path by simp
  ultimately show ?thesis using True by (intro that [of "pte_ppn (read_pte (phys k) (t, i))" pt k]) simp_all
next
  case False
  from assms(1-5) False obtain f k1 where f: "frame_alloc_unwrap k = Some (FrameTracker f, k1)"
    "pt_grows lo pt k [FrameTracker f] (add_frame f pt) (k1\<lparr>phys := enter_table t i f (phys k1)\<rparr>)"
    "pt_entries (enter_table t i f (phys k1)) (add_frame f pt) = pt_entries (phys k) pt"
    "table_at (enter_table t i f (phys k1)) (root_ppn pt) (q0 @ [i]) = Some f"
    "pte_ppn (read_pte (enter_table t i f (phys k1)) (t, i)) = f"
    by (rule ensure_table)
  let ?k = "k1\<lparr>phys := enter_table t i f (phys k1)\<rparr>"
  have "walk_step lo q0 pt k (q0 @ [i]) f (add_frame f pt) ?k"
    unfolding walk_step_def using f(2-4) by (intro conjI exI [of _ "[FrameTracker f]"]) simp_all
  moreover have "length q0 \<noteq> 2" using path by simp
  ultimately show ?thesis
    using False f(1,5) by (intro that [of f "add_frame f pt" ?k]) (simp_all add: Let_def)
qed

lemma find_pte_create_returns:
  assumes "kmem_inv lo k" and "pt_inv lo k pt" and "2 \<le> frames_room k"
    and v: "indexes v = [a, b, c]" and path: "path_ok [a, b]"
  obtains t pt' k' where "find_pte_create v pt k = Some (Some (t, c), pt', k')"
    and "walk_step lo [] pt k [a, b] t pt' k'"
proof -
  have ab: "path_ok ([] @ [a])" "path_ok ([a] @ [b])" using path by (simp_all add: path_ok_def)
  have room: "0 < frames_room k" using assms(3) by simp
  have root: "table_at (phys k) (root_ppn pt) [] = Some (root_ppn pt)" by simp
  from assms(1,2) room ab(1) root obtain t1 pt1 k1 where s1: "walk_step lo [] pt k ([] @ [a]) t1 pt1 k1"
    and l1: "\<forall>js. find_pte_create_loop (length ([] :: usize list)) (a # js) (root_ppn pt) pt k
        = find_pte_create_loop (Suc (length ([] :: usize list))) js t1 pt1 k1"
    by (rule find_pte_create_step)
  from s1 obtain nf where g: "pt_grows lo pt k nf pt1 k1" "length nf \<le> 1"
    and t1: "table_at (phys k1) (root_ppn pt1) [a] = Some t1"
    unfolding walk_step_def by auto
  have inv1: "kmem_inv lo k1" "pt_inv lo k1 pt1" "0 < frames_room k1"
    using g assms(3) unfolding pt_grows_def by auto
  from inv1 ab(2) t1 obtain t2 pt2 k2 where s2: "walk_step lo [a] pt1 k1 ([a] @ [b]) t2 pt2 k2"
    and l2: "\<forall>js. find_pte_create_loop (length [a]) (b # js) t1 pt1 k1
        = find_pte_create_loop (Suc (length [a])) js t2 pt2 k2"
    by (rule find_pte_create_step)
  have "find_pte_create v pt k = find_pte_create_loop 0 [a, b, c] (root_ppn pt) pt k"
    by (simp only: find_pte_create_def v)
  also have "\<dots> = find_pte_create_loop 1 [b, c] t1 pt1 k1" using l1 [rule_format, of "[b, c]"] by simp
  also have "\<dots> = find_pte_create_loop 2 [c] t2 pt2 k2" using l2 [rule_format, of "[c]"] by (simp add: numeral_2_eq_2)
  finally have "find_pte_create v pt k = Some (Some (t2, c), pt2, k2)" by simp
  moreover have "walk_step lo [] pt k [a, b] t2 pt2 k2"
    using walk_step_trans [of lo "[]" pt k "[a]" t1 pt1 k1 "[a, b]" t2 pt2 k2] s1 s2 by simp
  ultimately show ?thesis by (rule that)
qed

section \<open>Mapping and unmapping\<close>

lemma pt_inv_leaf_write:
  assumes "kmem_inv lo k" and "pt_inv lo k pt" and "path_ok [a, b]"
    and t: "table_at (phys k) (root_ppn pt) [a, b] = Some t" and c: "unat c < 512"
  shows "pt_inv lo (k\<lparr>phys := write_pte (t, c) e (phys k)\<rparr>) pt"
    and "ppn_ok p \<Longrightarrow> p \<notin> frame_ppn ` set (pt_frames pt) \<Longrightarrow> same_page (phys k) (write_pte (t, c) e (phys k)) p"
proof -
  have tree: "pt_tree (phys k) pt" and root: "ppn_ok (root_ppn pt)"
    using assms(2) pt_inv_root_ok [OF assms(1,2)] by (simp_all add: pt_inv_def)
  have "pt_tree (write_pte (t, c) e (phys k)) pt"
    by (rule pt_tree_cong [OF tree leaf_write_tables [OF tree root assms(3) t c]])
  then show "pt_inv lo (k\<lparr>phys := write_pte (t, c) e (phys k)\<rparr>) pt"
    using assms(2) by (simp add: pt_inv_def frames_live_def)
  have "t \<in> frame_ppn ` set (pt_frames pt)" by (rule pt_treeD(1) [OF tree assms(3) t])
  then show "same_page (phys k) (write_pte (t, c) e (phys k)) p"
    if "ppn_ok p" and "p \<notin> frame_ppn ` set (pt_frames pt)"
    using that table_at_ppn_ok [OF root t] c by (intro write_pte_other_page) (auto simp: ref_ok_def)
qed

lemma pt_grows_write:
  assumes "pt_grows lo pt k nf pt' k'" and "path_ok [a, b]"
    and "table_at (phys k') (root_ppn pt') [a, b] = Some t" and "unat c < 512"
  shows "pt_grows lo pt k nf pt' (k'\<lparr>phys := write_pte (t, c) e (phys k')\<rparr>)"
proof -
  note g = assms(1) [unfolded pt_grows_def]
  have inv: "kmem_inv lo k'" "pt_inv lo k' pt'" using g by blast+
  note w = pt_inv_leaf_write [OF inv assms(2-4)]
  have "same_page (phys k) (write_pte (t, c) e (phys k')) p"
    if "ppn_ok p" and "p \<notin> frame_ppn ` set (pt_frames pt')" for p
    using g w(2) [OF that] that by (metis same_page_trans)
  then show ?thesis
    using g w(1) unfolding pt_grows_def by (simp add: frames_live_def frames_room_def kmem_inv_def)
qed

lemma PageTable_map_returns:
  assumes "kmem_inv lo k" and "pt_inv lo k pt" and "2 \<le> frames_room k" and v: "vpn_ok v"
    and unmapped: "pt_entries (phys k) pt v = None"
  obtains nf pt' k' where "PageTable_map v p flags pt k = Some (pt', k')"
    and "pt_grows lo pt k nf pt' k'" and "length nf \<le> 2"
    and "pt_entries (phys k') pt' = (pt_entries (phys k) pt)(v \<mapsto> PageTableEntry_new p (flags OR PTE_V))"
proof -
  obtain a b c where abc: "indexes v = [a, b, c]" "path_ok [a, b]" "unat c < 512" by (rule indexes_cases)
  from assms(1-3) abc(1,2) obtain t pt1 k1 where
      f: "find_pte_create v pt k = Some (Some (t, c), pt1, k1)" "walk_step lo [] pt k [a, b] t pt1 k1"
    by (rule find_pte_create_returns)
  from f(2) obtain nf where g: "pt_grows lo pt k nf pt1 k1" "length nf \<le> 2"
    and e: "pt_entries (phys k1) pt1 = pt_entries (phys k) pt"
    and t: "table_at (phys k1) (root_ppn pt1) [a, b] = Some t"
    unfolding walk_step_def by auto
  have inv: "kmem_inv lo k1" "pt_inv lo k1 pt1" using g(1) by (auto simp: pt_grows_def)
  have tree: "pt_tree (phys k1) pt1" using inv(2) by (simp add: pt_inv_def)
  have "pt_entries (phys k1) pt1 v = None" using e unmapped by simp
  then have ninv: "\<not> pte_is_valid (read_pte (phys k1) (t, c))"
    using v t unfolding pt_entries_eq [OF abc(1)] by (simp split: if_splits)
  let ?e = "PageTableEntry_new p (flags OR PTE_V)"
  let ?k = "k1\<lparr>phys := write_pte (t, c) ?e (phys k1)\<rparr>"
  have "PageTable_map v p flags pt k = Some (pt1, ?k)"
    using f(1) ninv by (simp add: PageTable_map_def)
  moreover have "pt_grows lo pt k nf pt1 ?k" by (rule pt_grows_write [OF g(1) abc(2) t abc(3)])
  moreover have "pt_entries (phys ?k) pt1 = (pt_entries (phys k) pt)(v \<mapsto> ?e)"
    using leaf_write_entries [OF tree pt_inv_root_ok [OF inv] abc(1) v abc(2) t abc(3), of ?e] e by simp
  ultimately show ?thesis using that g(2) by blast
qed

text \<open>A page that is already mapped makes \<open>map\<close> panic, as long as there is memory.\<close>

lemma PageTable_map_twice:
  assumes "kmem_inv lo k" and "pt_inv lo k pt" and "2 \<le> frames_room k" and v: "vpn_ok v"
    and "pt_entries (phys k) pt v \<noteq> None"
  shows "PageTable_map v p flags pt k = None"
proof -
  obtain a b c where abc: "indexes v = [a, b, c]" "path_ok [a, b]" "unat c < 512" by (rule indexes_cases)
  from assms(1-3) abc(1,2) obtain t pt1 k1 where
      f: "find_pte_create v pt k = Some (Some (t, c), pt1, k1)" "walk_step lo [] pt k [a, b] t pt1 k1"
    by (rule find_pte_create_returns)
  have "pt_entries (phys k1) pt1 v \<noteq> None" and "table_at (phys k1) (root_ppn pt1) [a, b] = Some t"
    using f(2) assms(5) unfolding walk_step_def by auto
  then have "pte_is_valid (read_pte (phys k1) (t, c))"
    unfolding pt_entries_eq [OF abc(1)] by (auto split: if_splits)
  then show ?thesis using f(1) by (simp add: PageTable_map_def)
qed

lemma PageTable_unmap_returns:
  assumes "kmem_inv lo k" and "pt_inv lo k pt" and v: "vpn_ok v" and mapped: "pt_entries (phys k) pt v \<noteq> None"
  obtains k' where "PageTable_unmap v pt k = Some k'" and "pt_grows lo pt k [] pt k'"
    and "pt_entries (phys k') pt = (pt_entries (phys k) pt)(v := None)"
proof -
  obtain a b c where abc: "indexes v = [a, b, c]" "path_ok [a, b]" "unat c < 512" by (rule indexes_cases)
  have tree: "pt_tree (phys k) pt" using assms(2) by (simp add: pt_inv_def)
  from mapped obtain t where t: "table_at (phys k) (root_ppn pt) [a, b] = Some t"
    and valid: "pte_is_valid (read_pte (phys k) (t, c))"
    unfolding pt_entries_eq [OF abc(1)] by (auto split: if_splits option.splits)
  let ?k = "k\<lparr>phys := write_pte (t, c) PageTableEntry_empty (phys k)\<rparr>"
  have "PageTable_unmap v pt k = Some ?k"
    using t valid by (simp add: PageTable_unmap_def find_pte_eq [OF abc(1)])
  moreover have "pt_grows lo pt k [] pt ?k"
    by (rule pt_grows_write [OF pt_grows_refl [OF assms(1,2)] abc(2) t abc(3)])
  moreover have "pt_entries (phys ?k) pt = (pt_entries (phys k) pt)(v := None)"
    using leaf_write_entries [OF tree pt_inv_root_ok [OF assms(1,2)] abc(1) v abc(2) t abc(3),
        of PageTableEntry_empty] by simp
  ultimately show ?thesis by (rule that)
qed

lemma PageTable_unmap_unmapped:
  assumes "vpn_ok v" and "pt_entries (phys k) pt v = None"
  shows "PageTable_unmap v pt k = None"
proof -
  obtain a b c where abc: "indexes v = [a, b, c]" "path_ok [a, b]" "unat c < 512" by (rule indexes_cases)
  show ?thesis
    using assms unfolding pt_entries_eq [OF abc(1)]
    by (auto simp: PageTable_unmap_def find_pte_eq [OF abc(1)] split: option.splits if_splits)
qed

text \<open>A fresh page table maps nothing.\<close>

lemma PageTable_new_returns:
  assumes "kmem_inv lo k" and "0 < frames_room k"
  obtains f k' where "PageTable_new k = Some (\<lparr>root_ppn = f, pt_frames = [FrameTracker f]\<rparr>, k')"
    and "kmem_inv lo k'" and "pt_inv lo k' \<lparr>root_ppn = f, pt_frames = [FrameTracker f]\<rparr>"
    and "f \<notin> frames_live lo k" and "frames_live lo k' = insert f (frames_live lo k)"
    and "Suc (frames_room k') = frames_room k"
    and "\<forall>q. ppn_ok q \<longrightarrow> q \<noteq> f \<longrightarrow> same_page (phys k) (phys k') q"
    and "pt_entries (phys k') \<lparr>root_ppn = f, pt_frames = [FrameTracker f]\<rparr> = Map.empty"
proof -
  from assms obtain f k1 where al: "frame_alloc_unwrap k = Some (FrameTracker f, k1)"
      "kmem_inv lo k1" "f \<notin> frames_live lo k" "ppn_ok f" "frames_live lo k1 = insert f (frames_live lo k)"
      "Suc (frames_room k1) = frames_room k" "get_bytes_array (phys k1) f = replicate 4096 0"
      "\<forall>q. ppn_ok q \<longrightarrow> q \<noteq> f \<longrightarrow> same_page (phys k) (phys k1) q"
    by (rule frame_alloc_returns)
  let ?pt = "\<lparr>root_ppn = f, pt_frames = [FrameTracker f]\<rparr>"
  have no: "table_at (phys k1) f (i # q) = None" if "unat i < 512" for i q
    using read_pte_zero_page [OF al(7) that] by (simp add: table_at.simps(2))
  have nil: "q = []" if "path_ok q" "table_at (phys k1) f q \<noteq> None" for q
    using that no by (cases q) (auto simp: path_ok_def)
  have "pt_tree (phys k1) ?pt"
  proof (rule pt_treeI)
    fix q q' t
    assume q: "path_ok q" "table_at (phys k1) (root_ppn ?pt) q = Some t"
    then show "FrameTracker t \<in> set (pt_frames ?pt)" using nil [of q] by auto
    assume "path_ok q'" "table_at (phys k1) (root_ppn ?pt) q' = Some t"
    then show "q = q'" using q nil [of q] nil [of q'] by simp
  qed
  then have inv: "pt_inv lo k1 ?pt" using al(5) by (simp add: pt_inv_def)
  have "pt_entries (phys k1) ?pt v = None" for v
  proof -
    obtain a b c where abc: "indexes v = [a, b, c]" "path_ok [a, b]" "unat c < 512" by (rule indexes_cases)
    then show ?thesis unfolding pt_entries_eq [OF abc(1)] using no [of a "[b]"] by (simp add: path_ok_def)
  qed
  then have "pt_entries (phys k1) ?pt = Map.empty" by (rule ext)
  moreover have "PageTable_new k = Some (?pt, k1)" by (simp add: PageTable_new_def al(1))
  ultimately show ?thesis using that al(2,3,5,6,8) inv by blast
qed

end
