(* ===== verification/UserBuffer.thy ===== *)
theory UserBuffer
  imports PageTableMap
begin

text \<open>
  Access to user memory from the kernel, the second half of \<^verbatim>\<open>os/src/mm/page_table.rs\<close>:
  \<open>translated_byte_buffer\<close>, \<open>translated_str\<close>, \<open>translated_ref\<close>, \<open>UserBuffer\<close> and its
  iterator. A \<open>&'static mut [u8]\<close> into a physical page is a \<open>slice\<close>, a physical start
  address and a length. Both loops run on user-supplied addresses, so they are partial
  functions: \<open>None\<close> is a panic or a loop that never ends.
\<close>

datatype slice = Slice (slice_addr: usize) (slice_len: nat)

fun slice_addrs :: "slice \<Rightarrow> usize list" where
  "slice_addrs (Slice a n) = map (\<lambda>i. a + of_nat i) [0..<n]"

text \<open>\<^verbatim>\<open>get_bytes_array()[a..b]\<close>: panics when \<open>a > b\<close>.\<close>

definition page_slice :: "PhysPageNum \<Rightarrow> nat \<Rightarrow> nat \<Rightarrow> slice option" where
  "page_slice p a b =
     (if a \<le> b \<and> b \<le> 4096 then Some (Slice (page_addr p + of_nat a) (b - a)) else None)"

partial_function (option) buffer_loop ::
    "phys_mem \<Rightarrow> PageTable \<Rightarrow> usize \<Rightarrow> usize \<Rightarrow> slice list \<Rightarrow> slice list option" where
  "buffer_loop m pt end' start v =
     (if start < end' then do {
        let start_va = VirtAddr_of_usize start;
        let vp = VirtAddr_floor start_va;
        pte \<leftarrow> PageTable_translate m pt vp;
        let p = pte_ppn pte;
        let vp = VirtPageNum_step vp;
        let end_va = min (VirtAddr_of_VirtPageNum vp) (VirtAddr_of_usize end');
        s \<leftarrow> (if VirtAddr_page_offset end_va = 0
              then page_slice p (unat (VirtAddr_page_offset start_va)) 4096
              else page_slice p (unat (VirtAddr_page_offset start_va)) (unat (VirtAddr_page_offset end_va)));
        buffer_loop m pt end' (usize_of_VirtAddr end_va) (v @ [s])
      }
      else Some v)"

definition translated_byte_buffer :: "phys_mem \<Rightarrow> usize \<Rightarrow> usize \<Rightarrow> usize \<Rightarrow> slice list option" where
  "translated_byte_buffer m token ptr len =
     buffer_loop m (PageTable_from_token token) (ptr + len) ptr []"

text \<open>\<^verbatim>\<open>string.push(ch as char)\<close>: the UTF-8 encoding of a Latin-1 character.\<close>

definition push_char :: "u8 \<Rightarrow> bytes" where
  "push_char ch = (if ch < 0x80 then [ch] else [0xC0 OR drop_bit 6 ch, 0x80 OR (ch AND 0x3F)])"

partial_function (option) str_loop :: "phys_mem \<Rightarrow> PageTable \<Rightarrow> usize \<Rightarrow> bytes \<Rightarrow> bytes option" where
  "str_loop m pt a s = do {
     x \<leftarrow> translate_va m pt (VirtAddr_of_usize a);
     let ch = m (pa x);
     if ch = 0 then Some s else str_loop m pt (a + 1) (s @ push_char ch)
   }"

definition translated_str :: "phys_mem \<Rightarrow> usize \<Rightarrow> usize \<Rightarrow> bytes option" where
  "translated_str m token ptr = str_loop m (PageTable_from_token token) ptr []"

definition translated_ref :: "phys_mem \<Rightarrow> usize \<Rightarrow> usize \<Rightarrow> PhysAddr option" where
  "translated_ref m token ptr = translate_va m (PageTable_from_token token) (VirtAddr_of_usize ptr)"

definition translated_refmut :: "phys_mem \<Rightarrow> usize \<Rightarrow> usize \<Rightarrow> PhysAddr option" where
  "translated_refmut m token ptr = translate_va m (PageTable_from_token token) (VirtAddr_of_usize ptr)"

record UserBuffer =
  buffers :: "slice list"

definition UserBuffer_new :: "slice list \<Rightarrow> UserBuffer" where
  "UserBuffer_new bs = \<lparr>buffers = bs\<rparr>"

definition UserBuffer_len :: "UserBuffer \<Rightarrow> usize" where
  "UserBuffer_len b = foldl (\<lambda>total s. total + of_nat (slice_len s)) 0 (buffers b)"

record UserBufferIterator =
  it_buffers :: "slice list"
  current_buffer :: nat
  current_idx :: nat

definition UserBuffer_into_iter :: "UserBuffer \<Rightarrow> UserBufferIterator" where
  "UserBuffer_into_iter b = \<lparr>it_buffers = buffers b, current_buffer = 0, current_idx = 0\<rparr>"

definition UserBufferIterator_next ::
    "UserBufferIterator \<Rightarrow> (usize option \<times> UserBufferIterator) option" where
  "UserBufferIterator_next it =
     (if current_buffer it \<ge> length (it_buffers it) then Some (None, it)
      else do {
        r \<leftarrow> nth_opt (slice_addrs (it_buffers it ! current_buffer it)) (current_idx it);
        Some (Some r,
          if current_idx it + 1 = slice_len (it_buffers it ! current_buffer it)
          then it\<lparr>current_idx := 0, current_buffer := current_buffer it + 1\<rparr>
          else it\<lparr>current_idx := current_idx it + 1\<rparr>)
      })"

partial_function (option) iter_all :: "UserBufferIterator \<Rightarrow> usize list option" where
  "iter_all it = do {
     (r, it') \<leftarrow> UserBufferIterator_next it;
     (case r of None \<Rightarrow> Some [] | Some a \<Rightarrow> do { as \<leftarrow> iter_all it'; Some (a # as) })
   }"

section \<open>Translation of addresses\<close>

lemma min_VirtAddr: "va (min a b) = min (va a) (va b)"
  by (simp add: min_def less_eq_VirtAddr_def)

lemma low_VirtAddr:
  assumes "unat x < 2 ^ 39"
  shows "va (VirtAddr_of_usize x) = x"
  using assms unat_take_bit [of 39 x] by (simp add: of_usize_eqs)

lemma low_usize_of_VirtAddr:
  assumes "unat (va a) < 2 ^ 38"
  shows "usize_of_VirtAddr a = va a"
proof -
  have "push_bit 38 1 = (2 ^ 38 :: usize)" by (simp add: push_bit_eq_mult)
  then have "unat (push_bit 38 1 :: usize) = 2 ^ 38" by simp
  then have "\<not> va a \<ge> push_bit 38 1" using assms unfolding word_le_nat_alt by linarith
  then show ?thesis unfolding usize_of_VirtAddr_def VA_WIDTH_SV39_def by simp
qed

lemma page_offset_eq: "unat (VirtAddr_page_offset a) = unat (va a) mod 4096"
  unfolding VirtAddr_page_offset_def page_offset_take_bit by (simp add: unat_take_bit)

lemma translate_va_eq:
  "translate_va m pt a =
     map_option (\<lambda>e. PhysAddr (page_addr (pte_ppn e) + VirtAddr_page_offset a))
       (PageTable_translate m pt (VirtAddr_floor a))"
proof -
  have "PhysAddr_of_usize (page_addr (pte_ppn e) + VirtAddr_page_offset a)
      = PhysAddr (page_addr (pte_ppn e) + VirtAddr_page_offset a)" for e
  proof -
    have off: "unat (VirtAddr_page_offset a) < 4096" by (simp add: page_offset_eq)
    have "unat (ppn (pte_ppn e)) < 2 ^ 44" using pte_ppn_ok [of e] by (simp add: ppn_ok_def)
    moreover have "unat (page_addr (pte_ppn e) + VirtAddr_page_offset a)
        = unat (ppn (pte_ppn e)) * 4096 + unat (VirtAddr_page_offset a)"
      using unat_page_offset [OF pte_ppn_ok off] by simp
    ultimately have "unat (page_addr (pte_ppn e) + VirtAddr_page_offset a) < 2 ^ 56" using off by simp
    then show ?thesis
      using unat_take_bit [of 56 "page_addr (pte_ppn e) + VirtAddr_page_offset a"] by (simp add: of_usize_eqs)
  qed
  then show ?thesis
    by (simp add: translate_va_def PageTable_translate_def usize_of_PhysAddr_def page_addr_def Let_def
        option.map_comp comp_def)
qed

text \<open>The physical address behind a user address.\<close>

definition phys_of :: "phys_mem \<Rightarrow> PageTable \<Rightarrow> usize \<Rightarrow> usize option" where
  "phys_of m pt x = map_option pa (translate_va m pt (VirtAddr_of_usize x))"

lemma phys_of_page:
  assumes "unat x < 2 ^ 39" and "unat y < 2 ^ 39" and "unat y div 4096 = unat x div 4096"
    and e: "PageTable_translate m pt (VirtAddr_floor (VirtAddr_of_usize x)) = Some e"
  shows "phys_of m pt y = Some (page_addr (pte_ppn e) + of_nat (unat y mod 4096))"
proof -
  have "vpn (VirtAddr_floor (VirtAddr_of_usize y)) = vpn (VirtAddr_floor (VirtAddr_of_usize x))"
    using assms(1-3) by (subst unat_eq_iff [symmetric]) (simp only: VirtAddr_floor_eq low_VirtAddr)
  then have "VirtAddr_floor (VirtAddr_of_usize y) = VirtAddr_floor (VirtAddr_of_usize x)"
    by (rule VirtPageNum.expand)
  moreover have "VirtAddr_page_offset (VirtAddr_of_usize y) = of_nat (unat y mod 4096)"
    using arg_cong [OF page_offset_eq [of "VirtAddr_of_usize y"], of "of_nat :: nat \<Rightarrow> usize"]
      low_VirtAddr [OF assms(2)] by simp
  ultimately show ?thesis using e by (simp add: phys_of_def translate_va_eq)
qed

section \<open>The loop over the pages of a buffer\<close>

lemma page_end_VirtAddr:
  assumes "unat x < 2 ^ 38"
  shows "unat (va (VirtAddr_of_VirtPageNum (VirtPageNum_step (VirtAddr_floor (VirtAddr_of_usize x)))))
    = (unat x div 4096 + 1) * 4096"
proof -
  have f: "unat (vpn (VirtAddr_floor (VirtAddr_of_usize x))) = unat x div 4096"
    using assms by (subst VirtAddr_floor_eq) (simp add: low_VirtAddr)
  have "unat x div 4096 < 2 ^ 26" using assms by (simp add: less_mult_imp_div_less)
  then have "unat (vpn (VirtPageNum_step (VirtAddr_floor (VirtAddr_of_usize x)))) = unat x div 4096 + 1"
    using f by (simp add: VirtPageNum_step_def word_add_exact)
  then show ?thesis
    using \<open>unat x div 4096 < 2 ^ 26\<close>
    unfolding VirtAddr_of_VirtPageNum_def PAGE_SIZE_BITS_def VirtAddr.sel
    by (subst unat_push_bit) simp_all
qed

lemma below_next_page: "s < (s div 4096 + 1) * 4096" for s :: nat
  using dividend_less_div_times [of 4096 s] by simp

lemma in_page:
  fixes s i :: nat
  assumes "s + i < (s div 4096 + 1) * 4096"
  shows "s mod 4096 + i < 4096" and "(s + i) div 4096 = s div 4096" and "(s + i) mod 4096 = s mod 4096 + i"
proof -
  define q r where "q = s div 4096" and "r = s mod 4096"
  have s: "s = q * 4096 + r" by (simp add: q_def r_def)
  then show lt: "s mod 4096 + i < 4096" using assms unfolding q_def [symmetric] r_def [symmetric] by simp
  have "s + i = (r + i) + 4096 * q" using s by simp
  then show "(s + i) div 4096 = s div 4096" and "(s + i) mod 4096 = s mod 4096 + i"
    using lt unfolding q_def [symmetric] r_def [symmetric] by (simp_all only: div_mult_self2 mod_mult_self2) simp_all
qed

lemma chunk_slice:
  fixes s c :: nat
  assumes "s < c" and "c \<le> (s div 4096 + 1) * 4096"
  shows "page_slice p (s mod 4096) (if c mod 4096 = 0 then 4096 else c mod 4096)
    = Some (Slice (page_addr p + of_nat (s mod 4096)) (c - s))"
proof -
  let ?q = "s div 4096"
  have s: "s = ?q * 4096 + s mod 4096" by simp
  show ?thesis
  proof (cases "c = (?q + 1) * 4096")
    case True
    then have "c mod 4096 = 0" by simp
    moreover have "c - s = 4096 - s mod 4096" using True minus_mod_eq_div_mult [of s 4096] by simp
    ultimately show ?thesis by (simp add: page_slice_def)
  next
    case False
    then have "c < (?q + 1) * 4096" using assms(2) by simp
    moreover have "?q * 4096 < c" using assms(1) s by linarith
    ultimately have "c = ?q * 4096 + (c - ?q * 4096)" and "0 < c - ?q * 4096" and "c - ?q * 4096 < 4096"
      by simp_all
    then have "c mod 4096 = c - ?q * 4096" by (metis mod_less mod_mult_self3)
    then have "c mod 4096 \<noteq> 0" and "s mod 4096 \<le> c mod 4096" and "c mod 4096 - s mod 4096 = c - s"
      using assms(1) s \<open>0 < c - ?q * 4096\<close> by linarith+
    then show ?thesis by (simp add: page_slice_def less_imp_le)
  qed
qed

lemma buffer_loop_step:
  fixes start end' :: usize
  assumes lt: "start < end'" and bound: "unat end' < 2 ^ 38"
    and e: "PageTable_translate m pt (VirtAddr_floor (VirtAddr_of_usize start)) = Some e"
  defines "c \<equiv> min ((unat start div 4096 + 1) * 4096) (unat end')"
  shows "buffer_loop m pt end' start v = buffer_loop m pt end' (of_nat c)
    (v @ [Slice (page_addr (pte_ppn e) + of_nat (unat start mod 4096)) (c - unat start)])"
proof -
  have s: "unat start < 2 ^ 38" using lt bound by (simp add: word_less_nat_alt)
  let ?ev = "min (VirtAddr_of_VirtPageNum (VirtPageNum_step (VirtAddr_floor (VirtAddr_of_usize start))))
      (VirtAddr_of_usize end')"
  have "unat (va ?ev) = c"
    using page_end_VirtAddr [OF s] low_VirtAddr [of end'] bound
    unfolding min_VirtAddr c_def by (simp add: min_def word_le_nat_alt)
  then have vae: "va ?ev = of_nat c" by (metis of_nat_unat ucast_id)
  have cl: "c < 2 ^ 38" using bound unfolding c_def by simp
  then have u: "usize_of_VirtAddr ?ev = of_nat c"
    using low_usize_of_VirtAddr [of ?ev] vae \<open>unat (va ?ev) = c\<close> by simp
  have off: "unat (VirtAddr_page_offset ?ev) = c mod 4096"
    unfolding page_offset_eq \<open>unat (va ?ev) = c\<close> ..
  then have off0: "VirtAddr_page_offset ?ev = 0 \<longleftrightarrow> c mod 4096 = 0" by (metis unat_0 unat_eq_iff)
  have so: "unat (VirtAddr_page_offset (VirtAddr_of_usize start)) = unat start mod 4096"
    using s by (simp add: page_offset_eq low_VirtAddr)
  note below_next_page [of "unat start"]
  then have sc: "unat start < c" and cp: "c \<le> (unat start div 4096 + 1) * 4096"
    using lt by (simp_all add: c_def word_less_nat_alt)
  note sl = chunk_slice [OF sc cp, of "pte_ppn e"]
  have "(if VirtAddr_page_offset ?ev = 0
      then page_slice (pte_ppn e) (unat (VirtAddr_page_offset (VirtAddr_of_usize start))) 4096
      else page_slice (pte_ppn e) (unat (VirtAddr_page_offset (VirtAddr_of_usize start)))
        (unat (VirtAddr_page_offset ?ev)))
    = Some (Slice (page_addr (pte_ppn e) + of_nat (unat start mod 4096)) (c - unat start))"
    unfolding off0 off so using sl by (auto split: if_splits)
  then show ?thesis
    by (subst buffer_loop.simps) (simp add: lt e u Let_def)
qed

text \<open>
  The slices name, in order, the physical addresses of the bytes of the buffer, when
  every page of it has a leaf table; none of them is empty.
\<close>

definition buffer_mapped :: "phys_mem \<Rightarrow> PageTable \<Rightarrow> nat \<Rightarrow> nat \<Rightarrow> bool" where
  "buffer_mapped m pt s n \<longleftrightarrow> (\<forall>i. s \<le> i \<and> i < s + n \<longrightarrow> phys_of m pt (of_nat i) \<noteq> None)"

lemma chunk_addrs:
  assumes "unat start < c" and "c \<le> (unat start div 4096 + 1) * 4096" and "c < 2 ^ 38"
    and e: "PageTable_translate m pt (VirtAddr_floor (VirtAddr_of_usize start)) = Some e"
  shows "slice_addrs (Slice (page_addr (pte_ppn e) + of_nat (unat start mod 4096)) (c - unat start))
    = map (\<lambda>i. the (phys_of m pt (of_nat i))) [unat start..<c]"
proof (rule nth_equalityI)
  let ?s = "unat start"
  show "length (slice_addrs (Slice (page_addr (pte_ppn e) + of_nat (?s mod 4096)) (c - ?s)))
      = length (map (\<lambda>i. the (phys_of m pt (of_nat i))) [?s..<c])" by simp
  fix i
  assume "i < length (slice_addrs (Slice (page_addr (pte_ppn e) + of_nat (?s mod 4096)) (c - ?s)))"
  then have i: "i < c - ?s" by simp
  have y: "unat (of_nat (?s + i) :: usize) = ?s + i" using i assms(3) by (intro unat_of_nat_exact) simp
  have "?s + i < (?s div 4096 + 1) * 4096" using i assms(2) by linarith
  note pg = in_page [OF this]
  have "phys_of m pt (of_nat (?s + i)) = Some (page_addr (pte_ppn e) + of_nat (?s mod 4096 + i))"
    using phys_of_page [of start "of_nat (?s + i)" m pt e] e y i assms(3) pg by simp
  then show "slice_addrs (Slice (page_addr (pte_ppn e) + of_nat (?s mod 4096)) (c - ?s)) ! i
      = map (\<lambda>i. the (phys_of m pt (of_nat i))) [?s..<c] ! i"
    using i by (simp add: add.assoc)
qed

lemma buffer_loop_returns:
  fixes start end' :: usize
  assumes "start \<le> end'" and "unat end' < 2 ^ 38" and "buffer_mapped m pt (unat start) (unat end' - unat start)"
  shows "\<exists>w. buffer_loop m pt end' start v = Some (v @ w) \<and> (\<forall>x \<in> set w. 0 < slice_len x)
    \<and> concat (map slice_addrs w) = map (\<lambda>i. the (phys_of m pt (of_nat i))) [unat start..<unat end']"
  using assms
proof (induction "unat end' - unat start" arbitrary: start v rule: less_induct)
  case less
  show ?case
  proof (cases "start < end'")
    case False
    then have "start = end'" using less.prems(1) by simp
    then show ?thesis by (subst buffer_loop.simps) simp
  next
    case True
    let ?s = "unat start" and ?f = "\<lambda>i. the (phys_of m pt (of_nat i))"
    have lt: "?s < unat end'" using True by (simp add: word_less_nat_alt)
    then have "phys_of m pt (of_nat ?s) \<noteq> None"
      using less.prems(3) unfolding buffer_mapped_def by (metis add_diff_inverse_nat le_refl less_or_eq_imp_le not_less)
    then obtain e where e: "PageTable_translate m pt (VirtAddr_floor (VirtAddr_of_usize start)) = Some e"
      by (auto simp: phys_of_def translate_va_eq)
    define c where "c = min ((?s div 4096 + 1) * 4096) (unat end')"
    let ?sl = "Slice (page_addr (pte_ppn e) + of_nat (?s mod 4096)) (c - ?s)"
    note below_next_page [of ?s]
    then have c: "?s < c" "c \<le> unat end'" "c \<le> (?s div 4096 + 1) * 4096" using lt by (simp_all add: c_def)
    have uc: "unat (of_nat c :: usize) = c" using c(2) less.prems(2) by (intro unat_of_nat_exact) simp
    have "buffer_mapped m pt c (unat end' - c)"
      using less.prems(3) c(1,2) lt unfolding buffer_mapped_def by simp
    then obtain w where w: "buffer_loop m pt end' (of_nat c) (v @ [?sl]) = Some ((v @ [?sl]) @ w)"
        "\<forall>x \<in> set w. 0 < slice_len x" "concat (map slice_addrs w) = map ?f [c..<unat end']"
      using less.hyps [of "of_nat c" "v @ [?sl]"] c less.prems(2) uc diff_less_mono2 [OF c(1) lt]
      by (auto simp: word_le_nat_alt)
    have "buffer_loop m pt end' start v = Some (v @ ?sl # w)"
      using buffer_loop_step [OF True less.prems(2) e, of v] w(1) by (simp add: c_def)
    moreover have "concat (map slice_addrs (?sl # w)) = map ?f [?s..<unat end']"
    proof -
      have "slice_addrs ?sl = map ?f [?s..<c]" using c less.prems(2) by (intro chunk_addrs [OF _ _ _ e]) simp_all
      moreover have "[?s..<unat end'] = [?s..<c] @ [c..<unat end']"
        using c by (metis le_add_diff_inverse less_imp_le upt_add_eq_append)
      ultimately show ?thesis using w(3) by simp
    qed
    ultimately show ?thesis using w(2) c(1) by (intro exI [of _ "?sl # w"]) simp
  qed
qed

lemma translated_byte_buffer_returns:
  assumes "unat ptr + unat len < 2 ^ 38" and "buffer_mapped m (PageTable_from_token token) (unat ptr) (unat len)"
  shows "\<exists>w. translated_byte_buffer m token ptr len = Some w \<and> (\<forall>x \<in> set w. 0 < slice_len x)
    \<and> concat (map slice_addrs w)
      = map (\<lambda>i. the (phys_of m (PageTable_from_token token) (of_nat i))) [unat ptr..<unat ptr + unat len]"
proof -
  have u: "unat (ptr + len) = unat ptr + unat len" using assms(1) by (simp add: word_add_exact)
  show ?thesis
    using buffer_loop_returns [of ptr "ptr + len" m "PageTable_from_token token" "[]"] assms
    unfolding translated_byte_buffer_def u by (simp add: word_le_nat_alt u)
qed

section \<open>Strings\<close>

lemma str_loop_returns:
  assumes "\<And>i. i < length bs \<Longrightarrow> \<exists>x. phys_of m pt (a + of_nat i) = Some x \<and> m x = bs ! i \<and> bs ! i \<noteq> 0"
    and "\<exists>x. phys_of m pt (a + of_nat (length bs)) = Some x \<and> m x = 0"
  shows "str_loop m pt a s = Some (s @ concat (map push_char bs))"
  using assms
proof (induction bs arbitrary: a s)
  case Nil
  then obtain y where "translate_va m pt (VirtAddr_of_usize a) = Some y" "m (pa y) = 0"
    by (auto simp: phys_of_def)
  then show ?case by (subst str_loop.simps) simp
next
  case (Cons b bs)
  from Cons.prems(1) [of 0] obtain y where y: "translate_va m pt (VirtAddr_of_usize a) = Some y"
      "m (pa y) = b" "b \<noteq> 0"
    by (auto simp: phys_of_def)
  have next': "a + 1 + of_nat i = a + of_nat (Suc i)" for i by simp
  have "str_loop m pt (a + 1) (s @ push_char b) = Some ((s @ push_char b) @ concat (map push_char bs))"
  proof (rule Cons.IH)
    show "\<exists>x. phys_of m pt (a + 1 + of_nat i) = Some x \<and> m x = bs ! i \<and> bs ! i \<noteq> 0" if "i < length bs" for i
      using Cons.prems(1) [of "Suc i"] that unfolding next' by simp
    show "\<exists>x. phys_of m pt (a + 1 + of_nat (length bs)) = Some x \<and> m x = 0"
      using Cons.prems(2) unfolding next' by simp
  qed
  then show ?case using y by (subst str_loop.simps) simp
qed

section \<open>User buffers\<close>

lemma length_slice_addrs [simp]: "length (slice_addrs s) = slice_len s"
  by (cases s) simp

lemma UserBuffer_len_eq:
  "UserBuffer_len b = of_nat (length (concat (map slice_addrs (buffers b))))"
proof -
  have "foldl (\<lambda>total s. total + of_nat (slice_len s)) t ss = t + of_nat (length (concat (map slice_addrs ss)))"
    for t :: usize and ss
    by (induction ss arbitrary: t) (simp_all add: add.assoc)
  then show ?thesis by (simp add: UserBuffer_len_def)
qed

lemma iter_all_buffer:
  assumes "b < length bs" and "i < slice_len (bs ! b)"
    and "iter_all (if i + 1 = slice_len (bs ! b) then \<lparr>it_buffers = bs, current_buffer = Suc b, current_idx = 0\<rparr>
        else \<lparr>it_buffers = bs, current_buffer = b, current_idx = Suc i\<rparr>) = Some as"
  shows "iter_all \<lparr>it_buffers = bs, current_buffer = b, current_idx = i\<rparr> = Some (slice_addrs (bs ! b) ! i # as)"
  using assms by (subst iter_all.simps) (auto simp: UserBufferIterator_next_def split: if_splits)

lemma iter_all_from:
  assumes "\<forall>s \<in> set bs. 0 < slice_len s" and "b \<le> length bs" and "b < length bs \<Longrightarrow> i < slice_len (bs ! b)"
    and "b = length bs \<Longrightarrow> i = 0"
  shows "iter_all \<lparr>it_buffers = bs, current_buffer = b, current_idx = i\<rparr>
    = Some (drop i (concat (map slice_addrs (drop b bs))))"
  using assms(2-4)
proof (induction "length (concat (map slice_addrs (drop b bs))) - i" arbitrary: b i rule: less_induct)
  case less
  let ?it = "\<lparr>it_buffers = bs, current_buffer = b, current_idx = i\<rparr>"
  show ?case
  proof (cases "b < length bs")
    case False
    then show ?thesis by (subst iter_all.simps) (simp add: UserBufferIterator_next_def)
  next
    case True
    define xs where "xs = slice_addrs (bs ! b)"
    define ys where "ys = concat (map slice_addrs (drop (Suc b) bs))"
    have i: "i < length xs" using less.prems(2) [OF True] by (simp add: xs_def)
    have all: "concat (map slice_addrs (drop b bs)) = xs @ ys"
      using True by (simp add: xs_def ys_def Cons_nth_drop_Suc [symmetric])
    have dr: "drop i (xs @ ys) = xs ! i # drop (Suc i) (xs @ ys)"
      using i Cons_nth_drop_Suc [of i "xs @ ys"] by (simp add: nth_append)
    let ?it' = "if i + 1 = slice_len (bs ! b) then \<lparr>it_buffers = bs, current_buffer = Suc b, current_idx = 0\<rparr>
        else \<lparr>it_buffers = bs, current_buffer = b, current_idx = Suc i\<rparr>"
    have "iter_all ?it' = Some (drop (Suc i) (xs @ ys))"
    proof (cases "i + 1 = slice_len (bs ! b)")
      case last: True
      have "iter_all \<lparr>it_buffers = bs, current_buffer = Suc b, current_idx = 0\<rparr>
          = Some (drop 0 (concat (map slice_addrs (drop (Suc b) bs))))"
        by (rule less.hyps) (use True i all assms(1) in \<open>auto simp: ys_def\<close>)
      then show ?thesis using last by (simp add: xs_def ys_def)
    next
      case more: False
      then have "iter_all \<lparr>it_buffers = bs, current_buffer = b, current_idx = Suc i\<rparr>
          = Some (drop (Suc i) (concat (map slice_addrs (drop b bs))))"
        by (intro less.hyps) (use True i all in \<open>auto simp: xs_def\<close>)
      then show ?thesis using more all by simp
    qed
    from iter_all_buffer [OF True _ this] show ?thesis using i dr all by (simp add: xs_def)
  qed
qed

lemma UserBuffer_iter_all:
  "\<forall>s \<in> set (buffers b). 0 < slice_len s \<Longrightarrow>
    iter_all (UserBuffer_into_iter b) = Some (concat (map slice_addrs (buffers b)))"
  using iter_all_from [of "buffers b" 0 0] by (simp add: UserBuffer_into_iter_def)

end
