(* ===== verification/MemorySet.thy ===== *)
theory MemorySet
  imports UserBuffer
begin

text \<open>
  Address spaces, \<^verbatim>\<open>os/src/mm/memory_set.rs\<close>: mapped areas, the operations on them, and
  the construction of the kernel space, of a user space from an ELF image, and of the copy
  of a user space made by \<^verbatim>\<open>fork\<close>.

  A \<^verbatim>\<open>BTreeMap\<close> is an association list ordered by key. The linker symbols are an argument
  of the definitions that read them. The ELF parser is the external crate
  \<^verbatim>\<open>xmas_elf\<close>: its result is the record \<open>ElfFile\<close> of what \<open>from_elf\<close> reads of it, and the
  parser itself is an argument of \<open>from_elf\<close>.
\<close>

section \<open>Ordered maps\<close>

fun bt_insert :: "'k::linorder \<Rightarrow> 'v \<Rightarrow> ('k \<times> 'v) list \<Rightarrow> 'v option \<times> ('k \<times> 'v) list" where
  "bt_insert k v [] = (None, [(k, v)])"
| "bt_insert k v ((k', v') # m) =
     (if k < k' then (None, (k, v) # (k', v') # m)
      else if k = k' then (Some v', (k, v) # m)
      else (case bt_insert k v m of (old, m') \<Rightarrow> (old, (k', v') # m')))"

fun bt_remove :: "'k::linorder \<Rightarrow> ('k \<times> 'v) list \<Rightarrow> 'v option \<times> ('k \<times> 'v) list" where
  "bt_remove k [] = (None, [])"
| "bt_remove k ((k', v') # m) =
     (if k = k' then (Some v', m)
      else (case bt_remove k m of (old, m') \<Rightarrow> (old, (k', v') # m')))"

section \<open>Areas\<close>

datatype MapType = Identical | Framed

type_synonym MapPermission = u8

definition PERM_R :: MapPermission where "PERM_R = push_bit 1 1"

definition PERM_W :: MapPermission where "PERM_W = push_bit 2 1"

definition PERM_X :: MapPermission where "PERM_X = push_bit 3 1"

definition PERM_U :: MapPermission where "PERM_U = push_bit 4 1"

record MapArea =
  vpn_range :: VPNRange
  data_frames :: "(VirtPageNum \<times> FrameTracker) list"
  map_type :: MapType
  map_perm :: MapPermission

definition MapArea_new :: "VirtAddr \<Rightarrow> VirtAddr \<Rightarrow> MapType \<Rightarrow> MapPermission \<Rightarrow> MapArea option" where
  "MapArea_new start_va end_va ty perm = do {
     let start_vpn = VirtAddr_floor start_va;
     let end_vpn = VirtAddr_ceil end_va;
     r \<leftarrow> SimpleRange_new start_vpn end_vpn;
     Some \<lparr>vpn_range = r, data_frames = [], map_type = ty, map_perm = perm\<rparr>
   }"

definition MapArea_from_another :: "MapArea \<Rightarrow> MapArea option" where
  "MapArea_from_another another = do {
     r \<leftarrow> SimpleRange_new (get_start (vpn_range another)) (get_end (vpn_range another));
     Some \<lparr>vpn_range = r, data_frames = [], map_type = map_type another, map_perm = map_perm another\<rparr>
   }"

definition drop_opt :: "FrameTracker option \<Rightarrow> kmem \<Rightarrow> kmem option" where
  "drop_opt f k = (case f of None \<Rightarrow> Some k | Some f \<Rightarrow> FrameTracker_drop f k)"

definition map_one ::
    "VirtPageNum \<Rightarrow> MapArea \<Rightarrow> PageTable \<Rightarrow> kmem \<Rightarrow> (MapArea \<times> PageTable \<times> kmem) option" where
  "map_one v area pt k = do {
     (p, area, k) \<leftarrow>
       (case map_type area of
          Identical \<Rightarrow> Some (PhysPageNum (vpn v), area, k)
        | Framed \<Rightarrow> do {
            (frame, k) \<leftarrow> frame_alloc_unwrap k;
            let p = frame_ppn frame;
            let (old, df) = bt_insert v frame (data_frames area);
            k \<leftarrow> drop_opt old k;
            Some (p, area\<lparr>data_frames := df\<rparr>, k)
          });
     let pte_flags = map_perm area;
     (pt, k) \<leftarrow> PageTable_map v p pte_flags pt k;
     Some (area, pt, k)
   }"

definition unmap_one :: "VirtPageNum \<Rightarrow> PageTable \<Rightarrow> MapArea \<Rightarrow> kmem \<Rightarrow> (MapArea \<times> kmem) option" where
  "unmap_one v pt area k = do {
     (area, k) \<leftarrow>
       (if map_type area = Framed then do {
          let (old, df) = bt_remove v (data_frames area);
          k \<leftarrow> drop_opt old k;
          Some (area\<lparr>data_frames := df\<rparr>, k)
        }
        else Some (area, k));
     k \<leftarrow> PageTable_unmap v pt k;
     Some (area, k)
   }"

fun map_each ::
    "VirtPageNum list \<Rightarrow> MapArea \<Rightarrow> PageTable \<Rightarrow> kmem \<Rightarrow> (MapArea \<times> PageTable \<times> kmem) option" where
  "map_each [] area pt k = Some (area, pt, k)"
| "map_each (v # vs) area pt k = do {
     (area, pt, k) \<leftarrow> map_one v area pt k;
     map_each vs area pt k
   }"

fun unmap_each :: "VirtPageNum list \<Rightarrow> PageTable \<Rightarrow> MapArea \<Rightarrow> kmem \<Rightarrow> (MapArea \<times> kmem) option" where
  "unmap_each [] pt area k = Some (area, k)"
| "unmap_each (v # vs) pt area k = do {
     (area, k) \<leftarrow> unmap_one v pt area k;
     unmap_each vs pt area k
   }"

definition MapArea_map :: "MapArea \<Rightarrow> PageTable \<Rightarrow> kmem \<Rightarrow> (MapArea \<times> PageTable \<times> kmem) option" where
  "MapArea_map area pt k = do { vs \<leftarrow> vpns (vpn_range area); map_each vs area pt k }"

definition MapArea_unmap :: "PageTable \<Rightarrow> MapArea \<Rightarrow> kmem \<Rightarrow> (MapArea \<times> kmem) option" where
  "MapArea_unmap pt area k = do { vs \<leftarrow> vpns (vpn_range area); unmap_each vs pt area k }"

definition MapArea_shrink_to ::
    "VirtPageNum \<Rightarrow> PageTable \<Rightarrow> MapArea \<Rightarrow> kmem \<Rightarrow> (MapArea \<times> kmem) option" where
  "MapArea_shrink_to new_end pt area k = do {
     r \<leftarrow> SimpleRange_new new_end (get_end (vpn_range area));
     vs \<leftarrow> vpns r;
     (area, k) \<leftarrow> unmap_each vs pt area k;
     r' \<leftarrow> SimpleRange_new (get_start (vpn_range area)) new_end;
     Some (area\<lparr>vpn_range := r'\<rparr>, k)
   }"

definition MapArea_append_to ::
    "VirtPageNum \<Rightarrow> MapArea \<Rightarrow> PageTable \<Rightarrow> kmem \<Rightarrow> (MapArea \<times> PageTable \<times> kmem) option" where
  "MapArea_append_to new_end area pt k = do {
     r \<leftarrow> SimpleRange_new (get_end (vpn_range area)) new_end;
     vs \<leftarrow> vpns r;
     (area, pt, k) \<leftarrow> map_each vs area pt k;
     r' \<leftarrow> SimpleRange_new (get_start (vpn_range area)) new_end;
     Some (area\<lparr>vpn_range := r'\<rparr>, pt, k)
   }"

function copy_loop :: "PageTable \<Rightarrow> bytes \<Rightarrow> nat \<Rightarrow> VirtPageNum \<Rightarrow> phys_mem \<Rightarrow> phys_mem option" where
  "copy_loop pt data start current_vpn m = do {
     let src = buf_get start (min (length data) (start + 4096) - start) data;
     pte \<leftarrow> PageTable_translate m pt current_vpn;
     let m = put_bytes_array (pte_ppn pte) 0 src m;
     let start = start + 4096;
     if start \<ge> length data then Some m
     else copy_loop pt data start (VirtPageNum_step current_vpn) m
   }"
  by pat_completeness auto
termination
  by (relation "measure (\<lambda>(pt, data, start, v, m). length data - start)") auto

definition copy_data :: "bytes \<Rightarrow> PageTable \<Rightarrow> MapArea \<Rightarrow> kmem \<Rightarrow> kmem option" where
  "copy_data data pt area k =
     (if map_type area \<noteq> Framed then None
      else map_option (\<lambda>m. k\<lparr>phys := m\<rparr>) (copy_loop pt data 0 (get_start (vpn_range area)) (phys k)))"

text \<open>Dropping an area returns its frames, in the order of their pages.\<close>

definition MapArea_drop :: "MapArea \<Rightarrow> kmem \<Rightarrow> kmem option" where
  "MapArea_drop area k = drop_frames (map snd (data_frames area)) k"

fun drop_areas :: "MapArea list \<Rightarrow> kmem \<Rightarrow> kmem option" where
  "drop_areas [] k = Some k"
| "drop_areas (a # as) k = do { k \<leftarrow> MapArea_drop a k; drop_areas as k }"

section \<open>Address spaces\<close>

record MemorySet =
  page_table :: PageTable
  areas :: "MapArea list"

definition MemorySet_new_bare :: "kmem \<Rightarrow> (MemorySet \<times> kmem) option" where
  "MemorySet_new_bare k = do {
     (pt, k) \<leftarrow> PageTable_new k;
     Some (\<lparr>page_table = pt, areas = []\<rparr>, k)
   }"

definition MemorySet_token :: "MemorySet \<Rightarrow> usize" where
  "MemorySet_token ms = PageTable_token (page_table ms)"

definition MemorySet_push ::
    "MapArea \<Rightarrow> bytes option \<Rightarrow> MemorySet \<Rightarrow> kmem \<Rightarrow> (MemorySet \<times> kmem) option" where
  "MemorySet_push map_area data ms k = do {
     (map_area, pt, k) \<leftarrow> MapArea_map map_area (page_table ms) k;
     k \<leftarrow> (case data of None \<Rightarrow> Some k | Some bs \<Rightarrow> copy_data bs pt map_area k);
     Some (ms\<lparr>page_table := pt, areas := areas ms @ [map_area]\<rparr>, k)
   }"

definition insert_framed_area ::
    "VirtAddr \<Rightarrow> VirtAddr \<Rightarrow> MapPermission \<Rightarrow> MemorySet \<Rightarrow> kmem \<Rightarrow> (MemorySet \<times> kmem) option" where
  "insert_framed_area start_va end_va permission ms k = do {
     area \<leftarrow> MapArea_new start_va end_va Framed permission;
     MemorySet_push area None ms k
   }"

text \<open>
  The search for an area, its removal from the vector and the drop of the removed area.
  \<open>None\<close> of the inner option: no area satisfies \<open>P\<close>.
\<close>

fun remove_area_loop ::
    "(MapArea \<Rightarrow> bool) \<Rightarrow> MapArea list \<Rightarrow> PageTable \<Rightarrow> kmem \<Rightarrow> (MapArea list option \<times> kmem) option" where
  "remove_area_loop P [] pt k = Some (None, k)"
| "remove_area_loop P (a # as) pt k =
     (if P a then do {
        (a, k) \<leftarrow> MapArea_unmap pt a k;
        k \<leftarrow> MapArea_drop a k;
        Some (Some as, k)
      }
      else do {
        (as', k) \<leftarrow> remove_area_loop P as pt k;
        Some (map_option (\<lambda>as'. a # as') as', k)
      })"

definition remove_framed_area ::
    "VirtAddr \<Rightarrow> VirtAddr \<Rightarrow> MemorySet \<Rightarrow> kmem \<Rightarrow> (int \<times> MemorySet \<times> kmem) option" where
  "remove_framed_area start_va end_va ms k = do {
     (r, k) \<leftarrow> remove_area_loop
       (\<lambda>area. get_start (vpn_range area) = VirtAddr_floor start_va \<and> get_end (vpn_range area) = VirtAddr_ceil end_va)
       (areas ms) (page_table ms) k;
     (case r of None \<Rightarrow> Some (-1, ms, k) | Some as \<Rightarrow> Some (0, ms\<lparr>areas := as\<rparr>, k))
   }"

definition remove_area_with_start_vpn :: "VirtPageNum \<Rightarrow> MemorySet \<Rightarrow> kmem \<Rightarrow> (MemorySet \<times> kmem) option" where
  "remove_area_with_start_vpn start_vpn ms k = do {
     (r, k) \<leftarrow> remove_area_loop (\<lambda>area. get_start (vpn_range area) = start_vpn) (areas ms) (page_table ms) k;
     (case r of None \<Rightarrow> Some (ms, k) | Some as \<Rightarrow> Some (ms\<lparr>areas := as\<rparr>, k))
   }"

text \<open>Linker symbols.\<close>

record symbols =
  stext :: usize
  etext :: usize
  srodata :: usize
  erodata :: usize
  sdata :: usize
  edata :: usize
  sbss_with_stack :: usize
  ebss :: usize
  ekernel :: usize
  strampoline :: usize

definition map_trampoline :: "symbols \<Rightarrow> MemorySet \<Rightarrow> kmem \<Rightarrow> (MemorySet \<times> kmem) option" where
  "map_trampoline sy ms k = do {
     v \<leftarrow> VirtPageNum_of_VirtAddr (VirtAddr_of_usize TRAMPOLINE);
     p \<leftarrow> PhysPageNum_of_PhysAddr (PhysAddr_of_usize (strampoline sy));
     (pt, k) \<leftarrow> PageTable_map v p (PTE_R OR PTE_X) (page_table ms) k;
     Some (ms\<lparr>page_table := pt\<rparr>, k)
   }"

definition push_identical ::
    "usize \<Rightarrow> usize \<Rightarrow> MapPermission \<Rightarrow> MemorySet \<Rightarrow> kmem \<Rightarrow> (MemorySet \<times> kmem) option" where
  "push_identical l r perm ms k = do {
     area \<leftarrow> MapArea_new (VirtAddr_of_usize l) (VirtAddr_of_usize r) Identical perm;
     MemorySet_push area None ms k
   }"

fun push_mmio :: "(usize \<times> usize) list \<Rightarrow> MemorySet \<Rightarrow> kmem \<Rightarrow> (MemorySet \<times> kmem) option" where
  "push_mmio [] ms k = Some (ms, k)"
| "push_mmio (p # ps) ms k = do {
     (ms, k) \<leftarrow> push_identical (fst p) (fst p + snd p) (PERM_R OR PERM_W) ms k;
     push_mmio ps ms k
   }"

definition new_kernel :: "symbols \<Rightarrow> kmem \<Rightarrow> (MemorySet \<times> kmem) option" where
  "new_kernel sy k = do {
     (ms, k) \<leftarrow> MemorySet_new_bare k;
     (ms, k) \<leftarrow> map_trampoline sy ms k;
     (ms, k) \<leftarrow> push_identical (stext sy) (etext sy) (PERM_R OR PERM_X) ms k;
     (ms, k) \<leftarrow> push_identical (srodata sy) (erodata sy) PERM_R ms k;
     (ms, k) \<leftarrow> push_identical (sdata sy) (edata sy) (PERM_R OR PERM_W) ms k;
     (ms, k) \<leftarrow> push_identical (sbss_with_stack sy) (ebss sy) (PERM_R OR PERM_W) ms k;
     (ms, k) \<leftarrow> push_identical (ekernel sy) MEMORY_END (PERM_R OR PERM_W) ms k;
     push_mmio MMIO ms k
   }"

text \<open>What \<open>from_elf\<close> reads of a parsed ELF file. \<open>ph_type\<close> is \<open>None\<close> when its decoding fails.\<close>

record ProgramHeader =
  ph_is_load :: "bool option"
  virtual_addr :: u64
  mem_size :: u64
  ph_offset :: u64
  file_size :: u64
  is_read :: bool
  is_write :: bool
  is_execute :: bool

record ElfFile =
  magic :: bytes
  ph_count :: nat
  program_header :: "nat \<Rightarrow> ProgramHeader option"
  entry_point :: u64

definition ph_perm :: "ProgramHeader \<Rightarrow> MapPermission" where
  "ph_perm ph =
     (let map_perm = PERM_U;
          map_perm = (if is_read ph then map_perm OR PERM_R else map_perm);
          map_perm = (if is_write ph then map_perm OR PERM_W else map_perm);
          map_perm = (if is_execute ph then map_perm OR PERM_X else map_perm)
      in map_perm)"

text \<open>\<^verbatim>\<open>&elf.input[a..b]\<close>: panics unless \<open>a \<le> b \<le> len\<close>.\<close>

definition input_slice :: "bytes \<Rightarrow> usize \<Rightarrow> usize \<Rightarrow> bytes option" where
  "input_slice input a b =
     (if a \<le> b \<and> unat b \<le> length input then Some (buf_get (unat a) (unat b - unat a) input) else None)"

fun load_segments ::
    "bytes \<Rightarrow> ElfFile \<Rightarrow> nat list \<Rightarrow> VirtPageNum \<Rightarrow> MemorySet \<Rightarrow> kmem \<Rightarrow> (VirtPageNum \<times> MemorySet \<times> kmem) option" where
  "load_segments input elf [] max_end_vpn ms k = Some (max_end_vpn, ms, k)"
| "load_segments input elf (i # is) max_end_vpn ms k = do {
     ph \<leftarrow> program_header elf i;
     load \<leftarrow> ph_is_load ph;
     if load then do {
       let start_va = VirtAddr_of_usize (virtual_addr ph);
       let end_va = VirtAddr_of_usize (virtual_addr ph + mem_size ph);
       map_area \<leftarrow> MapArea_new start_va end_va Framed (ph_perm ph);
       let max_end_vpn = get_end (vpn_range map_area);
       data \<leftarrow> input_slice input (ph_offset ph) (ph_offset ph + file_size ph);
       (ms, k) \<leftarrow> MemorySet_push map_area (Some data) ms k;
       load_segments input elf is max_end_vpn ms k
     }
     else load_segments input elf is max_end_vpn ms k
   }"

definition push_framed ::
    "usize \<Rightarrow> usize \<Rightarrow> MapPermission \<Rightarrow> MemorySet \<Rightarrow> kmem \<Rightarrow> (MemorySet \<times> kmem) option" where
  "push_framed l r perm ms k = do {
     area \<leftarrow> MapArea_new (VirtAddr_of_usize l) (VirtAddr_of_usize r) Framed perm;
     MemorySet_push area None ms k
   }"

definition from_elf ::
    "(bytes \<Rightarrow> ElfFile option) \<Rightarrow> symbols \<Rightarrow> bytes \<Rightarrow> kmem \<Rightarrow> ((MemorySet \<times> usize \<times> usize) \<times> kmem) option" where
  "from_elf ElfFile_new sy elf_data k = do {
     (ms, k) \<leftarrow> MemorySet_new_bare k;
     (ms, k) \<leftarrow> map_trampoline sy ms k;
     elf \<leftarrow> ElfFile_new elf_data;
     if magic elf \<noteq> [0x7f, 0x45, 0x4c, 0x46] then None else do {
       (max_end_vpn, ms, k) \<leftarrow> load_segments elf_data elf [0..<ph_count elf] (VirtPageNum 0) ms k;
       let max_end_va = VirtAddr_of_VirtPageNum max_end_vpn;
       let user_stack_bottom = usize_of_VirtAddr max_end_va;
       let user_stack_bottom = user_stack_bottom + PAGE_SIZE;
       let user_stack_top = user_stack_bottom + USER_STACK_SIZE;
       (ms, k) \<leftarrow> push_framed user_stack_bottom user_stack_top (PERM_R OR PERM_W OR PERM_U) ms k;
       (ms, k) \<leftarrow> push_framed user_stack_top user_stack_top (PERM_R OR PERM_W OR PERM_U) ms k;
       (ms, k) \<leftarrow> push_framed TRAP_CONTEXT_BASE TRAMPOLINE (PERM_R OR PERM_W) ms k;
       Some ((ms, user_stack_top, entry_point elf), k)
     }
   }"

definition MemorySet_translate :: "phys_mem \<Rightarrow> MemorySet \<Rightarrow> VirtPageNum \<Rightarrow> PageTableEntry option" where
  "MemorySet_translate m ms v = PageTable_translate m (page_table ms) v"

fun copy_pages :: "VirtPageNum list \<Rightarrow> MemorySet \<Rightarrow> MemorySet \<Rightarrow> phys_mem \<Rightarrow> phys_mem option" where
  "copy_pages [] user_space ms m = Some m"
| "copy_pages (v # vs) user_space ms m = do {
     src \<leftarrow> MemorySet_translate m user_space v;
     dst \<leftarrow> MemorySet_translate m ms v;
     copy_pages vs user_space ms
       (put_bytes_array (pte_ppn dst) 0 (get_bytes_array m (pte_ppn src)) m)
   }"

fun copy_areas ::
    "MapArea list \<Rightarrow> MemorySet \<Rightarrow> MemorySet \<Rightarrow> kmem \<Rightarrow> (MemorySet \<times> kmem) option" where
  "copy_areas [] user_space ms k = Some (ms, k)"
| "copy_areas (a # as) user_space ms k = do {
     new_area \<leftarrow> MapArea_from_another a;
     (ms, k) \<leftarrow> MemorySet_push new_area None ms k;
     vs \<leftarrow> vpns (vpn_range a);
     m \<leftarrow> copy_pages vs user_space ms (phys k);
     copy_areas as user_space ms (k\<lparr>phys := m\<rparr>)
   }"

definition from_existed_user :: "symbols \<Rightarrow> MemorySet \<Rightarrow> kmem \<Rightarrow> (MemorySet \<times> kmem) option" where
  "from_existed_user sy user_space k = do {
     (ms, k) \<leftarrow> MemorySet_new_bare k;
     (ms, k) \<leftarrow> map_trampoline sy ms k;
     copy_areas (areas user_space) user_space ms k
   }"

definition recycle_data_pages :: "MemorySet \<Rightarrow> kmem \<Rightarrow> (MemorySet \<times> kmem) option" where
  "recycle_data_pages ms k = do { k \<leftarrow> drop_areas (areas ms) k; Some (ms\<lparr>areas := []\<rparr>, k) }"

text \<open>Dropping an address space drops its fields in declaration order.\<close>

definition MemorySet_drop :: "MemorySet \<Rightarrow> kmem \<Rightarrow> kmem option" where
  "MemorySet_drop ms k = do { k \<leftarrow> PageTable_drop (page_table ms) k; drop_areas (areas ms) k }"

definition MemorySet_shrink_to ::
    "VirtAddr \<Rightarrow> VirtAddr \<Rightarrow> MemorySet \<Rightarrow> kmem \<Rightarrow> (bool \<times> MemorySet \<times> kmem) option" where
  "MemorySet_shrink_to start new_end ms k =
     (case find_idx (\<lambda>area. get_start (vpn_range area) = VirtAddr_floor start) (areas ms) of
        None \<Rightarrow> Some (False, ms, k)
      | Some i \<Rightarrow> do {
          (a, k) \<leftarrow> MapArea_shrink_to (VirtAddr_ceil new_end) (page_table ms) (areas ms ! i) k;
          Some (True, ms\<lparr>areas := (areas ms)[i := a]\<rparr>, k)
        })"

definition MemorySet_append_to ::
    "VirtAddr \<Rightarrow> VirtAddr \<Rightarrow> MemorySet \<Rightarrow> kmem \<Rightarrow> (bool \<times> MemorySet \<times> kmem) option" where
  "MemorySet_append_to start new_end ms k =
     (case find_idx (\<lambda>area. get_start (vpn_range area) = VirtAddr_floor start) (areas ms) of
        None \<Rightarrow> Some (False, ms, k)
      | Some i \<Rightarrow> do {
          (a, pt, k) \<leftarrow> MapArea_append_to (VirtAddr_ceil new_end) (areas ms ! i) (page_table ms) k;
          Some (True, ms\<lparr>page_table := pt, areas := (areas ms)[i := a]\<rparr>, k)
        })"

definition check_conflict :: "VirtAddr \<Rightarrow> VirtAddr \<Rightarrow> MemorySet \<Rightarrow> bool" where
  "check_conflict start end' ms =
     (\<exists>area \<in> set (areas ms).
        let area_start = get_start (vpn_range area);
            area_end = get_end (vpn_range area)
        in (VirtAddr_floor start \<ge> area_start \<and> VirtAddr_floor start < area_end)
           \<or> (VirtAddr_ceil end' > area_start \<and> VirtAddr_ceil end' \<le> area_end))"

end
