(* ===== verification/AreaOps.thy ===== *)
theory AreaOps
  imports MemorySet
begin

text \<open>
  Mapping and unmapping the pages of an area: every page of a framed area gets a zeroed
  frame of its own, no other page of memory changes, and unmapping gives exactly those
  frames back. \<open>space_step\<close> describes the effect of any number of such steps on the page
  table and on memory.
\<close>

section \<open>Ordered maps\<close>

definition bt_ok :: "('k::linorder \<times> 'v) list \<Rightarrow> bool" where
  "bt_ok m \<longleftrightarrow> sorted_wrt (<) (map fst m)"

lemma bt_ok_Cons: "bt_ok ((k, v) # m) \<longleftrightarrow> (\<forall>x \<in> set m. k < fst x) \<and> bt_ok m"
  by (auto simp: bt_ok_def)

lemma bt_insert_new:
  "bt_ok m \<Longrightarrow> k \<notin> fst ` set m \<Longrightarrow>
    fst (bt_insert k v m) = None \<and> bt_ok (snd (bt_insert k v m))
    \<and> set (snd (bt_insert k v m)) = insert (k, v) (set m)"
proof (induction m)
  case Nil
  then show ?case by (simp add: bt_ok_def)
next
  case (Cons x m)
  obtain k' v' where x: "x = (k', v')" by (cases x)
  have m: "bt_ok m" "\<forall>y \<in> set m. k' < fst y" "k \<notin> fst ` set m" "k \<noteq> k'"
    using Cons.prems by (auto simp: x bt_ok_Cons)
  note IH = Cons.IH [OF m(1,3)]
  show ?case
  proof (cases "k < k'")
    case True
    then have "bt_ok ((k, v) # x # m)" using m by (auto simp: bt_ok_Cons x)
    with True show ?thesis by (auto simp: x)
  next
    case False
    then have "k' < k" using m(4) by simp
    with IH m show ?thesis using False by (auto simp: x bt_ok_Cons split: prod.split)
  qed
qed

lemma bt_remove_in:
  "bt_ok m \<Longrightarrow> (k, v) \<in> set m \<Longrightarrow>
    fst (bt_remove k m) = Some v \<and> bt_ok (snd (bt_remove k m))
    \<and> set (snd (bt_remove k m)) = set m - {(k, v)}"
proof (induction m)
  case Nil
  then show ?case by simp
next
  case (Cons x m)
  obtain k' v' where x: "x = (k', v')" by (cases x)
  have m: "bt_ok m" "\<forall>y \<in> set m. k' < fst y" using Cons.prems by (auto simp: x bt_ok_Cons)
  show ?case
  proof (cases "k = k'")
    case True
    then have "(k, v) \<notin> set m" using m(2) by fastforce
    then have "v = v'" using Cons.prems(2) True by (simp add: x)
    with True m \<open>(k, v) \<notin> set m\<close> show ?thesis by (simp add: x)
  next
    case False
    then have "(k, v) \<in> set m" using Cons.prems(2) by (simp add: x)
    from Cons.IH [OF m(1) this] False m show ?thesis by (auto simp: x bt_ok_Cons split: prod.split)
  qed
qed

lemma bt_ok_distinct: "bt_ok m \<Longrightarrow> distinct (map fst m)"
  by (simp add: bt_ok_def strict_sorted_iff)

section \<open>Page tables are not disturbed by other pages\<close>

lemma pt_same_pages:
  assumes "kmem_inv lo k" and "pt_inv lo k pt"
    and same: "\<And>p. p \<in> frame_ppn ` set (pt_frames pt) \<Longrightarrow> same_page (phys k) m p"
  shows "pt_tree m pt" and "pt_entries m pt = pt_entries (phys k) pt"
proof -
  have tree: "pt_tree (phys k) pt" using assms(2) by (simp add: pt_inv_def)
  have read: "read_pte m (t, j) = read_pte (phys k) (t, j)"
    if "path_ok q" "table_at (phys k) (root_ppn pt) q = Some t" for q t j
    using same [OF pt_treeD(1) [OF tree that]] by (intro read_pte_same_page) (simp add: same_page_sym)
  have tabs: "table_at m (root_ppn pt) q = table_at (phys k) (root_ppn pt) q" if "path_ok q" for q
  proof (rule table_at_cong)
    fix q' j r t
    assume "q = q' @ j # r" "table_at (phys k) (root_ppn pt) q' = Some t"
    then show "read_pte m (t, j) = read_pte (phys k) (t, j)"
      using that by (intro read [of q']) (simp_all add: path_ok_prefix [of q' "j # r"])
  qed
  show "pt_tree m pt" by (rule pt_tree_cong [OF tree tabs])
  show "pt_entries m pt = pt_entries (phys k) pt"
  proof
    fix v
    obtain a b c where abc: "indexes v = [a, b, c]" "path_ok [a, b]" "unat c < 512" by (rule indexes_cases)
    have "read_pte m (t, c) = read_pte (phys k) (t, c)"
      if "table_at (phys k) (root_ppn pt) [a, b] = Some t" for t
      using read [OF abc(2) that] .
    then show "pt_entries m pt v = pt_entries (phys k) pt v"
      unfolding pt_entries_eq [OF abc(1)] tabs [OF abc(2)] by (simp split: option.split)
  qed
qed

lemma pt_inv_same_pages:
  assumes "kmem_inv lo k" and "pt_inv lo k pt"
    and "\<And>p. p \<in> frame_ppn ` set (pt_frames pt) \<Longrightarrow> same_page (phys k) (phys k') p"
    and "frame_ppn ` set (pt_frames pt) \<subseteq> frames_live lo k'"
  shows "pt_inv lo k' pt"
  using pt_same_pages(1) [OF assms(1-3)] assms(2,4) by (simp add: pt_inv_def)

section \<open>Steps on an address space\<close>

definition zero_page :: "phys_mem \<Rightarrow> PhysPageNum \<Rightarrow> bool" where
  "zero_page m p \<longleftrightarrow> get_bytes_array m p = replicate 4096 0"

lemma zero_page_same: "same_page m m' p \<Longrightarrow> zero_page m p \<Longrightarrow> zero_page m' p"
  by (simp add: same_page_def zero_page_def)

abbreviation ppns :: "FrameTracker list \<Rightarrow> PhysPageNum set" where
  "ppns fs \<equiv> frame_ppn ` set fs"

definition space_step ::
    "usize \<Rightarrow> PageTable \<Rightarrow> kmem \<Rightarrow> FrameTracker list \<Rightarrow> FrameTracker list \<Rightarrow> PageTable \<Rightarrow> kmem \<Rightarrow> bool" where
  "space_step lo pt k nf df pt' k' \<longleftrightarrow>
     pt' = pt\<lparr>pt_frames := pt_frames pt @ nf\<rparr> \<and> kmem_inv lo k' \<and> pt_inv lo k' pt'
     \<and> distinct (nf @ df) \<and> ppns (nf @ df) \<inter> frames_live lo k = {}
     \<and> frames_live lo k' = frames_live lo k \<union> ppns (nf @ df)
     \<and> frames_room k' + length (nf @ df) = frames_room k
     \<and> (\<forall>p \<in> ppns df. zero_page (phys k') p)
     \<and> (\<forall>p. ppn_ok p \<longrightarrow> p \<notin> ppns (pt_frames pt' @ df) \<longrightarrow> same_page (phys k) (phys k') p)"

lemma ppns_mem_iff: "frame_ppn f \<in> ppns fs \<longleftrightarrow> f \<in> set fs"
proof
  assume "frame_ppn f \<in> ppns fs"
  then obtain g where "g \<in> set fs" "frame_ppn f = frame_ppn g" by auto
  then show "f \<in> set fs" using FrameTracker.expand [of f g] by simp
qed simp

lemma ppns_disjoint_iff: "ppns fs \<inter> ppns gs = {} \<longleftrightarrow> set fs \<inter> set gs = {}"
  using ppns_mem_iff by (auto simp: disjoint_iff)

lemma space_step_refl: "kmem_inv lo k \<Longrightarrow> pt_inv lo k pt \<Longrightarrow> space_step lo pt k [] [] pt k"
  by (simp add: space_step_def)

lemma space_stepD:
  assumes "space_step lo pt k nf df pt' k'"
  shows "pt_frames pt' = pt_frames pt @ nf" and "root_ppn pt' = root_ppn pt"
    and "kmem_inv lo k'" and "pt_inv lo k' pt'" and "distinct (nf @ df)"
    and "ppns (nf @ df) \<inter> frames_live lo k = {}"
    and "frames_live lo k' = frames_live lo k \<union> ppns (nf @ df)"
    and "frames_room k' + length (nf @ df) = frames_room k"
    and "\<And>p. p \<in> ppns df \<Longrightarrow> zero_page (phys k') p"
    and "\<And>p. ppn_ok p \<Longrightarrow> p \<notin> ppns (pt_frames pt' @ df) \<Longrightarrow> same_page (phys k) (phys k') p"
proof -
  have "pt' = pt\<lparr>pt_frames := pt_frames pt @ nf\<rparr>" using assms unfolding space_step_def by blast
  then show "pt_frames pt' = pt_frames pt @ nf" and "root_ppn pt' = root_ppn pt" by simp_all
qed (use assms [unfolded space_step_def] in blast)+

lemma space_step_other:
  assumes "space_step lo pt k nf df pt' k'" and "kmem_inv lo k" and "p \<in> frames_live lo k"
    and "p \<notin> ppns (pt_frames pt)"
  shows "same_page (phys k) (phys k') p"
proof (rule space_stepD(10) [OF assms(1) live_ppn_ok [OF assms(2,3)]])
  have "p \<notin> ppns (nf @ df)" using space_stepD(6) [OF assms(1)] assms(3) by blast
  then show "p \<notin> ppns (pt_frames pt' @ df)"
    using assms(4) unfolding space_stepD(1) [OF assms(1)] set_append image_Un by blast
qed

lemma space_step_trans:
  assumes "pt_inv lo k pt" and s1: "space_step lo pt k nf df pt1 k1" and s2: "space_step lo pt1 k1 nf' df' pt2 k2"
  shows "space_step lo pt k (nf @ nf') (df @ df') pt2 k2"
proof -
  note a = space_stepD [OF s1] and b = space_stepD [OF s2]
  have live1: "ppns (nf @ df) \<subseteq> frames_live lo k1" unfolding a(7) by blast
  have new: "ppns (nf' @ df') \<inter> ppns (nf @ df) = {}" "ppns (nf' @ df') \<inter> frames_live lo k = {}"
    using b(6) unfolding a(7) by blast+
  have ptl: "ppns (pt_frames pt) \<subseteq> frames_live lo k" using assms(1) by (simp add: pt_inv_def)
  have dist: "distinct ((nf @ nf') @ df @ df')"
    using a(5) b(5) new(1) unfolding ppns_disjoint_iff by auto
  have fresh: "ppns ((nf @ nf') @ df @ df') \<inter> frames_live lo k = {}"
    using a(6) new(2) unfolding set_append image_Un by blast
  have live: "frames_live lo k2 = frames_live lo k \<union> ppns ((nf @ nf') @ df @ df')"
    unfolding b(7) a(7) set_append image_Un by blast
  have zero: "zero_page (phys k2) p" if "p \<in> ppns (df @ df')" for p
  proof (cases "p \<in> ppns df'")
    case True
    then show ?thesis by (rule b(9))
  next
    case False
    then have p: "p \<in> ppns df" using that by auto
    then have "p \<in> frames_live lo k1" using live1 by auto
    moreover have "p \<notin> ppns (pt_frames pt1)"
    proof -
      have "p \<notin> ppns nf"
      proof
        assume "p \<in> ppns nf"
        with p have "ppns nf \<inter> ppns df \<noteq> {}" by blast
        then show False using a(5) unfolding ppns_disjoint_iff by auto
      qed
      moreover have "p \<notin> frames_live lo k" using p a(6) by auto
      ultimately show ?thesis using ptl unfolding a(1) set_append image_Un by blast
    qed
    ultimately have "same_page (phys k1) (phys k2) p" by (rule space_step_other [OF s2 a(3)])
    then show ?thesis using a(9) [OF p] by (rule zero_page_same)
  qed
  have same: "same_page (phys k) (phys k2) p"
    if p: "ppn_ok p" "p \<notin> ppns (pt_frames pt2 @ df @ df')" for p
  proof (rule same_page_trans)
    show "same_page (phys k) (phys k1) p"
      by (rule a(10) [OF p(1)]) (use p(2) in \<open>auto simp: b(1)\<close>)
    show "same_page (phys k1) (phys k2) p" by (rule b(10) [OF p(1)]) (use p(2) in auto)
  qed
  have pt2: "pt2 = pt\<lparr>pt_frames := pt_frames pt @ nf @ nf'\<rparr>"
    using s1 s2 unfolding space_step_def by simp
  have "frames_room k2 + length ((nf @ nf') @ df @ df') = frames_room k" using a(8) b(8) by simp
  then show ?thesis
    unfolding space_step_def using pt2 b(3,4) dist fresh live zero same by simp
qed

section \<open>Mapping a page\<close>

abbreviation area_entry :: "MapArea \<Rightarrow> PhysPageNum \<Rightarrow> PageTableEntry" where
  "area_entry a p \<equiv> PageTableEntry_new p (map_perm a OR PTE_V)"

lemma map_one_framed:
  assumes "kmem_inv lo k" and "pt_inv lo k pt" and "3 \<le> frames_room k" and "vpn_ok v"
    and "pt_entries (phys k) pt v = None" and a: "map_type a = Framed" "bt_ok (data_frames a)"
    and v: "v \<notin> fst ` set (data_frames a)"
  obtains f nf pt' k' df where "map_one v a pt k = Some (a\<lparr>data_frames := df\<rparr>, pt', k')"
    and "space_step lo pt k nf [f] pt' k'" and "bt_ok df" and "set df = insert (v, f) (set (data_frames a))"
    and "length nf \<le> 2"
    and "pt_entries (phys k') pt' = (pt_entries (phys k) pt)(v \<mapsto> area_entry a (frame_ppn f))"
proof -
  have room: "0 < frames_room k" using assms(3) by simp
  from assms(1) room obtain p k1 where al: "frame_alloc_unwrap k = Some (FrameTracker p, k1)"
      "kmem_inv lo k1" "p \<notin> frames_live lo k" "ppn_ok p" "frames_live lo k1 = insert p (frames_live lo k)"
      "Suc (frames_room k1) = frames_room k" "get_bytes_array (phys k1) p = replicate 4096 0"
      "\<forall>q. ppn_ok q \<longrightarrow> q \<noteq> p \<longrightarrow> same_page (phys k) (phys k1) q"
    by (rule frame_alloc_returns)
  let ?f = "FrameTracker p"
  have ptl: "ppns (pt_frames pt) \<subseteq> frames_live lo k" using assms(2) by (simp add: pt_inv_def)
  have tabs: "same_page (phys k) (phys k1) q" if "q \<in> ppns (pt_frames pt)" for q
  proof -
    have "q \<in> frames_live lo k" using that ptl by blast
    then show ?thesis using al(3,8) live_ppn_ok [OF assms(1)] by metis
  qed
  have inv1: "pt_inv lo k1 pt" using ptl al(5) by (intro pt_inv_same_pages [OF assms(1,2) tabs]) auto
  have e1: "pt_entries (phys k1) pt = pt_entries (phys k) pt" by (rule pt_same_pages(2) [OF assms(1,2) tabs])
  have room1: "2 \<le> frames_room k1" using assms(3) al(6) by simp
  have un: "pt_entries (phys k1) pt v = None" using e1 assms(5) by simp
  from al(2) inv1 room1 assms(4) un obtain nf pt' k' where
      m: "PageTable_map v p (map_perm a) pt k1 = Some (pt', k')" "pt_grows lo pt k1 nf pt' k'" "length nf \<le> 2"
        "pt_entries (phys k') pt' = (pt_entries (phys k1) pt)(v \<mapsto> PageTableEntry_new p (map_perm a OR PTE_V))"
    by (rule PageTable_map_returns)
  obtain df where df: "bt_insert v ?f (data_frames a) = (None, df)" "bt_ok df"
      "set df = insert (v, ?f) (set (data_frames a))"
    using bt_insert_new [OF a(2) v, of ?f] by (cases "bt_insert v ?f (data_frames a)") auto
  have g: "pt' = pt\<lparr>pt_frames := pt_frames pt @ nf\<rparr>" "kmem_inv lo k'" "pt_inv lo k' pt'"
      "ppns nf \<inter> frames_live lo k1 = {}" "frames_live lo k' = frames_live lo k1 \<union> ppns nf"
      "frames_room k' + length nf = frames_room k1"
      "\<And>p. ppn_ok p \<Longrightarrow> p \<notin> ppns (pt_frames pt') \<Longrightarrow> same_page (phys k1) (phys k') p"
    using m(2) unfolding pt_grows_def by blast+
  have fnf: "?f \<notin> set nf" using g(4) al(5) by (auto simp: disjoint_iff)
  have dnf: "distinct nf" using g(1,3) by (simp add: pt_inv_def)
  have pnt: "p \<notin> ppns (pt_frames pt')"
    using ptl al(3) g(4) al(5) unfolding g(1) by auto
  have "zero_page (phys k') p"
    by (rule zero_page_same [OF g(7) [OF al(4) pnt]]) (simp add: zero_page_def al(7))
  moreover have "same_page (phys k) (phys k') q" if "ppn_ok q" "q \<notin> ppns (pt_frames pt' @ [?f])" for q
    using that al(8) g(7) [of q] by (auto intro: same_page_trans)
  moreover have "ppns (nf @ [?f]) \<inter> frames_live lo k = {}" using g(4) al(3,5) by auto
  moreover have "frames_live lo k' = frames_live lo k \<union> ppns (nf @ [?f])" using g(5) al(5) by auto
  ultimately have step: "space_step lo pt k nf [?f] pt' k'"
    unfolding space_step_def using g(1-3,6) al(6) fnf dnf by simp
  have "map_one v a pt k = Some (a\<lparr>data_frames := df\<rparr>, pt', k')"
    using a(1) al(1) df(1) m(1) by (simp add: map_one_def drop_opt_def)
  then show ?thesis using step df(2,3) m(3,4) e1 by (intro that [of df pt' k' nf ?f]) simp_all
qed

lemma map_each_framed:
  assumes "kmem_inv lo k" and "pt_inv lo k pt" and "3 * length vs \<le> frames_room k" and "distinct vs"
    and "\<forall>v \<in> set vs. vpn_ok v \<and> pt_entries (phys k) pt v = None \<and> v \<notin> fst ` set (data_frames a)"
    and "map_type a = Framed" and "bt_ok (data_frames a)"
  shows "\<exists>fs nf df pt' k'. map_each vs a pt k = Some (a\<lparr>data_frames := df\<rparr>, pt', k')
    \<and> space_step lo pt k nf fs pt' k' \<and> bt_ok df \<and> set df = set (zip vs fs) \<union> set (data_frames a)
    \<and> length fs = length vs \<and> length nf \<le> 2 * length vs
    \<and> pt_entries (phys k') pt' = pt_entries (phys k) pt ++ map_of (zip vs (map (\<lambda>f. area_entry a (frame_ppn f)) fs))"
  using assms
proof (induction vs arbitrary: a pt k)
  case Nil
  then show ?case
    using space_step_refl [OF Nil.prems(1,2)] by (intro exI [of _ "[]"] exI [of _ "data_frames a"]) simp
next
  case (Cons v vs)
  have v: "3 \<le> frames_room k" "vpn_ok v" "pt_entries (phys k) pt v = None" "v \<notin> fst ` set (data_frames a)"
    using Cons.prems(3,5) by simp_all
  from Cons.prems(1,2) v(1-3) Cons.prems(6,7) v(4) obtain f nf1 pt1 k1 df1
    where m: "map_one v a pt k = Some (a\<lparr>data_frames := df1\<rparr>, pt1, k1)" "space_step lo pt k nf1 [f] pt1 k1"
      "bt_ok df1" "set df1 = insert (v, f) (set (data_frames a))" "length nf1 \<le> 2"
      "pt_entries (phys k1) pt1 = (pt_entries (phys k) pt)(v \<mapsto> area_entry a (frame_ppn f))"
    by (rule map_one_framed)
  let ?a = "a\<lparr>data_frames := df1\<rparr>"
  note st = space_stepD [OF m(2)]
  have "v \<notin> set vs" "distinct vs" using Cons.prems(4) by simp_all
  then have "\<forall>w \<in> set vs. vpn_ok w \<and> pt_entries (phys k1) pt1 w = None \<and> w \<notin> fst ` set (data_frames ?a)"
    using Cons.prems(5) unfolding m(6) by (auto simp: m(4))
  moreover have "3 * length vs \<le> frames_room k1" using st(8) Cons.prems(3) m(5) by simp
  ultimately obtain fs nf df pt' k' where i: "map_each vs ?a pt1 k1 = Some (?a\<lparr>data_frames := df\<rparr>, pt', k')"
      "space_step lo pt1 k1 nf fs pt' k'" "bt_ok df" "set df = set (zip vs fs) \<union> set df1"
      "length fs = length vs" "length nf \<le> 2 * length vs"
      "pt_entries (phys k') pt' = pt_entries (phys k1) pt1 ++ map_of (zip vs (map (\<lambda>f. area_entry a (frame_ppn f)) fs))"
    using Cons.IH [OF st(3,4) _ \<open>distinct vs\<close>, of ?a] Cons.prems(6) m(3) by auto
  have "space_step lo pt k (nf1 @ nf) (f # fs) pt' k'"
    using space_step_trans [OF Cons.prems(2) m(2) i(2)] by simp
  moreover have "map_each (v # vs) a pt k = Some (a\<lparr>data_frames := df\<rparr>, pt', k')" using m(1) i(1) by simp
  moreover have "set df = set (zip (v # vs) (f # fs)) \<union> set (data_frames a)" using i(4) m(4) by auto
  moreover have "pt_entries (phys k') pt'
      = pt_entries (phys k) pt ++ map_of (zip (v # vs) (map (\<lambda>f. area_entry a (frame_ppn f)) (f # fs)))"
    using \<open>v \<notin> set vs\<close> i(5) unfolding i(7) m(6) by (simp add: map_add_upd_left)
  moreover have "length (nf1 @ nf) \<le> 2 * length (v # vs)" using m(5) i(6) by simp
  moreover have "length (f # fs) = length (v # vs)" using i(5) by simp
  ultimately show ?case using i(3) by blast
qed

section \<open>Unmapping a page\<close>

text \<open>The effect of removing pages: the frames \<open>df\<close> are returned, nothing else changes.\<close>

definition shrink_step :: "usize \<Rightarrow> PageTable \<Rightarrow> kmem \<Rightarrow> FrameTracker list \<Rightarrow> kmem \<Rightarrow> bool" where
  "shrink_step lo pt k df k' \<longleftrightarrow>
     kmem_inv lo k' \<and> pt_inv lo k' pt \<and> frames_live lo k' = frames_live lo k - ppns df
     \<and> frames_room k' = frames_room k + length df
     \<and> (\<forall>p. ppn_ok p \<longrightarrow> p \<notin> ppns (pt_frames pt) \<longrightarrow> same_page (phys k) (phys k') p)"

lemma unmap_one_framed:
  assumes "kmem_inv lo k" and "pt_inv lo k pt" and "vpn_ok v" and mapped: "pt_entries (phys k) pt v \<noteq> None"
    and a: "map_type a = Framed" "bt_ok (data_frames a)" and vf: "(v, f) \<in> set (data_frames a)"
    and f: "frame_ppn f \<in> frames_live lo k" "f \<notin> set (pt_frames pt)"
  obtains df k' where "unmap_one v pt a k = Some (a\<lparr>data_frames := df\<rparr>, k')"
    and "shrink_step lo pt k [f] k'" and "bt_ok df" and "set df = set (data_frames a) - {(v, f)}"
    and "pt_entries (phys k') pt = (pt_entries (phys k) pt)(v := None)"
proof -
  obtain df where df: "bt_remove v (data_frames a) = (Some f, df)" "bt_ok df" "set df = set (data_frames a) - {(v, f)}"
    using bt_remove_in [OF a(2) vf] by (cases "bt_remove v (data_frames a)") auto
  from assms(1) f(1) obtain k1 where d: "FrameTracker_drop (FrameTracker (frame_ppn f)) k = Some k1"
      "kmem_inv lo k1" "phys k1 = phys k" "frames_live lo k1 = frames_live lo k - {frame_ppn f}"
      "frames_room k1 = Suc (frames_room k)"
    by (rule FrameTracker_drop_returns)
  have "frame_ppn f \<notin> ppns (pt_frames pt)" using f(2) by (simp add: ppns_mem_iff)
  moreover have "ppns (pt_frames pt) \<subseteq> frames_live lo k" using assms(2) by (simp add: pt_inv_def)
  ultimately have "ppns (pt_frames pt) \<subseteq> frames_live lo k1" unfolding d(4) by blast
  then have inv1: "pt_inv lo k1 pt" using assms(2) d(3) by (simp add: pt_inv_def)
  have "pt_entries (phys k1) pt v \<noteq> None" using mapped d(3) by simp
  from d(2) inv1 assms(3) this obtain k' where u: "PageTable_unmap v pt k1 = Some k'"
      "pt_grows lo pt k1 [] pt k'" "pt_entries (phys k') pt = (pt_entries (phys k1) pt)(v := None)"
    by (rule PageTable_unmap_returns)
  have "unmap_one v pt a k = Some (a\<lparr>data_frames := df\<rparr>, k')"
    using a(1) df(1) d(1) u(1) by (simp add: unmap_one_def drop_opt_def)
  moreover have "shrink_step lo pt k [f] k'"
    using u(2) d(3-5) by (simp add: shrink_step_def pt_grows_def)
  ultimately show ?thesis using df(2,3) u(3) d(3) by (intro that) simp_all
qed

lemma shrink_step_trans:
  "shrink_step lo pt k df k1 \<Longrightarrow> shrink_step lo pt k1 df' k2 \<Longrightarrow> shrink_step lo pt k (df @ df') k2"
  unfolding shrink_step_def by (auto intro: same_page_trans)

lemma unmap_each_framed:
  assumes "kmem_inv lo k" and "pt_inv lo k pt" and "distinct vs" and "length fs = length vs"
    and "\<forall>v \<in> set vs. vpn_ok v \<and> pt_entries (phys k) pt v \<noteq> None"
    and "map_type a = Framed" and "bt_ok (data_frames a)" and "set (zip vs fs) \<subseteq> set (data_frames a)"
    and "distinct (pt_frames pt @ fs)" and "ppns fs \<subseteq> frames_live lo k"
  shows "\<exists>df k'. unmap_each vs pt a k = Some (a\<lparr>data_frames := df\<rparr>, k') \<and> shrink_step lo pt k fs k'
    \<and> bt_ok df \<and> set df = set (data_frames a) - set (zip vs fs)
    \<and> pt_entries (phys k') pt = pt_entries (phys k) pt |` (- set vs)"
  using assms(4,1-3,5-10)
proof (induction vs fs arbitrary: a k rule: list_induct2')
  case 1
  have "shrink_step lo pt k [] k" using 1 by (simp add: shrink_step_def)
  with 1 show ?case by (intro exI [of _ "data_frames a"] exI [of _ k]) simp
next
  case (4 v vs f fs)
  have p: "vpn_ok v" "pt_entries (phys k) pt v \<noteq> None" "(v, f) \<in> set (data_frames a)"
      "frame_ppn f \<in> frames_live lo k" "f \<notin> set (pt_frames pt)"
    using "4.prems" by auto
  from "4.prems"(2,3) p(1,2) "4.prems"(6,7) p(3,4,5) obtain df1 k1
    where u: "unmap_one v pt a k = Some (a\<lparr>data_frames := df1\<rparr>, k1)" "shrink_step lo pt k [f] k1" "bt_ok df1"
      "set df1 = set (data_frames a) - {(v, f)}" "pt_entries (phys k1) pt = (pt_entries (phys k) pt)(v := None)"
    by (rule unmap_one_framed)
  let ?a = "a\<lparr>data_frames := df1\<rparr>"
  have s: "kmem_inv lo k1" "pt_inv lo k1 pt" "frames_live lo k1 = frames_live lo k - {frame_ppn f}"
    using u(2) by (simp_all add: shrink_step_def)
  have nv: "v \<notin> set vs" "distinct vs" using "4.prems"(4) by simp_all
  have c1: "\<forall>w \<in> set vs. vpn_ok w \<and> pt_entries (phys k1) pt w \<noteq> None" using "4.prems"(5) nv unfolding u(5) by auto
  have c2: "set (zip vs fs) \<subseteq> set (data_frames ?a)"
    using "4.prems"(8) nv(1) by (auto simp: u(4) dest: set_zip_leftD)
  have nf: "f \<notin> set fs" "distinct (pt_frames pt @ fs)" using "4.prems"(9) by auto
  have "ppns fs \<subseteq> frames_live lo k" using "4.prems"(10) by simp
  moreover have "frame_ppn f \<notin> ppns fs" using nf(1) by (simp add: ppns_mem_iff)
  ultimately have c3: "ppns fs \<subseteq> frames_live lo k1" unfolding s(3) by blast
  have "length fs = length vs" using "4.prems"(1) by simp
  from "4.IH" [OF this s(1,2) nv(2) c1 _ _ c2 nf(2) c3] "4.prems"(6) u(3) obtain df k'
    where i: "unmap_each vs pt ?a k1 = Some (?a\<lparr>data_frames := df\<rparr>, k')" "shrink_step lo pt k1 fs k'" "bt_ok df"
      "set df = set df1 - set (zip vs fs)" "pt_entries (phys k') pt = pt_entries (phys k1) pt |` (- set vs)"
    by auto
  have "shrink_step lo pt k (f # fs) k'" using shrink_step_trans [OF u(2) i(2)] by simp
  moreover have "pt_entries (phys k') pt = pt_entries (phys k) pt |` (- set (v # vs))"
    unfolding i(5) u(5) by (auto simp: restrict_map_def)
  ultimately show ?case using u(1,4) i by auto
qed simp_all

end
