(* ===== verification/MemorySetInv.thy ===== *)
theory MemorySetInv
  imports AreaOps "HOL-Library.Multiset"
begin

text \<open>
  The invariant of an address space and the operations that keep it: the areas cover
  disjoint ranges of pages, the page table maps exactly the pages of the areas (and the
  pages \<open>X\<close> mapped outside of any area, the trampoline), every page of a framed area has a
  frame of its own, and no frame belongs to two owners.
\<close>

definition area_pages :: "MapArea \<Rightarrow> VirtPageNum set" where
  "area_pages a = {get_start (vpn_range a)..<get_end (vpn_range a)}"

definition area_frames :: "MapArea \<Rightarrow> FrameTracker list" where
  "area_frames a = map snd (data_frames a)"

definition ms_frames :: "MemorySet \<Rightarrow> FrameTracker list" where
  "ms_frames ms = pt_frames (page_table ms) @ concat (map area_frames (areas ms))"

definition range_ok :: "VPNRange \<Rightarrow> bool" where
  "range_ok r \<longleftrightarrow> get_start r \<le> get_end r \<and> unat (vpn (get_end r)) \<le> 2 ^ 27"

definition area_ok :: "(VirtPageNum \<Rightarrow> PageTableEntry option) \<Rightarrow> MapArea \<Rightarrow> bool" where
  "area_ok e a \<longleftrightarrow> range_ok (vpn_range a) \<and> bt_ok (data_frames a) \<and>
     (case map_type a of
        Identical \<Rightarrow> data_frames a = []
          \<and> (\<forall>v \<in> area_pages a. e v = Some (area_entry a (PhysPageNum (vpn v))))
      | Framed \<Rightarrow> fst ` set (data_frames a) = area_pages a
          \<and> (\<forall>(v, f) \<in> set (data_frames a). e v = Some (area_entry a (frame_ppn f))))"

abbreviation ms_entries :: "phys_mem \<Rightarrow> MemorySet \<Rightarrow> VirtPageNum \<Rightarrow> PageTableEntry option" where
  "ms_entries m ms \<equiv> pt_entries m (page_table ms)"

definition ms_pages :: "MemorySet \<Rightarrow> VirtPageNum set" where
  "ms_pages ms = \<Union> (area_pages ` set (areas ms))"

definition ms_inv :: "usize \<Rightarrow> VirtPageNum set \<Rightarrow> kmem \<Rightarrow> MemorySet \<Rightarrow> bool" where
  "ms_inv lo X k ms \<longleftrightarrow>
     pt_inv lo k (page_table ms) \<and> distinct (ms_frames ms) \<and> ppns (ms_frames ms) \<subseteq> frames_live lo k
     \<and> (\<forall>a \<in> set (areas ms). area_ok (ms_entries (phys k) ms) a)
     \<and> sorted_wrt (\<lambda>a b. area_pages a \<inter> area_pages b = {}) (areas ms)
     \<and> dom (ms_entries (phys k) ms) = X \<union> ms_pages ms \<and> X \<inter> ms_pages ms = {}"

section \<open>Ranges of pages\<close>

lemma range_ok_vpns:
  assumes "range_ok r"
  obtains vs where "vpns r = Some vs" and "distinct vs" and "set vs = {get_start r..<get_end r}"
    and "length vs = unat (vpn (get_end r)) - unat (vpn (get_start r))" and "\<forall>v \<in> set vs. vpn_ok v"
proof -
  have le: "get_start r \<le> get_end r" using assms by (simp add: range_ok_def)
  then have new: "SimpleRange_new (get_start r) (get_end r) = Some r"
    by (cases r) (simp add: SimpleRange_new_def get_start_def get_end_def)
  from this obtain vs where vs: "vpns r = Some vs" by (rule SimpleRange_new_vpns)
  note v = vpns_new [OF new vs]
  have "vpn_ok v" if "v \<in> set vs" for v
  proof -
    have "unat (vpn v) < unat (vpn (get_end r))"
      using that v(2) by (simp add: less_VirtPageNum_def word_less_nat_alt)
    then show ?thesis using assms unfolding range_ok_def vpn_ok_def by linarith
  qed
  then show ?thesis using that vs v by blast
qed

lemma area_ok_cong:
  assumes "area_ok e a" and "\<And>v. v \<in> area_pages a \<Longrightarrow> e' v = e v"
  shows "area_ok e' a"
proof -
  have "e' v = e v" if "(v, f) \<in> set (data_frames a)" "map_type a = Framed" for v f
  proof (rule assms(2))
    have "fst ` set (data_frames a) = area_pages a" using assms(1) that(2) by (simp add: area_ok_def)
    then show "v \<in> area_pages a" using that(1) by force
  qed
  then show ?thesis using assms unfolding area_ok_def by (cases "map_type a") fastforce+
qed

lemma area_ok_framed:
  assumes "bt_ok df" and "set df = set (zip vs fs)" and "length fs = length vs" and "distinct vs"
    and "set vs = area_pages a" and "range_ok (vpn_range a)" and "map_type a = Framed"
    and e: "e = e0 ++ map_of (zip vs (map (\<lambda>f. area_entry a (frame_ppn f)) fs))"
  shows "area_ok e (a\<lparr>data_frames := df\<rparr>)"
proof -
  have "fst ` set df = set vs" using assms(2,3) by (metis list.set_map map_fst_zip)
  moreover have "e v = Some (area_entry a (frame_ppn f))" if "(v, f) \<in> set df" for v f
  proof -
    from that assms(2,3) obtain i where i: "i < length vs" "v = vs ! i" "f = fs ! i"
      by (auto simp: in_set_zip)
    let ?z = "zip vs (map (\<lambda>f. area_entry a (frame_ppn f)) fs)"
    have "?z ! i = (v, area_entry a (frame_ppn f))" and "i < length ?z" using i assms(3) by simp_all
    then have "(v, area_entry a (frame_ppn f)) \<in> set ?z" by (metis nth_mem)
    moreover have "distinct (map fst ?z)" using assms(3,4) by simp
    ultimately have "map_of ?z v = Some (area_entry a (frame_ppn f))" by (simp add: map_of_eq_Some_iff)
    then show ?thesis unfolding e by simp
  qed
  ultimately show ?thesis
    using assms(1,5,6,7) by (auto simp: area_ok_def area_pages_def)
qed

lemma distinct_frames_zip:
  assumes "bt_ok df" and "set df = set (zip vs fs)" and "length fs = length vs" and "distinct fs"
  shows "distinct (map snd df)" and "set (map snd df) = set fs"
proof -
  show "set (map snd df) = set fs" using assms(2,3) by (metis list.set_map map_snd_zip)
  have "inj_on snd (set (zip vs fs))"
    using assms(3,4) by (auto simp: inj_on_def in_set_zip nth_eq_iff_index_eq)
  moreover have "distinct df" using bt_ok_distinct [OF assms(1)] by (simp add: distinct_map)
  ultimately show "distinct (map snd df)" using assms(2) by (simp add: distinct_map)
qed

lemma distinct_add_owned:
  "distinct (P @ A) \<Longrightarrow> distinct (nf @ fs) \<Longrightarrow> set (P @ A) \<inter> set (nf @ fs) = {} \<Longrightarrow> distinct D \<Longrightarrow>
    set D = set fs \<Longrightarrow> distinct ((P @ nf) @ A @ D)"
  by auto

section \<open>Adding an area\<close>

lemma MemorySet_push_framed:
  assumes "kmem_inv lo k" and inv: "ms_inv lo X k ms" and a: "map_type a = Framed" "data_frames a = []"
    and r: "range_ok (vpn_range a)" and free: "area_pages a \<inter> dom (ms_entries (phys k) ms) = {}"
    and room: "3 * (unat (vpn (get_end (vpn_range a))) - unat (vpn (get_start (vpn_range a)))) \<le> frames_room k"
  obtains pt' k' nf fs df where
    "MemorySet_push a None ms k
      = Some (\<lparr>page_table = pt', areas = areas ms @ [a\<lparr>data_frames := df\<rparr>]\<rparr>, k')"
    and "ms_inv lo X k' \<lparr>page_table = pt', areas = areas ms @ [a\<lparr>data_frames := df\<rparr>]\<rparr>"
    and "space_step lo (page_table ms) k nf fs pt' k'" and "set (map snd df) = set fs"
    and "length fs = unat (vpn (get_end (vpn_range a))) - unat (vpn (get_start (vpn_range a)))"
    and "\<forall>v. v \<notin> area_pages a \<longrightarrow> pt_entries (phys k') pt' v = ms_entries (phys k) ms v"
proof -
  let ?pt = "page_table ms" and ?e = "ms_entries (phys k) ms"
  from r obtain vs where vs: "vpns (vpn_range a) = Some vs" "distinct vs" "set vs = area_pages a"
      "length vs = unat (vpn (get_end (vpn_range a))) - unat (vpn (get_start (vpn_range a)))" "\<forall>v \<in> set vs. vpn_ok v"
    unfolding area_pages_def by (rule range_ok_vpns)
  have ptinv: "pt_inv lo k ?pt" using inv by (simp add: ms_inv_def)
  have "\<forall>v \<in> set vs. vpn_ok v \<and> ?e v = None \<and> v \<notin> fst ` set (data_frames a)"
    using vs(3,5) free a(2) by auto
  then obtain fs nf df pt' k' where m: "map_each vs a ?pt k = Some (a\<lparr>data_frames := df\<rparr>, pt', k')"
      "space_step lo ?pt k nf fs pt' k'" "bt_ok df" "set df = set (zip vs fs)" "length fs = length vs"
      "pt_entries (phys k') pt' = ?e ++ map_of (zip vs (map (\<lambda>f. area_entry a (frame_ppn f)) fs))"
    using map_each_framed [OF assms(1) ptinv _ vs(2) _ a(1), of] room vs(4) a(2) by (auto simp: bt_ok_def)
  let ?a = "a\<lparr>data_frames := df\<rparr>" and ?e' = "pt_entries (phys k') pt'"
  let ?ms = "\<lparr>page_table = pt', areas = areas ms @ [?a]\<rparr>"
  note st = space_stepD [OF m(2)]
  have pages: "area_pages ?a = area_pages a" by (simp add: area_pages_def)
  have dz: "dom (map_of (zip vs (map (\<lambda>f. area_entry a (frame_ppn f)) fs))) = set vs"
    using m(5) by (simp add: dom_map_of_zip)
  have e': "\<forall>v. v \<notin> area_pages a \<longrightarrow> ?e' v = ?e v"
    using dz vs(3) unfolding m(6) by (metis domIff map_add_None map_add_dom_app_simps(3))
  have fr: "distinct (map snd df)" "set (map snd df) = set fs"
    using distinct_frames_zip [OF m(3,4,5)] st(5) by simp_all
  have feq: "ms_frames ?ms = (pt_frames ?pt @ nf) @ concat (map area_frames (areas ms)) @ map snd df"
    by (simp add: ms_frames_def st(1) area_frames_def)
  have d1: "distinct (ms_frames ?ms)"
  proof -
    have old: "distinct (ms_frames ms)" "ppns (ms_frames ms) \<subseteq> frames_live lo k" using inv by (simp_all add: ms_inv_def)
    then have "ppns (ms_frames ms) \<inter> ppns (nf @ fs) = {}" using st(6) by blast
    then have "set (ms_frames ms) \<inter> set (nf @ fs) = {}" by (simp only: ppns_disjoint_iff)
    from distinct_add_owned [OF old(1) [unfolded ms_frames_def] st(5) this [unfolded ms_frames_def] fr]
    show ?thesis unfolding feq .
  qed
  have d2: "ppns (ms_frames ?ms) \<subseteq> frames_live lo k'"
  proof -
    have eq: "set (ms_frames ?ms) = set (ms_frames ms) \<union> set (nf @ fs)"
      unfolding feq ms_frames_def [of ms] set_append fr(2) by blast
    have "ppns (ms_frames ms) \<subseteq> frames_live lo k" using inv by (simp add: ms_inv_def)
    then show ?thesis unfolding st(7) eq image_Un by (rule Un_mono) (rule subset_refl)
  qed
  have d3: "area_ok ?e' b" if "b \<in> set (areas ms @ [?a])" for b
  proof (cases "b = ?a")
    case True
    then show ?thesis using area_ok_framed [OF m(3,4,5) vs(2,3) r a(1) m(6)] by simp
  next
    case False
    then have b: "b \<in> set (areas ms)" using that by auto
    then have ok: "area_ok ?e b" and sub: "area_pages b \<subseteq> dom ?e" using inv by (auto simp: ms_inv_def ms_pages_def)
    show ?thesis
    proof (rule area_ok_cong [OF ok])
      fix v
      assume "v \<in> area_pages b"
      then have "v \<notin> area_pages a" using sub free by blast
      then show "?e' v = ?e v" using e' by blast
    qed
  qed
  have d4: "sorted_wrt (\<lambda>a b. area_pages a \<inter> area_pages b = {}) (areas ms @ [?a])"
    using inv free pages by (auto simp: ms_inv_def sorted_wrt_append ms_pages_def)
  have d5: "dom ?e' = X \<union> ms_pages ?ms" and d6: "X \<inter> ms_pages ?ms = {}"
    using inv free dz vs(3) pages unfolding m(6) ms_inv_def ms_pages_def by auto
  have inv': "ms_inv lo X k' ?ms"
    unfolding ms_inv_def using st(4) d1 d2 d3 d4 d5 d6 by simp
  have push: "MemorySet_push a None ms k = Some (?ms, k')"
    using vs(1) m(1) by (simp add: MemorySet_push_def MapArea_map_def)
  have len: "length fs = unat (vpn (get_end (vpn_range a))) - unat (vpn (get_start (vpn_range a)))"
    using m(5) vs(4) by simp
  show ?thesis by (rule that [OF push inv' m(2) fr(2) len e'])
qed

section \<open>Removing an area\<close>

lemma area_ok_framedD:
  assumes "area_ok e a" and "map_type a = Framed"
  shows "fst ` set (data_frames a) = area_pages a"
    and "\<And>v f. (v, f) \<in> set (data_frames a) \<Longrightarrow> e v = Some (area_entry a (frame_ppn f))"
  using assms by (auto simp: area_ok_def)

text \<open>The pages of a framed area, listed in the order of the range with the frame of each.\<close>

lemma area_zip:
  assumes "bt_ok df" and "fst ` set df = set vs" and "distinct vs"
  obtains fs where "length fs = length vs" and "set (zip vs fs) = set df" and "mset fs = mset (map snd df)"
proof -
  define fs where "fs = map (\<lambda>v. the (map_of df v)) vs"
  have d: "distinct (map fst df)" by (rule bt_ok_distinct [OF assms(1)])
  have zip: "set (zip vs fs) = set df"
  proof -
    have "zip vs fs = map (\<lambda>v. (v, the (map_of df v))) vs" unfolding fs_def by (induction vs) simp_all
    then have "set (zip vs fs) = (\<lambda>v. (v, the (map_of df v))) ` fst ` set df" using assms(2) by simp
    also have "\<dots> = (\<lambda>x. x) ` set df" unfolding image_image using d by (intro image_cong) auto
    finally show ?thesis by simp
  qed
  have "distinct (zip vs fs)" using assms(3) by (rule distinct_zipI1)
  moreover have "distinct df" using d by (simp add: distinct_map)
  ultimately have "mset (zip vs fs) = mset df" using zip by (simp add: set_eq_iff_mset_eq_distinct)
  then have "mset (map snd (zip vs fs)) = mset (map snd df)" by (simp add: mset_map)
  moreover have "length fs = length vs" by (simp add: fs_def)
  ultimately show ?thesis using zip by (intro that [of fs]) simp_all
qed

lemma MapArea_unmap_framed:
  assumes "kmem_inv lo k" and "pt_inv lo k pt" and a: "area_ok (pt_entries (phys k) pt) a" "map_type a = Framed"
    and fr: "distinct (pt_frames pt @ area_frames a)" "ppns (area_frames a) \<subseteq> frames_live lo k"
  obtains k' where "MapArea_unmap pt a k = Some (a\<lparr>data_frames := []\<rparr>, k')"
    and "shrink_step lo pt k (area_frames a) k'"
    and "pt_entries (phys k') pt = pt_entries (phys k) pt |` (- area_pages a)"
proof -
  have r: "range_ok (vpn_range a)" and bt: "bt_ok (data_frames a)" using a(1) by (simp_all add: area_ok_def)
  from r obtain vs where vs: "vpns (vpn_range a) = Some vs" "distinct vs" "set vs = area_pages a" "\<forall>v \<in> set vs. vpn_ok v"
    unfolding area_pages_def by (rule range_ok_vpns)
  have keys: "fst ` set (data_frames a) = set vs" using area_ok_framedD(1) [OF a] vs(3) by simp
  from bt keys vs(2) obtain fs where fs: "length fs = length vs" "set (zip vs fs) = set (data_frames a)"
      "mset fs = mset (area_frames a)"
    unfolding area_frames_def by (rule area_zip)
  have sfs: "set fs = set (area_frames a)" and lfs: "length fs = length (area_frames a)"
    using mset_eq_setD [OF fs(3)] mset_eq_length [OF fs(3)] by simp_all
  have "\<forall>v \<in> set vs. vpn_ok v \<and> pt_entries (phys k) pt v \<noteq> None"
    using vs(4) keys area_ok_framedD(2) [OF a] by force
  moreover have "distinct (pt_frames pt @ fs)"
    using fr(1) sfs mset_eq_imp_distinct_iff [OF fs(3)] by auto
  moreover have "ppns fs \<subseteq> frames_live lo k" using fr(2) sfs by simp
  ultimately obtain df k' where u: "unmap_each vs pt a k = Some (a\<lparr>data_frames := df\<rparr>, k')"
      "shrink_step lo pt k fs k'" "set df = set (data_frames a) - set (zip vs fs)"
      "pt_entries (phys k') pt = pt_entries (phys k) pt |` (- set vs)"
    using unmap_each_framed [OF assms(1,2) vs(2) fs(1) _ a(2) bt] fs(2) by auto
  have "df = []" using u(3) fs(2) by simp
  then have "MapArea_unmap pt a k = Some (a\<lparr>data_frames := []\<rparr>, k')" using vs(1) u(1) by (simp add: MapArea_unmap_def)
  moreover have "shrink_step lo pt k (area_frames a) k'" using u(2) sfs lfs by (simp add: shrink_step_def)
  ultimately show ?thesis using u(4) vs(3) by (intro that) simp_all
qed

lemma remove_area_loop_returns:
  assumes "i < length as" and "P (as ! i)" and "\<forall>j<i. \<not> P (as ! j)"
    and u: "MapArea_unmap pt (as ! i) k = Some (a', k')" "data_frames a' = []"
  shows "remove_area_loop P as pt k = Some (Some (take i as @ drop (Suc i) as), k')"
  using assms(1-3,4)
proof (induction as arbitrary: i)
  case Nil
  then show ?case by simp
next
  case (Cons b as)
  show ?case
  proof (cases i)
    case 0
    then show ?thesis using Cons.prems u(2) by (simp add: MapArea_drop_def)
  next
    case (Suc j)
    have "\<not> P b" using Cons.prems(3) Suc by auto
    moreover have "remove_area_loop P as pt k = Some (Some (take j as @ drop (Suc j) as), k')"
      using Cons.prems Suc by (intro Cons.IH) auto
    ultimately show ?thesis using Suc by simp
  qed
qed

lemma remove_area_loop_none:
  "\<forall>a \<in> set as. \<not> P a \<Longrightarrow> remove_area_loop P as pt k = Some (None, k)"
  by (induction as) simp_all

lemma ms_split_frames:
  assumes "areas ms = as1 @ a # as2"
  shows "set (ms_frames ms) = set (ms_frames (ms\<lparr>areas := as1 @ as2\<rparr>)) \<union> set (area_frames a)"
    and "distinct (ms_frames ms) \<Longrightarrow> distinct (ms_frames (ms\<lparr>areas := as1 @ as2\<rparr>))
      \<and> set (ms_frames (ms\<lparr>areas := as1 @ as2\<rparr>)) \<inter> set (area_frames a) = {}
      \<and> distinct (pt_frames (page_table ms) @ area_frames a)"
  using assms by (auto simp: ms_frames_def)

lemma ms_inv_remove:
  assumes "kmem_inv lo k" and inv: "ms_inv lo X k ms" and as: "areas ms = as1 @ a # as2" and a: "map_type a = Framed"
  obtains k' where "MapArea_unmap (page_table ms) a k = Some (a\<lparr>data_frames := []\<rparr>, k')"
    and "shrink_step lo (page_table ms) k (area_frames a) k'" and "ms_inv lo X k' (ms\<lparr>areas := as1 @ as2\<rparr>)"
    and "ms_entries (phys k') ms = ms_entries (phys k) ms |` (- area_pages a)"
proof -
  let ?pt = "page_table ms" and ?e = "ms_entries (phys k) ms" and ?ms = "ms\<lparr>areas := as1 @ as2\<rparr>"
  have i: "pt_inv lo k ?pt" "distinct (ms_frames ms)" "ppns (ms_frames ms) \<subseteq> frames_live lo k"
      "\<forall>b \<in> set (areas ms). area_ok ?e b" "sorted_wrt (\<lambda>a b. area_pages a \<inter> area_pages b = {}) (areas ms)"
      "dom ?e = X \<union> ms_pages ms" "X \<inter> ms_pages ms = {}"
    using inv by (simp_all add: ms_inv_def)
  note sp = ms_split_frames(1) [OF as] and di = ms_split_frames(2) [OF as i(2)]
  have aok: "area_ok ?e a" using i(4) as by simp
  have live: "ppns (area_frames a) \<subseteq> frames_live lo k" using i(3) unfolding sp image_Un by blast
  have dfr: "distinct (pt_frames ?pt @ area_frames a)" using di by blast
  from assms(1) i(1) aok a dfr live obtain k' where u: "MapArea_unmap ?pt a k = Some (a\<lparr>data_frames := []\<rparr>, k')"
      "shrink_step lo ?pt k (area_frames a) k'" "pt_entries (phys k') ?pt = ?e |` (- area_pages a)"
    by (rule MapArea_unmap_framed)
  have s: "pt_inv lo k' ?pt" "frames_live lo k' = frames_live lo k - ppns (area_frames a)"
    using u(2) by (simp_all add: shrink_step_def)
  have dis: "area_pages b \<inter> area_pages a = {}" if "b \<in> set (as1 @ as2)" for b
    using that i(5) unfolding as by (auto simp: sorted_wrt_append)
  have pages: "ms_pages ms = ms_pages ?ms \<union> area_pages a" unfolding ms_pages_def as by auto
  have "ppns (ms_frames ?ms) \<inter> ppns (area_frames a) = {}" unfolding ppns_disjoint_iff using di by blast
  moreover have "ppns (ms_frames ?ms) \<subseteq> frames_live lo k" using i(3) unfolding sp image_Un by blast
  ultimately have "ppns (ms_frames ?ms) \<subseteq> frames_live lo k'" unfolding s(2) by blast
  moreover have "area_ok (pt_entries (phys k') ?pt) b" if b: "b \<in> set (as1 @ as2)" for b
  proof (rule area_ok_cong)
    show "area_ok ?e b" using b i(4) as by auto
    show "pt_entries (phys k') ?pt v = ?e v" if "v \<in> area_pages b" for v
      using that dis [OF b] unfolding u(3) by (auto simp: restrict_map_def)
  qed
  moreover have "sorted_wrt (\<lambda>a b. area_pages a \<inter> area_pages b = {}) (as1 @ as2)"
    using i(5) unfolding as by (auto simp: sorted_wrt_append)
  moreover have "ms_pages ?ms \<inter> area_pages a = {}" using dis by (auto simp: ms_pages_def)
  then have "dom (pt_entries (phys k') ?pt) = X \<union> ms_pages ?ms" and "X \<inter> ms_pages ?ms = {}"
    using i(6,7) unfolding u(3) pages dom_restrict by blast+
  ultimately have "ms_inv lo X k' ?ms" unfolding ms_inv_def using s(1) di by simp
  then show ?thesis using that u by blast
qed

section \<open>Areas given by addresses\<close>

definition va_ok :: "VirtAddr \<Rightarrow> VirtAddr \<Rightarrow> bool" where
  "va_ok s t \<longleftrightarrow> s \<le> t \<and> unat (va t) \<le> 2 ^ 39"

lemma MapArea_new_returns:
  assumes "va_ok s t"
  obtains a where "MapArea_new s t ty perm = Some a" and "range_ok (vpn_range a)"
    and "data_frames a = []" and "map_type a = ty" and "map_perm a = perm"
    and "get_start (vpn_range a) = VirtAddr_floor s" and "get_end (vpn_range a) = VirtAddr_ceil t"
proof -
  have st: "unat (va s) \<le> unat (va t)" "unat (va t) \<le> 2 ^ 39"
    using assms by (auto simp: va_ok_def less_eq_VirtAddr_def word_le_nat_alt)
  have c: "unat (vpn (VirtAddr_ceil t)) = (unat (va t) + 4095) div 4096" using st(2) by (rule VirtAddr_ceil_39)
  have "unat (va s) div 4096 \<le> (unat (va t) + 4095) div 4096" using st(1) by (intro div_le_mono) simp
  then have le: "VirtAddr_floor s \<le> VirtAddr_ceil t"
    using c by (simp add: less_eq_VirtPageNum_def word_le_nat_alt VirtAddr_floor_eq)
  have "unat (vpn (VirtAddr_ceil t)) \<le> 2 ^ 27" using st(2) unfolding c by simp
  then show ?thesis
    using le by (intro that [of "\<lparr>vpn_range = \<lparr>range_l = VirtAddr_floor s, range_r = VirtAddr_ceil t\<rparr>,
        data_frames = [], map_type = ty, map_perm = perm\<rparr>"])
      (simp_all add: MapArea_new_def SimpleRange_new_def range_ok_def get_start_def get_end_def)
qed

lemma remove_area_returns:
  assumes "kmem_inv lo k" and inv: "ms_inv lo X k ms" and i: "find_idx P (areas ms) = Some i"
    and a: "map_type (areas ms ! i) = Framed"
  obtains k' where "remove_area_loop P (areas ms) (page_table ms) k
      = Some (Some (take i (areas ms) @ drop (Suc i) (areas ms)), k')"
    and "shrink_step lo (page_table ms) k (area_frames (areas ms ! i)) k'"
    and "ms_inv lo X k' (ms\<lparr>areas := take i (areas ms) @ drop (Suc i) (areas ms)\<rparr>)"
    and "ms_entries (phys k') ms = ms_entries (phys k) ms |` (- area_pages (areas ms ! i))"
proof -
  note f = find_idx_SomeD [OF i]
  have as: "areas ms = take i (areas ms) @ (areas ms ! i) # drop (Suc i) (areas ms)"
    using f by (simp add: id_take_nth_drop)
  from assms(1,2) as a obtain k' where u: "MapArea_unmap (page_table ms) (areas ms ! i) k
        = Some ((areas ms ! i)\<lparr>data_frames := []\<rparr>, k')"
      "shrink_step lo (page_table ms) k (area_frames (areas ms ! i)) k'"
      "ms_inv lo X k' (ms\<lparr>areas := take i (areas ms) @ drop (Suc i) (areas ms)\<rparr>)"
      "ms_entries (phys k') ms = ms_entries (phys k) ms |` (- area_pages (areas ms ! i))"
    by (rule ms_inv_remove)
  have "remove_area_loop P (areas ms) (page_table ms) k = Some (Some (take i (areas ms) @ drop (Suc i) (areas ms)), k')"
    using f by (intro remove_area_loop_returns [OF _ _ _ u(1)]) simp_all
  then show ?thesis using that u(2-4) by blast
qed

end
