(* ===== verification/TaskId.thy ===== *)
theory TaskId
  imports Address Allocator
begin

text \<open>
  Process identifiers and kernel stack positions, \<^verbatim>\<open>os/src/task/id.rs\<close>: the
  \<open>RecycleAllocator\<close> behind \<^verbatim>\<open>PID_ALLOCATOR\<close> and \<^verbatim>\<open>KSTACK_ALLOCATOR\<close>, and the place of a
  kernel stack below the trampoline. The allocation of the stack's pages needs the kernel
  address space and is modelled with it.
\<close>

record RecycleAllocator =
  ra_current :: usize
  ra_recycled :: "usize list"

definition RecycleAllocator_new :: RecycleAllocator where
  "RecycleAllocator_new = \<lparr>ra_current = 0, ra_recycled = []\<rparr>"

definition RecycleAllocator_alloc :: "RecycleAllocator \<Rightarrow> usize \<times> RecycleAllocator" where
  "RecycleAllocator_alloc a =
     (if ra_recycled a \<noteq> []
      then (last (ra_recycled a), a\<lparr>ra_recycled := butlast (ra_recycled a)\<rparr>)
      else let a' = a\<lparr>ra_current := ra_current a + 1\<rparr> in (ra_current a' - 1, a'))"

definition RecycleAllocator_dealloc :: "usize \<Rightarrow> RecycleAllocator \<Rightarrow> RecycleAllocator option" where
  "RecycleAllocator_dealloc i a =
     (if \<not> i < ra_current a then None
      else if \<exists>j \<in> set (ra_recycled a). j = i then None
      else Some (a\<lparr>ra_recycled := ra_recycled a @ [i]\<rparr>))"

datatype PidHandle = PidHandle (pid: usize)

definition pid_alloc :: "RecycleAllocator \<Rightarrow> PidHandle \<times> RecycleAllocator" where
  "pid_alloc a = (case RecycleAllocator_alloc a of (i, a') \<Rightarrow> (PidHandle i, a'))"

definition PidHandle_drop :: "PidHandle \<Rightarrow> RecycleAllocator \<Rightarrow> RecycleAllocator option" where
  "PidHandle_drop h a = RecycleAllocator_dealloc (pid h) a"

definition kernel_stack_position :: "usize \<Rightarrow> usize \<times> usize" where
  "kernel_stack_position app_id =
     (let top = TRAMPOLINE - app_id * (KERNEL_STACK_SIZE + PAGE_SIZE);
          bottom = top - KERNEL_STACK_SIZE
      in (bottom, top))"

datatype KernelStack = KernelStack (kstack_id: usize)

definition KernelStack_get_top :: "KernelStack \<Rightarrow> usize" where
  "KernelStack_get_top ks = snd (kernel_stack_position (kstack_id ks))"

section \<open>The allocator meets its contract\<close>

definition ra_inv :: "RecycleAllocator \<Rightarrow> bool" where
  "ra_inv a \<longleftrightarrow> distinct (ra_recycled a) \<and> set (ra_recycled a) \<subseteq> {0..<ra_current a}"

definition ra_live :: "RecycleAllocator \<Rightarrow> usize set" where
  "ra_live a = {0..<ra_current a} - set (ra_recycled a)"

definition ra_room :: "RecycleAllocator \<Rightarrow> nat" where
  "ra_room a = 2 ^ 64 - 1 - unat (ra_current a) + length (ra_recycled a)"

abbreviation ra_alloc_opt :: "RecycleAllocator \<Rightarrow> usize option \<times> RecycleAllocator" where
  "ra_alloc_opt a \<equiv> map_prod Some id (RecycleAllocator_alloc a)"

lemma ra_alloc_next:
  assumes "ra_inv a" and "ra_recycled a = []" and "0 < ra_room a"
  defines "a' \<equiv> a\<lparr>ra_current := ra_current a + 1\<rparr>"
  shows "ra_alloc_opt a = (Some (ra_current a), a')" and "ra_inv a'" and "ra_current a \<notin> ra_live a"
    and "ra_live a' = insert (ra_current a) (ra_live a)" and "Suc (ra_room a') = ra_room a"
proof -
  let ?c = "ra_current a"
  show "ra_alloc_opt a = (Some ?c, a')"
    using assms(2) by (simp add: RecycleAllocator_alloc_def a'_def Let_def)
  have up: "unat (?c + 1) = Suc (unat ?c)"
    using assms(2,3) by (simp add: ra_room_def word_add_exact)
  then have "{0..<?c + 1} = insert ?c {0..<?c}"
    by (auto simp: word_less_nat_alt less_Suc_eq)
  then show "ra_live a' = insert ?c (ra_live a)" using assms(2) by (simp add: ra_live_def a'_def)
  show "ra_inv a'" using assms(2) by (simp add: ra_inv_def a'_def)
  show "?c \<notin> ra_live a" by (simp add: ra_live_def)
  show "Suc (ra_room a') = ra_room a" using up assms(2,3) by (simp add: ra_room_def a'_def)
qed

lemma ra_alloc_recycled:
  assumes "ra_inv a" and "ra_recycled a = xs @ [v]"
  defines "a' \<equiv> a\<lparr>ra_recycled := xs\<rparr>"
  shows "ra_alloc_opt a = (Some v, a')" and "ra_inv a'" and "v \<notin> ra_live a"
    and "ra_live a' = insert v (ra_live a)" and "Suc (ra_room a') = ra_room a"
  using assms by (auto simp: RecycleAllocator_alloc_def ra_inv_def ra_live_def ra_room_def)

lemma ra_dealloc_iff: "ra_inv a \<Longrightarrow> RecycleAllocator_dealloc i a \<noteq> None \<longleftrightarrow> i \<in> ra_live a"
  by (auto simp: RecycleAllocator_dealloc_def ra_live_def)

interpretation ra: allocator ra_alloc_opt RecycleAllocator_dealloc ra_inv ra_live ra_room
proof
  fix a
  assume inv: "ra_inv a"
  show "\<exists>x s'. ra_alloc_opt a = (Some x, s') \<and> ra_inv s' \<and> x \<notin> ra_live a
      \<and> ra_live s' = insert x (ra_live a) \<and> Suc (ra_room s') = ra_room a" if "0 < ra_room a"
  proof (cases "ra_recycled a" rule: rev_cases)
    case Nil
    from ra_alloc_next [OF inv Nil that] show ?thesis by blast
  next
    case (snoc xs v)
    from ra_alloc_recycled [OF inv snoc] show ?thesis by blast
  qed
  fix i
  assume "i \<in> ra_live a"
  then have i: "i < ra_current a" "i \<notin> set (ra_recycled a)" by (auto simp: ra_live_def)
  let ?a = "a\<lparr>ra_recycled := ra_recycled a @ [i]\<rparr>"
  have de: "RecycleAllocator_dealloc i a = Some ?a" using i by (auto simp: RecycleAllocator_dealloc_def)
  have "ra_inv ?a" and "ra_live ?a = ra_live a - {i}" and "ra_room ?a = Suc (ra_room a)"
    using inv i by (auto simp: ra_inv_def ra_live_def ra_room_def)
  with de show "\<exists>s'. RecycleAllocator_dealloc i a = Some s' \<and> ra_inv s' \<and> ra_live s' = ra_live a - {i}
      \<and> ra_room s' = Suc (ra_room a)" by blast
  show "RecycleAllocator_dealloc i s' = None" if "RecycleAllocator_dealloc i a = Some s'" for s'
    using that unfolding de by (auto simp: RecycleAllocator_dealloc_def)
qed

section \<open>Kernel stacks do not overlap\<close>

definition kstack_limit :: nat where
  "kstack_limit = 2 ^ 38 div 12288"

lemma kernel_stack_position_eq:
  assumes "unat i < kstack_limit"
  shows "unat (fst (kernel_stack_position i)) = 2 ^ 64 - 4096 - unat i * 12288 - 8192"
    and "unat (snd (kernel_stack_position i)) = 2 ^ 64 - 4096 - unat i * 12288"
proof -
  have bd: "unat i * 12288 \<le> 2 ^ 38" using assms by (simp add: kstack_limit_def)
  have t: "unat TRAMPOLINE = 2 ^ 64 - 4096" by (simp add: TRAMPOLINE_def PAGE_SIZE_def)
  have m: "unat (i * 12288) = unat i * 12288"
    using bd by (simp add: unat_word_ariths)
  have top: "unat (TRAMPOLINE - i * 12288) = 2 ^ 64 - 4096 - unat i * 12288"
    using t m bd by (subst word_sub_exact) simp_all
  have "KERNEL_STACK_SIZE + PAGE_SIZE = 12288" by (simp add: KERNEL_STACK_SIZE_def PAGE_SIZE_def)
  moreover have "unat (TRAMPOLINE - i * 12288 - KERNEL_STACK_SIZE) = 2 ^ 64 - 4096 - unat i * 12288 - 8192"
    using top bd by (subst word_sub_exact) (simp_all add: KERNEL_STACK_SIZE_def)
  ultimately show "unat (fst (kernel_stack_position i)) = 2 ^ 64 - 4096 - unat i * 12288 - 8192"
    and "unat (snd (kernel_stack_position i)) = 2 ^ 64 - 4096 - unat i * 12288"
    using top by (simp_all add: kernel_stack_position_def Let_def)
qed

text \<open>The stacks of two tasks are separated by at least the guard page.\<close>

lemma kernel_stacks_apart:
  assumes "unat i < unat j" and "unat j < kstack_limit"
  shows "unat (snd (kernel_stack_position j)) + 4096 \<le> unat (fst (kernel_stack_position i))"
proof -
  have "unat i < kstack_limit" using assms by simp
  moreover have "unat i * 12288 + 12288 \<le> unat j * 12288" using assms(1) by linarith
  moreover have "unat j * 12288 \<le> 2 ^ 38" using assms(2) by (simp add: kstack_limit_def)
  ultimately show ?thesis
    using kernel_stack_position_eq [OF assms(2)] kernel_stack_position_eq [of i] by simp
qed

end
