(* ===== verification/MemSpec.thy ===== *)
theory MemSpec
  imports MemorySetInv TaskId
begin

text \<open>
  What the memory management of the kernel guarantees: addresses and page numbers,
  the allocators of frames and identifiers, page tables and address spaces. The
  theorems rest on the contracts of the component theories; the examples run them on a
  machine whose allocator starts at frame 16.
\<close>

section \<open>A small machine\<close>

definition small_mem :: kmem where
  "small_mem = \<lparr>phys = (\<lambda>_. 0), frame_allocator = \<lparr>sfa_current = 16, sfa_end = 80, sfa_recycled = []\<rparr>\<rparr>"

lemma small_mem_ok: "kmem_inv 16 small_mem" "frames_room small_mem = 64" "frames_live 16 small_mem = {}"
  by (simp_all add: small_mem_def kmem_inv_def sfa_inv_def frames_room_def sfa_room_def frames_live_def sfa_live_def)

definition empty_space :: "PageTable \<Rightarrow> MemorySet" where
  "empty_space pt = \<lparr>page_table = pt, areas = []\<rparr>"

lemma new_space:
  assumes "kmem_inv lo k" and "0 < frames_room k"
  obtains pt k' where "PageTable_new k = Some (pt, k')" and "kmem_inv lo k'" and "pt_inv lo k' pt"
    and "pt_entries (phys k') pt = Map.empty" and "ms_inv lo {} k' (empty_space pt)"
    and "Suc (frames_room k') = frames_room k"
    and "frames_live lo k' = frames_live lo k \<union> ppns (ms_frames (empty_space pt))"
    and "ppns (ms_frames (empty_space pt)) \<inter> frames_live lo k = {}"
proof -
  from assms obtain f k' where r: "PageTable_new k = Some (\<lparr>root_ppn = f, pt_frames = [FrameTracker f]\<rparr>, k')"
      "kmem_inv lo k'" "pt_inv lo k' \<lparr>root_ppn = f, pt_frames = [FrameTracker f]\<rparr>" "f \<notin> frames_live lo k"
      "frames_live lo k' = insert f (frames_live lo k)" "Suc (frames_room k') = frames_room k"
      "pt_entries (phys k') \<lparr>root_ppn = f, pt_frames = [FrameTracker f]\<rparr> = Map.empty"
    by (rule PageTable_new_returns)
  let ?pt = "\<lparr>root_ppn = f, pt_frames = [FrameTracker f]\<rparr>"
  have fr: "ms_frames (empty_space ?pt) = [FrameTracker f]" by (simp add: ms_frames_def empty_space_def)
  have inv: "ms_inv lo {} k' (empty_space ?pt)"
    unfolding ms_inv_def fr using r(3,5,7) by (simp add: empty_space_def ms_pages_def)
  show ?thesis by (rule that [OF r(1-3,7) inv r(6)]) (use r(4,5) fr in simp_all)
qed

section \<open>Addresses\<close>

text \<open>
  A virtual address made from a \<^verbatim>\<open>usize\<close> keeps its low 39 bits; read back as a
  \<^verbatim>\<open>usize\<close> it is the sign extension of bit 38, as Sv39 demands, and making an address of
  that again gives the same address.
\<close>

lemma va_sign_extension:
  "usize_of_VirtAddr (VirtAddr_of_usize v) = signed_take_bit 38 v \<and>
   VirtAddr_of_usize (usize_of_VirtAddr (VirtAddr_of_usize v)) = VirtAddr_of_usize v"
  by (intro conjI usize_of_VirtAddr_of_usize VirtAddr_roundtrip)

text \<open>
  The three indexes of a virtual page number are its base-512 digits, the
  most significant first.
\<close>

lemma indexes_digits:
  "map unat (indexes v) = [unat (vpn v) div 512 div 512 mod 512, unat (vpn v) div 512 mod 512, unat (vpn v) mod 512]"
proof -
  have "unat (vpn v) div 2 ^ 18 = unat (vpn v) div 512 div 512" by (simp add: div_mult2_eq [symmetric])
  then show ?thesis unfolding indexes_eq by (simp add: unat_take_bit unat_drop_bit)
qed

text \<open>
  A loop over a page range ends and visits every page from the start up to
  and not including the end, in order; a range that ends before it starts is refused.
\<close>

lemma range_loop:
  fixes a b :: VirtPageNum
  shows "SimpleRange_new a b = None \<and> b < a \<or>
    (\<exists>r ts. SimpleRange_new a b = Some r \<and> vpns r = Some ts \<and>
       map (\<lambda>v. unat (vpn v)) ts = [unat (vpn a)..<unat (vpn b)])"
proof (cases "a \<le> b")
  case True
  then obtain r where r: "SimpleRange_new a b = Some r" by (simp add: SimpleRange_new_def)
  from r obtain ts where "vpns r = Some ts" "map (\<lambda>v. unat (vpn v)) ts = [unat (vpn a)..<unat (vpn b)]"
    by (rule SimpleRange_new_vpns)
  with r show ?thesis by blast
next
  case False
  then show ?thesis by (simp add: SimpleRange_new_def)
qed

section \<open>Allocators\<close>

text \<open>
  C35 (safety). A frame that the allocator hands out was not in use, is filled with zeros, and
  no other page of memory changes; when no frame is left, the allocator says so and
  nothing changes.
\<close>

theorem frame_alloc_safe:
  assumes k: "kmem_inv lo k"
  shows "(frames_room k = 0 \<and> frame_alloc k = (None, k)) \<or>
    (\<exists>p k'. frame_alloc k = (Some (FrameTracker p), k') \<and> kmem_inv lo k' \<and> p \<notin> frames_live lo k \<and>
       frames_live lo k' = insert p (frames_live lo k) \<and> Suc (frames_room k') = frames_room k \<and>
       get_bytes_array (phys k') p = replicate 4096 0 \<and>
       (\<forall>q. ppn_ok q \<longrightarrow> q \<noteq> p \<longrightarrow> get_bytes_array (phys k') q = get_bytes_array (phys k) q))"
proof (cases "frames_room k = 0")
  case True
  have "StackFrameAllocator_alloc (frame_allocator k) = (None, frame_allocator k)"
    using sfa.alloc_full k True unfolding kmem_inv_def frames_room_def by blast
  then show ?thesis using True by (simp add: frame_alloc_def)
next
  case False
  then have room: "0 < frames_room k" by simp
  from k room obtain p k' where r: "frame_alloc_unwrap k = Some (FrameTracker p, k')" "kmem_inv lo k'"
      "p \<notin> frames_live lo k" "ppn_ok p" "frames_live lo k' = insert p (frames_live lo k)" "Suc (frames_room k') = frames_room k"
      "get_bytes_array (phys k') p = replicate 4096 0" "\<forall>q. ppn_ok q \<longrightarrow> q \<noteq> p \<longrightarrow> same_page (phys k) (phys k') q"
    by (rule frame_alloc_returns)
  have "frame_alloc k = (Some (FrameTracker p), k')"
    using r(1) by (auto simp: frame_alloc_unwrap_def split: prod.splits)
  moreover have "\<forall>q. ppn_ok q \<longrightarrow> q \<noteq> p \<longrightarrow> get_bytes_array (phys k') q = get_bytes_array (phys k) q"
    using r(8) by (simp add: same_page_def)
  ultimately show ?thesis using r(2,3,5-7) by blast
qed

theorem frame_alloc_safe_witness:
  "\<exists>p k'. frame_alloc small_mem = (Some (FrameTracker p), k') \<and> get_bytes_array (phys k') p = replicate 4096 0"
  using frame_alloc_safe [OF small_mem_ok(1)] small_mem_ok(2) by auto

text \<open>
  C36 (error). Dropping a frame that is in use gives it back for the next allocation; dropping
  it a second time panics.
\<close>

theorem frame_double_free:
  assumes k: "kmem_inv lo k" and p: "p \<in> frames_live lo k"
  shows "\<exists>k'. FrameTracker_drop (FrameTracker p) k = Some k' \<and> kmem_inv lo k' \<and> phys k' = phys k \<and>
    frames_live lo k' = frames_live lo k - {p} \<and> frames_room k' = Suc (frames_room k) \<and>
    fst (frame_alloc k') = Some (FrameTracker p) \<and> FrameTracker_drop (FrameTracker p) k' = None"
proof -
  from k p obtain k' where r: "FrameTracker_drop (FrameTracker p) k = Some k'" "kmem_inv lo k'" "phys k' = phys k"
      "frames_live lo k' = frames_live lo k - {p}" "frames_room k' = Suc (frames_room k)"
    by (rule FrameTracker_drop_returns)
  obtain a where a: "StackFrameAllocator_dealloc p (frame_allocator k) = Some a" "k' = k\<lparr>frame_allocator := a\<rparr>"
    using r(1) by (auto simp: FrameTracker_drop_def frame_dealloc_def)
  have "FrameTracker_drop (FrameTracker p) k' = None"
    using sfa.dealloc_twice [OF k [unfolded kmem_inv_def] p [unfolded frames_live_def] a(1)] a(2)
    by (simp add: FrameTracker_drop_def frame_dealloc_def)
  moreover have "sfa_recycled a = sfa_recycled (frame_allocator k) @ [ppn p]"
    using a(1) by (auto simp: StackFrameAllocator_dealloc_def split: if_splits)
  then have "fst (frame_alloc k') = Some (FrameTracker p)"
    using a(2) live_ppn_ok [OF k p]
    by (simp add: frame_alloc_def StackFrameAllocator_alloc_def FrameTracker_new_def ppn_of_usize_exact ppn_ok_def)
  ultimately show ?thesis using r by blast
qed

theorem frame_double_free_witness:
  "\<exists>p k k'. p \<in> frames_live 16 k \<and> FrameTracker_drop (FrameTracker p) k = Some k' \<and>
     FrameTracker_drop (FrameTracker p) k' = None"
proof -
  have room: "0 < frames_room small_mem" using small_mem_ok(2) by simp
  from small_mem_ok(1) room obtain pt k where k: "kmem_inv 16 k" "pt_inv 16 k pt" by (rule new_space)
  have "root_ppn pt \<in> frame_ppn ` set (pt_frames pt)"
    using k(2) by (intro pt_treeD(1) [of "phys k" pt "[]"]) (simp_all add: pt_inv_def)
  then have p: "root_ppn pt \<in> frames_live 16 k" using k(2) by (auto simp: pt_inv_def)
  from frame_double_free [OF k(1) p] p show ?thesis by blast
qed

text \<open>
  Any sequence of frame allocations hands out pairwise different frames, none of
  them in use before; giving them all back makes the allocator as it was.
\<close>

lemma frames_distinct:
  assumes k: "sfa_inv lo a" and n: "n \<le> sfa_room a"
  shows "\<exists>ps a1 a2. alloc_list StackFrameAllocator_alloc n a = (map Some ps, a1) \<and> length ps = n \<and> distinct ps \<and>
    set ps \<inter> sfa_live lo a = {} \<and> dealloc_list StackFrameAllocator_dealloc ps a1 = Some a2 \<and>
    sfa_inv lo a2 \<and> sfa_live lo a2 = sfa_live lo a \<and> sfa_room a2 = sfa_room a"
proof -
  obtain ps a1 where p: "alloc_list StackFrameAllocator_alloc n a = (map Some ps, a1)" "length ps = n" "distinct ps"
      "set ps \<inter> sfa_live lo a = {}"
    using sfa.alloc_list_distinct [OF k n] by blast
  obtain qs b1 a2 where q: "alloc_list StackFrameAllocator_alloc n a = (map Some qs, b1)"
      "dealloc_list StackFrameAllocator_dealloc qs b1 = Some a2"
      "sfa_inv lo a2" "sfa_live lo a2 = sfa_live lo a" "sfa_room a2 = sfa_room a"
    using sfa.alloc_dealloc_list [OF k n] by blast
  have "qs = ps" "b1 = a1" using p(1) q(1) by (simp_all add: inj_map_eq_map)
  with p q show ?thesis by blast
qed

text \<open>
  C39 (invariant). A new process identifier is not one of a living process, and an identifier can
  be given back exactly once per allocation.
\<close>

theorem pid_unique:
  assumes a: "ra_inv a" and room: "0 < ra_room a"
  shows "\<exists>h a'. pid_alloc a = (h, a') \<and> ra_inv a' \<and> pid h \<notin> ra_live a \<and> ra_live a' = insert (pid h) (ra_live a) \<and>
    (\<exists>a''. PidHandle_drop h a' = Some a'' \<and> ra_inv a'' \<and> ra_live a'' = ra_live a \<and> PidHandle_drop h a'' = None)"
proof -
  from a room obtain i a' where r: "ra_alloc_opt a = (Some i, a')" "ra_inv a'" "i \<notin> ra_live a"
      "ra_live a' = insert i (ra_live a)"
    by (rule ra.allocE)
  have "i \<in> ra_live a'" using r(4) by simp
  with r(2) obtain a'' where d: "RecycleAllocator_dealloc i a' = Some a''" "ra_inv a''" "ra_live a'' = ra_live a' - {i}"
    by (rule ra.deallocE)
  have "RecycleAllocator_alloc a = (i, a')" using r(1) by (cases "RecycleAllocator_alloc a") simp
  then have "pid_alloc a = (PidHandle i, a')" by (simp add: pid_alloc_def)
  moreover have "ra_live a'' = ra_live a" using d(3) r(3,4) by auto
  moreover have "RecycleAllocator_dealloc i a'' = None" using ra.dealloc_twice [OF r(2) \<open>i \<in> ra_live a'\<close> d(1)] .
  ultimately show ?thesis using r(2-4) d(1,2) by (simp add: PidHandle_drop_def)
qed

theorem pid_unique_witness:
  "\<exists>h a'. pid_alloc RecycleAllocator_new = (h, a') \<and> ra_live a' = {pid h}"
proof -
  have "ra_inv RecycleAllocator_new" "0 < ra_room RecycleAllocator_new" "ra_live RecycleAllocator_new = {}"
    by (simp_all add: RecycleAllocator_new_def ra_inv_def ra_room_def ra_live_def)
  with pid_unique [OF this(1,2)] show ?thesis by auto
qed

text \<open>
  C40 (bounds). The kernel stacks of two different tasks do not overlap: there is at least a
  page between them, and all of them lie below the trampoline.
\<close>

theorem kernel_stacks_disjoint:
  assumes ij: "i \<noteq> j" and lim: "unat i < kstack_limit" "unat j < kstack_limit"
    and pos: "kernel_stack_position i = (bi, ti)" "kernel_stack_position j = (bj, tj)"
  shows "(unat ti + 4096 \<le> unat bj \<or> unat tj + 4096 \<le> unat bi) \<and> bi < ti \<and> ti \<le> TRAMPOLINE"
proof (intro conjI)
  have "unat i < unat j \<or> unat j < unat i" using ij by (metis linorder_neqE_nat unat_eq_iff)
  then show "unat ti + 4096 \<le> unat bj \<or> unat tj + 4096 \<le> unat bi"
    using kernel_stacks_apart [of i j] kernel_stacks_apart [of j i] lim pos by auto
  have "unat i * 12288 \<le> 2 ^ 38" using lim(1) by (simp add: kstack_limit_def)
  then show "bi < ti" and "ti \<le> TRAMPOLINE"
    using kernel_stack_position_eq [OF lim(1)] pos(1)
    by (simp_all add: word_less_nat_alt word_le_nat_alt TRAMPOLINE_def PAGE_SIZE_def)
qed

theorem kernel_stacks_disjoint_witness:
  "\<exists>b0 t0 b1 t1. kernel_stack_position 0 = (b0, t0) \<and> kernel_stack_position 1 = (b1, t1) \<and>
     (unat t0 + 4096 \<le> unat b1 \<or> unat t1 + 4096 \<le> unat b0)"
proof -
  obtain b0 t0 b1 t1 where p: "kernel_stack_position 0 = (b0, t0)" "kernel_stack_position 1 = (b1, t1)" by fastforce
  show ?thesis using kernel_stacks_disjoint [OF _ _ _ p] p by (auto simp: kstack_limit_def)
qed

end
