(* ===== verification/SpaceSpec.thy ===== *)
theory SpaceSpec
  imports MemSpec UserBuffer
begin

text \<open>
  What page tables and address spaces guarantee: mapping and unmapping pages, inserting
  and removing areas, the isolation of one address space from another, and the access of
  the kernel to the memory of a user.
\<close>

section \<open>Page tables\<close>

text \<open>
  A page table entry gives back the frame and the flags it was made from, and
  is valid exactly if the flags say so.
\<close>

lemma pte_fields:
  assumes p: "ppn_ok p"
  shows "pte_ppn (PageTableEntry_new p fl) = p \<and> pte_flags (PageTableEntry_new p fl) = fl \<and>
    (pte_is_valid (PageTableEntry_new p fl) \<longleftrightarrow> bit fl 0) \<and> (pte_writable (PageTableEntry_new p fl) \<longleftrightarrow> bit fl 2)"
  using p by (simp add: pte_perm_iff)

text \<open>
  C28 (refinement). Mapping an unmapped page adds exactly this mapping to the translation. The
  page table stays a tree of frames of its own, at most two frames are taken, and no
  page outside the page table changes. Unmapping the page again restores the translation.
\<close>

theorem map_unmap_page:
  assumes k: "kmem_inv lo k" "pt_inv lo k pt" and room: "2 \<le> frames_room k" and v: "vpn_ok v"
    and new: "pt_entries (phys k) pt v = None"
  shows "\<exists>pt1 k1 k2. PageTable_map v p flags pt k = Some (pt1, k1) \<and> kmem_inv lo k1 \<and> pt_inv lo k1 pt1 \<and>
    frames_room k \<le> frames_room k1 + 2 \<and>
    pt_entries (phys k1) pt1 = (pt_entries (phys k) pt)(v \<mapsto> PageTableEntry_new p (flags OR PTE_V)) \<and>
    (\<forall>q. ppn_ok q \<longrightarrow> FrameTracker q \<notin> set (pt_frames pt1) \<longrightarrow>
       get_bytes_array (phys k1) q = get_bytes_array (phys k) q) \<and>
    PageTable_unmap v pt1 k1 = Some k2 \<and> pt_inv lo k2 pt1 \<and> pt_entries (phys k2) pt1 = pt_entries (phys k) pt"
proof -
  from k room v new obtain nf pt1 k1 where m: "PageTable_map v p flags pt k = Some (pt1, k1)"
      "pt_grows lo pt k nf pt1 k1" "length nf \<le> 2"
      "pt_entries (phys k1) pt1 = (pt_entries (phys k) pt)(v \<mapsto> PageTableEntry_new p (flags OR PTE_V))"
    by (rule PageTable_map_returns)
  have g: "kmem_inv lo k1" "pt_inv lo k1 pt1" "frames_room k1 + length nf = frames_room k"
      "\<forall>q. ppn_ok q \<longrightarrow> q \<notin> ppns (pt_frames pt1) \<longrightarrow> same_page (phys k) (phys k1) q"
    using m(2) unfolding pt_grows_def by blast+
  have pages: "get_bytes_array (phys k1) q = get_bytes_array (phys k) q"
    if "ppn_ok q" "FrameTracker q \<notin> set (pt_frames pt1)" for q
  proof -
    have "q \<notin> ppns (pt_frames pt1)" using that(2) by auto
    then show ?thesis using g(4) that(1) by (simp add: same_page_def)
  qed
  have mapped: "pt_entries (phys k1) pt1 v \<noteq> None" using m(4) by simp
  from g(1,2) v mapped obtain k2 where u: "PageTable_unmap v pt1 k1 = Some k2" "pt_grows lo pt1 k1 [] pt1 k2"
      "pt_entries (phys k2) pt1 = (pt_entries (phys k1) pt1)(v := None)"
    by (rule PageTable_unmap_returns)
  have "pt_inv lo k2 pt1" using u(2) by (simp add: pt_grows_def)
  moreover have "pt_entries (phys k2) pt1 = pt_entries (phys k) pt" using u(3) m(4) new by (simp add: fun_upd_idem)
  moreover have "frames_room k \<le> frames_room k1 + 2" using g(3) m(3) by simp
  ultimately show ?thesis using m(1,4) g(1,2) pages u(1) by blast
qed

theorem map_unmap_page_witness:
  "\<exists>pt k pt1 k1 k2. kmem_inv 16 k \<and> PageTable_map (VirtPageNum 5) (PhysPageNum 99) 6 pt k = Some (pt1, k1) \<and>
     pt_entries (phys k1) pt1 (VirtPageNum 5) = Some (PageTableEntry_new (PhysPageNum 99) 7) \<and>
     PageTable_unmap (VirtPageNum 5) pt1 k1 = Some k2"
proof -
  have room: "0 < frames_room small_mem" using small_mem_ok(2) by simp
  from small_mem_ok(1) room obtain pt k where k: "kmem_inv 16 k" "pt_inv 16 k pt" "pt_entries (phys k) pt = Map.empty"
      "Suc (frames_room k) = frames_room small_mem" by (rule new_space)
  have "2 \<le> frames_room k" using k(4) small_mem_ok(2) by simp
  moreover have "vpn_ok (VirtPageNum 5)" by (simp add: vpn_ok_def)
  moreover have "pt_entries (phys k) pt (VirtPageNum 5) = None" using k(3) by simp
  ultimately obtain pt1 k1 k2 where m: "PageTable_map (VirtPageNum 5) (PhysPageNum 99) 6 pt k = Some (pt1, k1)"
      "pt_entries (phys k1) pt1 = (pt_entries (phys k) pt)(VirtPageNum 5 \<mapsto> PageTableEntry_new (PhysPageNum 99) (6 OR PTE_V))"
      "PageTable_unmap (VirtPageNum 5) pt1 k1 = Some k2"
    using map_unmap_page [OF k(1,2), of "VirtPageNum 5" "PhysPageNum 99" 6] by blast
  have "pt_entries (phys k1) pt1 (VirtPageNum 5) = Some (PageTableEntry_new (PhysPageNum 99) 7)"
    using m(2) by (simp add: PTE_V_def)
  then show ?thesis using k(1) m(1,3) by blast
qed

text \<open>
  Mapping a page that is already mapped and unmapping a page that is not mapped
  panic.
\<close>

lemma map_unmap_panics:
  assumes k: "kmem_inv lo k" "pt_inv lo k pt" and room: "2 \<le> frames_room k" and v: "vpn_ok v"
  shows "if pt_entries (phys k) pt v = None then PageTable_unmap v pt k = None
    else PageTable_map v p flags pt k = None"
  using PageTable_map_twice [OF k room v] PageTable_unmap_unmapped [OF v] by auto

section \<open>Address spaces\<close>

lemma insert_area_returns:
  assumes k: "kmem_inv lo k" "ms_inv lo X k ms" and va: "va_ok s t"
    and free: "{VirtAddr_floor s..<VirtAddr_ceil t} \<inter> dom (ms_entries (phys k) ms) = {}"
    and room: "3 * (unat (vpn (VirtAddr_ceil t)) - unat (vpn (VirtAddr_floor s))) \<le> frames_room k"
  obtains a pt' k' nf fs df where "insert_framed_area s t perm ms k
      = Some (\<lparr>page_table = pt', areas = areas ms @ [a\<lparr>data_frames := df\<rparr>]\<rparr>, k')"
    and "ms_inv lo X k' \<lparr>page_table = pt', areas = areas ms @ [a\<lparr>data_frames := df\<rparr>]\<rparr>"
    and "space_step lo (page_table ms) k nf fs pt' k'" and "set (map snd df) = set fs"
    and "\<forall>v. v \<notin> area_pages a \<longrightarrow> pt_entries (phys k') pt' v = ms_entries (phys k) ms v"
    and "area_pages a = {VirtAddr_floor s..<VirtAddr_ceil t}" and "map_type a = Framed" and "map_perm a = perm"
    and "get_start (vpn_range a) = VirtAddr_floor s" and "get_end (vpn_range a) = VirtAddr_ceil t"
proof -
  from va obtain a where a: "MapArea_new s t Framed perm = Some a" "range_ok (vpn_range a)" "data_frames a = []"
      "map_type a = Framed" "map_perm a = perm" "get_start (vpn_range a) = VirtAddr_floor s"
      "get_end (vpn_range a) = VirtAddr_ceil t"
    by (rule MapArea_new_returns)
  have pages: "area_pages a = {VirtAddr_floor s..<VirtAddr_ceil t}" using a(6,7) by (simp add: area_pages_def)
  have fr: "area_pages a \<inter> dom (ms_entries (phys k) ms) = {}" using free pages by simp
  have rm: "3 * (unat (vpn (get_end (vpn_range a))) - unat (vpn (get_start (vpn_range a)))) \<le> frames_room k"
    using room a(6,7) by simp
  from k a(4,3,2) fr rm obtain pt' k' nf fs df where
    p: "MemorySet_push a None ms k = Some (\<lparr>page_table = pt', areas = areas ms @ [a\<lparr>data_frames := df\<rparr>]\<rparr>, k')"
      "ms_inv lo X k' \<lparr>page_table = pt', areas = areas ms @ [a\<lparr>data_frames := df\<rparr>]\<rparr>"
      "space_step lo (page_table ms) k nf fs pt' k'" "set (map snd df) = set fs"
      "length fs = unat (vpn (get_end (vpn_range a))) - unat (vpn (get_start (vpn_range a)))"
      "\<forall>v. v \<notin> area_pages a \<longrightarrow> pt_entries (phys k') pt' v = ms_entries (phys k) ms v"
    by (rule MemorySet_push_framed)
  have run: "insert_framed_area s t perm ms k
      = Some (\<lparr>page_table = pt', areas = areas ms @ [a\<lparr>data_frames := df\<rparr>]\<rparr>, k')"
    using a(1) p(1) by (simp add: insert_framed_area_def)
  show ?thesis by (rule that [OF run p(2-4,6) pages a(4-7)])
qed

lemma insert_area_maps:
  assumes k: "kmem_inv lo k" "ms_inv lo X k ms" and va: "va_ok s t"
    and free: "{VirtAddr_floor s..<VirtAddr_ceil t} \<inter> dom (ms_entries (phys k) ms) = {}"
    and room: "3 * (unat (vpn (VirtAddr_ceil t)) - unat (vpn (VirtAddr_floor s))) \<le> frames_room k"
  shows "\<exists>ms' k'. insert_framed_area s t perm ms k = Some (ms', k') \<and> kmem_inv lo k' \<and> ms_inv lo X k' ms' \<and>
    (\<forall>v. if VirtAddr_floor s \<le> v \<and> v < VirtAddr_ceil t
      then \<exists>p. ms_entries (phys k') ms' v = Some (PageTableEntry_new p (perm OR PTE_V)) \<and>
        p \<notin> frames_live lo k \<and> get_bytes_array (phys k') p = replicate 4096 0
      else ms_entries (phys k') ms' v = ms_entries (phys k) ms v) \<and>
    (\<forall>q \<in> frames_live lo k - ppns (pt_frames (page_table ms)). same_page (phys k) (phys k') q)"
proof -
  from assms obtain a pt' k' nf fs df where
    r: "insert_framed_area s t perm ms k = Some (\<lparr>page_table = pt', areas = areas ms @ [a\<lparr>data_frames := df\<rparr>]\<rparr>, k')"
      "ms_inv lo X k' \<lparr>page_table = pt', areas = areas ms @ [a\<lparr>data_frames := df\<rparr>]\<rparr>"
      "space_step lo (page_table ms) k nf fs pt' k'" "set (map snd df) = set fs"
      "\<forall>v. v \<notin> area_pages a \<longrightarrow> pt_entries (phys k') pt' v = ms_entries (phys k) ms v"
      "area_pages a = {VirtAddr_floor s..<VirtAddr_ceil t}" "map_type a = Framed" "map_perm a = perm"
    by (rule insert_area_returns)
  let ?ms = "\<lparr>page_table = pt', areas = areas ms @ [a\<lparr>data_frames := df\<rparr>]\<rparr>"
  have "area_ok (ms_entries (phys k') ?ms) (a\<lparr>data_frames := df\<rparr>)" using r(2) by (simp add: ms_inv_def)
  note ok = area_ok_framedD [OF this]
  have "\<exists>p. pt_entries (phys k') pt' v = Some (PageTableEntry_new p (perm OR PTE_V)) \<and>
      p \<notin> frames_live lo k \<and> get_bytes_array (phys k') p = replicate 4096 0" if "v \<in> area_pages a" for v
  proof -
    have "v \<in> fst ` set df" using that ok(1) r(7) by (simp add: area_pages_def)
    then obtain f where f: "(v, f) \<in> set df" by force
    then have "f \<in> set fs" using r(4) by force
    then have p: "frame_ppn f \<in> ppns fs" by simp
    have "pt_entries (phys k') pt' v = Some (PageTableEntry_new (frame_ppn f) (perm OR PTE_V))"
      using ok(2) [of v f] f r(7,8) by simp
    moreover have "frame_ppn f \<notin> frames_live lo k" using space_stepD(6) [OF r(3)] p by auto
    moreover have "get_bytes_array (phys k') (frame_ppn f) = replicate 4096 0"
      using space_stepD(9) [OF r(3) p] by (simp add: zero_page_def)
    ultimately show ?thesis by blast
  qed
  moreover have "same_page (phys k) (phys k') q" if "q \<in> frames_live lo k - ppns (pt_frames (page_table ms))" for q
    using space_step_other [OF r(3) k(1)] that by blast
  ultimately show ?thesis
    using r(1,2,5,6) space_stepD(3) [OF r(3)] by (intro exI [of _ ?ms] exI [of _ k']) simp
qed

text \<open>
  C29 (functional). Inserting an area of unmapped pages maps every page of it, with the given
  permissions, to a frame that was not in use and is filled with zeros, leaves the
  translation of every other page and the bytes of every frame in use that is not one of
  the page tables as they were, and keeps the address space well formed.
\<close>

theorem insert_area:
  assumes k: "kmem_inv lo k" "ms_inv lo X k ms" and va: "va_ok s t"
    and free: "{VirtAddr_floor s..<VirtAddr_ceil t} \<inter> dom (ms_entries (phys k) ms) = {}"
    and room: "3 * (unat (vpn (VirtAddr_ceil t)) - unat (vpn (VirtAddr_floor s))) \<le> frames_room k"
  shows "\<exists>ms' k'. insert_framed_area s t perm ms k = Some (ms', k') \<and> kmem_inv lo k' \<and> ms_inv lo X k' ms' \<and>
    (\<forall>v. if VirtAddr_floor s \<le> v \<and> v < VirtAddr_ceil t
      then \<exists>p. ms_entries (phys k') ms' v = Some (PageTableEntry_new p (perm OR PTE_V)) \<and>
        p \<notin> frames_live lo k \<and> get_bytes_array (phys k') p = replicate 4096 0
      else ms_entries (phys k') ms' v = ms_entries (phys k) ms v) \<and>
    (\<forall>q \<in> frames_live lo k - ppns (pt_frames (page_table ms)). same_page (phys k) (phys k') q)"
  by (rule insert_area_maps [OF assms])

lemma example_space:
  "\<exists>k ms. kmem_inv 16 k \<and> ms_inv 16 {} k ms \<and> ms_entries (phys k) ms = Map.empty \<and> frames_room k = 63 \<and>
     areas ms = []"
proof -
  have room: "0 < frames_room small_mem" using small_mem_ok(2) by simp
  from small_mem_ok(1) room obtain pt k where k: "kmem_inv 16 k" "pt_entries (phys k) pt = Map.empty"
      "ms_inv 16 {} k (empty_space pt)" "Suc (frames_room k) = frames_room small_mem" by (rule new_space)
  then show ?thesis using small_mem_ok(2) by (intro exI [of _ k] exI [of _ "empty_space pt"]) (simp add: empty_space_def)
qed

lemma example_va:
  "va_ok (VirtAddr 0x1000) (VirtAddr 0x2800)" "VirtAddr_floor (VirtAddr 0x1000) = VirtPageNum 1"
  "VirtAddr_ceil (VirtAddr 0x2800) = VirtPageNum 3"
  by (simp_all add: va_ok_def less_eq_VirtAddr_def VirtAddr_floor_def VirtAddr_ceil_def PAGE_SIZE_def)

theorem insert_area_witness:
  "\<exists>k ms ms' k' p. insert_framed_area (VirtAddr 0x1000) (VirtAddr 0x2800) 0x16 ms k = Some (ms', k') \<and>
     ms_entries (phys k') ms' (VirtPageNum 2) = Some (PageTableEntry_new p 0x17)"
proof -
  obtain k ms where k: "kmem_inv 16 k" "ms_inv 16 {} k ms" "ms_entries (phys k) ms = Map.empty" "frames_room k = 63"
    using example_space by blast
  obtain ms' k' where r: "insert_framed_area (VirtAddr 0x1000) (VirtAddr 0x2800) 0x16 ms k = Some (ms', k')"
    "\<forall>v. if VirtPageNum 1 \<le> v \<and> v < VirtPageNum 3
      then \<exists>p. ms_entries (phys k') ms' v = Some (PageTableEntry_new p (0x16 OR PTE_V)) \<and>
        p \<notin> frames_live 16 k \<and> get_bytes_array (phys k') p = replicate 4096 0
      else ms_entries (phys k') ms' v = ms_entries (phys k) ms v"
    using insert_area [OF k(1,2) example_va(1), where perm = "0x16"] k(3,4) unfolding example_va by auto
  have "VirtPageNum 1 \<le> VirtPageNum 2" "VirtPageNum 2 < VirtPageNum 3"
    by (simp_all add: less_eq_VirtPageNum_def less_VirtPageNum_def)
  then obtain p where "ms_entries (phys k') ms' (VirtPageNum 2) = Some (PageTableEntry_new p (0x16 OR PTE_V))"
    using r(2) [rule_format, of "VirtPageNum 2"] by auto
  then have "ms_entries (phys k') ms' (VirtPageNum 2) = Some (PageTableEntry_new p 0x17)" by (simp add: PTE_V_def)
  then show ?thesis using r(1) by blast
qed

lemma live_after: "L1 = L \<union> (N \<union> F) \<Longrightarrow> (N \<union> F) \<inter> L = {} \<Longrightarrow> N \<inter> F = {} \<Longrightarrow> P \<subseteq> L \<Longrightarrow> L1 - F = L \<union> (P \<union> N)"
  by blast

text \<open>
  C30 (roundtrip). Removing the area that was inserted last succeeds, restores the translation
  of every page and gives the frames of the area back; removing it before it was inserted,
  while its pages are unmapped, returns \<open>-1\<close> and changes nothing.
\<close>

theorem insert_remove_area:
  assumes k: "kmem_inv lo k" "ms_inv lo X k ms" and va: "va_ok s t"
    and ne: "VirtAddr_floor s < VirtAddr_ceil t"
    and free: "{VirtAddr_floor s..<VirtAddr_ceil t} \<inter> dom (ms_entries (phys k) ms) = {}"
    and room: "3 * (unat (vpn (VirtAddr_ceil t)) - unat (vpn (VirtAddr_floor s))) \<le> frames_room k"
  shows "remove_framed_area s t ms k = Some (- 1, ms, k) \<and>
    (\<exists>ms1 k1 ms2 k2. insert_framed_area s t perm ms k = Some (ms1, k1) \<and>
      remove_framed_area s t ms1 k1 = Some (0, ms2, k2) \<and> kmem_inv lo k2 \<and> ms_inv lo X k2 ms2 \<and>
      areas ms2 = areas ms \<and> ms_entries (phys k2) ms2 = ms_entries (phys k) ms \<and>
      frames_live lo k2 = frames_live lo k \<union> ppns (pt_frames (page_table ms2)))"
proof -
  from k va free room obtain a pt' k1 nf fs df where
    r: "insert_framed_area s t perm ms k = Some (\<lparr>page_table = pt', areas = areas ms @ [a\<lparr>data_frames := df\<rparr>]\<rparr>, k1)"
      "ms_inv lo X k1 \<lparr>page_table = pt', areas = areas ms @ [a\<lparr>data_frames := df\<rparr>]\<rparr>"
      "space_step lo (page_table ms) k nf fs pt' k1" "set (map snd df) = set fs"
      "\<forall>v. v \<notin> area_pages a \<longrightarrow> pt_entries (phys k1) pt' v = ms_entries (phys k) ms v"
      "area_pages a = {VirtAddr_floor s..<VirtAddr_ceil t}" "map_type a = Framed" "map_perm a = perm"
      "get_start (vpn_range a) = VirtAddr_floor s" "get_end (vpn_range a) = VirtAddr_ceil t"
    by (rule insert_area_returns)
  let ?b = "a\<lparr>data_frames := df\<rparr>" and ?n = "length (areas ms)"
  let ?ms1 = "\<lparr>page_table = pt', areas = areas ms @ [?b]\<rparr>" and ?ms2 = "\<lparr>page_table = pt', areas = areas ms\<rparr>"
  let ?P = "\<lambda>area. get_start (vpn_range area) = VirtAddr_floor s \<and> get_end (vpn_range area) = VirtAddr_ceil t"
  have no: "\<not> ?P b" if "b \<in> set (areas ms)" for b
  proof
    assume "?P b"
    then have "VirtAddr_floor s \<in> area_pages b" using ne by (simp add: area_pages_def)
    then have "VirtAddr_floor s \<in> dom (ms_entries (phys k) ms)"
      using that k(2) by (auto simp: ms_inv_def ms_pages_def)
    then show False using free ne by auto
  qed
  then have missing: "remove_framed_area s t ms k = Some (- 1, ms, k)"
    using remove_area_loop_none [of "areas ms" ?P] by (simp add: remove_framed_area_def)
  have idx: "find_idx ?P (areas ?ms1) = Some ?n"
    using no r(9,10) by (intro find_idx_SomeI) (auto simp: nth_append)
  have ty: "map_type (areas ?ms1 ! ?n) = Framed" using r(7) by simp
  have k1: "kmem_inv lo k1" by (rule space_stepD(3) [OF r(3)])
  from k1 r(2) idx ty obtain k2 where u: "remove_area_loop ?P (areas ?ms1) (page_table ?ms1) k1
        = Some (Some (take ?n (areas ?ms1) @ drop (Suc ?n) (areas ?ms1)), k2)"
      "shrink_step lo (page_table ?ms1) k1 (area_frames (areas ?ms1 ! ?n)) k2"
      "ms_inv lo X k2 (?ms1\<lparr>areas := take ?n (areas ?ms1) @ drop (Suc ?n) (areas ?ms1)\<rparr>)"
      "ms_entries (phys k2) ?ms1 = ms_entries (phys k1) ?ms1 |` (- area_pages (areas ?ms1 ! ?n))"
    by (rule remove_area_returns)
  have run: "remove_framed_area s t ?ms1 k1 = Some (0, ?ms2, k2)" using u(1) by (simp add: remove_framed_area_def)
  have pages: "area_pages ?b = area_pages a" by (simp add: area_pages_def)
  have e: "ms_entries (phys k2) ?ms2 v = ms_entries (phys k) ms v" for v
  proof (cases "v \<in> area_pages a")
    case True
    then have "ms_entries (phys k) ms v = None" using free r(6) by auto
    then show ?thesis using u(4) True pages by (simp add: restrict_map_def)
  next
    case False
    then show ?thesis using u(4) r(5) pages by (simp add: restrict_map_def)
  qed
  have inv2: "ms_inv lo X k2 ?ms2" using u(3) by simp
  have live: "frames_live lo k2 = frames_live lo k \<union> ppns (pt_frames pt')"
  proof -
    have s1: "frames_live lo k1 = frames_live lo k \<union> ppns (nf @ fs)" "pt_frames pt' = pt_frames (page_table ms) @ nf"
      "ppns (nf @ fs) \<inter> frames_live lo k = {}" "distinct (nf @ fs)"
      by (rule space_stepD [OF r(3)])+
    have fb: "set (area_frames ?b) = set fs" using r(4) by (simp add: area_frames_def)
    have "frames_live lo k2 = frames_live lo k1 - ppns fs" using u(2) fb by (simp add: shrink_step_def)
    also have "\<dots> = frames_live lo k \<union> (ppns (pt_frames (page_table ms)) \<union> ppns nf)"
    proof (rule live_after)
      show "ppns nf \<inter> ppns fs = {}" using s1(4) unfolding ppns_disjoint_iff by simp
      show "ppns (pt_frames (page_table ms)) \<subseteq> frames_live lo k" using k(2) by (simp add: ms_inv_def pt_inv_def)
    qed (use s1(1,3) in \<open>simp_all only: set_append image_Un\<close>)
    finally show ?thesis unfolding s1(2) by (simp only: set_append image_Un)
  qed
  have "kmem_inv lo k2" using u(2) by (simp add: shrink_step_def)
  moreover have "ms_entries (phys k2) ?ms2 = ms_entries (phys k) ms" using e by (rule ext)
  ultimately show ?thesis
    using missing r(1) run inv2 live
    by (intro conjI exI [of _ ?ms1] exI [of _ k1] exI [of _ ?ms2] exI [of _ k2]) simp_all
qed

theorem insert_remove_area_witness:
  "\<exists>k ms ms1 k1 ms2 k2. insert_framed_area (VirtAddr 0x1000) (VirtAddr 0x2800) 0x16 ms k = Some (ms1, k1) \<and>
     remove_framed_area (VirtAddr 0x1000) (VirtAddr 0x2800) ms1 k1 = Some (0, ms2, k2) \<and>
     ms_entries (phys k2) ms2 = Map.empty"
proof -
  obtain k ms where k: "kmem_inv 16 k" "ms_inv 16 {} k ms" "ms_entries (phys k) ms = Map.empty" "frames_room k = 63"
    using example_space by blast
  have h: "VirtAddr_floor (VirtAddr 0x1000) < VirtAddr_ceil (VirtAddr 0x2800)"
    "{VirtAddr_floor (VirtAddr 0x1000)..<VirtAddr_ceil (VirtAddr 0x2800)} \<inter> dom (ms_entries (phys k) ms) = {}"
    "3 * (unat (vpn (VirtAddr_ceil (VirtAddr 0x2800))) - unat (vpn (VirtAddr_floor (VirtAddr 0x1000)))) \<le> frames_room k"
    using k(3,4) by (simp_all add: example_va less_VirtPageNum_def)
  from insert_remove_area [OF k(1,2) example_va(1) h, where perm = "0x16"] show ?thesis unfolding k(3) by blast
qed

section \<open>Isolation\<close>

lemma PageTable_new_other:
  assumes "kmem_inv lo k" and "0 < frames_room k" and "PageTable_new k = Some (pt, k')"
  shows "\<forall>p \<in> frames_live lo k. same_page (phys k) (phys k') p"
proof -
  from assms(1,2) obtain f k1 where r: "PageTable_new k = Some (\<lparr>root_ppn = f, pt_frames = [FrameTracker f]\<rparr>, k1)"
      "kmem_inv lo k1" "pt_inv lo k1 \<lparr>root_ppn = f, pt_frames = [FrameTracker f]\<rparr>"
      "f \<notin> frames_live lo k" "frames_live lo k1 = insert f (frames_live lo k)" "Suc (frames_room k1) = frames_room k"
      "\<forall>q. ppn_ok q \<longrightarrow> q \<noteq> f \<longrightarrow> same_page (phys k) (phys k1) q"
    by (rule PageTable_new_returns)
  have "k1 = k'" using r(1) assms(3) by simp
  with r(4,7) live_ppn_ok [OF assms(1)] show ?thesis by blast
qed

text \<open>An address space depends on the pages of its own frames only.\<close>

lemma ms_undisturbed:
  assumes k: "kmem_inv lo k" "ms_inv lo Y k ms2"
    and same: "\<And>p. p \<in> ppns (ms_frames ms2) \<Longrightarrow> same_page (phys k) (phys k') p"
    and live: "ppns (ms_frames ms2) \<subseteq> frames_live lo k'"
  shows "ms_inv lo Y k' ms2" and "ms_entries (phys k') ms2 = ms_entries (phys k) ms2"
proof -
  have sub: "ppns (pt_frames (page_table ms2)) \<subseteq> ppns (ms_frames ms2)" by (auto simp: ms_frames_def)
  have pt: "pt_inv lo k (page_table ms2)" using k(2) by (simp add: ms_inv_def)
  have tabs: "same_page (phys k) (phys k') p" if "p \<in> ppns (pt_frames (page_table ms2))" for p
    using same sub that by blast
  have lv: "ppns (pt_frames (page_table ms2)) \<subseteq> frames_live lo k'" using sub live by blast
  have pt': "pt_inv lo k' (page_table ms2)" by (rule pt_inv_same_pages [OF k(1) pt tabs lv])
  show e: "ms_entries (phys k') ms2 = ms_entries (phys k) ms2" by (rule pt_same_pages(2) [OF k(1) pt tabs])
  show "ms_inv lo Y k' ms2" using k(2) pt' live unfolding ms_inv_def e by simp
qed

text \<open>
  C31 (safety). Inserting an area into one address space does not disturb another address space
  that shares no frame with it: the other one stays well formed, translates as before, and
  every byte of its frames is unchanged. The two still share no frame.
\<close>

theorem spaces_isolated:
  assumes k: "kmem_inv lo k" "ms_inv lo X k ms" and va: "va_ok s t"
    and free: "{VirtAddr_floor s..<VirtAddr_ceil t} \<inter> dom (ms_entries (phys k) ms) = {}"
    and room: "3 * (unat (vpn (VirtAddr_ceil t)) - unat (vpn (VirtAddr_floor s))) \<le> frames_room k"
    and other: "ms_inv lo Y k ms2" "ppns (ms_frames ms) \<inter> ppns (ms_frames ms2) = {}"
  shows "\<exists>ms' k'. insert_framed_area s t perm ms k = Some (ms', k') \<and> ms_inv lo Y k' ms2 \<and>
    ms_entries (phys k') ms2 = ms_entries (phys k) ms2 \<and>
    (\<forall>f \<in> set (ms_frames ms2). get_bytes_array (phys k') (frame_ppn f) = get_bytes_array (phys k) (frame_ppn f)) \<and>
    ppns (ms_frames ms') \<inter> ppns (ms_frames ms2) = {}"
proof -
  from k va free room obtain a pt' k' nf fs df where
    r: "insert_framed_area s t perm ms k = Some (\<lparr>page_table = pt', areas = areas ms @ [a\<lparr>data_frames := df\<rparr>]\<rparr>, k')"
      "ms_inv lo X k' \<lparr>page_table = pt', areas = areas ms @ [a\<lparr>data_frames := df\<rparr>]\<rparr>"
      "space_step lo (page_table ms) k nf fs pt' k'" "set (map snd df) = set fs"
    by (rule insert_area_returns)
  note st = space_stepD [OF r(3)]
  let ?ms = "\<lparr>page_table = pt', areas = areas ms @ [a\<lparr>data_frames := df\<rparr>]\<rparr>"
  have own: "ppns (ms_frames ms2) \<subseteq> frames_live lo k" using other(1) by (simp add: ms_inv_def)
  have sub: "ppns (pt_frames (page_table ms)) \<subseteq> ppns (ms_frames ms)" by (auto simp: ms_frames_def)
  have same: "same_page (phys k) (phys k') p" if p: "p \<in> ppns (ms_frames ms2)" for p
  proof (rule space_step_other [OF r(3) k(1)])
    show "p \<in> frames_live lo k" using p own by blast
    show "p \<notin> ppns (pt_frames (page_table ms))" using p sub other(2) by blast
  qed
  have live: "ppns (ms_frames ms2) \<subseteq> frames_live lo k'" using own st(7) by blast
  have "set (area_frames (a\<lparr>data_frames := df\<rparr>)) = set fs" using r(4) by (simp add: area_frames_def)
  then have "ppns (ms_frames ?ms) = ppns (ms_frames ms) \<union> ppns (nf @ fs)"
    using st(1) by (auto simp: ms_frames_def image_Un)
  then have "ppns (ms_frames ?ms) \<inter> ppns (ms_frames ms2) = {}" using other(2) st(6) own by blast
  moreover note ms_undisturbed [OF k(1) other(1) same live]
  moreover have "\<forall>f \<in> set (ms_frames ms2). get_bytes_array (phys k') (frame_ppn f) = get_bytes_array (phys k) (frame_ppn f)"
    using same by (simp add: same_page_def)
  ultimately show ?thesis using r(1) by (intro exI [of _ ?ms] exI [of _ k']) simp
qed

theorem spaces_isolated_witness:
  "\<exists>k ms ms2 ms' k'. insert_framed_area (VirtAddr 0x1000) (VirtAddr 0x2800) 0x16 ms k = Some (ms', k') \<and>
     ms_inv 16 {} k' ms2 \<and> ppns (ms_frames ms') \<inter> ppns (ms_frames ms2) = {}"
proof -
  have room: "0 < frames_room small_mem" using small_mem_ok(2) by simp
  from small_mem_ok(1) room obtain pt2 k2 where k2: "kmem_inv 16 k2" "ms_inv 16 {} k2 (empty_space pt2)"
      "Suc (frames_room k2) = frames_room small_mem"
    by (rule new_space)
  have room2: "0 < frames_room k2" using k2(3) small_mem_ok(2) by simp
  from k2(1) room2 obtain pt k where n: "PageTable_new k2 = Some (pt, k)" and k: "kmem_inv 16 k" "pt_inv 16 k pt" "pt_entries (phys k) pt = Map.empty"
      "ms_inv 16 {} k (empty_space pt)" "Suc (frames_room k) = frames_room k2"
      "frames_live 16 k = frames_live 16 k2 \<union> ppns (ms_frames (empty_space pt))"
      "ppns (ms_frames (empty_space pt)) \<inter> frames_live 16 k2 = {}"
    by (rule new_space)
  have own: "ppns (ms_frames (empty_space pt2)) \<subseteq> frames_live 16 k2" using k2(2) by (simp add: ms_inv_def)
  have same: "same_page (phys k2) (phys k) p" if "p \<in> ppns (ms_frames (empty_space pt2))" for p
  proof -
    have "p \<in> frames_live 16 k2" using that own by blast
    then show ?thesis using PageTable_new_other [OF k2(1) room2 n] by blast
  qed
  have inv2: "ms_inv 16 {} k (empty_space pt2)"
    by (rule ms_undisturbed(1) [OF k2(1,2) same]) (use own k(6) in auto)
  have disj: "ppns (ms_frames (empty_space pt)) \<inter> ppns (ms_frames (empty_space pt2)) = {}" using own k(7) by blast
  have e: "ms_entries (phys k) (empty_space pt) = Map.empty" and fr: "frames_room k = 62"
    using k(3,5) k2(3) small_mem_ok(2) by (simp_all add: empty_space_def)
  have h: "{VirtAddr_floor (VirtAddr 0x1000)..<VirtAddr_ceil (VirtAddr 0x2800)} \<inter> dom (ms_entries (phys k) (empty_space pt)) = {}"
    "3 * (unat (vpn (VirtAddr_ceil (VirtAddr 0x2800))) - unat (vpn (VirtAddr_floor (VirtAddr 0x1000)))) \<le> frames_room k"
    using e fr by (simp_all add: example_va)
  from spaces_isolated [OF k(1,4) example_va(1) h inv2 disj, where perm = "0x16"] show ?thesis by blast
qed

end
