(* ===== verification/UserSpec.thy ===== *)
theory UserSpec
  imports SpaceSpec
begin

text \<open>
  The access of the kernel to the memory of a user: buffers and strings are translated
  page by page through the page table that the \<^verbatim>\<open>satp\<close> token of the user names.
\<close>

section \<open>Addresses of a user\<close>

definition user_phys :: "phys_mem \<Rightarrow> MemorySet \<Rightarrow> nat \<Rightarrow> usize option" where
  "user_phys m ms x = map_option (\<lambda>e. page_addr (pte_ppn e) + of_nat (x mod 4096))
     (ms_entries m ms (VirtPageNum (of_nat (x div 4096))))"

text \<open>The bytes of a user from address \<open>a\<close> on: mapped, their physical addresses, their values.\<close>

definition user_mapped :: "phys_mem \<Rightarrow> MemorySet \<Rightarrow> nat \<Rightarrow> nat \<Rightarrow> bool" where
  "user_mapped m ms a n \<longleftrightarrow> (\<forall>x. a \<le> x \<and> x < a + n \<longrightarrow> user_phys m ms x \<noteq> None)"

definition user_addrs :: "phys_mem \<Rightarrow> MemorySet \<Rightarrow> nat \<Rightarrow> nat \<Rightarrow> usize list" where
  "user_addrs m ms a n = map (\<lambda>x. the (user_phys m ms x)) [a..<a + n]"

definition user_bytes :: "phys_mem \<Rightarrow> MemorySet \<Rightarrow> nat \<Rightarrow> nat \<Rightarrow> bytes" where
  "user_bytes m ms a n = map m (user_addrs m ms a n)"

text \<open>An ASCII string that ends with a zero byte.\<close>

definition user_str :: "phys_mem \<Rightarrow> MemorySet \<Rightarrow> nat \<Rightarrow> bytes \<Rightarrow> bool" where
  "user_str m ms a bs \<longleftrightarrow> user_mapped m ms a (Suc (length bs)) \<and>
     user_bytes m ms a (Suc (length bs)) = bs @ [0] \<and> (\<forall>b \<in> set bs. b \<noteq> 0 \<and> b < 0x80)"

lemma length_user_addrs [simp]: "length (user_addrs m ms a n) = n"
  by (simp add: user_addrs_def)

lemma length_user_bytes [simp]: "length (user_bytes m ms a n) = n"
  by (simp add: user_bytes_def)

lemma user_mappedD: "user_mapped m ms a n \<Longrightarrow> i < n \<Longrightarrow> user_phys m ms (a + i) = Some (user_addrs m ms a n ! i)"
  by (auto simp: user_mapped_def user_addrs_def)

lemma user_str_nth:
  assumes "user_str m ms a bs" and "i \<le> length bs"
  shows "\<exists>x. user_phys m ms (a + i) = Some x \<and> m x = (bs @ [0]) ! i"
proof -
  have "map m (user_addrs m ms a (Suc (length bs))) ! i = (bs @ [0]) ! i"
    using assms(1) by (simp add: user_str_def user_bytes_def)
  then show ?thesis using user_mappedD [of m ms a "Suc (length bs)" i] assms by (simp add: user_str_def)
qed

lemma from_token_token:
  assumes "ppn_ok (root_ppn pt)"
  shows "root_ppn (PageTable_from_token (PageTable_token pt)) = root_ppn pt"
proof -
  have "take_bit 44 (push_bit 60 8 OR ppn (root_ppn pt)) = take_bit 44 (ppn (root_ppn pt))"
    by (rule bit_eqI) (auto simp: bit_simps)
  then show ?thesis
    using take_bit_ppn_ok [OF assms]
    unfolding PageTable_from_token_def and_width of_usize_eqs PageTable_token_def by simp
qed

lemma translate_token:
  assumes "ppn_ok (root_ppn pt)"
  shows "PageTable_translate m (PageTable_from_token (PageTable_token pt)) = PageTable_translate m pt"
  using from_token_token [OF assms] by (simp add: fun_eq_iff PageTable_translate_def find_pte_def)

lemma phys_of_user:
  assumes k: "kmem_inv lo k" "ms_inv lo X k ms" and x: "x < 2 ^ 38" and a: "user_phys (phys k) ms x = Some a"
  shows "phys_of (phys k) (PageTable_from_token (MemorySet_token ms)) (of_nat x) = Some a"
proof -
  have ux: "unat (of_nat x :: usize) = x" using x by (intro unat_of_nat_exact) simp
  have ud: "unat (of_nat (x div 4096) :: usize) = x div 4096"
    using x by (intro unat_of_nat_exact) (simp add: less_mult_imp_div_less)
  have "vpn (VirtAddr_floor (VirtAddr_of_usize (of_nat x))) = of_nat (x div 4096)"
    using x ux ud by (subst unat_eq_iff [symmetric]) (simp add: VirtAddr_floor_eq low_VirtAddr)
  then have fl: "VirtAddr_floor (VirtAddr_of_usize (of_nat x)) = VirtPageNum (of_nat (x div 4096))"
    by (simp add: VirtPageNum.expand)
  obtain e where e: "ms_entries (phys k) ms (VirtPageNum (of_nat (x div 4096))) = Some e"
      "a = page_addr (pte_ppn e) + of_nat (x mod 4096)"
    using a by (auto simp: user_phys_def)
  have "PageTable_translate (phys k) (page_table ms) (VirtPageNum (of_nat (x div 4096))) = Some e"
    using e(1) by (auto simp: pt_entries_def split: if_splits option.splits)
  moreover have "ppn_ok (root_ppn (page_table ms))"
    using pt_inv_root_ok [OF k(1)] k(2) by (simp add: ms_inv_def)
  ultimately have t: "PageTable_translate (phys k) (PageTable_from_token (MemorySet_token ms))
      (VirtAddr_floor (VirtAddr_of_usize (of_nat x))) = Some e"
    by (simp add: MemorySet_token_def translate_token fl)
  show ?thesis using phys_of_page [OF _ _ refl t] ux x e(2) by simp
qed

text \<open>Every page of a user has a frame of its own.\<close>

definition all_framed :: "MemorySet \<Rightarrow> bool" where
  "all_framed ms \<longleftrightarrow> (\<forall>a \<in> set (areas ms). map_type a = Framed)"

definition page_frames :: "MemorySet \<Rightarrow> (VirtPageNum \<times> FrameTracker) list" where
  "page_frames ms = concat (map data_frames (areas ms))"

lemma page_frames_inj:
  assumes "ms_inv lo X k ms" and "(v, f) \<in> set (page_frames ms)" and "(w, f) \<in> set (page_frames ms)"
  shows "v = w"
proof -
  have "distinct (map snd (page_frames ms))"
    using assms(1) unfolding ms_inv_def ms_frames_def page_frames_def area_frames_def [abs_def] map_concat
    by (simp add: comp_def)
  then show ?thesis using assms(2,3) unfolding distinct_map by (metis inj_onD prod.inject snd_conv)
qed

lemma framed_page:
  assumes ms: "ms_inv lo X k ms" "all_framed ms" and e: "ms_entries (phys k) ms v = Some e" "v \<notin> X"
    and k: "kmem_inv lo k"
  shows "\<exists>f. (v, f) \<in> set (page_frames ms) \<and> frame_ppn f = pte_ppn e \<and> pte_ppn e \<in> frames_live lo k \<and> ppn_ok (pte_ppn e)"
proof -
  have "v \<in> ms_pages ms" using ms(1) e by (auto simp: ms_inv_def)
  then obtain a where a: "a \<in> set (areas ms)" "v \<in> area_pages a" by (auto simp: ms_pages_def)
  have ok: "area_ok (ms_entries (phys k) ms) a" "map_type a = Framed"
    using ms a(1) by (auto simp: ms_inv_def all_framed_def)
  then obtain f where f: "(v, f) \<in> set (data_frames a)" using area_ok_framedD(1) [OF ok] a(2) by force
  have "f \<in> set (ms_frames ms)" using f a(1) by (force simp: ms_frames_def area_frames_def)
  then have live: "frame_ppn f \<in> frames_live lo k" using ms(1) by (auto simp: ms_inv_def)
  then have p: "ppn_ok (frame_ppn f)" by (rule live_ppn_ok [OF k])
  have "pte_ppn e = frame_ppn f" using area_ok_framedD(2) [OF ok f] e(1) p by simp
  then show ?thesis using f a(1) live p by (auto simp: page_frames_def)
qed

lemma frame_ppn_inj: "frame_ppn f = frame_ppn g \<Longrightarrow> f = g"
  by (rule FrameTracker.expand)

lemma page_split:
  fixes a b r s :: nat
  assumes "a * 4096 + r mod 4096 = b * 4096 + s mod 4096"
  shows "a = b" and "r mod 4096 = s mod 4096"
proof -
  have "(a * 4096 + r mod 4096) div 4096 = a" "(b * 4096 + s mod 4096) div 4096 = b" by simp_all
  then show "a = b" using assms by metis
  then show "r mod 4096 = s mod 4096" using assms by simp
qed

lemma user_addrs_distinct:
  assumes k: "kmem_inv lo k" "ms_inv lo X k ms" "all_framed ms" and n: "a + n < 2 ^ 38"
    and m: "user_mapped (phys k) ms a n" "\<forall>x. a \<le> x \<and> x < a + n \<longrightarrow> VirtPageNum (of_nat (x div 4096)) \<notin> X"
  shows "distinct (user_addrs (phys k) ms a n)"
proof -
  let ?v = "\<lambda>x. VirtPageNum (of_nat (x div 4096))"
  have "x = y" if x: "a \<le> x" "x < a + n" and y: "a \<le> y" "y < a + n"
    and eq: "the (user_phys (phys k) ms x) = the (user_phys (phys k) ms y)" for x y
  proof -
    have at: "\<exists>e f. user_phys (phys k) ms z = Some (page_addr (pte_ppn e) + of_nat (z mod 4096)) \<and>
        (?v z, f) \<in> set (page_frames ms) \<and> frame_ppn f = pte_ppn e \<and> ppn_ok (pte_ppn e)"
      if z: "a \<le> z" "z < a + n" for z
    proof -
      obtain e where e: "ms_entries (phys k) ms (?v z) = Some e"
        using m(1) z by (auto simp: user_mapped_def user_phys_def)
      then show ?thesis using framed_page [OF k(2,3) e _ k(1)] m(2) z by (auto simp: user_phys_def)
    qed
    obtain e f where e: "user_phys (phys k) ms x = Some (page_addr (pte_ppn e) + of_nat (x mod 4096))"
      "(?v x, f) \<in> set (page_frames ms)" "frame_ppn f = pte_ppn e" "ppn_ok (pte_ppn e)" using at [OF x] by blast
    obtain e' f' where e': "user_phys (phys k) ms y = Some (page_addr (pte_ppn e') + of_nat (y mod 4096))"
      "(?v y, f') \<in> set (page_frames ms)" "frame_ppn f' = pte_ppn e'" "ppn_ok (pte_ppn e')" using at [OF y] by blast
    have "unat (ppn (pte_ppn e)) * 4096 + x mod 4096 = unat (ppn (pte_ppn e')) * 4096 + y mod 4096"
      using eq e(1,4) e'(1,4) unat_page_offset [of "pte_ppn e" "x mod 4096"] unat_page_offset [of "pte_ppn e'" "y mod 4096"]
      by simp
    note d = page_split [OF this]
    have "pte_ppn e = pte_ppn e'" using d(1) by (simp add: PhysPageNum.expand)
    then have "f = f'" using e(3) e'(3) by (intro frame_ppn_inj) simp
    then have "?v x = ?v y" using page_frames_inj [OF k(2)] e(2) e'(2) by blast
    then have "unat (of_nat (x div 4096) :: usize) = unat (of_nat (y div 4096) :: usize)" by simp
    moreover have "unat (of_nat (z div 4096) :: usize) = z div 4096" if "z < a + n" for z
      using that n by (intro unat_of_nat_exact) (simp add: less_mult_imp_div_less)
    ultimately have "x div 4096 = y div 4096" using x(2) y(2) by simp
    then have "x div 4096 * 4096 + x mod 4096 = y div 4096 * 4096 + y mod 4096" using d(2) by simp
    then show ?thesis by (simp only: div_mult_mod_eq)
  qed
  then show ?thesis unfolding user_addrs_def distinct_map inj_on_def by auto
qed

lemma user_buffer_returns:
  assumes k: "kmem_inv lo k" "ms_inv lo X k ms" and fits: "unat ptr + unat len < 2 ^ 38"
    and mapped: "user_mapped (phys k) ms (unat ptr) (unat len)"
  shows "\<exists>w. translated_byte_buffer (phys k) (MemorySet_token ms) ptr len = Some w \<and>
    concat (map slice_addrs w) = user_addrs (phys k) ms (unat ptr) (unat len) \<and>
    (\<forall>s \<in> set w. 0 < slice_len s \<and> slice_len s \<le> 2 ^ 64)"
proof -
  let ?pt = "PageTable_from_token (MemorySet_token ms)"
  have ph: "phys_of (phys k) ?pt (of_nat x) = user_phys (phys k) ms x" if "unat ptr \<le> x" "x < unat ptr + unat len" for x
    using phys_of_user [OF k] mapped that fits unfolding user_mapped_def by fastforce
  have "buffer_mapped (phys k) ?pt (unat ptr) (unat len)"
    using ph mapped by (simp add: buffer_mapped_def user_mapped_def)
  from translated_byte_buffer_returns [OF fits this] obtain w where
    w: "translated_byte_buffer (phys k) (MemorySet_token ms) ptr len = Some w" "\<forall>x \<in> set w. 0 < slice_len x"
      "concat (map slice_addrs w) = map (\<lambda>i. the (phys_of (phys k) ?pt (of_nat i))) [unat ptr..<unat ptr + unat len]"
    by blast
  have eq: "concat (map slice_addrs w) = user_addrs (phys k) ms (unat ptr) (unat len)"
    unfolding w(3) user_addrs_def using ph by simp
  have "slice_len s \<le> 2 ^ 64" if "s \<in> set w" for s
  proof -
    have "length (slice_addrs s) \<le> sum_list (map length (map slice_addrs w))"
      using that by (intro member_le_sum_list) auto
    then have "slice_len s \<le> unat len"
      using arg_cong [OF eq, of length] by (simp add: length_concat)
    then show ?thesis using fits by simp
  qed
  then show ?thesis using w(1,2) eq by blast
qed

text \<open>
  Reading a string of a user ends at the first zero byte and gives the bytes
  before it, for a string of ASCII characters in mapped memory.
\<close>

lemma user_str_returns:
  assumes k: "kmem_inv lo k" "ms_inv lo X k ms" and fits: "unat ptr + length bs < 2 ^ 38"
    and str: "user_str (phys k) ms (unat ptr) bs"
  shows "translated_str (phys k) (MemorySet_token ms) ptr = Some bs"
proof -
  let ?pt = "PageTable_from_token (MemorySet_token ms)"
  have ph: "\<exists>x. phys_of (phys k) ?pt (ptr + of_nat i) = Some x \<and> phys k x = (bs @ [0]) ! i" if i: "i \<le> length bs" for i
  proof -
    obtain x where x: "user_phys (phys k) ms (unat ptr + i) = Some x" "phys k x = (bs @ [0]) ! i"
      using user_str_nth [OF str i] by blast
    have "ptr + of_nat i = of_nat (unat ptr + i)" by simp
    then show ?thesis using phys_of_user [OF k _ x(1)] x(2) i fits by simp
  qed
  have "str_loop (phys k) ?pt ptr [] = Some ([] @ concat (map push_char bs))"
  proof (rule str_loop_returns)
    show "\<exists>x. phys_of (phys k) ?pt (ptr + of_nat i) = Some x \<and> phys k x = bs ! i \<and> bs ! i \<noteq> 0" if "i < length bs" for i
      using ph [of i] that str by (fastforce simp: nth_append user_str_def)
    show "\<exists>x. phys_of (phys k) ?pt (ptr + of_nat (length bs)) = Some x \<and> phys k x = 0"
      using ph [of "length bs"] by simp
  qed
  moreover have "\<forall>c \<in> set bs. push_char c = [c]" using str by (auto simp: push_char_def user_str_def)
  then have "concat (map push_char bs) = bs" by (induction bs) auto
  ultimately show ?thesis by (simp add: translated_str_def)
qed

section \<open>A user with two pages\<close>

text \<open>Pages 1 and 2 are mapped; page 1 starts with the string \<^verbatim>\<open>ab\<close>.\<close>

lemma example_user:
  "\<exists>k ms e f. kmem_inv 16 k \<and> ms_inv 16 {} k ms \<and> ms_entries (phys k) ms (VirtPageNum 1) = Some e \<and>
     ms_entries (phys k) ms (VirtPageNum 2) = Some f \<and>
     get_bytes_array (phys k) (pte_ppn e) = buf_put 0 [97, 98] (replicate 4096 0) \<and> all_framed ms"
proof -
  obtain k ms where k: "kmem_inv 16 k" "ms_inv 16 {} k ms" "ms_entries (phys k) ms = Map.empty" "frames_room k = 63"
      "areas ms = []"
    using example_space by blast
  have h: "{VirtAddr_floor (VirtAddr 0x1000)..<VirtAddr_ceil (VirtAddr 0x2800)} \<inter> dom (ms_entries (phys k) ms) = {}"
    "3 * (unat (vpn (VirtAddr_ceil (VirtAddr 0x2800))) - unat (vpn (VirtAddr_floor (VirtAddr 0x1000)))) \<le> frames_room k"
    using k(3,4) by (simp_all add: example_va)
  from k(1,2) example_va(1) h obtain a pt' k1 nf fs df where
    r: "insert_framed_area (VirtAddr 0x1000) (VirtAddr 0x2800) 0x16 ms k
        = Some (\<lparr>page_table = pt', areas = areas ms @ [a\<lparr>data_frames := df\<rparr>]\<rparr>, k1)"
      "ms_inv 16 {} k1 \<lparr>page_table = pt', areas = areas ms @ [a\<lparr>data_frames := df\<rparr>]\<rparr>"
      "space_step 16 (page_table ms) k nf fs pt' k1" "set (map snd df) = set fs"
      "\<forall>v. v \<notin> area_pages a \<longrightarrow> pt_entries (phys k1) pt' v = ms_entries (phys k) ms v"
      "area_pages a = {VirtAddr_floor (VirtAddr 0x1000)..<VirtAddr_ceil (VirtAddr 0x2800)}" "map_type a = Framed"
    by (rule insert_area_returns)
  let ?ms = "\<lparr>page_table = pt', areas = areas ms @ [a\<lparr>data_frames := df\<rparr>]\<rparr>"
  note st = space_stepD [OF r(3)]
  have aok: "area_ok (ms_entries (phys k1) ?ms) (a\<lparr>data_frames := df\<rparr>)" using r(2) by (simp add: ms_inv_def)
  have df: "fst ` set df = {VirtPageNum 1..<VirtPageNum 3}"
    and ent: "\<And>v f. (v, f) \<in> set df \<Longrightarrow> pt_entries (phys k1) pt' v = Some (area_entry a (frame_ppn f))"
    using area_ok_framedD [OF aok] r(6,7) by (simp_all add: area_pages_def example_va)
  have "VirtPageNum 1 \<in> fst ` set df" "VirtPageNum 2 \<in> fst ` set df"
    unfolding df by (simp_all add: less_eq_VirtPageNum_def less_VirtPageNum_def)
  then obtain f1 f2 where f: "(VirtPageNum 1, f1) \<in> set df" "(VirtPageNum 2, f2) \<in> set df" by force
  let ?p = "frame_ppn f1"
  have p: "?p \<in> ppns fs" using f(1) r(4) by force
  have ok: "ppn_ok ?p" using st(7) p by (intro live_ppn_ok [OF st(3)]) auto
  let ?k = "k1\<lparr>phys := put_bytes_array ?p 0 [97, 98] (phys k1)\<rparr>"
  have np: "?p \<notin> ppns (pt_frames pt')"
  proof -
    have "ppns nf \<inter> ppns fs = {}" using st(5) unfolding ppns_disjoint_iff by simp
    then have "?p \<notin> ppns nf" using p by blast
    moreover have "?p \<notin> frames_live 16 k" using st(6) p by auto
    moreover have "ppns (pt_frames (page_table ms)) \<subseteq> frames_live 16 k" using k(2) by (simp add: ms_inv_def pt_inv_def)
    ultimately show ?thesis unfolding st(1) set_append image_Un by blast
  qed
  have tabs: "same_page (phys k1) (phys ?k) q" if q: "q \<in> ppns (pt_frames pt')" for q
  proof -
    have "ppn_ok q" using q st(4) by (intro live_ppn_ok [OF st(3)]) (auto simp: pt_inv_def)
    moreover have "?p \<noteq> q" using q np by blast
    ultimately show ?thesis using put_bytes_other [OF ok, of q 0 "[97, 98]"] by simp
  qed
  have lv: "ppns (pt_frames pt') \<subseteq> frames_live 16 ?k" using st(4) by (simp add: pt_inv_def frames_live_def)
  have pt: "pt_inv 16 ?k pt'" by (rule pt_inv_same_pages [OF st(3,4) tabs lv])
  have e: "pt_entries (phys ?k) pt' = pt_entries (phys k1) pt'" by (rule pt_same_pages(2) [OF st(3,4) tabs])
  have inv: "ms_inv 16 {} ?k ?ms" using r(2) pt e by (simp add: ms_inv_def frames_live_def)
  have "get_bytes_array (phys k1) ?p = replicate 4096 0" using st(9) [OF p] by (simp add: zero_page_def)
  then have page: "get_bytes_array (phys ?k) ?p = buf_put 0 [97, 98] (replicate 4096 0)"
    using get_put_bytes_array [OF ok, of 0 "[97, 98]"] by simp
  have "kmem_inv 16 ?k" using st(3) by (simp add: kmem_inv_def)
  then show ?thesis
    using inv e ent [OF f(1)] ent [OF f(2)] page ok r(7) k(5)
    by (intro exI [of _ ?k] exI [of _ ?ms]) (simp add: all_framed_def)
qed

lemma user_phys_page:
  assumes "ms_entries m ms (VirtPageNum (of_nat (x div 4096))) = Some e"
  shows "user_phys m ms x = Some (page_addr (pte_ppn e) + of_nat (x mod 4096))"
    and "m (page_addr (pte_ppn e) + of_nat (x mod 4096)) = get_bytes_array m (pte_ppn e) ! (x mod 4096)"
  using assms by (simp_all add: user_phys_def get_bytes_array_def)

lemma example_mapped:
  assumes e: "ms_entries m ms (VirtPageNum 1) = Some e" "ms_entries m ms (VirtPageNum 2) = Some f"
    and x: "4096 \<le> a" "a + n \<le> 12288"
  shows "user_mapped m ms a n"
  unfolding user_mapped_def
proof (intro allI impI)
  fix x assume "a \<le> x \<and> x < a + n"
  then have x: "4096 \<le> x" "x < 12288" using x by simp_all
  show "user_phys m ms x \<noteq> None"
  proof (cases "x < 8192")
    case True
    then have "x div 4096 = 1" using x by (intro div_nat_eqI) simp_all
    then show ?thesis using e(1) by (simp add: user_phys_def)
  next
    case False
    then have "x div 4096 = 2" using x by (intro div_nat_eqI) simp_all
    then show ?thesis using e(2) by (simp add: user_phys_def)
  qed
qed

lemma example_str:
  assumes e: "ms_entries m ms (VirtPageNum 1) = Some e" "ms_entries m ms (VirtPageNum 2) = Some f"
    and page: "get_bytes_array m (pte_ppn e) = buf_put 0 [97, 98] (replicate 4096 0)"
  shows "user_str m ms 4096 [97, 98]"
proof -
  have at: "m (the (user_phys m ms (4096 + i))) = ([97, 98, 0] :: bytes) ! i" if i: "i < 3" for i
  proof -
    have d: "(4096 + i) div 4096 = 1" "(4096 + i) mod 4096 = i" using i by simp_all
    have "buf_put 0 [97, 98] (replicate 4096 0) ! i = ([97, 98, 0] :: bytes) ! i"
      using i by (auto simp: nth_buf_put less_Suc_eq numeral_3_eq_3)
    then show ?thesis using user_phys_page [of m ms "4096 + i" e] e(1) page unfolding d by simp
  qed
  have "[4096..<4096 + 3] = [4096, 4097, 4098 :: nat]" by (simp add: upt_rec)
  then have "user_bytes m ms 4096 3 = [97, 98, 0]"
    using at [of 0] at [of 1] at [of 2] by (simp add: user_bytes_def user_addrs_def)
  moreover have three: "Suc (Suc (Suc 0)) = 3" by simp
  ultimately show ?thesis using example_mapped [OF e, of 4096 3] by (simp add: user_str_def three)
qed

section \<open>Buffers\<close>

text \<open>
  C32 (functional). The slices that the kernel makes of a mapped user buffer are, in order, the
  physical bytes of the buffer: one slice per page, none empty. Iterating over them ends
  and visits every byte once, and their total length is the length of the buffer.
\<close>

theorem user_buffer:
  assumes k: "kmem_inv lo k" "ms_inv lo X k ms" and fits: "unat ptr + unat len < 2 ^ 38"
    and mapped: "user_mapped (phys k) ms (unat ptr) (unat len)"
  shows "\<exists>w. translated_byte_buffer (phys k) (MemorySet_token ms) ptr len = Some w \<and> (\<forall>s \<in> set w. 0 < slice_len s) \<and>
    concat (map slice_addrs w) = user_addrs (phys k) ms (unat ptr) (unat len) \<and>
    iter_all (UserBuffer_into_iter (UserBuffer_new w)) = Some (concat (map slice_addrs w)) \<and>
    UserBuffer_len (UserBuffer_new w) = len"
proof -
  obtain w where w: "translated_byte_buffer (phys k) (MemorySet_token ms) ptr len = Some w"
      "concat (map slice_addrs w) = user_addrs (phys k) ms (unat ptr) (unat len)" "\<forall>s \<in> set w. 0 < slice_len s"
    using user_buffer_returns [OF assms] by blast
  have "iter_all (UserBuffer_into_iter (UserBuffer_new w)) = Some (concat (map slice_addrs w))"
    using UserBuffer_iter_all [of "UserBuffer_new w"] w(3) by (simp add: UserBuffer_new_def)
  moreover have "UserBuffer_len (UserBuffer_new w) = len"
    unfolding UserBuffer_len_eq using w(2) by (simp add: UserBuffer_new_def)
  ultimately show ?thesis using w by blast
qed

theorem user_buffer_witness:
  "\<exists>k ms w. ms_inv 16 {} k ms \<and> translated_byte_buffer (phys k) (MemorySet_token ms) 0x1FF0 0x20 = Some w \<and>
     UserBuffer_len (UserBuffer_new w) = 0x20"
proof -
  obtain k ms e f where k: "kmem_inv 16 k" "ms_inv 16 {} k ms"
    and e: "ms_entries (phys k) ms (VirtPageNum 1) = Some e" "ms_entries (phys k) ms (VirtPageNum 2) = Some f"
    using example_user by blast
  show ?thesis
    using user_buffer [OF k, of "0x1FF0" "0x20"] example_mapped [OF e, of "0x1FF0" "0x20"] k(2) by auto
qed

end
