(* ===== verification/BlockDev.thy ===== *)
theory BlockDev
  imports Prelude
begin

text \<open>
  Block devices (\<^verbatim>\<open>easy-fs/src/block_dev.rs\<close>) and the image file of the packer
  (\<^verbatim>\<open>easy-fs-fuse/src/main.rs\<close>).

  The trait \<^verbatim>\<open>BlockDevice\<close> is a record of its two methods over a device state
  \<open>'d\<close>, the way a trait object pairs data with a method table. The locale
  \<open>block_device\<close> states what the file system relies on: inside the device a
  read returns the block last written. \<^verbatim>\<open>BlockFile\<close>, the device of the packer, is
  modelled over a file with a cursor and interprets the locale; the kernel's
  \<^verbatim>\<open>VirtIOBlock\<close> only forwards to an external driver crate and stays a parameter.
\<close>

definition BLOCK_SZ :: nat where
  [const_defs]: "BLOCK_SZ = 512"

record 'd BlockDevice =
  read_block :: "nat \<Rightarrow> 'd \<Rightarrow> (bytes \<times> 'd) option"
  write_block :: "nat \<Rightarrow> bytes \<Rightarrow> 'd \<Rightarrow> 'd option"

section \<open>The image file of the packer\<close>

text \<open>
  \<^verbatim>\<open>std::fs::File\<close>: the contents and the cursor. A read returns at most the bytes
  up to the end of the file; a write past the end extends the file, filling a
  gap with zeros.
\<close>

record image_file =
  contents :: bytes
  cursor :: nat

definition file_seek :: "nat \<Rightarrow> image_file \<Rightarrow> image_file" where
  "file_seek p f = f\<lparr>cursor := p\<rparr>"

definition file_read :: "nat \<Rightarrow> image_file \<Rightarrow> bytes \<times> image_file" where
  "file_read n f = (let bs = buf_get (cursor f) n (contents f)
     in (bs, f\<lparr>cursor := cursor f + length bs\<rparr>))"

definition file_write :: "bytes \<Rightarrow> image_file \<Rightarrow> nat \<times> image_file" where
  "file_write bs f =
     (let padded = contents f @ replicate (cursor f - length (contents f)) 0
      in (length bs, f\<lparr>contents := buf_put (cursor f) bs padded,
                      cursor := cursor f + length bs\<rparr>))"

definition BlockFile_read_block :: "nat \<Rightarrow> image_file \<Rightarrow> (bytes \<times> image_file) option" where
  "BlockFile_read_block block_id f =
     (let (buf, f') = file_read BLOCK_SZ (file_seek (block_id * BLOCK_SZ) f)
      in if length buf = BLOCK_SZ then Some (buf, f') else None)"

definition BlockFile_write_block :: "nat \<Rightarrow> bytes \<Rightarrow> image_file \<Rightarrow> image_file option" where
  "BlockFile_write_block block_id buf f =
     (let (n, f') = file_write buf (file_seek (block_id * BLOCK_SZ) f)
      in if n = BLOCK_SZ then Some f' else None)"

definition BlockFile :: "image_file BlockDevice" where
  "BlockFile = \<lparr>read_block = BlockFile_read_block, write_block = BlockFile_write_block\<rparr>"

definition file_block :: "image_file \<Rightarrow> nat \<Rightarrow> bytes" where
  "file_block f b = buf_get (b * BLOCK_SZ) BLOCK_SZ (contents f)"

definition file_ok :: "nat \<Rightarrow> image_file \<Rightarrow> bool" where
  "file_ok n f \<longleftrightarrow> length (contents f) = n * BLOCK_SZ"

section \<open>The device contract\<close>

text \<open>
  \<open>dinv\<close> holds of a working device of \<open>n_blocks\<close> blocks, \<open>dview\<close> reads its
  contents. Neither operation fails inside the device.
\<close>

locale block_device =
  fixes D :: "'d BlockDevice"
    and dinv :: "'d \<Rightarrow> bool"
    and dview :: "'d \<Rightarrow> nat \<Rightarrow> bytes"
    and n_blocks :: nat
  assumes read_ok: "dinv d \<Longrightarrow> b < n_blocks \<Longrightarrow>
      \<exists>d'. read_block D b d = Some (dview d b, d') \<and> dinv d' \<and> dview d' = dview d"
    and write_ok: "dinv d \<Longrightarrow> b < n_blocks \<Longrightarrow> length bs = BLOCK_SZ \<Longrightarrow>
      \<exists>d'. write_block D b bs d = Some d' \<and> dinv d' \<and> dview d' = (dview d)(b := bs)"
    and dview_length: "dinv d \<Longrightarrow> b < n_blocks \<Longrightarrow> length (dview d b) = BLOCK_SZ"

section \<open>The image file meets the contract\<close>

lemma block_in_file: "b < n \<Longrightarrow> b * BLOCK_SZ + BLOCK_SZ \<le> n * BLOCK_SZ"
proof -
  assume "b < n"
  then have "Suc b * BLOCK_SZ \<le> n * BLOCK_SZ" by (intro mult_le_mono1) simp
  then show ?thesis by simp
qed

lemma file_block_length [simp]:
  "file_ok n f \<Longrightarrow> b < n \<Longrightarrow> length (file_block f b) = BLOCK_SZ"
  using block_in_file [of b n] by (simp add: file_block_def file_ok_def)

lemma BlockFile_read_in_range:
  assumes "file_ok n f" and "b < n"
  shows "BlockFile_read_block b f =
    Some (file_block f b, f\<lparr>cursor := b * BLOCK_SZ + BLOCK_SZ\<rparr>)"
  using file_block_length [OF assms] block_in_file [OF assms(2)] assms
  by (simp add: BlockFile_read_block_def file_read_def file_seek_def file_block_def Let_def
      file_ok_def)

lemma file_block_write:
  assumes "file_ok n f" and "b < n" and "length bs = BLOCK_SZ"
  shows "file_block (f\<lparr>contents := buf_put (b * BLOCK_SZ) bs (contents f), cursor := c\<rparr>)
    = (file_block f)(b := bs)" (is "file_block ?f' = _")
proof
  fix b'
  let ?xs = "contents f"
  have put: "b * BLOCK_SZ + length bs \<le> length ?xs"
    using assms block_in_file [OF assms(2)] by (simp add: file_ok_def)
  show "file_block ?f' b' = ((file_block f)(b := bs)) b'"
  proof (cases "b' < n")
    case True
    then have get: "b' * BLOCK_SZ + BLOCK_SZ \<le> length ?xs"
      using assms(1) block_in_file [OF True] by (simp add: file_ok_def)
    show ?thesis
    proof (cases "b' = b")
      case True
      then show ?thesis using put assms(3) by (simp add: file_block_def)
    next
      case False
      then consider "b' < b" | "b < b'" by linarith
      then have "b' * BLOCK_SZ + BLOCK_SZ \<le> b * BLOCK_SZ \<or> b * BLOCK_SZ + length bs \<le> b' * BLOCK_SZ"
        using assms(3) by cases (auto simp: block_in_file)
      then show ?thesis
        using False put get by (simp add: file_block_def buf_get_put_disjoint)
    qed
  next
    case False
    then have "n * BLOCK_SZ \<le> b' * BLOCK_SZ" by simp
    with False put assms show ?thesis
      by (simp add: file_block_def buf_get_def file_ok_def)
  qed
qed

lemma BlockFile_write_in_range:
  assumes "file_ok n f" and "b < n" and "length bs = BLOCK_SZ"
  shows "BlockFile_write_block b bs f =
    Some (f\<lparr>contents := buf_put (b * BLOCK_SZ) bs (contents f),
            cursor := b * BLOCK_SZ + BLOCK_SZ\<rparr>)"
  using block_in_file [OF assms(2)] assms
  by (simp add: BlockFile_write_block_def file_write_def file_seek_def Let_def file_ok_def)

interpretation image: block_device BlockFile "file_ok n" file_block n for n
proof
  fix d b
  assume "file_ok n d" and "b < n"
  then show "\<exists>d'. read_block BlockFile b d = Some (file_block d b, d') \<and> file_ok n d' \<and>
      file_block d' = file_block d"
    by (simp add: BlockFile_def BlockFile_read_in_range)
       (simp add: file_ok_def file_block_def fun_eq_iff)
next
  fix d b and bs :: bytes
  assume "file_ok n d" and "b < n" and "length bs = BLOCK_SZ"
  then show "\<exists>d'. write_block BlockFile b bs d = Some d' \<and> file_ok n d' \<and>
      file_block d' = (file_block d)(b := bs)"
    using block_in_file [of b n]
    by (simp add: BlockFile_def BlockFile_write_in_range file_block_write)
       (simp add: file_ok_def)
next
  fix d b
  assume "file_ok n d" and "b < n"
  then show "length (file_block d b) = BLOCK_SZ" by simp
qed

lemma BlockFile_read_out_of_range:
  assumes "file_ok n f" and "n \<le> b"
  shows "BlockFile_read_block b f = None"
proof -
  have "n * BLOCK_SZ \<le> b * BLOCK_SZ" using assms(2) by simp
  with assms(1) show ?thesis
    by (simp add: BlockFile_read_block_def file_read_def file_seek_def Let_def file_ok_def
        const_defs)
qed

end
