(* ===== verification/BlockStore.thy ===== *)
theory BlockStore
  imports BlockDev
begin

text \<open>
  The interface between the block cache and its clients.

  Every access of the file system to the disk has the shape
  \<^verbatim>\<open>get_block_cache(id, dev).lock().read(offset, closure)\<close> or
  \<^verbatim>\<open>get_block_cache(id, dev).lock().modify(offset, closure)\<close>. The record \<open>block_ops\<close>
  collects what such an access does to the state: the handle is obtained and
  locked, the cached bytes are read, and (for \<^verbatim>\<open>modify\<close>) overwritten, and the guard
  and the handle are dropped. Closures may access other blocks while the guard is
  held; locking a block whose guard is held never returns.

  The locale \<open>block_store\<close> states the contract: as long as fewer than
  \<^verbatim>\<open>BLOCK_CACHE_SIZE\<close> blocks are held, an access inside the device succeeds, sees
  the current contents (\<open>view\<close>) and changes nothing but the block it writes.
  \<open>returns\<close> is the total-correctness statement the clients' lemmas use; \<open>settles\<close> is
  the same for an operation that also leaves nothing to write back (\<open>durable\<close>).
\<close>

definition BLOCK_CACHE_SIZE :: nat where
  [const_defs]: "BLOCK_CACHE_SIZE = 16"

record 's block_ops =
  lock_block :: "nat \<Rightarrow> 's \<Rightarrow> 's option"
  peek_block :: "nat \<Rightarrow> 's \<Rightarrow> bytes"
  poke_block :: "nat \<Rightarrow> bytes \<Rightarrow> 's \<Rightarrow> 's"
  unlock_block :: "nat \<Rightarrow> 's \<Rightarrow> 's"
  sync_blocks :: "'s \<Rightarrow> 's option"

definition get_ref :: "nat \<Rightarrow> nat \<Rightarrow> bytes \<Rightarrow> bytes option" where
  "get_ref offset type_size cache =
     (if offset + type_size \<le> BLOCK_SZ \<and> offset < length cache
      then Some (buf_get offset type_size cache) else None)"

definition bc_read ::
  "'s block_ops \<Rightarrow> nat \<Rightarrow> nat \<Rightarrow> nat \<Rightarrow> (bytes \<Rightarrow> 's \<Rightarrow> ('v \<times> 's) option) \<Rightarrow> 's \<Rightarrow> ('v \<times> 's) option"
where
  "bc_read B block_id offset type_size f s = do {
     s1 \<leftarrow> lock_block B block_id s;
     r \<leftarrow> get_ref offset type_size (peek_block B block_id s1);
     (v, s2) \<leftarrow> f r s1;
     Some (v, unlock_block B block_id s2)
   }"

definition bc_modify ::
  "'s block_ops \<Rightarrow> nat \<Rightarrow> nat \<Rightarrow> nat \<Rightarrow> (bytes \<Rightarrow> 's \<Rightarrow> (('v \<times> bytes) \<times> 's) option) \<Rightarrow>
   's \<Rightarrow> ('v \<times> 's) option"
where
  "bc_modify B block_id offset type_size f s = do {
     s1 \<leftarrow> lock_block B block_id s;
     r \<leftarrow> get_ref offset type_size (peek_block B block_id s1);
     ((v, r'), s2) \<leftarrow> f r s1;
     Some (v, unlock_block B block_id
                (poke_block B block_id (buf_put offset r' (peek_block B block_id s2)) s2))
   }"

section \<open>The contract of the block store\<close>

locale block_store =
  fixes B :: "'s block_ops"
    and inv :: "'s \<Rightarrow> bool"
    and view :: "'s \<Rightarrow> nat \<Rightarrow> bytes"
    and held :: "'s \<Rightarrow> nat set"
    and n_blocks :: nat
    and durable :: "'s \<Rightarrow> bool"
  assumes lock_ok: "inv s \<Longrightarrow> b < n_blocks \<Longrightarrow> b \<notin> held s \<Longrightarrow> card (held s) < BLOCK_CACHE_SIZE \<Longrightarrow>
      \<exists>s'. lock_block B b s = Some s' \<and> inv s' \<and> view s' = view s \<and> held s' = insert b (held s)"
    and peek_ok: "inv s \<Longrightarrow> b \<in> held s \<Longrightarrow> peek_block B b s = view s b"
    and poke_ok: "inv s \<Longrightarrow> b \<in> held s \<Longrightarrow> length bs = BLOCK_SZ \<Longrightarrow>
      inv (poke_block B b bs s) \<and> view (poke_block B b bs s) = (view s)(b := bs) \<and>
      held (poke_block B b bs s) = held s"
    and unlock_ok: "inv s \<Longrightarrow> b \<in> held s \<Longrightarrow>
      inv (unlock_block B b s) \<and> view (unlock_block B b s) = view s \<and>
      held (unlock_block B b s) = held s - {b}"
    and sync_ok: "inv s \<Longrightarrow> held s = {} \<Longrightarrow>
      \<exists>s'. sync_blocks B s = Some s' \<and> inv s' \<and> view s' = view s \<and> held s' = {} \<and> durable s'"
    and view_length: "inv s \<Longrightarrow> b < n_blocks \<Longrightarrow> length (view s b) = BLOCK_SZ"
    and held_below: "inv s \<Longrightarrow> held s \<subseteq> {..<n_blocks}"
begin

definition returns :: "('v \<times> 's) option \<Rightarrow> nat set \<Rightarrow> ('v \<Rightarrow> (nat \<Rightarrow> bytes) \<Rightarrow> bool) \<Rightarrow> bool" where
  "returns r H Q \<longleftrightarrow> (\<exists>v s. r = Some (v, s) \<and> inv s \<and> held s = H \<and> Q v (view s))"

lemma returns_Some [intro]:
  "inv s \<Longrightarrow> held s = H \<Longrightarrow> Q v (view s) \<Longrightarrow> returns (Some (v, s)) H Q"
  by (simp add: returns_def)

lemma returnsE:
  assumes "returns r H Q"
  obtains v s where "r = Some (v, s)" and "inv s" and "held s = H" and "Q v (view s)"
  using assms by (auto simp: returns_def)

lemma returns_bind:
  assumes "returns r H P"
    and "\<And>v s. inv s \<Longrightarrow> held s = H \<Longrightarrow> P v (view s) \<Longrightarrow> returns (f (v, s)) H Q"
  shows "returns (r \<bind> f) H Q"
  using assms(1) by (rule returnsE) (simp add: assms(2))

lemma returns_mono:
  assumes "returns r H P" and "\<And>v d. P v d \<Longrightarrow> Q v d"
  shows "returns r H Q"
  using assms by (auto simp: returns_def)

lemma held_finite: "inv s \<Longrightarrow> finite (held s)"
  using held_below finite_subset by blast

lemma returns_read:
  assumes s: "inv s" and b: "b < n_blocks" "b \<notin> held s" "card (held s) < BLOCK_CACHE_SIZE"
    and off: "off + sz \<le> BLOCK_SZ" "off < BLOCK_SZ"
    and f: "\<And>s1. inv s1 \<Longrightarrow> view s1 = view s \<Longrightarrow> held s1 = insert b (held s) \<Longrightarrow>
      returns (f (buf_get off sz (view s b)) s1) (insert b (held s)) Q"
  shows "returns (bc_read B b off sz f s) (held s) Q"
proof -
  obtain s1 where s1: "lock_block B b s = Some s1" "inv s1" "view s1 = view s"
      "held s1 = insert b (held s)"
    using lock_ok [OF s b] by blast
  have peek: "peek_block B b s1 = view s b"
    using peek_ok [of s1 b] s1 by simp
  have ref: "get_ref off sz (view s b) = Some (buf_get off sz (view s b))"
    using off view_length [OF s b(1)] by (simp add: get_ref_def)
  obtain v s2 where s2: "f (buf_get off sz (view s b)) s1 = Some (v, s2)" "inv s2"
      "held s2 = insert b (held s)" "Q v (view s2)"
    using f [OF s1(2-4)] by (rule returnsE)
  have "bc_read B b off sz f s = Some (v, unlock_block B b s2)"
    by (simp add: bc_read_def s1 peek ref s2)
  then show ?thesis
    using unlock_ok [of s2 b] s2 b(2) by (auto simp: returns_def)
qed

lemma returns_modify:
  assumes s: "inv s" and b: "b < n_blocks" "b \<notin> held s" "card (held s) < BLOCK_CACHE_SIZE"
    and off: "off + sz \<le> BLOCK_SZ" "off < BLOCK_SZ"
    and f: "\<And>s1. inv s1 \<Longrightarrow> view s1 = view s \<Longrightarrow> held s1 = insert b (held s) \<Longrightarrow>
      returns (f (buf_get off sz (view s b)) s1) (insert b (held s))
        (\<lambda>(v, r) d. length r = sz \<and> Q v (d(b := buf_put off r (d b))))"
  shows "returns (bc_modify B b off sz f s) (held s) Q"
proof -
  obtain s1 where s1: "lock_block B b s = Some s1" "inv s1" "view s1 = view s"
      "held s1 = insert b (held s)"
    using lock_ok [OF s b] by blast
  have peek: "peek_block B b s1 = view s b"
    using peek_ok [of s1 b] s1 by simp
  have ref: "get_ref off sz (view s b) = Some (buf_get off sz (view s b))"
    using off view_length [OF s b(1)] by (simp add: get_ref_def)
  obtain v r s2 where s2: "f (buf_get off sz (view s b)) s1 = Some ((v, r), s2)" "inv s2"
      "held s2 = insert b (held s)" "length r = sz"
      "Q v ((view s2)(b := buf_put off r (view s2 b)))"
    using f [OF s1(2-4)] by (auto elim!: returnsE)
  let ?bs = "buf_put off r (view s2 b)"
  have peek2: "peek_block B b s2 = view s2 b"
    using peek_ok [of s2 b] s2 by simp
  have len: "length ?bs = BLOCK_SZ"
    using off view_length [OF s2(2) b(1)] s2(4) by simp
  have run: "bc_modify B b off sz f s = Some (v, unlock_block B b (poke_block B b ?bs s2))"
    by (simp add: bc_modify_def s1 peek ref s2 peek2)
  have poke: "inv (poke_block B b ?bs s2)" "view (poke_block B b ?bs s2) = (view s2)(b := ?bs)"
      "held (poke_block B b ?bs s2) = insert b (held s)"
    using poke_ok [OF s2(2), of b ?bs] s2(3) len by auto
  show ?thesis
    using unlock_ok [OF poke(1), of b] poke run s2(5) b(2) by (auto simp: returns_def)
qed

text \<open>An operation that ends with a sync also leaves the disk up to date.\<close>

definition settles :: "('v \<times> 's) option \<Rightarrow> ('v \<Rightarrow> (nat \<Rightarrow> bytes) \<Rightarrow> bool) \<Rightarrow> bool" where
  "settles r Q \<longleftrightarrow> (\<exists>v s. r = Some (v, s) \<and> inv s \<and> held s = {} \<and> durable s \<and> Q v (view s))"

lemma settles_returns: "settles r Q \<Longrightarrow> returns r {} Q"
  by (auto simp: settles_def returns_def)

lemma settles_Some [intro]:
  "inv s \<Longrightarrow> held s = {} \<Longrightarrow> durable s \<Longrightarrow> Q v (view s) \<Longrightarrow> settles (Some (v, s)) Q"
  by (simp add: settles_def)

lemma settlesE:
  assumes "settles r Q"
  obtains v s where "r = Some (v, s)" and "inv s" and "held s = {}" and "durable s" and "Q v (view s)"
  using assms by (auto simp: settles_def)

end

end
