(* ===== verification/Layout.thy ===== *)
theory Layout
  imports BlockStore
begin

text \<open>
  The on-disk data structures (\<^verbatim>\<open>easy-fs/src/layout.rs\<close>): the super block and the
  disk inode with its direct, indirect and doubly indirect block indexes.

  Structures are read from and written to blocks as bytes in the layout of
  \<^verbatim>\<open>repr(C)\<close>: a \<^verbatim>\<open>DiskInode\<close> is 31 little-endian \<open>u32\<close> values followed by one byte
  for the type and three bytes of padding. Loop counters that the code keeps in
  \<open>u32\<close> or \<open>usize\<close> and that stay below the number of blocks of a file are natural
  numbers; sizes and block numbers are \<open>u32\<close> words.

  The cells of an inode list its blocks in allocation order, each index block just
  before the first data block it is needed for. They are the common ground of the
  operations: \<^verbatim>\<open>total_blocks\<close> counts them, \<^verbatim>\<open>get_block_id\<close> selects from them,
  \<^verbatim>\<open>increase_size\<close> appends to them and \<^verbatim>\<open>clear_size\<close> returns them.
\<close>

section \<open>Constants\<close>

definition EFS_MAGIC :: u32 where
  [const_defs]: "EFS_MAGIC = 0x3b800001"

definition INODE_DIRECT_COUNT :: nat where
  [const_defs]: "INODE_DIRECT_COUNT = 28"

definition INODE_INDIRECT1_COUNT :: nat where
  [const_defs]: "INODE_INDIRECT1_COUNT = BLOCK_SZ div 4"

definition INODE_INDIRECT2_COUNT :: nat where
  [const_defs]: "INODE_INDIRECT2_COUNT = INODE_INDIRECT1_COUNT * INODE_INDIRECT1_COUNT"

definition DIRECT_BOUND :: nat where
  [const_defs]: "DIRECT_BOUND = INODE_DIRECT_COUNT"

definition INDIRECT1_BOUND :: nat where
  [const_defs]: "INDIRECT1_BOUND = DIRECT_BOUND + INODE_INDIRECT1_COUNT"

definition INDIRECT2_BOUND :: nat where
  [const_defs]: "INDIRECT2_BOUND = INDIRECT1_BOUND + INODE_INDIRECT2_COUNT"

section \<open>Super block\<close>

record SuperBlock =
  magic :: u32
  sb_total_blocks :: u32
  inode_bitmap_blocks :: u32
  inode_area_blocks :: u32
  data_bitmap_blocks :: u32
  data_area_blocks :: u32

definition SuperBlock_initialize :: "u32 \<Rightarrow> u32 \<Rightarrow> u32 \<Rightarrow> u32 \<Rightarrow> u32 \<Rightarrow> SuperBlock" where
  "SuperBlock_initialize tot ibm ia dbm da =
     \<lparr>magic = EFS_MAGIC, sb_total_blocks = tot, inode_bitmap_blocks = ibm,
      inode_area_blocks = ia, data_bitmap_blocks = dbm, data_area_blocks = da\<rparr>"

definition SuperBlock_is_valid :: "SuperBlock \<Rightarrow> bool" where
  "SuperBlock_is_valid sb \<longleftrightarrow> magic sb = EFS_MAGIC"

definition SuperBlock_size :: nat where
  [const_defs]: "SuperBlock_size = 24"

definition SuperBlock_encode :: "SuperBlock \<Rightarrow> bytes" where
  "SuperBlock_encode sb = bytes_of 4 [magic sb, sb_total_blocks sb, inode_bitmap_blocks sb,
     inode_area_blocks sb, data_bitmap_blocks sb, data_area_blocks sb]"

definition SuperBlock_decode :: "bytes \<Rightarrow> SuperBlock" where
  "SuperBlock_decode bs = \<lparr>magic = word_at 4 bs 0, sb_total_blocks = word_at 4 bs 1,
     inode_bitmap_blocks = word_at 4 bs 2, inode_area_blocks = word_at 4 bs 3,
     data_bitmap_blocks = word_at 4 bs 4, data_area_blocks = word_at 4 bs 5\<rparr>"

section \<open>Disk inode\<close>

datatype DiskInodeType = File | Directory

record DiskInode =
  isize :: u32
  direct :: "u32 list"
  indirect1 :: u32
  indirect2 :: u32
  itype :: DiskInodeType

definition DiskInode_size :: nat where
  [const_defs]: "DiskInode_size = 128"

fun type_byte :: "DiskInodeType \<Rightarrow> u8" where
  "type_byte File = 0"
| "type_byte Directory = 1"

text \<open>Any other byte is not a value of the enum; reading it is undefined behaviour.\<close>

definition byte_type :: "u8 \<Rightarrow> DiskInodeType option" where
  "byte_type b = (if b = 0 then Some File else if b = 1 then Some Directory else None)"

definition DiskInode_decode :: "bytes \<Rightarrow> DiskInode option" where
  "DiskInode_decode bs = do {
     t \<leftarrow> byte_type (bs ! 124);
     Some \<lparr>isize = word_at 4 bs 0, direct = map (\<lambda>i. word_at 4 bs (Suc i)) [0..<28],
           indirect1 = word_at 4 bs 29, indirect2 = word_at 4 bs 30, itype = t\<rparr>
   }"

text \<open>The padding keeps what was there before.\<close>

definition DiskInode_encode :: "DiskInode \<Rightarrow> bytes \<Rightarrow> bytes" where
  "DiskInode_encode ino old =
     bytes_of 4 (isize ino # direct ino @ [indirect1 ino, indirect2 ino]) @
     [type_byte (itype ino)] @ drop 125 old"

definition DiskInode_initialize :: "DiskInodeType \<Rightarrow> DiskInode \<Rightarrow> DiskInode" where
  "DiskInode_initialize t ino =
     ino\<lparr>isize := 0, direct := map (\<lambda>v. 0) (direct ino), indirect1 := 0, indirect2 := 0, itype := t\<rparr>"

definition is_dir :: "DiskInode \<Rightarrow> bool" where
  "is_dir ino \<longleftrightarrow> itype ino = Directory"

definition is_file :: "DiskInode \<Rightarrow> bool" where
  "is_file ino \<longleftrightarrow> itype ino = File"

definition data_blocks_of :: "u32 \<Rightarrow> u32" where
  "data_blocks_of sz = (sz + of_nat BLOCK_SZ - 1) div of_nat BLOCK_SZ"

definition data_blocks :: "DiskInode \<Rightarrow> u32" where
  "data_blocks ino = data_blocks_of (isize ino)"

definition total_blocks :: "u32 \<Rightarrow> u32" where
  "total_blocks sz =
     (let n = unat (data_blocks_of sz);
          t1 = n + (if n > INODE_DIRECT_COUNT then 1 else 0);
          t2 = t1 + (if n > INDIRECT1_BOUND
            then 1 + (n - INDIRECT1_BOUND + INODE_INDIRECT1_COUNT - 1) div INODE_INDIRECT1_COUNT
            else 0)
      in of_nat t2)"

definition blocks_num_needed :: "DiskInode \<Rightarrow> u32 \<Rightarrow> u32 option" where
  "blocks_num_needed ino new_size =
     (if new_size \<ge> isize ino then Some (total_blocks new_size - total_blocks (isize ino)) else None)"

section \<open>Block lookup\<close>

definition read_index :: "'s block_ops \<Rightarrow> nat \<Rightarrow> nat \<Rightarrow> 's \<Rightarrow> (u32 \<times> 's) option" where
  "read_index B bid i s = bc_read B bid 0 BLOCK_SZ
     (\<lambda>bs s1. do { v \<leftarrow> nth_opt (u32s bs) i; Some (v, s1) }) s"

definition get_block_id :: "'s block_ops \<Rightarrow> DiskInode \<Rightarrow> nat \<Rightarrow> 's \<Rightarrow> (u32 \<times> 's) option" where
  "get_block_id B ino inner_id s =
     (if inner_id < INODE_DIRECT_COUNT
      then do { v \<leftarrow> nth_opt (direct ino) inner_id; Some (v, s) }
      else if inner_id < INDIRECT1_BOUND
      then read_index B (unat (indirect1 ino)) (inner_id - INODE_DIRECT_COUNT) s
      else (let last = inner_id - INDIRECT1_BOUND in do {
        (ind1, s1) \<leftarrow> read_index B (unat (indirect2 ino)) (last div INODE_INDIRECT1_COUNT) s;
        read_index B (unat ind1) (last mod INODE_INDIRECT1_COUNT) s1
      }))"

section \<open>Growing an inode\<close>

text \<open>\<^verbatim>\<open>new_blocks.next().unwrap()\<close>\<close>

fun next_block :: "u32 list \<Rightarrow> (u32 \<times> u32 list) option" where
  "next_block [] = None"
| "next_block (b # bs) = Some (b, bs)"

text \<open>The loop \<^verbatim>\<open>while cur < lim\<close> that stores new blocks into consecutive slots of an index.\<close>

function fill_slots :: "nat \<Rightarrow> nat \<Rightarrow> u32 list \<Rightarrow> u32 list \<Rightarrow> (u32 list \<times> u32 list) option" where
  "fill_slots cur lim slots new_blocks =
     (if cur < lim then do {
        (b, rest) \<leftarrow> next_block new_blocks;
        slots' \<leftarrow> upd_opt slots cur b;
        fill_slots (Suc cur) lim slots' rest
      } else Some (slots, new_blocks))"
  by pat_completeness auto
termination
  by (relation "measure (\<lambda>(cur, lim, slots, new_blocks). lim - cur)") auto

declare fill_slots.simps [simp del]

definition fill_index ::
  "'s block_ops \<Rightarrow> nat \<Rightarrow> nat \<Rightarrow> nat \<Rightarrow> u32 list \<Rightarrow> 's \<Rightarrow> (u32 list \<times> 's) option"
where
  "fill_index B bid cur lim new_blocks s = bc_modify B bid 0 BLOCK_SZ
     (\<lambda>bs s1. do {
        (slots, rest) \<leftarrow> fill_slots cur lim (u32s bs) new_blocks;
        Some ((rest, bytes_of 4 slots), s1)
      }) s"

text \<open>
  The loop over the doubly indirect index, from \<open>(a0, b0)\<close> to \<open>(a1, b1)\<close>. Its
  condition alone does not bound \<open>b0\<close>, so it is a partial function: a loop that
  never ends is \<open>None\<close>.
\<close>

partial_function (option) fill_indirect2 ::
  "'s block_ops \<Rightarrow> nat \<Rightarrow> nat \<Rightarrow> nat \<Rightarrow> nat \<Rightarrow> u32 list \<Rightarrow> u32 list \<Rightarrow> 's \<Rightarrow> (u32 list \<times> 's) option"
where
  "fill_indirect2 B a0 b0 a1 b1 ind2 new_blocks s =
     (if a0 < a1 \<or> a0 = a1 \<and> b0 < b1 then do {
        (ind2', nb1) \<leftarrow> (if b0 = 0 then do {
            (b, rest) \<leftarrow> next_block new_blocks;
            ind2' \<leftarrow> upd_opt ind2 a0 b;
            Some (ind2', rest)
          } else Some (ind2, new_blocks));
        e \<leftarrow> nth_opt ind2' a0;
        (b, nb2) \<leftarrow> next_block nb1;
        (u, s1) \<leftarrow> bc_modify B (unat e) 0 BLOCK_SZ
          (\<lambda>bs s1. do { slots \<leftarrow> upd_opt (u32s bs) b0 b; Some (((), bytes_of 4 slots), s1) }) s;
        if Suc b0 = INODE_INDIRECT1_COUNT
        then fill_indirect2 B (Suc a0) 0 a1 b1 ind2' nb2 s1
        else fill_indirect2 B a0 (Suc b0) a1 b1 ind2' nb2 s1
      } else Some (ind2, s))"

definition increase_size ::
  "'s block_ops \<Rightarrow> u32 \<Rightarrow> u32 list \<Rightarrow> DiskInode \<Rightarrow> 's \<Rightarrow> (DiskInode \<times> 's) option"
where
  "increase_size B new_size new_blocks ino s =
     (let current0 = unat (data_blocks ino);
          ino1 = ino\<lparr>isize := new_size\<rparr>;
          total0 = unat (data_blocks ino1);
          lim0 = min total0 INODE_DIRECT_COUNT
      in do {
        (dir', nb1) \<leftarrow> fill_slots current0 lim0 (direct ino1) new_blocks;
        let ino2 = ino1\<lparr>direct := dir'\<rparr>;
        let current1 = max current0 lim0;
        if total0 > INODE_DIRECT_COUNT then do {
          (ind1, nb2) \<leftarrow> (if current1 = INODE_DIRECT_COUNT then next_block nb1
                          else Some (indirect1 ino2, nb1));
          let ino3 = ino2\<lparr>indirect1 := ind1\<rparr>;
          let current2 = current1 - INODE_DIRECT_COUNT;
          let total2 = total0 - INODE_DIRECT_COUNT;
          let lim2 = min total2 INODE_INDIRECT1_COUNT;
          (nb3, s1) \<leftarrow> fill_index B (unat ind1) current2 lim2 nb2 s;
          let current3 = max current2 lim2;
          if total2 > INODE_INDIRECT1_COUNT then do {
            (ind2, nb4) \<leftarrow> (if current3 = INODE_INDIRECT1_COUNT then next_block nb3
                            else Some (indirect2 ino3, nb3));
            let ino4 = ino3\<lparr>indirect2 := ind2\<rparr>;
            let current4 = current3 - INODE_INDIRECT1_COUNT;
            let total4 = total2 - INODE_INDIRECT1_COUNT;
            (u, s2) \<leftarrow> bc_modify B (unat ind2) 0 BLOCK_SZ
              (\<lambda>bs s1. do {
                 (slots, s2) \<leftarrow> fill_indirect2 B
                    (current4 div INODE_INDIRECT1_COUNT) (current4 mod INODE_INDIRECT1_COUNT)
                    (total4 div INODE_INDIRECT1_COUNT) (total4 mod INODE_INDIRECT1_COUNT)
                    (u32s bs) nb4 s1;
                 Some (((), bytes_of 4 slots), s2)
               }) s1;
            Some (ino4, s2)
          } else Some (ino3, s1)
        } else Some (ino2, s)
      })"

section \<open>Clearing an inode\<close>

definition clear_direct :: "nat \<Rightarrow> u32 list \<Rightarrow> u32 list \<times> u32 list" where
  "clear_direct n dir = fold (\<lambda>i (v, dir). (v @ [dir ! i], dir[i := 0])) [0..<n] ([], dir)"

definition read_slots :: "'s block_ops \<Rightarrow> nat \<Rightarrow> nat \<Rightarrow> 's \<Rightarrow> (u32 list \<times> 's) option" where
  "read_slots B bid n s = bc_modify B bid 0 BLOCK_SZ
     (\<lambda>bs s1. Some ((take n (u32s bs), bs), s1)) s"

fun clear_full :: "'s block_ops \<Rightarrow> u32 list \<Rightarrow> u32 list \<Rightarrow> 's \<Rightarrow> (u32 list \<times> 's) option" where
  "clear_full B [] v s = Some (v, s)"
| "clear_full B (entry # entries) v s = do {
     (w, s1) \<leftarrow> read_slots B (unat entry) INODE_INDIRECT1_COUNT s;
     clear_full B entries (v @ entry # w) s1
   }"

definition clear_size :: "'s block_ops \<Rightarrow> DiskInode \<Rightarrow> 's \<Rightarrow> ((u32 list \<times> DiskInode) \<times> 's) option" where
  "clear_size B ino s =
     (let n0 = unat (data_blocks ino);
          ino1 = ino\<lparr>isize := 0\<rparr>;
          (v0, dir') = clear_direct (min n0 INODE_DIRECT_COUNT) (direct ino1);
          ino2 = ino1\<lparr>direct := dir'\<rparr>
      in if n0 > INODE_DIRECT_COUNT then do {
           let n1 = n0 - INODE_DIRECT_COUNT;
           (w, s1) \<leftarrow> read_slots B (unat (indirect1 ino2)) (min n1 INODE_INDIRECT1_COUNT) s;
           let v1 = v0 @ indirect1 ino2 # w;
           let ino3 = ino2\<lparr>indirect1 := 0\<rparr>;
           if n1 > INODE_INDIRECT1_COUNT then do {
             let n2 = n1 - INODE_INDIRECT1_COUNT;
             let v2 = v1 @ [indirect2 ino3];
             if n2 \<le> INODE_INDIRECT2_COUNT then do {
               let a1 = n2 div INODE_INDIRECT1_COUNT;
               let b1 = n2 mod INODE_INDIRECT1_COUNT;
               (v3, s2) \<leftarrow> bc_modify B (unat (indirect2 ino3)) 0 BLOCK_SZ
                 (\<lambda>bs s1. do {
                    let ind2 = u32s bs;
                    (v, s2) \<leftarrow> clear_full B (take a1 ind2) v2 s1;
                    (v', s3) \<leftarrow> (if b1 > 0 then do {
                        e \<leftarrow> nth_opt ind2 a1;
                        (w, s3) \<leftarrow> read_slots B (unat e) b1 s2;
                        Some (v @ e # w, s3)
                      } else Some (v, s2));
                    Some ((v', bs), s3)
                  }) s1;
               Some ((v3, ino3\<lparr>indirect2 := 0\<rparr>), s2)
             } else None
           } else Some ((v1, ino3), s1)
         } else Some ((v0, ino2), s))"

section \<open>Reading and writing the contents\<close>

text \<open>\<^verbatim>\<open>&xs[a..a + n]\<close>\<close>

definition sub_slice :: "'a list \<Rightarrow> nat \<Rightarrow> nat \<Rightarrow> 'a list option" where
  "sub_slice xs a n = (if a + n \<le> length xs then Some (buf_get a n xs) else None)"

function read_loop ::
  "'s block_ops \<Rightarrow> DiskInode \<Rightarrow> nat \<Rightarrow> nat \<Rightarrow> nat \<Rightarrow> nat \<Rightarrow> bytes \<Rightarrow> 's \<Rightarrow> ((nat \<times> bytes) \<times> 's) option"
where
  "read_loop B ino start_pos end_pos start_block read_size buf s =
     (let end_current = min ((start_pos div BLOCK_SZ + 1) * BLOCK_SZ) end_pos;
          n = end_current - start_pos
      in do {
        dst \<leftarrow> sub_slice buf read_size n;
        (bid, s1) \<leftarrow> get_block_id B ino start_block s;
        (src, s2) \<leftarrow> bc_read B (unat bid) 0 BLOCK_SZ
          (\<lambda>bs s2. do { src \<leftarrow> sub_slice bs (start_pos mod BLOCK_SZ) n; Some (src, s2) }) s1;
        let buf' = buf_put read_size src buf;
        let read_size' = read_size + n;
        if end_current = end_pos then Some ((read_size', buf'), s2)
        else read_loop B ino end_current end_pos (Suc start_block) read_size' buf' s2
      })"
  by pat_completeness auto
termination
  by (relation "measure (\<lambda>(B, ino, start_pos, end_pos, start_block, read_size, buf, s). end_pos - start_pos)")
     (auto simp: const_defs min_def split: if_splits)

declare read_loop.simps [simp del]

definition DiskInode_read_at ::
  "'s block_ops \<Rightarrow> DiskInode \<Rightarrow> nat \<Rightarrow> bytes \<Rightarrow> 's \<Rightarrow> ((nat \<times> bytes) \<times> 's) option"
where
  "DiskInode_read_at B ino offset buf s =
     (let end_pos = min (offset + length buf) (unat (isize ino))
      in if offset \<ge> end_pos then Some ((0, buf), s)
         else read_loop B ino offset end_pos (offset div BLOCK_SZ) 0 buf s)"

function write_loop ::
  "'s block_ops \<Rightarrow> DiskInode \<Rightarrow> nat \<Rightarrow> nat \<Rightarrow> nat \<Rightarrow> nat \<Rightarrow> bytes \<Rightarrow> 's \<Rightarrow> (nat \<times> 's) option"
where
  "write_loop B ino start_pos end_pos start_block write_size buf s =
     (let end_current = min ((start_pos div BLOCK_SZ + 1) * BLOCK_SZ) end_pos;
          n = end_current - start_pos
      in do {
        (bid, s1) \<leftarrow> get_block_id B ino start_block s;
        (u, s2) \<leftarrow> bc_modify B (unat bid) 0 BLOCK_SZ
          (\<lambda>bs s2. do {
             src \<leftarrow> sub_slice buf write_size n;
             dst \<leftarrow> sub_slice bs (start_pos mod BLOCK_SZ) n;
             Some (((), buf_put (start_pos mod BLOCK_SZ) src bs), s2)
           }) s1;
        let write_size' = write_size + n;
        if end_current = end_pos then Some (write_size', s2)
        else write_loop B ino end_current end_pos (Suc start_block) write_size' buf s2
      })"
  by pat_completeness auto
termination
  by (relation "measure (\<lambda>(B, ino, start_pos, end_pos, start_block, write_size, buf, s). end_pos - start_pos)")
     (auto simp: const_defs min_def split: if_splits)

declare write_loop.simps [simp del]

definition DiskInode_write_at ::
  "'s block_ops \<Rightarrow> DiskInode \<Rightarrow> nat \<Rightarrow> bytes \<Rightarrow> 's \<Rightarrow> (nat \<times> 's) option"
where
  "DiskInode_write_at B ino offset buf s =
     (let end_pos = min (offset + length buf) (unat (isize ino))
      in if offset \<le> end_pos
         then write_loop B ino offset end_pos (offset div BLOCK_SZ) 0 buf s
         else None)"

end
