(* ===== verification/InodeBlocks.thy ===== *)
theory InodeBlocks
  imports Layout "HOL-Library.Multiset"
begin

text \<open>
  The blocks of an inode and the operations that look them up, allocate and
  release them.

  \<open>inode_cells d ino n\<close> is the list of all blocks of an inode with \<open>n\<close> data blocks
  on a disk \<open>d\<close>, index blocks included, in allocation order; \<open>inode_data\<close> lists its
  data blocks and \<open>inode_meta\<close> its index blocks. The lemmas of the locale show what
  \<^verbatim>\<open>get_block_id\<close>, \<^verbatim>\<open>increase_size\<close> and \<^verbatim>\<open>clear_size\<close> do in these terms, for any block
  store that meets the contract.
\<close>

section \<open>Definitions\<close>

definition slots :: "(nat \<Rightarrow> bytes) \<Rightarrow> u32 \<Rightarrow> u32 list" where
  "slots d b = u32s (d (unat b))"

definition cell2 :: "u32 list \<Rightarrow> (u32 \<Rightarrow> u32 list) \<Rightarrow> nat \<Rightarrow> u32 list" where
  "cell2 e2 sub m = (if m mod 128 = 0 then [e2 ! (m div 128)] else []) @
     [sub (e2 ! (m div 128)) ! (m mod 128)]"

definition cells2 :: "u32 list \<Rightarrow> (u32 \<Rightarrow> u32 list) \<Rightarrow> nat \<Rightarrow> u32 list" where
  "cells2 e2 sub m = concat (map (cell2 e2 sub) [0..<m])"

definition data2 :: "u32 list \<Rightarrow> (u32 \<Rightarrow> u32 list) \<Rightarrow> nat \<Rightarrow> u32 list" where
  "data2 e2 sub m = map (\<lambda>j. sub (e2 ! (j div 128)) ! (j mod 128)) [0..<m]"

definition n_subs :: "nat \<Rightarrow> nat" where
  "n_subs m = (m + 127) div 128"

definition inode_cells :: "(nat \<Rightarrow> bytes) \<Rightarrow> DiskInode \<Rightarrow> nat \<Rightarrow> u32 list" where
  "inode_cells d ino n = take n (direct ino) @
     (if n > 28 then indirect1 ino # take (n - 28) (slots d (indirect1 ino)) else []) @
     (if n > 156 then indirect2 ino # cells2 (slots d (indirect2 ino)) (slots d) (n - 156) else [])"

definition inode_data :: "(nat \<Rightarrow> bytes) \<Rightarrow> DiskInode \<Rightarrow> nat \<Rightarrow> u32 list" where
  "inode_data d ino n = take n (direct ino) @
     (if n > 28 then take (n - 28) (slots d (indirect1 ino)) else []) @
     (if n > 156 then data2 (slots d (indirect2 ino)) (slots d) (n - 156) else [])"

definition inode_meta :: "(nat \<Rightarrow> bytes) \<Rightarrow> DiskInode \<Rightarrow> nat \<Rightarrow> u32 list" where
  "inode_meta d ino n = (if n > 28 then [indirect1 ino] else []) @
     (if n > 156 then indirect2 ino # take (n_subs (n - 156)) (slots d (indirect2 ino)) else [])"

definition n_cells :: "nat \<Rightarrow> nat" where
  "n_cells n = n + (if n > 28 then 1 else 0) + (if n > 156 then 1 + n_subs (n - 156) else 0)"

text \<open>The position of data block \<open>i\<close> among the cells.\<close>

definition cell_pos :: "nat \<Rightarrow> nat" where
  "cell_pos i = (if i < 28 then i else if i < 156 then i + 1 else i + 3 + (i - 156) div 128)"

definition disk_ok :: "nat \<Rightarrow> (nat \<Rightarrow> bytes) \<Rightarrow> bool" where
  "disk_ok N d \<longleftrightarrow> (\<forall>b<N. length (d b) = BLOCK_SZ)"

text \<open>
  An inode with \<open>n\<close> data blocks is well formed on a disk of \<open>N\<close> blocks when its
  blocks are pairwise different and lie on the disk.
\<close>

definition inode_ok :: "nat \<Rightarrow> (nat \<Rightarrow> bytes) \<Rightarrow> DiskInode \<Rightarrow> nat \<Rightarrow> bool" where
  "inode_ok N d ino n \<longleftrightarrow> disk_ok N d \<and> length (direct ino) = 28 \<and> n \<le> INDIRECT2_BOUND \<and>
     distinct (inode_cells d ino n) \<and> (\<forall>b \<in> set (inode_cells d ino n). unat b < N)"

section \<open>Numbers\<close>

lemma layout_consts [simp]:
  "BLOCK_SZ = 512" "INODE_DIRECT_COUNT = 28" "INODE_INDIRECT1_COUNT = 128"
  "INODE_INDIRECT2_COUNT = 16384" "DIRECT_BOUND = 28" "INDIRECT1_BOUND = 156"
  "INDIRECT2_BOUND = 16540" "BLOCK_CACHE_SIZE = 16" "DiskInode_size = 128" "SuperBlock_size = 24"
  by (simp_all add: const_defs)

lemma n_subs_0 [simp]: "n_subs 0 = 0"
  by (simp add: n_subs_def)

lemma n_subs_Suc: "n_subs (Suc m) = n_subs m + (if m mod 128 = 0 then 1 else 0)"
proof -
  have "Suc m + 127 = Suc (m + 127)" by simp
  then have "n_subs (Suc m) = (if Suc (m + 127) mod 128 = 0 then Suc (n_subs m) else n_subs m)"
    unfolding n_subs_def by (simp only: div_Suc)
  moreover have "Suc (m + 127) mod 128 = m mod 128" by simp
  ultimately show ?thesis by simp
qed

lemma n_subs_le: "m \<le> 16384 \<Longrightarrow> n_subs m \<le> 128"
proof -
  assume "m \<le> 16384"
  then have "(m + 127) div 128 \<le> (16384 + 127) div 128" by (intro div_le_mono) simp
  then show ?thesis by (simp add: n_subs_def)
qed

lemma n_subs_gt: "m < n \<Longrightarrow> m div 128 < n_subs n"
proof -
  assume "m < n"
  then have "(m + 128) div 128 \<le> (n + 127) div 128" by (intro div_le_mono) simp
  then show ?thesis by (simp add: n_subs_def)
qed

lemma data_blocks_of_exact:
  assumes "unat sz + 511 < 2 ^ 32"
  shows "unat (data_blocks_of sz) = (unat sz + 511) div 512"
proof -
  have "sz + of_nat BLOCK_SZ - 1 = 511 + sz" by (simp add: algebra_simps)
  moreover have "unat (511 + sz) = unat sz + 511"
    using assms by (simp add: unat_word_ariths)
  ultimately show ?thesis by (simp add: data_blocks_of_def unat_div)
qed

lemma total_blocks_cells: "total_blocks sz = of_nat (n_cells (unat (data_blocks_of sz)))"
proof -
  have "n - 156 + 128 - 1 = n - 156 + 127" for n :: nat by simp
  then show ?thesis
    by (simp only: total_blocks_def n_cells_def n_subs_def Let_def layout_consts)
qed

lemma n_cells_le: "n \<le> 16540 \<Longrightarrow> n_cells n \<le> 16670"
proof -
  assume n: "n \<le> 16540"
  then have "n_subs (n - 156) \<le> 128" by (intro n_subs_le) simp
  with n show ?thesis by (simp add: n_cells_def)
qed

lemma data_blocks_of_le: "unat sz \<le> 16540 * 512 \<Longrightarrow> unat (data_blocks_of sz) \<le> 16540"
proof -
  assume sz: "unat sz \<le> 16540 * 512"
  then have "(unat sz + 511) div 512 \<le> (16540 * 512 + 511) div 512"
    by (intro div_le_mono) simp
  then show ?thesis using sz by (simp add: data_blocks_of_exact)
qed

lemma total_blocks_exact:
  assumes "unat sz \<le> 16540 * 512"
  shows "unat (total_blocks sz) = n_cells (unat (data_blocks_of sz))"
  using n_cells_le [OF data_blocks_of_le [OF assms]]
  by (simp add: total_blocks_cells unat_of_nat take_bit_nat_eq_self)

section \<open>Lists of cells\<close>

lemma cells2_0 [simp]: "cells2 e2 sub 0 = []"
  by (simp add: cells2_def)

lemma cells2_Suc: "cells2 e2 sub (Suc m) = cells2 e2 sub m @ cell2 e2 sub m"
  by (simp add: cells2_def)

lemma length_cell2 [simp]: "length (cell2 e2 sub m) = (if m mod 128 = 0 then 2 else 1)"
  by (simp add: cell2_def)

lemma length_cells2 [simp]: "length (cells2 e2 sub m) = m + n_subs m"
  by (induction m) (auto simp: cells2_Suc n_subs_Suc)

lemma length_data2 [simp]: "length (data2 e2 sub m) = m"
  by (simp add: data2_def)

lemma data2_Suc: "data2 e2 sub (Suc m) = data2 e2 sub m @ [sub (e2 ! (m div 128)) ! (m mod 128)]"
  by (simp add: data2_def)

lemma n_subs_mod_0: "m mod 128 = 0 \<Longrightarrow> n_subs m = m div 128"
proof -
  assume "m mod 128 = 0"
  then have "128 * (m div 128) = m" using mult_div_mod_eq [of 128 m] by simp
  then show ?thesis unfolding n_subs_def by (intro div_nat_eqI) simp_all
qed

lemma n_subs_mod_pos: "m mod 128 \<noteq> 0 \<Longrightarrow> n_subs m = Suc (m div 128)"
proof -
  assume nz: "m mod 128 \<noteq> 0"
  define q r where "q = m div 128" and "r = m mod 128"
  have m: "m = 128 * q + r" and r: "0 < r" "r < 128"
    using nz by (simp_all add: q_def r_def)
  have "128 * Suc q \<le> m + 127" using m r(1) by simp
  moreover have "m + 127 < 128 * Suc (Suc q)" using m r(2) by simp
  ultimately have "(m + 127) div 128 = Suc q" by (intro div_nat_eqI)
  then show ?thesis by (simp add: n_subs_def q_def)
qed

lemma mset_cells2:
  "n_subs m \<le> length e2 \<Longrightarrow> mset (cells2 e2 sub m) = mset (take (n_subs m) e2) + mset (data2 e2 sub m)"
proof (induction m)
  case 0
  then show ?case by (simp add: data2_def)
next
  case (Suc m)
  show ?case
  proof (cases "m mod 128 = 0")
    case True
    then have "n_subs m = m div 128" by (rule n_subs_mod_0)
    with Suc True show ?thesis
      by (simp add: cells2_Suc data2_Suc n_subs_Suc cell2_def take_Suc_conv_app_nth)
  next
    case False
    with Suc show ?thesis by (simp add: cells2_Suc data2_Suc n_subs_Suc cell2_def)
  qed
qed

lemma nth_cells2:
  "j < m \<Longrightarrow> cells2 e2 sub m ! (j + 1 + j div 128) = sub (e2 ! (j div 128)) ! (j mod 128)"
proof (induction m)
  case 0
  then show ?case by simp
next
  case (Suc m)
  show ?case
  proof (cases "j < m")
    case True
    then have "j + 1 + j div 128 < m + n_subs m"
      using n_subs_gt [OF True] by linarith
    with Suc True show ?thesis by (simp add: cells2_Suc nth_append)
  next
    case False
    with Suc.prems have j: "j = m" by simp
    show ?thesis
      by (cases "m mod 128 = 0")
         (simp_all add: j cells2_Suc nth_append cell2_def n_subs_mod_0 n_subs_mod_pos)
  qed
qed

text \<open>The cells of full second-level blocks, and of a last one that is partly used.\<close>

lemma cells2_blocks:
  assumes "\<And>k. k < a \<Longrightarrow> length (sub (e2 ! k)) = 128"
  shows "cells2 e2 sub (a * 128) = concat (map (\<lambda>k. e2 ! k # sub (e2 ! k)) [0..<a])"
    and "b \<le> 128 \<Longrightarrow> length (sub (e2 ! a)) = 128 \<Longrightarrow>
      cells2 e2 sub (a * 128 + b) = cells2 e2 sub (a * 128) @
        (if b > 0 then e2 ! a # take b (sub (e2 ! a)) else [])"
proof -
  have part: "cells2 e2 sub (a * 128 + b) = cells2 e2 sub (a * 128) @
      (if b > 0 then e2 ! a # take b (sub (e2 ! a)) else [])"
    if "b \<le> 128" and "length (sub (e2 ! a)) = 128" for a b
    using that
  proof (induction b)
    case 0
    then show ?case by simp
  next
    case (Suc b)
    then have "cell2 e2 sub (a * 128 + b) = (if b = 0 then [e2 ! a] else []) @ [sub (e2 ! a) ! b]"
      by (auto simp: cell2_def)
    with Suc show ?case by (auto simp: cells2_Suc take_Suc_conv_app_nth)
  qed
  show "cells2 e2 sub (a * 128) = concat (map (\<lambda>k. e2 ! k # sub (e2 ! k)) [0..<a])"
    using assms
  proof (induction a)
    case 0
    then show ?case by simp
  next
    case (Suc a)
    have "cells2 e2 sub (Suc a * 128) = cells2 e2 sub (a * 128 + 128)" by (simp add: add.commute)
    also have "\<dots> = cells2 e2 sub (a * 128) @ e2 ! a # take 128 (sub (e2 ! a))"
      using part [of 128 a] Suc.prems by simp
    finally show ?case using Suc by simp
  qed
  show "b \<le> 128 \<Longrightarrow> length (sub (e2 ! a)) = 128 \<Longrightarrow>
      cells2 e2 sub (a * 128 + b) = cells2 e2 sub (a * 128) @
        (if b > 0 then e2 ! a # take b (sub (e2 ! a)) else [])"
    by (rule part)
qed

lemma cells2_cong:
  assumes "\<And>j. j < m \<Longrightarrow> e2 ! (j div 128) = e2' ! (j div 128)"
    and "\<And>j. j < m \<Longrightarrow> sub (e2 ! (j div 128)) ! (j mod 128) = sub' (e2 ! (j div 128)) ! (j mod 128)"
  shows "cells2 e2 sub m = cells2 e2' sub' m"
proof -
  have "map (cell2 e2 sub) [0..<m] = map (cell2 e2' sub') [0..<m]"
    using assms by (auto simp: cell2_def)
  then show ?thesis by (simp only: cells2_def)
qed

section \<open>Well-formed inodes\<close>

lemma length_slots: "disk_ok N d \<Longrightarrow> unat b < N \<Longrightarrow> length (slots d b) = 128"
  by (simp add: slots_def disk_ok_def)

lemma slots_set_slot:
  "slots (d(unat e := bytes_of 4 sl)) c = (if c = e then sl else slots d c)"
  by (auto simp: slots_def)

lemma inode_okD:
  assumes "inode_ok N d ino n"
  shows "length (direct ino) = 28" and "n \<le> 16540" and "disk_ok N d"
    and "n > 28 \<Longrightarrow> unat (indirect1 ino) < N" and "n > 156 \<Longrightarrow> unat (indirect2 ino) < N"
    and "distinct (inode_cells d ino n)"
    and "b \<in> set (inode_cells d ino n) \<Longrightarrow> unat b < N"
  using assms by (auto simp: inode_ok_def inode_cells_def)

lemma inode_ok_slots:
  assumes "inode_ok N d ino n"
  shows "n > 28 \<Longrightarrow> length (slots d (indirect1 ino)) = 128"
    and "n > 156 \<Longrightarrow> length (slots d (indirect2 ino)) = 128"
    and "n > 156 \<Longrightarrow> n_subs (n - 156) \<le> 128"
  using inode_okD [OF assms] by (auto intro: length_slots n_subs_le)

lemma mset_inode_cells:
  assumes "inode_ok N d ino n"
  shows "mset (inode_cells d ino n) = mset (inode_meta d ino n) + mset (inode_data d ino n)"
  using inode_ok_slots [OF assms]
  by (auto simp: inode_cells_def inode_meta_def inode_data_def mset_cells2)

lemma set_inode_cells:
  assumes "inode_ok N d ino n"
  shows "set (inode_cells d ino n) = set (inode_meta d ino n) \<union> set (inode_data d ino n)"
  using mset_inode_cells [OF assms] by (metis set_mset_mset set_mset_union)

lemma inode_data_distinct:
  assumes "inode_ok N d ino n"
  shows "distinct (inode_data d ino n)" and "set (inode_meta d ino n) \<inter> set (inode_data d ino n) = {}"
proof -
  have "mset (inode_cells d ino n) = mset (inode_meta d ino n @ inode_data d ino n)"
    using mset_inode_cells [OF assms] by simp
  then have "distinct (inode_meta d ino n @ inode_data d ino n)"
    using inode_okD(6) [OF assms] mset_eq_imp_distinct_iff by blast
  then show "distinct (inode_data d ino n)" and
    "set (inode_meta d ino n) \<inter> set (inode_data d ino n) = {}" by auto
qed

lemma length_inode_cells:
  assumes "inode_ok N d ino n"
  shows "length (inode_cells d ino n) = n_cells n"
  using inode_okD [OF assms] inode_ok_slots [OF assms]
  by (auto simp: inode_cells_def n_cells_def)

lemma length_inode_data:
  assumes "inode_ok N d ino n"
  shows "length (inode_data d ino n) = n"
  using inode_okD [OF assms] inode_ok_slots [OF assms]
  by (auto simp: inode_data_def)

lemma nth_inode_data:
  assumes "inode_ok N d ino n" and "i < n"
  shows "inode_data d ino n ! i =
    (if i < 28 then direct ino ! i
     else if i < 156 then slots d (indirect1 ino) ! (i - 28)
     else slots d (slots d (indirect2 ino) ! ((i - 156) div 128)) ! ((i - 156) mod 128))"
  using inode_okD [OF assms(1)] inode_ok_slots [OF assms(1)] assms(2)
  by (auto simp: inode_data_def nth_append data2_def)

lemma nth_inode_cells:
  assumes "inode_ok N d ino n" and "i < n"
  shows "inode_cells d ino n ! cell_pos i = inode_data d ino n ! i"
proof -
  have dir: "length (direct ino) = 28" using inode_okD [OF assms(1)] by simp
  note lens = inode_ok_slots [OF assms(1)]
  consider "i < 28" | "28 \<le> i" "i < 156" | "156 \<le> i" by linarith
  then show ?thesis
  proof cases
    case 1
    with assms(2) dir show ?thesis
      by (simp add: nth_inode_data [OF assms]) (simp add: inode_cells_def cell_pos_def nth_append)
  next
    case 2
    then have "i - 28 < 128" "i - 28 < n - 28" using assms(2) by auto
    with 2 assms(2) dir lens show ?thesis
      by (simp add: nth_inode_data [OF assms])
         (simp add: inode_cells_def cell_pos_def nth_append nth_Cons')
  next
    case 3
    let ?j = "i - 156"
    have "i = 156 + ?j" using 3 by simp
    then obtain j where j: "i = 156 + j" by metis
    have "inode_cells d ino n ! cell_pos i =
        cells2 (slots d (indirect2 ino)) (slots d) (n - 156) ! (?j + 1 + ?j div 128)"
      using j assms(2) dir lens
      by (simp add: inode_cells_def cell_pos_def nth_append nth_Cons')
    also have "\<dots> = slots d (slots d (indirect2 ino) ! (?j div 128)) ! (?j mod 128)"
      using 3 assms(2) by (intro nth_cells2) simp
    finally show ?thesis using 3 assms by (simp add: nth_inode_data [OF assms])
  qed
qed

lemma cell_pos_less:
  assumes "i < n"
  shows "cell_pos i < n_cells n"
proof (cases "i < 156")
  case True
  with assms show ?thesis by (auto simp: cell_pos_def n_cells_def)
next
  case False
  with assms have "(i - 156) div 128 < n_subs (n - 156)" by (intro n_subs_gt) simp
  with False assms show ?thesis by (simp add: cell_pos_def n_cells_def)
qed

end
