(* ===== verification/Bitmap.thy ===== *)
theory Bitmap
  imports BlockStore InodeBlocks
begin

text \<open>
  The bitmap allocator (\<^verbatim>\<open>easy-fs/src/bitmap.rs\<close>). A bitmap is a run of blocks, each
  read as 64 words of 64 bits. \<open>bm_used d bm\<close> is the set of allocated bits on a
  disk \<open>d\<close>: allocation adds the least free bit, releasing removes a used one, and
  neither changes anything else on the disk.
\<close>

unbundle bit_operations_syntax

section \<open>Definitions\<close>

definition BLOCK_BITS :: nat where
  [const_defs]: "BLOCK_BITS = BLOCK_SZ * 8"

record Bitmap =
  start_block_id :: nat
  bm_blocks :: nat

definition Bitmap_new :: "nat \<Rightarrow> nat \<Rightarrow> Bitmap" where
  "Bitmap_new start blocks = \<lparr>start_block_id = start, bm_blocks = blocks\<rparr>"

definition decomposition :: "nat \<Rightarrow> nat \<times> nat \<times> nat" where
  "decomposition k =
     (let block_pos = k div BLOCK_BITS; k' = k mod BLOCK_BITS in (block_pos, k' div 64, k' mod 64))"

definition trailing_ones :: "u64 \<Rightarrow> nat" where
  "trailing_ones w = (case find_idx (\<lambda>i. \<not> bit w i) [0..<64] of Some i \<Rightarrow> i | None \<Rightarrow> 64)"

definition alloc_in_block :: "nat \<Rightarrow> u64 list \<Rightarrow> nat option \<times> u64 list" where
  "alloc_in_block block_id bitmap_block =
     (case find_idx (\<lambda>bits64. bits64 \<noteq> - 1) bitmap_block of
        Some bits64_pos \<Rightarrow>
          (let inner_pos = trailing_ones (bitmap_block ! bits64_pos)
           in (Some (block_id * BLOCK_BITS + bits64_pos * 64 + inner_pos),
               bitmap_block[bits64_pos := bitmap_block ! bits64_pos OR push_bit inner_pos 1]))
      | None \<Rightarrow> (None, bitmap_block))"

fun alloc_from :: "'s block_ops \<Rightarrow> Bitmap \<Rightarrow> nat list \<Rightarrow> 's \<Rightarrow> (nat option \<times> 's) option" where
  "alloc_from B bm [] s = Some (None, s)"
| "alloc_from B bm (block_id # ids) s = do {
     (pos, s1) \<leftarrow> bc_modify B (block_id + start_block_id bm) 0 BLOCK_SZ
       (\<lambda>bs s1. let (pos, bits') = alloc_in_block block_id (u64s bs)
                in Some ((pos, bytes_of 8 bits'), s1)) s;
     if pos \<noteq> None then Some (pos, s1) else alloc_from B bm ids s1
   }"

definition Bitmap_alloc :: "'s block_ops \<Rightarrow> Bitmap \<Rightarrow> 's \<Rightarrow> (nat option \<times> 's) option" where
  "Bitmap_alloc B bm s = alloc_from B bm [0..<bm_blocks bm] s"

definition Bitmap_dealloc :: "'s block_ops \<Rightarrow> Bitmap \<Rightarrow> nat \<Rightarrow> 's \<Rightarrow> (unit \<times> 's) option" where
  "Bitmap_dealloc B bm k s =
     (let (block_pos, bits64_pos, inner_pos) = decomposition k
      in bc_modify B (block_pos + start_block_id bm) 0 BLOCK_SZ
        (\<lambda>bs s1. do {
           w \<leftarrow> nth_opt (u64s bs) bits64_pos;
           if w AND push_bit inner_pos 1 > 0
           then Some (((), bytes_of 8 ((u64s bs)[bits64_pos := w - push_bit inner_pos 1])), s1)
           else None
         }) s)"

definition Bitmap_maximum :: "Bitmap \<Rightarrow> nat" where
  "Bitmap_maximum bm = bm_blocks bm * BLOCK_BITS"

section \<open>The set of used bits\<close>

definition block_bit :: "u64 list \<Rightarrow> nat \<Rightarrow> bool" where
  "block_bit ws p = bit (ws ! (p div 64)) (p mod 64)"

definition bm_used :: "(nat \<Rightarrow> bytes) \<Rightarrow> Bitmap \<Rightarrow> nat set" where
  "bm_used d bm = {k. k < Bitmap_maximum bm \<and> block_bit (u64s (d (start_block_id bm + k div 4096))) (k mod 4096)}"

lemma BLOCK_BITS_eq [simp]: "BLOCK_BITS = 4096"
  by (simp add: const_defs)

lemma decomposition_eq: "decomposition k = (k div 4096, k mod 4096 div 64, k mod 64)"
  by (simp add: decomposition_def mod_mod_cancel)

lemma decomposition_compose:
  "decomposition (a * 4096 + b * 64 + c) = (a, b, c)" if "b < 64" and "c < 64"
proof -
  have lt: "b * 64 + c < 4096" using that by simp
  have "(a * 4096 + (b * 64 + c)) div 4096 = a" "(a * 4096 + (b * 64 + c)) mod 4096 = b * 64 + c"
    using lt by simp_all
  moreover have "(b * 64 + c) div 64 = b" "(b * 64 + c) mod 64 = c" using that(2) by simp_all
  ultimately show ?thesis by (simp add: decomposition_def add.assoc)
qed

section \<open>Words\<close>

lemma trailing_ones_spec:
  assumes "w \<noteq> - 1"
  shows "trailing_ones w < 64" and "\<not> bit w (trailing_ones w)" and "\<And>i. i < trailing_ones w \<Longrightarrow> bit w i"
proof -
  have "\<exists>i\<in>set [0..<64]. \<not> bit w i"
    using assms by (auto simp: bit_eq_iff)
  then obtain i where i: "find_idx (\<lambda>i. \<not> bit w i) [0..<64] = Some i"
    using find_idx_None_iff [of "\<lambda>i. \<not> bit w i" "[0..<64]"] by (cases "find_idx (\<lambda>i. \<not> bit w i) [0..<64]") auto
  then have t: "trailing_ones w = i" by (simp add: trailing_ones_def)
  from find_idx_SomeD [OF i] show "trailing_ones w < 64" "\<not> bit w (trailing_ones w)"
    "\<And>i. i < trailing_ones w \<Longrightarrow> bit w i"
    by (auto simp: t)
qed

lemma bit_set_one: "bit (w OR 2 ^ j) i \<longleftrightarrow> bit w i \<or> i = j \<and> j < 64" for w :: u64
  by (auto simp: bit_simps dest: bit_imp_le_length)

lemma bit_clear_one: "bit w j \<Longrightarrow> bit (w - 2 ^ j) i \<longleftrightarrow> bit w i \<and> i \<noteq> j" for w :: u64
proof -
  assume "bit w j"
  then have "w - 2 ^ j = unset_bit j w" by (simp add: unset_bit_eq)
  then show ?thesis by (auto simp: bit_unset_bit_iff)
qed

lemma and_one_pos: "w AND 2 ^ j > 0 \<longleftrightarrow> bit w j" for w :: u64
  using and_exp_eq_0_iff_not_bit [of w j] by (simp add: word_gt_0)

section \<open>One block\<close>

lemma block_bit_upd:
  assumes "length ws = 64" and "i < 64" and "q < 4096"
  shows "block_bit (ws[i := v]) q \<longleftrightarrow> (if q div 64 = i then bit v (q mod 64) else block_bit ws q)"
  using assms by (auto simp: block_bit_def nth_list_update)

lemma alloc_in_block_None:
  assumes "length ws = 64" and "alloc_in_block a ws = (None, ws')"
  shows "ws' = ws" and "p < 4096 \<Longrightarrow> block_bit ws p"
proof -
  have none: "find_idx (\<lambda>w. w \<noteq> - 1) ws = None" and "ws' = ws"
    using assms(2) by (auto simp: alloc_in_block_def Let_def split: option.splits)
  then show "ws' = ws" by simp
  assume "p < 4096"
  then have "p div 64 < length ws" using assms(1) by (simp add: div_less_iff_less_mult)
  then have "ws ! (p div 64) = - 1" using none by (simp add: find_idx_None_iff)
  then show "block_bit ws p" by (simp add: block_bit_def)
qed

lemma alloc_in_block_Some:
  assumes len: "length ws = 64" and "alloc_in_block a ws = (Some k, ws')"
  obtains p where "p < 4096" and "k = a * 4096 + p" and "\<not> block_bit ws p" and "\<forall>q<p. block_bit ws q"
    and "length ws' = 64" and "\<forall>q<4096. block_bit ws' q \<longleftrightarrow> block_bit ws q \<or> q = p"
proof -
  obtain i where i: "find_idx (\<lambda>w. w \<noteq> - 1) ws = Some i"
    and k: "k = a * 4096 + i * 64 + trailing_ones (ws ! i)"
    and ws': "ws' = ws[i := ws ! i OR push_bit (trailing_ones (ws ! i)) 1]"
    using assms(2) by (auto simp: alloc_in_block_def Let_def split: option.splits)
  let ?j = "trailing_ones (ws ! i)"
  have i_lt: "i < 64" and max: "ws ! i \<noteq> - 1" and full: "\<forall>j<i. ws ! j = - 1"
    using find_idx_SomeD [OF i] len by auto
  note ones = trailing_ones_spec [OF max]
  let ?p = "i * 64 + ?j"
  have p: "?p div 64 = i" "?p mod 64 = ?j" "?p < 4096" using ones(1) i_lt by simp_all
  show ?thesis
  proof (rule that [of ?p])
    show "\<not> block_bit ws ?p" unfolding block_bit_def p(1,2) by (rule ones(2))
    show "\<forall>q<?p. block_bit ws q"
    proof (intro allI impI)
      fix q assume q: "q < ?p"
      then have "q div 64 \<le> i" using p(1) by (metis div_le_mono less_imp_le)
      then consider "q div 64 < i" | "q div 64 = i" "q mod 64 < ?j"
        using q p(1,2) by (metis div_mult_mod_eq nat_add_left_cancel_less le_neq_implies_less)
      then show "block_bit ws q"
        by cases (use full ones(3) in \<open>simp_all add: block_bit_def\<close>)
    qed
    show "\<forall>q<4096. block_bit ws' q \<longleftrightarrow> block_bit ws q \<or> q = ?p"
    proof (intro allI impI)
      fix q :: nat assume q: "q < 4096"
      have "q = ?p \<longleftrightarrow> q div 64 = i \<and> q mod 64 = ?j" using p(1,2) div_mult_mod_eq [of q 64] by metis
      then show "block_bit ws' q \<longleftrightarrow> block_bit ws q \<or> q = ?p"
        using ones(1) block_bit_upd [OF len i_lt q] by (auto simp: ws' bit_set_one block_bit_def)
    qed
  qed (use k p(3) len in \<open>simp_all add: ws'\<close>)
qed

section \<open>Allocation and release\<close>

lemma bm_used_upd:
  assumes "i < bm_blocks bm" and "length ws' = 64"
    and "\<forall>q<4096. block_bit ws' q \<longleftrightarrow> (if q = p then v else block_bit (u64s (d (start_block_id bm + i))) q)" and "p < 4096"
  shows "bm_used (d(start_block_id bm + i := bytes_of 8 ws')) bm =
    (if v then insert (i * 4096 + p) (bm_used d bm) else bm_used d bm - {i * 4096 + p})"
proof -
  let ?d = "d(start_block_id bm + i := bytes_of 8 ws')"
  have eq: "k = i * 4096 + p \<longleftrightarrow> k div 4096 = i \<and> k mod 4096 = p" for k
    using assms(4) div_mult_mod_eq [of k 4096] by auto
  have "i * 4096 + p < Bitmap_maximum bm"
  proof -
    have "i * 4096 + 4096 \<le> bm_blocks bm * 4096" using assms(1) by (simp add: Suc_leI flip: mult_Suc)
    with assms(4) show ?thesis by (simp add: Bitmap_maximum_def)
  qed
  moreover have "block_bit (u64s (?d (start_block_id bm + k div 4096))) (k mod 4096) \<longleftrightarrow>
      (if k = i * 4096 + p then v else block_bit (u64s (d (start_block_id bm + k div 4096))) (k mod 4096))" for k
    using assms(3) eq [of k] by (cases "k div 4096 = i") auto
  ultimately show ?thesis unfolding bm_used_def by (auto split: if_splits)
qed

lemma bm_max: "i < bm_blocks bm \<Longrightarrow> p < 4096 \<Longrightarrow> i * 4096 + p < Bitmap_maximum bm"
  using mult_le_mono1 [of "Suc i" "bm_blocks bm" 4096] by (simp add: Bitmap_maximum_def)

context block_store
begin

lemma alloc_step_returns:
  assumes inv: "inv s" and i: "i < bm_blocks bm" and dev: "start_block_id bm + i < n_blocks"
    and held: "start_block_id bm + i \<notin> held s" and room: "card (held s) < 16"
    and full: "{..<i * 4096} \<subseteq> bm_used (view s) bm"
  shows "returns (bc_modify B (i + start_block_id bm) 0 BLOCK_SZ
       (\<lambda>bs s1. let (pos, bits') = alloc_in_block i (u64s bs) in Some ((pos, bytes_of 8 bits'), s1)) s) (held s)
    (\<lambda>r d. case r of
       None \<Rightarrow> d = view s \<and> {..<Suc i * 4096} \<subseteq> bm_used (view s) bm
     | Some k \<Rightarrow> k < Bitmap_maximum bm \<and> k \<notin> bm_used (view s) bm \<and> {..<k} \<subseteq> bm_used (view s) bm \<and>
         bm_used d bm = insert k (bm_used (view s) bm) \<and>
         (\<forall>b. b \<noteq> start_block_id bm + k div 4096 \<longrightarrow> d b = view s b))"
    (is "returns _ _ ?Q")
  unfolding add.commute [of i]
proof (rule returns_modify)
  let ?b = "start_block_id bm + i"
  fix s1
  assume s1: "inv s1" "view s1 = view s" "held s1 = insert ?b (held s)"
  have len: "length (view s ?b) = 512" using view_length [OF inv dev] by simp
  let ?ws = "u64s (view s ?b)"
  have lws: "length ?ws = 64" using len by simp
  have used: "i * 4096 + q \<in> bm_used (view s) bm \<longleftrightarrow> block_bit ?ws q" if "q < 4096" for q
    using that i bm_max [OF i that] by (simp add: bm_used_def)
  have below: "k \<in> bm_used (view s) bm" if "\<forall>q<p. block_bit ?ws q" "p \<le> 4096" "k < i * 4096 + p" for k p
  proof (cases "k < i * 4096")
    case False
    then obtain q where "k = i * 4096 + q" by (metis le_Suc_ex not_less)
    with that used [of q] show ?thesis by simp
  qed (use full in auto)
  obtain r ws' where al: "alloc_in_block i ?ws = (r, ws')" by (cases "alloc_in_block i ?ws")
  have "length ws' = 64 \<and> ?Q r ((view s)(?b := bytes_of 8 ws'))"
  proof (cases r)
    case None
    note n = alloc_in_block_None [OF lws al [unfolded None]]
    have "k \<in> bm_used (view s) bm" if "k < Suc i * 4096" for k
      using below [of 4096 k] n(2) that by simp
    with n None len lws show ?thesis by auto
  next
    case (Some k)
    obtain p where p: "p < 4096" "k = i * 4096 + p" "\<not> block_bit ?ws p" "\<forall>q<p. block_bit ?ws q"
      "length ws' = 64" "\<forall>q<4096. block_bit ws' q \<longleftrightarrow> block_bit ?ws q \<or> q = p"
      by (rule alloc_in_block_Some [OF lws al [unfolded Some]])
    have "bm_used ((view s)(?b := bytes_of 8 ws')) bm =
        (if True then insert (i * 4096 + p) (bm_used (view s) bm) else bm_used (view s) bm - {i * 4096 + p})"
      using i p by (intro bm_used_upd) auto
    then have "bm_used ((view s)(?b := bytes_of 8 ws')) bm = insert k (bm_used (view s) bm)"
      unfolding p(2) by simp
    moreover have "{..<k} \<subseteq> bm_used (view s) bm" using below [of p] p by auto
    moreover have "k \<notin> bm_used (view s) bm" using used p by simp
    moreover have "k < Bitmap_maximum bm" unfolding p(2) using i p(1) by (rule bm_max)
    moreover have "\<forall>b. b \<noteq> start_block_id bm + k div 4096 \<longrightarrow> ((view s)(?b := bytes_of 8 ws')) b = view s b"
      using p(1,2) by simp
    ultimately show ?thesis unfolding Some option.case using p(5) by blast
  qed
  note res = this
  have bp: "buf_put 0 (bytes_of 8 ws') (view s ?b) = bytes_of 8 ws'" using res len by simp
  have eq: "(let (pos, bits') = alloc_in_block i (u64s (buf_get 0 BLOCK_SZ (view s ?b)))
      in Some ((pos, bytes_of 8 bits'), s1)) = Some ((r, bytes_of 8 ws'), s1)"
    using al len by simp
  show "returns (let (pos, bits') = alloc_in_block i (u64s (buf_get 0 BLOCK_SZ (view s ?b)))
      in Some ((pos, bytes_of 8 bits'), s1)) (insert ?b (held s))
      (\<lambda>(v, r) d. length r = BLOCK_SZ \<and> ?Q v (d(?b := buf_put 0 r (d ?b))))"
    unfolding eq
    by (rule returns_Some [OF s1(1,3)]) (use res in \<open>simp only: case_prod_conv s1(2) bp, simp\<close>)
qed (use assms in simp_all)

lemma Bitmap_alloc_returns:
  assumes "inv s" and "start_block_id bm + bm_blocks bm \<le> n_blocks" and "card (held s) < 16"
    and "{start_block_id bm..<start_block_id bm + bm_blocks bm} \<inter> held s = {}"
  shows "returns (Bitmap_alloc B bm s) (held s) (\<lambda>r d. case r of
       None \<Rightarrow> d = view s \<and> bm_used (view s) bm = {..<Bitmap_maximum bm}
     | Some k \<Rightarrow> k < Bitmap_maximum bm \<and> k \<notin> bm_used (view s) bm \<and> {..<k} \<subseteq> bm_used (view s) bm \<and>
         bm_used d bm = insert k (bm_used (view s) bm) \<and>
         (\<forall>b. b \<noteq> start_block_id bm + k div 4096 \<longrightarrow> d b = view s b))" (is "returns _ _ (?Q (view s))")
proof -
  have "returns (alloc_from B bm [i..<bm_blocks bm] t) (held t) (?Q (view t))"
    if "inv t" and "held t = held s" and "i \<le> bm_blocks bm" and "{..<i * 4096} \<subseteq> bm_used (view t) bm" for i t
    using that
  proof (induction "bm_blocks bm - i" arbitrary: i t)
    case 0
    then have "{..<Bitmap_maximum bm} \<subseteq> bm_used (view t) bm" by (simp add: Bitmap_maximum_def)
    then have "bm_used (view t) bm = {..<Bitmap_maximum bm}" by (auto simp: bm_used_def)
    with 0 show ?case by (auto intro!: returns_Some)
  next
    case (Suc n)
    then have i: "i < bm_blocks bm" and upt: "[i..<bm_blocks bm] = i # [Suc i..<bm_blocks bm]"
      by (simp_all add: upt_conv_Cons)
    have dev: "start_block_id bm + i < n_blocks" using assms(2) i by simp
    have held: "start_block_id bm + i \<notin> held t"
      using assms(4) i Suc.prems(2) by (auto simp: disjoint_iff)
    have room: "card (held t) < 16" using assms(3) Suc.prems(2) by simp
    show ?case
      unfolding upt alloc_from.simps
    proof (rule returns_bind [OF alloc_step_returns [OF Suc.prems(1) i dev held room Suc.prems(4)]])
      fix r t1
      assume t1: "inv t1" "held t1 = held t" "case r of
       None \<Rightarrow> view t1 = view t \<and> {..<Suc i * 4096} \<subseteq> bm_used (view t) bm
     | Some k \<Rightarrow> k < Bitmap_maximum bm \<and> k \<notin> bm_used (view t) bm \<and> {..<k} \<subseteq> bm_used (view t) bm \<and>
         bm_used (view t1) bm = insert k (bm_used (view t) bm) \<and>
         (\<forall>b. b \<noteq> start_block_id bm + k div 4096 \<longrightarrow> view t1 b = view t b)"
      show "returns (case (r, t1) of (pos, s1) \<Rightarrow> if pos \<noteq> None then Some (pos, s1)
          else alloc_from B bm [Suc i..<bm_blocks bm] s1) (held t) (?Q (view t))"
      proof (cases r)
        case None
        have ih: "returns (alloc_from B bm [Suc i..<bm_blocks bm] t1) (held t1) (?Q (view t1))"
          using t1 None Suc.hyps(2) Suc.prems(2) i by (intro Suc.hyps(1)) auto
        have v: "view t1 = view t" using t1(3) None by simp
        show ?thesis using ih unfolding t1(2) None v by simp
      next
        case (Some k)
        with t1 show ?thesis by (simp add: returns_def)
      qed
    qed
  qed
  from this [of s 0] assms(1) show ?thesis by (simp add: Bitmap_alloc_def)
qed

lemma Bitmap_dealloc_returns:
  assumes inv: "inv s" and k: "k \<in> bm_used (view s) bm"
    and dev: "start_block_id bm + bm_blocks bm \<le> n_blocks" and room: "card (held s) < 16"
    and held: "start_block_id bm + k div 4096 \<notin> held s"
  shows "returns (Bitmap_dealloc B bm k s) (held s) (\<lambda>u d.
    bm_used d bm = bm_used (view s) bm - {k} \<and> (\<forall>b. b \<noteq> start_block_id bm + k div 4096 \<longrightarrow> d b = view s b))"
proof -
  let ?i = "k div 4096" and ?p = "k mod 4096" and ?b = "start_block_id bm + k div 4096"
  let ?ws = "u64s (view s ?b)" and ?j = "k mod 64" and ?g = "k mod 4096 div 64"
  have max: "k < bm_blocks bm * 4096" and used: "block_bit ?ws ?p"
    using k by (auto simp: bm_used_def Bitmap_maximum_def)
  have i: "?i < bm_blocks bm" using max by (simp add: div_less_iff_less_mult)
  have b: "?b < n_blocks" using dev i by simp
  have len: "length (view s ?b) = 512" "length ?ws = 64" using view_length [OF inv b] by simp_all
  have g: "?g < 64" "?p mod 64 = ?j" by (simp_all add: div_less_iff_less_mult mod_mod_cancel)
  have bit: "bit (?ws ! ?g) ?j" using used by (simp add: block_bit_def g(2))
  let ?ws' = "?ws[?g := ?ws ! ?g - push_bit ?j 1]"
  have "bm_used ((view s)(start_block_id bm + ?i := bytes_of 8 ?ws')) bm =
      (if False then insert (?i * 4096 + ?p) (bm_used (view s) bm) else bm_used (view s) bm - {?i * 4096 + ?p})"
  proof (rule bm_used_upd [OF i])
    show "\<forall>q<4096. block_bit ?ws' q \<longleftrightarrow> (if q = ?p then False else block_bit (u64s (view s (start_block_id bm + ?i))) q)"
    proof (intro allI impI)
      fix q :: nat assume q: "q < 4096"
      have "q = ?p \<longleftrightarrow> q div 64 = ?g \<and> q mod 64 = ?j"
        using g(2) div_mult_mod_eq [of q 64] div_mult_mod_eq [of ?p 64] by metis
      then show "block_bit ?ws' q \<longleftrightarrow> (if q = ?p then False else block_bit (u64s (view s (start_block_id bm + ?i))) q)"
        using block_bit_upd [OF len(2) g(1) q, of "?ws ! ?g - 2 ^ ?j"] bit_clear_one [OF bit, of "q mod 64"]
        by (auto simp: block_bit_def)
    qed
  qed (use len in simp_all)
  then have eff: "bm_used ((view s)(?b := bytes_of 8 ?ws')) bm = bm_used (view s) bm - {k}"
    by simp
  show ?thesis
    unfolding Bitmap_dealloc_def decomposition_eq Let_def case_prod_conv add.commute [of ?i]
  proof (rule returns_modify)
    fix s1
    assume "inv s1" "view s1 = view s" "held s1 = insert ?b (held s)"
    with len g(1) bit eff show "returns (nth_opt (u64s (buf_get 0 BLOCK_SZ (view s ?b))) ?g \<bind> (\<lambda>w.
        if w AND push_bit ?j 1 > 0
        then Some (((), bytes_of 8 ((u64s (buf_get 0 BLOCK_SZ (view s ?b)))[?g := w - push_bit ?j 1])), s1)
        else None)) (insert ?b (held s))
        (\<lambda>(v, r) d. length r = BLOCK_SZ \<and> bm_used (d(?b := buf_put 0 r (d ?b))) bm = bm_used (view s) bm - {k} \<and>
          (\<forall>c. c \<noteq> start_block_id bm + k div 4096 \<longrightarrow> (d(?b := buf_put 0 r (d ?b))) c = view s c))"
      by (auto simp: and_one_pos returns_def)
  qed (use assms b in simp_all)
qed

text \<open>Releasing a free bit fails the assertion.\<close>

lemma Bitmap_dealloc_free:
  assumes inv: "inv s" and k: "k < Bitmap_maximum bm" "k \<notin> bm_used (view s) bm"
    and dev: "start_block_id bm + bm_blocks bm \<le> n_blocks" and room: "card (held s) < 16"
    and held: "start_block_id bm + k div 4096 \<notin> held s"
  shows "Bitmap_dealloc B bm k s = None"
proof -
  let ?b = "start_block_id bm + k div 4096"
  have b: "?b < n_blocks" using k(1) dev by (simp add: Bitmap_maximum_def div_less_iff_less_mult)
  then have len: "length (view s ?b) = 512" using view_length [OF inv] by simp
  obtain s1 where s1: "lock_block B ?b s = Some s1" "inv s1" "view s1 = view s" "held s1 = insert ?b (held s)"
    using lock_ok [OF inv b held] room by auto
  have "peek_block B ?b s1 = view s ?b" using peek_ok [OF s1(2)] s1(3,4) by simp
  moreover have "k mod 4096 div 64 < 64" "k mod 4096 mod 64 = k mod 64"
    by (simp_all add: div_less_iff_less_mult mod_mod_cancel)
  then have "\<not> bit (u64s (view s ?b) ! (k mod 4096 div 64)) (k mod 64)"
    using k by (simp add: bm_used_def block_bit_def)
  ultimately show ?thesis
    using s1(1) len \<open>k mod 4096 div 64 < 64\<close>
    by (simp add: Bitmap_dealloc_def decomposition_eq bc_modify_def get_ref_def add.commute and_one_pos)
qed

end

end
