(* ===== verification/InodeOps.thy ===== *)
theory InodeOps
  imports InodeBlocks
begin

text \<open>
  What the block operations of a disk inode do, for any block store that meets
  \<open>block_store\<close>: \<^verbatim>\<open>get_block_id\<close> selects a data block, \<^verbatim>\<open>increase_size\<close> appends the
  new blocks to the cells of the inode and \<^verbatim>\<open>clear_size\<close> returns exactly the cells.
\<close>

section \<open>Filling an index\<close>

lemma fill_slots_spec:
  assumes "lim \<le> length sl" and "lim - cur \<le> length nb"
  shows "fill_slots cur lim sl nb =
    Some (if cur < lim then buf_put cur (take (lim - cur) nb) sl else sl, drop (lim - cur) nb)"
  using assms
proof (induction cur lim sl nb rule: fill_slots.induct)
  case (1 cur lim sl nb)
  show ?case
  proof (cases "cur < lim")
    case False
    then show ?thesis by (simp add: fill_slots.simps [of cur lim sl nb])
  next
    case True
    with "1.prems" obtain b rest where nb: "nb = b # rest" by (cases nb) auto
    have "fill_slots (Suc cur) lim (sl[cur := b]) rest =
        Some (if Suc cur < lim then buf_put (Suc cur) (take (lim - Suc cur) rest) (sl[cur := b])
              else sl[cur := b], drop (lim - Suc cur) rest)"
      using True "1.prems" nb by (intro "1.IH") auto
    moreover have "lim - cur = Suc (lim - Suc cur)" using True by simp
    moreover have "(if Suc cur < lim then buf_put (Suc cur) (take (lim - Suc cur) rest) (sl[cur := b])
        else sl[cur := b]) = buf_put cur (b # take (lim - Suc cur) rest) sl"
      using True "1.prems" nb
      by (intro nth_equalityI) (auto simp: nth_buf_put nth_Cons' nth_list_update)
    ultimately show ?thesis
      using True "1.prems" nb by (simp add: fill_slots.simps [of cur lim sl "b # rest"])
  qed
qed

lemma take_buf_put: "off + length ys \<le> length xs \<Longrightarrow> take (off + length ys) (buf_put off ys xs) = take off xs @ ys"
  by (simp add: buf_put_def)

context block_store
begin

lemma view_disk_ok: "inv s \<Longrightarrow> disk_ok n_blocks (view s)"
  by (simp add: disk_ok_def view_length)

section \<open>Block lookup\<close>

lemma read_index_returns:
  assumes "inv s" and "b < n_blocks" and "b \<notin> held s" and "card (held s) < 16" and "i < 128"
  shows "returns (read_index B b i s) (held s) (\<lambda>v d. v = u32s (view s b) ! i \<and> d = view s)"
  unfolding read_index_def
proof (rule returns_read)
  fix s1
  assume s1: "inv s1" "view s1 = view s" "held s1 = insert b (held s)"
  have "length (view s b) = 512" using view_length [OF assms(1,2)] by simp
  then have "nth_opt (u32s (buf_get 0 512 (view s b))) i = Some (u32s (view s b) ! i)"
    using assms(5) by simp
  then show "returns (nth_opt (u32s (buf_get 0 BLOCK_SZ (view s b))) i \<bind> (\<lambda>v. Some (v, s1)))
      (insert b (held s)) (\<lambda>v d. v = u32s (view s b) ! i \<and> d = view s)"
    using s1 by (auto intro!: returns_Some)
qed (use assms in simp_all)

lemma get_block_id_returns:
  assumes inv: "inv s" and ok: "inode_ok n_blocks (view s) ino n" and i: "i < n"
    and free: "unat ` set (inode_meta (view s) ino n) \<inter> held s = {}" and room: "card (held s) < 16"
  shows "returns (get_block_id B ino i s) (held s)
    (\<lambda>v d. v = inode_data (view s) ino n ! i \<and> d = view s)"
proof -
  let ?d = "view s"
  note okD = inode_okD [OF ok]
  consider "i < 28" | "28 \<le> i" "i < 156" | "156 \<le> i" by linarith
  then show ?thesis
  proof cases
    case 1
    with okD(1) show ?thesis
      by (auto simp: get_block_id_def nth_inode_data [OF ok i] intro!: returns_Some inv)
  next
    case 2
    then have "unat (indirect1 ino) \<notin> held s" using free i by (auto simp: inode_meta_def)
    then have "returns (read_index B (unat (indirect1 ino)) (i - 28) s) (held s)
        (\<lambda>v d. v = u32s (?d (unat (indirect1 ino))) ! (i - 28) \<and> d = ?d)"
      using 2 i okD(4) by (intro read_index_returns inv room) auto
    with 2 show ?thesis
      by (simp add: get_block_id_def nth_inode_data [OF ok i] slots_def)
  next
    case 3
    let ?m = "i - 156"
    let ?e = "slots ?d (indirect2 ino) ! (?m div 128)"
    have n: "n > 156" using 3 i by simp
    have m: "?m div 128 < n_subs (n - 156)" using 3 i by (intro n_subs_gt) simp
    then have lt: "?m div 128 < 128" using inode_ok_slots(3) [OF ok n] by simp
    have "?e \<in> set (take (n_subs (n - 156)) (slots ?d (indirect2 ino)))"
      using m lt inode_ok_slots(2) [OF ok n] by (auto simp: in_set_conv_nth)
    then have e: "?e \<in> set (inode_meta ?d ino n)" and i2: "indirect2 ino \<in> set (inode_meta ?d ino n)"
      using n by (auto simp: inode_meta_def)
    then have held: "unat ?e \<notin> held s" "unat (indirect2 ino) \<notin> held s" using free by auto
    have bound: "unat ?e < n_blocks" "unat (indirect2 ino) < n_blocks"
      using e i2 okD(7) set_inode_cells [OF ok] by auto
    have "returns (read_index B (unat (indirect2 ino)) (?m div 128) s \<bind>
        (\<lambda>(ind1, s1). read_index B (unat ind1) (?m mod 128) s1)) (held s)
        (\<lambda>v d. v = u32s (?d (unat ?e)) ! (?m mod 128) \<and> d = ?d)"
    proof (rule returns_bind)
      show "returns (read_index B (unat (indirect2 ino)) (?m div 128) s) (held s)
          (\<lambda>v d. v = u32s (?d (unat (indirect2 ino))) ! (?m div 128) \<and> d = ?d)"
        using held bound lt by (intro read_index_returns inv room) auto
    next
      fix v s1
      assume s1: "inv s1" "held s1 = held s"
        "v = u32s (?d (unat (indirect2 ino))) ! (?m div 128) \<and> view s1 = ?d"
      then have "v = ?e" by (simp add: slots_def)
      then show "returns (case (v, s1) of (ind1, s1) \<Rightarrow> read_index B (unat ind1) (?m mod 128) s1)
          (held s) (\<lambda>v d. v = u32s (?d (unat ?e)) ! (?m mod 128) \<and> d = ?d)"
        using read_index_returns [of s1 "unat ?e" "?m mod 128"] s1 held bound room by simp
    qed
    with 3 show ?thesis
      by (simp add: get_block_id_def nth_inode_data [OF ok i] Let_def slots_def)
  qed
qed

section \<open>Filling index blocks\<close>

lemma fill_index_returns:
  assumes "inv s" and "b < n_blocks" and "b \<notin> held s" and "card (held s) < 16"
    and "lim \<le> 128" and "lim - cur \<le> length nb"
  shows "returns (fill_index B b cur lim nb s) (held s)
    (\<lambda>rest d. rest = drop (lim - cur) nb \<and>
      d = (view s)(b := bytes_of 4 (if cur < lim then buf_put cur (take (lim - cur) nb) (u32s (view s b))
                                    else u32s (view s b))))"
  unfolding fill_index_def
proof (rule returns_modify)
  fix s1
  assume s1: "inv s1" "view s1 = view s" "held s1 = insert b (held s)"
  have len: "length (view s b) = 512" using view_length [OF assms(1,2)] by simp
  have fill: "fill_slots cur lim (u32s (view s b)) nb =
      Some (if cur < lim then buf_put cur (take (lim - cur) nb) (u32s (view s b)) else u32s (view s b),
            drop (lim - cur) nb)"
    using assms(5,6) len by (intro fill_slots_spec) auto
  show "returns (fill_slots cur lim (u32s (buf_get 0 BLOCK_SZ (view s b))) nb \<bind>
      (\<lambda>(slots, rest). Some ((rest, bytes_of 4 slots), s1))) (insert b (held s))
      (\<lambda>(v, r) d. length r = BLOCK_SZ \<and> v = drop (lim - cur) nb \<and>
        d(b := buf_put 0 r (d b)) = (view s)(b := bytes_of 4
          (if cur < lim then buf_put cur (take (lim - cur) nb) (u32s (view s b)) else u32s (view s b))))"
    using s1 len assms(5,6) by (auto simp: fill intro!: returns_Some)
qed (use assms in simp_all)

lemma set_slot_returns:
  assumes "inv s" and "b < n_blocks" and "b \<notin> held s" and "card (held s) < 16" and "i < 128"
  shows "returns (bc_modify B b 0 BLOCK_SZ
      (\<lambda>bs s1. do { sl \<leftarrow> upd_opt (u32s bs) i v; Some (((), bytes_of 4 sl), s1) }) s) (held s)
    (\<lambda>u d. d = (view s)(b := bytes_of 4 ((u32s (view s b))[i := v])))"
proof (rule returns_modify)
  fix s1
  assume s1: "inv s1" "view s1 = view s" "held s1 = insert b (held s)"
  have len: "length (view s b) = 512" using view_length [OF assms(1,2)] by simp
  then have upd: "upd_opt (u32s (view s b)) i v = Some ((u32s (view s b))[i := v])"
    using assms(5) by simp
  show "returns (upd_opt (u32s (buf_get 0 BLOCK_SZ (view s b))) i v \<bind>
      (\<lambda>sl. Some (((), bytes_of 4 sl), s1))) (insert b (held s))
      (\<lambda>(u, r) d. length r = BLOCK_SZ \<and>
        d(b := buf_put 0 r (d b)) = (view s)(b := bytes_of 4 ((u32s (view s b))[i := v])))"
    using s1 len by (auto simp: upd intro!: returns_Some)
qed (use assms in simp_all)

end

text \<open>The two counters of the loop over the doubly indirect index, as one number.\<close>

lemma divmod_less: "m div 128 < n div 128 \<or> m div 128 = n div 128 \<and> m mod 128 < n mod 128 \<longleftrightarrow> m < n"
  for m n :: nat
proof -
  define a b a' b' where "a = m div 128" "b = m mod 128" "a' = n div 128" "b' = n mod 128"
  then have "m = 128 * a + b" "n = 128 * a' + b'" "b < 128" "b' < 128" by simp_all
  then show ?thesis
    unfolding \<open>a = m div 128\<close> [symmetric] \<open>b = m mod 128\<close> [symmetric]
      \<open>a' = n div 128\<close> [symmetric] \<open>b' = n mod 128\<close> [symmetric] by auto
qed

lemma divmod_Suc:
  "Suc (m mod 128) = 128 \<Longrightarrow> Suc m div 128 = Suc (m div 128) \<and> Suc m mod 128 = 0"
  "Suc (m mod 128) \<noteq> 128 \<Longrightarrow> Suc m div 128 = m div 128 \<and> Suc m mod 128 = Suc (m mod 128)"
  for m :: nat
  by (auto simp: div_Suc mod_Suc)

text \<open>Taking the blocks of one iteration from the new blocks.\<close>

lemma loop_take:
  assumes m: "m0 < m1" "m1 \<le> 16384" and arr: "length arr = 128"
    and nb: "length nb = (m1 - m0) + (n_subs m1 - n_subs m0)"
  obtains arr1 e x nb' pre where "nb = pre @ x # nb'" and "length arr1 = 128"
    and "arr1 ! (m0 div 128) = e" and "take (n_subs (Suc m0)) arr1 = take (n_subs m0) arr @ pre"
    and "pre = (if m0 mod 128 = 0 then [e] else [])"
    and "length nb' = (m1 - Suc m0) + (n_subs m1 - n_subs (Suc m0))"
    and "(if m0 mod 128 = 0 then do {
            (b, rest) \<leftarrow> next_block nb;
            ind2' \<leftarrow> upd_opt arr (m0 div 128) b;
            Some (ind2', rest)
          } else Some (arr, nb)) = Some (arr1, x # nb')"
proof -
  have "m0 div 128 < n_subs m1" using m(1) by (rule n_subs_gt)
  then have a: "m0 div 128 < 128" using n_subs_le [OF m(2)] by simp
  show ?thesis
  proof (cases "m0 mod 128 = 0")
    case True
    then have subs: "n_subs m0 = m0 div 128" "n_subs (Suc m0) = Suc (m0 div 128)"
      by (simp_all add: n_subs_mod_0 n_subs_Suc)
    have more: "n_subs m1 > n_subs m0" using n_subs_gt [OF m(1)] subs by simp
    then have "length nb \<ge> 2" using nb m(1) by simp
    then obtain e x nb' where nb': "nb = e # x # nb'" by (cases nb; cases "tl nb") auto
    have "take (Suc (m0 div 128)) (arr[m0 div 128 := e]) = take (m0 div 128) arr @ [e]"
      using a arr by (simp add: take_Suc_conv_app_nth)
    moreover have "length nb' = (m1 - Suc m0) + (n_subs m1 - n_subs (Suc m0))"
      using nb nb' more subs m(1) by simp
    ultimately show ?thesis
      using True subs nb' a arr
      by (intro that [of "[e]" x nb' "arr[m0 div 128 := e]" e]) simp_all
  next
    case False
    then have subs: "n_subs m0 = Suc (m0 div 128)" "n_subs (Suc m0) = Suc (m0 div 128)"
      by (simp_all add: n_subs_mod_pos n_subs_Suc)
    have "length nb \<ge> 1" using nb m(1) by simp
    then obtain x nb' where nb': "nb = x # nb'" by (cases nb) auto
    have "length nb' = (m1 - Suc m0) + (n_subs m1 - n_subs (Suc m0))"
      using nb nb' subs m(1) by simp
    then show ?thesis
      using False subs nb' by (intro that [of "[]" x nb' arr "arr ! (m0 div 128)"]) (simp_all add: arr)
  qed
qed

context block_store
begin

lemma fill_indirect2_returns:
  assumes "inv s" and "card (held s) < 16" and "m0 \<le> m1" and "m1 \<le> 16384" and "length arr = 128"
    and "length nb = (m1 - m0) + (n_subs m1 - n_subs m0)"
    and "distinct (take (n_subs m0) arr @ nb)"
    and "\<And>b. b \<in> set (take (n_subs m0) arr @ nb) \<Longrightarrow> unat b < n_blocks \<and> unat b \<notin> held s"
  shows "returns (fill_indirect2 B (m0 div 128) (m0 mod 128) (m1 div 128) (m1 mod 128) arr nb s) (held s)
    (\<lambda>arr' d. length arr' = 128 \<and> take (n_subs m0) arr' = take (n_subs m0) arr \<and>
      (\<forall>j<m0. slots d (arr ! (j div 128)) ! (j mod 128) = slots (view s) (arr ! (j div 128)) ! (j mod 128)) \<and>
      concat (map (cell2 arr' (slots d)) [m0..<m1]) = nb \<and>
      (\<forall>b. b \<notin> unat ` set (take (n_subs m1) arr') \<longrightarrow> d b = view s b))"
  using assms
proof (induction "m1 - m0" arbitrary: m0 arr nb s)
  case 0
  then have "m0 = m1" by simp
  then show ?case
    using 0 by (subst fill_indirect2.simps) (auto simp: intro!: returns_Some)
next
  case (Suc k)
  let ?a = "m0 div 128" and ?b = "m0 mod 128"
  have lt: "m0 < m1" using Suc.hyps(2) by simp
  obtain arr1 e x nb' pre where step: "nb = pre @ x # nb'" "length arr1 = 128" "arr1 ! ?a = e"
      "take (n_subs (Suc m0)) arr1 = take (n_subs m0) arr @ pre" "pre = (if ?b = 0 then [e] else [])"
      "length nb' = (m1 - Suc m0) + (n_subs m1 - n_subs (Suc m0))"
      "(if ?b = 0 then do {
            (b, rest) \<leftarrow> next_block nb; ind2' \<leftarrow> upd_opt arr ?a b; Some (ind2', rest)
          } else Some (arr, nb)) = Some (arr1, x # nb')"
    using loop_take [OF lt Suc.prems(4,5,6)] by metis
  have subs_lt: "?a < n_subs (Suc m0)" "?a < n_subs m1" by (simp_all add: n_subs_gt lt)
  have subs_le: "n_subs m1 \<le> 128" "n_subs (Suc m0) \<le> 128" "n_subs m0 \<le> 128"
    using Suc.prems(4) lt by (auto intro: n_subs_le)
  have e_in: "e \<in> set (take (n_subs (Suc m0)) arr1)"
    using step(2,3) subs_lt subs_le by (auto simp: in_set_conv_nth)
  have all_in: "set (take (n_subs (Suc m0)) arr1) \<union> set nb' \<subseteq> set (take (n_subs m0) arr @ nb)"
    using step(1,4) by auto
  have e_ok: "unat e < n_blocks" "unat e \<notin> held s" using e_in all_in Suc.prems(8) by auto
  let ?Q = "\<lambda>arr' d. length arr' = 128 \<and> take (n_subs m0) arr' = take (n_subs m0) arr \<and>
      (\<forall>j<m0. slots d (arr ! (j div 128)) ! (j mod 128) = slots (view s) (arr ! (j div 128)) ! (j mod 128)) \<and>
      concat (map (cell2 arr' (slots d)) [m0..<m1]) = nb \<and>
      (\<forall>b. b \<notin> unat ` set (take (n_subs m1) arr') \<longrightarrow> d b = view s b)"
  let ?next = "\<lambda>s1. if Suc ?b = INODE_INDIRECT1_COUNT
      then fill_indirect2 B (Suc ?a) 0 (m1 div 128) (m1 mod 128) arr1 nb' s1
      else fill_indirect2 B ?a (Suc ?b) (m1 div 128) (m1 mod 128) arr1 nb' s1"
  have next_eq: "?next s1 = fill_indirect2 B (Suc m0 div 128) (Suc m0 mod 128) (m1 div 128) (m1 mod 128) arr1 nb' s1"
    for s1 using divmod_Suc [of m0] by simp
  have unfold: "fill_indirect2 B ?a ?b (m1 div 128) (m1 mod 128) arr nb s =
      bc_modify B (unat e) 0 BLOCK_SZ
        (\<lambda>bs s1. do { sl \<leftarrow> upd_opt (u32s bs) ?b x; Some (((), bytes_of 4 sl), s1) }) s \<bind>
      (\<lambda>(u, s1). ?next s1)"
    using divmod_less [of m0 m1] lt step(7) step(2,3) subs_lt subs_le
    by (subst fill_indirect2.simps) simp
  show ?case
    unfolding unfold
  proof (rule returns_bind)
    show "returns (bc_modify B (unat e) 0 BLOCK_SZ
        (\<lambda>bs s1. do { sl \<leftarrow> upd_opt (u32s bs) ?b x; Some (((), bytes_of 4 sl), s1) }) s) (held s)
        (\<lambda>u d. d = (view s)(unat e := bytes_of 4 ((u32s (view s (unat e)))[?b := x])))"
      using e_ok Suc.prems(1,2) by (intro set_slot_returns) auto
  next
    fix u :: unit and s1
    assume s1: "inv s1" "held s1 = held s"
      "view s1 = (view s)(unat e := bytes_of 4 ((u32s (view s (unat e)))[?b := x]))"
    have sl1: "slots (view s1) c = (if c = e then (slots (view s) e)[?b := x] else slots (view s) c)" for c
      using s1(3) slots_set_slot [of "view s" e _ c] by (simp add: slots_def)
    have len_e: "length (slots (view s) e) = 128"
      using e_ok view_disk_ok [OF Suc.prems(1)] by (simp add: length_slots)
    have "returns (fill_indirect2 B (Suc m0 div 128) (Suc m0 mod 128) (m1 div 128) (m1 mod 128) arr1 nb' s1)
        (held s1) (\<lambda>arr' d. length arr' = 128 \<and> take (n_subs (Suc m0)) arr' = take (n_subs (Suc m0)) arr1 \<and>
      (\<forall>j<Suc m0. slots d (arr1 ! (j div 128)) ! (j mod 128) = slots (view s1) (arr1 ! (j div 128)) ! (j mod 128)) \<and>
      concat (map (cell2 arr' (slots d)) [Suc m0..<m1]) = nb' \<and>
      (\<forall>b. b \<notin> unat ` set (take (n_subs m1) arr') \<longrightarrow> d b = view s1 b))"
    proof (rule Suc.hyps(1))
      show "k = m1 - Suc m0" using Suc.hyps(2) by simp
      show "distinct (take (n_subs (Suc m0)) arr1 @ nb')"
        using Suc.prems(7) step(1,4) by auto
      show "unat b < n_blocks \<and> unat b \<notin> held s1" if "b \<in> set (take (n_subs (Suc m0)) arr1 @ nb')" for b
        using that all_in Suc.prems(8) s1(2) by auto
    qed (use Suc.prems(2,4) s1(1,2) step(2,6) lt in simp_all)
    then have "returns (?next s1) (held s) ?Q"
      unfolding next_eq s1(2)
    proof (rule returns_mono)
      fix arr' d
      assume q: "length arr' = 128 \<and> take (n_subs (Suc m0)) arr' = take (n_subs (Suc m0)) arr1 \<and>
        (\<forall>j<Suc m0. slots d (arr1 ! (j div 128)) ! (j mod 128) = slots (view s1) (arr1 ! (j div 128)) ! (j mod 128)) \<and>
        concat (map (cell2 arr' (slots d)) [Suc m0..<m1]) = nb' \<and>
        (\<forall>b. b \<notin> unat ` set (take (n_subs m1) arr') \<longrightarrow> d b = view s1 b)"
      note qD = conjunct1 [OF q] conjunct1 [OF conjunct2 [OF q]]
      have e': "arr' ! ?a = e" using q step(3) subs_lt(1) take_eq_nth [of "n_subs (Suc m0)" arr' arr1] by simp
      have "slots d e ! ?b = x"
        using q step(3) sl1 len_e by (simp add: less_Suc_eq)
      then have cell: "cell2 arr' (slots d) m0 = pre @ [x]"
        using e' step(5) by (simp add: cell2_def)
      have upt: "[m0..<m1] = m0 # [Suc m0..<m1]" using lt by (rule upt_conv_Cons)
      have cells: "concat (map (cell2 arr' (slots d)) [m0..<m1]) = nb"
        using q cell step(1) by (simp add: upt)
      have subs_mono: "n_subs m0 \<le> n_subs (Suc m0)" by (simp add: n_subs_Suc)
      have front: "take (n_subs m0) arr' = take (n_subs m0) arr" "take (n_subs m0) arr1 = take (n_subs m0) arr"
        using subs_mono subs_le(3) Suc.prems(5) take_eq_prefix [OF step(4)]
          take_eq_prefix [OF trans [OF qD(2) step(4)]] by simp_all
      have old: "slots d (arr ! (j div 128)) ! (j mod 128) = slots (view s) (arr ! (j div 128)) ! (j mod 128)"
        if "j < m0" for j
      proof -
        let ?q = "j div 128"
        have q_lt: "?q < n_subs m0" using that by (rule n_subs_gt)
        have arr1: "arr1 ! ?q = arr ! ?q" using front(2) q_lt by (rule take_eq_nth)
        have "slots (view s1) (arr ! ?q) ! (j mod 128) = slots (view s) (arr ! ?q) ! (j mod 128)"
        proof (cases "arr ! ?q = e")
          case True
          have "?b \<noteq> 0"
          proof
            assume "?b = 0"
            then have "e \<in> set nb" using step(1,5) by simp
            moreover have "arr ! ?q \<in> set (take (n_subs m0) arr)"
              using q_lt Suc.prems(5) subs_le by (auto simp: in_set_conv_nth)
            ultimately show False using Suc.prems(7) True by auto
          qed
          then have subs: "n_subs m0 = Suc ?a" by (rule n_subs_mod_pos)
          then have "e = arr ! ?a" using step(3) take_eq_nth [OF front(2), of ?a] by simp
          with subs have "?q = ?a"
            using Suc.prems(5,7) True q_lt subs_le nth_eq_iff_index_eq [of "take (n_subs m0) arr" ?q ?a] by simp
          then have "j mod 128 < ?b" using divmod_less [of j m0] that by simp
          with True show ?thesis by (simp add: sl1)
        qed (simp add: sl1)
        moreover have "slots d (arr1 ! ?q) ! (j mod 128) = slots (view s1) (arr1 ! ?q) ! (j mod 128)"
          using q less_SucI [OF that] by blast
        ultimately show ?thesis by (simp add: arr1)
      qed
      have frame: "d b = view s b" if "b \<notin> unat ` set (take (n_subs m1) arr')" for b
      proof -
        have "e \<in> set (take (n_subs m1) arr')"
          using e' subs_lt(2) subs_le(1) q by (auto simp: in_set_conv_nth)
        then have "b \<noteq> unat e" using that by auto
        with q that s1(3) show ?thesis by simp
      qed
      show "?Q arr' d" using q front(1) old cells frame by simp
    qed
    then show "returns (case (u, s1) of (u, s1) \<Rightarrow> ?next s1) (held s) ?Q" by simp
  qed
qed

end

end
