(* ===== verification/InodeGrow.thy ===== *)
theory InodeGrow
  imports InodeOps
begin

text \<open>
  What \<^verbatim>\<open>DiskInode::increase_size\<close> and \<^verbatim>\<open>DiskInode::clear_size\<close> do, for any block
  store that meets \<open>block_store\<close>: growing appends the new blocks, in order, to the
  cells of the inode and changes no block but its index blocks; clearing returns
  exactly the cells.
\<close>

section \<open>The three parts of growing\<close>

definition grow1 ::
  "'s block_ops \<Rightarrow> nat \<Rightarrow> nat \<Rightarrow> u32 \<Rightarrow> u32 list \<Rightarrow> 's \<Rightarrow> ((u32 \<times> u32 list) \<times> 's) option"
where
  "grow1 B n0 n1 ind1 nb s = do {
     (e, nb2) \<leftarrow> (if n0 \<le> 28 then next_block nb else Some (ind1, nb));
     (nb3, s1) \<leftarrow> fill_index B (unat e) (n0 - 28) (min (n1 - 28) 128) nb2 s;
     Some ((e, nb3), s1)
   }"

definition grow2 ::
  "'s block_ops \<Rightarrow> nat \<Rightarrow> nat \<Rightarrow> u32 \<Rightarrow> u32 list \<Rightarrow> 's \<Rightarrow> (u32 \<times> 's) option"
where
  "grow2 B n0 n1 ind2 nb s = do {
     (e, nb2) \<leftarrow> (if n0 \<le> 156 then next_block nb else Some (ind2, nb));
     (u, s1) \<leftarrow> bc_modify B (unat e) 0 BLOCK_SZ
       (\<lambda>bs s1. do {
          (sl, s2) \<leftarrow> fill_indirect2 B ((n0 - 156) div 128) ((n0 - 156) mod 128)
             ((n1 - 156) div 128) ((n1 - 156) mod 128) (u32s bs) nb2 s1;
          Some (((), bytes_of 4 sl), s2)
        }) s;
     Some (e, s1)
   }"

definition grow_tail ::
  "'s block_ops \<Rightarrow> nat \<Rightarrow> nat \<Rightarrow> u32 \<Rightarrow> u32 \<Rightarrow> u32 list \<Rightarrow> 's \<Rightarrow> ((u32 \<times> u32) \<times> 's) option"
where
  "grow_tail B n0 n1 ind1 ind2 nb s = do {
     ((e1, nb3), s1) \<leftarrow> grow1 B n0 n1 ind1 nb s;
     if n1 > 156 then do {
       (e2, s2) \<leftarrow> grow2 B n0 n1 ind2 nb3 s1;
       Some ((e1, e2), s2)
     } else Some ((e1, ind2), s1)
   }"

lemma increase_size_parts:
  assumes "unat (data_blocks ino) = n0" and "unat (data_blocks_of new_size) = n1"
  shows "increase_size B new_size nb ino s = do {
      (dir', nb1) \<leftarrow> fill_slots n0 (min n1 28) (direct ino) nb;
      if n1 > 28 then do {
        ((e1, e2), s1) \<leftarrow> grow_tail B n0 n1 (indirect1 ino) (indirect2 ino) nb1 s;
        Some (ino\<lparr>isize := new_size, direct := dir', indirect1 := e1, indirect2 := e2\<rparr>, s1)
      } else Some (ino\<lparr>isize := new_size, direct := dir'\<rparr>, s)
    }"
proof -
  have cur: "max n0 28 = 28 \<longleftrightarrow> n0 \<le> 28" "max n0 28 - 28 = n0 - 28"
    "max (n0 - 28) 128 = 128 \<longleftrightarrow> n0 \<le> 156" "max (n0 - 28) 128 - 128 = n0 - 156"
    "n1 - 28 > 128 \<longleftrightarrow> n1 > 156" "n1 - 28 - 128 = n1 - 156" by auto
  have lim: "n1 > 28 \<Longrightarrow> min n1 28 = 28" "n1 > 156 \<Longrightarrow> min (n1 - 28) 128 = 128" by auto
  have same: "ino\<lparr>isize := new_size, direct := dir, indirect1 := e, indirect2 := indirect2 ino\<rparr> =
      ino\<lparr>isize := new_size, direct := dir, indirect1 := e\<rparr>" for dir e by (cases ino) simp
  consider "n1 \<le> 28" | "28 < n1" "n1 \<le> 156" | "156 < n1" by linarith
  then show ?thesis
    using assms cur lim
    unfolding increase_size_def grow_tail_def grow1_def grow2_def Let_def data_blocks_def
    by cases (simp_all add: Option.bind_assoc case_prod_beta' same cong: option.case_cong if_cong)
qed

text \<open>The cells below the index blocks.\<close>

definition index_cells :: "(nat \<Rightarrow> bytes) \<Rightarrow> u32 \<Rightarrow> u32 \<Rightarrow> nat \<Rightarrow> u32 list" where
  "index_cells d e1 e2 n = (if n > 28 then e1 # take (n - 28) (slots d e1) else []) @
     (if n > 156 then e2 # cells2 (slots d e2) (slots d) (n - 156) else [])"

definition index_meta :: "(nat \<Rightarrow> bytes) \<Rightarrow> u32 \<Rightarrow> u32 \<Rightarrow> nat \<Rightarrow> u32 list" where
  "index_meta d e1 e2 n = (if n > 28 then [e1] else []) @
     (if n > 156 then e2 # take (n_subs (n - 156)) (slots d e2) else [])"

lemma inode_cells_index:
  "inode_cells d ino n = take n (direct ino) @ index_cells d (indirect1 ino) (indirect2 ino) n"
  "inode_meta d ino n = index_meta d (indirect1 ino) (indirect2 ino) n"
  by (simp_all add: inode_cells_def inode_meta_def index_cells_def index_meta_def)

lemma n_subs_mono: "m0 \<le> m1 \<Longrightarrow> n_subs m0 \<le> n_subs m1"
  by (simp add: n_subs_def div_le_mono)

lemma n_cells_parts:
  assumes "n0 \<le> n1" and "28 < n1"
  shows "n_cells n1 - n_cells (max n0 28) = n_cells (min n1 156) - n_cells (min (max n0 28) 156) +
    (if n1 > 156 then n_cells n1 - n_cells (max n0 156) else 0)"
  using assms n_subs_mono [of "n0 - 156" "n1 - 156"] by (auto simp: n_cells_def min_def max_def)

lemma cells2_meta:
  assumes "n_subs m \<le> length e2"
  shows "set (take (n_subs m) e2) \<subseteq> set (cells2 e2 sub m)"
    and "distinct (cells2 e2 sub m @ ys) \<Longrightarrow> distinct (take (n_subs m) e2 @ ys)"
proof -
  have eq: "mset (cells2 e2 sub m) = mset (take (n_subs m) e2 @ data2 e2 sub m)"
    using mset_cells2 [OF assms] by simp
  then have set_eq: "set (cells2 e2 sub m) = set (take (n_subs m) e2 @ data2 e2 sub m)"
    by (metis set_mset_mset)
  then show "set (take (n_subs m) e2) \<subseteq> set (cells2 e2 sub m)" by auto
  show "distinct (take (n_subs m) e2 @ ys)" if "distinct (cells2 e2 sub m @ ys)"
    using that set_eq mset_eq_imp_distinct_iff [OF eq] by auto
qed

lemma cells2_split:
  "m0 \<le> m1 \<Longrightarrow> cells2 e2 sub m1 = cells2 e2 sub m0 @ concat (map (cell2 e2 sub) [m0..<m1])"
  using upt_add_eq_append [of 0 m0 "m1 - m0"] by (simp add: cells2_def)

lemma grow2_cells:
  fixes e d arr'
  defines "d' \<equiv> d(unat e := bytes_of 4 arr')"
  assumes len: "length arr' = 128" "m0 \<le> m1" "m1 \<le> 16384"
    and front: "take (n_subs m0) arr' = take (n_subs m0) arr"
    and old: "\<forall>j<m0. slots d (arr ! (j div 128)) ! (j mod 128) = slots d0 (arr ! (j div 128)) ! (j mod 128)"
    and new: "concat (map (cell2 arr' (slots d)) [m0..<m1]) = nb"
    and dist: "distinct (e # cells2 arr (slots d0) m0 @ nb)"
  shows "slots d' e = arr'" and "cells2 arr' (slots d') m1 = cells2 arr (slots d0) m0 @ nb"
proof -
  have arr: "arr' ! (j div 128) = arr ! (j div 128)" if "j < m0" for j
    using front n_subs_gt [OF that] by (rule take_eq_nth)
  have "cells2 arr' (slots d) m0 = cells2 arr (slots d0) m0"
    using old arr by (intro cells2_cong) simp_all
  then have cells: "cells2 arr' (slots d) m1 = cells2 arr (slots d0) m0 @ nb"
    using cells2_split [OF len(2)] new by simp
  have subs: "n_subs m1 \<le> 128" using len(3) by (rule n_subs_le)
  have ne: "arr' ! (j div 128) \<noteq> e" if "j < m1" for j
  proof -
    have "arr' ! (j div 128) \<in> set (take (n_subs m1) arr')"
      using n_subs_gt [OF that] subs len(1) by (auto simp: in_set_conv_nth)
    then have "arr' ! (j div 128) \<in> set (cells2 arr' (slots d) m1)"
      using cells2_meta(1) [of m1 arr' "slots d"] subs len(1) by auto
    then show ?thesis using dist cells by auto
  qed
  show "slots d' e = arr'" by (simp add: d'_def slots_set_slot)
  have "cells2 arr' (slots d') m1 = cells2 arr' (slots d) m1"
    using ne by (intro cells2_cong) (simp_all add: d'_def slots_set_slot)
  then show "cells2 arr' (slots d') m1 = cells2 arr (slots d0) m0 @ nb" using cells by simp
qed

context block_store
begin

lemma grow1_returns:
  fixes s ind1 n0
  defines "old \<equiv> if n0 > 28 then ind1 # take (n0 - 28) (slots (view s) ind1) else []"
  assumes inv: "inv s" and room: "card (held s) < 16" and n: "n0 \<le> n1" "28 < n1"
    and len: "length nb \<ge> n_cells (min n1 156) - n_cells (min (max n0 28) 156)"
    and ok: "\<And>b. b \<in> set (old @ nb) \<Longrightarrow> unat b < n_blocks \<and> unat b \<notin> held s"
  shows "returns (grow1 B n0 n1 ind1 nb s) (held s) (\<lambda>(e, rest) d. \<exists>t. nb = t @ rest \<and>
    length t = n_cells (min n1 156) - n_cells (min (max n0 28) 156) \<and>
    e # take (n1 - 28) (slots d e) = old @ t \<and> (\<forall>b. b \<noteq> unat e \<longrightarrow> d b = view s b) \<and>
    (n0 > 156 \<longrightarrow> d = view s))"
proof -
  let ?lim = "min (n1 - 28) 128"
  obtain e t1 nb2 where e: "(if n0 \<le> 28 then next_block nb else Some (ind1, nb)) = Some (e, nb2)"
      "nb = t1 @ nb2" "e # take (n0 - 28) (slots (view s) e) = old @ t1" "e \<in> set (old @ nb)"
      "length t1 = (if n0 \<le> 28 then 1 else 0)"
  proof (cases "n0 \<le> 28")
    case True
    then have "length nb > 0" using len n by (auto simp: n_cells_def)
    then obtain x nb2 where "nb = x # nb2" by (cases nb) auto
    with True that [of x nb2 "[x]"] show ?thesis by (simp add: old_def)
  qed (use that [of ind1 nb "[]"] in \<open>simp add: old_def\<close>)
  have e_ok: "unat e < n_blocks" "unat e \<notin> held s" using ok [OF e(4)] by auto
  have len_e: "length (slots (view s) e) = 128"
    using e_ok(1) view_disk_ok [OF inv] by (simp add: length_slots)
  have cells: "n_cells (min n1 156) - n_cells (min (max n0 28) 156) = length t1 + (?lim - (n0 - 28))"
    using n e(5) by (auto simp: n_cells_def min_def max_def)
  have len2: "?lim - (n0 - 28) \<le> length nb2" using len cells e(2) by simp
  let ?t = "take (?lim - (n0 - 28)) nb2"
  have lim_take: "take (n1 - 28) xs = take ?lim xs" if "length xs = 128" for xs :: "u32 list"
    using that by (cases "n1 - 28 \<le> 128") simp_all
  have fill: "take (n1 - 28) (if n0 - 28 < ?lim then buf_put (n0 - 28) ?t (slots (view s) e) else slots (view s) e) =
      take (n0 - 28) (slots (view s) e) @ ?t"
  proof (cases "n0 - 28 < ?lim")
    case True
    have t: "length ?t = ?lim - (n0 - 28)" using len2 by simp
    have "take (n1 - 28) (buf_put (n0 - 28) ?t (slots (view s) e)) =
        take (n0 - 28 + length ?t) (buf_put (n0 - 28) ?t (slots (view s) e))"
      using len_e True t by (subst lim_take) simp_all
    also have "\<dots> = take (n0 - 28) (slots (view s) e) @ ?t"
      using True t len_e by (intro take_buf_put) simp
    finally show ?thesis using True by simp
  next
    case False
    then have "?lim = n0 - 28 \<or> ?lim = 128 \<and> 128 \<le> n0 - 28" using n by linarith
    then show ?thesis using False len_e by (auto simp: lim_take)
  qed
  have "returns (fill_index B (unat e) (n0 - 28) ?lim nb2 s) (held s)
    (\<lambda>rest d. rest = drop (?lim - (n0 - 28)) nb2 \<and>
      d = (view s)(unat e := bytes_of 4 (if n0 - 28 < ?lim then buf_put (n0 - 28) ?t (slots (view s) e)
                                    else slots (view s) e)))"
    unfolding slots_def by (rule fill_index_returns [OF inv e_ok room _ len2]) simp
  then have "returns (fill_index B (unat e) (n0 - 28) ?lim nb2 s \<bind> (\<lambda>(nb3, s1). Some ((e, nb3), s1)))
    (held s) (\<lambda>(e', rest) d. e' = e \<and> rest = drop (?lim - (n0 - 28)) nb2 \<and>
      d = (view s)(unat e := bytes_of 4 (if n0 - 28 < ?lim then buf_put (n0 - 28) ?t (slots (view s) e)
                                    else slots (view s) e)))"
    by (rule returns_bind) (auto intro!: returns_Some)
  then show ?thesis
    unfolding grow1_def e(1) bind.simps case_prod_conv
  proof (rule returns_mono, clarify, intro exI conjI)
    show "nb = (t1 @ ?t) @ drop (?lim - (n0 - 28)) nb2" using e(2) by simp
    show "length (t1 @ ?t) = n_cells (min n1 156) - n_cells (min (max n0 28) 156)"
      using cells len2 by simp
    show "e # take (n1 - 28) (slots ((view s)(unat e := bytes_of 4 (if n0 - 28 < ?lim
        then buf_put (n0 - 28) ?t (slots (view s) e) else slots (view s) e))) e) = old @ t1 @ ?t"
      using fill e(3) by (simp add: slots_set_slot)
    show "n0 > 156 \<longrightarrow> (view s)(unat e := bytes_of 4 (if n0 - 28 < ?lim
        then buf_put (n0 - 28) ?t (slots (view s) e) else slots (view s) e)) = view s"
      using view_length [OF inv e_ok(1)] by (auto simp: slots_def)
  qed auto
qed

lemma grow2_returns:
  fixes s ind2 n0
  defines "old \<equiv> if n0 > 156 then ind2 # cells2 (slots (view s) ind2) (slots (view s)) (n0 - 156) else []"
  assumes inv: "inv s" and room: "card (held s) < 15" and n: "n0 \<le> n1" "156 < n1" "n1 \<le> 16540"
    and len: "length nb = n_cells n1 - n_cells (max n0 156)"
    and ok: "\<And>b. b \<in> set (old @ nb) \<Longrightarrow> unat b < n_blocks \<and> unat b \<notin> held s"
    and dist: "distinct (old @ nb)"
  shows "returns (grow2 B n0 n1 ind2 nb s) (held s) (\<lambda>e d.
    e # cells2 (slots d e) (slots d) (n1 - 156) = old @ nb \<and>
    (\<forall>b. b \<notin> unat ` set (e # take (n_subs (n1 - 156)) (slots d e)) \<longrightarrow> d b = view s b))"
proof -
  let ?m0 = "n0 - 156" and ?m1 = "n1 - 156"
  have m: "?m0 \<le> ?m1" "?m1 \<le> 16384" using n by simp_all
  have subs: "n_subs ?m0 \<le> 128" "n_subs ?m1 \<le> 128" using n by (auto intro: n_subs_le)
  obtain e nb2 where e: "(if n0 \<le> 156 then next_block nb else Some (ind2, nb)) = Some (e, nb2)"
      "e # cells2 (slots (view s) e) (slots (view s)) ?m0 @ nb2 = old @ nb"
      "length nb2 = (?m1 - ?m0) + (n_subs ?m1 - n_subs ?m0)"
  proof (cases "n0 \<le> 156")
    case True
    then have "length nb = Suc (n1 - 156 + n_subs ?m1)" using len n by (simp add: n_cells_def)
    then obtain x nb2 where "nb = x # nb2" "length nb2 = n1 - 156 + n_subs ?m1" by (cases nb) auto
    with True n that [of x nb2] show ?thesis by (simp add: old_def)
  next
    case False
    moreover have "n_subs ?m0 \<le> n_subs ?m1" using n by (intro n_subs_mono) simp
    ultimately show ?thesis using that [of ind2 nb] n len by (simp add: old_def n_cells_def)
  qed
  have all: "set (old @ nb) = insert e (set (cells2 (slots (view s) e) (slots (view s)) ?m0) \<union> set nb2)"
    using arg_cong [OF e(2), of set] by simp
  let ?arr = "slots (view s) e"
  have e_ok: "unat e < n_blocks" "unat e \<notin> held s" using ok [of e] unfolding all by auto
  have len_e: "length ?arr = 128" using e_ok(1) view_disk_ok [OF inv] by (simp add: length_slots)
  have dist_e: "distinct (e # cells2 ?arr (slots (view s)) ?m0 @ nb2)" using dist by (simp only: e(2))
  have meta: "set (take (n_subs ?m0) ?arr) \<subseteq> set (cells2 ?arr (slots (view s)) ?m0)"
    "distinct (take (n_subs ?m0) ?arr @ nb2)"
    using cells2_meta(1) [of ?m0 ?arr "slots (view s)"]
      cells2_meta(2) [of ?m0 ?arr "slots (view s)" nb2] dist_e subs len_e by simp_all
  have room2: "card (insert (unat e) (held s)) < 16"
    using room held_finite [OF inv] by (simp add: card_insert_if)
  have in_ok: "unat b < n_blocks \<and> unat b \<notin> insert (unat e) (held s)"
    if "b \<in> set (take (n_subs ?m0) ?arr @ nb2)" for b
    using that meta(1) dist_e ok [of b] unfolding all by auto
  let ?Q = "\<lambda>e d. e # cells2 (slots d e) (slots d) (n1 - 156) = old @ nb \<and>
    (\<forall>b. b \<notin> unat ` set (e # take (n_subs (n1 - 156)) (slots d e)) \<longrightarrow> d b = view s b)"
  let ?fill = "\<lambda>bs. fill_indirect2 B (?m0 div 128) (?m0 mod 128) (?m1 div 128) (?m1 mod 128) (u32s bs) nb2"
  have "returns (bc_modify B (unat e) 0 BLOCK_SZ
      (\<lambda>bs s1. ?fill bs s1 \<bind> (\<lambda>(sl, s2). Some (((), bytes_of 4 sl), s2))) s) (held s) (\<lambda>u. ?Q e)"
  proof (rule returns_modify)
    fix s1
    assume s1: "inv s1" "view s1 = view s" "held s1 = insert (unat e) (held s)"
    have bs: "buf_get 0 BLOCK_SZ (view s (unat e)) = view s (unat e)"
      using view_length [OF inv e_ok(1)] by simp
    note fill = fill_indirect2_returns [of s1 ?m0 ?m1 ?arr nb2, unfolded s1(2,3),
        OF s1(1) room2 m len_e e(3) meta(2) in_ok]
    show "returns (?fill (buf_get 0 BLOCK_SZ (view s (unat e))) s1 \<bind>
        (\<lambda>(sl, s2). Some (((), bytes_of 4 sl), s2))) (insert (unat e) (held s))
        (\<lambda>(v, r) d. length r = BLOCK_SZ \<and> ?Q e (d(unat e := buf_put 0 r (d (unat e)))))"
      unfolding bs slots_def [symmetric]
    proof (rule returns_bind [OF fill])
      fix arr' :: "u32 list" and s2
      let ?d = "(view s2)(unat e := bytes_of 4 arr')"
      assume s2: "inv s2" "held s2 = insert (unat e) (held s)"
        "length arr' = 128 \<and> take (n_subs ?m0) arr' = take (n_subs ?m0) ?arr \<and>
        (\<forall>j<?m0. slots (view s2) (?arr ! (j div 128)) ! (j mod 128) =
          slots (view s) (?arr ! (j div 128)) ! (j mod 128)) \<and>
        concat (map (cell2 arr' (slots (view s2))) [?m0..<?m1]) = nb2 \<and>
        (\<forall>b. b \<notin> unat ` set (take (n_subs ?m1) arr') \<longrightarrow> view s2 b = view s b)"
      have "buf_put 0 (bytes_of 4 arr') (view s2 (unat e)) = bytes_of 4 arr'"
        using s2(3) view_length [OF s2(1) e_ok(1)] by simp
      moreover have "slots ?d e = arr'" "cells2 arr' (slots ?d) ?m1 = cells2 ?arr (slots (view s)) ?m0 @ nb2"
        using grow2_cells [of arr' ?m0 ?m1 ?arr "view s2" "view s" nb2 e] s2(3) m dist_e by simp_all
      ultimately show "returns (case (arr', s2) of (sl, s2) \<Rightarrow> Some (((), bytes_of 4 sl), s2)) (insert (unat e) (held s))
        (\<lambda>(v, r) d. length r = BLOCK_SZ \<and> ?Q e (d(unat e := buf_put 0 r (d (unat e)))))"
        using s2 e(2) by (auto intro!: returns_Some)
    qed
  qed (use inv e_ok room in auto)
  then show ?thesis
    unfolding grow2_def e(1) bind.simps case_prod_conv
    by (rule returns_bind) (auto intro!: returns_Some)
qed

lemma grow_tail_returns:
  assumes inv: "inv s" and room: "card (held s) < 15" and n: "n0 \<le> n1" "28 < n1" "n1 \<le> 16540"
    and len: "length nb = n_cells n1 - n_cells (max n0 28)"
    and ok: "\<And>b. b \<in> set (index_cells (view s) i1 i2 n0 @ nb) \<Longrightarrow> unat b < n_blocks \<and> unat b \<notin> held s"
    and dist: "distinct (index_cells (view s) i1 i2 n0 @ nb)"
  shows "returns (grow_tail B n0 n1 i1 i2 nb s) (held s) (\<lambda>(e1, e2) d.
    index_cells d e1 e2 n1 = index_cells (view s) i1 i2 n0 @ nb \<and>
    (\<forall>b. b \<notin> unat ` set (index_meta d e1 e2 n1) \<longrightarrow> d b = view s b))"
proof -
  let ?old1 = "if n0 > 28 then i1 # take (n0 - 28) (slots (view s) i1) else []"
  let ?old2 = "if n0 > 156 then i2 # cells2 (slots (view s) i2) (slots (view s)) (n0 - 156) else []"
  have old: "index_cells (view s) i1 i2 n0 = ?old1 @ ?old2" by (simp add: index_cells_def)
  note cells = n_cells_parts [OF n(1,2)]
  have len1: "n_cells (min n1 156) - n_cells (min (max n0 28) 156) \<le> length nb"
    unfolding len cells by (rule le_add1)
  have ok1: "\<And>b. b \<in> set (?old1 @ nb) \<Longrightarrow> unat b < n_blocks \<and> unat b \<notin> held s"
    using ok unfolding old set_append by blast
  have room1: "card (held s) < 16" using room by simp
  obtain e1 nb3 s1 t where s1: "grow1 B n0 n1 i1 nb s = Some ((e1, nb3), s1)" "inv s1"
      "held s1 = held s" "nb = t @ nb3" "length t = n_cells (min n1 156) - n_cells (min (max n0 28) 156)"
      "e1 # take (n1 - 28) (slots (view s1) e1) = ?old1 @ t" "\<forall>b. b \<noteq> unat e1 \<longrightarrow> view s1 b = view s b"
      "n0 > 156 \<longrightarrow> view s1 = view s"
    using grow1_returns [OF inv room1 n(1,2) len1 ok1] by (rule returnsE) auto
  have order: "(?old1 @ t) @ ?old2 @ nb3 = index_cells (view s) i1 i2 n0 @ nb"
    using s1(4,5) n by (auto simp: old n_cells_def)
  show ?thesis
  proof (cases "n1 > 156")
    case False
    then have "length nb = length t" unfolding len cells s1(5) by simp
    then have "nb3 = []" using s1(4) by simp
    with False n order s1 show ?thesis
      by (auto simp: grow_tail_def index_cells_def index_meta_def intro!: returns_Some)
  next
    case True
    have old2: "(if n0 > 156 then i2 # cells2 (slots (view s1) i2) (slots (view s1)) (n0 - 156) else []) = ?old2"
      using s1(8) by auto
    have "length t + length nb3 = n_cells n1 - n_cells (max n0 28)" using len s1(4) by simp
    also have "\<dots> = length t + (n_cells n1 - n_cells (max n0 156))" using cells True s1(5) by (simp only: if_True)
    finally have len3: "length nb3 = n_cells n1 - n_cells (max n0 156)" by (rule add_left_imp_eq)
    have ok3: "\<And>b. b \<in> set (?old2 @ nb3) \<Longrightarrow> unat b < n_blocks \<and> unat b \<notin> held s"
      using ok unfolding order [symmetric] by simp
    have dist3: "distinct (?old2 @ nb3)" "set (?old1 @ t) \<inter> set (?old2 @ nb3) = {}"
      using dist unfolding order [symmetric] by (simp_all only: distinct_append)
    obtain e2 s2 where s2: "grow2 B n0 n1 i2 nb3 s1 = Some (e2, s2)" "inv s2" "held s2 = held s"
        "e2 # cells2 (slots (view s2) e2) (slots (view s2)) (n1 - 156) = ?old2 @ nb3 \<and>
        (\<forall>b. b \<notin> unat ` set (e2 # take (n_subs (n1 - 156)) (slots (view s2) e2)) \<longrightarrow> view s2 b = view s1 b)"
      using grow2_returns [where s = s1 and ?n0.0 = n0 and ?ind2.0 = i2, unfolded old2 s1(3),
          OF s1(2) room n(1) True n(3) len3 ok3 dist3(1)]
      by (rule returnsE)
    have "set (e2 # cells2 (slots (view s2) e2) (slots (view s2)) (n1 - 156)) = set (?old2 @ nb3)"
      by (simp only: conjunct1 [OF s2(4)])
    then have set2: "e2 \<in> set (?old2 @ nb3)"
        "set (cells2 (slots (view s2) e2) (slots (view s2)) (n1 - 156)) \<subseteq> set (?old2 @ nb3)"
      by auto
    have "e2 \<in> set (index_cells (view s) i1 i2 n0 @ nb)"
      unfolding order [symmetric] set_append using set2(1) by simp
    then have "length (slots (view s2) e2) = 128"
      using ok view_disk_ok [OF s2(2)] length_slots by blast
    then have "set (take (n_subs (n1 - 156)) (slots (view s2) e2)) \<subseteq> set (?old2 @ nb3)"
      using cells2_meta(1) [of "n1 - 156" "slots (view s2) e2" "slots (view s2)"] n set2(2) n_subs_le [of "n1 - 156"]
      by simp
    then have meta2: "set (e2 # take (n_subs (n1 - 156)) (slots (view s2) e2)) \<subseteq> set (?old2 @ nb3)"
      using set2(1) by simp
    have "e1 \<in> set (?old1 @ t)" unfolding s1(6) [symmetric] by simp
    then have "e1 \<notin> set (e2 # take (n_subs (n1 - 156)) (slots (view s2) e2))"
      using meta2 dist3(2) by blast
    then have "unat e1 \<notin> unat ` set (e2 # take (n_subs (n1 - 156)) (slots (view s2) e2))"
      by (simp add: image_iff)
    then have "view s2 (unat e1) = view s1 (unat e1)" using conjunct2 [OF s2(4)] by blast
    then have e1: "slots (view s2) e1 = slots (view s1) e1" by (simp add: slots_def)
    have "index_cells (view s2) e1 e2 n1 = (e1 # take (n1 - 28) (slots (view s1) e1)) @
        e2 # cells2 (slots (view s2) e2) (slots (view s2)) (n1 - 156)"
      using True by (simp add: index_cells_def e1)
    then have "index_cells (view s2) e1 e2 n1 = index_cells (view s) i1 i2 n0 @ nb"
      unfolding s1(6) conjunct1 [OF s2(4)] order .
    moreover have "view s2 b = view s b" if "b \<notin> unat ` set (index_meta (view s2) e1 e2 n1)" for b
      using that True conjunct2 [OF s2(4)] s1(7) by (simp add: index_meta_def)
    moreover have "grow_tail B n0 n1 i1 i2 nb s = Some ((e1, e2), s2)"
      using True s1(1) s2(1) by (simp add: grow_tail_def)
    ultimately show ?thesis using s2(2,3) by (simp add: returns_def)
  qed
qed

lemma fill_direct:
  assumes "length dir = 28" and "n0 \<le> n1" and "min n1 28 - n0 \<le> length nb"
  obtains dir' t nb1 where "fill_slots n0 (min n1 28) dir nb = Some (dir', nb1)" and "nb = t @ nb1"
    and "length t = min n1 28 - n0" and "length dir' = 28" and "take n1 dir' = take n0 dir @ t"
proof -
  let ?k = "min n1 28 - n0"
  let ?dir = "if n0 < min n1 28 then buf_put n0 (take ?k nb) dir else dir"
  have t: "length (take ?k nb) = ?k" using assms(3) by simp
  have "take n1 ?dir = take n0 dir @ take ?k nb"
  proof (cases "n0 < min n1 28")
    case True
    then have n: "n0 + length (take ?k nb) = min n1 28" unfolding t by simp
    have "length (buf_put n0 (take ?k nb) dir) = 28" using n assms(1) by simp
    then have "take n1 (buf_put n0 (take ?k nb) dir) = take (min n1 28) (buf_put n0 (take ?k nb) dir)"
      by (cases "n1 \<le> 28") simp_all
    also have "\<dots> = take n0 dir @ take ?k nb"
      using take_buf_put [of n0 "take ?k nb" dir] assms(1) by (simp only: n)
    finally show ?thesis using True by simp
  qed (use assms in \<open>auto simp: min_def split: if_splits\<close>)
  moreover have "length ?dir = 28" using t assms(1) by auto
  ultimately show ?thesis
    using that [of ?dir "drop ?k nb" "take ?k nb"] t fill_slots_spec [of "min n1 28" dir n0 nb] assms
    by simp
qed

lemma increase_size_returns:
  assumes inv: "inv s" and room: "card (held s) < 15" and ok: "inode_ok n_blocks (view s) ino n0"
    and n0: "unat (data_blocks ino) = n0" and n1: "unat (data_blocks_of new_size) = n1"
    and n: "n0 \<le> n1" "n1 \<le> 16540" and len: "length nb = n_cells n1 - n_cells n0"
    and dist: "distinct (inode_cells (view s) ino n0 @ nb)"
    and new: "\<And>b. b \<in> set nb \<Longrightarrow> unat b < n_blocks"
    and free: "unat ` set (inode_cells (view s) ino n0 @ nb) \<inter> held s = {}"
  shows "returns (increase_size B new_size nb ino s) (held s) (\<lambda>ino' d.
    isize ino' = new_size \<and> itype ino' = itype ino \<and> inode_ok n_blocks d ino' n1 \<and>
    inode_cells d ino' n1 = inode_cells (view s) ino n0 @ nb \<and>
    (\<forall>b. b \<notin> unat ` set (inode_meta d ino' n1) \<longrightarrow> d b = view s b))"
    (is "returns _ _ ?Q")
proof -
  note okD = inode_okD [OF ok]
  have sub: "n_subs (n0 - 156) \<le> n_subs (n1 - 156)" using n(1) by (intro n_subs_mono) simp
  have split: "n_cells n1 - n_cells n0 = min n1 28 - n0 + (if n1 > 28 then n_cells n1 - n_cells (max n0 28) else 0)"
    using n(1) sub by (auto simp: n_cells_def min_def max_def)
  have "min n1 28 - n0 \<le> length nb" unfolding len split by simp
  from fill_direct [OF okD(1) n(1) this] obtain dir' t nb1 where
    dir: "fill_slots n0 (min n1 28) (direct ino) nb = Some (dir', nb1)" "nb = t @ nb1"
      "length t = min n1 28 - n0" "length dir' = 28" "take n1 dir' = take n0 (direct ino) @ t"
    by metis
  let ?old = "index_cells (view s) (indirect1 ino) (indirect2 ino) n0"
  have cells: "(take n0 (direct ino) @ t) @ ?old @ nb1 = inode_cells (view s) ino n0 @ nb"
    using dir(2,3) n(1) by (auto simp: inode_cells_index index_cells_def)
  have goal: "?Q (ino\<lparr>isize := new_size, direct := dir', indirect1 := e1, indirect2 := e2\<rparr>) (view s')"
    if s': "inv s'" and e: "index_cells (view s') e1 e2 n1 = ?old @ nb1"
      and frame: "\<forall>b. b \<notin> unat ` set (index_meta (view s') e1 e2 n1) \<longrightarrow> view s' b = view s b" for s' e1 e2
  proof -
    let ?ino = "ino\<lparr>isize := new_size, direct := dir', indirect1 := e1, indirect2 := e2\<rparr>"
    have c: "inode_cells (view s') ?ino n1 = inode_cells (view s) ino n0 @ nb"
      using e dir(5) cells by (simp add: inode_cells_index(1))
    then have "inode_ok n_blocks (view s') ?ino n1"
      using view_disk_ok [OF s'] dir(4) n(2) dist okD(7) new by (auto simp: inode_ok_def)
    with c frame show ?thesis by (simp add: inode_cells_index(2))
  qed
  show ?thesis
  proof (cases "n1 > 28")
    case False
    then have "length nb = length t" unfolding len split dir(3) by simp
    then have "nb1 = []" using dir(2) by simp
    with False n(1) goal [OF inv, of "indirect1 ino" "indirect2 ino"] show ?thesis
      unfolding increase_size_parts [OF n0 n1] dir(1)
      by (auto simp: index_cells_def inv intro!: returns_Some)
  next
    case True
    have in_ok: "unat b < n_blocks \<and> unat b \<notin> held s" if "b \<in> set (?old @ nb1)" for b
      using that okD(7) new free dir(2) by (auto simp: inode_cells_index)
    have dist1: "distinct (?old @ nb1)" using dist unfolding cells [symmetric] by (simp only: distinct_append)
    have len1: "length nb1 = n_cells n1 - n_cells (max n0 28)"
    proof -
      have "length t + length nb1 = n_cells n1 - n_cells n0" using len dir(2) by simp
      then show ?thesis unfolding split dir(3) using True by simp
    qed
    obtain e1 e2 s' where s': "grow_tail B n0 n1 (indirect1 ino) (indirect2 ino) nb1 s = Some ((e1, e2), s')"
        "inv s'" "held s' = held s" "index_cells (view s') e1 e2 n1 = ?old @ nb1"
        "\<forall>b. b \<notin> unat ` set (index_meta (view s') e1 e2 n1) \<longrightarrow> view s' b = view s b"
      using grow_tail_returns [OF inv room n(1) True n(2) len1 in_ok dist1] by (rule returnsE) auto
    show ?thesis
      unfolding increase_size_parts [OF n0 n1] dir(1) bind.simps case_prod_conv if_P [OF True] s'(1)
      using goal [OF s'(2,4,5)] s'(2,3) by (rule returns_Some [rotated 2])
  qed
qed

end

end
