(* ===== verification/InodeClear.thy ===== *)
theory InodeClear
  imports InodeGrow
begin

text \<open>
  What \<^verbatim>\<open>DiskInode::clear_size\<close> does, for any block store that meets
  \<open>block_store\<close>: it returns exactly the cells of the inode, index blocks included,
  and leaves an inode of size 0 that owns no block.
\<close>

lemma clear_direct_eq:
  assumes "n \<le> length dir"
  shows "clear_direct n dir = (take n dir, replicate n 0 @ drop n dir)"
  using assms
proof (induction n)
  case 0
  then show ?case by (simp add: clear_direct_def)
next
  case (Suc n)
  have drop: "drop n dir = dir ! n # drop (Suc n) dir" using Suc.prems by (simp add: Cons_nth_drop_Suc)
  have "clear_direct (Suc n) dir = (case clear_direct n dir of (v, dir') \<Rightarrow> (v @ [dir' ! n], dir'[n := 0]))"
    by (simp add: clear_direct_def)
  also have "\<dots> = (take n dir @ [dir ! n], replicate n 0 @ 0 # drop (Suc n) dir)"
    using Suc by (simp add: drop nth_append list_update_append)
  finally show ?case using Suc.prems by (simp add: take_Suc_conv_app_nth replicate_app_Cons_same)
qed

context block_store
begin

lemma read_slots_returns:
  assumes "inv s" and "b < n_blocks" and "b \<notin> held s" and "card (held s) < 16"
  shows "returns (read_slots B b n s) (held s) (\<lambda>w d. w = take n (u32s (view s b)) \<and> d = view s)"
  unfolding read_slots_def
proof (rule returns_modify)
  fix s1
  assume s1: "inv s1" "view s1 = view s" "held s1 = insert b (held s)"
  have "length (view s b) = 512" using view_length [OF assms(1,2)] by simp
  then show "returns (Some ((take n (u32s (buf_get 0 BLOCK_SZ (view s b))), buf_get 0 BLOCK_SZ (view s b)), s1))
      (insert b (held s)) (\<lambda>(v, r) d. length r = BLOCK_SZ \<and> v = take n (u32s (view s b)) \<and>
        d(b := buf_put 0 r (d b)) = view s)"
    using s1 by (auto intro!: returns_Some)
qed (use assms in simp_all)

lemma clear_full_returns:
  assumes "inv s" and "card (held s) < 16"
    and "\<And>e. e \<in> set es \<Longrightarrow> unat e < n_blocks \<and> unat e \<notin> held s"
  shows "returns (clear_full B es v s) (held s)
    (\<lambda>v' d. v' = v @ concat (map (\<lambda>e. e # slots (view s) e) es) \<and> d = view s)"
  using assms
proof (induction es arbitrary: v s)
  case Nil
  then show ?case by (auto intro!: returns_Some)
next
  case (Cons e es)
  show ?case
    unfolding clear_full.simps
  proof (rule returns_bind)
    show "returns (read_slots B (unat e) INODE_INDIRECT1_COUNT s) (held s)
        (\<lambda>w d. w = take INODE_INDIRECT1_COUNT (u32s (view s (unat e))) \<and> d = view s)"
      using Cons.prems by (intro read_slots_returns) auto
  next
    fix w s1
    assume s1: "inv s1" "held s1 = held s"
      "w = take INODE_INDIRECT1_COUNT (u32s (view s (unat e))) \<and> view s1 = view s"
    have "length (slots (view s) e) = 128"
      using Cons.prems view_disk_ok [OF Cons.prems(1)] by (simp add: length_slots)
    then have w: "w = slots (view s) e" using s1(3) by (simp add: slots_def)
    show "returns (case (w, s1) of (w, s1) \<Rightarrow> clear_full B es (v @ e # w) s1) (held s)
        (\<lambda>v' d. v' = v @ concat (map (\<lambda>e. e # slots (view s) e) (e # es)) \<and> d = view s)"
      using Cons.IH [of s1 "v @ e # w"] Cons.prems s1 by (simp add: w)
  qed
qed

text \<open>The closure over the doubly indirect index.\<close>

lemma clear_indirect2_returns:
  fixes i2 s
  defines "arr \<equiv> slots (view s) i2"
  assumes inv: "inv s" and room: "card (held s) < 15" and m: "0 < m" "m \<le> 16384"
    and i2: "unat i2 < n_blocks" "unat i2 \<notin> held s" "i2 \<notin> set (take (n_subs m) arr)"
    and ok: "\<And>e. e \<in> set (take (n_subs m) arr) \<Longrightarrow> unat e < n_blocks \<and> unat e \<notin> held s"
  shows "returns (bc_modify B (unat i2) 0 BLOCK_SZ
     (\<lambda>bs s1. do {
        let ind2 = u32s bs;
        (v, s2) \<leftarrow> clear_full B (take (m div 128) ind2) v2 s1;
        (v', s3) \<leftarrow> (if m mod 128 > 0 then do {
            e \<leftarrow> nth_opt ind2 (m div 128);
            (w, s3) \<leftarrow> read_slots B (unat e) (m mod 128) s2;
            Some (v @ e # w, s3)
          } else Some (v, s2));
        Some ((v', bs), s3)
      }) s) (held s) (\<lambda>v d. v = v2 @ cells2 arr (slots (view s)) m \<and> d = view s)"
proof (rule returns_modify)
  fix s1
  assume s1: "inv s1" "view s1 = view s" "held s1 = insert (unat i2) (held s)"
  let ?a = "m div 128" and ?b = "m mod 128"
  have len: "length (view s (unat i2)) = 512" using view_length [OF inv i2(1)] by simp
  then have arr: "u32s (buf_get 0 BLOCK_SZ (view s (unat i2))) = arr" "length arr = 128"
    by (simp_all add: arr_def slots_def)
  have room1: "card (held s1) < 16" using room s1(3) held_finite [OF inv] by (simp add: card_insert_if)
  have n: "?a \<le> n_subs m" "n_subs m \<le> 128" "?b > 0 \<Longrightarrow> ?a < n_subs m"
    using n_subs_le [OF m(2)] by (cases "?b = 0"; simp add: n_subs_mod_0 n_subs_mod_pos)+
  have ok1: "unat e < n_blocks \<and> unat e \<notin> held s1" if "e \<in> set (take (n_subs m) arr)" for e
    using ok [OF that] that i2(3) s1(3) by auto
  have full: "set (take ?a arr) \<subseteq> set (take (n_subs m) arr)" using n(1) by (rule set_take_subset_set_take)
  have lens: "length (slots (view s) (arr ! k)) = 128" if "k < n_subs m" for k
  proof -
    have "arr ! k \<in> set (take (n_subs m) arr)" using that n(2) arr(2) by (auto simp: in_set_conv_nth)
    then show ?thesis using ok view_disk_ok [OF inv] length_slots by blast
  qed
  have cells: "cells2 arr (slots (view s)) m =
      concat (map (\<lambda>e. e # slots (view s) e) (take ?a arr)) @
      (if ?b > 0 then arr ! ?a # take ?b (slots (view s) (arr ! ?a)) else [])"
  proof -
    have m_eq: "m = ?a * 128 + ?b" by simp
    have "map (\<lambda>e. e # slots (view s) e) (take ?a arr) = map (\<lambda>k. arr ! k # slots (view s) (arr ! k)) [0..<?a]"
      using n arr(2) by (intro nth_equalityI) auto
    moreover have "cells2 arr (slots (view s)) (?a * 128) =
        concat (map (\<lambda>k. arr ! k # slots (view s) (arr ! k)) [0..<?a])"
      using lens n(1) by (intro cells2_blocks(1)) simp
    moreover have "cells2 arr (slots (view s)) (?a * 128 + ?b) = cells2 arr (slots (view s)) (?a * 128) @
        (if ?b > 0 then arr ! ?a # take ?b (slots (view s) (arr ! ?a)) else [])"
      using cells2_blocks(2) [of ?a "slots (view s)" arr ?b] lens n by (cases "?b > 0") auto
    ultimately show ?thesis using m_eq by simp
  qed
  have step1: "returns (clear_full B (take ?a arr) v2 s1) (held s1)
      (\<lambda>v d. v = v2 @ concat (map (\<lambda>e. e # slots (view s) e) (take ?a arr)) \<and> d = view s)"
    using clear_full_returns [OF s1(1) room1, of "take ?a arr" v2] ok1 full s1(2) by auto
  have step2: "returns (if ?b > 0 then nth_opt arr ?a \<bind> (\<lambda>e. read_slots B (unat e) ?b s2 \<bind>
        (\<lambda>(w, s3). Some (v @ e # w, s3))) else Some (v, s2)) (held s1)
      (\<lambda>v' d. v' = v2 @ cells2 arr (slots (view s)) m \<and> d = view s)"
    if s2: "inv s2" "held s2 = held s1"
      "v = v2 @ concat (map (\<lambda>e. e # slots (view s) e) (take ?a arr)) \<and> view s2 = view s" for v s2
  proof (cases "?b > 0")
    case True
    let ?e = "arr ! ?a"
    have "?e \<in> set (take (n_subs m) arr)" using n(2) n(3) [OF True] arr(2) by (auto simp: in_set_conv_nth)
    then have "returns (read_slots B (unat ?e) ?b s2) (held s2) (\<lambda>w d. w = take ?b (u32s (view s2 (unat ?e))) \<and> d = view s2)"
      using s2 ok1 room1 by (intro read_slots_returns) auto
    then have "returns (read_slots B (unat ?e) ?b s2 \<bind> (\<lambda>(w, s3). Some (v @ ?e # w, s3))) (held s2)
        (\<lambda>v' d. v' = v2 @ cells2 arr (slots (view s)) m \<and> d = view s)"
      by (rule returns_bind) (use s2 True in \<open>auto simp: cells slots_def intro!: returns_Some\<close>)
    then show ?thesis using True n(2) n(3) [OF True] arr(2) s2(2) by simp
  qed (use s2 in \<open>auto simp: cells intro!: returns_Some\<close>)
  show "returns (let ind2 = u32s (buf_get 0 BLOCK_SZ (view s (unat i2))) in
        clear_full B (take ?a ind2) v2 s1 \<bind> (\<lambda>(v, s2).
        (if ?b > 0 then nth_opt ind2 ?a \<bind> (\<lambda>e. read_slots B (unat e) ?b s2 \<bind>
            (\<lambda>(w, s3). Some (v @ e # w, s3))) else Some (v, s2)) \<bind>
        (\<lambda>(v', s3). Some ((v', buf_get 0 BLOCK_SZ (view s (unat i2))), s3)))) (insert (unat i2) (held s))
      (\<lambda>(v, r) d. length r = BLOCK_SZ \<and> v = v2 @ cells2 arr (slots (view s)) m \<and>
        d(unat i2 := buf_put 0 r (d (unat i2))) = view s)"
    unfolding arr(1) Let_def s1(3) [symmetric]
  proof (rule returns_bind [OF step1], unfold case_prod_conv, rule returns_bind [OF step2])
    fix v' s3
    assume "inv s3" "held s3 = held s1" "v' = v2 @ cells2 arr (slots (view s)) m \<and> view s3 = view s"
    with len show "returns (case (v', s3) of (v', s3) \<Rightarrow> Some ((v', buf_get 0 BLOCK_SZ (view s (unat i2))), s3))
      (held s1) (\<lambda>(v, r) d. length r = BLOCK_SZ \<and> v = v2 @ cells2 arr (slots (view s)) m \<and>
        d(unat i2 := buf_put 0 r (d (unat i2))) = view s)"
      by (auto intro!: returns_Some)
  qed
qed (use assms in simp_all)

lemma clear_size_returns:
  assumes inv: "inv s" and room: "card (held s) < 15" and ok: "inode_ok n_blocks (view s) ino n"
    and n: "unat (data_blocks ino) = n"
    and free: "unat ` set (inode_meta (view s) ino n) \<inter> held s = {}"
  shows "returns (clear_size B ino s) (held s) (\<lambda>(v, ino') d.
    v = inode_cells (view s) ino n \<and> d = view s \<and>
    isize ino' = 0 \<and> length (direct ino') = 28 \<and> itype ino' = itype ino)"
    (is "returns _ _ ?Q")
proof -
  note okD = inode_okD [OF ok] and lens = inode_ok_slots [OF ok]
  have dir: "clear_direct (min n 28) (direct ino) = (take n (direct ino), replicate (min n 28) 0 @ drop (min n 28) (direct ino))"
    using okD(1) clear_direct_eq [of "min n 28" "direct ino"] by (cases "n \<le> 28") simp_all
  let ?dir = "replicate (min n 28) 0 @ drop (min n 28) (direct ino) :: u32 list"
  have len_dir: "length ?dir = 28" using okD(1) by simp
  have data: "unat (data_blocks ino) = n" using n .
  show ?thesis
  proof (cases "n > 28")
    case False
    then show ?thesis
      using okD(1) inv dir n unfolding clear_size_def Let_def
      by (auto simp: inode_cells_def intro!: returns_Some)
  next
    case True
    let ?w = "take (min (n - 28) 128) (slots (view s) (indirect1 ino))"
    have w: "?w = take (n - 28) (slots (view s) (indirect1 ino))"
      using lens(1) [OF True] by (cases "n - 28 \<le> 128") simp_all
    have i1: "unat (indirect1 ino) < n_blocks" "unat (indirect1 ino) \<notin> held s"
      using True okD(4) free by (auto simp: inode_meta_def)
    have room1: "card (held s) < 16" using room by simp
    obtain s1 where s1: "read_slots B (unat (indirect1 ino)) (min (n - 28) 128) s = Some (?w, s1)"
        "inv s1" "held s1 = held s" "view s1 = view s"
      using read_slots_returns [OF inv i1 room1] by (rule returnsE) (simp add: slots_def)
    show ?thesis
    proof (cases "n > 156")
      case False
      then show ?thesis
        using True okD(1) s1 dir n w unfolding clear_size_def Let_def
        by (auto simp: inode_cells_def intro!: returns_Some)
    next
      case True
      let ?m = "n - 156" and ?i2 = "indirect2 ino"
      let ?v2 = "(take n (direct ino) @ indirect1 ino # ?w) @ [?i2]"
      have cells: "?v2 @ cells2 (slots (view s) ?i2) (slots (view s)) ?m = inode_cells (view s) ino n"
        unfolding w using True by (simp add: inode_cells_def)
      have m: "0 < ?m" "?m \<le> 16384" using True okD(2) by simp_all
      have meta: "insert ?i2 (set (take (n_subs ?m) (slots (view s) ?i2))) \<subseteq> set (inode_meta (view s) ino n)"
        using True by (auto simp: inode_meta_def)
      have in_ok: "unat e < n_blocks \<and> unat e \<notin> held s"
        if "e \<in> insert ?i2 (set (take (n_subs ?m) (slots (view s) ?i2)))" for e
        using that meta okD(7) free set_inode_cells [OF ok] by blast
      have i2: "unat ?i2 < n_blocks" "unat ?i2 \<notin> held s" using in_ok by blast+
      have "distinct (?i2 # cells2 (slots (view s) ?i2) (slots (view s)) ?m)"
        using okD(6) unfolding cells [symmetric] by simp
      then have i2': "?i2 \<notin> set (take (n_subs ?m) (slots (view s) ?i2))"
        using cells2_meta(1) [of ?m "slots (view s) ?i2" "slots (view s)"] lens(2,3) [OF True] by auto
      from clear_indirect2_returns [where s = s1 and ?v2.0 = ?v2 and ?i2.0 = ?i2 and m = ?m, unfolded s1(3,4),
          OF s1(2) room m i2 i2'] in_ok
      obtain s2 where s2: "bc_modify B (unat ?i2) 0 BLOCK_SZ
         (\<lambda>bs s1. do {
            let ind2 = u32s bs;
            (v, s2) \<leftarrow> clear_full B (take (?m div 128) ind2) ?v2 s1;
            (v', s3) \<leftarrow> (if ?m mod 128 > 0 then do {
                e \<leftarrow> nth_opt ind2 (?m div 128);
                (w, s3) \<leftarrow> read_slots B (unat e) (?m mod 128) s2;
                Some (v @ e # w, s3)
              } else Some (v, s2));
            Some ((v', bs), s3)
          }) s1 = Some (inode_cells (view s) ino n, s2)" "inv s2" "held s2 = held s" "view s2 = view s"
        unfolding cells by (auto elim!: returnsE)
      have big: "128 < n - 28" using True by simp
      have "clear_size B ino s = Some ((inode_cells (view s) ino n,
          ino\<lparr>isize := 0, direct := ?dir, indirect1 := 0, indirect2 := 0\<rparr>), s2)"
        using True big s1(1) s2(1) m(2) dir unfolding clear_size_def Let_def n layout_consts
        by (simp cong: if_cong)
      then show ?thesis using s2(2-4) len_dir by (simp add: returns_def)
    qed
  qed
qed

end

end
