(* ===== verification/InodeData.thy ===== *)
theory InodeData
  imports InodeClear
begin

text \<open>
  The contents of an inode and what \<^verbatim>\<open>DiskInode::read_at\<close> and
  \<^verbatim>\<open>DiskInode::write_at\<close> do to them, for any block store that meets \<open>block_store\<close>.
  \<open>data_bytes d ino n\<close> is the concatenation of the data blocks; reading copies a
  slice of it into the buffer, and writing replaces a slice and changes no block
  but the data blocks of the inode.
\<close>

section \<open>Slices of a list of blocks\<close>

lemma length_concat_blocks:
  "(\<And>x. x \<in> set bs \<Longrightarrow> length x = w) \<Longrightarrow> length (concat bs) = length bs * w"
  by (induction bs) auto

lemma concat_blocks_split:
  assumes "\<And>x. x \<in> set bs \<Longrightarrow> length x = w" and "k < length bs"
  shows "concat bs = concat (take k bs) @ bs ! k @ concat (drop (Suc k) bs)" and "length (concat (take k bs)) = k * w"
proof -
  have "bs = take k bs @ bs ! k # drop (Suc k) bs" using assms(2) by (simp add: id_take_nth_drop)
  then show "concat bs = concat (take k bs) @ bs ! k @ concat (drop (Suc k) bs)"
    by (metis concat.simps(2) concat_append)
  have "length (concat (take k bs)) = length (take k bs) * w"
    using assms(1) by (intro length_concat_blocks) (meson in_set_takeD)
  then show "length (concat (take k bs)) = k * w" using assms(2) by simp
qed

lemma buf_get_concat:
  assumes "\<And>x. x \<in> set bs \<Longrightarrow> length x = w" and "k < length bs" and "off + n \<le> w"
  shows "buf_get (k * w + off) n (concat bs) = buf_get off n (bs ! k)"
proof -
  have "length (bs ! k) = w" using assms(1,2) by simp
  then show ?thesis
    using concat_blocks_split(2) [OF assms(1,2)] assms(3)
    by (subst concat_blocks_split(1) [OF assms(1,2)]) (simp_all add: buf_get_def)
qed

lemma buf_put_concat:
  assumes "\<And>x. x \<in> set bs \<Longrightarrow> length x = w" and "k < length bs" and "off + length ys \<le> w"
  shows "concat (bs[k := buf_put off ys (bs ! k)]) = buf_put (k * w + off) ys (concat bs)"
proof -
  have k: "length (bs ! k) = w" using assms(1,2) by simp
  have "concat (bs[k := buf_put off ys (bs ! k)]) =
      concat (take k bs) @ buf_put off ys (bs ! k) @ concat (drop (Suc k) bs)"
    using assms(2) by (simp add: upd_conv_take_nth_drop)
  also have "\<dots> = buf_put (k * w + off) ys (concat bs)"
    using concat_blocks_split(2) [OF assms(1,2)] assms(3) k
    by (subst concat_blocks_split(1) [OF assms(1,2)]) (simp_all add: buf_put_def)
  finally show ?thesis .
qed

lemma buf_get_take: "buf_get off m (take k xs) = buf_get off (min (off + m) k - off) xs"
proof -
  have "min (off + m) k - off = min m (k - off)" by simp
  then show ?thesis by (simp add: buf_get_def drop_take)
qed

lemma buf_put_append:
  assumes "off + length ys + length zs \<le> length xs"
  shows "buf_put (off + length ys) zs (buf_put off ys xs) = buf_put off (ys @ zs) xs"
  using assms by (simp add: buf_put_def ac_simps)

section \<open>The contents of an inode\<close>

definition data_bytes :: "(nat \<Rightarrow> bytes) \<Rightarrow> DiskInode \<Rightarrow> nat \<Rightarrow> bytes" where
  "data_bytes d ino n = concat (map (\<lambda>b. d (unat b)) (inode_data d ino n))"

definition inode_content :: "(nat \<Rightarrow> bytes) \<Rightarrow> DiskInode \<Rightarrow> bytes" where
  "inode_content d ino = take (unat (isize ino)) (data_bytes d ino (unat (data_blocks ino)))"

lemma inode_data_block:
  assumes "inode_ok N d ino n" and "k < n"
  shows "inode_data d ino n ! k \<in> set (inode_data d ino n)"
    and "unat (inode_data d ino n ! k) < N" and "length (d (unat (inode_data d ino n ! k))) = 512"
proof -
  show mem: "inode_data d ino n ! k \<in> set (inode_data d ino n)"
    using length_inode_data [OF assms(1)] assms(2) by simp
  then show "unat (inode_data d ino n ! k) < N"
    using inode_okD(7) [OF assms(1)] set_inode_cells [OF assms(1)] by auto
  then show "length (d (unat (inode_data d ino n ! k))) = 512"
    using inode_okD(3) [OF assms(1)] by (simp add: disk_ok_def)
qed

lemma data_block_lengths:
  assumes "inode_ok N d ino n" and "x \<in> set (map (\<lambda>b. d (unat b)) (inode_data d ino n))"
  shows "length x = 512"
  using assms inode_data_block(3) [OF assms(1)] length_inode_data [OF assms(1)]
  by (auto simp: in_set_conv_nth)

lemma length_data_bytes:
  assumes "inode_ok N d ino n"
  shows "length (data_bytes d ino n) = n * 512"
  using length_concat_blocks [of "map (\<lambda>b. d (unat b)) (inode_data d ino n)" 512]
    data_block_lengths [OF assms] length_inode_data [OF assms]
  by (simp add: data_bytes_def)

lemma data_bytes_block:
  assumes "inode_ok N d ino n" and "k < n" and "off + m \<le> 512"
  shows "buf_get (k * 512 + off) m (data_bytes d ino n) = buf_get off m (d (unat (inode_data d ino n ! k)))"
  using buf_get_concat [of "map (\<lambda>b. d (unat b)) (inode_data d ino n)" 512 k off m]
    data_block_lengths [OF assms(1)] assms length_inode_data [OF assms(1)]
  by (simp add: data_bytes_def)

text \<open>Only the index blocks determine which blocks an inode has.\<close>

lemma inode_frame:
  assumes ok: "inode_ok N d ino n" and "disk_ok N d'"
    and same: "\<And>b. b \<in> set (inode_meta d ino n) \<Longrightarrow> d' (unat b) = d (unat b)"
  shows "inode_cells d' ino n = inode_cells d ino n" and "inode_data d' ino n = inode_data d ino n"
    and "inode_meta d' ino n = inode_meta d ino n" and "inode_ok N d' ino n"
proof -
  have slots: "slots d' b = slots d b" if "b \<in> set (inode_meta d ino n)" for b
    using same [OF that] by (simp add: slots_def)
  have s1: "slots d' (indirect1 ino) = slots d (indirect1 ino)" if "n > 28"
    using that by (intro slots) (simp add: inode_meta_def)
  have s2: "slots d' (indirect2 ino) = slots d (indirect2 ino)" if "n > 156"
    using that by (intro slots) (simp add: inode_meta_def)
  have sub: "slots d' (slots d (indirect2 ino) ! (j div 128)) = slots d (slots d (indirect2 ino) ! (j div 128))"
    if "n > 156" and "j < n - 156" for j
  proof (intro slots)
    have "j div 128 < n_subs (n - 156)" using that(2) by (rule n_subs_gt)
    then have "slots d (indirect2 ino) ! (j div 128) \<in> set (take (n_subs (n - 156)) (slots d (indirect2 ino)))"
      using inode_ok_slots [OF ok] that(1) by (auto simp: in_set_conv_nth)
    then show "slots d (indirect2 ino) ! (j div 128) \<in> set (inode_meta d ino n)"
      using that(1) by (simp add: inode_meta_def)
  qed
  have cells2: "cells2 (slots d (indirect2 ino)) (slots d') (n - 156) =
      cells2 (slots d (indirect2 ino)) (slots d) (n - 156)" if "n > 156"
    using sub that by (intro cells2_cong) simp_all
  have data2: "data2 (slots d (indirect2 ino)) (slots d') (n - 156) =
      data2 (slots d (indirect2 ino)) (slots d) (n - 156)" if "n > 156"
    using sub that by (simp add: data2_def)
  show c: "inode_cells d' ino n = inode_cells d ino n"
    using s1 s2 cells2 by (simp add: inode_cells_def)
  show "inode_data d' ino n = inode_data d ino n"
    using s1 s2 data2 by (simp add: inode_data_def)
  show "inode_meta d' ino n = inode_meta d ino n"
    using s2 by (simp add: inode_meta_def)
  show "inode_ok N d' ino n" using ok assms(2) by (simp add: inode_ok_def c)
qed

section \<open>Reading\<close>

lemma block_step:
  fixes start fin :: nat
  defines "cur \<equiv> min ((start div 512 + 1) * 512) fin"
  assumes "start < fin" and "fin \<le> n * 512"
  shows "start < cur" and "cur \<le> fin" and "start div 512 < n" and "start mod 512 + (cur - start) \<le> 512"
    and "cur \<noteq> fin \<Longrightarrow> cur div 512 = Suc (start div 512)"
proof -
  define q r where qr: "q = start div 512" "r = start mod 512"
  then have s: "start = q * 512 + r" "r < 512" by simp_all
  show "start < cur" "cur \<le> fin" "start mod 512 + (cur - start) \<le> 512"
    using s assms(2) by (auto simp: cur_def qr [symmetric] min_def)
  show "start div 512 < n" using assms(2,3) by (simp add: div_less_iff_less_mult)
  show "cur \<noteq> fin \<Longrightarrow> cur div 512 = Suc (start div 512)" by (auto simp: cur_def min_def split: if_splits)
qed

context block_store
begin

lemma read_loop_returns:
  assumes "inv s" and "inode_ok n_blocks (view s) ino n" and "card (held s) < 16"
    and "unat ` set (inode_cells (view s) ino n) \<inter> held s = {}"
    and "start < fin" and "fin \<le> n * 512" and "rs + (fin - start) \<le> length buf"
  shows "returns (read_loop B ino start fin (start div 512) rs buf s) (held s) (\<lambda>(k, buf') d.
    k = rs + (fin - start) \<and> d = view s \<and>
    buf' = buf_put rs (buf_get start (fin - start) (data_bytes (view s) ino n)) buf)"
  using assms
proof (induction "fin - start" arbitrary: start rs buf s rule: less_induct)
  case less
  define cur where "cur = min ((start div 512 + 1) * 512) fin"
  note step = block_step [OF less.prems(5,6), folded cur_def]
  let ?m = "cur - start" and ?k = "start div 512" and ?D = "data_bytes (view s) ino n"
  note ok = less.prems(2)
  let ?b = "inode_data (view s) ino n ! ?k"
  have b: "?b \<in> set (inode_data (view s) ino n)" "unat ?b < n_blocks" "length (view s (unat ?b)) = 512"
    using inode_data_block [OF ok step(3)] .
  have b_free: "unat ?b \<notin> held s" and meta: "unat ` set (inode_meta (view s) ino n) \<inter> held s = {}"
    using less.prems(4) b(1) set_inode_cells [OF ok] by auto
  let ?src = "buf_get (start mod 512) ?m (view s (unat ?b))"
  have src: "?src = buf_get start ?m ?D"
    using data_bytes_block [OF ok step(3,4)] by simp
  obtain s1 where s1: "get_block_id B ino ?k s = Some (?b, s1)" "inv s1" "held s1 = held s" "view s1 = view s"
    using get_block_id_returns [OF less.prems(1) ok step(3) meta less.prems(3)] by (rule returnsE) simp
  have "returns (bc_read B (unat ?b) 0 BLOCK_SZ
      (\<lambda>bs s2. do { src \<leftarrow> sub_slice bs (start mod BLOCK_SZ) ?m; Some (src, s2) }) s1) (held s1)
      (\<lambda>v d. v = ?src \<and> d = view s)"
    by (rule returns_read) (use s1 b b_free less.prems(3) step(4) in \<open>auto simp: sub_slice_def intro!: returns_Some\<close>)
  then obtain s2 where s2: "bc_read B (unat ?b) 0 BLOCK_SZ
      (\<lambda>bs s2. do { src \<leftarrow> sub_slice bs (start mod BLOCK_SZ) ?m; Some (src, s2) }) s1 = Some (?src, s2)"
      "inv s2" "held s2 = held s" "view s2 = view s"
    using s1(3) by (auto elim!: returnsE)
  let ?buf = "buf_put rs ?src buf"
  have len: "length ?src = ?m" "rs + ?m \<le> length buf" using b(3) step less.prems(7) by auto
  have run: "read_loop B ino start fin ?k rs buf s =
      (if cur = fin then Some ((rs + ?m, ?buf), s2) else read_loop B ino cur fin (Suc ?k) (rs + ?m) ?buf s2)"
    using s1(1) s2(1) len 
    unfolding read_loop.simps [of B ino start fin ?k rs buf s] Let_def layout_consts cur_def [symmetric]
    by (simp add: sub_slice_def)
  show ?case
  proof (cases "cur = fin")
    case True
    then show ?thesis using run s2 src by (auto intro!: returns_Some)
  next
    case False
    have tot: "fin - start = ?m + (fin - cur)" using step(1,2) by simp
    have ih: "returns (read_loop B ino cur fin (cur div 512) (rs + ?m) ?buf s2) (held s2) (\<lambda>(k, buf') d.
        k = rs + ?m + (fin - cur) \<and> d = view s2 \<and>
        buf' = buf_put (rs + ?m) (buf_get cur (fin - cur) (data_bytes (view s2) ino n)) ?buf)"
    proof (intro less.hyps)
      show "rs + ?m + (fin - cur) \<le> length ?buf" using len less.prems(7) tot by simp
      show "cur < fin" "fin - cur < fin - start" using step(1,2) False by simp_all
    qed (use less.prems(2-4,6) s2 in simp_all)
    have put: "buf_put (rs + ?m) (buf_get cur (fin - cur) ?D) ?buf = buf_put rs (buf_get start (fin - start) ?D) buf"
    proof -
      have "start + ?m = cur" using step(1) by simp
      then have get: "?src @ buf_get cur (fin - cur) ?D = buf_get start (fin - start) ?D"
        using buf_get_append_buf_get [of start ?m "fin - cur" ?D] by (simp only: tot src)
      have len2: "length (buf_get cur (fin - cur) ?D) = fin - cur"
        using less.prems(6) length_data_bytes [OF ok] by simp
      have "rs + length ?src + length (buf_get cur (fin - cur) ?D) \<le> length buf"
        unfolding len(1) len2 using less.prems(7) tot by simp
      from buf_put_append [OF this] show ?thesis unfolding get len(1) .
    qed
    show ?thesis
      using ih unfolding run if_not_P [OF False] step(5) [OF False] s2(3,4) put
      by (simp only: tot add.assoc)
  qed
qed

text \<open>\<^verbatim>\<open>read_at\<close> copies the part of the contents that starts at the offset and fits the buffer.\<close>

lemma read_at_returns:
  assumes inv: "inv s" and ok: "inode_ok n_blocks (view s) ino n" and n: "unat (data_blocks ino) = n"
    and size: "unat (isize ino) \<le> n * 512" and room: "card (held s) < 16"
    and free: "unat ` set (inode_cells (view s) ino n) \<inter> held s = {}"
  shows "returns (DiskInode_read_at B ino off buf s) (held s) (\<lambda>(k, buf') d. d = view s \<and>
    k = length (buf_get off (length buf) (inode_content (view s) ino)) \<and>
    buf' = buf_put 0 (buf_get off (length buf) (inode_content (view s) ino)) buf)"
proof -
  let ?D = "data_bytes (view s) ino n" and ?fin = "min (off + length buf) (unat (isize ino))"
  have content: "inode_content (view s) ino = take (unat (isize ino)) ?D"
    by (simp add: inode_content_def n)
  have lenD: "length ?D = n * 512" using ok by (rule length_data_bytes)
  have get: "buf_get off (length buf) (inode_content (view s) ino) = buf_get off (?fin - off) ?D"
    unfolding content by (rule buf_get_take)
  show ?thesis
  proof (cases "off \<ge> ?fin")
    case True
    then have "buf_get off (?fin - off) ?D = []" by (simp add: buf_get_def)
    with True inv show ?thesis
      unfolding get DiskInode_read_at_def Let_def by (auto intro!: returns_Some)
  next
    case False
    then have len: "length (buf_get off (?fin - off) ?D) = ?fin - off" using size lenD by simp
    have "returns (read_loop B ino off ?fin (off div 512) 0 buf s) (held s) (\<lambda>(k, buf') d.
        k = 0 + (?fin - off) \<and> d = view s \<and> buf' = buf_put 0 (buf_get off (?fin - off) ?D) buf)"
      using False size by (intro read_loop_returns inv ok room free) auto
    moreover have "DiskInode_read_at B ino off buf s = read_loop B ino off ?fin (off div 512) 0 buf s"
      using False by (simp add: DiskInode_read_at_def Let_def)
    ultimately show ?thesis unfolding get len by (simp add: case_prod_unfold conj_ac)
  qed
qed

end

section \<open>Writing\<close>

lemma write_block_effect:
  fixes d ino n k
  defines "b \<equiv> unat (inode_data d ino n ! k)"
  assumes ok: "inode_ok N d ino n" and k: "k < n" and off: "off + length ys \<le> 512"
  shows "inode_ok N (d(b := buf_put off ys (d b))) ino n"
    and "inode_cells (d(b := buf_put off ys (d b))) ino n = inode_cells d ino n"
    and "inode_data (d(b := buf_put off ys (d b))) ino n = inode_data d ino n"
    and "inode_meta (d(b := buf_put off ys (d b))) ino n = inode_meta d ino n"
    and "data_bytes (d(b := buf_put off ys (d b))) ino n = buf_put (k * 512 + off) ys (data_bytes d ino n)"
proof -
  let ?d = "d(b := buf_put off ys (d b))" and ?data = "inode_data d ino n"
  note blk = inode_data_block [OF ok k, folded b_def]
  have disk: "disk_ok N ?d" using inode_okD(3) [OF ok] blk(3) off by (simp add: disk_ok_def)
  have "?data ! k \<notin> set (inode_meta d ino n)" using inode_data_distinct(2) [OF ok] blk(1) by auto
  then have same: "?d (unat c) = d (unat c)" if "c \<in> set (inode_meta d ino n)" for c
    using that by (auto simp: b_def)
  note frame = inode_frame [OF ok disk same]
  show "inode_ok N ?d ino n" "inode_cells ?d ino n = inode_cells d ino n"
    "inode_meta ?d ino n = inode_meta d ino n" and data: "inode_data ?d ino n = ?data"
    using frame by blast+
  have len: "length ?data = n" using ok by (rule length_inode_data)
  have "map (\<lambda>c. ?d (unat c)) ?data = (map (\<lambda>c. d (unat c)) ?data)[k := buf_put off ys (map (\<lambda>c. d (unat c)) ?data ! k)]"
    using k len inode_data_distinct(1) [OF ok]
    by (intro nth_equalityI) (auto simp: b_def nth_list_update nth_eq_iff_index_eq)
  then have "data_bytes ?d ino n = concat ((map (\<lambda>c. d (unat c)) ?data)[k := buf_put off ys (map (\<lambda>c. d (unat c)) ?data ! k)])"
    by (simp only: data_bytes_def data)
  also have "\<dots> = buf_put (k * 512 + off) ys (concat (map (\<lambda>c. d (unat c)) ?data))"
    using data_block_lengths [OF ok] k len off by (intro buf_put_concat) simp_all
  finally show "data_bytes ?d ino n = buf_put (k * 512 + off) ys (data_bytes d ino n)"
    by (simp add: data_bytes_def)
qed

context block_store
begin

lemma write_loop_returns:
  assumes "inv s" and "inode_ok n_blocks (view s) ino n" and "card (held s) < 16"
    and "unat ` set (inode_cells (view s) ino n) \<inter> held s = {}"
    and "start < fin" and "fin \<le> n * 512" and "ws + (fin - start) \<le> length buf"
  shows "returns (write_loop B ino start fin (start div 512) ws buf s) (held s) (\<lambda>k d.
    k = ws + (fin - start) \<and> inode_ok n_blocks d ino n \<and>
    inode_cells d ino n = inode_cells (view s) ino n \<and> inode_data d ino n = inode_data (view s) ino n \<and>
    data_bytes d ino n = buf_put start (buf_get ws (fin - start) buf) (data_bytes (view s) ino n) \<and>
    (\<forall>b. b \<notin> unat ` set (inode_data (view s) ino n) \<longrightarrow> d b = view s b))"
  using assms
proof (induction "fin - start" arbitrary: start ws s rule: less_induct)
  case less
  define cur where "cur = min ((start div 512 + 1) * 512) fin"
  note step = block_step [OF less.prems(5,6), folded cur_def]
  let ?m = "cur - start" and ?k = "start div 512" and ?D = "data_bytes (view s) ino n"
  note ok = less.prems(2)
  let ?b = "inode_data (view s) ino n ! ?k"
  have b: "?b \<in> set (inode_data (view s) ino n)" "unat ?b < n_blocks" "length (view s (unat ?b)) = 512"
    using inode_data_block [OF ok step(3)] .
  have b_free: "unat ?b \<notin> held s" and meta: "unat ` set (inode_meta (view s) ino n) \<inter> held s = {}"
    using less.prems(4) b(1) set_inode_cells [OF ok] by auto
  obtain s1 where s1: "get_block_id B ino ?k s = Some (?b, s1)" "inv s1" "held s1 = held s" "view s1 = view s"
    using get_block_id_returns [OF less.prems(1) ok step(3) meta less.prems(3)] by (rule returnsE) simp
  let ?src = "buf_get ws ?m buf"
  let ?wr = "\<lambda>bs s2. do {
             src \<leftarrow> sub_slice buf ws ?m;
             dst \<leftarrow> sub_slice bs (start mod BLOCK_SZ) ?m;
             Some (((), buf_put (start mod BLOCK_SZ) src bs), s2)
           }"
  have src: "length ?src = ?m" "ws + ?m \<le> length buf" using step(2) less.prems(7) by auto
  let ?d = "(view s)(unat ?b := buf_put (start mod 512) ?src (view s (unat ?b)))"
  have "returns (bc_modify B (unat ?b) 0 BLOCK_SZ ?wr s1) (held s1) (\<lambda>v d. d = ?d)"
    by (rule returns_modify)
      (use s1 b b_free less.prems(3) step(4) src in \<open>auto simp: sub_slice_def intro!: returns_Some\<close>)
  then obtain u s2 where s2: "bc_modify B (unat ?b) 0 BLOCK_SZ ?wr s1 = Some (u, s2)"
      "inv s2" "held s2 = held s" "view s2 = ?d"
    using s1(3) by (auto elim!: returnsE)
  have "start mod 512 + length ?src \<le> 512" using src step(4) by simp
  note eff = write_block_effect [OF ok step(3) this, folded s2(4)]
  have D: "data_bytes (view s2) ino n = buf_put start ?src ?D" using eff(5) by simp
  have run: "write_loop B ino start fin ?k ws buf s =
      (if cur = fin then Some (ws + ?m, s2) else write_loop B ino cur fin (Suc ?k) (ws + ?m) buf s2)"
    using s1(1) s2(1)
    unfolding write_loop.simps [of B ino start fin ?k ws buf s] Let_def layout_consts cur_def [symmetric]
    by simp
  show ?case
  proof (cases "cur = fin")
    case True
    then show ?thesis using run s2 eff(1-3) D b(1) by (auto intro!: returns_Some)
  next
    case False
    have tot: "fin - start = ?m + (fin - cur)" using step(1,2) by simp
    have ih: "returns (write_loop B ino cur fin (cur div 512) (ws + ?m) buf s2) (held s2) (\<lambda>k d.
        k = ws + ?m + (fin - cur) \<and> inode_ok n_blocks d ino n \<and>
        inode_cells d ino n = inode_cells (view s2) ino n \<and> inode_data d ino n = inode_data (view s2) ino n \<and>
        data_bytes d ino n = buf_put cur (buf_get (ws + ?m) (fin - cur) buf) (data_bytes (view s2) ino n) \<and>
        (\<forall>b. b \<notin> unat ` set (inode_data (view s2) ino n) \<longrightarrow> d b = view s2 b))"
    proof (intro less.hyps)
      show "ws + ?m + (fin - cur) \<le> length buf" using less.prems(7) tot by simp
      show "cur < fin" "fin - cur < fin - start" using step(1,2) False by simp_all
    qed (use less.prems(3,4,6) s2 eff(1,2) in simp_all)
    have put: "buf_put cur (buf_get (ws + ?m) (fin - cur) buf) (buf_put start ?src ?D) =
        buf_put start (buf_get ws (fin - start) buf) ?D"
    proof -
      have cur: "start + ?m = cur" using step(1) by simp
      have "length (buf_get (ws + ?m) (fin - cur) buf) = fin - cur" using less.prems(7) tot by simp
      then have "start + length ?src + length (buf_get (ws + ?m) (fin - cur) buf) \<le> length ?D"
        using less.prems(6) step(2) cur length_data_bytes [OF ok] src(1) by simp
      from buf_put_append [OF this] show ?thesis
        unfolding src(1) cur buf_get_append_buf_get [symmetric] tot .
    qed
    show ?thesis
      unfolding run if_not_P [OF False]
    proof (rule returns_mono)
      show "returns (write_loop B ino cur fin (Suc ?k) (ws + ?m) buf s2) (held s) (\<lambda>k d.
        k = ws + ?m + (fin - cur) \<and> inode_ok n_blocks d ino n \<and>
        inode_cells d ino n = inode_cells (view s) ino n \<and> inode_data d ino n = inode_data (view s) ino n \<and>
        data_bytes d ino n = buf_put cur (buf_get (ws + ?m) (fin - cur) buf) (buf_put start ?src ?D) \<and>
        (\<forall>b. b \<notin> unat ` set (inode_data (view s) ino n) \<longrightarrow> d b = view s2 b))"
        using ih unfolding step(5) [OF False] s2(3) eff(2,3) D .
    next
      fix k d
      assume q: "k = ws + ?m + (fin - cur) \<and> inode_ok n_blocks d ino n \<and>
        inode_cells d ino n = inode_cells (view s) ino n \<and> inode_data d ino n = inode_data (view s) ino n \<and>
        data_bytes d ino n = buf_put cur (buf_get (ws + ?m) (fin - cur) buf) (buf_put start ?src ?D) \<and>
        (\<forall>b. b \<notin> unat ` set (inode_data (view s) ino n) \<longrightarrow> d b = view s2 b)"
      have "view s2 c = view s c" if "c \<notin> unat ` set (inode_data (view s) ino n)" for c
        using that b(1) s2(4) by auto
      with q show "k = ws + (fin - start) \<and> inode_ok n_blocks d ino n \<and>
        inode_cells d ino n = inode_cells (view s) ino n \<and> inode_data d ino n = inode_data (view s) ino n \<and>
        data_bytes d ino n = buf_put start (buf_get ws (fin - start) buf) ?D \<and>
        (\<forall>b. b \<notin> unat ` set (inode_data (view s) ino n) \<longrightarrow> d b = view s b)"
        unfolding put by (simp add: tot)
    qed
  qed
qed

text \<open>\<^verbatim>\<open>write_at\<close> replaces a part of the contents and leaves all other blocks alone.\<close>

lemma write_at_returns:
  assumes inv: "inv s" and ok: "inode_ok n_blocks (view s) ino n" and n: "unat (data_blocks ino) = n"
    and size: "unat (isize ino) \<le> n * 512" and room: "card (held s) < 16"
    and free: "unat ` set (inode_cells (view s) ino n) \<inter> held s = {}"
    and off: "off < unat (isize ino)" and buf: "buf \<noteq> []"
  shows "returns (DiskInode_write_at B ino off buf s) (held s) (\<lambda>k d.
    k = min (length buf) (unat (isize ino) - off) \<and> inode_ok n_blocks d ino n \<and>
    inode_cells d ino n = inode_cells (view s) ino n \<and>
    inode_content d ino = buf_put off (take k buf) (inode_content (view s) ino) \<and>
    (\<forall>b. b \<notin> unat ` set (inode_data (view s) ino n) \<longrightarrow> d b = view s b))"
proof -
  let ?sz = "unat (isize ino)" and ?D = "data_bytes (view s) ino n"
  let ?fin = "min (off + length buf) ?sz"
  have fin: "off < ?fin" "?fin \<le> n * 512" "?fin - off = min (length buf) (?sz - off)"
    using off buf size by auto
  have run: "DiskInode_write_at B ino off buf s = write_loop B ino off ?fin (off div 512) 0 buf s"
    using fin(1) by (simp add: DiskInode_write_at_def Let_def)
  have lenD: "length ?D = n * 512" using ok by (rule length_data_bytes)
  have take: "take ?sz (buf_put off (buf_get 0 (?fin - off) buf) ?D) =
      buf_put off (take (?fin - off) buf) (take ?sz ?D)"
    using fin size lenD off by (intro nth_equalityI) (auto simp: nth_buf_put buf_get_def)
  show ?thesis
    unfolding run
  proof (rule returns_mono)
    show "returns (write_loop B ino off ?fin (off div 512) 0 buf s) (held s) (\<lambda>k d.
      k = 0 + (?fin - off) \<and> inode_ok n_blocks d ino n \<and>
      inode_cells d ino n = inode_cells (view s) ino n \<and> inode_data d ino n = inode_data (view s) ino n \<and>
      data_bytes d ino n = buf_put off (buf_get 0 (?fin - off) buf) ?D \<and>
      (\<forall>b. b \<notin> unat ` set (inode_data (view s) ino n) \<longrightarrow> d b = view s b))"
      using fin by (intro write_loop_returns inv ok room free) auto
  qed (use take fin(3) n in \<open>auto simp: inode_content_def\<close>)
qed

end

end
