(* ===== verification/Efs.thy ===== *)
theory Efs
  imports Bitmap InodeData
begin

text \<open>
  The file system on its block device (\<^verbatim>\<open>easy-fs/src/efs.rs\<close>): the areas of the
  disk, creation and opening, and the allocation of inodes and data blocks. The
  device is the block store the operations take as an argument.
\<close>

section \<open>Definitions\<close>

record EasyFileSystem =
  inode_bitmap :: Bitmap
  data_bitmap :: Bitmap
  inode_area_start_block :: u32
  data_area_start_block :: u32

definition get_disk_inode_pos :: "EasyFileSystem \<Rightarrow> u32 \<Rightarrow> u32 \<times> nat" where
  "get_disk_inode_pos efs inode_id =
     (let inodes_per_block = of_nat (BLOCK_SZ div DiskInode_size);
          block_id = inode_area_start_block efs + inode_id div inodes_per_block
      in (block_id, unat (inode_id mod inodes_per_block) * DiskInode_size))"

definition get_data_block_id :: "EasyFileSystem \<Rightarrow> u32 \<Rightarrow> u32" where
  "get_data_block_id efs data_block_id = data_area_start_block efs + data_block_id"

definition alloc_inode :: "'s block_ops \<Rightarrow> EasyFileSystem \<Rightarrow> 's \<Rightarrow> (u32 \<times> 's) option" where
  "alloc_inode B efs s = do {
     (r, s1) \<leftarrow> Bitmap_alloc B (inode_bitmap efs) s;
     k \<leftarrow> r;
     Some (of_nat k, s1)
   }"

definition alloc_data :: "'s block_ops \<Rightarrow> EasyFileSystem \<Rightarrow> 's \<Rightarrow> (u32 \<times> 's) option" where
  "alloc_data B efs s = do {
     (r, s1) \<leftarrow> Bitmap_alloc B (data_bitmap efs) s;
     k \<leftarrow> r;
     Some (of_nat k + data_area_start_block efs, s1)
   }"

definition zero_block :: "'s block_ops \<Rightarrow> nat \<Rightarrow> 's \<Rightarrow> (unit \<times> 's) option" where
  "zero_block B bid s = bc_modify B bid 0 BLOCK_SZ (\<lambda>bs s1. Some (((), map (\<lambda>b. 0) bs), s1)) s"

definition dealloc_data :: "'s block_ops \<Rightarrow> EasyFileSystem \<Rightarrow> u32 \<Rightarrow> 's \<Rightarrow> (unit \<times> 's) option" where
  "dealloc_data B efs block_id s = do {
     (u, s1) \<leftarrow> zero_block B (unat block_id) s;
     Bitmap_dealloc B (data_bitmap efs) (unat (block_id - data_area_start_block efs)) s1
   }"

fun zero_blocks :: "'s block_ops \<Rightarrow> nat list \<Rightarrow> 's \<Rightarrow> (unit \<times> 's) option" where
  "zero_blocks B [] s = Some ((), s)"
| "zero_blocks B (i # is) s = do { (u, s1) \<leftarrow> zero_block B i s; zero_blocks B is s1 }"

text \<open>A closure over the disk inode at a block and offset.\<close>

definition bc_modify_inode ::
  "'s block_ops \<Rightarrow> nat \<Rightarrow> nat \<Rightarrow> (DiskInode \<Rightarrow> 's \<Rightarrow> (('v \<times> DiskInode) \<times> 's) option) \<Rightarrow> 's \<Rightarrow> ('v \<times> 's) option"
where
  "bc_modify_inode B bid off f s = bc_modify B bid off DiskInode_size
     (\<lambda>bs s1. do {
        ino \<leftarrow> DiskInode_decode bs;
        ((v, ino'), s2) \<leftarrow> f ino s1;
        Some ((v, DiskInode_encode ino' bs), s2)
      }) s"

definition EasyFileSystem_layout :: "u32 \<Rightarrow> u32 \<Rightarrow> EasyFileSystem \<times> SuperBlock" where
  "EasyFileSystem_layout tot ibb =
     (let inode_bm = Bitmap_new 1 (unat ibb);
          inode_num = Bitmap_maximum inode_bm;
          iab = of_nat ((inode_num * DiskInode_size + BLOCK_SZ - 1) div BLOCK_SZ);
          inode_total_blocks = ibb + iab;
          data_total_blocks = tot - 1 - inode_total_blocks;
          dbb = (data_total_blocks + 4096) div 4097;
          dab = data_total_blocks - dbb;
          data_bm = Bitmap_new (unat (1 + ibb + iab)) (unat dbb)
      in (\<lparr>inode_bitmap = inode_bm, data_bitmap = data_bm,
            inode_area_start_block = 1 + ibb,
            data_area_start_block = 1 + inode_total_blocks + dbb\<rparr>,
          SuperBlock_initialize tot ibb iab
            dbb dab))"

definition EasyFileSystem_create ::
  "'s block_ops \<Rightarrow> u32 \<Rightarrow> u32 \<Rightarrow> 's \<Rightarrow> (EasyFileSystem \<times> 's) option"
where
  "EasyFileSystem_create B tot ibb s =
     (let (efs, sb) = EasyFileSystem_layout tot ibb in do {
        (u, s1) \<leftarrow> zero_blocks B [0..<unat tot] s;
        (u, s2) \<leftarrow> bc_modify B 0 0 SuperBlock_size (\<lambda>bs s. Some (((), SuperBlock_encode sb), s)) s1;
        (root_id, s3) \<leftarrow> alloc_inode B efs s2;
        if root_id = 0 then do {
          let (root_block_id, root_offset) = get_disk_inode_pos efs 0;
          (u, s4) \<leftarrow> bc_modify_inode B (unat root_block_id) root_offset
            (\<lambda>ino s. Some (((), DiskInode_initialize Directory ino), s)) s3;
          s5 \<leftarrow> sync_blocks B s4;
          Some (efs, s5)
        } else None
      })"

definition EasyFileSystem_open :: "'s block_ops \<Rightarrow> 's \<Rightarrow> (EasyFileSystem \<times> 's) option" where
  "EasyFileSystem_open B s = bc_read B 0 0 SuperBlock_size
     (\<lambda>bs s1. let sb = SuperBlock_decode bs in
        if SuperBlock_is_valid sb
        then (let inode_total_blocks = inode_bitmap_blocks sb + inode_area_blocks sb
              in Some (\<lparr>inode_bitmap = Bitmap_new 1 (unat (inode_bitmap_blocks sb)),
                    data_bitmap = Bitmap_new (unat (1 + inode_total_blocks)) (unat (data_bitmap_blocks sb)),
                    inode_area_start_block = 1 + inode_bitmap_blocks sb,
                    data_area_start_block = 1 + inode_total_blocks + data_bitmap_blocks sb\<rparr>, s1))
        else None) s"

end
