(* ===== verification/EfsOps.thy ===== *)
theory EfsOps
  imports Efs
begin

text \<open>
  The disk layout that \<^verbatim>\<open>EasyFileSystem::create\<close> computes, and what the allocation of
  inodes and data blocks does to a disk with that layout, for any block store that
  meets \<open>block_store\<close>.
\<close>

section \<open>Codecs\<close>

lemma SuperBlock_roundtrip [simp]: "SuperBlock_decode (SuperBlock_encode sb) = sb"
  by (simp add: SuperBlock_decode_def SuperBlock_encode_def)

lemma length_SuperBlock_encode [simp]: "length (SuperBlock_encode sb) = 24"
  by (simp add: SuperBlock_encode_def)

lemma DiskInode_roundtrip:
  assumes "length (direct ino) = 28"
  shows "DiskInode_decode (DiskInode_encode ino old) = Some ino"
proof -
  let ?ws = "isize ino # direct ino @ [indirect1 ino, indirect2 ino]"
  let ?bs = "bytes_of 4 ?ws @ type_byte (itype ino) # drop 125 old"
  have len: "length (bytes_of 4 ?ws) = 124" using assms by simp
  have at: "word_at 4 ?bs i = ?ws ! i" if "i < 31" for i
  proof -
    have "buf_get (i * 4) 4 ?bs = buf_get (i * 4) 4 (bytes_of 4 ?ws)"
      using that len by (simp add: buf_get_def)
    then have "word_at 4 ?bs i = word_at 4 (bytes_of 4 ?ws) i" by (simp add: word_at_def)
    then show ?thesis using that assms by (subst (asm) word_at_bytes_of) simp_all
  qed
  have "byte_type (?bs ! 124) = Some (itype ino)"
    using len by (cases "itype ino") (simp_all add: nth_append byte_type_def)
  moreover have "map (\<lambda>i. word_at 4 ?bs (Suc i)) [0..<28] = direct ino"
    using assms by (intro nth_equalityI) (simp_all add: at nth_append)
  moreover have "word_at 4 ?bs 0 = isize ino" "word_at 4 ?bs 29 = indirect1 ino" "word_at 4 ?bs 30 = indirect2 ino"
    using assms by (simp_all add: at nth_append)
  ultimately show ?thesis unfolding DiskInode_decode_def DiskInode_encode_def by simp
qed

lemma length_DiskInode_encode:
  "length (direct ino) = 28 \<Longrightarrow> length old = 128 \<Longrightarrow> length (DiskInode_encode ino old) = 128"
  by (simp add: DiskInode_encode_def)

lemma DiskInode_decode_direct: "DiskInode_decode bs = Some ino \<Longrightarrow> length (direct ino) = 28"
  by (auto simp: DiskInode_decode_def bind_Some_iff)

section \<open>The areas of the disk\<close>

text \<open>
  The geometry of a file system of \<open>N\<close> blocks: super block, inode bitmap, inode
  area, data bitmap and data area follow each other, the inode area has a slot for
  every bit of its bitmap, and the data bitmap a bit for every data block.
\<close>

definition efs_ok :: "nat \<Rightarrow> EasyFileSystem \<Rightarrow> bool" where
  "efs_ok N E \<longleftrightarrow> start_block_id (inode_bitmap E) = 1 \<and> 0 < bm_blocks (inode_bitmap E) \<and>
     bm_blocks (inode_bitmap E) < 2 ^ 20 \<and>
     unat (inode_area_start_block E) = 1 + bm_blocks (inode_bitmap E) \<and>
     start_block_id (data_bitmap E) = 1 + 1025 * bm_blocks (inode_bitmap E) \<and>
     unat (data_area_start_block E) = start_block_id (data_bitmap E) + bm_blocks (data_bitmap E) \<and>
     unat (data_area_start_block E) \<le> N \<and> N < 2 ^ 32 \<and>
     N - unat (data_area_start_block E) \<le> bm_blocks (data_bitmap E) * 4096"

definition data_start :: "EasyFileSystem \<Rightarrow> nat" where
  "data_start E = unat (data_area_start_block E)"

definition bm_area :: "Bitmap \<Rightarrow> nat set" where
  "bm_area bm = {start_block_id bm..<start_block_id bm + bm_blocks bm}"

definition inode_area :: "EasyFileSystem \<Rightarrow> nat set" where
  "inode_area E = {1 + bm_blocks (inode_bitmap E)..<1 + 1025 * bm_blocks (inode_bitmap E)}"

lemma efs_areas:
  assumes "efs_ok N E"
  shows "bm_area (inode_bitmap E) \<subseteq> {..<N}" and "bm_area (data_bitmap E) \<subseteq> {..<N}" and "inode_area E \<subseteq> {..<N}"
    and "bm_area (inode_bitmap E) \<inter> bm_area (data_bitmap E) = {}"
    and "bm_area (inode_bitmap E) \<inter> inode_area E = {}" and "bm_area (data_bitmap E) \<inter> inode_area E = {}"
    and "bm_area (inode_bitmap E) \<subseteq> {1..<data_start E}" and "bm_area (data_bitmap E) \<subseteq> {1..<data_start E}"
    and "inode_area E \<subseteq> {1..<data_start E}" and "data_start E \<le> N"
  using assms by (auto simp: efs_ok_def bm_area_def inode_area_def data_start_def)

lemma max_new: "Bitmap_maximum (Bitmap_new a n) = n * 4096"
  by (simp add: Bitmap_maximum_def Bitmap_new_def)

lemma layout_ok:
  assumes ibb: "0 < unat ibb" "unat ibb < 2 ^ 20" and tot: "unat tot + 4096 < 2 ^ 32" "1 + 1025 * unat ibb < unat tot"
  defines "E \<equiv> fst (EasyFileSystem_layout tot ibb)" and "sb \<equiv> snd (EasyFileSystem_layout tot ibb)"
  shows "efs_ok (unat tot) E" and "unat (data_area_blocks sb) = unat tot - data_start E"
    and "unat (inode_area_blocks sb) = 1024 * unat ibb" and "0 < bm_blocks (data_bitmap E)"
proof -
  define iab :: u32 where "iab = of_nat ((unat ibb * 4096 * 128 + 512 - 1) div 512)"
  have "(unat ibb * 4096 * 128 + 512 - 1) div 512 = 1024 * unat ibb" by simp
  then have iab: "unat iab = 1024 * unat ibb"
    unfolding iab_def using tot by (simp only:) (intro unat_of_nat_exact, simp)
  have itb: "unat (ibb + iab) = 1025 * unat ibb" using iab tot by (subst word_add_exact) simp_all
  have itb1: "unat (1 + ibb + iab) = 1 + 1025 * unat ibb" "unat (1 + (ibb + iab)) = 1 + 1025 * unat ibb"
    "unat (1 + ibb) = 1 + unat ibb"
    using itb tot by (simp_all add: word_add_exact add.assoc)
  define dtb where "dtb = tot - 1 - (ibb + iab)"
  have "unat (tot - 1) = unat tot - 1" using tot by (subst word_sub_exact) simp_all
  then have dtb: "unat dtb = unat tot - 1 - 1025 * unat ibb"
    unfolding dtb_def using itb tot by (subst word_sub_exact) simp_all
  define dbb where "dbb = (dtb + 4096) div 4097"
  define T where "T = unat tot - 1 - 1025 * unat ibb"
  have T: "unat tot = T + 1 + 1025 * unat ibb" "0 < T" using tot by (simp_all add: T_def)
  have "unat (dtb + 4096) = T + 4096" using dtb tot by (subst word_add_exact) (simp_all add: T_def)
  then have dbb: "unat dbb = (T + 4096) div 4097" by (simp add: dbb_def unat_div)
  define q where "q = (T + 4096) div 4097"
  have q: "q * 4097 \<le> T + 4096" "T \<le> q * 4097" unfolding q_def
    using div_mult_mod_eq [of "T + 4096" 4097] mod_less_divisor [of 4097 "T + 4096"] by linarith+
  have q_le: "q \<le> T" "0 < q" using q T by linarith+
  have start: "unat (1 + (ibb + iab) + dbb) = 1 + 1025 * unat ibb + q"
    using itb1 dbb q_le T tot by (subst word_add_exact) (simp_all add: q_def)
  have E: "E = \<lparr>inode_bitmap = Bitmap_new 1 (unat ibb),
      data_bitmap = Bitmap_new (unat (1 + ibb + iab)) (unat dbb),
      inode_area_start_block = 1 + ibb, data_area_start_block = 1 + (ibb + iab) + dbb\<rparr>"
    and sb: "sb = SuperBlock_initialize tot ibb iab dbb (dtb - dbb)"
    by (simp_all only: E_def sb_def EasyFileSystem_layout_def Let_def max_new layout_consts
      iab_def dtb_def dbb_def fst_conv snd_conv)
  have d: "data_start E = 1 + 1025 * unat ibb + q" by (simp only: data_start_def E start EasyFileSystem.simps)
  show "efs_ok (unat tot) E"
    using ibb tot(1) itb1 d dbb q q_le T unfolding efs_ok_def data_start_def [symmetric]
    by (simp add: E Bitmap_new_def q_def [symmetric])
  have "unat (dtb - dbb) = T - q" using dtb dbb q_le by (subst word_sub_exact) (simp_all add: q_def T_def)
  then show "unat (data_area_blocks sb) = unat tot - data_start E"
    using d T by (simp add: sb SuperBlock_initialize_def)
  show "unat (inode_area_blocks sb) = 1024 * unat ibb" by (simp add: sb SuperBlock_initialize_def iab)
  show "0 < bm_blocks (data_bitmap E)" using dbb q_le by (simp add: E Bitmap_new_def q_def)
qed

section \<open>Inode positions\<close>

lemma inode_pos:
  assumes ok: "efs_ok N E" and i: "unat i < Bitmap_maximum (inode_bitmap E)"
  obtains blk off where "get_disk_inode_pos E i = (blk, off)" and "unat blk \<in> inode_area E"
    and "unat blk = 1 + bm_blocks (inode_bitmap E) + unat i div 4" and "off = unat i mod 4 * 128"
    and "off + 128 \<le> 512"
proof -
  let ?n = "bm_blocks (inode_bitmap E)"
  have lt: "unat i div 4 < 1024 * ?n" using i by (simp add: Bitmap_maximum_def div_less_iff_less_mult)
  have start: "unat (inode_area_start_block E) = 1 + ?n" and "1 + 1025 * ?n < 2 ^ 32"
    using ok by (simp_all add: efs_ok_def)
  then have blk: "unat (inode_area_start_block E + i div 4) = 1 + ?n + unat i div 4"
    using lt by (subst word_add_exact) (simp_all add: unat_div)
  have "unat i mod 4 < 4" by simp
  then have "unat i mod 4 * 128 + 128 \<le> 512" by linarith
  with blk lt show ?thesis
    by (intro that [of "inode_area_start_block E + i div 4" "unat i mod 4 * 128"])
      (simp_all add: get_disk_inode_pos_def unat_mod inode_area_def)
qed

text \<open>The slots of different inodes do not overlap.\<close>

lemma inode_pos_disjoint:
  assumes ok: "efs_ok N E" and i: "unat i < Bitmap_maximum (inode_bitmap E)"
    and j: "unat j < Bitmap_maximum (inode_bitmap E)" and "i \<noteq> j"
    and pos: "get_disk_inode_pos E i = (b1, o1)" "get_disk_inode_pos E j = (b2, o2)"
  shows "b1 \<noteq> b2 \<or> o1 + 128 \<le> o2 \<or> o2 + 128 \<le> o1"
proof -
  have p: "unat b1 = 1 + bm_blocks (inode_bitmap E) + unat i div 4" "o1 = unat i mod 4 * 128"
      "unat b2 = 1 + bm_blocks (inode_bitmap E) + unat j div 4" "o2 = unat j mod 4 * 128"
    using inode_pos [OF ok i] inode_pos [OF ok j] pos by (metis prod.inject)+
  have "unat i div 4 \<noteq> unat j div 4 \<or> unat i mod 4 \<noteq> unat j mod 4"
    using \<open>i \<noteq> j\<close> div_mult_mod_eq [of "unat i" 4] div_mult_mod_eq [of "unat j" 4] by (metis unat_eq_iff)
  with p show ?thesis by auto
qed

section \<open>Allocating and releasing\<close>

context block_store
begin

lemma alloc_inode_returns:
  assumes inv: "inv s" and ok: "efs_ok N E" and N: "N \<le> n_blocks" and room: "card (held s) < 16"
    and held: "bm_area (inode_bitmap E) \<inter> held s = {}"
    and free: "bm_used (view s) (inode_bitmap E) \<noteq> {..<Bitmap_maximum (inode_bitmap E)}"
  shows "returns (alloc_inode B E s) (held s) (\<lambda>i d.
    unat i < Bitmap_maximum (inode_bitmap E) \<and> unat i \<notin> bm_used (view s) (inode_bitmap E) \<and>
    {..<unat i} \<subseteq> bm_used (view s) (inode_bitmap E) \<and>
    bm_used d (inode_bitmap E) = insert (unat i) (bm_used (view s) (inode_bitmap E)) \<and>
    (\<forall>b. b \<notin> bm_area (inode_bitmap E) \<longrightarrow> d b = view s b))"
proof -
  let ?bm = "inode_bitmap E"
  have n: "Bitmap_maximum ?bm < 2 ^ 32" and dev: "start_block_id ?bm + bm_blocks ?bm \<le> n_blocks"
    using ok N by (auto simp: efs_ok_def Bitmap_maximum_def)
  have area: "{start_block_id ?bm..<start_block_id ?bm + bm_blocks ?bm} \<inter> held s = {}"
    using held by (simp add: bm_area_def)
  obtain r s1 where s1: "Bitmap_alloc B ?bm s = Some (r, s1)" "inv s1" "held s1 = held s"
    and r: "case r of None \<Rightarrow> view s1 = view s \<and> bm_used (view s) ?bm = {..<Bitmap_maximum ?bm}
     | Some k \<Rightarrow> k < Bitmap_maximum ?bm \<and> k \<notin> bm_used (view s) ?bm \<and> {..<k} \<subseteq> bm_used (view s) ?bm \<and>
         bm_used (view s1) ?bm = insert k (bm_used (view s) ?bm) \<and>
         (\<forall>b. b \<noteq> start_block_id ?bm + k div 4096 \<longrightarrow> view s1 b = view s b)"
    using Bitmap_alloc_returns [OF inv dev room area] by (rule returnsE)
  from r free obtain k where k: "r = Some k" "k < Bitmap_maximum ?bm" "k \<notin> bm_used (view s) ?bm"
      "{..<k} \<subseteq> bm_used (view s) ?bm" "bm_used (view s1) ?bm = insert k (bm_used (view s) ?bm)"
      "\<forall>b. b \<noteq> start_block_id ?bm + k div 4096 \<longrightarrow> view s1 b = view s b"
    by (auto split: option.splits)
  have u: "unat (of_nat k :: u32) = k" using k(2) n by (intro unat_of_nat_exact) simp
  have "start_block_id ?bm + k div 4096 \<in> bm_area ?bm"
    using k(2) by (simp add: bm_area_def Bitmap_maximum_def div_less_iff_less_mult)
  then have frame: "\<forall>b. b \<notin> bm_area ?bm \<longrightarrow> view s1 b = view s b" using k(6) by metis
  have "alloc_inode B E s = Some (of_nat k, s1)" using s1(1) k(1) by (simp add: alloc_inode_def)
  with s1(2,3) k(2-5) frame u show ?thesis by (simp add: returns_def)
qed

lemma alloc_data_returns:
  assumes inv: "inv s" and ok: "efs_ok N E" and N: "N \<le> n_blocks" and room: "card (held s) < 16"
    and held: "bm_area (data_bitmap E) \<inter> held s = {}"
    and free: "\<exists>k < N - data_start E. k \<notin> bm_used (view s) (data_bitmap E)"
  shows "returns (alloc_data B E s) (held s) (\<lambda>b d. data_start E \<le> unat b \<and> unat b < N \<and>
    unat b - data_start E \<notin> bm_used (view s) (data_bitmap E) \<and>
    bm_used d (data_bitmap E) = insert (unat b - data_start E) (bm_used (view s) (data_bitmap E)) \<and>
    (\<forall>b. b \<notin> bm_area (data_bitmap E) \<longrightarrow> d b = view s b))"
proof -
  let ?bm = "data_bitmap E"
  have dev: "start_block_id ?bm + bm_blocks ?bm \<le> n_blocks" and lim: "N - data_start E \<le> Bitmap_maximum ?bm"
    and start: "data_start E = unat (data_area_start_block E)" "N < 2 ^ 32"
    using ok N by (auto simp: efs_ok_def Bitmap_maximum_def data_start_def)
  have area: "{start_block_id ?bm..<start_block_id ?bm + bm_blocks ?bm} \<inter> held s = {}"
    using held by (simp add: bm_area_def)
  obtain r s1 where s1: "Bitmap_alloc B ?bm s = Some (r, s1)" "inv s1" "held s1 = held s"
    and r: "case r of None \<Rightarrow> view s1 = view s \<and> bm_used (view s) ?bm = {..<Bitmap_maximum ?bm}
     | Some k \<Rightarrow> k < Bitmap_maximum ?bm \<and> k \<notin> bm_used (view s) ?bm \<and> {..<k} \<subseteq> bm_used (view s) ?bm \<and>
         bm_used (view s1) ?bm = insert k (bm_used (view s) ?bm) \<and>
         (\<forall>b. b \<noteq> start_block_id ?bm + k div 4096 \<longrightarrow> view s1 b = view s b)"
    using Bitmap_alloc_returns [OF inv dev room area] by (rule returnsE)
  obtain k0 where k0: "k0 < N - data_start E" "k0 \<notin> bm_used (view s) ?bm" using free by blast
  with r lim obtain k where k: "r = Some k" "k < Bitmap_maximum ?bm" "k \<notin> bm_used (view s) ?bm"
      "{..<k} \<subseteq> bm_used (view s) ?bm" "bm_used (view s1) ?bm = insert k (bm_used (view s) ?bm)"
      "\<forall>b. b \<noteq> start_block_id ?bm + k div 4096 \<longrightarrow> view s1 b = view s b"
    by (auto split: option.splits)
  have le: "k < N - data_start E" using k(4) k0 by (meson lessThan_iff not_less order_le_less_trans subsetD)
  then have "unat (of_nat k :: u32) = k" using start(2) by (intro unat_of_nat_exact) simp
  then have u: "unat (of_nat k + data_area_start_block E) = k + data_start E"
    using le start by (subst word_add_exact) simp_all
  have "start_block_id ?bm + k div 4096 \<in> bm_area ?bm"
    using k(2) by (simp add: bm_area_def Bitmap_maximum_def div_less_iff_less_mult)
  then have frame: "\<forall>b. b \<notin> bm_area ?bm \<longrightarrow> view s1 b = view s b" using k(6) by metis
  have "alloc_data B E s = Some (of_nat k + data_area_start_block E, s1)"
    using s1(1) k(1) by (simp add: alloc_data_def)
  with s1(2,3) k(3,5) frame u le show ?thesis by (simp add: returns_def)
qed

lemma zero_block_returns:
  assumes "inv s" and "b < n_blocks" and "b \<notin> held s" and "card (held s) < 16"
  shows "returns (zero_block B b s) (held s) (\<lambda>u d. d = (view s)(b := replicate 512 0))"
  unfolding zero_block_def
proof (rule returns_modify)
  fix s1
  assume s1: "inv s1" "view s1 = view s" "held s1 = insert b (held s)"
  have "length (view s b) = 512" using view_length [OF assms(1,2)] by simp
  with s1 show "returns (Some (((), map (\<lambda>b. 0) (buf_get 0 BLOCK_SZ (view s b))), s1)) (insert b (held s))
      (\<lambda>(u, r) d. length r = BLOCK_SZ \<and> d(b := buf_put 0 r (d b)) = (view s)(b := replicate 512 0))"
    by (auto simp: map_replicate_const intro!: returns_Some)
qed (use assms in simp_all)

lemma dealloc_data_returns:
  assumes inv: "inv s" and ok: "efs_ok N E" and N: "N \<le> n_blocks" and room: "card (held s) < 16"
    and held: "bm_area (data_bitmap E) \<inter> held s = {}" "unat b \<notin> held s"
    and b: "data_start E \<le> unat b" "unat b < N" "unat b - data_start E \<in> bm_used (view s) (data_bitmap E)"
  shows "returns (dealloc_data B E b s) (held s) (\<lambda>u d. d (unat b) = replicate 512 0 \<and>
    bm_used d (data_bitmap E) = bm_used (view s) (data_bitmap E) - {unat b - data_start E} \<and>
    (\<forall>c. c \<notin> insert (unat b) (bm_area (data_bitmap E)) \<longrightarrow> d c = view s c))"
proof -
  let ?bm = "data_bitmap E" and ?k = "unat b - data_start E"
  have dev: "start_block_id ?bm + bm_blocks ?bm \<le> n_blocks"
    using ok N by (auto simp: efs_ok_def)
  have sub: "unat (b - data_area_start_block E) = ?k"
    using b(1) by (simp add: data_start_def word_sub_exact)
  have out: "unat b \<notin> bm_area ?bm" using efs_areas(8) [OF ok] b(1) by auto
  have bm_same: "bm_used ((view s)(unat b := x)) ?bm = bm_used (view s) ?bm" for x
    using out by (auto simp: bm_used_def bm_area_def Bitmap_maximum_def div_less_iff_less_mult)
  obtain s1 where s1: "zero_block B (unat b) s = Some ((), s1)" "inv s1" "held s1 = held s"
      "view s1 = (view s)(unat b := replicate 512 0)"
    using zero_block_returns [OF inv _ held(2) room] b(2) N by (auto elim!: returnsE)
  have k: "?k \<in> bm_used (view s1) ?bm" using b(3) by (simp add: s1(4) bm_same)
  have in_area: "start_block_id ?bm + ?k div 4096 \<in> bm_area ?bm"
    using b(3) by (simp add: bm_used_def bm_area_def Bitmap_maximum_def div_less_iff_less_mult)
  then have "start_block_id ?bm + ?k div 4096 \<notin> held s1" using held(1) s1(3) by auto
  from Bitmap_dealloc_returns [OF s1(2) k dev _ this] room s1(3)
  have "returns (Bitmap_dealloc B ?bm ?k s1) (held s) (\<lambda>u d. bm_used d ?bm = bm_used (view s1) ?bm - {?k} \<and>
      (\<forall>c. c \<noteq> start_block_id ?bm + ?k div 4096 \<longrightarrow> d c = view s1 c))" by simp
  then have "returns (dealloc_data B E b s) (held s) (\<lambda>u d. bm_used d ?bm = bm_used (view s1) ?bm - {?k} \<and>
      (\<forall>c. c \<noteq> start_block_id ?bm + ?k div 4096 \<longrightarrow> d c = view s1 c))"
    by (simp add: dealloc_data_def s1(1) sub)
  then show ?thesis
  proof (rule returns_mono)
    fix u d
    assume q: "bm_used d ?bm = bm_used (view s1) ?bm - {?k} \<and>
      (\<forall>c. c \<noteq> start_block_id ?bm + ?k div 4096 \<longrightarrow> d c = view s1 c)"
    have "d c = view s1 c" if "c \<notin> bm_area ?bm" for c
    proof -
      have "c \<noteq> start_block_id ?bm + ?k div 4096" using in_area that by metis
      with q show ?thesis by simp
    qed
    with q out show "d (unat b) = replicate 512 0 \<and> bm_used d ?bm = bm_used (view s) ?bm - {?k} \<and>
      (\<forall>c. c \<notin> insert (unat b) (bm_area ?bm) \<longrightarrow> d c = view s c)"
      by (simp add: s1(4) bm_same)
  qed
qed

end

end
