(* ===== verification/EfsCreate.thy ===== *)
theory EfsCreate
  imports EfsOps
begin

text \<open>
  \<^verbatim>\<open>EasyFileSystem::create\<close> and \<^verbatim>\<open>EasyFileSystem::open\<close>, for any block store that
  meets \<open>block_store\<close>: what a fresh file system looks like, and that opening it
  finds the same areas.
\<close>

section \<open>Inode slots\<close>

definition inode_at :: "EasyFileSystem \<Rightarrow> (nat \<Rightarrow> bytes) \<Rightarrow> u32 \<Rightarrow> DiskInode option" where
  "inode_at E d i = (case get_disk_inode_pos E i of (blk, off) \<Rightarrow>
     DiskInode_decode (buf_get off DiskInode_size (d (unat blk))))"

definition empty_inode :: "DiskInodeType \<Rightarrow> DiskInode" where
  "empty_inode t = \<lparr>isize = 0, direct = replicate 28 0, indirect1 = 0, indirect2 = 0, itype = t\<rparr>"

lemma initialize_empty: "length (direct ino) = 28 \<Longrightarrow> DiskInode_initialize t ino = empty_inode t"
  by (simp add: DiskInode_initialize_def empty_inode_def map_replicate_const)

lemma le_dec_zeros [simp]: "le_dec (replicate n 0) = 0"
  by (induction n) auto

lemma buf_get_replicate: "off + n \<le> m \<Longrightarrow> buf_get off n (replicate m x) = replicate n x"
  by (simp add: buf_get_def)

lemma decode_zeros: "DiskInode_decode (replicate 128 0) = Some (empty_inode File)"
proof -
  have at: "word_at 4 (replicate 128 0) i = (0 :: u32)" if "i < 32" for i
    using that by (simp add: word_at_def buf_get_replicate)
  show ?thesis
    by (simp add: DiskInode_decode_def byte_type_def at empty_inode_def list_eq_iff_nth_eq)
qed

context block_store
begin

lemma returns_modify_inode:
  assumes s: "inv s" and b: "b < n_blocks" "b \<notin> held s" "card (held s) < 16" and off: "off + 128 \<le> 512"
    and ino: "DiskInode_decode (buf_get off 128 (view s b)) = Some ino"
    and f: "\<And>s1. inv s1 \<Longrightarrow> view s1 = view s \<Longrightarrow> held s1 = insert b (held s) \<Longrightarrow>
      returns (f ino s1) (insert b (held s)) (\<lambda>(v, ino') d. length (direct ino') = 28 \<and>
        Q v (d(b := buf_put off (DiskInode_encode ino' (buf_get off 128 (view s b))) (d b))))"
  shows "returns (bc_modify_inode B b off f s) (held s) Q"
  unfolding bc_modify_inode_def layout_consts
proof (rule returns_modify)
  fix s1
  assume s1: "inv s1" "view s1 = view s" "held s1 = insert b (held s)"
  let ?bs = "buf_get off 128 (view s b)"
  have len: "length ?bs = 128" using view_length [OF s b(1)] off by simp
  show "returns (DiskInode_decode ?bs \<bind> (\<lambda>ino. f ino s1 \<bind>
      (\<lambda>((v, ino'), s2). Some ((v, DiskInode_encode ino' ?bs), s2)))) (insert b (held s))
      (\<lambda>(v, r) d. length r = 128 \<and> Q v (d(b := buf_put off r (d b))))"
    unfolding ino bind.simps
    by (rule returns_bind [OF f [OF s1]])
      (auto simp: length_DiskInode_encode [OF _ len] intro!: returns_Some)
qed (use assms in simp_all)

lemma zero_blocks_returns:
  assumes "inv s" and "set bs \<subseteq> {..<n_blocks}" and "held s = {}"
  shows "returns (zero_blocks B bs s) {} (\<lambda>u d. d = (\<lambda>b. if b \<in> set bs then replicate 512 0 else view s b))"
  using assms
proof (induction bs arbitrary: s)
  case Nil
  then show ?case by (auto intro!: returns_Some)
next
  case (Cons b bs)
  have "returns (zero_block B b s) {} (\<lambda>u d. d = (view s)(b := replicate 512 0))"
    using zero_block_returns [of s b] Cons.prems by simp
  then show ?case
    unfolding zero_blocks.simps
  proof (rule returns_bind)
    fix u s1
    assume s1: "inv s1" "held s1 = {}" "view s1 = (view s)(b := replicate 512 0)"
    then have "returns (zero_blocks B bs s1) {} (\<lambda>u d. d = (\<lambda>b. if b \<in> set bs then replicate 512 0 else view s1 b))"
      using Cons.prems by (intro Cons.IH) auto
    then show "returns (case (u, s1) of (u, s1) \<Rightarrow> zero_blocks B bs s1) {}
        (\<lambda>u d. d = (\<lambda>c. if c \<in> set (b # bs) then replicate 512 0 else view s c))"
      unfolding case_prod_conv by (rule returns_mono) (use s1(3) in auto)
  qed
qed

end

section \<open>Creation\<close>

definition fresh :: "nat \<Rightarrow> EasyFileSystem \<Rightarrow> SuperBlock \<Rightarrow> (nat \<Rightarrow> bytes) \<Rightarrow> bool" where
  "fresh N E sb d \<longleftrightarrow> buf_get 0 24 (d 0) = SuperBlock_encode sb \<and>
     bm_used d (inode_bitmap E) = {0} \<and> bm_used d (data_bitmap E) = {} \<and>
     (\<forall>i. unat i < Bitmap_maximum (inode_bitmap E) \<longrightarrow>
        inode_at E d i = Some (empty_inode (if i = 0 then Directory else File))) \<and>
     (\<forall>b. data_start E \<le> b \<and> b < N \<longrightarrow> d b = replicate 512 0)"

lemma bm_used_zeros:
  assumes "\<And>b. b \<in> bm_area bm \<Longrightarrow> d b = replicate 512 0"
  shows "bm_used d bm = {}"
proof -
  have "\<not> block_bit (u64s (replicate 512 0)) p" if "p < 4096" for p
  proof -
    have "p div 64 < 64" using that by (simp add: div_less_iff_less_mult)
    then show ?thesis by (simp add: block_bit_def word_at_def buf_get_replicate)
  qed
  then show ?thesis
    using assms by (auto simp: bm_used_def bm_area_def Bitmap_maximum_def div_less_iff_less_mult)
qed

lemma bm_used_cong:
  assumes "\<And>b. b \<in> bm_area bm \<Longrightarrow> d b = d' b"
  shows "bm_used d bm = bm_used d' bm"
  using assms by (auto simp: bm_used_def bm_area_def Bitmap_maximum_def div_less_iff_less_mult)

lemma inode_at_cong:
  assumes "efs_ok N E" and "unat i < Bitmap_maximum (inode_bitmap E)"
    and "\<And>b. b \<in> inode_area E \<Longrightarrow> d b = d' b"
  shows "inode_at E d i = inode_at E d' i"
proof -
  obtain blk off where "get_disk_inode_pos E i = (blk, off)" "unat blk \<in> inode_area E"
    using inode_pos [OF assms(1,2)] by metis
  with assms(3) show ?thesis by (simp add: inode_at_def)
qed

text \<open>Storing one inode changes its slot only.\<close>

lemma inode_at_upd:
  assumes ok: "efs_ok N E" and i: "unat i < Bitmap_maximum (inode_bitmap E)"
    and pos: "get_disk_inode_pos E i = (blk, off)" and ino: "length (direct ino) = 28"
    and len: "length (d (unat blk)) = 512" "length old = 128"
    and j: "unat j < Bitmap_maximum (inode_bitmap E)"
  shows "inode_at E (d(unat blk := buf_put off (DiskInode_encode ino old) (d (unat blk)))) j =
    (if j = i then Some ino else inode_at E d j)"
proof -
  have off: "off + 128 \<le> 512" using inode_pos [OF ok i] pos by (metis prod.inject)
  have enc: "length (DiskInode_encode ino old) = 128" using ino len(2) by (rule length_DiskInode_encode)
  show ?thesis
  proof (cases "j = i")
    case True
    with pos off enc len show ?thesis by (simp add: inode_at_def DiskInode_roundtrip [OF ino])
  next
    case False
    obtain blk' off' where pos': "get_disk_inode_pos E j = (blk', off')" "off' + 128 \<le> 512"
      using inode_pos [OF ok j] by metis
    have "blk \<noteq> blk' \<or> off + 128 \<le> off' \<or> off' + 128 \<le> off"
      using inode_pos_disjoint [OF ok i j _ pos pos'(1)] False by auto
    then show ?thesis
      using pos' off enc len False by (auto simp: inode_at_def buf_get_put_disjoint)
  qed
qed

context block_store
begin

lemma create_returns:
  assumes inv: "inv s" and held: "held s = {}"
    and ibb: "0 < unat ibb" "unat ibb < 2 ^ 20" and tot: "unat tot + 4096 < 2 ^ 32" "1 + 1025 * unat ibb < unat tot"
    and dev: "unat tot \<le> n_blocks"
  shows "settles (EasyFileSystem_create B tot ibb s) (\<lambda>E d. E = fst (EasyFileSystem_layout tot ibb) \<and>
    efs_ok (unat tot) E \<and> fresh (unat tot) E (snd (EasyFileSystem_layout tot ibb)) d \<and>
    (\<forall>b. unat tot \<le> b \<longrightarrow> d b = view s b))"
proof -
  obtain E sb where L: "EasyFileSystem_layout tot ibb = (E, sb)" by (cases "EasyFileSystem_layout tot ibb")
  note lay = layout_ok [OF ibb tot, unfolded L fst_conv snd_conv]
  note areas = efs_areas [OF lay(1)]
  let ?ibm = "inode_bitmap E" and ?dbm = "data_bitmap E"
  let ?d1 = "\<lambda>b. if b \<in> set [0..<unat tot] then replicate 512 0 else view s b"
  have E1: "start_block_id ?ibm = 1" "bm_blocks ?ibm > 0" "unat (inode_area_start_block E) = 1 + bm_blocks ?ibm"
    using lay(1) by (simp_all add: efs_ok_def)
  obtain s1 where s1: "zero_blocks B [0..<unat tot] s = Some ((), s1)" "inv s1" "held s1 = {}" "view s1 = ?d1"
  proof -
    have "set [0..<unat tot] \<subseteq> {..<n_blocks}" using dev by auto
    from zero_blocks_returns [OF inv this held] that show ?thesis by (auto elim!: returnsE)
  qed
  let ?d2 = "?d1(0 := buf_put 0 (SuperBlock_encode sb) (replicate 512 0))"
  have "returns (bc_modify B 0 0 SuperBlock_size (\<lambda>bs s. Some (((), SuperBlock_encode sb), s)) s1) (held s1)
      (\<lambda>u d. d = ?d2)"
    by (rule returns_modify) (use s1 tot dev in \<open>auto intro!: returns_Some\<close>)
  then obtain s2 where s2: "bc_modify B 0 0 SuperBlock_size (\<lambda>bs s. Some (((), SuperBlock_encode sb), s)) s1 = Some ((), s2)"
      "inv s2" "held s2 = {}" "view s2 = ?d2"
    using s1(3) by (auto elim!: returnsE)
  have zero2: "view s2 b = replicate 512 0" if "0 < b" "b < unat tot" for b using that by (simp add: s2(4))
  have u2: "bm_used (view s2) ?ibm = {}" "bm_used (view s2) ?dbm = {}"
    using areas(1,2,7,8) by (auto intro!: bm_used_zeros zero2)
  have max: "0 < Bitmap_maximum ?ibm" using E1 by (simp add: Bitmap_maximum_def)
  have "returns (alloc_inode B E s2) (held s2) (\<lambda>i d.
    unat i < Bitmap_maximum ?ibm \<and> unat i \<notin> bm_used (view s2) ?ibm \<and>
    {..<unat i} \<subseteq> bm_used (view s2) ?ibm \<and> bm_used d ?ibm = insert (unat i) (bm_used (view s2) ?ibm) \<and>
    (\<forall>b. b \<notin> bm_area ?ibm \<longrightarrow> d b = view s2 b))"
    by (rule alloc_inode_returns [OF s2(2) lay(1) dev]) (use max u2(1) in \<open>auto simp: s2(3)\<close>)
  then obtain s3 where s3: "alloc_inode B E s2 = Some (0, s3)" "inv s3" "held s3 = {}"
      "bm_used (view s3) ?ibm = {0}" "\<And>b. b \<notin> bm_area ?ibm \<Longrightarrow> view s3 b = view s2 b"
    unfolding u2(1) s2(3) by (auto elim!: returnsE simp: unat_eq_0 lessThan_empty_iff)
  obtain blk off where pos: "get_disk_inode_pos E 0 = (blk, off)" "unat blk \<in> inode_area E" "off + 128 \<le> 512"
    by (rule inode_pos [OF lay(1), of 0]) (use max in auto)
  have z3: "view s3 b = replicate 512 0" if "b \<in> inode_area E" for b
    using that areas(3,5,9) by (subst s3(5)) (auto intro!: zero2)
  have blk: "unat blk < n_blocks" "view s3 (unat blk) = replicate 512 0"
    using pos(2) areas(3) dev z3 by auto
  let ?old = "replicate 128 0 :: bytes"
  let ?d4 = "(view s3)(unat blk := buf_put off (DiskInode_encode (empty_inode Directory) ?old) (view s3 (unat blk)))"
  have "returns (bc_modify_inode B (unat blk) off (\<lambda>ino s. Some (((), DiskInode_initialize Directory ino), s)) s3)
      (held s3) (\<lambda>u d. d = ?d4)"
  proof (rule returns_modify_inode)
    show "DiskInode_decode (buf_get off 128 (view s3 (unat blk))) = Some (empty_inode File)"
      using pos(3) by (simp add: blk(2) buf_get_replicate decode_zeros)
    show "returns (Some (((), DiskInode_initialize Directory (empty_inode File)), s1)) (insert (unat blk) (held s3))
        (\<lambda>(v, ino') d. length (direct ino') = 28 \<and>
          d(unat blk := buf_put off (DiskInode_encode ino' (buf_get off 128 (view s3 (unat blk)))) (d (unat blk))) = ?d4)"
      if "inv s1" "view s1 = view s3" "held s1 = insert (unat blk) (held s3)" for s1
    proof -
      have "DiskInode_initialize Directory (empty_inode File) = empty_inode Directory"
        "length (direct (empty_inode Directory)) = 28"
        by (simp_all add: initialize_empty empty_inode_def)
      with that pos(3) show ?thesis by (simp add: blk(2) buf_get_replicate returns_def)
    qed
  qed (use s3 blk pos(3) in simp_all)
  then obtain s4 where s4: "bc_modify_inode B (unat blk) off
      (\<lambda>ino s. Some (((), DiskInode_initialize Directory ino), s)) s3 = Some ((), s4)"
      "inv s4" "held s4 = {}" "view s4 = ?d4"
    using s3(3) by (auto elim!: returnsE)
  obtain s5 where s5: "sync_blocks B s4 = Some s5" "inv s5" "held s5 = {}" "view s5 = ?d4" "durable s5"
    using sync_ok [OF s4(2,3)] s4(4) by auto
  have run: "EasyFileSystem_create B tot ibb s = Some (E, s5)"
    using s1(1) s2(1) s3(1) s4(1) s5(1) pos(1) by (simp add: EasyFileSystem_create_def L)
  have same: "view s5 b = view s3 b" if "b \<notin> inode_area E" for b
    using that pos(2) by (auto simp: s5(4))
  have same2: "view s5 b = view s2 b" if "b \<notin> inode_area E" "b \<notin> bm_area ?ibm" for b
    using that same s3(5) by simp
  have "fresh (unat tot) E sb (view s5)"
    unfolding fresh_def
  proof (intro conjI allI impI)
    show "buf_get 0 24 (view s5 0) = SuperBlock_encode sb"
      using areas(7,9) by (subst same2) (auto simp: s2(4))
    show "bm_used (view s5) ?ibm = {0}"
      using same areas(5) s3(4) bm_used_cong [of ?ibm "view s5" "view s3"] by blast
    show "bm_used (view s5) ?dbm = {}"
      using same2 areas(4,6) u2(2) bm_used_cong [of ?dbm "view s5" "view s2"] by blast
    fix i :: u32
    assume i: "unat i < Bitmap_maximum ?ibm"
    have "inode_at E (view s3) i = Some (empty_inode File)"
    proof -
      obtain b' o' where p: "get_disk_inode_pos E i = (b', o')" "unat b' \<in> inode_area E" "o' + 128 \<le> 512"
        using inode_pos [OF lay(1) i] by metis
      then show ?thesis using z3 by (simp add: inode_at_def buf_get_replicate decode_zeros)
    qed
    then show "inode_at E (view s5) i = Some (empty_inode (if i = 0 then Directory else File))"
      unfolding s5(4) using blk(2) max
      by (subst inode_at_upd [OF lay(1) _ pos(1) _ _ _ i]) (simp_all add: empty_inode_def)
  next
    fix b
    assume b: "data_start E \<le> b \<and> b < unat tot"
    have "0 < data_start E" using areas(9) pos(2) by auto
    with b show "view s5 b = replicate 512 0"
      using areas(7,9) by (subst same2) (auto intro!: zero2)
  qed
  moreover have "view s5 b = view s b" if "unat tot \<le> b" for b
    using that areas(1,3) tot by (subst same2) (auto simp: s2(4))
  ultimately show ?thesis using run s5(2,3,5) lay(1) by (simp add: settles_def L)
qed

section \<open>Opening\<close>

lemma open_returns:
  assumes inv: "inv s" and dev: "0 < n_blocks" and held: "0 \<notin> held s" "card (held s) < 16"
    and sb: "buf_get 0 24 (view s 0) = SuperBlock_encode (snd (EasyFileSystem_layout tot ibb))"
  shows "returns (EasyFileSystem_open B s) (held s) (\<lambda>E d. E = fst (EasyFileSystem_layout tot ibb) \<and> d = view s)"
  unfolding EasyFileSystem_open_def layout_consts
proof (rule returns_read)
  let ?open = "\<lambda>bs s1. let sb = SuperBlock_decode bs in
      if SuperBlock_is_valid sb
      then let inode_total_blocks = inode_bitmap_blocks sb + inode_area_blocks sb
           in Some (\<lparr>inode_bitmap = Bitmap_new 1 (unat (inode_bitmap_blocks sb)),
                data_bitmap = Bitmap_new (unat (1 + inode_total_blocks)) (unat (data_bitmap_blocks sb)),
                inode_area_start_block = 1 + inode_bitmap_blocks sb,
                data_area_start_block = 1 + inode_total_blocks + data_bitmap_blocks sb\<rparr>, s1)
      else None"
  fix s1
  assume s1: "inv s1" "view s1 = view s" "held s1 = insert 0 (held s)"
  have "?open (SuperBlock_encode (snd (EasyFileSystem_layout tot ibb))) s1 =
      Some (fst (EasyFileSystem_layout tot ibb), s1)"
    by (simp add: EasyFileSystem_layout_def Let_def SuperBlock_initialize_def SuperBlock_is_valid_def add.assoc)
  then show "returns (?open (buf_get 0 24 (view s 0)) s1) (insert 0 (held s))
      (\<lambda>E d. E = fst (EasyFileSystem_layout tot ibb) \<and> d = view s)"
    unfolding sb using s1 by (simp add: returns_def)
qed (use assms in simp_all)

text \<open>Anything else in the super block fails the assertion.\<close>

lemma open_invalid:
  assumes "inv s" and "0 < n_blocks" and "0 \<notin> held s" and "card (held s) < 16"
    and "magic (SuperBlock_decode (buf_get 0 24 (view s 0))) \<noteq> EFS_MAGIC"
  shows "EasyFileSystem_open B s = None"
proof -
  obtain s1 where s1: "lock_block B 0 s = Some s1" "inv s1" "view s1 = view s" "held s1 = insert 0 (held s)"
    using lock_ok [OF assms(1-3)] assms(4) by auto
  have "peek_block B 0 s1 = view s 0" using peek_ok [OF s1(2)] s1(3,4) by simp
  moreover have "length (view s 0) = 512" using view_length [OF assms(1,2)] by simp
  ultimately show ?thesis
    using s1(1) assms(5) by (simp add: EasyFileSystem_open_def bc_read_def get_ref_def Let_def SuperBlock_is_valid_def)
qed

end

end
