(* ===== verification/DirEntry.thy ===== *)
theory DirEntry
  imports Layout
begin

text \<open>
  Directory entries (\<^verbatim>\<open>DirEntry\<close> of \<^verbatim>\<open>easy-fs/src/layout.rs\<close>): 28 bytes of name, padded
  with zeros, and an inode number. Strings are their UTF-8 bytes; \<open>utf8_valid\<close> is
  what \<^verbatim>\<open>core::str::from_utf8\<close> accepts. \<open>DirEntry_name\<close> is \<open>None\<close> where \<^verbatim>\<open>name()\<close>
  panics: no byte of the name is zero, or the name is not UTF-8.
\<close>

section \<open>Definitions\<close>

definition NAME_LENGTH_LIMIT :: nat where
  [const_defs]: "NAME_LENGTH_LIMIT = 27"

definition DIRENT_SZ :: nat where
  [const_defs]: "DIRENT_SZ = 32"

record DirEntry =
  de_name :: bytes
  de_inode_id :: u32

definition utf8_cont :: "u8 \<Rightarrow> bool" where
  "utf8_cont b \<longleftrightarrow> 0x80 \<le> b \<and> b \<le> 0xBF"

text \<open>The range of the second byte depends on the first.\<close>

definition utf8_second :: "u8 \<Rightarrow> u8 \<Rightarrow> bool" where
  "utf8_second a b \<longleftrightarrow> utf8_cont b \<and> (a = 0xE0 \<longrightarrow> 0xA0 \<le> b) \<and> (a = 0xED \<longrightarrow> b \<le> 0x9F) \<and>
     (a = 0xF0 \<longrightarrow> 0x90 \<le> b) \<and> (a = 0xF4 \<longrightarrow> b \<le> 0x8F)"

fun utf8_valid :: "bytes \<Rightarrow> bool" where
  "utf8_valid [] \<longleftrightarrow> True"
| "utf8_valid (a # xs) \<longleftrightarrow>
     (if a < 0x80 then utf8_valid xs
      else (case xs of [] \<Rightarrow> False | b # ys \<Rightarrow>
        if 0xC2 \<le> a \<and> a \<le> 0xDF then utf8_cont b \<and> utf8_valid ys
        else (case ys of [] \<Rightarrow> False | c # zs \<Rightarrow>
          if 0xE0 \<le> a \<and> a \<le> 0xEF then utf8_second a b \<and> utf8_cont c \<and> utf8_valid zs
          else (case zs of [] \<Rightarrow> False | e # us \<Rightarrow>
            0xF0 \<le> a \<and> a \<le> 0xF4 \<and> utf8_second a b \<and> utf8_cont c \<and> utf8_cont e \<and> utf8_valid us))))"

definition DirEntry_empty :: DirEntry where
  "DirEntry_empty = \<lparr>de_name = replicate (NAME_LENGTH_LIMIT + 1) 0, de_inode_id = 0\<rparr>"

definition DirEntry_new :: "bytes \<Rightarrow> u32 \<Rightarrow> DirEntry option" where
  "DirEntry_new name inode_id =
     (if length name \<le> NAME_LENGTH_LIMIT + 1
      then Some \<lparr>de_name = buf_put 0 name (replicate (NAME_LENGTH_LIMIT + 1) 0), de_inode_id = inode_id\<rparr>
      else None)"

definition DirEntry_as_bytes :: "DirEntry \<Rightarrow> bytes" where
  "DirEntry_as_bytes e = de_name e @ le_enc 4 (unat (de_inode_id e))"

text \<open>What the entry is after its bytes were written through \<^verbatim>\<open>as_bytes_mut\<close>.\<close>

definition DirEntry_of_bytes :: "bytes \<Rightarrow> DirEntry" where
  "DirEntry_of_bytes bs = \<lparr>de_name = take 28 bs, de_inode_id = of_nat (le_dec (buf_get 28 4 bs))\<rparr>"

definition DirEntry_name :: "DirEntry \<Rightarrow> bytes option" where
  "DirEntry_name e = do {
     len \<leftarrow> find_idx (\<lambda>b. b = 0) (de_name e);
     let nm = take len (de_name e);
     if utf8_valid nm then Some nm else None
   }"

section \<open>Lemmas\<close>

lemma dirent_consts [simp]: "NAME_LENGTH_LIMIT = 27" "DIRENT_SZ = 32"
  by (simp_all add: const_defs)

lemma DirEntry_bytes_roundtrip:
  "length (de_name e) = 28 \<Longrightarrow> DirEntry_of_bytes (DirEntry_as_bytes e) = e"
  using word_dec_enc [of 4 "de_inode_id e"]
  by (simp add: DirEntry_of_bytes_def DirEntry_as_bytes_def buf_get_def)

lemma DirEntry_of_bytes_as_bytes:
  "length bs = 32 \<Longrightarrow> DirEntry_as_bytes (DirEntry_of_bytes bs) = bs"
  using append_take_drop_id [of 28 bs]
  by (simp add: DirEntry_of_bytes_def DirEntry_as_bytes_def buf_get_def)

lemma length_as_bytes: "length (de_name e) = 28 \<Longrightarrow> length (DirEntry_as_bytes e) = 32"
  by (simp add: DirEntry_as_bytes_def)

lemma DirEntry_new_length: "DirEntry_new name i = Some e \<Longrightarrow> length (de_name e) = 28"
  by (auto simp: DirEntry_new_def split: if_splits)

lemma DirEntry_empty_length [simp]: "length (de_name DirEntry_empty) = 28"
  by (simp add: DirEntry_empty_def)

lemma DirEntry_new_name:
  assumes "length name \<le> 27" and "0 \<notin> set name" and "utf8_valid name"
  shows "DirEntry_new name i = Some \<lparr>de_name = name @ replicate (28 - length name) 0, de_inode_id = i\<rparr>"
    and "DirEntry_name \<lparr>de_name = name @ replicate (28 - length name) 0, de_inode_id = i\<rparr> = Some name"
proof -
  show "DirEntry_new name i = Some \<lparr>de_name = name @ replicate (28 - length name) 0, de_inode_id = i\<rparr>"
    using assms(1) by (simp add: DirEntry_new_def buf_put_def)
  have "find_idx (\<lambda>b. b = 0) (name @ replicate (28 - length name) 0) = Some (length name)"
    using assms(1,2) by (intro find_idx_SomeI) (auto simp: nth_append in_set_conv_nth)
  then show "DirEntry_name \<lparr>de_name = name @ replicate (28 - length name) 0, de_inode_id = i\<rparr> = Some name"
    using assms(3) by (simp add: DirEntry_name_def)
qed

text \<open>A name of 28 bytes is accepted, and then \<^verbatim>\<open>name()\<close> runs past the end of the array.\<close>

lemma DirEntry_new_name_28:
  assumes "length name = 28" and "0 \<notin> set name"
  shows "DirEntry_new name i = Some \<lparr>de_name = name, de_inode_id = i\<rparr>"
    and "DirEntry_name \<lparr>de_name = name, de_inode_id = i\<rparr> = None"
proof -
  show "DirEntry_new name i = Some \<lparr>de_name = name, de_inode_id = i\<rparr>"
    using assms(1) by (simp add: DirEntry_new_def)
  have "find_idx (\<lambda>b. b = 0) name = None" using assms(2) by (auto simp: find_idx_None_iff)
  then show "DirEntry_name \<lparr>de_name = name, de_inode_id = i\<rparr> = None"
    by (simp add: DirEntry_name_def)
qed

end
