(* ===== verification/Vfs.thy ===== *)
theory Vfs
  imports EfsCreate DirEntry
begin

text \<open>
  The inode layer (\<^verbatim>\<open>easy-fs/src/vfs.rs\<close>). An \<open>Inode\<close> is the place of a disk inode;
  the file system record and the block store are arguments. Every operation locks
  the file system once, for its whole body, and none calls another operation while
  it holds the lock, so the lock has no state here.
\<close>

record Inode =
  vi_block_id :: nat
  vi_block_offset :: nat

definition Inode_new :: "u32 \<Rightarrow> nat \<Rightarrow> Inode" where
  "Inode_new block_id block_offset = \<lparr>vi_block_id = unat block_id, vi_block_offset = block_offset\<rparr>"

definition root_inode :: "EasyFileSystem \<Rightarrow> Inode" where
  "root_inode efs = (let (block_id, block_offset) = get_disk_inode_pos efs 0 in Inode_new block_id block_offset)"

definition read_disk_inode ::
  "'s block_ops \<Rightarrow> Inode \<Rightarrow> (DiskInode \<Rightarrow> 's \<Rightarrow> ('v \<times> 's) option) \<Rightarrow> 's \<Rightarrow> ('v \<times> 's) option"
where
  "read_disk_inode B self f s = bc_read B (vi_block_id self) (vi_block_offset self) DiskInode_size
     (\<lambda>bs s1. do { ino \<leftarrow> DiskInode_decode bs; f ino s1 }) s"

definition modify_disk_inode ::
  "'s block_ops \<Rightarrow> Inode \<Rightarrow> (DiskInode \<Rightarrow> 's \<Rightarrow> (('v \<times> DiskInode) \<times> 's) option) \<Rightarrow> 's \<Rightarrow> ('v \<times> 's) option"
where
  "modify_disk_inode B self f s = bc_modify_inode B (vi_block_id self) (vi_block_offset self) f s"

text \<open>The number of entries of a directory.\<close>

definition file_count :: "DiskInode \<Rightarrow> nat" where
  "file_count ino = unat (isize ino) div DIRENT_SZ"

text \<open>Reading entry \<open>i\<close> into the buffer \<open>dirent\<close>; a short read fails the assertion.\<close>

definition read_dirent ::
  "'s block_ops \<Rightarrow> DiskInode \<Rightarrow> nat \<Rightarrow> DirEntry \<Rightarrow> 's \<Rightarrow> (DirEntry \<times> 's) option"
where
  "read_dirent B ino i dirent s = do {
     ((k, bs), s1) \<leftarrow> DiskInode_read_at B ino (DIRENT_SZ * i) (DirEntry_as_bytes dirent) s;
     if k = DIRENT_SZ then Some (DirEntry_of_bytes bs, s1) else None
   }"

fun find_loop ::
  "'s block_ops \<Rightarrow> bytes \<Rightarrow> DiskInode \<Rightarrow> nat list \<Rightarrow> DirEntry \<Rightarrow> 's \<Rightarrow> (u32 option \<times> 's) option"
where
  "find_loop B name ino [] dirent s = Some (None, s)"
| "find_loop B name ino (i # is) dirent s = do {
     (dirent', s1) \<leftarrow> read_dirent B ino i dirent s;
     nm \<leftarrow> DirEntry_name dirent';
     if nm = name then Some (Some (de_inode_id dirent'), s1)
     else find_loop B name ino is dirent' s1
   }"

definition find_inode_id :: "'s block_ops \<Rightarrow> bytes \<Rightarrow> DiskInode \<Rightarrow> 's \<Rightarrow> (u32 option \<times> 's) option" where
  "find_inode_id B name ino s =
     (if is_dir ino then find_loop B name ino [0..<file_count ino] DirEntry_empty s else None)"

definition Inode_find ::
  "'s block_ops \<Rightarrow> EasyFileSystem \<Rightarrow> Inode \<Rightarrow> bytes \<Rightarrow> 's \<Rightarrow> (Inode option \<times> 's) option"
where
  "Inode_find B efs self name s = read_disk_inode B self
     (\<lambda>ino s1. do {
        (r, s2) \<leftarrow> find_inode_id B name ino s1;
        Some (map_option (\<lambda>inode_id. let (block_id, block_offset) = get_disk_inode_pos efs inode_id
                                     in Inode_new block_id block_offset) r, s2)
      }) s"

fun alloc_many :: "'s block_ops \<Rightarrow> EasyFileSystem \<Rightarrow> nat \<Rightarrow> u32 list \<Rightarrow> 's \<Rightarrow> (u32 list \<times> 's) option" where
  "alloc_many B efs 0 v s = Some (v, s)"
| "alloc_many B efs (Suc n) v s = do { (b, s1) \<leftarrow> alloc_data B efs s; alloc_many B efs n (v @ [b]) s1 }"

definition Inode_increase_size ::
  "'s block_ops \<Rightarrow> EasyFileSystem \<Rightarrow> u32 \<Rightarrow> DiskInode \<Rightarrow> 's \<Rightarrow> (DiskInode \<times> 's) option"
where
  "Inode_increase_size B efs new_size ino s =
     (if new_size < isize ino then Some (ino, s)
      else do {
        blocks_needed \<leftarrow> blocks_num_needed ino new_size;
        (v, s1) \<leftarrow> alloc_many B efs (unat blocks_needed) [] s;
        increase_size B new_size v ino s1
      })"

text \<open>The common part of \<^verbatim>\<open>create\<close> and \<^verbatim>\<open>link\<close>: append an entry to a directory.\<close>

definition append_dirent ::
  "'s block_ops \<Rightarrow> EasyFileSystem \<Rightarrow> bytes \<Rightarrow> u32 \<Rightarrow> DiskInode \<Rightarrow> 's \<Rightarrow> ((unit \<times> DiskInode) \<times> 's) option"
where
  "append_dirent B efs name inode_id ino s =
     (let n = file_count ino; new_size = (n + 1) * DIRENT_SZ in do {
        (ino', s1) \<leftarrow> Inode_increase_size B efs (of_nat new_size) ino s;
        dirent \<leftarrow> DirEntry_new name inode_id;
        (k, s2) \<leftarrow> DiskInode_write_at B ino' (n * DIRENT_SZ) (DirEntry_as_bytes dirent) s1;
        Some (((), ino'), s2)
      })"

definition Inode_create ::
  "'s block_ops \<Rightarrow> EasyFileSystem \<Rightarrow> Inode \<Rightarrow> bytes \<Rightarrow> 's \<Rightarrow> (Inode option \<times> 's) option"
where
  "Inode_create B efs self name s = do {
     (r, s1) \<leftarrow> read_disk_inode B self
        (\<lambda>ino s1. if is_dir ino then find_inode_id B name ino s1 else None) s;
     if r \<noteq> None then Some (None, s1)
     else do {
       (new_inode_id, s2) \<leftarrow> alloc_inode B efs s1;
       let (block_id, block_offset) = get_disk_inode_pos efs new_inode_id;
       (u, s3) \<leftarrow> bc_modify_inode B (unat block_id) block_offset
          (\<lambda>ino s. Some (((), DiskInode_initialize File ino), s)) s2;
       (u, s4) \<leftarrow> modify_disk_inode B self (append_dirent B efs name new_inode_id) s3;
       s5 \<leftarrow> sync_blocks B s4;
       Some (Some (Inode_new block_id block_offset), s5)
     }
   }"

fun ls_loop :: "'s block_ops \<Rightarrow> DiskInode \<Rightarrow> nat list \<Rightarrow> bytes list \<Rightarrow> 's \<Rightarrow> (bytes list \<times> 's) option" where
  "ls_loop B ino [] v s = Some (v, s)"
| "ls_loop B ino (i # is) v s = do {
     (dirent, s1) \<leftarrow> read_dirent B ino i DirEntry_empty s;
     nm \<leftarrow> DirEntry_name dirent;
     ls_loop B ino is (v @ [nm]) s1
   }"

definition Inode_ls :: "'s block_ops \<Rightarrow> Inode \<Rightarrow> 's \<Rightarrow> (bytes list \<times> 's) option" where
  "Inode_ls B self s = read_disk_inode B self (\<lambda>ino s1. ls_loop B ino [0..<file_count ino] [] s1) s"

definition Inode_read_at ::
  "'s block_ops \<Rightarrow> Inode \<Rightarrow> nat \<Rightarrow> bytes \<Rightarrow> 's \<Rightarrow> ((nat \<times> bytes) \<times> 's) option"
where
  "Inode_read_at B self offset buf s = read_disk_inode B self (\<lambda>ino s1. DiskInode_read_at B ino offset buf s1) s"

definition Inode_write_at ::
  "'s block_ops \<Rightarrow> EasyFileSystem \<Rightarrow> Inode \<Rightarrow> nat \<Rightarrow> bytes \<Rightarrow> 's \<Rightarrow> (nat \<times> 's) option"
where
  "Inode_write_at B efs self offset buf s = do {
     (k, s1) \<leftarrow> modify_disk_inode B self
        (\<lambda>ino s1. do {
           (ino', s2) \<leftarrow> Inode_increase_size B efs (of_nat (offset + length buf)) ino s1;
           (k, s3) \<leftarrow> DiskInode_write_at B ino' offset buf s2;
           Some ((k, ino'), s3)
         }) s;
     s2 \<leftarrow> sync_blocks B s1;
     Some (k, s2)
   }"

fun dealloc_many :: "'s block_ops \<Rightarrow> EasyFileSystem \<Rightarrow> u32 list \<Rightarrow> 's \<Rightarrow> (unit \<times> 's) option" where
  "dealloc_many B efs [] s = Some ((), s)"
| "dealloc_many B efs (b # bs) s = do { (u, s1) \<leftarrow> dealloc_data B efs b s; dealloc_many B efs bs s1 }"

definition Inode_clear :: "'s block_ops \<Rightarrow> EasyFileSystem \<Rightarrow> Inode \<Rightarrow> 's \<Rightarrow> (unit \<times> 's) option" where
  "Inode_clear B efs self s = do {
     (u, s1) \<leftarrow> modify_disk_inode B self
        (\<lambda>ino s1. do {
           ((v, ino'), s2) \<leftarrow> clear_size B ino s1;
           if length v = unat (total_blocks (isize ino)) then do {
             (u, s3) \<leftarrow> dealloc_many B efs v s2;
             Some (((), ino'), s3)
           } else None
         }) s;
     s2 \<leftarrow> sync_blocks B s1;
     Some ((), s2)
   }"

definition Inode_link ::
  "'s block_ops \<Rightarrow> EasyFileSystem \<Rightarrow> Inode \<Rightarrow> bytes \<Rightarrow> bytes \<Rightarrow> 's \<Rightarrow> (Inode option \<times> 's) option"
where
  "Inode_link B efs self old new s = do {
     (r, s1) \<leftarrow> read_disk_inode B self
        (\<lambda>ino s1. if is_dir ino then find_inode_id B old ino s1 else None) s;
     (case r of
        Some old_inode_id \<Rightarrow> do {
          let (block_id, block_offset) = get_disk_inode_pos efs old_inode_id;
          (u, s2) \<leftarrow> modify_disk_inode B self (append_dirent B efs new old_inode_id) s1;
          Some (Some (Inode_new block_id block_offset), s2)
        }
      | None \<Rightarrow> Some (None, s1))
   }"

text \<open>
  The loop of \<^verbatim>\<open>unlink\<close>. The first entry with the name is overwritten with the last
  entry and the directory shrinks by one entry; the results of the inner \<^verbatim>\<open>read_at\<close>
  and \<^verbatim>\<open>write_at\<close> are not looked at.
\<close>

fun unlink_loop ::
  "'s block_ops \<Rightarrow> bytes \<Rightarrow> nat \<Rightarrow> nat list \<Rightarrow> DirEntry \<Rightarrow> DiskInode \<Rightarrow> 's \<Rightarrow> ((unit \<times> DiskInode) \<times> 's) option"
where
  "unlink_loop B name n [] buf ino s = Some (((), ino), s)"
| "unlink_loop B name n (i # is) buf ino s = do {
     ((k, bs), s1) \<leftarrow> DiskInode_read_at B ino (DIRENT_SZ * i) (DirEntry_as_bytes buf) s;
     let buf' = DirEntry_of_bytes bs;
     if k = DIRENT_SZ then do {
       nm \<leftarrow> DirEntry_name buf';
       if nm = name then do {
         ((k2, swap), s2) \<leftarrow> DiskInode_read_at B ino (DIRENT_SZ * (n - 1)) (DirEntry_as_bytes DirEntry_empty) s1;
         (k3, s3) \<leftarrow> DiskInode_write_at B ino (DIRENT_SZ * i) swap s2;
         Some (((), ino\<lparr>isize := isize ino - of_nat DIRENT_SZ\<rparr>), s3)
       } else unlink_loop B name n is buf' ino s1
     } else unlink_loop B name n is buf' ino s1
   }"

definition Inode_unlink :: "'s block_ops \<Rightarrow> Inode \<Rightarrow> bytes \<Rightarrow> 's \<Rightarrow> (int \<times> 's) option" where
  "Inode_unlink B self name s = do {
     (r, s1) \<leftarrow> read_disk_inode B self
        (\<lambda>ino s1. if is_dir ino then find_inode_id B name ino s1 else None) s;
     if r \<noteq> None then do {
       (u, s2) \<leftarrow> modify_disk_inode B self
          (\<lambda>ino s2. unlink_loop B name (file_count ino) [0..<file_count ino] DirEntry_empty ino s2) s1;
       Some (0, s2)
     } else Some (- 1, s1)
   }"

fun link_num_loop ::
  "'s block_ops \<Rightarrow> EasyFileSystem \<Rightarrow> nat \<Rightarrow> nat \<Rightarrow> DiskInode \<Rightarrow> nat list \<Rightarrow> DirEntry \<Rightarrow> u32 \<Rightarrow> 's \<Rightarrow>
   (u32 \<times> 's) option"
where
  "link_num_loop B efs block_id block_offset ino [] buf cnt s = Some (cnt, s)"
| "link_num_loop B efs block_id block_offset ino (i # is) buf cnt s = do {
     (buf', s1) \<leftarrow> read_dirent B ino i buf s;
     let (this_block_id, this_block_offset) = get_disk_inode_pos efs (de_inode_id buf');
     let cnt' = (if unat this_block_id = block_id \<and> this_block_offset = block_offset then cnt + 1 else cnt);
     link_num_loop B efs block_id block_offset ino is buf' cnt' s1
   }"

definition get_link_num ::
  "'s block_ops \<Rightarrow> EasyFileSystem \<Rightarrow> Inode \<Rightarrow> nat \<Rightarrow> nat \<Rightarrow> 's \<Rightarrow> (u32 \<times> 's) option"
where
  "get_link_num B efs self block_id block_offset s = read_disk_inode B self
     (\<lambda>ino s1. link_num_loop B efs block_id block_offset ino [0..<file_count ino] DirEntry_empty 0 s1) s"

end
