(* ===== verification/OpenFile.thy ===== *)
theory OpenFile
  imports Vfs UserBuffer
begin

text \<open>
  Open files, \<^verbatim>\<open>os/src/fs/inode.rs\<close> and \<^verbatim>\<open>os/src/fs/stdio.rs\<close>: an \<open>OSInode\<close> is an inode
  with an offset and its access mode. \<open>ROOT_INODE\<close> and the block device are the arguments
  \<open>efs\<close> and \<open>B\<close>. The slices of a user buffer are read from and written to physical memory.
  Offsets are bounded by the size of a file, so they are natural numbers.
\<close>

section \<open>Flags\<close>

type_synonym OpenFlags = u32

definition O_RDONLY :: OpenFlags where "O_RDONLY = 0"

definition O_WRONLY :: OpenFlags where "O_WRONLY = push_bit 0 1"

definition O_RDWR :: OpenFlags where "O_RDWR = push_bit 1 1"

definition O_CREATE :: OpenFlags where "O_CREATE = push_bit 9 1"

definition O_TRUNC :: OpenFlags where "O_TRUNC = push_bit 10 1"

definition OpenFlags_from_bits :: "u32 \<Rightarrow> OpenFlags option" where
  "OpenFlags_from_bits bits =
     (if bits AND NOT (O_WRONLY OR O_RDWR OR O_CREATE OR O_TRUNC) = 0 then Some bits else None)"

definition flags_contain :: "OpenFlags \<Rightarrow> OpenFlags \<Rightarrow> bool" where
  "flags_contain f other \<longleftrightarrow> f AND other = other"

definition read_write :: "OpenFlags \<Rightarrow> bool \<times> bool" where
  "read_write f =
     (if f = 0 then (True, False)
      else if flags_contain f O_WRONLY then (False, True)
      else (True, True))"

section \<open>OSInode\<close>

record OSInode =
  os_readable :: bool
  os_writable :: bool
  os_offset :: nat
  os_inode :: Inode

definition OSInode_new :: "bool \<Rightarrow> bool \<Rightarrow> Inode \<Rightarrow> OSInode" where
  "OSInode_new r w inode = \<lparr>os_readable = r, os_writable = w, os_offset = 0, os_inode = inode\<rparr>"

partial_function (option) read_all_loop ::
    "'s block_ops \<Rightarrow> Inode \<Rightarrow> nat \<Rightarrow> bytes \<Rightarrow> bytes \<Rightarrow> 's \<Rightarrow> ((bytes \<times> nat) \<times> 's) option" where
  "read_all_loop B inode offset buffer v s = do {
     ((len, buffer), s) \<leftarrow> Inode_read_at B inode offset buffer s;
     if len = 0 then Some ((v, offset), s)
     else read_all_loop B inode (offset + len) buffer (v @ take len buffer) s
   }"

definition read_all :: "'s block_ops \<Rightarrow> OSInode \<Rightarrow> 's \<Rightarrow> ((bytes \<times> OSInode) \<times> 's) option" where
  "read_all B f s = do {
     ((v, offset), s) \<leftarrow> read_all_loop B (os_inode f) (os_offset f) (replicate 512 0) [] s;
     Some ((v, f\<lparr>os_offset := offset\<rparr>), s)
   }"

definition get_inode_id :: "OSInode \<Rightarrow> u64" where
  "get_inode_id f = of_nat (vi_block_id (os_inode f))"

definition get_inode_pos :: "OSInode \<Rightarrow> nat \<times> nat" where
  "get_inode_pos f = (vi_block_id (os_inode f), vi_block_offset (os_inode f))"

definition open_file ::
    "'s block_ops \<Rightarrow> EasyFileSystem \<Rightarrow> bytes \<Rightarrow> OpenFlags \<Rightarrow> 's \<Rightarrow> (OSInode option \<times> 's) option" where
  "open_file B efs name flags s =
     (let (readable, writable) = read_write flags; root = root_inode efs in
      if flags_contain flags O_CREATE then do {
        (r, s) \<leftarrow> Inode_find B efs root name s;
        (case r of
           Some inode \<Rightarrow> do {
             (u, s) \<leftarrow> Inode_clear B efs inode s;
             Some (Some (OSInode_new readable writable inode), s)
           }
         | None \<Rightarrow> do {
             (r, s) \<leftarrow> Inode_create B efs root name s;
             Some (map_option (\<lambda>inode. OSInode_new readable writable inode) r, s)
           })
      }
      else do {
        (r, s) \<leftarrow> Inode_find B efs root name s;
        (case r of
           None \<Rightarrow> Some (None, s)
         | Some inode \<Rightarrow> do {
             (u, s) \<leftarrow> (if flags_contain flags O_TRUNC then Inode_clear B efs inode s else Some ((), s));
             Some (Some (OSInode_new readable writable inode), s)
           })
      })"

section \<open>Reading and writing through a user buffer\<close>

fun OSInode_read_loop ::
    "'s block_ops \<Rightarrow> Inode \<Rightarrow> slice list \<Rightarrow> nat \<Rightarrow> nat \<Rightarrow> phys_mem \<Rightarrow> 's \<Rightarrow> ((nat \<times> nat \<times> phys_mem) \<times> 's) option" where
  "OSInode_read_loop B inode [] offset acc m s = Some ((acc, offset, m), s)"
| "OSInode_read_loop B inode (x # xs) offset acc m s = do {
     ((read_size, buf), s) \<leftarrow> Inode_read_at B inode offset (mem_get m (slice_addr x) (slice_len x)) s;
     let m = mem_put (slice_addr x) buf m;
     if read_size = 0 then Some ((acc, offset, m), s)
     else OSInode_read_loop B inode xs (offset + read_size) (acc + read_size) m s
   }"

definition OSInode_read ::
    "'s block_ops \<Rightarrow> UserBuffer \<Rightarrow> OSInode \<Rightarrow> phys_mem \<Rightarrow> 's \<Rightarrow> ((nat \<times> OSInode \<times> phys_mem) \<times> 's) option" where
  "OSInode_read B buf f m s = do {
     ((acc, offset, m), s) \<leftarrow> OSInode_read_loop B (os_inode f) (buffers buf) (os_offset f) 0 m s;
     Some ((acc, f\<lparr>os_offset := offset\<rparr>, m), s)
   }"

fun OSInode_write_loop ::
    "'s block_ops \<Rightarrow> EasyFileSystem \<Rightarrow> Inode \<Rightarrow> slice list \<Rightarrow> nat \<Rightarrow> nat \<Rightarrow> phys_mem \<Rightarrow> 's \<Rightarrow> ((nat \<times> nat) \<times> 's) option" where
  "OSInode_write_loop B efs inode [] offset acc m s = Some ((acc, offset), s)"
| "OSInode_write_loop B efs inode (x # xs) offset acc m s = do {
     (write_size, s) \<leftarrow> Inode_write_at B efs inode offset (mem_get m (slice_addr x) (slice_len x)) s;
     if write_size \<noteq> slice_len x then None
     else OSInode_write_loop B efs inode xs (offset + write_size) (acc + write_size) m s
   }"

definition OSInode_write ::
    "'s block_ops \<Rightarrow> EasyFileSystem \<Rightarrow> UserBuffer \<Rightarrow> OSInode \<Rightarrow> phys_mem \<Rightarrow> 's \<Rightarrow> ((nat \<times> OSInode) \<times> 's) option" where
  "OSInode_write B efs buf f m s = do {
     ((acc, offset), s) \<leftarrow> OSInode_write_loop B efs (os_inode f) (buffers buf) (os_offset f) 0 m s;
     Some ((acc, f\<lparr>os_offset := offset\<rparr>), s)
   }"

section \<open>Standard streams\<close>

text \<open>\<^verbatim>\<open>print!\<close> of a buffer after the UTF-8 check, appended to the console.\<close>

fun Stdout_write_loop :: "slice list \<Rightarrow> phys_mem \<Rightarrow> bytes \<Rightarrow> bytes option" where
  "Stdout_write_loop [] m out = Some out"
| "Stdout_write_loop (x # xs) m out =
     (let bs = mem_get m (slice_addr x) (slice_len x)
      in if utf8_valid bs then Stdout_write_loop xs m (out @ bs) else None)"

definition Stdout_write :: "UserBuffer \<Rightarrow> phys_mem \<Rightarrow> bytes \<Rightarrow> (usize \<times> bytes) option" where
  "Stdout_write buf m out = do {
     out \<leftarrow> Stdout_write_loop (buffers buf) m out;
     Some (UserBuffer_len buf, out)
   }"

text \<open>\<^verbatim>\<open>Stat\<close> and its C layout.\<close>

record Stat =
  st_dev :: u64
  st_ino :: u64
  st_mode :: u32
  st_nlink :: u32
  st_pad :: "u64 list"

definition STAT_NULL :: u32 where "STAT_NULL = 0"

definition STAT_DIR :: u32 where "STAT_DIR = 0x4000"

definition STAT_FILE :: u32 where "STAT_FILE = 0x8000"

definition Stat_bytes :: "Stat \<Rightarrow> bytes" where
  "Stat_bytes st = le_enc 8 (unat (st_dev st)) @ le_enc 8 (unat (st_ino st)) @ le_enc 4 (unat (st_mode st))
     @ le_enc 4 (unat (st_nlink st)) @ bytes_of 8 (st_pad st)"

end
