(* ===== verification/TaskManager.thy ===== *)
theory TaskManager
  imports Prelude
begin

text \<open>
  The ready queue, \<^verbatim>\<open>os/src/task/manager.rs\<close>: a first-in first-out scheduler. The locale
  \<open>fifo\<close> is the contract the scheduling loop relies on, over the contents of the queue;
  from it follow the order of service and a bound on waiting.
\<close>

record TaskManager =
  ready_queue :: "nat list"

definition TaskManager_new :: TaskManager where
  "TaskManager_new = \<lparr>ready_queue = []\<rparr>"

definition TaskManager_add :: "nat \<Rightarrow> TaskManager \<Rightarrow> TaskManager" where
  "TaskManager_add task m = m\<lparr>ready_queue := ready_queue m @ [task]\<rparr>"

definition TaskManager_fetch :: "TaskManager \<Rightarrow> nat option \<times> TaskManager" where
  "TaskManager_fetch m =
     (case ready_queue m of
        [] \<Rightarrow> (None, m)
      | t # ts \<Rightarrow> (Some t, m\<lparr>ready_queue := ts\<rparr>))"

section \<open>Contract\<close>

locale fifo =
  fixes empty :: 'q and add :: "'a \<Rightarrow> 'q \<Rightarrow> 'q" and fetch :: "'q \<Rightarrow> 'a option \<times> 'q"
    and content :: "'q \<Rightarrow> 'a list"
  assumes content_empty: "content empty = []"
    and content_add: "content (add x q) = content q @ [x]"
    and fetch_law: "(case content q of [] \<Rightarrow> fetch q = (None, q)
        | x # xs \<Rightarrow> \<exists>q'. fetch q = (Some x, q') \<and> content q' = xs)"
begin

lemma fetch_none_iff: "fst (fetch q) = None \<longleftrightarrow> content q = []"
  using fetch_law [of q] by (auto split: list.splits)

lemma fetchD: "fetch q = (Some x, q') \<Longrightarrow> content q = x # content q'"
  using fetch_law [of q] by (auto split: list.splits)

text \<open>Serving the queue in rounds: fetch a task and put it back, as a round of time slices does.\<close>

fun rounds :: "nat \<Rightarrow> 'q \<Rightarrow> 'a list \<times> 'q" where
  "rounds 0 q = ([], q)"
| "rounds (Suc n) q =
     (case fetch q of
        (None, q1) \<Rightarrow> ([], q1)
      | (Some x, q1) \<Rightarrow> (case rounds n (add x q1) of (xs, q2) \<Rightarrow> (x # xs, q2)))"

lemma rounds_prefix:
  "n \<le> length (content q) \<Longrightarrow>
    fst (rounds n q) = take n (content q) \<and> content (snd (rounds n q)) = drop n (content q) @ take n (content q)"
proof (induction n arbitrary: q)
  case 0
  then show ?case by simp
next
  case (Suc n)
  then obtain x xs where c: "content q = x # xs" by (cases "content q") auto
  with fetch_law [of q] obtain q1 where f: "fetch q = (Some x, q1)" "content q1 = xs" by auto
  have len: "n \<le> length (content (add x q1))" using Suc.prems c f(2) by (simp add: content_add)
  show ?case using Suc.IH [OF len] Suc.prems c f
    by (cases "rounds n (add x q1)") (simp add: content_add)
qed

text \<open>No task starves: within as many fetches as there are tasks, each one is served.\<close>

lemma rounds_fair: "x \<in> set (content q) \<Longrightarrow> x \<in> set (fst (rounds (length (content q)) q))"
  using rounds_prefix [of "length (content q)" q] by simp

lemma rounds_full: "content (snd (rounds (length (content q)) q)) = content q"
  using rounds_prefix [of "length (content q)" q] by simp

end

interpretation ready: fifo TaskManager_new TaskManager_add TaskManager_fetch ready_queue
  by unfold_locales
    (auto simp: TaskManager_new_def TaskManager_add_def TaskManager_fetch_def split: list.splits)

end
