(* ===== verification/Task.thy ===== *)
theory Task
  imports OpenFile TaskId TaskManager MemorySetInv
begin

text \<open>
  Tasks, \<^verbatim>\<open>os/src/task/task.rs\<close>, \<^verbatim>\<open>os/src/task/context.rs\<close>, \<^verbatim>\<open>os/src/trap/context.rs\<close> and
  the kernel stacks of \<^verbatim>\<open>os/src/task/id.rs\<close>.

  \<open>kernel\<close> is the state of the whole kernel: memory and frames, the kernel address space,
  the allocators, the heap of task control blocks, the ready queue, the processor, the open
  files, the file system and the console. An \<open>Arc\<close> to a task or to an open file is an index
  into \<open>tcbs\<close> or \<open>open_files\<close>; the reference count of a task is the number of places of
  the state that hold its index, and the task is dropped where Rust's count reaches zero.
  \<open>kernel_env\<close> holds what the kernel takes from outside: the block device, the opened file
  system, the ELF parser, linker symbols, the initial \<open>sstatus\<close>, and the layout the
  compiler chose for \<open>TaskInfo\<close>. The time register is an argument where it is read.

  The borrow flags of \<^verbatim>\<open>UPSafeCell\<close> are not part of the state: every operation releases
  the cells it borrows, and nested borrows are of different cells.
\<close>

section \<open>Contexts\<close>

record TaskContext =
  tc_ra :: usize
  tc_sp :: usize
  tc_s :: "usize list"

definition TaskContext_zero_init :: TaskContext where
  "TaskContext_zero_init = \<lparr>tc_ra = 0, tc_sp = 0, tc_s = replicate 12 0\<rparr>"

definition goto_trap_return :: "usize \<Rightarrow> usize \<Rightarrow> TaskContext" where
  "goto_trap_return trap_return kstack_ptr =
     \<lparr>tc_ra = trap_return, tc_sp = kstack_ptr, tc_s = replicate 12 0\<rparr>"

record TrapContext =
  cx_x :: "usize list"
  cx_sstatus :: usize
  cx_sepc :: usize
  cx_kernel_satp :: usize
  cx_kernel_sp :: usize
  cx_trap_handler :: usize

definition set_sp :: "usize \<Rightarrow> TrapContext \<Rightarrow> TrapContext" where
  "set_sp sp cx = cx\<lparr>cx_x := (cx_x cx)[2 := sp]\<rparr>"

definition app_init_context :: "usize \<Rightarrow> usize \<Rightarrow> usize \<Rightarrow> usize \<Rightarrow> usize \<Rightarrow> usize \<Rightarrow> TrapContext" where
  "app_init_context user_sstatus entry sp kernel_satp kernel_sp trap_handler =
     (let cx = \<lparr>cx_x = replicate 32 0, cx_sstatus = user_sstatus, cx_sepc = entry, cx_kernel_satp = kernel_satp,
               cx_kernel_sp = kernel_sp, cx_trap_handler = trap_handler\<rparr>
      in set_sp sp cx)"

definition TrapContext_words :: "TrapContext \<Rightarrow> usize list" where
  "TrapContext_words cx =
     cx_x cx @ [cx_sstatus cx, cx_sepc cx, cx_kernel_satp cx, cx_kernel_sp cx, cx_trap_handler cx]"

definition TrapContext_of_words :: "usize list \<Rightarrow> TrapContext" where
  "TrapContext_of_words ws =
     \<lparr>cx_x = take 32 ws, cx_sstatus = ws ! 32, cx_sepc = ws ! 33, cx_kernel_satp = ws ! 34,
      cx_kernel_sp = ws ! 35, cx_trap_handler = ws ! 36\<rparr>"

definition TRAP_CX_SIZE :: nat where
  "TRAP_CX_SIZE = 296"

text \<open>The trap context of a task is at the start of its page.\<close>

definition read_trap_cx :: "phys_mem \<Rightarrow> PhysPageNum \<Rightarrow> TrapContext" where
  "read_trap_cx m p = TrapContext_of_words (words_of 8 (mem_get m (page_addr p) TRAP_CX_SIZE))"

definition write_trap_cx :: "PhysPageNum \<Rightarrow> TrapContext \<Rightarrow> phys_mem \<Rightarrow> phys_mem" where
  "write_trap_cx p cx m = put_bytes_array p 0 (bytes_of 8 (TrapContext_words cx)) m"

section \<open>Task control blocks\<close>

datatype TaskStatus = UnInit | Ready | Running | Zombie

record TaskInfo =
  ti_status :: TaskStatus
  syscall_times :: "u32 list"
  ti_time :: usize

definition CLOCK_FREQ :: usize where
  "CLOCK_FREQ = 12500000"

definition MICRO_PER_SEC :: usize where
  "MICRO_PER_SEC = 1000000"

definition get_time_us :: "usize \<Rightarrow> usize" where
  "get_time_us time = time * MICRO_PER_SEC div CLOCK_FREQ"

definition TaskInfo_new :: "usize \<Rightarrow> TaskInfo" where
  "TaskInfo_new time =
     \<lparr>ti_status = Running, syscall_times = replicate MAX_SYSCALL_NUM 0, ti_time = get_time_us time\<rparr>"

datatype fd_file = Stdin | Stdout | OSFile nat

text \<open>
  What the kernel stack of a suspended task will do when \<^verbatim>\<open>__switch\<close> returns to it: return to
  user mode, first store the result of the system call, or poll the console again.
\<close>

datatype kont = TrapReturn | SyscallReturn int | StdinRetry UserBuffer

record TaskControlBlock =
  tcb_pid :: PidHandle
  kernel_stack :: KernelStack
  trap_cx_ppn :: PhysPageNum
  base_size :: usize
  task_cx :: TaskContext
  task_status :: TaskStatus
  memory_set :: MemorySet
  parent :: "nat option"
  children :: "nat list"
  exit_code :: "32 word"
  fd_table :: "fd_file option list"
  heap_bottom :: usize
  program_brk :: usize
  task_info :: TaskInfo
  cur_stride :: usize
  pro_lev :: usize
  tcb_kont :: kont

record Processor =
  current :: "nat option"
  idle_task_cx :: TaskContext

definition Processor_new :: Processor where
  "Processor_new = \<lparr>current = None, idle_task_cx = TaskContext_zero_init\<rparr>"

record 's kernel =
  km :: kmem
  kernel_space :: MemorySet
  pid_allocator :: RecycleAllocator
  kstack_allocator :: RecycleAllocator
  tcbs :: "TaskControlBlock option list"
  task_manager :: TaskManager
  processor :: Processor
  initproc :: "nat option"
  open_files :: "OSInode list"
  fs :: 's
  console_in :: "usize list"
  console_out :: bytes

record 's kernel_env =
  blk :: "'s block_ops"
  efs_of :: EasyFileSystem
  parse_elf :: "bytes \<Rightarrow> ElfFile option"
  syms :: symbols
  trap_return_addr :: usize
  trap_handler_addr :: usize
  user_sstatus :: usize
  TaskInfo_bytes :: "TaskInfo \<Rightarrow> bytes"

definition get_tcb :: "'s kernel \<Rightarrow> nat \<Rightarrow> TaskControlBlock option" where
  "get_tcb k t = (if t < length (tcbs k) then tcbs k ! t else None)"

definition put_tcb :: "nat \<Rightarrow> TaskControlBlock \<Rightarrow> 's kernel \<Rightarrow> 's kernel" where
  "put_tcb t tcb k = k\<lparr>tcbs := (tcbs k)[t := Some tcb]\<rparr>"

definition Arc_new :: "TaskControlBlock \<Rightarrow> 's kernel \<Rightarrow> nat \<times> 's kernel" where
  "Arc_new tcb k = (length (tcbs k), k\<lparr>tcbs := tcbs k @ [Some tcb]\<rparr>)"

definition set_phys :: "phys_mem \<Rightarrow> 's kernel \<Rightarrow> 's kernel" where
  "set_phys m k = k\<lparr>km := (km k)\<lparr>phys := m\<rparr>\<rparr>"

definition tcb_user_token :: "TaskControlBlock \<Rightarrow> usize" where
  "tcb_user_token tcb = MemorySet_token (memory_set tcb)"

definition is_zombie :: "TaskControlBlock \<Rightarrow> bool" where
  "is_zombie tcb \<longleftrightarrow> task_status tcb = Zombie"

definition alloc_fd :: "TaskControlBlock \<Rightarrow> nat \<times> TaskControlBlock" where
  "alloc_fd tcb =
     (case find_idx (\<lambda>f. f = None) (fd_table tcb) of
        Some fd \<Rightarrow> (fd, tcb)
      | None \<Rightarrow> (length (fd_table tcb), tcb\<lparr>fd_table := fd_table tcb @ [None]\<rparr>))"

definition tcb_update_taskinfo :: "usize \<Rightarrow> TaskControlBlock \<Rightarrow> (int \<times> TaskControlBlock) option" where
  "tcb_update_taskinfo i tcb = do {
     n \<leftarrow> nth_opt (syscall_times (task_info tcb)) (unat i);
     times \<leftarrow> upd_opt (syscall_times (task_info tcb)) (unat i) (n + 1);
     Some (0, tcb\<lparr>task_info := (task_info tcb)\<lparr>syscall_times := times\<rparr>\<rparr>)
   }"

section \<open>Kernel stacks\<close>

definition kstack_alloc :: "'s kernel \<Rightarrow> (KernelStack \<times> 's kernel) option" where
  "kstack_alloc k = do {
     let (kid, a) = RecycleAllocator_alloc (kstack_allocator k);
     let (bottom, top) = kernel_stack_position kid;
     (ms, m) \<leftarrow> insert_framed_area (VirtAddr_of_usize bottom) (VirtAddr_of_usize top)
        (PERM_R OR PERM_W) (kernel_space k) (km k);
     Some (KernelStack kid, k\<lparr>kstack_allocator := a, kernel_space := ms, km := m\<rparr>)
   }"

definition KernelStack_drop :: "KernelStack \<Rightarrow> 's kernel \<Rightarrow> 's kernel option" where
  "KernelStack_drop ks k = do {
     let (bottom, top) = kernel_stack_position (kstack_id ks);
     v \<leftarrow> VirtPageNum_of_VirtAddr (VirtAddr_of_usize bottom);
     (ms, m) \<leftarrow> remove_area_with_start_vpn v (kernel_space k) (km k);
     a \<leftarrow> RecycleAllocator_dealloc (kstack_id ks) (kstack_allocator k);
     Some (k\<lparr>kernel_space := ms, km := m, kstack_allocator := a\<rparr>)
   }"

section \<open>Reference counts\<close>

definition strong_count :: "'s kernel \<Rightarrow> nat \<Rightarrow> nat" where
  "strong_count k t =
     count_list (ready_queue (task_manager k)) t
     + (if current (processor k) = Some t then 1 else 0)
     + (if initproc k = Some t then 1 else 0)
     + sum_list (map (\<lambda>x. case x of None \<Rightarrow> 0 | Some tcb \<Rightarrow> count_list (children tcb) t) (tcbs k))"

text \<open>
  Dropping the fields of a task control block in declaration order, up to its children,
  which are returned: their references are released next.
\<close>

definition free_task :: "nat \<Rightarrow> 's kernel \<Rightarrow> (nat list \<times> 's kernel) option" where
  "free_task t k = do {
     tcb \<leftarrow> get_tcb k t;
     a \<leftarrow> PidHandle_drop (tcb_pid tcb) (pid_allocator k);
     k \<leftarrow> KernelStack_drop (kernel_stack tcb) (k\<lparr>pid_allocator := a\<rparr>);
     m \<leftarrow> MemorySet_drop (memory_set tcb) (km k);
     Some (children tcb, k\<lparr>km := m, tcbs := (tcbs k)[t := None]\<rparr>)
   }"

partial_function (option) drop_arcs :: "nat list \<Rightarrow> 's kernel \<Rightarrow> 's kernel option" where
  "drop_arcs ts k =
     (case ts of
        [] \<Rightarrow> Some k
      | t # ts \<Rightarrow>
          if t \<in> set ts \<or> strong_count k t > 0 then drop_arcs ts k
          else do { (cs, k) \<leftarrow> free_task t k; drop_arcs (cs @ ts) k })"

section \<open>Creating tasks\<close>

definition trap_cx_page :: "phys_mem \<Rightarrow> MemorySet \<Rightarrow> PhysPageNum option" where
  "trap_cx_page m ms = do {
     v \<leftarrow> VirtPageNum_of_VirtAddr (VirtAddr_of_usize TRAP_CONTEXT_BASE);
     pte \<leftarrow> MemorySet_translate m ms v;
     Some (pte_ppn pte)
   }"

definition new_tcb ::
    "'s kernel_env \<Rightarrow> usize \<Rightarrow> PidHandle \<Rightarrow> KernelStack \<Rightarrow> PhysPageNum \<Rightarrow> usize \<Rightarrow> MemorySet \<Rightarrow> nat option \<Rightarrow>
     fd_file option list \<Rightarrow> usize \<Rightarrow> usize \<Rightarrow> TaskControlBlock" where
  "new_tcb e time h ks p base ms par fds bottom brk =
     \<lparr>tcb_pid = h, kernel_stack = ks, trap_cx_ppn = p, base_size = base,
      task_cx = goto_trap_return (trap_return_addr e) (KernelStack_get_top ks), task_status = Ready,
      memory_set = ms, parent = par, children = [], exit_code = 0, fd_table = fds,
      heap_bottom = bottom, program_brk = brk, task_info = TaskInfo_new time, cur_stride = 0, pro_lev = 16,
      tcb_kont = TrapReturn\<rparr>"

definition init_cx :: "'s kernel_env \<Rightarrow> usize \<Rightarrow> usize \<Rightarrow> KernelStack \<Rightarrow> 's kernel \<Rightarrow> TrapContext" where
  "init_cx e entry sp ks k =
     app_init_context (user_sstatus e) entry sp (MemorySet_token (kernel_space k)) (KernelStack_get_top ks)
       (trap_handler_addr e)"

definition TaskControlBlock_new ::
    "'s kernel_env \<Rightarrow> usize \<Rightarrow> bytes \<Rightarrow> 's kernel \<Rightarrow> (TaskControlBlock \<times> 's kernel) option" where
  "TaskControlBlock_new e time elf_data k = do {
     ((ms, user_sp, entry_point), m) \<leftarrow> from_elf (parse_elf e) (syms e) elf_data (km k);
     let k = k\<lparr>km := m\<rparr>;
     p \<leftarrow> trap_cx_page (phys (km k)) ms;
     let (h, a) = pid_alloc (pid_allocator k);
     let k = k\<lparr>pid_allocator := a\<rparr>;
     (ks, k) \<leftarrow> kstack_alloc k;
     let tcb = new_tcb e time h ks p user_sp ms None [Some Stdin, Some Stdout, Some Stdout] user_sp user_sp;
     Some (tcb, set_phys (write_trap_cx p (init_cx e entry_point user_sp ks k) (phys (km k))) k)
   }"

definition TaskControlBlock_exec :: "'s kernel_env \<Rightarrow> nat \<Rightarrow> bytes \<Rightarrow> 's kernel \<Rightarrow> 's kernel option" where
  "TaskControlBlock_exec e t elf_data k = do {
     ((ms, user_sp, entry_point), m) \<leftarrow> from_elf (parse_elf e) (syms e) elf_data (km k);
     let k = k\<lparr>km := m\<rparr>;
     p \<leftarrow> trap_cx_page (phys (km k)) ms;
     tcb \<leftarrow> get_tcb k t;
     m \<leftarrow> MemorySet_drop (memory_set tcb) (km k);
     let k = put_tcb t (tcb\<lparr>memory_set := ms, trap_cx_ppn := p\<rparr>) (k\<lparr>km := m\<rparr>);
     Some (set_phys (write_trap_cx p (init_cx e entry_point user_sp (kernel_stack tcb) k) (phys (km k))) k)
   }"

definition set_kernel_sp :: "PhysPageNum \<Rightarrow> usize \<Rightarrow> 's kernel \<Rightarrow> 's kernel" where
  "set_kernel_sp p sp k =
     set_phys (write_trap_cx p ((read_trap_cx (phys (km k)) p)\<lparr>cx_kernel_sp := sp\<rparr>) (phys (km k))) k"

definition copy_fd_table :: "fd_file option list \<Rightarrow> fd_file option list" where
  "copy_fd_table fds = map (\<lambda>fd. case fd of Some file \<Rightarrow> Some file | None \<Rightarrow> None) fds"

definition TaskControlBlock_fork :: "'s kernel_env \<Rightarrow> usize \<Rightarrow> nat \<Rightarrow> 's kernel \<Rightarrow> (nat \<times> 's kernel) option" where
  "TaskControlBlock_fork e time t k = do {
     par \<leftarrow> get_tcb k t;
     (ms, m) \<leftarrow> from_existed_user (syms e) (memory_set par) (km k);
     let k = k\<lparr>km := m\<rparr>;
     p \<leftarrow> trap_cx_page (phys (km k)) ms;
     let (h, a) = pid_alloc (pid_allocator k);
     let k = k\<lparr>pid_allocator := a\<rparr>;
     (ks, k) \<leftarrow> kstack_alloc k;
     let fds = copy_fd_table (fd_table par);
     let tcb = new_tcb e time h ks p (base_size par) ms (Some t) fds (heap_bottom par) (program_brk par);
     let (c, k) = Arc_new tcb k;
     let k = put_tcb t (par\<lparr>children := children par @ [c]\<rparr>) k;
     Some (c, set_kernel_sp p (KernelStack_get_top ks) k)
   }"

definition TaskControlBlock_spawn ::
    "'s kernel_env \<Rightarrow> usize \<Rightarrow> nat \<Rightarrow> bytes \<Rightarrow> 's kernel \<Rightarrow> (nat \<times> 's kernel) option" where
  "TaskControlBlock_spawn e time t elf_data k = do {
     par \<leftarrow> get_tcb k t;
     ((ms, user_sp, entry_point), m) \<leftarrow> from_elf (parse_elf e) (syms e) elf_data (km k);
     let k = k\<lparr>km := m\<rparr>;
     p \<leftarrow> trap_cx_page (phys (km k)) ms;
     let (h, a) = pid_alloc (pid_allocator k);
     let k = k\<lparr>pid_allocator := a\<rparr>;
     (ks, k) \<leftarrow> kstack_alloc k;
     let fds = copy_fd_table (fd_table par);
     let tcb = new_tcb e time h ks p user_sp ms (Some t) fds (heap_bottom par) (program_brk par);
     let (c, k) = Arc_new tcb k;
     let k = set_phys (write_trap_cx p (init_cx e entry_point user_sp ks k) (phys (km k))) k;
     let k = put_tcb t (par\<lparr>children := children par @ [c]\<rparr>) k;
     Some (c, set_kernel_sp p (KernelStack_get_top ks) k)
   }"

definition change_program_brk ::
    "32 word \<Rightarrow> TaskControlBlock \<Rightarrow> kmem \<Rightarrow> (usize option \<times> TaskControlBlock \<times> kmem) option" where
  "change_program_brk sz tcb m =
     (let bottom = heap_bottom tcb;
          old_break = program_brk tcb;
          new_brk = program_brk tcb + scast sz
      in if sint new_brk < sint bottom then Some (None, tcb, m)
         else do {
           (result, ms, m) \<leftarrow>
             (if sint sz < 0
              then MemorySet_shrink_to (VirtAddr bottom) (VirtAddr new_brk) (memory_set tcb) m
              else MemorySet_append_to (VirtAddr bottom) (VirtAddr new_brk) (memory_set tcb) m);
           let tcb = tcb\<lparr>memory_set := ms\<rparr>;
           if result then Some (Some old_break, tcb\<lparr>program_brk := new_brk\<rparr>, m)
           else Some (None, tcb, m)
         })"

end
