(* ===== verification/Sched.thy ===== *)
theory Sched
  imports Task
begin

text \<open>
  The processor and the scheduling functions, \<^verbatim>\<open>os/src/task/processor.rs\<close> and
  \<^verbatim>\<open>os/src/task/mod.rs\<close>. \<^verbatim>\<open>__switch\<close> to the idle control flow leaves the state with no
  current task and the continuation of the suspended task in its control block; an
  iteration of \<open>run_tasks\<close> picks the next task and runs its continuation.
\<close>

section \<open>The processor\<close>

definition take_current_task :: "'s kernel \<Rightarrow> nat option \<times> 's kernel" where
  "take_current_task k =
     (current (processor k), k\<lparr>processor := (processor k)\<lparr>current := None\<rparr>\<rparr>)"

definition current_task :: "'s kernel \<Rightarrow> nat option" where
  "current_task k = current (processor k)"

definition set_current :: "nat \<Rightarrow> 's kernel \<Rightarrow> 's kernel" where
  "set_current t k = k\<lparr>processor := (processor k)\<lparr>current := Some t\<rparr>\<rparr>"

definition current_tcb :: "'s kernel \<Rightarrow> (nat \<times> TaskControlBlock) option" where
  "current_tcb k = do { t \<leftarrow> current_task k; tcb \<leftarrow> get_tcb k t; Some (t, tcb) }"

definition current_user_token :: "'s kernel \<Rightarrow> usize option" where
  "current_user_token k = do { (t, tcb) \<leftarrow> current_tcb k; Some (tcb_user_token tcb) }"

definition current_trap_cx :: "'s kernel \<Rightarrow> TrapContext option" where
  "current_trap_cx k = do { (t, tcb) \<leftarrow> current_tcb k; Some (read_trap_cx (phys (km k)) (trap_cx_ppn tcb)) }"

definition set_trap_cx :: "TrapContext \<Rightarrow> 's kernel \<Rightarrow> 's kernel option" where
  "set_trap_cx cx k = do {
     (t, tcb) \<leftarrow> current_tcb k;
     Some (set_phys (write_trap_cx (trap_cx_ppn tcb) cx (phys (km k))) k)
   }"

definition add_task :: "nat \<Rightarrow> 's kernel \<Rightarrow> 's kernel" where
  "add_task t k = k\<lparr>task_manager := TaskManager_add t (task_manager k)\<rparr>"

definition fetch_task :: "'s kernel \<Rightarrow> nat option \<times> 's kernel" where
  "fetch_task k = (case TaskManager_fetch (task_manager k) of (t, m) \<Rightarrow> (t, k\<lparr>task_manager := m\<rparr>))"

section \<open>Suspending\<close>

definition suspend_current_and_run_next :: "kont \<Rightarrow> 's kernel \<Rightarrow> 's kernel option" where
  "suspend_current_and_run_next c k =
     (case take_current_task k of (task, k) \<Rightarrow> do {
        t \<leftarrow> task;
        tcb \<leftarrow> get_tcb k t;
        let k = put_tcb t (tcb\<lparr>task_status := Ready, tcb_kont := c\<rparr>) k;
        Some (add_task t k)
      })"

text \<open>
  \<open>Stdin\<close>: one poll of the console. Without a character the task is suspended and polls
  again when it is resumed. The result of the poll is the result of \<^verbatim>\<open>read\<close>, or nothing when
  the task was switched away.
\<close>

definition console_getchar :: "'s kernel \<Rightarrow> usize \<times> 's kernel" where
  "console_getchar k = (case console_in k of [] \<Rightarrow> (0, k) | c # cs \<Rightarrow> (c, k\<lparr>console_in := cs\<rparr>))"

definition Stdin_read :: "UserBuffer \<Rightarrow> 's kernel \<Rightarrow> (nat option \<times> 's kernel) option" where
  "Stdin_read user_buf k =
     (if UserBuffer_len user_buf \<noteq> 1 then None
      else case console_getchar k of (c, k) \<Rightarrow>
        if c = 0 then do { k \<leftarrow> suspend_current_and_run_next (StdinRetry user_buf) k; Some (None, k) }
        else do {
          b \<leftarrow> nth_opt (buffers user_buf) 0;
          Some (Some 1, set_phys (mem_put (slice_addr b) [ucast c] (phys (km k))) k)
        })"

definition store_result :: "int \<Rightarrow> 's kernel \<Rightarrow> 's kernel option" where
  "store_result r k = do {
     cx \<leftarrow> current_trap_cx k;
     set_trap_cx (cx\<lparr>cx_x := (cx_x cx)[10 := word_of_int r]\<rparr>) k
   }"

section \<open>The scheduling loop\<close>

definition resume :: "'s kernel \<Rightarrow> 's kernel option" where
  "resume k = do {
     (t, tcb) \<leftarrow> current_tcb k;
     let k = put_tcb t (tcb\<lparr>tcb_kont := TrapReturn\<rparr>) k;
     (case tcb_kont tcb of
        TrapReturn \<Rightarrow> Some k
      | SyscallReturn r \<Rightarrow> store_result r k
      | StdinRetry buf \<Rightarrow> do {
          (r, k) \<leftarrow> Stdin_read buf k;
          (case r of None \<Rightarrow> Some k | Some n \<Rightarrow> store_result (int n) k)
        })
   }"

definition run_tasks_iter :: "'s kernel \<Rightarrow> 's kernel option" where
  "run_tasks_iter k =
     (case fetch_task k of
        (None, k) \<Rightarrow> Some k
      | (Some t, k) \<Rightarrow> do {
          tcb \<leftarrow> get_tcb k t;
          resume (set_current t (put_tcb t (tcb\<lparr>task_status := Running\<rparr>) k))
        })"

section \<open>The initial process\<close>

definition ascii :: "string \<Rightarrow> bytes" where
  "ascii s = map (\<lambda>c. of_nat (of_char c)) s"

definition INITPROC :: "'s kernel_env \<Rightarrow> usize \<Rightarrow> 's kernel \<Rightarrow> (nat \<times> 's kernel) option" where
  "INITPROC e time k =
     (case initproc k of
        Some i \<Rightarrow> Some (i, k)
      | None \<Rightarrow> do {
          (r, s) \<leftarrow> open_file (blk e) (efs_of e) (ascii ''ch6b_initproc'') O_RDONLY (fs k);
          inode \<leftarrow> r;
          ((v, inode), s) \<leftarrow> read_all (blk e) inode s;
          (tcb, k) \<leftarrow> TaskControlBlock_new e time v (k\<lparr>fs := s\<rparr>);
          let (i, k) = Arc_new tcb k;
          Some (i, k\<lparr>initproc := Some i\<rparr>)
        })"

definition add_initproc :: "'s kernel_env \<Rightarrow> usize \<Rightarrow> 's kernel \<Rightarrow> 's kernel option" where
  "add_initproc e time k = do { (i, k) \<leftarrow> INITPROC e time k; Some (add_task i k) }"

section \<open>Exiting\<close>

definition IDLE_PID :: usize where
  "IDLE_PID = 0"

fun reparent :: "nat \<Rightarrow> nat list \<Rightarrow> 's kernel \<Rightarrow> 's kernel option" where
  "reparent i [] k = Some k"
| "reparent i (c # cs) k = do {
     child \<leftarrow> get_tcb k c;
     let k = put_tcb c (child\<lparr>parent := Some i\<rparr>) k;
     ini \<leftarrow> get_tcb k i;
     reparent i cs (put_tcb i (ini\<lparr>children := children ini @ [c]\<rparr>) k)
   }"

definition exit_current_and_run_next ::
    "'s kernel_env \<Rightarrow> usize \<Rightarrow> 32 word \<Rightarrow> 's kernel \<Rightarrow> 's kernel option" where
  "exit_current_and_run_next e time code k =
     (case take_current_task k of (task, k) \<Rightarrow> do {
        t \<leftarrow> task;
        tcb \<leftarrow> get_tcb k t;
        if pid (tcb_pid tcb) = IDLE_PID then None else do {
          let k = put_tcb t (tcb\<lparr>task_status := Zombie, exit_code := code\<rparr>) k;
          (i, k) \<leftarrow> INITPROC e time k;
          if i = t \<or> t \<in> set (children tcb) \<or> i \<in> set (children tcb) then None else do {
            k \<leftarrow> reparent i (children tcb) k;
            tcb \<leftarrow> get_tcb k t;
            k \<leftarrow> drop_arcs (children tcb) (put_tcb t (tcb\<lparr>children := []\<rparr>) k);
            tcb \<leftarrow> get_tcb k t;
            (ms, m) \<leftarrow> recycle_data_pages (memory_set tcb) (km k);
            drop_arcs [t] (put_tcb t (tcb\<lparr>memory_set := ms, fd_table := []\<rparr>) (k\<lparr>km := m\<rparr>))
          }
        }
      })"

section \<open>Areas and statistics of the current task\<close>

definition add_maparea :: "VirtAddr \<Rightarrow> VirtAddr \<Rightarrow> MapPermission \<Rightarrow> 's kernel \<Rightarrow> 's kernel option" where
  "add_maparea start_va end_va permission k =
     (case take_current_task k of (task, k) \<Rightarrow> do {
        t \<leftarrow> task;
        tcb \<leftarrow> get_tcb k t;
        (ms, m) \<leftarrow> insert_framed_area start_va end_va permission (memory_set tcb) (km k);
        Some (set_current t (put_tcb t (tcb\<lparr>memory_set := ms\<rparr>) (k\<lparr>km := m\<rparr>)))
      })"

definition remove_maparea :: "VirtAddr \<Rightarrow> VirtAddr \<Rightarrow> 's kernel \<Rightarrow> (int \<times> 's kernel) option" where
  "remove_maparea start_va end_va k =
     (case take_current_task k of (task, k) \<Rightarrow> do {
        t \<leftarrow> task;
        tcb \<leftarrow> get_tcb k t;
        (i, ms, m) \<leftarrow> remove_framed_area start_va end_va (memory_set tcb) (km k);
        Some (i, set_current t (put_tcb t (tcb\<lparr>memory_set := ms\<rparr>) (k\<lparr>km := m\<rparr>)))
      })"

definition check_maparea :: "VirtAddr \<Rightarrow> VirtAddr \<Rightarrow> 's kernel \<Rightarrow> (bool \<times> 's kernel) option" where
  "check_maparea start_va end_va k =
     (case take_current_task k of (task, k) \<Rightarrow> do {
        t \<leftarrow> task;
        tcb \<leftarrow> get_tcb k t;
        Some (check_conflict start_va end_va (memory_set tcb), set_current t k)
      })"

definition update_taskinfo :: "usize \<Rightarrow> 's kernel \<Rightarrow> (int \<times> 's kernel) option" where
  "update_taskinfo i k =
     (case take_current_task k of (task, k) \<Rightarrow> do {
        t \<leftarrow> task;
        tcb \<leftarrow> get_tcb k t;
        (r, tcb) \<leftarrow> tcb_update_taskinfo i tcb;
        Some (r, set_current t (put_tcb t tcb k))
      })"

definition get_taskinfo :: "'s kernel \<Rightarrow> (TaskInfo \<times> 's kernel) option" where
  "get_taskinfo k =
     (case take_current_task k of (task, k) \<Rightarrow> do {
        t \<leftarrow> task;
        tcb \<leftarrow> get_tcb k t;
        Some (task_info tcb, set_current t k)
      })"

end
