(* ===== verification/Syscall.thy ===== *)
theory Syscall
  imports Sched
begin

text \<open>
  System calls, \<^verbatim>\<open>os/src/syscall/process.rs\<close>, \<^verbatim>\<open>os/src/syscall/fs.rs\<close>, \<^verbatim>\<open>os/src/syscall/mod.rs\<close>,
  and the trap handler that dispatches them, \<^verbatim>\<open>os/src/trap/mod.rs\<close>. A system call either
  returns an \<open>isize\<close>, an integer here, or switches away from the task (\<open>Switched\<close>): then the
  continuation in the control block says what remains to be done. \<open>None\<close> is a kernel panic.
\<close>

datatype outcome = Ret int | Switched

type_synonym 's syscall_result = "(outcome \<times> 's kernel) option"

section \<open>Processes\<close>

definition sys_exit :: "'s kernel_env \<Rightarrow> usize \<Rightarrow> 32 word \<Rightarrow> 's kernel \<Rightarrow> 's syscall_result" where
  "sys_exit e time code k = do { k \<leftarrow> exit_current_and_run_next e time code k; Some (Switched, k) }"

definition sys_yield :: "'s kernel \<Rightarrow> 's syscall_result" where
  "sys_yield k = do { k \<leftarrow> suspend_current_and_run_next (SyscallReturn 0) k; Some (Switched, k) }"

definition sys_getpid :: "'s kernel \<Rightarrow> 's syscall_result" where
  "sys_getpid k = do { (t, tcb) \<leftarrow> current_tcb k; Some (Ret (sint (pid (tcb_pid tcb))), k) }"

text \<open>The child returns 0 from \<^verbatim>\<open>fork\<close> and \<^verbatim>\<open>spawn\<close>.\<close>

definition clear_a0 :: "nat \<Rightarrow> 's kernel \<Rightarrow> 's kernel option" where
  "clear_a0 c k = do {
     tcb \<leftarrow> get_tcb k c;
     let cx = read_trap_cx (phys (km k)) (trap_cx_ppn tcb);
     Some (set_phys (write_trap_cx (trap_cx_ppn tcb) (cx\<lparr>cx_x := (cx_x cx)[10 := 0]\<rparr>) (phys (km k))) k)
   }"

definition sys_fork :: "'s kernel_env \<Rightarrow> usize \<Rightarrow> 's kernel \<Rightarrow> 's syscall_result" where
  "sys_fork e time k = do {
     t \<leftarrow> current_task k;
     (c, k) \<leftarrow> TaskControlBlock_fork e time t k;
     child \<leftarrow> get_tcb k c;
     k \<leftarrow> clear_a0 c k;
     Some (Ret (sint (pid (tcb_pid child))), add_task c k)
   }"

definition sys_exec :: "'s kernel_env \<Rightarrow> usize \<Rightarrow> 's kernel \<Rightarrow> 's syscall_result" where
  "sys_exec e path k = do {
     token \<leftarrow> current_user_token k;
     path \<leftarrow> translated_str (phys (km k)) token path;
     (r, s) \<leftarrow> open_file (blk e) (efs_of e) path O_RDONLY (fs k);
     let k = k\<lparr>fs := s\<rparr>;
     (case r of
        Some app_inode \<Rightarrow> do {
          ((all_data, app_inode), s) \<leftarrow> read_all (blk e) app_inode (fs k);
          t \<leftarrow> current_task k;
          k \<leftarrow> TaskControlBlock_exec e t all_data (k\<lparr>fs := s\<rparr>);
          Some (Ret 0, k)
        }
      | None \<Rightarrow> Some (Ret (-1), k))
   }"

definition child_pid :: "'s kernel \<Rightarrow> nat \<Rightarrow> usize" where
  "child_pid k c = (case get_tcb k c of Some tcb \<Rightarrow> pid (tcb_pid tcb) | None \<Rightarrow> 0)"

definition child_zombie :: "'s kernel \<Rightarrow> nat \<Rightarrow> bool" where
  "child_zombie k c = (case get_tcb k c of Some tcb \<Rightarrow> is_zombie tcb | None \<Rightarrow> False)"

definition sys_waitpid :: "int \<Rightarrow> usize \<Rightarrow> 's kernel \<Rightarrow> 's syscall_result" where
  "sys_waitpid p exit_code_ptr k = do {
     (t, tcb) \<leftarrow> current_tcb k;
     if \<not> (\<exists>c \<in> set (children tcb). p = -1 \<or> word_of_int p = child_pid k c) then Some (Ret (-1), k)
     else
       (case find_idx (\<lambda>c. child_zombie k c \<and> (p = -1 \<or> word_of_int p = child_pid k c)) (children tcb) of
          Some idx \<Rightarrow> do {
            let c = children tcb ! idx;
            let k = put_tcb t (tcb\<lparr>children := take idx (children tcb) @ drop (Suc idx) (children tcb)\<rparr>) k;
            if strong_count k c \<noteq> 0 then None else do {
              child \<leftarrow> get_tcb k c;
              let found_pid = pid (tcb_pid child);
              a \<leftarrow> translated_refmut (phys (km k)) (tcb_user_token tcb) exit_code_ptr;
              let k = set_phys (PhysAddr_set_mut a (le_enc 4 (unat (exit_code child))) (phys (km k))) k;
              k \<leftarrow> drop_arcs [c] k;
              Some (Ret (sint found_pid), k)
            }
          }
        | None \<Rightarrow> Some (Ret (-2), k))
   }"

definition TimeVal_bytes :: "usize \<Rightarrow> usize \<Rightarrow> bytes" where
  "TimeVal_bytes sec usec = le_enc 8 (unat sec) @ le_enc 8 (unat usec)"

definition sys_get_time :: "usize \<Rightarrow> usize \<Rightarrow> usize \<Rightarrow> 's kernel \<Rightarrow> 's syscall_result" where
  "sys_get_time time ts tz k = do {
     let us = get_time_us time;
     token \<leftarrow> current_user_token k;
     a \<leftarrow> translated_refmut (phys (km k)) token ts;
     Some (Ret 0, set_phys (PhysAddr_set_mut a (TimeVal_bytes (us div 1000000) (us mod 1000000)) (phys (km k))) k)
   }"

definition sys_task_info :: "'s kernel_env \<Rightarrow> usize \<Rightarrow> usize \<Rightarrow> 's kernel \<Rightarrow> 's syscall_result" where
  "sys_task_info e time ti k = do {
     token \<leftarrow> current_user_token k;
     a \<leftarrow> translated_refmut (phys (km k)) token ti;
     (task_ref, k) \<leftarrow> get_taskinfo k;
     let info = \<lparr>ti_status = Running, syscall_times = syscall_times task_ref,
                 ti_time = (get_time_us time - ti_time task_ref) div 1000\<rparr>;
     Some (Ret 0, set_phys (PhysAddr_set_mut a (TaskInfo_bytes e info) (phys (km k))) k)
   }"

definition port_perm :: "usize \<Rightarrow> MapPermission" where
  "port_perm port =
     (let map_perm = PERM_U;
          map_perm = (if 1 AND port \<noteq> 0 then map_perm OR PERM_R else map_perm);
          map_perm = (if 2 AND port \<noteq> 0 then map_perm OR PERM_W else map_perm);
          map_perm = (if 4 AND port \<noteq> 0 then map_perm OR PERM_X else map_perm)
      in map_perm)"

definition sys_mmap :: "usize \<Rightarrow> usize \<Rightarrow> usize \<Rightarrow> 's kernel \<Rightarrow> 's syscall_result" where
  "sys_mmap start len port k =
     (if len = 0 then Some (Ret 0, k)
      else if port AND NOT 7 \<noteq> 0 \<or> port AND 7 = 0 then Some (Ret (-1), k)
      else let end' = start + len; start_va = VirtAddr_of_usize start in
        if \<not> VirtAddr_aligned start_va then Some (Ret (-1), k)
        else do {
          let end_va = VirtAddr_of_usize end';
          (c, k) \<leftarrow> check_maparea start_va end_va k;
          if c then Some (Ret (-1), k)
          else do {
            k \<leftarrow> add_maparea start_va end_va (port_perm port) k;
            Some (Ret 0, k)
          }
        })"

definition sys_munmap :: "usize \<Rightarrow> usize \<Rightarrow> 's kernel \<Rightarrow> 's syscall_result" where
  "sys_munmap start len k =
     (let end' = start + len; start_va = VirtAddr_of_usize start in
      if \<not> VirtAddr_aligned start_va then Some (Ret (-1), k)
      else do {
        let end_va = VirtAddr_of_usize end';
        (r, k) \<leftarrow> remove_maparea start_va end_va k;
        Some (Ret r, k)
      })"

definition sys_sbrk :: "32 word \<Rightarrow> 's kernel \<Rightarrow> 's syscall_result" where
  "sys_sbrk sz k = do {
     (t, tcb) \<leftarrow> current_tcb k;
     (r, tcb, m) \<leftarrow> change_program_brk sz tcb (km k);
     let k = put_tcb t tcb (k\<lparr>km := m\<rparr>);
     Some (Ret (case r of Some old_brk \<Rightarrow> sint old_brk | None \<Rightarrow> -1), k)
   }"

definition sys_spawn :: "'s kernel_env \<Rightarrow> usize \<Rightarrow> usize \<Rightarrow> 's kernel \<Rightarrow> 's syscall_result" where
  "sys_spawn e time path k = do {
     token \<leftarrow> current_user_token k;
     path \<leftarrow> translated_str (phys (km k)) token path;
     (r, s) \<leftarrow> open_file (blk e) (efs_of e) path O_RDONLY (fs k);
     let k = k\<lparr>fs := s\<rparr>;
     (case r of
        Some app_inode \<Rightarrow> do {
          ((all_data, app_inode), s) \<leftarrow> read_all (blk e) app_inode (fs k);
          let k = k\<lparr>fs := s\<rparr>;
          t \<leftarrow> current_task k;
          (c, k) \<leftarrow> TaskControlBlock_spawn e time t all_data k;
          child \<leftarrow> get_tcb k c;
          k \<leftarrow> clear_a0 c k;
          Some (Ret (sint (pid (tcb_pid child))), add_task c k)
        }
      | None \<Rightarrow> Some (Ret (-1), k))
   }"

definition sys_set_priority :: "int \<Rightarrow> 's kernel \<Rightarrow> 's syscall_result" where
  "sys_set_priority prio k =
     (if prio < 2 then Some (Ret (-1), k)
      else case take_current_task k of (task, k) \<Rightarrow> do {
        t \<leftarrow> task;
        tcb \<leftarrow> get_tcb k t;
        Some (Ret prio, set_current t (put_tcb t (tcb\<lparr>pro_lev := word_of_int prio\<rparr>) k))
      })"

section \<open>Files\<close>

definition file_readable :: "'s kernel \<Rightarrow> fd_file \<Rightarrow> bool option" where
  "file_readable k f =
     (case f of Stdin \<Rightarrow> Some True | Stdout \<Rightarrow> Some False
      | OSFile i \<Rightarrow> map_option os_readable (nth_opt (open_files k) i))"

definition file_writable :: "'s kernel \<Rightarrow> fd_file \<Rightarrow> bool option" where
  "file_writable k f =
     (case f of Stdin \<Rightarrow> Some False | Stdout \<Rightarrow> Some True
      | OSFile i \<Rightarrow> map_option os_writable (nth_opt (open_files k) i))"

text \<open>The method \<^verbatim>\<open>write\<close> of \<^verbatim>\<open>dyn File\<close>; \<open>Stdin\<close> panics.\<close>

definition dyn_write :: "'s kernel_env \<Rightarrow> fd_file \<Rightarrow> UserBuffer \<Rightarrow> 's kernel \<Rightarrow> 's syscall_result" where
  "dyn_write e f buf k =
     (case f of
        Stdin \<Rightarrow> None
      | Stdout \<Rightarrow> do {
          (n, out) \<leftarrow> Stdout_write buf (phys (km k)) (console_out k);
          Some (Ret (sint n), k\<lparr>console_out := out\<rparr>)
        }
      | OSFile i \<Rightarrow> do {
          node \<leftarrow> nth_opt (open_files k) i;
          ((n, node), s) \<leftarrow> OSInode_write (blk e) (efs_of e) buf node (phys (km k)) (fs k);
          Some (Ret (int n), k\<lparr>open_files := (open_files k)[i := node], fs := s\<rparr>)
        })"

definition dyn_read :: "'s kernel_env \<Rightarrow> fd_file \<Rightarrow> UserBuffer \<Rightarrow> 's kernel \<Rightarrow> 's syscall_result" where
  "dyn_read e f buf k =
     (case f of
        Stdin \<Rightarrow> do {
          (r, k) \<leftarrow> Stdin_read buf k;
          Some (case r of None \<Rightarrow> Switched | Some n \<Rightarrow> Ret (int n), k)
        }
      | Stdout \<Rightarrow> None
      | OSFile i \<Rightarrow> do {
          node \<leftarrow> nth_opt (open_files k) i;
          ((n, node, m), s) \<leftarrow> OSInode_read (blk e) buf node (phys (km k)) (fs k);
          Some (Ret (int n), set_phys m (k\<lparr>open_files := (open_files k)[i := node], fs := s\<rparr>))
        })"

definition sys_write :: "'s kernel_env \<Rightarrow> usize \<Rightarrow> usize \<Rightarrow> usize \<Rightarrow> 's kernel \<Rightarrow> 's syscall_result" where
  "sys_write e fd buf len k = do {
     token \<leftarrow> current_user_token k;
     (t, tcb) \<leftarrow> current_tcb k;
     if unat fd \<ge> length (fd_table tcb) then Some (Ret (-1), k)
     else
       (case fd_table tcb ! unat fd of
          Some f \<Rightarrow> do {
            w \<leftarrow> file_writable k f;
            if \<not> w then Some (Ret (-1), k)
            else do {
              v \<leftarrow> translated_byte_buffer (phys (km k)) token buf len;
              dyn_write e f (UserBuffer_new v) k
            }
          }
        | None \<Rightarrow> Some (Ret (-1), k))
   }"

definition sys_read :: "'s kernel_env \<Rightarrow> usize \<Rightarrow> usize \<Rightarrow> usize \<Rightarrow> 's kernel \<Rightarrow> 's syscall_result" where
  "sys_read e fd buf len k = do {
     token \<leftarrow> current_user_token k;
     (t, tcb) \<leftarrow> current_tcb k;
     if unat fd \<ge> length (fd_table tcb) then Some (Ret (-1), k)
     else
       (case fd_table tcb ! unat fd of
          Some f \<Rightarrow> do {
            r \<leftarrow> file_readable k f;
            if \<not> r then Some (Ret (-1), k)
            else do {
              v \<leftarrow> translated_byte_buffer (phys (km k)) token buf len;
              dyn_read e f (UserBuffer_new v) k
            }
          }
        | None \<Rightarrow> Some (Ret (-1), k))
   }"

definition sys_open :: "'s kernel_env \<Rightarrow> usize \<Rightarrow> u32 \<Rightarrow> 's kernel \<Rightarrow> 's syscall_result" where
  "sys_open e path flags k = do {
     t \<leftarrow> current_task k;
     token \<leftarrow> current_user_token k;
     path \<leftarrow> translated_str (phys (km k)) token path;
     flags \<leftarrow> OpenFlags_from_bits flags;
     (r, s) \<leftarrow> open_file (blk e) (efs_of e) path flags (fs k);
     let k = k\<lparr>fs := s\<rparr>;
     (case r of
        Some inode \<Rightarrow> do {
          tcb \<leftarrow> get_tcb k t;
          let (fd, tcb) = alloc_fd tcb;
          let i = length (open_files k);
          Some (Ret (int fd), put_tcb t (tcb\<lparr>fd_table := (fd_table tcb)[fd := Some (OSFile i)]\<rparr>)
            (k\<lparr>open_files := open_files k @ [inode]\<rparr>))
        }
      | None \<Rightarrow> Some (Ret (-1), k))
   }"

definition sys_close :: "usize \<Rightarrow> 's kernel \<Rightarrow> 's syscall_result" where
  "sys_close fd k = do {
     (t, tcb) \<leftarrow> current_tcb k;
     if unat fd \<ge> length (fd_table tcb) then Some (Ret (-1), k)
     else if fd_table tcb ! unat fd = None then Some (Ret (-1), k)
     else Some (Ret 0, put_tcb t (tcb\<lparr>fd_table := (fd_table tcb)[unat fd := None]\<rparr>) k)
   }"

text \<open>The copy loop of \<^verbatim>\<open>sys_fstat\<close>: slice number \<open>idx\<close> is filled from byte \<open>idx\<close> of the structure.\<close>

fun fstat_copy :: "bytes \<Rightarrow> nat \<Rightarrow> slice list \<Rightarrow> phys_mem \<Rightarrow> phys_mem" where
  "fstat_copy stat idx [] m = m"
| "fstat_copy stat idx (x # xs) m =
     fstat_copy stat (Suc idx) xs (mem_put (slice_addr x) (buf_get idx (slice_len x) stat) m)"

definition sys_fstat :: "'s kernel_env \<Rightarrow> usize \<Rightarrow> usize \<Rightarrow> 's kernel \<Rightarrow> 's syscall_result" where
  "sys_fstat e fd st k = do {
     (t, tcb) \<leftarrow> current_tcb k;
     if unat fd \<ge> length (fd_table tcb) then Some (Ret (-1), k)
     else
       (case fd_table tcb ! unat fd of
          None \<Rightarrow> Some (Ret (-1), k)
        | Some Stdin \<Rightarrow> None
        | Some Stdout \<Rightarrow> None
        | Some (OSFile i) \<Rightarrow> do {
            os_node \<leftarrow> nth_opt (open_files k) i;
            let ino = get_inode_id os_node;
            let (block_id, block_offset) = get_inode_pos os_node;
            (nlink, s) \<leftarrow> get_link_num (blk e) (efs_of e) (root_inode (efs_of e)) block_id block_offset (fs k);
            let k = k\<lparr>fs := s\<rparr>;
            let stat = \<lparr>st_dev = 0, st_ino = ino, st_mode = STAT_FILE, st_nlink = nlink, st_pad = replicate 7 0\<rparr>;
            v \<leftarrow> translated_byte_buffer (phys (km k)) (tcb_user_token tcb) st 80;
            Some (Ret 0, set_phys (fstat_copy (Stat_bytes stat) 0 v (phys (km k))) k)
          })
   }"

definition sys_linkat :: "'s kernel_env \<Rightarrow> usize \<Rightarrow> usize \<Rightarrow> 's kernel \<Rightarrow> 's syscall_result" where
  "sys_linkat e old_name new_name k = do {
     token \<leftarrow> current_user_token k;
     old \<leftarrow> translated_str (phys (km k)) token old_name;
     new \<leftarrow> translated_str (phys (km k)) token new_name;
     let k = k\<lparr>console_out := console_out k @ ascii ''link '' @ new @ ascii '' to '' @ old @ [10]\<rparr>;
     if old \<noteq> new then do {
       (r, s) \<leftarrow> Inode_link (blk e) (efs_of e) (root_inode (efs_of e)) old new (fs k);
       Some (Ret (if r \<noteq> None then 0 else -1), k\<lparr>fs := s\<rparr>)
     }
     else Some (Ret (-1), k)
   }"

definition sys_unlinkat :: "'s kernel_env \<Rightarrow> usize \<Rightarrow> 's kernel \<Rightarrow> 's syscall_result" where
  "sys_unlinkat e name k = do {
     token \<leftarrow> current_user_token k;
     name \<leftarrow> translated_str (phys (km k)) token name;
     let root = root_inode (efs_of e);
     (r, s) \<leftarrow> Inode_find (blk e) (efs_of e) root name (fs k);
     (case r of
        Some inode \<Rightarrow> do {
          (n, s) \<leftarrow> get_link_num (blk e) (efs_of e) root (vi_block_id inode) (vi_block_offset inode) s;
          (u, s) \<leftarrow> (if n = 1 then Inode_clear (blk e) (efs_of e) inode s else Some ((), s));
          (x, s) \<leftarrow> Inode_unlink (blk e) root name s;
          Some (Ret x, k\<lparr>fs := s\<rparr>)
        }
      | None \<Rightarrow> Some (Ret (-1), k\<lparr>fs := s\<rparr>))
   }"

section \<open>Dispatch\<close>

definition SYSCALL_UNLINKAT :: usize where "SYSCALL_UNLINKAT = 35"

definition SYSCALL_LINKAT :: usize where "SYSCALL_LINKAT = 37"

definition SYSCALL_OPEN :: usize where "SYSCALL_OPEN = 56"

definition SYSCALL_CLOSE :: usize where "SYSCALL_CLOSE = 57"

definition SYSCALL_READ :: usize where "SYSCALL_READ = 63"

definition SYSCALL_WRITE :: usize where "SYSCALL_WRITE = 64"

definition SYSCALL_FSTAT :: usize where "SYSCALL_FSTAT = 80"

definition SYSCALL_EXIT :: usize where "SYSCALL_EXIT = 93"

definition SYSCALL_YIELD :: usize where "SYSCALL_YIELD = 124"

definition SYSCALL_SET_PRIORITY :: usize where "SYSCALL_SET_PRIORITY = 140"

definition SYSCALL_GET_TIME :: usize where "SYSCALL_GET_TIME = 169"

definition SYSCALL_GETPID :: usize where "SYSCALL_GETPID = 172"

definition SYSCALL_SBRK :: usize where "SYSCALL_SBRK = 214"

definition SYSCALL_MUNMAP :: usize where "SYSCALL_MUNMAP = 215"

definition SYSCALL_FORK :: usize where "SYSCALL_FORK = 220"

definition SYSCALL_EXEC :: usize where "SYSCALL_EXEC = 221"

definition SYSCALL_MMAP :: usize where "SYSCALL_MMAP = 222"

definition SYSCALL_WAITPID :: usize where "SYSCALL_WAITPID = 260"

definition SYSCALL_SPAWN :: usize where "SYSCALL_SPAWN = 400"

definition SYSCALL_TASK_INFO :: usize where "SYSCALL_TASK_INFO = 410"

lemmas syscall_ids [const_defs] =
  SYSCALL_UNLINKAT_def SYSCALL_LINKAT_def SYSCALL_OPEN_def SYSCALL_CLOSE_def SYSCALL_READ_def
  SYSCALL_WRITE_def SYSCALL_FSTAT_def SYSCALL_EXIT_def SYSCALL_YIELD_def SYSCALL_SET_PRIORITY_def
  SYSCALL_GET_TIME_def SYSCALL_GETPID_def SYSCALL_SBRK_def SYSCALL_MUNMAP_def SYSCALL_FORK_def
  SYSCALL_EXEC_def SYSCALL_MMAP_def SYSCALL_WAITPID_def SYSCALL_SPAWN_def SYSCALL_TASK_INFO_def

definition syscall_match ::
    "'s kernel_env \<Rightarrow> usize \<Rightarrow> usize \<Rightarrow> usize list \<Rightarrow> 's kernel \<Rightarrow> 's syscall_result" where
  "syscall_match e time syscall_id args k =
     (if syscall_id = SYSCALL_OPEN then sys_open e (args ! 1) (ucast (args ! 2)) k
      else if syscall_id = SYSCALL_CLOSE then sys_close (args ! 0) k
      else if syscall_id = SYSCALL_LINKAT then sys_linkat e (args ! 1) (args ! 3) k
      else if syscall_id = SYSCALL_UNLINKAT then sys_unlinkat e (args ! 1) k
      else if syscall_id = SYSCALL_READ then sys_read e (args ! 0) (args ! 1) (args ! 2) k
      else if syscall_id = SYSCALL_WRITE then sys_write e (args ! 0) (args ! 1) (args ! 2) k
      else if syscall_id = SYSCALL_FSTAT then sys_fstat e (args ! 0) (args ! 1) k
      else if syscall_id = SYSCALL_EXIT then sys_exit e time (ucast (args ! 0)) k
      else if syscall_id = SYSCALL_YIELD then sys_yield k
      else if syscall_id = SYSCALL_GETPID then sys_getpid k
      else if syscall_id = SYSCALL_FORK then sys_fork e time k
      else if syscall_id = SYSCALL_EXEC then sys_exec e (args ! 0) k
      else if syscall_id = SYSCALL_WAITPID then sys_waitpid (sint (args ! 0)) (args ! 1) k
      else if syscall_id = SYSCALL_GET_TIME then sys_get_time time (args ! 0) (args ! 1) k
      else if syscall_id = SYSCALL_TASK_INFO then sys_task_info e time (args ! 0) k
      else if syscall_id = SYSCALL_MMAP then sys_mmap (args ! 0) (args ! 1) (args ! 2) k
      else if syscall_id = SYSCALL_MUNMAP then sys_munmap (args ! 0) (args ! 1) k
      else if syscall_id = SYSCALL_SBRK then sys_sbrk (ucast (args ! 0)) k
      else if syscall_id = SYSCALL_SPAWN then sys_spawn e time (args ! 0) k
      else if syscall_id = SYSCALL_SET_PRIORITY then sys_set_priority (sint (args ! 0)) k
      else None)"

definition syscall ::
    "'s kernel_env \<Rightarrow> usize \<Rightarrow> usize \<Rightarrow> usize list \<Rightarrow> 's kernel \<Rightarrow> 's syscall_result" where
  "syscall e time syscall_id args k = do {
     (r, k) \<leftarrow> update_taskinfo syscall_id k;
     syscall_match e time syscall_id args k
   }"

section \<open>Traps\<close>

datatype trap_cause =
  UserEnvCall | StoreFault | StorePageFault | InstructionFault | InstructionPageFault | LoadFault
| LoadPageFault | IllegalInstruction | SupervisorTimer | OtherTrap

definition handle_syscall :: "'s kernel_env \<Rightarrow> usize \<Rightarrow> 's kernel \<Rightarrow> 's kernel option" where
  "handle_syscall e time k = do {
     cx \<leftarrow> current_trap_cx k;
     k \<leftarrow> set_trap_cx (cx\<lparr>cx_sepc := cx_sepc cx + 4\<rparr>) k;
     (r, k) \<leftarrow> syscall e time (cx_x cx ! 17) [cx_x cx ! 10, cx_x cx ! 11, cx_x cx ! 12, cx_x cx ! 13] k;
     (case r of Ret n \<Rightarrow> store_result n k | Switched \<Rightarrow> Some k)
   }"

definition trap_handler :: "'s kernel_env \<Rightarrow> usize \<Rightarrow> trap_cause \<Rightarrow> 's kernel \<Rightarrow> 's kernel option" where
  "trap_handler e time cause k =
     (case cause of
        UserEnvCall \<Rightarrow> handle_syscall e time k
      | IllegalInstruction \<Rightarrow> exit_current_and_run_next e time (-3) k
      | SupervisorTimer \<Rightarrow> suspend_current_and_run_next TrapReturn k
      | OtherTrap \<Rightarrow> None
      | _ \<Rightarrow> exit_current_and_run_next e time (-2) k)"

text \<open>The registers with which the trampoline is entered: the context and the user's page table.\<close>

definition trap_return :: "usize \<Rightarrow> usize \<Rightarrow> 's kernel \<Rightarrow> (usize \<times> usize \<times> usize) option" where
  "trap_return restore alltraps k = do {
     user_satp \<leftarrow> current_user_token k;
     Some (restore - alltraps + TRAMPOLINE, TRAP_CONTEXT_BASE, user_satp)
   }"

end
