(* ===== verification/KernelBase.thy ===== *)
theory KernelBase
  imports UserSpec Syscall
begin

text \<open>
  Facts on the state of the kernel that the theorems on system calls share, and a small
  running system: one process with two pages of memory and one open file.
\<close>

section \<open>Tasks\<close>

lemma get_put_tcb:
  "t < length (tcbs k) \<Longrightarrow> get_tcb (put_tcb t tcb k) t = Some tcb"
  "t \<noteq> u \<Longrightarrow> get_tcb (put_tcb t tcb k) u = get_tcb k u"
  by (simp_all add: get_tcb_def put_tcb_def)

lemma get_tcb_length: "get_tcb k t = Some tcb \<Longrightarrow> t < length (tcbs k)"
  by (simp add: get_tcb_def split: if_splits)

lemma current_tcbD:
  assumes "current_tcb k = Some (t, tcb)"
  shows "current_task k = Some t" and "get_tcb k t = Some tcb"
  using assms by (auto simp: current_tcb_def split: bind_splits)

lemma current_user_token_eq:
  "current_tcb k = Some (t, tcb) \<Longrightarrow> current_user_token k = Some (MemorySet_token (memory_set tcb))"
  by (simp add: current_user_token_def tcb_user_token_def)

section \<open>A running system\<close>

definition example_tcb :: "PhysPageNum \<Rightarrow> MemorySet \<Rightarrow> TaskControlBlock" where
  "example_tcb p ms =
     \<lparr>tcb_pid = PidHandle 1, kernel_stack = KernelStack 1, trap_cx_ppn = p, base_size = 0,
      task_cx = TaskContext_zero_init, task_status = Running, memory_set = ms, parent = Some 0, children = [],
      exit_code = 0, fd_table = [Some Stdin, Some Stdout, Some Stdout, Some (OSFile 0)],
      heap_bottom = 0, program_brk = 0, task_info = TaskInfo_new 0, cur_stride = 0, pro_lev = 16,
      tcb_kont = TrapReturn\<rparr>"

definition example_kernel :: "kmem \<Rightarrow> PhysPageNum \<Rightarrow> MemorySet \<Rightarrow> OSInode \<Rightarrow> 's \<Rightarrow> 's kernel" where
  "example_kernel m p ms f s =
     \<lparr>km = m, kernel_space = ms, pid_allocator = \<lparr>ra_current = 2, ra_recycled = []\<rparr>,
      kstack_allocator = \<lparr>ra_current = 2, ra_recycled = []\<rparr>,
      tcbs = [Some ((example_tcb p ms)\<lparr>tcb_pid := PidHandle 0, task_status := Ready, parent := None, children := [1]\<rparr>),
        Some (example_tcb p ms)],
      task_manager = \<lparr>ready_queue = [0]\<rparr>, processor = \<lparr>current = Some 1, idle_task_cx = TaskContext_zero_init\<rparr>,
      initproc = Some 0, open_files = [f], fs = s, console_in = [], console_out = []\<rparr>"

definition example_env :: "'s block_ops \<Rightarrow> EasyFileSystem \<Rightarrow> 's kernel_env" where
  "example_env B E =
     \<lparr>blk = B, efs_of = E, parse_elf = (\<lambda>_. None),
      syms = \<lparr>stext = 0, etext = 0, srodata = 0, erodata = 0, sdata = 0, edata = 0, sbss_with_stack = 0, ebss = 0,
              ekernel = 0, strampoline = 0\<rparr>,
      trap_return_addr = 0, trap_handler_addr = 0, user_sstatus = 0, TaskInfo_bytes = (\<lambda>_. [])\<rparr>"

lemma example_current [simp]:
  "current_tcb (example_kernel m p ms f s) = Some (1, example_tcb p ms)"
  by (simp add: current_tcb_def current_task_def get_tcb_def example_kernel_def)

lemma example_fields [simp]:
  "km (example_kernel m p ms f s) = m" "fs (example_kernel m p ms f s) = s" "open_files (example_kernel m p ms f s) = [f]"
  "memory_set (example_tcb p ms) = ms" "trap_cx_ppn (example_tcb p ms) = p"
  "fd_table (example_tcb p ms) = [Some Stdin, Some Stdout, Some Stdout, Some (OSFile 0)]"
  "blk (example_env B E) = B" "efs_of (example_env B E) = E"
  by (simp_all add: example_kernel_def example_tcb_def example_env_def)

end
