(* ===== verification/SchedInv.thy ===== *)
theory SchedInv
  imports KernelBase
begin

text \<open>
  The scheduler as a state machine. \<open>sched_inv\<close> says that the ready queue holds exactly the
  tasks whose status is \<open>Ready\<close>, each once, that the current task is exactly the one whose
  status is \<open>Running\<close>, and that the initial process exists. Every system call, every trap
  and every iteration of the scheduling loop keeps it; most of them do not touch the
  scheduler at all (\<open>same_sched\<close>).
\<close>

section \<open>The state of the scheduler\<close>

definition status :: "'s kernel \<Rightarrow> nat \<Rightarrow> TaskStatus option" where
  "status k t = map_option task_status (get_tcb k t)"

definition same_sched :: "'s kernel \<Rightarrow> 's kernel \<Rightarrow> bool" where
  "same_sched k k' \<longleftrightarrow> status k' = status k \<and> task_manager k' = task_manager k \<and>
     current_task k' = current_task k \<and> initproc k' = initproc k"

definition sched_inv :: "'s kernel \<Rightarrow> bool" where
  "sched_inv k \<longleftrightarrow> distinct (ready_queue (task_manager k)) \<and>
     set (ready_queue (task_manager k)) = {t. status k t = Some Ready} \<and>
     {t. status k t = Some Running} = set_option (current_task k) \<and>
     (\<exists>i. initproc k = Some i \<and> status k i \<noteq> None)"

named_theorems sched "operations that leave the scheduler alone"

lemma same_sched_refl [simp, intro]: "same_sched k k"
  by (simp add: same_sched_def)

lemma same_sched_trans [trans]: "same_sched k k1 \<Longrightarrow> same_sched k1 k2 \<Longrightarrow> same_sched k k2"
  by (simp add: same_sched_def)

lemma same_sched_inv: "same_sched k k' \<Longrightarrow> sched_inv k' \<longleftrightarrow> sched_inv k"
  by (simp add: same_sched_def sched_inv_def)

lemma get_tcb_cong: "tcbs k' = tcbs k \<Longrightarrow> get_tcb k' t = get_tcb k t"
  by (simp add: get_tcb_def)

text \<open>Everything but the tasks, the queue, the processor and the initial process.\<close>

lemma same_sched_other [sched]:
  assumes "tcbs k' = tcbs k" and "task_manager k' = task_manager k" and "processor k' = processor k"
    and "initproc k' = initproc k"
  shows "same_sched k k'"
  using assms by (simp add: same_sched_def status_def fun_eq_iff get_tcb_def current_task_def)

lemma get_tcb_upd [simp]:
  "get_tcb (k\<lparr>fs := s\<rparr>) = get_tcb k" "get_tcb (k\<lparr>km := m\<rparr>) = get_tcb k" "get_tcb (k\<lparr>open_files := fl\<rparr>) = get_tcb k"
  "get_tcb (k\<lparr>console_out := c\<rparr>) = get_tcb k" "get_tcb (k\<lparr>console_in := c'\<rparr>) = get_tcb k"
  "get_tcb (k\<lparr>pid_allocator := a\<rparr>) = get_tcb k" "get_tcb (k\<lparr>kstack_allocator := a\<rparr>) = get_tcb k"
  "get_tcb (k\<lparr>kernel_space := ms\<rparr>) = get_tcb k" "get_tcb (k\<lparr>task_manager := q\<rparr>) = get_tcb k"
  "get_tcb (k\<lparr>processor := p\<rparr>) = get_tcb k" "get_tcb (k\<lparr>initproc := i\<rparr>) = get_tcb k"
  by (simp_all add: get_tcb_def [abs_def] cong: if_cong)

lemma same_sched_upd [simp]:
  "same_sched k0 (k\<lparr>fs := s\<rparr>) \<longleftrightarrow> same_sched k0 k" "same_sched k0 (k\<lparr>km := m\<rparr>) \<longleftrightarrow> same_sched k0 k"
  "same_sched k0 (k\<lparr>open_files := fl\<rparr>) \<longleftrightarrow> same_sched k0 k" "same_sched k0 (k\<lparr>console_out := c\<rparr>) \<longleftrightarrow> same_sched k0 k"
  "same_sched k0 (k\<lparr>console_in := c'\<rparr>) \<longleftrightarrow> same_sched k0 k" "same_sched k0 (k\<lparr>pid_allocator := a\<rparr>) \<longleftrightarrow> same_sched k0 k"
  "same_sched k0 (k\<lparr>kstack_allocator := a\<rparr>) \<longleftrightarrow> same_sched k0 k" "same_sched k0 (k\<lparr>kernel_space := ms\<rparr>) \<longleftrightarrow> same_sched k0 k"
  by (simp_all add: same_sched_def status_def [abs_def] current_task_def)

lemma set_phys_fields [simp]:
  "tcbs (set_phys m k) = tcbs k" "task_manager (set_phys m k) = task_manager k"
  "processor (set_phys m k) = processor k" "initproc (set_phys m k) = initproc k"
  "get_tcb (set_phys m k) = get_tcb k" "same_sched k0 (set_phys m k) \<longleftrightarrow> same_sched k0 k"
  by (simp_all add: set_phys_def)

lemma status_put:
  "get_tcb k t = Some tcb0 \<Longrightarrow> status (put_tcb t tcb k) = (status k)(t \<mapsto> task_status tcb)"
  by (auto simp: status_def fun_eq_iff get_tcb_def put_tcb_def split: if_splits)

lemma put_tcb_fields [simp]:
  "task_manager (put_tcb t tcb k) = task_manager k" "current_task (put_tcb t tcb k) = current_task k"
  "initproc (put_tcb t tcb k) = initproc k" "processor (put_tcb t tcb k) = processor k"
  "length (tcbs (put_tcb t tcb k)) = length (tcbs k)"
  by (simp_all add: put_tcb_def current_task_def)

lemma same_sched_put:
  assumes "get_tcb k t = Some tcb0" and "task_status tcb = task_status tcb0"
  shows "same_sched k (put_tcb t tcb k)"
  using assms by (auto simp: same_sched_def status_put fun_eq_iff status_def)

lemma take_set_current:
  "current_task k = Some t \<Longrightarrow> set_current t (snd (take_current_task k)) = k"
  by (simp add: take_current_task_def set_current_def current_task_def)

section \<open>Operations that leave the scheduler alone\<close>

lemma status_set_current [simp]: "status (set_current t k) = status k"
  by (simp add: set_current_def status_def fun_eq_iff get_tcb_def)

lemma set_current_fields [simp]:
  "task_manager (set_current t k) = task_manager k" "initproc (set_current t k) = initproc k"
  "current_task (set_current t k) = Some t" "tcbs (set_current t k) = tcbs k" "km (set_current t k) = km k"
  by (simp_all add: set_current_def current_task_def)

lemma same_sched_current:
  assumes "current_task k = Some t" and "get_tcb k t = Some tcb0" and "task_status tcb = task_status tcb0"
    and "tcbs k1 = tcbs k" and "task_manager k1 = task_manager k" and "initproc k1 = initproc k"
  shows "same_sched k (set_current t (put_tcb t tcb k1))"
proof -
  have g: "get_tcb k1 = get_tcb k" using get_tcb_cong [OF assms(4)] by blast
  have "status (put_tcb t tcb k1) = (status k)(t \<mapsto> task_status tcb0)"
    using status_put [of k1 t tcb0 tcb] assms(2,3) g by (simp add: status_def [abs_def])
  also have "\<dots> = status k" using assms(2) by (intro fun_upd_idem) (simp add: status_def)
  finally show ?thesis using assms by (simp add: same_sched_def)
qed

lemma take_current_task_fields [simp]:
  "tcbs (snd (take_current_task k)) = tcbs k" "task_manager (snd (take_current_task k)) = task_manager k"
  "initproc (snd (take_current_task k)) = initproc k" "km (snd (take_current_task k)) = km k"
  "fst (take_current_task k) = current_task k"
  by (simp_all add: take_current_task_def current_task_def)

lemma set_trap_cx_sched: "set_trap_cx cx k = Some k' \<Longrightarrow> same_sched k k'"
  by (auto simp: set_trap_cx_def split: bind_splits)

lemma store_result_sched: "store_result r k = Some k' \<Longrightarrow> same_sched k k'"
  by (auto simp: store_result_def split: bind_splits intro: set_trap_cx_sched)

lemma get_tcb_taken: "get_tcb (snd (take_current_task k)) t = get_tcb k t"
  by (rule get_tcb_cong) simp

lemma take_current_task_eq: "take_current_task k = (current_task k, snd (take_current_task k))"
  by (simp add: take_current_task_def current_task_def)

lemma update_taskinfo_sched:
  assumes "update_taskinfo i k = Some (r, k')"
  shows "same_sched k k'"
proof -
  obtain t tcb tcb' where t: "current_task k = Some t" "get_tcb k t = Some tcb" "tcb_update_taskinfo i tcb = Some (r, tcb')"
      "k' = set_current t (put_tcb t tcb' (snd (take_current_task k)))"
    using assms by (subst (asm) update_taskinfo_def, subst (asm) take_current_task_eq)
      (auto simp: get_tcb_taken split: bind_splits)
  have "task_status tcb' = task_status tcb" using t(3) by (auto simp: tcb_update_taskinfo_def split: bind_splits)
  then show ?thesis unfolding t(4) by (intro same_sched_current [OF t(1,2)]) simp_all
qed

lemma add_maparea_sched:
  assumes "add_maparea a b p k = Some k'"
  shows "same_sched k k'"
  using assms by (subst (asm) add_maparea_def, subst (asm) take_current_task_eq)
    (auto simp: get_tcb_taken split: bind_splits intro!: same_sched_current)

lemma remove_maparea_sched:
  assumes "remove_maparea a b k = Some (r, k')"
  shows "same_sched k k'"
  using assms by (subst (asm) remove_maparea_def, subst (asm) take_current_task_eq)
    (auto simp: get_tcb_taken split: bind_splits intro!: same_sched_current)

lemma check_maparea_eq: "check_maparea a b k = Some (c, k') \<Longrightarrow> k' = k"
  by (subst (asm) check_maparea_def, subst (asm) take_current_task_eq) (auto simp: take_set_current split: bind_splits)

lemma get_taskinfo_eq: "get_taskinfo k = Some (i, k') \<Longrightarrow> k' = k"
  by (subst (asm) get_taskinfo_def, subst (asm) take_current_task_eq) (auto simp: take_set_current split: bind_splits)

lemma sys_mmap_sched: "sys_mmap a len p k = Some (r, k') \<Longrightarrow> same_sched k k'"
  by (auto simp: sys_mmap_def Let_def split: if_splits bind_splits dest!: check_maparea_eq intro: add_maparea_sched)

lemma sys_munmap_sched: "sys_munmap a len k = Some (r, k') \<Longrightarrow> same_sched k k'"
  by (auto simp: sys_munmap_def Let_def split: if_splits bind_splits intro: remove_maparea_sched)

lemma sys_set_priority_sched: "sys_set_priority p k = Some (r, k') \<Longrightarrow> same_sched k k'"
  by (subst (asm) sys_set_priority_def, subst (asm) take_current_task_eq)
    (auto simp: get_tcb_taken split: if_splits bind_splits intro!: same_sched_current)

lemma change_program_brk_status: "change_program_brk sz tcb m = Some (r, tcb', m') \<Longrightarrow> task_status tcb' = task_status tcb"
  by (auto simp: change_program_brk_def Let_def split: if_splits bind_splits)

lemma same_sched_put_from:
  assumes "get_tcb k1 t = Some tcb0" and "task_status tcb = task_status tcb0" and "same_sched k k1"
  shows "same_sched k (put_tcb t tcb k1)"
  using same_sched_trans [OF assms(3) same_sched_put [OF assms(1,2)]] .

lemma sys_sbrk_sched: "sys_sbrk sz k = Some (r, k') \<Longrightarrow> same_sched k k'"
  by (auto simp: sys_sbrk_def split: bind_splits dest!: current_tcbD change_program_brk_status intro!: same_sched_put_from)

lemma sys_close_sched: "sys_close fd k = Some (r, k') \<Longrightarrow> same_sched k k'"
  by (auto simp: sys_close_def split: if_splits bind_splits dest!: current_tcbD intro!: same_sched_put)

lemma sys_getpid_sched: "sys_getpid k = Some (r, k') \<Longrightarrow> same_sched k k'"
  by (auto simp: sys_getpid_def split: bind_splits)

lemma sys_get_time_sched: "sys_get_time time ts tz k = Some (r, k') \<Longrightarrow> same_sched k k'"
  by (auto simp: sys_get_time_def Let_def split: bind_splits)

lemma sys_task_info_sched: "sys_task_info e time ti k = Some (r, k') \<Longrightarrow> same_sched k k'"
  by (auto simp: sys_task_info_def Let_def split: bind_splits dest!: get_taskinfo_eq)

lemma dyn_write_sched: "dyn_write e f buf k = Some (r, k') \<Longrightarrow> same_sched k k'"
  by (auto simp: dyn_write_def split: fd_file.splits bind_splits)

lemma sys_write_sched: "sys_write e fd buf len k = Some (r, k') \<Longrightarrow> same_sched k k'"
  by (auto simp: sys_write_def split: if_splits bind_splits option.splits intro: dyn_write_sched)

lemma alloc_fd_status: "alloc_fd tcb = (fd, tcb') \<Longrightarrow> task_status tcb' = task_status tcb"
  by (auto simp: alloc_fd_def split: option.splits)

lemma sys_open_sched: "sys_open e path flags k = Some (r, k') \<Longrightarrow> same_sched k k'"
  by (auto simp: sys_open_def Let_def split: bind_splits option.splits prod.splits dest!: alloc_fd_status
      intro!: same_sched_put_from)

lemma sys_fstat_sched: "sys_fstat e fd st k = Some (r, k') \<Longrightarrow> same_sched k k'"
  by (auto simp: sys_fstat_def Let_def split: if_splits bind_splits option.splits fd_file.splits prod.splits)

lemma sys_linkat_sched: "sys_linkat e a b k = Some (r, k') \<Longrightarrow> same_sched k k'"
  by (auto simp: sys_linkat_def Let_def split: if_splits bind_splits)

lemma sys_unlinkat_sched: "sys_unlinkat e a k = Some (r, k') \<Longrightarrow> same_sched k k'"
  by (auto simp: sys_unlinkat_def Let_def split: if_splits bind_splits option.splits)

lemma exec_sched: "TaskControlBlock_exec e t elf k = Some k' \<Longrightarrow> same_sched k k'"
  by (auto simp: TaskControlBlock_exec_def Let_def split: bind_splits prod.splits intro!: same_sched_put_from)

lemma sys_exec_sched:
  assumes "sys_exec e path k = Some (r, k')"
  shows "same_sched k k'"
proof -
  have "same_sched k k2" if "TaskControlBlock_exec e t elf (k\<lparr>fs := s\<rparr>) = Some k2" for t elf s k2
    using exec_sched [OF that] by (auto intro: same_sched_trans [of k "k\<lparr>fs := s\<rparr>"])
  then show ?thesis using assms by (auto simp: sys_exec_def Let_def split: bind_splits option.splits)
qed

section \<open>Suspending and resuming\<close>

lemma add_task_fields [simp]:
  "ready_queue (task_manager (add_task t k)) = ready_queue (task_manager k) @ [t]" "status (add_task t k) = status k"
  "current_task (add_task t k) = current_task k" "initproc (add_task t k) = initproc k" "get_tcb (add_task t k) = get_tcb k"
  by (simp_all add: add_task_def status_def [abs_def] current_task_def ready.content_add)

lemma suspend_inv:
  assumes "suspend_current_and_run_next c k = Some k'" and inv: "sched_inv k"
  shows "sched_inv k'"
proof -
  let ?k = "snd (take_current_task k)"
  obtain t tcb where t: "current_task k = Some t" "get_tcb k t = Some tcb"
      "k' = add_task t (put_tcb t (tcb\<lparr>task_status := Ready, tcb_kont := c\<rparr>) ?k)"
    using assms(1) by (subst (asm) suspend_current_and_run_next_def, subst (asm) take_current_task_eq)
      (auto simp: Let_def get_tcb_taken split: bind_splits)
  have s: "status ?k = status k" "current_task ?k = None"
    by (simp_all add: take_current_task_def status_def [abs_def] current_task_def)
  have st: "status (put_tcb t (tcb\<lparr>task_status := Ready, tcb_kont := c\<rparr>) ?k) = (status k)(t \<mapsto> Ready)"
    using status_put [of ?k t tcb] t(2) s(1) by (simp add: get_tcb_taken)
  have run: "{u. status k u = Some Running} = {t}" using inv t(1) by (simp add: sched_inv_def)
  then have t': "status k t = Some Running" by blast
  have i: "\<exists>i. initproc k = Some i \<and> status k i \<noteq> None" using inv by (simp add: sched_inv_def)
  have q: "distinct (ready_queue (task_manager k))" "set (ready_queue (task_manager k)) = {u. status k u = Some Ready}"
    using inv by (simp_all add: sched_inv_def)
  have "t \<notin> set (ready_queue (task_manager k))" using q(2) t' by simp
  then show ?thesis
    unfolding sched_inv_def t(3) using q run i s(2) st by (auto split: if_splits)
qed

lemma Stdin_read_inv:
  assumes "Stdin_read buf k = Some (r, k')" and "sched_inv k"
  shows "sched_inv k'"
proof -
  obtain c k1 where c: "console_getchar k = (c, k1)" by fastforce
  then have s: "same_sched k k1" by (auto simp: console_getchar_def split: list.splits)
  then have "sched_inv k1" using assms(2) by (simp add: same_sched_inv)
  moreover from this have "sched_inv (set_phys m k1)" for m using same_sched_inv [of k1 "set_phys m k1"] by simp
  moreover have "suspend_current_and_run_next (StdinRetry buf) k1 = Some k' \<or> (\<exists>m. k' = set_phys m k1)"
    using assms(1) c by (auto simp: Stdin_read_def split: if_splits bind_splits)
  ultimately show ?thesis by (auto intro: suspend_inv)
qed

lemma dyn_read_inv: "dyn_read e f buf k = Some (r, k') \<Longrightarrow> sched_inv k \<Longrightarrow> sched_inv k'"
proof -
  assume a: "dyn_read e f buf k = Some (r, k')" and i: "sched_inv k"
  show ?thesis
  proof (cases f)
    case Stdin
    then show ?thesis using a i by (auto simp: dyn_read_def split: bind_splits intro: Stdin_read_inv)
  next
    case (OSFile n)
    then have "same_sched k k'" using a by (auto simp: dyn_read_def split: bind_splits)
    then show ?thesis using i by (simp add: same_sched_inv)
  qed (use a in \<open>simp add: dyn_read_def\<close>)
qed

lemma sys_read_inv: "sys_read e fd buf len k = Some (r, k') \<Longrightarrow> sched_inv k \<Longrightarrow> sched_inv k'"
  by (auto simp: sys_read_def split: if_splits bind_splits option.splits intro: dyn_read_inv)

lemma resume_inv:
  assumes "resume k = Some k'" and "sched_inv k"
  shows "sched_inv k'"
proof -
  obtain t tcb where t: "current_tcb k = Some (t, tcb)" using assms(1) by (auto simp: resume_def split: bind_splits)
  let ?k = "put_tcb t (tcb\<lparr>tcb_kont := TrapReturn\<rparr>) k"
  have "same_sched k ?k" using current_tcbD(2) [OF t] by (rule same_sched_put) simp
  then have i: "sched_inv ?k" using assms(2) by (simp add: same_sched_inv)
  have st: "sched_inv k2" if "store_result n k1 = Some k2" "sched_inv k1" for n k1 k2
    using same_sched_inv [OF store_result_sched [OF that(1)]] that(2) by simp
  show ?thesis
    using assms(1) t i by (auto simp: resume_def Let_def split: kont.splits bind_splits option.splits
        intro: st dest!: Stdin_read_inv)
qed

lemma run_tasks_iter_inv:
  assumes run: "run_tasks_iter k = Some k'" and inv: "sched_inv k" and idle: "current_task k = None"
  shows "sched_inv k'"
proof (cases "ready_queue (task_manager k)")
  case Nil
  then show ?thesis using run inv by (simp add: run_tasks_iter_def fetch_task_def TaskManager_fetch_def)
next
  case (Cons t ts)
  let ?k = "k\<lparr>task_manager := (task_manager k)\<lparr>ready_queue := ts\<rparr>\<rparr>"
  obtain tcb where tcb: "get_tcb k t = Some tcb" "resume (set_current t (put_tcb t (tcb\<lparr>task_status := Running\<rparr>) ?k)) = Some k'"
    using run Cons by (auto simp: run_tasks_iter_def fetch_task_def TaskManager_fetch_def split: bind_splits)
  have st: "status ?k = status k" by (simp add: status_def [abs_def])
  have "status (put_tcb t (tcb\<lparr>task_status := Running\<rparr>) ?k) = (status k)(t \<mapsto> Running)"
    using status_put [of ?k t tcb] tcb(1) st by simp
  moreover have "distinct (t # ts)" "set (t # ts) = {u. status k u = Some Ready}" "{u. status k u = Some Running} = {}"
      "\<exists>i. initproc k = Some i \<and> status k i \<noteq> None"
    using inv idle Cons by (simp_all add: sched_inv_def)
  ultimately have "sched_inv (set_current t (put_tcb t (tcb\<lparr>task_status := Running\<rparr>) ?k))"
    by (auto simp: sched_inv_def split: if_splits)
  then show ?thesis by (rule resume_inv [OF tcb(2)])
qed

section \<open>New tasks\<close>

definition born :: "nat \<Rightarrow> 's kernel \<Rightarrow> 's kernel \<Rightarrow> bool" where
  "born c k k' \<longleftrightarrow> status k c = None \<and> status k' = (status k)(c \<mapsto> Ready) \<and> task_manager k' = task_manager k \<and>
     current_task k' = current_task k \<and> initproc k' = initproc k"

lemma born_inv:
  assumes "born c k k'" and "sched_inv k"
  shows "sched_inv (add_task c k')"
proof -
  have "current_task k \<noteq> Some c"
  proof
    assume "current_task k = Some c"
    then have "c \<in> {t. status k t = Some Running}" using assms(2) by (simp add: sched_inv_def)
    then show False using assms(1) by (simp add: born_def)
  qed
  then show ?thesis using assms by (auto simp: born_def sched_inv_def split: if_splits)
qed

lemma born_same: "same_sched k0 k \<Longrightarrow> born c k k' \<Longrightarrow> same_sched k' k1 \<Longrightarrow> born c k0 k1"
  by (simp add: born_def same_sched_def)

lemma Arc_new_born:
  assumes "Arc_new tcb k = (c, k')" and "task_status tcb = Ready"
  shows "born c k k'" and "c = length (tcbs k)" and "get_tcb k' c = Some tcb"
    and "t < length (tcbs k) \<Longrightarrow> get_tcb k' t = get_tcb k t"
  using assms
  by (auto simp: Arc_new_def born_def status_def fun_eq_iff get_tcb_def current_task_def nth_append)

lemma kstack_alloc_sched:
  assumes "kstack_alloc k = Some (ks, k')"
  shows "same_sched k k'" and "get_tcb k' = get_tcb k"
  using assms by (auto simp: kstack_alloc_def Let_def split: bind_splits prod.splits)

lemma new_tcb_status [simp]: "task_status (new_tcb e time h ks p b ms par fds hb brk) = Ready"
  by (simp add: new_tcb_def)

text \<open>The end of \<^verbatim>\<open>fork\<close> and \<^verbatim>\<open>spawn\<close>: the new task becomes a child of the running one.\<close>

lemma adopt_born:
  assumes "Arc_new tcb k1 = (c, k2)" and "task_status tcb = Ready" and "same_sched k k1"
    and "get_tcb k1 t = Some par0" and "task_status par = task_status par0"
  shows "born c k (put_tcb t par k2)"
proof -
  have "t < length (tcbs k1)" using assms(4) by (rule get_tcb_length)
  then have "get_tcb k2 t = Some par0" using Arc_new_born(4) [OF assms(1,2)] assms(4) by simp
  then have "same_sched k2 (put_tcb t par k2)" by (rule same_sched_put) fact
  then show ?thesis using born_same [OF assms(3) Arc_new_born(1) [OF assms(1,2)]] by blast
qed

lemma born_set_phys [simp]: "born c k (set_phys m k') \<longleftrightarrow> born c k k'"
  by (simp add: born_def status_def [abs_def] current_task_def)

lemma fork_born:
  assumes "TaskControlBlock_fork e time t k = Some (c, k')"
  shows "born c k k'"
proof -
  obtain par ms m p h a ks k1 k2 where f: "get_tcb k t = Some par"
      "kstack_alloc (k\<lparr>km := m, pid_allocator := a\<rparr>) = Some (ks, k1)"
      "Arc_new (new_tcb e time h ks p (base_size par) ms (Some t) (copy_fd_table (fd_table par))
        (heap_bottom par) (program_brk par)) k1 = (c, k2)"
      "k' = set_kernel_sp p (KernelStack_get_top ks) (put_tcb t (par\<lparr>children := children par @ [c]\<rparr>) k2)"
    using assms unfolding TaskControlBlock_fork_def by (auto simp: Let_def split: bind_splits prod.splits)
  have "same_sched k k1" "get_tcb k1 t = Some par" using kstack_alloc_sched [OF f(2)] f(1)
    by (auto intro: same_sched_trans [rotated])
  then show ?thesis unfolding f(4) set_kernel_sp_def using adopt_born [OF f(3)] by simp
qed

lemma spawn_born:
  assumes "TaskControlBlock_spawn e time t elf k = Some (c, k')"
  shows "born c k k'"
proof -
  obtain par ms sp m m' p h a ks k1 k2 where f: "get_tcb k t = Some par"
      "kstack_alloc (k\<lparr>km := m, pid_allocator := a\<rparr>) = Some (ks, k1)"
      "Arc_new (new_tcb e time h ks p sp ms (Some t) (copy_fd_table (fd_table par))
        (heap_bottom par) (program_brk par)) k1 = (c, k2)"
      "k' = set_kernel_sp p (KernelStack_get_top ks) (put_tcb t (par\<lparr>children := children par @ [c]\<rparr>) (set_phys m' k2))"
    using assms unfolding TaskControlBlock_spawn_def by (auto simp: Let_def split: bind_splits prod.splits)
  have k1: "same_sched k k1" "get_tcb k1 t = Some par" using kstack_alloc_sched [OF f(2)] f(1)
    by (auto intro: same_sched_trans [rotated])
  have "put_tcb t tcb (set_phys m' k2) = set_phys m' (put_tcb t tcb k2)" for tcb
    by (simp add: put_tcb_def set_phys_def)
  then show ?thesis unfolding f(4) set_kernel_sp_def using adopt_born [OF f(3) _ k1] by simp
qed

lemma clear_a0_sched: "clear_a0 c k = Some k' \<Longrightarrow> same_sched k k'"
  by (auto simp: clear_a0_def Let_def split: bind_splits)

lemma sys_fork_inv:
  assumes "sys_fork e time k = Some (r, k')" and "sched_inv k"
  shows "sched_inv k'"
proof -
  obtain t c k1 k2 where f: "TaskControlBlock_fork e time t k = Some (c, k1)" "clear_a0 c k1 = Some k2" "k' = add_task c k2"
    using assms(1) by (auto simp: sys_fork_def split: bind_splits)
  have "born c k k2" using born_same [OF same_sched_refl fork_born [OF f(1)] clear_a0_sched [OF f(2)]] .
  then show ?thesis unfolding f(3) using assms(2) by (rule born_inv)
qed

lemma sys_spawn_inv:
  assumes "sys_spawn e time path k = Some (r, k')" and "sched_inv k"
  shows "sched_inv k'"
proof -
  have "sched_inv (add_task c k2)"
    if f: "TaskControlBlock_spawn e time t elf (k\<lparr>fs := s\<rparr>) = Some (c, k1)" "clear_a0 c k1 = Some k2" for t elf s c k1 k2
  proof -
    have "born c (k\<lparr>fs := s\<rparr>) k2" using born_same [OF same_sched_refl spawn_born [OF f(1)] clear_a0_sched [OF f(2)]] .
    moreover have "sched_inv (k\<lparr>fs := s\<rparr>)" using same_sched_inv [of k "k\<lparr>fs := s\<rparr>"] assms(2) by simp
    ultimately show ?thesis by (rule born_inv)
  qed
  moreover have "sched_inv (k\<lparr>fs := s\<rparr>)" for s using same_sched_inv [of k "k\<lparr>fs := s\<rparr>"] assms(2) by simp
  ultimately show ?thesis using assms(1) by (auto simp: sys_spawn_def Let_def split: bind_splits option.splits)
qed

section \<open>Tasks that end\<close>

lemma KernelStack_drop_sched:
  assumes "KernelStack_drop ks k = Some k'"
  shows "same_sched k k'" and "get_tcb k' = get_tcb k" and "tcbs k' = tcbs k"
  using assms by (auto simp: KernelStack_drop_def Let_def split: bind_splits prod.splits)

lemma strong_count_0D:
  assumes "strong_count k t = 0"
  shows "t \<notin> set (ready_queue (task_manager k))" and "current_task k \<noteq> Some t" and "initproc k \<noteq> Some t"
  using assms by (auto simp: strong_count_def current_task_def count_list_0_iff split: if_splits)

text \<open>A task is freed only when nothing refers to it, so it is neither ready nor running.\<close>

lemma free_task_inv:
  assumes f: "free_task t k = Some (cs, k')" and c: "strong_count k t = 0" and inv: "sched_inv k"
  shows "sched_inv k'"
proof -
  obtain tcb :: TaskControlBlock and a k1 m where k1: "KernelStack_drop (kernel_stack tcb) (k\<lparr>pid_allocator := a\<rparr>) = Some k1"
      "k' = k1\<lparr>km := m, tcbs := (tcbs k1)[t := None]\<rparr>"
    using f by (simp add: free_task_def split: bind_splits prod.splits) blast
  have same: "same_sched k k1" using KernelStack_drop_sched(1) [OF k1(1)] by (auto intro: same_sched_trans [rotated])
  have "status k' = (status k1)(t := None)"
    unfolding k1(2) by (auto simp: status_def fun_eq_iff get_tcb_def nth_list_update)
  moreover have "task_manager k' = task_manager k1" "current_task k' = current_task k1" "initproc k' = initproc k1"
    unfolding k1(2) by (simp_all add: current_task_def)
  ultimately have s: "status k' = (status k)(t := None)" "task_manager k' = task_manager k"
      "current_task k' = current_task k" "initproc k' = initproc k"
    using same by (simp_all add: same_sched_def)
  note n = strong_count_0D [OF c]
  have q: "set (ready_queue (task_manager k)) = {u. status k u = Some Ready}"
    "{u. status k u = Some Running} = set_option (current_task k)"
    using inv by (simp_all add: sched_inv_def)
  have "t \<notin> {u. status k u = Some Ready}" "t \<notin> {u. status k u = Some Running}"
    using n(1,2) unfolding q(1) [symmetric] q(2) by simp_all
  then have "{u. status k' u = Some Ready} = {u. status k u = Some Ready}"
    "{u. status k' u = Some Running} = {u. status k u = Some Running}" unfolding s(1) by auto
  then show ?thesis using inv n(3) s by (auto simp: sched_inv_def)
qed

lemma drop_arcs_inv:
  assumes "drop_arcs ts k = Some k'" and "sched_inv k"
  shows "sched_inv k'"
proof -
  have "sched_inv k \<longrightarrow> sched_inv k'"
  proof (rule drop_arcs.raw_induct [where P = "\<lambda>ts k k'. sched_inv k \<longrightarrow> sched_inv k'", OF _ assms(1)], rule impI)
    fix f :: "nat list \<Rightarrow> 'a kernel \<Rightarrow> 'a kernel option" and ts k k'
    assume IH: "\<And>ts k k'. f ts k = Some k' \<Longrightarrow> sched_inv k \<longrightarrow> sched_inv k'" and inv: "sched_inv k"
      and b: "(case ts of [] \<Rightarrow> Some k | t # ts \<Rightarrow> if t \<in> set ts \<or> strong_count k t > 0 then f ts k
        else free_task t k \<bind> (\<lambda>(cs, k). f (cs @ ts) k)) = Some k'"
    show "sched_inv k'"
      using b inv by (auto split: list.splits if_splits bind_splits dest: IH free_task_inv)
  qed
  then show ?thesis using assms(2) ..
qed

lemma sys_waitpid_inv:
  assumes w: "sys_waitpid p a k = Some (r, k')" and inv: "sched_inv k"
  shows "sched_inv k'"
proof -
  have "sched_inv k2" if "drop_arcs [c] (set_phys m (put_tcb t (tcb\<lparr>children := cs\<rparr>) k)) = Some k2"
    "get_tcb k t = Some tcb" for m t tcb cs c k2
  proof -
    have "same_sched k (set_phys m (put_tcb t (tcb\<lparr>children := cs\<rparr>) k))" using that(2) by (simp add: same_sched_put)
    then have "sched_inv (set_phys m (put_tcb t (tcb\<lparr>children := cs\<rparr>) k))" using inv by (simp add: same_sched_inv)
    then show ?thesis by (rule drop_arcs_inv [OF that(1)])
  qed
  then show ?thesis
    using w inv by (auto simp: sys_waitpid_def Let_def split: if_splits bind_splits option.splits dest!: current_tcbD)
qed

lemma reparent_sched: "reparent i cs k = Some k' \<Longrightarrow> same_sched k k'"
proof (induction cs arbitrary: k)
  case (Cons c cs)
  then obtain child ini where r: "get_tcb k c = Some child" "get_tcb (put_tcb c (child\<lparr>parent := Some i\<rparr>) k) i = Some ini"
    "reparent i cs (put_tcb i (ini\<lparr>children := children ini @ [c]\<rparr>) (put_tcb c (child\<lparr>parent := Some i\<rparr>) k)) = Some k'"
    by (auto simp: Let_def split: bind_splits)
  have "same_sched k (put_tcb i (ini\<lparr>children := children ini @ [c]\<rparr>) (put_tcb c (child\<lparr>parent := Some i\<rparr>) k))"
    by (rule same_sched_put_from [OF r(2) _ same_sched_put [OF r(1)]]) simp_all
  then show ?case using Cons.IH [OF r(3)] by (rule same_sched_trans)
qed simp

lemma exit_inv:
  assumes ex: "exit_current_and_run_next e time code k = Some k'" and inv: "sched_inv k"
  shows "sched_inv k'"
proof -
  let ?k = "snd (take_current_task k)"
  obtain i where i: "initproc k = Some i" using inv by (auto simp: sched_inv_def)
  obtain t tcb where t: "current_task k = Some t" "get_tcb k t = Some tcb"
    using ex by (subst (asm) exit_current_and_run_next_def, subst (asm) take_current_task_eq)
      (auto simp: get_tcb_taken split: bind_splits)
  let ?k1 = "put_tcb t (tcb\<lparr>task_status := Zombie, exit_code := code\<rparr>) ?k"
  have init: "INITPROC e time ?k1 = Some (i, ?k1)" using i by (simp add: INITPROC_def)
  obtain k2 tcb2 k3 tcb3 ms m where r: "reparent i (children tcb) ?k1 = Some k2" "get_tcb k2 t = Some tcb2"
      "drop_arcs (children tcb2) (put_tcb t (tcb2\<lparr>children := []\<rparr>) k2) = Some k3" "get_tcb k3 t = Some tcb3"
      "drop_arcs [t] (put_tcb t (tcb3\<lparr>memory_set := ms, fd_table := []\<rparr>) (k3\<lparr>km := m\<rparr>)) = Some k'"
    using ex t init by (subst (asm) exit_current_and_run_next_def, subst (asm) take_current_task_eq)
      (auto simp: get_tcb_taken Let_def split: bind_splits if_splits)
  have st: "status ?k1 = (status k)(t \<mapsto> Zombie)"
    using status_put [of ?k t tcb] t(2) by (simp add: get_tcb_taken status_def [abs_def])
  have cur: "current_task ?k1 = None" by (simp add: take_current_task_def current_task_def)
  have run: "{u. status k u = Some Running} = {t}" using inv t(1) by (simp add: sched_inv_def)
  then have t': "status k t = Some Running" by blast
  have "{u. status ?k1 u = Some Ready} = {u. status k u = Some Ready}" "{u. status ?k1 u = Some Running} = {}"
    using run t' unfolding st by auto
  then have "sched_inv ?k1" using inv cur st by (auto simp: sched_inv_def)
  moreover have "same_sched ?k1 (put_tcb t (tcb2\<lparr>children := []\<rparr>) k2)"
    by (rule same_sched_put_from [OF r(2) _ reparent_sched [OF r(1)]]) simp
  ultimately have "sched_inv (put_tcb t (tcb2\<lparr>children := []\<rparr>) k2)" by (simp add: same_sched_inv)
  then have "sched_inv k3" by (rule drop_arcs_inv [OF r(3)])
  moreover have "same_sched k3 (put_tcb t (tcb3\<lparr>memory_set := ms, fd_table := []\<rparr>) (k3\<lparr>km := m\<rparr>))"
    using r(4) by (intro same_sched_put_from) simp_all
  ultimately have "sched_inv (put_tcb t (tcb3\<lparr>memory_set := ms, fd_table := []\<rparr>) (k3\<lparr>km := m\<rparr>))"
    by (simp add: same_sched_inv)
  then show ?thesis by (rule drop_arcs_inv [OF r(5)])
qed

section \<open>Traps\<close>

lemma inv_of_same: "same_sched k k' \<Longrightarrow> sched_inv k \<Longrightarrow> sched_inv k'"
  by (simp add: same_sched_inv)

lemmas same_sched_syscalls =
  sys_open_sched sys_close_sched sys_linkat_sched sys_unlinkat_sched sys_write_sched sys_fstat_sched
  sys_getpid_sched sys_exec_sched sys_get_time_sched sys_task_info_sched sys_mmap_sched sys_munmap_sched
  sys_sbrk_sched sys_set_priority_sched

lemma sys_yield_inv: "sys_yield k = Some (r, k') \<Longrightarrow> sched_inv k \<Longrightarrow> sched_inv k'"
  by (auto simp: sys_yield_def split: bind_splits intro: suspend_inv)

lemma sys_exit_inv: "sys_exit e time c k = Some (r, k') \<Longrightarrow> sched_inv k \<Longrightarrow> sched_inv k'"
  by (auto simp: sys_exit_def split: bind_splits intro: exit_inv)

lemmas syscall_invs =
  same_sched_syscalls [THEN inv_of_same] sys_read_inv sys_fork_inv sys_spawn_inv sys_waitpid_inv sys_yield_inv sys_exit_inv

lemma if_SomeE:
  assumes "(if c then a else b) = Some x"
  obtains "a = Some x" | "b = Some x"
  using assms by (auto split: if_splits)

lemma syscall_match_inv:
  assumes "syscall_match e time i args k = Some (r, k')" and "sched_inv k"
  shows "sched_inv k'"
  using assms(1) unfolding syscall_match_def
  by (elim if_SomeE) (erule syscall_invs, rule assms(2) | simp)+

lemma handle_syscall_inv:
  assumes "handle_syscall e time k = Some k'" and "sched_inv k"
  shows "sched_inv k'"
proof -
  obtain cx k1 r k2 k3 where h: "set_trap_cx (cx\<lparr>cx_sepc := cx_sepc cx + 4\<rparr>) k = Some k1"
      "update_taskinfo (cx_x cx ! 17) k1 = Some (r, k2)"
      "\<exists>out. syscall_match e time (cx_x cx ! 17) [cx_x cx ! 10, cx_x cx ! 11, cx_x cx ! 12, cx_x cx ! 13] k2 = Some (out, k3)"
      "(\<exists>n. store_result n k3 = Some k') \<or> k3 = k'"
    using assms(1) unfolding handle_syscall_def syscall_def
    by (auto split: bind_splits outcome.splits) blast
  have "sched_inv k1" using set_trap_cx_sched [OF h(1)] assms(2) by (rule inv_of_same)
  then have "sched_inv k2" by (rule inv_of_same [OF update_taskinfo_sched [OF h(2)]])
  then have "sched_inv k3" using h(3) syscall_match_inv by blast
  then show ?thesis using h(4) by (auto intro: inv_of_same store_result_sched)
qed

lemma trap_handler_inv: "trap_handler e time cause k = Some k' \<Longrightarrow> sched_inv k \<Longrightarrow> sched_inv k'"
  by (cases cause) (auto simp: trap_handler_def intro: handle_syscall_inv exit_inv suspend_inv)

section \<open>The kernel as a state machine\<close>

text \<open>
  A step is a trap of the running task, an iteration of the scheduling loop when no task
  runs, a computation of the running task in its memory, or a character typed on the console.
\<close>

inductive kstep :: "'s kernel_env \<Rightarrow> 's kernel \<Rightarrow> 's kernel \<Rightarrow> bool" for e :: "'s kernel_env" where
  trap: "current_task k \<noteq> None \<Longrightarrow> trap_handler e time cause k = Some k' \<Longrightarrow> kstep e k k'"
| idle: "current_task k = None \<Longrightarrow> run_tasks_iter k = Some k' \<Longrightarrow> kstep e k k'"
| user: "current_task k \<noteq> None \<Longrightarrow> kstep e k (set_phys m k)"
| console: "kstep e k (k\<lparr>console_in := console_in k @ [c]\<rparr>)"

inductive_cases kstepE: "kstep e k k'"

lemma kstep_inv: "kstep e k k' \<Longrightarrow> sched_inv k \<Longrightarrow> sched_inv k'"
proof (induction rule: kstep.induct)
  case (trap k time cause k')
  then show ?case by (blast intro: trap_handler_inv)
next
  case (idle k k')
  then show ?case by (blast intro: run_tasks_iter_inv)
next
  case (user k m)
  then show ?case using inv_of_same [of k "set_phys m k"] by simp
next
  case (console k c)
  then show ?case using inv_of_same [of k "k\<lparr>console_in := console_in k @ [c]\<rparr>"] by simp
qed

lemma ksteps_inv: "(kstep e)\<^sup>*\<^sup>* k k' \<Longrightarrow> sched_inv k \<Longrightarrow> sched_inv k'"
  by (induction rule: rtranclp_induct) (blast intro: kstep_inv)+

end
