(* ===== verification/MmapSpec.thy ===== *)
theory MmapSpec
  imports SchedInv
begin

text \<open>
  The system calls \<^verbatim>\<open>mmap\<close> and \<^verbatim>\<open>munmap\<close>: what they map, what they refuse, and the requests
  on which the kernel panics because \<^verbatim>\<open>check_conflict\<close> looks at the two ends of the request only.
\<close>

section \<open>Mapping mapped pages\<close>

lemma map_one_mapped:
  assumes "kmem_inv lo k" and "pt_inv lo k pt" and "3 \<le> frames_room k" and "vpn_ok v"
    and "pt_entries (phys k) pt v \<noteq> None" and "map_type a = Framed"
    and "bt_ok (data_frames a)" and "v \<notin> fst ` set (data_frames a)"
  shows "map_one v a pt k = None"
proof -
  have room: "0 < frames_room k" using assms(3) by simp
  from assms(1) room obtain p k1 where al: "frame_alloc_unwrap k = Some (FrameTracker p, k1)"
      "kmem_inv lo k1" "p \<notin> frames_live lo k" "ppn_ok p" "frames_live lo k1 = insert p (frames_live lo k)"
      "Suc (frames_room k1) = frames_room k" "get_bytes_array (phys k1) p = replicate 4096 0"
      "\<forall>q. ppn_ok q \<longrightarrow> q \<noteq> p \<longrightarrow> same_page (phys k) (phys k1) q"
    by (rule frame_alloc_returns)
  have ptl: "ppns (pt_frames pt) \<subseteq> frames_live lo k" using assms(2) by (simp add: pt_inv_def)
  have tabs: "same_page (phys k) (phys k1) q" if "q \<in> ppns (pt_frames pt)" for q
  proof -
    have "q \<in> frames_live lo k" using that ptl by blast
    then show ?thesis using al(3,8) live_ppn_ok [OF assms(1)] by metis
  qed
  have inv1: "pt_inv lo k1 pt" using ptl al(5) by (intro pt_inv_same_pages [OF assms(1,2) tabs]) auto
  have e1: "pt_entries (phys k1) pt v \<noteq> None"
    using pt_same_pages(2) [OF assms(1,2) tabs] assms(5) by simp
  have "PageTable_map v p (map_perm a) pt k1 = None"
    by (rule PageTable_map_twice [OF al(2) inv1 _ assms(4) e1]) (use assms(3) al(6) in simp)
  moreover obtain df where "bt_insert v (FrameTracker p) (data_frames a) = (None, df)"
    using bt_insert_new [OF assms(7,8), of "FrameTracker p"] by (cases "bt_insert v (FrameTracker p) (data_frames a)") auto
  ultimately show ?thesis using al(1) assms(6) by (simp add: map_one_def drop_opt_def)
qed

lemma map_each_mapped:
  assumes "kmem_inv lo k" and "pt_inv lo k pt" and "3 * length vs \<le> frames_room k" and "distinct vs"
    and "\<forall>v \<in> set vs. vpn_ok v \<and> v \<notin> fst ` set (data_frames a)" and "map_type a = Framed" and "bt_ok (data_frames a)"
    and "w \<in> set vs" and "pt_entries (phys k) pt w \<noteq> None"
  shows "map_each vs a pt k = None"
  using assms
proof (induction vs arbitrary: a pt k)
  case (Cons v vs)
  have v: "3 \<le> frames_room k" "vpn_ok v" "v \<notin> fst ` set (data_frames a)" using Cons.prems(3,5) by simp_all
  show ?case
  proof (cases "pt_entries (phys k) pt v = None")
    case False
    then show ?thesis using map_one_mapped [OF Cons.prems(1,2) v(1,2) _ Cons.prems(6,7) v(3)] by simp
  next
    case True
    from Cons.prems(1,2) v(1,2) True Cons.prems(6,7) v(3) obtain f nf1 pt1 k1 df1
      where m: "map_one v a pt k = Some (a\<lparr>data_frames := df1\<rparr>, pt1, k1)" "space_step lo pt k nf1 [f] pt1 k1"
        "bt_ok df1" "set df1 = insert (v, f) (set (data_frames a))" "length nf1 \<le> 2"
        "pt_entries (phys k1) pt1 = (pt_entries (phys k) pt)(v \<mapsto> area_entry a (frame_ppn f))"
      by (rule map_one_framed)
    note st = space_stepD [OF m(2)]
    have w: "w \<in> set vs" "pt_entries (phys k1) pt1 w \<noteq> None"
      using Cons.prems(8,9) True m(6) by auto
    have "map_each vs (a\<lparr>data_frames := df1\<rparr>) pt1 k1 = None"
      by (rule Cons.IH [OF st(3,4) _ _ _ _ _ w]) (use Cons.prems(3-6) st(8) m(3-5) in auto)
    then show ?thesis using m(1) by simp
  qed
qed simp

lemma insert_area_mapped:
  assumes k: "kmem_inv lo k" "ms_inv lo X k ms" and va: "va_ok s t"
    and w: "w \<in> {VirtAddr_floor s..<VirtAddr_ceil t}" "ms_entries (phys k) ms w \<noteq> None"
    and room: "3 * (unat (vpn (VirtAddr_ceil t)) - unat (vpn (VirtAddr_floor s))) \<le> frames_room k"
  shows "insert_framed_area s t perm ms k = None"
proof -
  from va obtain a where a: "MapArea_new s t Framed perm = Some a" "range_ok (vpn_range a)" "data_frames a = []"
      "map_type a = Framed" "map_perm a = perm" "get_start (vpn_range a) = VirtAddr_floor s"
      "get_end (vpn_range a) = VirtAddr_ceil t"
    by (rule MapArea_new_returns)
  from a(2) obtain vs where vs: "vpns (vpn_range a) = Some vs" "distinct vs"
      "set vs = {get_start (vpn_range a)..<get_end (vpn_range a)}"
      "length vs = unat (vpn (get_end (vpn_range a))) - unat (vpn (get_start (vpn_range a)))" "\<forall>v \<in> set vs. vpn_ok v"
    by (rule range_ok_vpns)
  have pt: "pt_inv lo k (page_table ms)" using k(2) by (simp add: ms_inv_def)
  have "map_each vs a (page_table ms) k = None"
    by (rule map_each_mapped [OF k(1) pt _ vs(2) _ a(4) _ _ w(2)])
      (use vs(3-5) a(3,6,7) w(1) room in \<open>simp_all add: bt_ok_def\<close>)
  then show ?thesis using a(1) vs(1) by (simp add: insert_framed_area_def MemorySet_push_def MapArea_map_def)
qed

text \<open>Each page takes at most a frame and two tables.\<close>

abbreviation area_size :: "MapArea \<Rightarrow> nat" where
  "area_size a \<equiv> unat (vpn (get_end (vpn_range a))) - unat (vpn (get_start (vpn_range a)))"

lemma push_room:
  assumes k: "kmem_inv lo k" "ms_inv lo X k ms" and a: "map_type a = Framed" "data_frames a = []"
    and r: "range_ok (vpn_range a)" and free: "area_pages a \<inter> dom (ms_entries (phys k) ms) = {}"
    and room: "3 * area_size a \<le> frames_room k" and run: "MemorySet_push a None ms k = Some (ms', k')"
  shows "frames_room k \<le> frames_room k' + 3 * area_size a"
proof -
  from r obtain vs where vs: "vpns (vpn_range a) = Some vs" "distinct vs"
      "set vs = {get_start (vpn_range a)..<get_end (vpn_range a)}" "length vs = area_size a" "\<forall>v \<in> set vs. vpn_ok v"
    by (rule range_ok_vpns)
  have pt: "pt_inv lo k (page_table ms)" using k(2) by (simp add: ms_inv_def)
  have un: "\<forall>v \<in> set vs. vpn_ok v \<and> ms_entries (phys k) ms v = None \<and> v \<notin> fst ` set (data_frames a)"
    using vs(3,5) a(2) free by (auto simp: area_pages_def disjoint_iff domIff)
  obtain fs nf df pt' k1 where m: "map_each vs a (page_table ms) k = Some (a\<lparr>data_frames := df\<rparr>, pt', k1)"
      "space_step lo (page_table ms) k nf fs pt' k1" "length fs = length vs" "length nf \<le> 2 * length vs"
    using map_each_framed [OF k(1) pt _ vs(2) un a(1)] vs(4) a(2) room by (auto simp: bt_ok_def)
  have "k' = k1" using run vs(1) m(1) by (simp add: MemorySet_push_def MapArea_map_def)
  then show ?thesis using space_stepD(8) [OF m(2)] m(3,4) vs(4) by simp
qed

lemma insert_area_room:
  assumes k: "kmem_inv lo k" "ms_inv lo X k ms" and va: "va_ok s t"
    and free: "{VirtAddr_floor s..<VirtAddr_ceil t} \<inter> dom (ms_entries (phys k) ms) = {}"
    and room: "3 * (unat (vpn (VirtAddr_ceil t)) - unat (vpn (VirtAddr_floor s))) \<le> frames_room k"
    and run: "insert_framed_area s t perm ms k = Some (ms', k')"
  shows "frames_room k \<le> frames_room k' + 3 * (unat (vpn (VirtAddr_ceil t)) - unat (vpn (VirtAddr_floor s)))"
proof -
  from va obtain a where a: "MapArea_new s t Framed perm = Some a" "range_ok (vpn_range a)" "data_frames a = []"
      "map_type a = Framed" "map_perm a = perm" "get_start (vpn_range a) = VirtAddr_floor s"
      "get_end (vpn_range a) = VirtAddr_ceil t"
    by (rule MapArea_new_returns)
  have "MemorySet_push a None ms k = Some (ms', k')" using run a(1) by (simp add: insert_framed_area_def)
  then show ?thesis
    using push_room [OF k a(4,3,2)] free room a(6,7) by (simp add: area_pages_def)
qed

section \<open>Requests\<close>

lemma low_pages:
  assumes "unat start + unat len < 2 ^ 38"
  shows "va_ok (VirtAddr_of_usize start) (VirtAddr_of_usize (start + len))"
    and "unat (vpn (VirtAddr_floor (VirtAddr_of_usize start))) = unat start div 4096"
    and "unat (vpn (VirtAddr_ceil (VirtAddr_of_usize (start + len)))) = (unat start + unat len + 4095) div 4096"
proof -
  have u: "unat (start + len) = unat start + unat len" using assms by (simp add: word_add_exact)
  have v: "va (VirtAddr_of_usize start) = start" "va (VirtAddr_of_usize (start + len)) = start + len"
    using assms u by (simp_all add: low_VirtAddr)
  show "va_ok (VirtAddr_of_usize start) (VirtAddr_of_usize (start + len))"
    using assms u v by (simp add: va_ok_def less_eq_VirtAddr_def word_le_nat_alt)
  show "unat (vpn (VirtAddr_floor (VirtAddr_of_usize start))) = unat start div 4096" by (simp add: VirtAddr_floor_eq v(1))
  show "unat (vpn (VirtAddr_ceil (VirtAddr_of_usize (start + len)))) = (unat start + unat len + 4095) div 4096"
    using assms u by (subst VirtAddr_ceil_39) (simp_all add: v(2))
qed

text \<open>The check for conflicts looks at the first and the last page of a request and at no other page.\<close>

lemma check_conflict_iff:
  assumes lt: "VirtAddr_floor s < VirtAddr_ceil t"
  shows "check_conflict s t ms \<longleftrightarrow> VirtAddr_floor s \<in> ms_pages ms \<or> VirtPageNum (vpn (VirtAddr_ceil t) - 1) \<in> ms_pages ms"
proof -
  have u: "unat (vpn (VirtAddr_ceil t) - 1) = unat (vpn (VirtAddr_ceil t)) - 1" "0 < unat (vpn (VirtAddr_ceil t))"
    using lt by (auto simp: less_VirtPageNum_def word_less_nat_alt word_sub_exact)
  have "(get_start (vpn_range a) < VirtAddr_ceil t \<and> VirtAddr_ceil t \<le> get_end (vpn_range a))
      = (VirtPageNum (vpn (VirtAddr_ceil t) - 1) \<in> area_pages a)" for a
    using u by (auto simp: area_pages_def less_VirtPageNum_def less_eq_VirtPageNum_def word_less_nat_alt word_le_nat_alt)
  then show ?thesis by (auto simp: check_conflict_def Let_def ms_pages_def area_pages_def)
qed

text \<open>The last page of a request, and its guards as conditions on numbers.\<close>

lemma last_page_eq: "0 < n \<Longrightarrow> (x + n + 4095) div 4096 = Suc ((x + n - 1) div (4096 :: nat))"
proof -
  assume "0 < n"
  then have "x + n + 4095 = (x + n - 1) + 4096" by simp
  then show ?thesis by (metis div_add_self2 add_Suc_right add_0_right One_nat_def zero_neq_numeral)
qed

lemma request_conflict:
  assumes len: "len \<noteq> 0" and fits: "unat start + unat len < 2 ^ 38" and ms: "ms_inv lo X k ms"
  shows "VirtAddr_floor (VirtAddr_of_usize start) < VirtAddr_ceil (VirtAddr_of_usize (start + len))"
    and "check_conflict (VirtAddr_of_usize start) (VirtAddr_of_usize (start + len)) ms \<longleftrightarrow>
      (\<exists>v. (unat (vpn v) = unat start div 4096 \<or> unat (vpn v) = (unat start + unat len - 1) div 4096) \<and>
        v \<notin> X \<and> ms_entries (phys k) ms v \<noteq> None)"
proof -
  let ?f = "VirtAddr_floor (VirtAddr_of_usize start)" and ?c = "VirtAddr_ceil (VirtAddr_of_usize (start + len))"
  let ?l = "VirtPageNum (vpn ?c - 1)"
  note lp = low_pages [OF fits]
  have n: "0 < unat len" using len by (simp add: unat_gt_0)
  note c = lp(3) [unfolded last_page_eq [OF n]]
  have "unat start div 4096 \<le> (unat start + unat len - 1) div 4096" using n by (intro div_le_mono) simp
  then show lt: "?f < ?c" using lp(2) c by (simp add: less_VirtPageNum_def word_less_nat_alt)
  have l: "unat (vpn ?l) = (unat start + unat len - 1) div 4096" using c by (simp add: word_sub_exact)
  have "unat (vpn v) = unat (vpn w) \<longleftrightarrow> v = w" for v w by (cases v, cases w) simp
  then have pg: "unat (vpn v) = unat start div 4096 \<longleftrightarrow> v = ?f" "unat (vpn v) = (unat start + unat len - 1) div 4096 \<longleftrightarrow> v = ?l" for v
    using lp(2) l by metis+
  have "v \<in> ms_pages ms \<longleftrightarrow> v \<notin> X \<and> ms_entries (phys k) ms v \<noteq> None" for v
    using ms by (auto simp: ms_inv_def domIff set_eq_iff)
  then show "check_conflict (VirtAddr_of_usize start) (VirtAddr_of_usize (start + len)) ms \<longleftrightarrow>
      (\<exists>v. (unat (vpn v) = unat start div 4096 \<or> unat (vpn v) = (unat start + unat len - 1) div 4096) \<and>
        v \<notin> X \<and> ms_entries (phys k) ms v \<noteq> None)"
    unfolding check_conflict_iff [OF lt] pg by metis
qed

lemma bad_port: "(port AND NOT 7 \<noteq> 0 \<or> port AND 7 = 0) \<longleftrightarrow> port = 0 \<or> 7 < port" for port :: usize
proof -
  have m: "(7 :: usize) = mask 3" by (simp add: mask_eq_exp_minus_1)
  have u: "unat (take_bit 3 port) = unat port mod 8" by (simp add: unat_take_bit)
  have "port AND NOT 7 = 0 \<longleftrightarrow> take_bit 3 port = port"
    unfolding m by (auto simp: bit_eq_iff bit_simps)
  also have "\<dots> \<longleftrightarrow> unat port mod 8 = unat port" unfolding word_unat_eq_iff u ..
  also have "\<dots> \<longleftrightarrow> unat port < 8" by (metis mod_less mod_less_divisor zero_less_numeral)
  finally have a: "port AND NOT 7 = 0 \<longleftrightarrow> unat port < 8" .
  have "port AND 7 = take_bit 3 port" unfolding m by (simp add: take_bit_eq_mask)
  then have b: "port AND 7 = 0 \<longleftrightarrow> unat port mod 8 = 0" unfolding word_unat_eq_iff by (simp add: u)
  have c: "port = 0 \<longleftrightarrow> unat port = 0" "7 < port \<longleftrightarrow> \<not> unat port < 8" by (auto simp: unat_eq_0 word_less_nat_alt)
  have "unat port < 8 \<Longrightarrow> unat port mod 8 = unat port" by simp
  then show ?thesis unfolding a b c by auto
qed

lemma aligned_iff: "VirtAddr_aligned (VirtAddr_of_usize start) \<longleftrightarrow> unat start mod 4096 = 0"
proof -
  have "unat (VirtAddr_page_offset (VirtAddr_of_usize start)) = unat start mod 4096"
    unfolding VirtAddr_page_offset_def of_usize_eqs page_offset_take_bit by (simp add: unat_take_bit)
  then show ?thesis by (metis VirtAddr_aligned_def unat_eq_0)
qed

lemma check_maparea_Some:
  assumes "current_tcb k = Some (t, tcb)"
  shows "check_maparea a b k = Some (check_conflict a b (memory_set tcb), k)"
  unfolding check_maparea_def using current_tcbD [OF assms]
  by (subst take_current_task_eq) (simp add: get_tcb_taken take_set_current)

lemma set_current_taken:
  assumes "current_task k = Some t"
  shows "set_current t (put_tcb t tcb ((snd (take_current_task k))\<lparr>km := m\<rparr>)) = put_tcb t tcb (k\<lparr>km := m\<rparr>)"
  using assms by (simp add: set_current_def put_tcb_def take_current_task_def current_task_def)

lemma add_maparea_Some:
  assumes "current_tcb k = Some (t, tcb)"
  shows "add_maparea a b p k = map_option (\<lambda>(ms, m). put_tcb t (tcb\<lparr>memory_set := ms\<rparr>) (k\<lparr>km := m\<rparr>))
    (insert_framed_area a b p (memory_set tcb) (km k))"
  unfolding add_maparea_def using current_tcbD [OF assms]
  by (subst take_current_task_eq, cases "insert_framed_area a b p (memory_set tcb) (km k)")
    (auto simp: get_tcb_taken set_current_taken)

lemma remove_maparea_Some:
  assumes "current_tcb k = Some (t, tcb)"
  shows "remove_maparea a b k = map_option (\<lambda>(i, ms, m). (i, put_tcb t (tcb\<lparr>memory_set := ms\<rparr>) (k\<lparr>km := m\<rparr>)))
    (remove_framed_area a b (memory_set tcb) (km k))"
  unfolding remove_maparea_def using current_tcbD [OF assms]
  by (subst take_current_task_eq, cases "remove_framed_area a b (memory_set tcb) (km k)")
    (auto simp: get_tcb_taken set_current_taken)

lemma sys_mmap_eq:
  assumes cur: "current_tcb k = Some (t, tcb)" and len: "len \<noteq> 0"
    and port: "port AND NOT 7 = 0" "port AND 7 \<noteq> 0" and al: "VirtAddr_aligned (VirtAddr_of_usize start)"
  shows "sys_mmap start len port k =
    (if check_conflict (VirtAddr_of_usize start) (VirtAddr_of_usize (start + len)) (memory_set tcb) then Some (Ret (-1), k)
     else map_option (\<lambda>(ms, m). (Ret 0, put_tcb t (tcb\<lparr>memory_set := ms\<rparr>) (k\<lparr>km := m\<rparr>)))
       (insert_framed_area (VirtAddr_of_usize start) (VirtAddr_of_usize (start + len)) (port_perm port) (memory_set tcb) (km k)))"
proof -
  have "sys_mmap start len port k = do {
      (c, k) \<leftarrow> check_maparea (VirtAddr_of_usize start) (VirtAddr_of_usize (start + len)) k;
      if c then Some (Ret (-1), k) else do {
        k \<leftarrow> add_maparea (VirtAddr_of_usize start) (VirtAddr_of_usize (start + len)) (port_perm port) k; Some (Ret 0, k) } }"
    unfolding sys_mmap_def Let_def using len port al by simp
  then show ?thesis
    using check_maparea_Some [OF cur] add_maparea_Some [OF cur] by (auto split: option.splits bind_splits)
qed

text \<open>
  C20 (functional). \<^verbatim>\<open>mmap\<close> of unmapped pages, for a valid request and with frames enough, returns 0
  and maps every page of the request to a frame that was not in use and is filled with
  zeros, with the permissions of the port. The translation of every other page, the bytes of
  every frame in use that is not one of the page tables, and every other task stay.
\<close>

theorem sys_mmap_maps:
  assumes cur: "current_tcb k = Some (t, tcb)" and len: "len \<noteq> 0"
    and port: "port AND NOT 7 = 0" "port AND 7 \<noteq> 0" and al: "VirtAddr_aligned (VirtAddr_of_usize start)"
    and user: "kmem_inv lo (km k)" "ms_inv lo X (km k) (memory_set tcb)" and fits: "unat start + unat len < 2 ^ 38"
    and free: "\<forall>v. unat start div 4096 \<le> unat (vpn v) \<and> unat (vpn v) < (unat start + unat len + 4095) div 4096 \<longrightarrow>
      ms_entries (phys (km k)) (memory_set tcb) v = None"
    and room: "3 * ((unat start + unat len + 4095) div 4096 - unat start div 4096) \<le> frames_room (km k)"
  shows "\<exists>ms m. sys_mmap start len port k = Some (Ret 0, put_tcb t (tcb\<lparr>memory_set := ms\<rparr>) (k\<lparr>km := m\<rparr>)) \<and>
    kmem_inv lo m \<and> ms_inv lo X m ms \<and>
    (\<forall>v. if unat start div 4096 \<le> unat (vpn v) \<and> unat (vpn v) < (unat start + unat len + 4095) div 4096
      then \<exists>p. ms_entries (phys m) ms v = Some (PageTableEntry_new p (port_perm port OR PTE_V)) \<and>
        p \<notin> frames_live lo (km k) \<and> get_bytes_array (phys m) p = replicate 4096 0
      else ms_entries (phys m) ms v = ms_entries (phys (km k)) (memory_set tcb) v) \<and>
    (\<forall>q \<in> frames_live lo (km k) - ppns (pt_frames (page_table (memory_set tcb))). same_page (phys (km k)) (phys m) q)"
proof -
  let ?s = "VirtAddr_of_usize start" and ?t = "VirtAddr_of_usize (start + len)"
  note lp = low_pages [OF fits]
  have in_range: "(VirtAddr_floor ?s \<le> v \<and> v < VirtAddr_ceil ?t) =
      (unat start div 4096 \<le> unat (vpn v) \<and> unat (vpn v) < (unat start + unat len + 4095) div 4096)" for v
    by (simp add: less_eq_VirtPageNum_def less_VirtPageNum_def word_le_nat_alt word_less_nat_alt lp)
  have fr: "{VirtAddr_floor ?s..<VirtAddr_ceil ?t} \<inter> dom (ms_entries (phys (km k)) (memory_set tcb)) = {}"
    using free in_range by (auto simp: domIff)
  have n: "0 < unat len" using len by (simp add: unat_gt_0)
  have "unat start div 4096 \<le> (unat start + unat len - 1) div 4096" using n by (intro div_le_mono) simp
  then have "\<not> check_conflict ?s ?t (memory_set tcb)"
    using free unfolding request_conflict(2) [OF len fits user(2)] last_page_eq [OF n] by auto
  moreover have "3 * (unat (vpn (VirtAddr_ceil ?t)) - unat (vpn (VirtAddr_floor ?s))) \<le> frames_room (km k)"
    using room lp by simp
  then obtain ms m where "insert_framed_area ?s ?t (port_perm port) (memory_set tcb) (km k) = Some (ms, m)"
      "kmem_inv lo m" "ms_inv lo X m ms"
      "\<forall>v. if VirtAddr_floor ?s \<le> v \<and> v < VirtAddr_ceil ?t
        then \<exists>p. ms_entries (phys m) ms v = Some (PageTableEntry_new p (port_perm port OR PTE_V)) \<and>
          p \<notin> frames_live lo (km k) \<and> get_bytes_array (phys m) p = replicate 4096 0
        else ms_entries (phys m) ms v = ms_entries (phys (km k)) (memory_set tcb) v"
      "\<forall>q \<in> frames_live lo (km k) - ppns (pt_frames (page_table (memory_set tcb))). same_page (phys (km k)) (phys m) q"
    using insert_area_maps [OF user lp(1) fr] by blast
  ultimately show ?thesis unfolding sys_mmap_eq [OF cur len port al] in_range
    by (intro exI [of _ ms] exI [of _ m]) simp
qed

lemma ports: "3 AND NOT (7 :: usize) = 0" "3 AND (7 :: usize) \<noteq> 0"
  by simp_all

theorem sys_mmap_maps_witness:
  "\<exists>(k :: unit kernel) m. sys_mmap 0x1000 0x1800 3 k = Some (Ret 0, m)"
proof -
  fix p f
  obtain m ms where k: "kmem_inv 16 m" "ms_inv 16 {} m ms" "ms_entries (phys m) ms = Map.empty" "frames_room m = 63"
    using example_space by blast
  let ?k = "example_kernel m p ms f ()"
  have "VirtAddr_aligned (VirtAddr_of_usize 0x1000)"
    by (simp add: VirtAddr_aligned_def VirtAddr_page_offset_def VirtAddr_of_usize_def PAGE_SIZE_def VA_WIDTH_SV39_def)
  then show ?thesis
    using sys_mmap_maps [OF example_current [of m p ms f "()"], of "0x1800" 3 "0x1000" 16 "{}"] k by auto
qed

text \<open>
  C33 (error). For a request of positive length that ends below 2^38, \<^verbatim>\<open>mmap\<close> returns \<open>-1\<close> exactly if the port is 0 or has
  a bit above the lower three, the start is not the start of a page, or the first or the last page of
  the request lies in an area of the process; a mapped page in between does not matter.
  When it returns \<open>-1\<close> the kernel is unchanged.
\<close>

theorem sys_mmap_refuses:
  assumes cur: "current_tcb k = Some (t, tcb)" and len: "len \<noteq> 0" and fits: "unat start + unat len < 2 ^ 38"
    and user: "ms_inv lo X (km k) (memory_set tcb)"
  shows "sys_mmap start len port k = Some (Ret (-1), k') \<longleftrightarrow> k' = k \<and>
     (port = 0 \<or> 7 < port \<or> unat start mod 4096 \<noteq> 0 \<or>
      (\<exists>v. (unat (vpn v) = unat start div 4096 \<or> unat (vpn v) = (unat start + unat len - 1) div 4096) \<and>
        v \<notin> X \<and> ms_entries (phys (km k)) (memory_set tcb) v \<noteq> None))"
proof (cases "port = 0 \<or> 7 < port \<or> unat start mod 4096 \<noteq> 0")
  case True
  then have "(port AND NOT 7 \<noteq> 0 \<or> port AND 7 = 0) \<or> \<not> VirtAddr_aligned (VirtAddr_of_usize start)"
    unfolding bad_port aligned_iff by blast
  then have "sys_mmap start len port k = Some (Ret (-1), k)" using len by (auto simp: sys_mmap_def Let_def)
  then show ?thesis using True by auto
next
  case False
  then have good: "port AND NOT 7 = 0" "port AND 7 \<noteq> 0" "VirtAddr_aligned (VirtAddr_of_usize start)"
    using bad_port [of port] aligned_iff by blast+
  show ?thesis
    unfolding sys_mmap_eq [OF cur len good] request_conflict(2) [OF len fits user] using False by auto
qed

text \<open>A process with the pages 1 and 2 and no others.\<close>

lemma example_two_pages:
  obtains m ms where "kmem_inv 16 m" and "ms_inv 16 {} m ms" and "dom (ms_entries (phys m) ms) = {VirtPageNum 1, VirtPageNum 2}"
    and "57 \<le> frames_room m"
proof -
  obtain k ms where k: "kmem_inv 16 k" "ms_inv 16 {} k ms" "ms_entries (phys k) ms = Map.empty" "frames_room k = 63"
      "areas ms = []"
    using example_space by blast
  have h: "{VirtAddr_floor (VirtAddr 0x1000)..<VirtAddr_ceil (VirtAddr 0x2800)} \<inter> dom (ms_entries (phys k) ms) = {}"
    "3 * (unat (vpn (VirtAddr_ceil (VirtAddr 0x2800))) - unat (vpn (VirtAddr_floor (VirtAddr 0x1000)))) \<le> frames_room k"
    using k(3,4) by (simp_all add: example_va)
  from k(1,2) example_va(1) h obtain a pt' m nf fs df where
    r: "insert_framed_area (VirtAddr 0x1000) (VirtAddr 0x2800) 0x16 ms k
        = Some (\<lparr>page_table = pt', areas = areas ms @ [a\<lparr>data_frames := df\<rparr>]\<rparr>, m)"
      "ms_inv 16 {} m \<lparr>page_table = pt', areas = areas ms @ [a\<lparr>data_frames := df\<rparr>]\<rparr>"
      "space_step 16 (page_table ms) k nf fs pt' m" "set (map snd df) = set fs"
      "\<forall>v. v \<notin> area_pages a \<longrightarrow> pt_entries (phys m) pt' v = ms_entries (phys k) ms v"
      "area_pages a = {VirtAddr_floor (VirtAddr 0x1000)..<VirtAddr_ceil (VirtAddr 0x2800)}" "map_type a = Framed"
    by (rule insert_area_returns)
  let ?ms = "\<lparr>page_table = pt', areas = areas ms @ [a\<lparr>data_frames := df\<rparr>]\<rparr>"
  have room: "57 \<le> frames_room m"
    using insert_area_room [OF k(1,2) example_va(1) h r(1)] k(4) by (simp add: example_va)
  have n: "1 \<le> n \<and> n < 3 \<longleftrightarrow> n = 1 \<or> n = 2" for n :: usize
    unfolding word_le_nat_alt word_less_nat_alt word_unat_eq_iff by auto
  have "{VirtPageNum 1..<VirtPageNum 3} = {VirtPageNum 1, VirtPageNum 2}"
  proof (rule set_eqI)
    fix v :: VirtPageNum
    show "v \<in> {VirtPageNum 1..<VirtPageNum 3} \<longleftrightarrow> v \<in> {VirtPageNum 1, VirtPageNum 2}"
      by (cases v) (simp add: less_eq_VirtPageNum_def less_VirtPageNum_def n)
  qed
  moreover have "dom (ms_entries (phys m) ?ms) = ms_pages ?ms" using r(2) by (simp only: ms_inv_def Un_empty_left)
  moreover have "ms_pages ?ms = {VirtPageNum 1..<VirtPageNum 3}"
    using r(6) k(5) by (simp add: ms_pages_def area_pages_def example_va)
  ultimately show ?thesis using that [OF space_stepD(3) [OF r(3)] r(2) _ room] by simp
qed

theorem sys_mmap_refuses_witness:
  "\<exists>(k :: unit kernel) tcb. current_tcb k = Some (1, tcb) \<and>
     dom (ms_entries (phys (km k)) (memory_set tcb)) = {VirtPageNum 1, VirtPageNum 2} \<and>
     sys_mmap 0x2000 0x2000 3 k = Some (Ret (-1), k) \<and> sys_mmap 0 0x5000 3 k \<noteq> Some (Ret (-1), k)"
proof -
  fix p f
  obtain m ms where m: "kmem_inv 16 m" "ms_inv 16 {} m ms" "dom (ms_entries (phys m) ms) = {VirtPageNum 1, VirtPageNum 2}"
      "57 \<le> frames_room m" by (rule example_two_pages)
  let ?k = "example_kernel m p ms f ()"
  have e: "ms_entries (phys m) ms v \<noteq> None \<longleftrightarrow> v = VirtPageNum 1 \<or> v = VirtPageNum 2" for v using m(3) by blast
  have f: "unat (0x2000 :: usize) + unat (0x2000 :: usize) < 2 ^ 38" "unat (0 :: usize) + unat (0x5000 :: usize) < 2 ^ 38"
    "ms_inv 16 {} (km ?k) (memory_set (example_tcb p ms))" using m(2) by simp_all
  have "sys_mmap 0x2000 0x2000 3 ?k = Some (Ret (-1), ?k)"
    by (subst sys_mmap_refuses [OF example_current _ f(1,3)]) (use e [of "VirtPageNum 2"] in \<open>auto intro!: exI [of _ "VirtPageNum 2"]\<close>)
  moreover have "0 < unat (vpn v) \<and> unat (vpn v) \<noteq> 4" if "ms_entries (phys m) ms v = Some y" for v y
    using e [of v] that by auto
  then have "sys_mmap 0 0x5000 3 ?k \<noteq> Some (Ret (-1), ?k)"
    by (subst sys_mmap_refuses [OF example_current _ f(2,3)]) auto
  ultimately show ?thesis using m(3) by (intro exI [of _ ?k] exI [of _ "example_tcb p ms"]) simp
qed

text \<open>
  C34 (error). The check for conflicts is incomplete: a valid request below 2^38, with frames enough, whose first
  and last pages are not mapped but that encloses a mapped page passes the check, and the kernel panics.
\<close>

theorem sys_mmap_panics:
  assumes cur: "current_tcb k = Some (t, tcb)" and len: "len \<noteq> 0"
    and port: "port \<noteq> 0" "port \<le> 7" and al: "unat start mod 4096 = 0"
    and user: "kmem_inv lo (km k)" "ms_inv lo X (km k) (memory_set tcb)" and fits: "unat start + unat len < 2 ^ 38"
    and room: "3 * ((unat start + unat len + 4095) div 4096 - unat start div 4096) \<le> frames_room (km k)"
    and w: "unat start div 4096 < unat (vpn w)" "unat (vpn w) < (unat start + unat len - 1) div 4096"
      "ms_entries (phys (km k)) (memory_set tcb) w \<noteq> None"
    and ends: "\<forall>v. unat (vpn v) = unat start div 4096 \<or> unat (vpn v) = (unat start + unat len - 1) div 4096 \<longrightarrow>
      ms_entries (phys (km k)) (memory_set tcb) v = None"
  shows "sys_mmap start len port k = None"
proof -
  let ?s = "VirtAddr_of_usize start" and ?t = "VirtAddr_of_usize (start + len)"
  note lp = low_pages [OF fits]
  have good: "port AND NOT 7 = 0" "port AND 7 \<noteq> 0" "VirtAddr_aligned ?s"
    using bad_port [of port] aligned_iff port al by auto
  have n: "0 < unat len" using len by (simp add: unat_gt_0)
  have nc: "\<not> check_conflict ?s ?t (memory_set tcb)" unfolding request_conflict(2) [OF len fits user(2)] using ends by metis
  have "unat (vpn (VirtAddr_floor ?s)) \<le> unat (vpn w)" "unat (vpn w) < unat (vpn (VirtAddr_ceil ?t))"
    using w(1,2) unfolding lp(2,3) last_page_eq [OF n] by linarith+
  then have "w \<in> {VirtAddr_floor ?s..<VirtAddr_ceil ?t}"
    by (simp add: less_eq_VirtPageNum_def less_VirtPageNum_def word_le_nat_alt word_less_nat_alt)
  moreover have "3 * (unat (vpn (VirtAddr_ceil ?t)) - unat (vpn (VirtAddr_floor ?s))) \<le> frames_room (km k)" using room lp by simp
  ultimately show ?thesis
    unfolding sys_mmap_eq [OF cur len good] using nc insert_area_mapped [OF user lp(1) _ w(3)] by simp
qed

theorem sys_mmap_panics_witness:
  "\<exists>(k :: unit kernel) tcb. current_tcb k = Some (1, tcb) \<and> kmem_inv 16 (km k) \<and> ms_inv 16 {} (km k) (memory_set tcb) \<and>
     dom (ms_entries (phys (km k)) (memory_set tcb)) = {VirtPageNum 1, VirtPageNum 2} \<and> 57 \<le> frames_room (km k) \<and>
     sys_mmap 0 0x5000 3 k = None"
proof -
  fix p f
  obtain m ms where m: "kmem_inv 16 m" "ms_inv 16 {} m ms" "dom (ms_entries (phys m) ms) = {VirtPageNum 1, VirtPageNum 2}"
      "57 \<le> frames_room m" by (rule example_two_pages)
  let ?k = "example_kernel m p ms f ()"
  have e: "ms_entries (phys m) ms v \<noteq> None \<longleftrightarrow> v = VirtPageNum 1 \<or> v = VirtPageNum 2" for v using m(3) by blast
  have "ms_entries (phys m) ms v = None" if "unat (vpn v) = 0 \<or> unat (vpn v) = 4" for v using e [of v] that by auto
  moreover have "ms_entries (phys m) ms (VirtPageNum 2) \<noteq> None" using e by blast
  ultimately have "sys_mmap 0 0x5000 3 ?k = None"
    using sys_mmap_panics [OF example_current [of m p ms f "()"], of "0x5000" 3 0 16 "{}" "VirtPageNum 2"] m(1,2,4) by auto
  then show ?thesis using m by (intro exI [of _ ?k] exI [of _ "example_tcb p ms"]) simp
qed

end
