(* ===== verification/ForkOps.thy ===== *)
theory ForkOps
  imports MmapSpec
begin

text \<open>
  Copying an address space, \<^verbatim>\<open>MemorySet::from_existed_user\<close>: the copy has the same areas, every
  page of it has a frame of its own with the bytes of the original, and the original is
  not disturbed.
\<close>

section \<open>Two address spaces\<close>

text \<open>
  \<open>ms\<close> is built while \<open>us\<close> is read; \<open>L\<close> is a set of frames in use, those of \<open>us\<close> among them, that
  building \<open>ms\<close> must leave alone.
\<close>

definition apart :: "usize \<Rightarrow> VirtPageNum set \<Rightarrow> PhysPageNum set \<Rightarrow> kmem \<Rightarrow> MemorySet \<Rightarrow> MemorySet \<Rightarrow> bool" where
  "apart lo X L k us ms \<longleftrightarrow> kmem_inv lo k \<and> ms_inv lo X k us \<and> ms_inv lo X k ms \<and> all_framed us \<and> all_framed ms \<and>
     ppns (ms_frames us) \<subseteq> L \<and> L \<subseteq> frames_live lo k \<and> L \<inter> ppns (ms_frames ms) = {}"

definition undisturbed :: "PhysPageNum set \<Rightarrow> kmem \<Rightarrow> kmem \<Rightarrow> MemorySet \<Rightarrow> bool" where
  "undisturbed L k k' us \<longleftrightarrow> ms_entries (phys k') us = ms_entries (phys k) us \<and>
     (\<forall>p \<in> L. same_page (phys k) (phys k') p)"

lemma apartD:
  assumes "apart lo X L k us ms"
  shows "kmem_inv lo k" and "ms_inv lo X k us" and "ms_inv lo X k ms" and "all_framed us" and "all_framed ms"
    and "ppns (ms_frames us) \<subseteq> L" and "L \<subseteq> frames_live lo k" and "L \<inter> ppns (ms_frames ms) = {}"
  using assms by (simp_all add: apart_def)

lemma undisturbed_page:
  "undisturbed L k k' us \<Longrightarrow> p \<in> L \<Longrightarrow> get_bytes_array (phys k') p = get_bytes_array (phys k) p"
  by (simp add: undisturbed_def same_page_def)

text \<open>A page of one space has the flags and the bytes of the page of the other.\<close>

definition page_copy :: "phys_mem \<Rightarrow> MemorySet \<Rightarrow> phys_mem \<Rightarrow> MemorySet \<Rightarrow> VirtPageNum \<Rightarrow> bool" where
  "page_copy m us m' ms v \<longleftrightarrow> (\<exists>e e'. ms_entries m us v = Some e \<and> ms_entries m' ms v = Some e' \<and>
     pte_flags e' = pte_flags e \<and> get_bytes_array m' (pte_ppn e') = get_bytes_array m (pte_ppn e))"

lemma undisturbed_trans: "undisturbed L k k1 us \<Longrightarrow> undisturbed L k1 k2 us \<Longrightarrow> undisturbed L k k2 us"
  unfolding undisturbed_def by (auto intro: same_page_trans)

lemma page_frames_owned: "(v, f) \<in> set (page_frames ms) \<Longrightarrow> f \<in> set (ms_frames ms)"
  by (force simp: page_frames_def ms_frames_def area_frames_def)

lemma page_frames_not_table:
  assumes "ms_inv lo X k ms" and "(v, f) \<in> set (page_frames ms)"
  shows "frame_ppn f \<notin> ppns (pt_frames (page_table ms))"
proof
  assume "frame_ppn f \<in> ppns (pt_frames (page_table ms))"
  then have "f \<in> set (pt_frames (page_table ms))" by (auto dest: frame_ppn_inj)
  moreover have "f \<in> set (concat (map area_frames (areas ms)))"
    using assms(2) by (force simp: page_frames_def area_frames_def)
  ultimately show False using assms(1) by (auto simp: ms_inv_def ms_frames_def)
qed

text \<open>Changing the bytes of a page keeps the address space.\<close>

lemma ms_data_change:
  assumes k: "kmem_inv lo k" "ms_inv lo X k ms" and f: "(v, f) \<in> set (page_frames ms)"
    and other: "\<And>p. ppn_ok p \<Longrightarrow> p \<noteq> frame_ppn f \<Longrightarrow> same_page (phys k) m p"
  shows "kmem_inv lo (k\<lparr>phys := m\<rparr>)" and "ms_inv lo X (k\<lparr>phys := m\<rparr>) ms" and "ms_entries m ms = ms_entries (phys k) ms"
proof -
  let ?k = "k\<lparr>phys := m\<rparr>"
  show "kmem_inv lo ?k" using k(1) by (simp add: kmem_inv_def)
  have pt: "pt_inv lo k (page_table ms)" using k(2) by (simp add: ms_inv_def)
  have tabs: "same_page (phys k) (phys ?k) p" if p: "p \<in> ppns (pt_frames (page_table ms))" for p
  proof -
    have "ppn_ok p" using p pt by (intro live_ppn_ok [OF k(1)]) (auto simp: pt_inv_def)
    moreover have "p \<noteq> frame_ppn f" using page_frames_not_table [OF k(2) f] p by blast
    ultimately show ?thesis using other by simp
  qed
  have lv: "frames_live lo ?k = frames_live lo k" by (simp add: frames_live_def)
  have lvs: "ppns (pt_frames (page_table ms)) \<subseteq> frames_live lo ?k" using pt unfolding lv pt_inv_def by blast
  have pt': "pt_inv lo ?k (page_table ms)" by (rule pt_inv_same_pages [OF k(1) pt tabs lvs])
  have e: "ms_entries (phys ?k) ms = ms_entries (phys k) ms" by (rule pt_same_pages(2) [OF k(1) pt tabs])
  then show "ms_entries m ms = ms_entries (phys k) ms" by simp
  show "ms_inv lo X ?k ms" using k(2) pt' unfolding ms_inv_def e lv by simp
qed

lemma ms_data_write:
  assumes k: "kmem_inv lo k" "ms_inv lo X k ms" and f: "(v, f) \<in> set (page_frames ms)" and bs: "length bs \<le> 4096"
  defines "m \<equiv> put_bytes_array (frame_ppn f) 0 bs (phys k)"
  shows "kmem_inv lo (k\<lparr>phys := m\<rparr>)" and "ms_inv lo X (k\<lparr>phys := m\<rparr>) ms" and "ms_entries m ms = ms_entries (phys k) ms"
    and "\<And>p. ppn_ok p \<Longrightarrow> p \<noteq> frame_ppn f \<Longrightarrow> same_page (phys k) m p"
proof -
  have "ppns (ms_frames ms) \<subseteq> frames_live lo k" using k(2) by (simp add: ms_inv_def)
  then have okf: "ppn_ok (frame_ppn f)" using page_frames_owned [OF f] by (intro live_ppn_ok [OF k(1)]) auto
  show other: "same_page (phys k) m p" if "ppn_ok p" "p \<noteq> frame_ppn f" for p
    unfolding m_def using put_bytes_other [OF okf that(1)] that(2) bs by simp
  note keep = ms_data_change [OF k f other]
  show "kmem_inv lo (k\<lparr>phys := m\<rparr>)" by (rule keep(1))
  show "ms_inv lo X (k\<lparr>phys := m\<rparr>) ms" by (rule keep(2))
  show "ms_entries m ms = ms_entries (phys k) ms" by (rule keep(3))
qed

section \<open>Copying the pages of an area\<close>

lemma translate_entry: "ms_entries m ms v = Some e \<Longrightarrow> MemorySet_translate m ms v = Some e"
  by (auto simp: pt_entries_def MemorySet_translate_def split: if_splits option.splits)

lemma ms_page_entry:
  assumes k: "kmem_inv lo k" "ms_inv lo X k ms" "all_framed ms" and v: "v \<in> ms_pages ms"
  obtains e f where "ms_entries (phys k) ms v = Some e" and "(v, f) \<in> set (page_frames ms)" and "frame_ppn f = pte_ppn e"
    and "ppn_ok (pte_ppn e)" and "pte_ppn e \<in> ppns (ms_frames ms)"
proof -
  have "v \<in> dom (ms_entries (phys k) ms)" "v \<notin> X" using k(2) v by (auto simp: ms_inv_def)
  then obtain e where e: "ms_entries (phys k) ms v = Some e" by blast
  obtain f where f: "(v, f) \<in> set (page_frames ms)" "frame_ppn f = pte_ppn e" "ppn_ok (pte_ppn e)"
    using framed_page [OF k(2,3) e \<open>v \<notin> X\<close> k(1)] by blast
  have "pte_ppn e \<in> ppns (ms_frames ms)" using page_frames_owned [OF f(1)] f(2) by force
  then show ?thesis using that e f by blast
qed

text \<open>What copying a list of pages leaves: the pages of the list copied, all others as before.\<close>

definition pages_copied :: "kmem \<Rightarrow> phys_mem \<Rightarrow> MemorySet \<Rightarrow> MemorySet \<Rightarrow> VirtPageNum set \<Rightarrow> bool" where
  "pages_copied k m us ms V \<longleftrightarrow> ms_entries m ms = ms_entries (phys k) ms \<and>
     (\<forall>v \<in> ms_pages ms. \<forall>e'. ms_entries (phys k) ms v = Some e' \<longrightarrow>
        (if v \<in> V then \<exists>e. ms_entries (phys k) us v = Some e \<and>
             get_bytes_array m (pte_ppn e') = get_bytes_array (phys k) (pte_ppn e)
         else get_bytes_array m (pte_ppn e') = get_bytes_array (phys k) (pte_ppn e')))"

lemma pages_copiedD:
  assumes "pages_copied k m us ms V" and "v \<in> ms_pages ms" and "ms_entries (phys k) ms v = Some e'"
  shows "if v \<in> V then \<exists>e. ms_entries (phys k) us v = Some e \<and>
      get_bytes_array m (pte_ppn e') = get_bytes_array (phys k) (pte_ppn e)
    else get_bytes_array m (pte_ppn e') = get_bytes_array (phys k) (pte_ppn e')"
  using assms unfolding pages_copied_def by blast

lemma copy_pages_apart:
  assumes "apart lo X L k us ms" and "set vs \<subseteq> ms_pages us" and "set vs \<subseteq> ms_pages ms"
  shows "\<exists>m. copy_pages vs us ms (phys k) = Some m \<and> apart lo X L (k\<lparr>phys := m\<rparr>) us ms \<and>
    undisturbed L k (k\<lparr>phys := m\<rparr>) us \<and> pages_copied k m us ms (set vs)"
  using assms
proof (induction vs arbitrary: k)
  case Nil
  then show ?case by (simp add: undisturbed_def pages_copied_def same_page_def)
next
  case (Cons v vs)
  note ap = apartD [OF Cons.prems(1)]
  have vp: "v \<in> ms_pages us" "v \<in> ms_pages ms" using Cons.prems(2,3) by simp_all
  from ap(1,2,4) vp(1) obtain e f where e: "ms_entries (phys k) us v = Some e" "(v, f) \<in> set (page_frames us)"
      "frame_ppn f = pte_ppn e" "ppn_ok (pte_ppn e)" "pte_ppn e \<in> ppns (ms_frames us)" by (rule ms_page_entry)
  from ap(1,3,5) vp(2) obtain e' f' where e': "ms_entries (phys k) ms v = Some e'" "(v, f') \<in> set (page_frames ms)"
      "frame_ppn f' = pte_ppn e'" "ppn_ok (pte_ppn e')" "pte_ppn e' \<in> ppns (ms_frames ms)" by (rule ms_page_entry)
  let ?B = "get_bytes_array (phys k) (pte_ppn e)"
  let ?m = "put_bytes_array (pte_ppn e') 0 ?B (phys k)"
  let ?k = "k\<lparr>phys := ?m\<rparr>"
  have B: "length ?B \<le> 4096" by simp
  note w = ms_data_write [OF ap(1,3) e'(2) B, unfolded e'(3)]
  have sus: "same_page (phys k) (phys ?k) p" if p: "p \<in> L" for p
  proof -
    have "ppn_ok p" using p ap(7) by (intro live_ppn_ok [OF ap(1)]) blast
    moreover have "p \<noteq> pte_ppn e'" using p e'(5) ap(8) by blast
    ultimately show ?thesis using w(4) by simp
  qed
  have lv: "frames_live lo ?k = frames_live lo k" by (simp add: frames_live_def)
  have usL: "same_page (phys k) (phys ?k) p" if "p \<in> ppns (ms_frames us)" for p using sus ap(6) that by blast
  have live: "ppns (ms_frames us) \<subseteq> frames_live lo ?k" using ap(2) unfolding lv by (simp add: ms_inv_def)
  note us = ms_undisturbed [OF ap(1,2) usL live]
  have ap1: "apart lo X L ?k us ms" using w(1,2) us(1) ap(4-8) unfolding apart_def lv by simp
  have und1: "undisturbed L k ?k us" using us(2) sus by (simp add: undisturbed_def)
  obtain m where m: "copy_pages vs us ms ?m = Some m" "apart lo X L (?k\<lparr>phys := m\<rparr>) us ms"
      "undisturbed L ?k (?k\<lparr>phys := m\<rparr>) us" "pages_copied ?k m us ms (set vs)"
    using Cons.IH [OF ap1] Cons.prems(2,3) by auto
  have run: "copy_pages (v # vs) us ms (phys k) = Some m"
    using m(1) translate_entry [OF e(1)] translate_entry [OF e'(1)] by simp
  have ent: "ms_entries m ms = ms_entries (phys k) ms" "ms_entries ?m ms = ms_entries (phys k) ms"
    using m(4) w(3) by (simp_all add: pages_copied_def)
  have "if u \<in> set (v # vs) then \<exists>e. ms_entries (phys k) us u = Some e \<and>
      get_bytes_array m (pte_ppn d) = get_bytes_array (phys k) (pte_ppn e)
      else get_bytes_array m (pte_ppn d) = get_bytes_array (phys k) (pte_ppn d)"
    if u: "u \<in> ms_pages ms" "ms_entries (phys k) ms u = Some d" for u d
  proof -
    have ih: "if u \<in> set vs then \<exists>e. ms_entries ?m us u = Some e \<and>
        get_bytes_array m (pte_ppn d) = get_bytes_array ?m (pte_ppn e)
        else get_bytes_array m (pte_ppn d) = get_bytes_array ?m (pte_ppn d)"
      using pages_copiedD [OF m(4) u(1), of d] u(2) ent(2) by (simp cong: if_cong)
    consider "u \<in> set vs" | "u \<notin> set vs" "u = v" | "u \<notin> set vs" "u \<noteq> v" by blast
    then show ?thesis
    proof cases
      case 1
      then have "u \<in> ms_pages us" using Cons.prems(2) by auto
      with ap(1,2,4) obtain c g where c: "ms_entries (phys k) us u = Some c" "(u, g) \<in> set (page_frames us)"
        "frame_ppn g = pte_ppn c" "ppn_ok (pte_ppn c)" "pte_ppn c \<in> ppns (ms_frames us)" by (rule ms_page_entry)
      have "get_bytes_array ?m (pte_ppn c) = get_bytes_array (phys k) (pte_ppn c)"
        using usL [OF c(5)] by (simp add: same_page_def)
      then show ?thesis using 1 ih us(2) c(1) by simp
    next
      case 2
      have "get_bytes_array ?m (pte_ppn e') = ?B" using get_put_bytes_array [OF e'(4), of 0 ?B] by simp
      then show ?thesis using 2 ih u(2) e'(1) e(1) by simp
    next
      case 3
      from ap(1,3,5) u(1) obtain c g where c: "ms_entries (phys k) ms u = Some c" "(u, g) \<in> set (page_frames ms)"
        "frame_ppn g = pte_ppn c" "ppn_ok (pte_ppn c)" "pte_ppn c \<in> ppns (ms_frames ms)" by (rule ms_page_entry)
      have "pte_ppn c \<noteq> pte_ppn e'"
      proof
        assume "pte_ppn c = pte_ppn e'"
        then have "g = f'" using c(3) e'(3) by (intro frame_ppn_inj) simp
        then show False using page_frames_inj [OF ap(3) c(2)] e'(2) 3(2) by blast
      qed
      then have "get_bytes_array ?m (pte_ppn c) = get_bytes_array (phys k) (pte_ppn c)"
        using w(4) [OF c(4)] by (simp add: same_page_def)
      then show ?thesis using 3 ih c(1) u(2) by simp
    qed
  qed
  then have "pages_copied k m us ms (set (v # vs))" using ent(1) by (simp add: pages_copied_def)
  moreover have "apart lo X L (k\<lparr>phys := m\<rparr>) us ms" using m(2) by simp
  moreover have "undisturbed L k (k\<lparr>phys := m\<rparr>) us" using undisturbed_trans [OF und1 m(3)] by simp
  ultimately show ?case using run by blast
qed

section \<open>Copying the areas\<close>

lemma push_apart:
  assumes ap: "apart lo X L k us ms" and a: "map_type a = Framed" "data_frames a = []"
    and r: "range_ok (vpn_range a)" and free: "area_pages a \<inter> dom (ms_entries (phys k) ms) = {}"
    and room: "3 * area_size a \<le> frames_room k"
  obtains pt' df k' where "MemorySet_push a None ms k = Some (\<lparr>page_table = pt', areas = areas ms @ [a\<lparr>data_frames := df\<rparr>]\<rparr>, k')"
    and "apart lo X L k' us \<lparr>page_table = pt', areas = areas ms @ [a\<lparr>data_frames := df\<rparr>]\<rparr>" and "undisturbed L k k' us"
    and "frames_room k \<le> frames_room k' + 3 * area_size a"
    and "\<forall>v. v \<notin> area_pages a \<longrightarrow> pt_entries (phys k') pt' v = ms_entries (phys k) ms v"
    and "\<forall>v f. (v, f) \<in> set (page_frames ms) \<longrightarrow> same_page (phys k) (phys k') (frame_ppn f)"
proof -
  note p = apartD [OF ap]
  from p(1,3) a r free room obtain pt' k' nf fs df where
    q: "MemorySet_push a None ms k = Some (\<lparr>page_table = pt', areas = areas ms @ [a\<lparr>data_frames := df\<rparr>]\<rparr>, k')"
      "ms_inv lo X k' \<lparr>page_table = pt', areas = areas ms @ [a\<lparr>data_frames := df\<rparr>]\<rparr>"
      "space_step lo (page_table ms) k nf fs pt' k'" "set (map snd df) = set fs" "length fs = area_size a"
      "\<forall>v. v \<notin> area_pages a \<longrightarrow> pt_entries (phys k') pt' v = ms_entries (phys k) ms v"
    by (rule MemorySet_push_framed)
  let ?ms = "\<lparr>page_table = pt', areas = areas ms @ [a\<lparr>data_frames := df\<rparr>]\<rparr>"
  note st = space_stepD [OF q(3)]
  have own: "ppns (ms_frames ms) \<subseteq> frames_live lo k" using p(3) by (simp add: ms_inv_def)
  have sub: "ppns (pt_frames (page_table ms)) \<subseteq> ppns (ms_frames ms)" by (auto simp: ms_frames_def)
  have same: "same_page (phys k) (phys k') x" if x: "x \<in> L" for x
    by (rule space_step_other [OF q(3) p(1)]) (use x p(7,8) sub in blast)+
  have usL: "same_page (phys k) (phys k') x" if "x \<in> ppns (ms_frames us)" for x using same p(6) that by blast
  have data: "same_page (phys k) (phys k') (frame_ppn f)" if f: "(v, f) \<in> set (page_frames ms)" for v f
  proof (rule space_step_other [OF q(3) p(1)])
    show "frame_ppn f \<in> frames_live lo k" using page_frames_owned [OF f] own by blast
    show "frame_ppn f \<notin> ppns (pt_frames (page_table ms))" using page_frames_not_table [OF p(3) f] .
  qed
  have live: "L \<subseteq> frames_live lo k'" "ppns (ms_frames us) \<subseteq> frames_live lo k'" using p(6,7) st(7) by blast+
  have "set (area_frames (a\<lparr>data_frames := df\<rparr>)) = set fs" using q(4) by (simp add: area_frames_def)
  then have "ppns (ms_frames ?ms) = ppns (ms_frames ms) \<union> ppns (nf @ fs)"
    using st(1) by (auto simp: ms_frames_def image_Un)
  then have "L \<inter> ppns (ms_frames ?ms) = {}" using p(7,8) st(6) by blast
  moreover note und = ms_undisturbed [OF p(1,2) usL live(2)]
  ultimately have "apart lo X L k' us ?ms"
    using st(3) q(2) p(4-6) a(1) live(1) by (simp add: apart_def all_framed_def)
  moreover have "undisturbed L k k' us" using und(2) same by (simp add: undisturbed_def)
  ultimately show ?thesis
    using that q(1,6) data push_room [OF p(1,3) a r free room q(1)] by blast
qed

abbreviation area_key :: "MapArea \<Rightarrow> VPNRange \<times> MapType \<times> MapPermission" where
  "area_key a \<equiv> (vpn_range a, map_type a, map_perm a)"

lemma area_key_pages: "area_key a = area_key b \<Longrightarrow> area_pages a = area_pages b"
  by (simp add: area_pages_def)

lemma keys_pages:
  assumes "map area_key as = map area_key bs"
  shows "\<Union> (area_pages ` set as) = \<Union> (area_pages ` set bs)"
proof -
  have "map area_pages as = map area_pages bs"
    using assms by (induction as bs rule: list_induct2') (auto simp: area_pages_def)
  then show ?thesis by (metis set_map)
qed

lemma from_another_returns:
  assumes "range_ok (vpn_range a)"
  shows "MapArea_from_another a = Some (a\<lparr>data_frames := []\<rparr>)"
  using assms by (cases a, cases "vpn_range a") (simp add: MapArea_from_another_def SimpleRange_new_def range_ok_def
      get_start_def get_end_def)

lemma area_page_entry:
  assumes k: "kmem_inv lo k" "ms_inv lo X k ms" "all_framed ms" and a: "a \<in> set (areas ms)" "v \<in> area_pages a"
  shows "\<exists>e. ms_entries (phys k) ms v = Some e \<and> pte_flags e = map_perm a OR PTE_V"
proof -
  have ok: "area_ok (ms_entries (phys k) ms) a" "map_type a = Framed"
    using k(2,3) a(1) by (auto simp: ms_inv_def all_framed_def)
  then obtain f where f: "(v, f) \<in> set (data_frames a)" using area_ok_framedD(1) [OF ok] a(2) by force
  have "f \<in> set (ms_frames ms)" using f a(1) by (force simp: ms_frames_def area_frames_def)
  then have "ppn_ok (frame_ppn f)" using k(2) by (intro live_ppn_ok [OF k(1)]) (auto simp: ms_inv_def)
  then show ?thesis using area_ok_framedD(2) [OF ok f] by simp
qed

lemma page_copy_kept:
  assumes us: "kmem_inv lo k" "ms_inv lo X k us" "all_framed us" "v \<in> ms_pages us" "undisturbed L k k' us"
      "ppns (ms_frames us) \<subseteq> L"
    and c: "page_copy (phys k) us (phys k) ms v"
    and e: "ms_entries (phys k') ms' v = ms_entries (phys k) ms v"
    and b: "\<And>e. ms_entries (phys k) ms v = Some e \<Longrightarrow>
      get_bytes_array (phys k') (pte_ppn e) = get_bytes_array (phys k) (pte_ppn e)"
  shows "page_copy (phys k') us (phys k') ms' v"
proof -
  from us(1-4) obtain d f where d: "ms_entries (phys k) us v = Some d" "(v, f) \<in> set (page_frames us)"
      "frame_ppn f = pte_ppn d" "ppn_ok (pte_ppn d)" "pte_ppn d \<in> ppns (ms_frames us)" by (rule ms_page_entry)
  have "ms_entries (phys k') us v = Some d" "get_bytes_array (phys k') (pte_ppn d) = get_bytes_array (phys k) (pte_ppn d)"
    using us(5,6) d(1,5) by (auto simp: undisturbed_def same_page_def)
  then show ?thesis using c d(1) e b unfolding page_copy_def by force
qed

lemma copy_areas_step:
  assumes ap: "apart lo X L k us ms" and as: "areas us = done @ a # as" and key: "map area_key (areas ms) = map area_key done"
    and cp: "\<forall>v \<in> ms_pages ms. page_copy (phys k) us (phys k) ms v" and room: "3 * area_size a \<le> frames_room k"
  obtains ms' k' where "copy_areas (a # as) us ms k = copy_areas as us ms' k'" and "apart lo X L k' us ms'"
    and "undisturbed L k k' us" and "map area_key (areas ms') = map area_key (done @ [a])"
    and "\<forall>v \<in> ms_pages ms'. page_copy (phys k') us (phys k') ms' v" and "frames_room k \<le> frames_room k' + 3 * area_size a"
proof -
  note p = apartD [OF ap]
  have a: "a \<in> set (areas us)" using as by simp
  have ok: "range_ok (vpn_range a)" "map_type a = Framed" using p(2,4) a by (auto simp: ms_inv_def area_ok_def all_framed_def)
  let ?a = "a\<lparr>data_frames := []\<rparr>"
  have pa: "area_pages ?a = area_pages a" by (simp add: area_pages_def)
  have dom_ms: "dom (ms_entries (phys k) ms) = X \<union> ms_pages ms" using p(3) by (simp add: ms_inv_def)
  have pages: "ms_pages ms = \<Union> (area_pages ` set done)" using keys_pages [OF key] by (simp add: ms_pages_def)
  have us_in: "area_pages a \<subseteq> ms_pages us" "ms_pages ms \<subseteq> ms_pages us" using as pages by (auto simp: ms_pages_def)
  have "X \<inter> ms_pages us = {}" "\<forall>b \<in> set done. area_pages b \<inter> area_pages a = {}"
    using p(2) as by (simp_all add: ms_inv_def sorted_wrt_append)
  then have free: "area_pages ?a \<inter> dom (ms_entries (phys k) ms) = {}"
    unfolding dom_ms pages pa using us_in(1) by blast
  have h: "map_type ?a = Framed" "data_frames ?a = []" "range_ok (vpn_range ?a)" "3 * area_size ?a \<le> frames_room k"
    using ok room by simp_all
  from ap h(1-3) free h(4) obtain pt' df k1 where
    q: "MemorySet_push ?a None ms k = Some (\<lparr>page_table = pt', areas = areas ms @ [?a\<lparr>data_frames := df\<rparr>]\<rparr>, k1)"
      "apart lo X L k1 us \<lparr>page_table = pt', areas = areas ms @ [?a\<lparr>data_frames := df\<rparr>]\<rparr>" "undisturbed L k k1 us"
      "frames_room k \<le> frames_room k1 + 3 * area_size ?a"
      "\<forall>v. v \<notin> area_pages ?a \<longrightarrow> pt_entries (phys k1) pt' v = ms_entries (phys k) ms v"
      "\<forall>v f. (v, f) \<in> set (page_frames ms) \<longrightarrow> same_page (phys k) (phys k1) (frame_ppn f)"
    by (rule push_apart)
  let ?ms = "\<lparr>page_table = pt', areas = areas ms @ [?a\<lparr>data_frames := df\<rparr>]\<rparr>"
  from ok(1) obtain vs where vs: "vpns (vpn_range a) = Some vs" "distinct vs"
      "set vs = {get_start (vpn_range a)..<get_end (vpn_range a)}" "length vs = area_size a" "\<forall>v \<in> set vs. vpn_ok v"
    by (rule range_ok_vpns)
  have sv: "set vs = area_pages a" using vs(3) by (simp add: area_pages_def)
  have mp: "ms_pages ?ms = ms_pages ms \<union> area_pages a" by (simp add: ms_pages_def area_pages_def Un_commute)
  have svs: "set vs \<subseteq> ms_pages us" "set vs \<subseteq> ms_pages ?ms" using us_in sv mp by auto
  obtain m where m: "copy_pages vs us ?ms (phys k1) = Some m" "apart lo X L (k1\<lparr>phys := m\<rparr>) us ?ms"
      "undisturbed L k1 (k1\<lparr>phys := m\<rparr>) us" "pages_copied k1 m us ?ms (set vs)"
    using copy_pages_apart [OF q(2) svs] by blast
  let ?k = "k1\<lparr>phys := m\<rparr>"
  have p1: "kmem_inv lo k1" "ms_inv lo X k1 us" "ms_inv lo X k1 ?ms" "all_framed ?ms"
    using q(2) by (simp_all add: apart_def)
  have ent: "ms_entries m ?ms = ms_entries (phys k1) ?ms" using m(4) by (simp add: pages_copied_def)
  have "page_copy (phys ?k) us (phys ?k) ?ms v" if v: "v \<in> ms_pages ?ms" for v
  proof (cases "v \<in> area_pages a")
    case True
    then have vu: "v \<in> ms_pages us" using us_in by blast
    obtain d where d: "ms_entries (phys k1) us v = Some d" "pte_flags d = map_perm a OR PTE_V"
      using area_page_entry [OF p1(1,2) p(4) a True] by blast
    have "?a\<lparr>data_frames := df\<rparr> \<in> set (areas ?ms)" "v \<in> area_pages (?a\<lparr>data_frames := df\<rparr>)"
      using True by (simp_all add: area_pages_def)
    then obtain d' where d': "ms_entries (phys k1) ?ms v = Some d'" "pte_flags d' = map_perm a OR PTE_V"
      using area_page_entry [OF p1(1,3,4)] by fastforce
    have by': "get_bytes_array m (pte_ppn d') = get_bytes_array (phys k1) (pte_ppn d)"
      using pages_copiedD [OF m(4) v d'(1)] True sv d(1) by simp
    from p1(1,2) p(4) vu obtain c f where c: "ms_entries (phys k1) us v = Some c" "(v, f) \<in> set (page_frames us)"
      "frame_ppn f = pte_ppn c" "ppn_ok (pte_ppn c)" "pte_ppn c \<in> ppns (ms_frames us)" by (rule ms_page_entry)
    have "ms_entries m us v = Some d" "get_bytes_array m (pte_ppn d) = get_bytes_array (phys k1) (pte_ppn d)"
      using m(3) c(1,5) d(1) p(6) by (auto simp: undisturbed_def same_page_def)
    then show ?thesis using d(2) d' by' ent by (auto simp: page_copy_def)
  next
    case False
    then have vm: "v \<in> ms_pages ms" "v \<in> ms_pages us" using v mp us_in by auto
    from p(1,3,5) vm(1) obtain c f where c: "ms_entries (phys k) ms v = Some c" "(v, f) \<in> set (page_frames ms)"
      "frame_ppn f = pte_ppn c" "ppn_ok (pte_ppn c)" "pte_ppn c \<in> ppns (ms_frames ms)" by (rule ms_page_entry)
    have e1: "ms_entries (phys k1) ?ms v = Some c" using q(5) False c(1) by (simp add: area_pages_def)
    have "get_bytes_array (phys k1) (pte_ppn c) = get_bytes_array (phys k) (pte_ppn c)"
      using q(6) c(2,3) by (metis same_page_def)
    then have "get_bytes_array m (pte_ppn c) = get_bytes_array (phys k) (pte_ppn c)"
      using pages_copiedD [OF m(4) v e1] False sv by simp
    then show ?thesis
      using page_copy_kept [OF p(1,2,4) vm(2) undisturbed_trans [OF q(3) m(3)] p(6), of ms ?ms] cp vm(1) c(1) e1 ent by simp
  qed
  moreover have "copy_areas (a # as) us ms k = copy_areas as us ?ms ?k"
    using from_another_returns [OF ok(1)] q(1) vs(1) m(1) by simp
  moreover have "map area_key (areas ?ms) = map area_key (done @ [a])" using key by simp
  ultimately show ?thesis using that [of ?ms ?k] m(2) undisturbed_trans [OF q(3) m(3)] q(4)
    by (simp add: frames_room_def)
qed

lemma copy_areas_returns:
  assumes "apart lo X L k us ms" and "areas us = done @ as" and "map area_key (areas ms) = map area_key done"
    and "\<forall>v \<in> ms_pages ms. page_copy (phys k) us (phys k) ms v" and "3 * sum_list (map area_size as) \<le> frames_room k"
  shows "\<exists>ms' k'. copy_areas as us ms k = Some (ms', k') \<and> apart lo X L k' us ms' \<and> undisturbed L k k' us \<and>
    map area_key (areas ms') = map area_key (areas us) \<and> (\<forall>v \<in> ms_pages ms'. page_copy (phys k') us (phys k') ms' v) \<and>
    frames_room k \<le> frames_room k' + 3 * sum_list (map area_size as)"
  using assms
proof (induction as arbitrary: "done" ms k)
  case Nil
  then show ?case by (intro exI [of _ ms] exI [of _ k]) (simp add: undisturbed_def same_page_def)
next
  case (Cons a as)
  have room: "3 * area_size a \<le> frames_room k" using Cons.prems(5) by simp
  from Cons.prems(1-4) room obtain ms1 k1 where s: "copy_areas (a # as) us ms k = copy_areas as us ms1 k1"
      "apart lo X L k1 us ms1" "undisturbed L k k1 us" "map area_key (areas ms1) = map area_key (done @ [a])"
      "\<forall>v \<in> ms_pages ms1. page_copy (phys k1) us (phys k1) ms1 v" "frames_room k \<le> frames_room k1 + 3 * area_size a"
    by (rule copy_areas_step)
  have "areas us = (done @ [a]) @ as" using Cons.prems(2) by simp
  moreover have "3 * sum_list (map area_size as) \<le> frames_room k1" using Cons.prems(5) s(6) by simp
  ultimately obtain ms' k' where c: "copy_areas as us ms1 k1 = Some (ms', k')" "apart lo X L k' us ms'"
      "undisturbed L k1 k' us" "map area_key (areas ms') = map area_key (areas us)"
      "\<forall>v \<in> ms_pages ms'. page_copy (phys k') us (phys k') ms' v"
      "frames_room k1 \<le> frames_room k' + 3 * sum_list (map area_size as)"
    using Cons.IH [OF s(2) _ s(4,5)] by blast
  show ?case
    unfolding s(1) c(1) using c(2,4-6) s(6) undisturbed_trans [OF s(3) c(3)] by (intro exI [of _ ms'] exI [of _ k']) simp
qed

section \<open>The copy of a user space\<close>

text \<open>Every user space maps the trampoline, which belongs to no area.\<close>

abbreviation trampoline_page :: VirtPageNum where
  "trampoline_page \<equiv> VirtPageNum 0x7FFFFFF"

definition tramp_aligned :: "symbols \<Rightarrow> bool" where
  "tramp_aligned sy \<longleftrightarrow> PhysAddr_page_offset (PhysAddr_of_usize (strampoline sy)) = 0"

lemma trampoline_vpn: "VirtPageNum_of_VirtAddr (VirtAddr_of_usize TRAMPOLINE) = Some trampoline_page"
  by (simp add: VirtPageNum_of_VirtAddr_def VirtAddr_page_offset_def VirtAddr_floor_def VirtAddr_of_usize_def
      TRAMPOLINE_def PAGE_SIZE_def VA_WIDTH_SV39_def)

lemma fresh_user_space:
  assumes k: "kmem_inv lo k" and room: "3 \<le> frames_room k" and al: "tramp_aligned sy"
  obtains ms0 k0 ms k' where "MemorySet_new_bare k = Some (ms0, k0)" and "map_trampoline sy ms0 k0 = Some (ms, k')"
    and "kmem_inv lo k'" and "ms_inv lo {trampoline_page} k' ms" and "areas ms = []"
    and "ppns (ms_frames ms) \<inter> frames_live lo k = {}" and "frames_live lo k \<subseteq> frames_live lo k'"
    and "\<forall>p \<in> frames_live lo k. same_page (phys k) (phys k') p" and "frames_room k \<le> frames_room k' + 3"
    and "ms_entries (phys k') ms trampoline_page = Some (PageTableEntry_new (PhysAddr_floor (PhysAddr_of_usize (strampoline sy))) (PTE_R OR PTE_X OR PTE_V))"
proof -
  have r0: "0 < frames_room k" using room by simp
  from k r0 obtain pt k0 where n: "PageTable_new k = Some (pt, k0)" "kmem_inv lo k0" "pt_inv lo k0 pt"
      "pt_entries (phys k0) pt = Map.empty" "ms_inv lo {} k0 (empty_space pt)" "Suc (frames_room k0) = frames_room k"
      "frames_live lo k0 = frames_live lo k \<union> ppns (ms_frames (empty_space pt))"
      "ppns (ms_frames (empty_space pt)) \<inter> frames_live lo k = {}" by (rule new_space)
  have v: "vpn_ok trampoline_page" "2 \<le> frames_room k0" "pt_entries (phys k0) pt trampoline_page = None"
    using n(4,6) room by (simp_all add: vpn_ok_def)
  let ?p = "PhysAddr_floor (PhysAddr_of_usize (strampoline sy))"
  from n(2,3) v(2,1,3) obtain nf pt' k' where
    m: "PageTable_map trampoline_page ?p (PTE_R OR PTE_X) pt k0 = Some (pt', k')" "pt_grows lo pt k0 nf pt' k'" "length nf \<le> 2"
      "pt_entries (phys k') pt' = (pt_entries (phys k0) pt)(trampoline_page \<mapsto> PageTableEntry_new ?p (PTE_R OR PTE_X OR PTE_V))"
    by (rule PageTable_map_returns [where p = ?p and flags = "PTE_R OR PTE_X"]) (simp add: or.assoc)
  have g: "pt' = pt\<lparr>pt_frames := pt_frames pt @ nf\<rparr>" "kmem_inv lo k'" "pt_inv lo k' pt'"
      "ppns nf \<inter> frames_live lo k0 = {}" "frames_live lo k' = frames_live lo k0 \<union> ppns nf"
      "frames_room k' + length nf = frames_room k0"
      "\<And>p. ppn_ok p \<Longrightarrow> p \<notin> ppns (pt_frames pt') \<Longrightarrow> same_page (phys k0) (phys k') p"
    using m(2) unfolding pt_grows_def by blast+
  let ?ms = "empty_space pt'"
  have fr: "ms_frames (empty_space q) = pt_frames q" for q by (simp add: ms_frames_def empty_space_def)
  have inv: "ms_inv lo {trampoline_page} k' ?ms"
    using g(3) m(4) n(4) unfolding ms_inv_def fr by (simp add: empty_space_def ms_pages_def pt_inv_def)
  have new: "ppns (ms_frames ?ms) \<inter> frames_live lo k = {}"
    using n(7,8) g(1,4) unfolding fr by auto
  have same: "\<forall>p \<in> frames_live lo k. same_page (phys k) (phys k') p"
  proof
    fix p assume p: "p \<in> frames_live lo k"
    have "p \<notin> ppns (pt_frames pt')" using p new unfolding fr by blast
    then have "same_page (phys k0) (phys k') p" using live_ppn_ok [OF k p] by (intro g(7))
    then show "same_page (phys k) (phys k') p" using PageTable_new_other [OF k r0 n(1)] p by (blast intro: same_page_trans)
  qed
  have bare: "MemorySet_new_bare k = Some (empty_space pt, k0)" using n(1) by (simp add: MemorySet_new_bare_def empty_space_def)
  have tramp: "map_trampoline sy (empty_space pt) k0 = Some (?ms, k')"
    using al m(1) by (simp add: map_trampoline_def trampoline_vpn PhysPageNum_of_PhysAddr_def tramp_aligned_def empty_space_def)
  have ar: "areas ?ms = []" by (simp add: empty_space_def)
  have live: "frames_live lo k \<subseteq> frames_live lo k'" using n(7) g(5) by blast
  have rm: "frames_room k \<le> frames_room k' + 3" using n(6) g(6) m(3) by simp
  have "ms_entries (phys k') ?ms trampoline_page = Some (PageTableEntry_new ?p (PTE_R OR PTE_X OR PTE_V))"
    using m(4) by (simp add: empty_space_def)
  then show ?thesis by (rule that [OF bare tramp g(2) inv ar new live same rm])
qed

lemma fork_space:
  assumes k: "kmem_inv lo k" "ms_inv lo {trampoline_page} k us" "all_framed us" and al: "tramp_aligned sy"
    and room: "3 + 3 * sum_list (map area_size (areas us)) \<le> frames_room k"
  obtains ms k' where "from_existed_user sy us k = Some (ms, k')" and "apart lo {trampoline_page} (frames_live lo k) k' us ms"
    and "undisturbed (frames_live lo k) k k' us" and "map area_key (areas ms) = map area_key (areas us)"
    and "\<forall>v \<in> ms_pages us. page_copy (phys k) us (phys k') ms v"
    and "frames_room k \<le> frames_room k' + (3 + 3 * sum_list (map area_size (areas us)))"
proof -
  have r3: "3 \<le> frames_room k" using room by simp
  from k(1) r3 al obtain ms0 k0 ms k1 where f: "MemorySet_new_bare k = Some (ms0, k0)" "map_trampoline sy ms0 k0 = Some (ms, k1)"
      "kmem_inv lo k1" "ms_inv lo {trampoline_page} k1 ms" "areas ms = []"
      "ppns (ms_frames ms) \<inter> frames_live lo k = {}" "frames_live lo k \<subseteq> frames_live lo k1"
      "\<forall>p \<in> frames_live lo k. same_page (phys k) (phys k1) p" "frames_room k \<le> frames_room k1 + 3"
      "ms_entries (phys k1) ms trampoline_page = Some (PageTableEntry_new (PhysAddr_floor (PhysAddr_of_usize (strampoline sy))) (PTE_R OR PTE_X OR PTE_V))"
    by (rule fresh_user_space)
  have own: "ppns (ms_frames us) \<subseteq> frames_live lo k" using k(2) by (simp add: ms_inv_def)
  have same: "same_page (phys k) (phys k1) p" if "p \<in> ppns (ms_frames us)" for p using f(8) own that by blast
  have lv: "ppns (ms_frames us) \<subseteq> frames_live lo k1" using own f(7) by blast
  note und = ms_undisturbed [OF k(1,2) same lv]
  let ?L = "frames_live lo k"
  have und1: "undisturbed ?L k k1 us" using und(2) f(8) by (simp add: undisturbed_def)
  have "?L \<inter> ppns (ms_frames ms) = {}" using f(6) by blast
  then have ap: "apart lo {trampoline_page} ?L k1 us ms"
    using f(3-5,7) und(1) k(3) own by (simp add: apart_def all_framed_def)
  have z: "areas us = [] @ areas us" "map area_key (areas ms) = map area_key []"
      "\<forall>v \<in> ms_pages ms. page_copy (phys k1) us (phys k1) ms v" using f(5) by (simp_all add: ms_pages_def)
  have r1: "3 * sum_list (map area_size (areas us)) \<le> frames_room k1" using room f(9) by linarith
  obtain ms' k' where c: "copy_areas (areas us) us ms k1 = Some (ms', k')" "apart lo {trampoline_page} ?L k' us ms'"
      "undisturbed ?L k1 k' us" "map area_key (areas ms') = map area_key (areas us)"
      "\<forall>v \<in> ms_pages ms'. page_copy (phys k') us (phys k') ms' v"
      "frames_room k1 \<le> frames_room k' + 3 * sum_list (map area_size (areas us))"
    using copy_areas_returns [OF ap z r1] by blast
  have und: "undisturbed ?L k k' us" using undisturbed_trans [OF und1 c(3)] .
  have pages: "ms_pages ms' = ms_pages us" unfolding ms_pages_def by (rule keys_pages [OF c(4)])
  have "page_copy (phys k) us (phys k') ms' v" if v: "v \<in> ms_pages us" for v
  proof -
    from k v obtain e f where e: "ms_entries (phys k) us v = Some e" "(v, f) \<in> set (page_frames us)"
      "frame_ppn f = pte_ppn e" "ppn_ok (pte_ppn e)" "pte_ppn e \<in> ppns (ms_frames us)" by (rule ms_page_entry)
    have "ms_entries (phys k') us v = Some e" "get_bytes_array (phys k') (pte_ppn e) = get_bytes_array (phys k) (pte_ppn e)"
      using und e(1,5) own by (auto simp: undisturbed_def same_page_def)
    then show ?thesis using c(5) v pages e(1) by (auto simp: page_copy_def)
  qed
  moreover have "from_existed_user sy us k = Some (ms', k')" using f(1,2) c(1) by (simp add: from_existed_user_def)
  moreover have "frames_room k \<le> frames_room k' + (3 + 3 * sum_list (map area_size (areas us)))" using f(9) c(6) by linarith
  ultimately show ?thesis using that c(2,4) und by blast
qed

end
