(* ===== verification/TrapOps.thy ===== *)
theory TrapOps
  imports SchedInv
begin

text \<open>
  Trap contexts in memory: what is written is read back, and other pages are not touched;
  the frame of a system call around its handler.
\<close>

section \<open>Trap contexts\<close>

definition cx_ok :: "TrapContext \<Rightarrow> bool" where
  "cx_ok cx \<longleftrightarrow> length (cx_x cx) = 32"

lemma read_trap_cx_page:
  "read_trap_cx m p = TrapContext_of_words (words_of 8 (take TRAP_CX_SIZE (get_bytes_array m p)))"
proof -
  have "mem_get m (page_addr p) TRAP_CX_SIZE = take TRAP_CX_SIZE (get_bytes_array m p)"
    by (rule nth_equalityI) (simp_all add: get_bytes_array_def TRAP_CX_SIZE_def)
  then show ?thesis by (simp add: read_trap_cx_def)
qed

lemma read_trap_cx_same: "same_page m m' p \<Longrightarrow> read_trap_cx m' p = read_trap_cx m p"
  by (simp add: read_trap_cx_page same_page_def)

lemma read_trap_cx_ok [simp]: "cx_ok (read_trap_cx m p)"
  by (simp add: cx_ok_def read_trap_cx_def TrapContext_of_words_def TRAP_CX_SIZE_def)

lemma read_trap_cx_regs [simp]: "length (cx_x (read_trap_cx m p)) = 32"
  using read_trap_cx_ok [of m p] by (simp add: cx_ok_def)

lemma words_roundtrip: "cx_ok cx \<Longrightarrow> TrapContext_of_words (TrapContext_words cx) = cx"
  by (simp add: cx_ok_def TrapContext_of_words_def TrapContext_words_def nth_append)

lemma cx_words: "cx_ok cx \<Longrightarrow> length (TrapContext_words cx) = 37"
  by (simp add: cx_ok_def TrapContext_words_def)

lemma cx_bytes: "cx_ok cx \<Longrightarrow> length (bytes_of 8 (TrapContext_words cx)) = TRAP_CX_SIZE"
  by (simp add: cx_words TRAP_CX_SIZE_def)

lemma read_write_trap_cx:
  assumes p: "ppn_ok p" and cx: "cx_ok cx"
  shows "read_trap_cx (write_trap_cx p cx m) p = cx"
proof -
  have len: "length (bytes_of 8 (TrapContext_words cx)) = TRAP_CX_SIZE" using cx by (rule cx_bytes)
  have "get_bytes_array (write_trap_cx p cx m) p = buf_put 0 (bytes_of 8 (TrapContext_words cx)) (get_bytes_array m p)"
    unfolding write_trap_cx_def by (rule get_put_bytes_array [OF p]) (simp add: cx_words [OF cx])
  then have "take TRAP_CX_SIZE (get_bytes_array (write_trap_cx p cx m) p) = bytes_of 8 (TrapContext_words cx)"
    by (simp add: buf_put_def cx_words [OF cx] TRAP_CX_SIZE_def)
  then show ?thesis using words_roundtrip [OF cx] by (simp add: read_trap_cx_page)
qed

lemma write_trap_cx_other:
  assumes "ppn_ok p" and "ppn_ok q" and "p \<noteq> q" and "cx_ok cx"
  shows "same_page m (write_trap_cx p cx m) q"
  unfolding write_trap_cx_def
  by (rule put_bytes_other [OF assms(1-3)]) (simp add: cx_words [OF assms(4)])

lemma cx_ok_upd [simp]:
  "cx_ok (cx\<lparr>cx_sepc := v\<rparr>) \<longleftrightarrow> cx_ok cx" "cx_ok (cx\<lparr>cx_kernel_sp := v\<rparr>) \<longleftrightarrow> cx_ok cx"
  "cx_ok (cx\<lparr>cx_x := xs\<rparr>) \<longleftrightarrow> length xs = 32"
  by (simp_all add: cx_ok_def)

end
