(* ===== verification/ForkSpec.thy ===== *)
theory ForkSpec
  imports ForkOps TrapOps
begin

text \<open>
  The system call \<^verbatim>\<open>fork\<close>: the child is a copy of the caller with memory of its own, and differs
  from it in the result of the call only.
\<close>

section \<open>The kernel stack of the child\<close>

abbreviation trap_page :: VirtPageNum where
  "trap_page \<equiv> VirtPageNum 0x7FFFFFE"

lemma trap_vpn: "VirtPageNum_of_VirtAddr (VirtAddr_of_usize TRAP_CONTEXT_BASE) = Some trap_page"
  by (simp add: VirtPageNum_of_VirtAddr_def VirtAddr_page_offset_def VirtAddr_floor_def VirtAddr_of_usize_def
      TRAP_CONTEXT_BASE_def TRAMPOLINE_def PAGE_SIZE_def VA_WIDTH_SV39_def)

text \<open>The pages of the kernel stack number \<open>i\<close>.\<close>

definition kstack_pages :: "usize \<Rightarrow> VirtPageNum set" where
  "kstack_pages i = (case kernel_stack_position i of (b, t) \<Rightarrow>
     {VirtAddr_floor (VirtAddr_of_usize b)..<VirtAddr_ceil (VirtAddr_of_usize t)})"

lemma kstack_va:
  assumes i: "unat i < kstack_limit" and p: "kernel_stack_position i = (b, t)"
  shows "va_ok (VirtAddr_of_usize b) (VirtAddr_of_usize t)"
    and "unat (vpn (VirtAddr_ceil (VirtAddr_of_usize t))) - unat (vpn (VirtAddr_floor (VirtAddr_of_usize b))) = 2"
proof -
  let ?n = "unat i * 12288"
  have n: "?n \<le> 2 ^ 38" using i by (simp add: kstack_limit_def)
  have u: "unat b = 2 ^ 64 - 4096 - ?n - 8192" "unat t = 2 ^ 64 - 4096 - ?n"
    using kernel_stack_position_eq [OF i] p by simp_all
  have m: "unat (va (VirtAddr_of_usize x)) = unat x mod 2 ^ 39" for x
    unfolding of_usize_eqs by (simp add: unat_take_bit take_bit_eq_mod [where ?'a = nat])
  have w: "(x + 2 ^ 39 * 33554431) mod 2 ^ 39 = x" if "x < 2 ^ 39" for x :: nat
    using that by (simp only: mod_mult_self2 mod_less)
  have e: "unat b = (2 ^ 39 - 4096 - ?n - 8192) + 2 ^ 39 * 33554431" "unat t = (2 ^ 39 - 4096 - ?n) + 2 ^ 39 * 33554431"
    using u n by simp_all
  have v: "unat (va (VirtAddr_of_usize b)) = 2 ^ 39 - 4096 - ?n - 8192" "unat (va (VirtAddr_of_usize t)) = 2 ^ 39 - 4096 - ?n"
    unfolding m e by (rule w, simp)+
  show "va_ok (VirtAddr_of_usize b) (VirtAddr_of_usize t)"
    using v unfolding va_ok_def less_eq_VirtAddr_def word_le_nat_alt by linarith
  have "unat (vpn (VirtAddr_ceil (VirtAddr_of_usize t))) = (2 ^ 39 - 4096 - ?n + 4095) div 4096"
    using v(2) by (subst VirtAddr_ceil_39) simp_all
  moreover have "unat (vpn (VirtAddr_floor (VirtAddr_of_usize b))) = (2 ^ 39 - 4096 - ?n - 8192) div 4096"
    by (simp add: VirtAddr_floor_eq v(1))
  moreover have "2 ^ 39 - 4096 - ?n - 8192 = (134217725 - unat i * 3) * 4096"
    "2 ^ 39 - 4096 - ?n + 4095 = (134217725 - unat i * 3 + 2) * 4096 + 4095" using n by simp_all
  ultimately show "unat (vpn (VirtAddr_ceil (VirtAddr_of_usize t))) - unat (vpn (VirtAddr_floor (VirtAddr_of_usize b))) = 2"
    by simp
qed

lemma kstack_alloc_returns:
  assumes k: "kmem_inv lo (km k)" "ms_inv lo Y (km k) (kernel_space k)"
    and i: "RecycleAllocator_alloc (kstack_allocator k) = (i, a)" "unat i < kstack_limit"
    and free: "kstack_pages i \<inter> dom (ms_entries (phys (km k)) (kernel_space k)) = {}"
    and room: "6 \<le> frames_room (km k)"
  obtains ms m where "kstack_alloc k = Some (KernelStack i, k\<lparr>kstack_allocator := a, kernel_space := ms, km := m\<rparr>)"
    and "kmem_inv lo m" and "frames_live lo (km k) \<subseteq> frames_live lo m"
    and "\<forall>p \<in> frames_live lo (km k) - ppns (ms_frames (kernel_space k)). same_page (phys (km k)) (phys m) p"
proof -
  obtain b t where p: "kernel_stack_position i = (b, t)" by fastforce
  note va = kstack_va [OF i(2) p]
  have fr: "{VirtAddr_floor (VirtAddr_of_usize b)..<VirtAddr_ceil (VirtAddr_of_usize t)}
      \<inter> dom (ms_entries (phys (km k)) (kernel_space k)) = {}" using free p by (simp add: kstack_pages_def)
  have rm: "3 * (unat (vpn (VirtAddr_ceil (VirtAddr_of_usize t))) - unat (vpn (VirtAddr_floor (VirtAddr_of_usize b))))
      \<le> frames_room (km k)" using room va(2) by simp
  from k va(1) fr rm obtain ar pt' m nf fs df where
    r: "insert_framed_area (VirtAddr_of_usize b) (VirtAddr_of_usize t) (PERM_R OR PERM_W) (kernel_space k) (km k)
        = Some (\<lparr>page_table = pt', areas = areas (kernel_space k) @ [ar\<lparr>data_frames := df\<rparr>]\<rparr>, m)"
      "ms_inv lo Y m \<lparr>page_table = pt', areas = areas (kernel_space k) @ [ar\<lparr>data_frames := df\<rparr>]\<rparr>"
      "space_step lo (page_table (kernel_space k)) (km k) nf fs pt' m" "set (map snd df) = set fs"
    by (rule insert_area_returns)
  note st = space_stepD [OF r(3)]
  have sub: "ppns (pt_frames (page_table (kernel_space k))) \<subseteq> ppns (ms_frames (kernel_space k))" by (auto simp: ms_frames_def)
  have "same_page (phys (km k)) (phys m) x" if "x \<in> frames_live lo (km k) - ppns (ms_frames (kernel_space k))" for x
    by (rule space_step_other [OF r(3) k(1)]) (use that sub in blast)+
  moreover have "kstack_alloc k = Some (KernelStack i, k\<lparr>kstack_allocator := a,
      kernel_space := \<lparr>page_table = pt', areas = areas (kernel_space k) @ [ar\<lparr>data_frames := df\<rparr>]\<rparr>, km := m\<rparr>)"
    using i(1) p r(1) by (simp add: kstack_alloc_def)
  moreover have "frames_live lo (km k) \<subseteq> frames_live lo m" using st(7) by blast
  ultimately show ?thesis using that st(3) by blast
qed

section \<open>The trap context of the child\<close>

lemma trap_cx_page_entry: "ms_entries m ms trap_page = Some e \<Longrightarrow> trap_cx_page m ms = Some (pte_ppn e)"
  by (simp add: trap_cx_page_def trap_vpn translate_entry)

definition child_cx :: "usize \<Rightarrow> TrapContext \<Rightarrow> TrapContext" where
  "child_cx sp cx = cx\<lparr>cx_kernel_sp := sp, cx_x := (cx_x cx)[10 := 0]\<rparr>"

lemma child_writes:
  assumes k: "kmem_inv lo k" "ms_inv lo X k ms" "all_framed ms" and v: "v \<in> ms_pages ms" "ms_entries (phys k) ms v = Some e"
    and m1: "m1 = write_trap_cx (pte_ppn e) ((read_trap_cx (phys k) (pte_ppn e))\<lparr>cx_kernel_sp := sp\<rparr>) (phys k)"
    and m2: "m2 = write_trap_cx (pte_ppn e)
      ((read_trap_cx m1 (pte_ppn e))\<lparr>cx_x := (cx_x (read_trap_cx m1 (pte_ppn e)))[10 := 0]\<rparr>) m1"
  shows "ms_entries m2 ms = ms_entries (phys k) ms"
    and "read_trap_cx m2 (pte_ppn e) = child_cx sp (read_trap_cx (phys k) (pte_ppn e))"
    and "\<And>q. ppn_ok q \<Longrightarrow> q \<noteq> pte_ppn e \<Longrightarrow> same_page (phys k) m2 q"
    and "pte_ppn e \<in> ppns (ms_frames ms)"
    and "\<And>u d. u \<in> ms_pages ms \<Longrightarrow> u \<noteq> v \<Longrightarrow> ms_entries (phys k) ms u = Some d \<Longrightarrow> same_page (phys k) m2 (pte_ppn d)"
proof -
  from k v(1) obtain d f where d: "ms_entries (phys k) ms v = Some d" "(v, f) \<in> set (page_frames ms)"
      "frame_ppn f = pte_ppn d" "ppn_ok (pte_ppn d)" "pte_ppn d \<in> ppns (ms_frames ms)" by (rule ms_page_entry)
  have de: "d = e" using d(1) v(2) by simp
  note d = d [unfolded de]
  show "read_trap_cx m2 (pte_ppn e) = child_cx sp (read_trap_cx (phys k) (pte_ppn e))"
    unfolding m2 m1 by (simp add: read_write_trap_cx [OF d(4)] child_cx_def)
  show other: "same_page (phys k) m2 q" if q: "ppn_ok q" "q \<noteq> pte_ppn e" for q
  proof -
    have "same_page (phys k) m1 q" unfolding m1 by (rule write_trap_cx_other [OF d(4) q(1)]) (use q(2) in auto)
    moreover have "same_page m1 m2 q" unfolding m2 by (rule write_trap_cx_other [OF d(4) q(1)]) (use q(2) in auto)
    ultimately show ?thesis by (rule same_page_trans)
  qed
  show "pte_ppn e \<in> ppns (ms_frames ms)" by (rule d(5))
  have oth: "same_page (phys k) m2 q" if "ppn_ok q" "q \<noteq> frame_ppn f" for q using other that d(3) by simp
  show "ms_entries m2 ms = ms_entries (phys k) ms" by (rule ms_data_change(3) [OF k(1,2) d(2) oth])
  fix u c assume u: "u \<in> ms_pages ms" "u \<noteq> v" "ms_entries (phys k) ms u = Some c"
  from k u(1) obtain c' g where c: "ms_entries (phys k) ms u = Some c'" "(u, g) \<in> set (page_frames ms)"
      "frame_ppn g = pte_ppn c'" "ppn_ok (pte_ppn c')" "pte_ppn c' \<in> ppns (ms_frames ms)" by (rule ms_page_entry)
  have "pte_ppn c' \<noteq> pte_ppn e"
  proof
    assume "pte_ppn c' = pte_ppn e"
    then have "g = f" using c(3) d(3) by (intro frame_ppn_inj) simp
    then show False using page_frames_inj [OF k(2) c(2)] d(2) u(2) by blast
  qed
  then show "same_page (phys k) m2 (pte_ppn c)" using other c(1,4) u(3) by simp
qed

section \<open>The memory of the child\<close>

lemma page_copy_later:
  assumes "page_copy m us m1 ms v" and "ms_entries m2 ms = ms_entries m1 ms"
    and "\<And>e. ms_entries m1 ms v = Some e \<Longrightarrow> same_page m1 m2 (pte_ppn e)"
  shows "page_copy m us m2 ms v"
  using assms unfolding page_copy_def same_page_def by metis

lemma fork_memory:
  assumes L_def: "L = frames_live lo (km k) - ppns (ms_frames (kernel_space k))"
    and k: "kmem_inv lo (km k)" "ms_inv lo {trampoline_page} (km k) us" "all_framed us" and al: "tramp_aligned sy"
    and kern: "ms_inv lo Y (km k) (kernel_space k)" "ppns (ms_frames us) \<inter> ppns (ms_frames (kernel_space k)) = {}"
    and i: "RecycleAllocator_alloc (kstack_allocator k) = (i, a)" "unat i < kstack_limit"
    and free: "kstack_pages i \<inter> dom (ms_entries (phys (km k)) (kernel_space k)) = {}"
    and room: "9 + 3 * sum_list (map area_size (areas us)) \<le> frames_room (km k)"
  obtains ms m1 ks m where "from_existed_user sy us (km k) = Some (ms, m1)"
    and "kstack_alloc (k\<lparr>km := m1, pid_allocator := b\<rparr>)
      = Some (KernelStack i, k\<lparr>km := m, pid_allocator := b, kstack_allocator := a, kernel_space := ks\<rparr>)"
    and "apart lo {trampoline_page} L m us ms" and "undisturbed L (km k) m us"
    and "ms_entries (phys m) ms = ms_entries (phys m1) ms"
    and "map area_key (areas ms) = map area_key (areas us)"
    and "\<forall>v \<in> ms_pages us. page_copy (phys (km k)) us (phys m) ms v"
    and "ppns (ms_frames ms) \<inter> frames_live lo (km k) = {}"
proof -
  let ?A = "frames_live lo (km k)"
  have r3: "3 + 3 * sum_list (map area_size (areas us)) \<le> frames_room (km k)" using room by simp
  from k al r3 obtain ms m1 where f: "from_existed_user sy us (km k) = Some (ms, m1)" "apart lo {trampoline_page} ?A m1 us ms"
      "undisturbed ?A (km k) m1 us" "map area_key (areas ms) = map area_key (areas us)"
      "\<forall>v \<in> ms_pages us. page_copy (phys (km k)) us (phys m1) ms v"
      "frames_room (km k) \<le> frames_room m1 + (3 + 3 * sum_list (map area_size (areas us)))"
    by (rule fork_space)
  note ap = apartD [OF f(2)]
  have kl: "ppns (ms_frames (kernel_space k)) \<subseteq> ?A" using kern(1) by (simp add: ms_inv_def)
  have ks_same: "same_page (phys (km k)) (phys m1) p" if "p \<in> ppns (ms_frames (kernel_space k))" for p
    using f(3) kl that by (auto simp: undisturbed_def)
  have kl1: "ppns (ms_frames (kernel_space k)) \<subseteq> frames_live lo m1" using kl ap(7) by blast
  note kern1 = ms_undisturbed [OF k(1) kern(1) ks_same kl1]
  let ?k = "k\<lparr>km := m1, pid_allocator := b\<rparr>"
  have h: "kmem_inv lo (km ?k)" "ms_inv lo Y (km ?k) (kernel_space ?k)" "RecycleAllocator_alloc (kstack_allocator ?k) = (i, a)"
    "kstack_pages i \<inter> dom (ms_entries (phys (km ?k)) (kernel_space ?k)) = {}" "6 \<le> frames_room (km ?k)"
    using ap(1) kern1 i(1) free room f(6) by simp_all
  from h(1-3) i(2) h(4,5) obtain ks m where
    q: "kstack_alloc ?k = Some (KernelStack i, ?k\<lparr>kstack_allocator := a, kernel_space := ks, km := m\<rparr>)" "kmem_inv lo m"
      "frames_live lo (km ?k) \<subseteq> frames_live lo m"
      "\<forall>p \<in> frames_live lo (km ?k) - ppns (ms_frames (kernel_space ?k)). same_page (phys (km ?k)) (phys m) p"
    by (rule kstack_alloc_returns)
  have own: "ppns (ms_frames us) \<subseteq> L" "L \<subseteq> ?A" "L \<subseteq> frames_live lo m"
    using ap(6,7) kern(2) q(3) by (auto simp: L_def)
  have lv: "ppns (ms_frames ms) \<subseteq> frames_live lo m1" "ppns (ms_frames us) \<subseteq> frames_live lo m"
      "ppns (ms_frames ms) \<subseteq> frames_live lo m"
    using ap(3) own q(3) by (auto simp: ms_inv_def)
  have same: "same_page (phys m1) (phys m) p" if "p \<in> L" for p
    using q(4) that ap(7) by (auto simp: L_def)
  have us: "same_page (phys m1) (phys m) p" if "p \<in> ppns (ms_frames us)" for p using same own(1) that by blast
  have ms: "same_page (phys m1) (phys m) p" if p: "p \<in> ppns (ms_frames ms)" for p
  proof -
    have "p \<notin> ppns (ms_frames (kernel_space k))" using p kl ap(8) by blast
    then show ?thesis using q(4) p lv(1) by auto
  qed
  note us1 = ms_undisturbed [OF ap(1,2) us lv(2)]
  note ms1 = ms_undisturbed [OF ap(1,3) ms lv(3)]
  have "apart lo {trampoline_page} L m us ms"
    using q(2) us1(1) ms1(1) ap(4,5,8) own by (auto simp: apart_def)
  moreover have "undisturbed L (km k) m us"
    using f(3) us1(2) same own(2) unfolding undisturbed_def by (auto intro: same_page_trans)
  moreover have "page_copy (phys (km k)) us (phys m) ms v" if v: "v \<in> ms_pages us" for v
  proof (rule page_copy_later)
    show "page_copy (phys (km k)) us (phys m1) ms v" using f(5) v by blast
    fix e assume e: "ms_entries (phys m1) ms v = Some e"
    have vm: "v \<in> ms_pages ms" using v keys_pages [OF f(4)] by (simp add: ms_pages_def)
    from ap(1,3,5) vm obtain c g where c: "ms_entries (phys m1) ms v = Some c" "(v, g) \<in> set (page_frames ms)"
      "frame_ppn g = pte_ppn c" "ppn_ok (pte_ppn c)" "pte_ppn c \<in> ppns (ms_frames ms)" by (rule ms_page_entry)
    show "same_page (phys m1) (phys m) (pte_ppn e)" using ms [OF c(5)] c(1) e by simp
  qed (rule ms1(2))
  moreover have "kstack_alloc ?k = Some (KernelStack i, k\<lparr>km := m, pid_allocator := b, kstack_allocator := a, kernel_space := ks\<rparr>)"
    using q(1) by simp
  moreover have "ppns (ms_frames ms) \<inter> ?A = {}" using ap(8) by blast
  ultimately show ?thesis using that f(1,4) ms1(2) by blast
qed

section \<open>The system call\<close>

lemma copy_fd_table_id [simp]: "copy_fd_table fds = fds"
  unfolding copy_fd_table_def by (rule map_idI) (simp split: option.splits)

text \<open>The state after the call, from the results of its steps.\<close>

lemma sys_fork_run:
  fixes k :: "'s kernel" and e :: "'s kernel_env"
  assumes cur: "current_tcb k = Some (t, tcb)" and sp: "from_existed_user (syms e) (memory_set tcb) (km k) = Some (ms, m1)"
    and p: "trap_cx_page (phys m1) ms = Some p" and pid: "pid_alloc (pid_allocator k) = (h, b)"
    and ks: "kstack_alloc (k\<lparr>km := m1, pid_allocator := b\<rparr>)
      = Some (KernelStack i, k\<lparr>km := m, pid_allocator := b, kstack_allocator := a, kernel_space := ks\<rparr>)"
    and n1: "n1 = write_trap_cx p ((read_trap_cx (phys m) p)\<lparr>cx_kernel_sp := KernelStack_get_top (KernelStack i)\<rparr>) (phys m)"
    and n2: "n2 = write_trap_cx p ((read_trap_cx n1 p)\<lparr>cx_x := (cx_x (read_trap_cx n1 p))[10 := 0]\<rparr>) n1"
  shows "\<exists>k'. sys_fork e time k = Some (Ret (sint (pid h)), k') \<and> km k' = m\<lparr>phys := n2\<rparr> \<and>
    ready_queue (task_manager k') = ready_queue (task_manager k) @ [length (tcbs k)] \<and>
    get_tcb k' t = Some (tcb\<lparr>children := children tcb @ [length (tcbs k)]\<rparr>) \<and>
    get_tcb k' (length (tcbs k)) = Some (new_tcb e time h (KernelStack i) p (base_size tcb) ms (Some t) (fd_table tcb)
       (heap_bottom tcb) (program_brk tcb))"
proof -
  let ?tcb = "new_tcb e time h (KernelStack i) p (base_size tcb) ms (Some t) (fd_table tcb) (heap_bottom tcb) (program_brk tcb)"
  let ?c = "length (tcbs k)" and ?par = "tcb\<lparr>children := children tcb @ [length (tcbs k)]\<rparr>"
  let ?k = "k\<lparr>km := m\<lparr>phys := n2\<rparr>, pid_allocator := b, kstack_allocator := a, kernel_space := ks,
      tcbs := (tcbs k @ [Some ?tcb])[t := Some ?par], task_manager := TaskManager_add ?c (task_manager k)\<rparr>"
  have t: "t < ?c" "get_tcb k t = Some tcb" "current_task k = Some t"
    using current_tcbD [OF cur] get_tcb_length by blast+
  have "sys_fork e time k = Some (Ret (sint (pid h)), ?k)"
    using t sp p pid ks
    by (simp add: sys_fork_def TaskControlBlock_fork_def clear_a0_def set_kernel_sp_def Arc_new_def set_phys_def add_task_def
      Let_def get_tcb_def put_tcb_def new_tcb_def n1 n2)
  then show ?thesis using t
    by (intro exI [of _ ?k]) (simp add: get_tcb_def TaskManager_add_def nth_append nth_list_update)
qed

text \<open>
  C8: \<^verbatim>\<open>sys_fork\<close>, with memory for the copy and a free kernel stack, returns the identifier of a
  new process. The child is in the ready queue behind all others, is recorded as a child of
  the caller, and has its open files, its areas and, in frames of its own, its bytes and
  page permissions. Its trap context is that of the caller except for its kernel stack
  pointer and for register a0, which is 0. No page in use changes but those of the kernel's own tables.
\<close>

theorem sys_fork_copies:
  fixes k :: "'s kernel" and e :: "'s kernel_env"
  assumes cur: "current_tcb k = Some (t, tcb)" and inv: "kmem_inv lo (km k)"
    and us: "ms_inv lo {trampoline_page} (km k) (memory_set tcb)" "all_framed (memory_set tcb)"
      "trap_page \<in> ms_pages (memory_set tcb)" "trap_cx_page (phys (km k)) (memory_set tcb) = Some (trap_cx_ppn tcb)"
    and kern: "ms_inv lo Y (km k) (kernel_space k)"
      "ppns (ms_frames (memory_set tcb)) \<inter> ppns (ms_frames (kernel_space k)) = {}"
    and stack: "RecycleAllocator_alloc (kstack_allocator k) = (i, a)" "unat i < kstack_limit"
      "kstack_pages i \<inter> dom (ms_entries (phys (km k)) (kernel_space k)) = {}"
    and tramp: "tramp_aligned (syms e)"
    and room: "9 + 3 * sum_list (map area_size (areas (memory_set tcb))) \<le> frames_room (km k)"
    and pid: "pid_alloc (pid_allocator k) = (h, b)"
  shows "\<exists>k' ms p. sys_fork e time k = Some (Ret (sint (pid h)), k') \<and>
     ready_queue (task_manager k') = ready_queue (task_manager k) @ [length (tcbs k)] \<and>
     get_tcb k' t = Some (tcb\<lparr>children := children tcb @ [length (tcbs k)]\<rparr>) \<and>
     get_tcb k' (length (tcbs k)) = Some (new_tcb e time h (KernelStack i) p (base_size tcb) ms (Some t) (fd_table tcb)
       (heap_bottom tcb) (program_brk tcb)) \<and>
     map area_key (areas ms) = map area_key (areas (memory_set tcb)) \<and>
     (\<forall>v \<in> ms_pages (memory_set tcb) - {trap_page}. page_copy (phys (km k)) (memory_set tcb) (phys (km k')) ms v) \<and>
     trap_cx_page (phys (km k')) ms = Some p \<and>
     read_trap_cx (phys (km k')) p
       = child_cx (KernelStack_get_top (KernelStack i)) (read_trap_cx (phys (km k)) (trap_cx_ppn tcb)) \<and>
     ppns (ms_frames ms) \<inter> frames_live lo (km k) = {} \<and>
     undisturbed (frames_live lo (km k) - ppns (ms_frames (kernel_space k))) (km k) (km k') (memory_set tcb)"
proof -
  let ?us = "memory_set tcb" and ?c = "length (tcbs k)" and ?sp = "KernelStack_get_top (KernelStack i)"
  let ?L = "frames_live lo (km k) - ppns (ms_frames (kernel_space k))"
  from refl [of ?L] inv us(1,2) tramp kern stack room obtain ms m1 ks m where
    f: "from_existed_user (syms e) ?us (km k) = Some (ms, m1)"
      "kstack_alloc (k\<lparr>km := m1, pid_allocator := b\<rparr>)
        = Some (KernelStack i, k\<lparr>km := m, pid_allocator := b, kstack_allocator := a, kernel_space := ks\<rparr>)"
      "apart lo {trampoline_page} ?L m ?us ms" "undisturbed ?L (km k) m ?us"
      "ms_entries (phys m) ms = ms_entries (phys m1) ms" "map area_key (areas ms) = map area_key (areas ?us)"
      "\<forall>v \<in> ms_pages ?us. page_copy (phys (km k)) ?us (phys m) ms v" "ppns (ms_frames ms) \<inter> frames_live lo (km k) = {}"
    by (rule fork_memory)
  note ap = apartD [OF f(3)]
  have pages: "ms_pages ms = ms_pages ?us" unfolding ms_pages_def by (rule keys_pages [OF f(6)])
  obtain d e' where d: "ms_entries (phys (km k)) ?us trap_page = Some d" "ms_entries (phys m) ms trap_page = Some e'"
      "get_bytes_array (phys m) (pte_ppn e') = get_bytes_array (phys (km k)) (pte_ppn d)"
    using f(7) us(3) by (auto simp: page_copy_def)
  have tp: "pte_ppn d = trap_cx_ppn tcb" using trap_cx_page_entry [OF d(1)] us(4) by simp
  define n1 where "n1 = write_trap_cx (pte_ppn e') ((read_trap_cx (phys m) (pte_ppn e'))\<lparr>cx_kernel_sp := ?sp\<rparr>) (phys m)"
  define n2 where "n2 = write_trap_cx (pte_ppn e')
    ((read_trap_cx n1 (pte_ppn e'))\<lparr>cx_x := (cx_x (read_trap_cx n1 (pte_ppn e')))[10 := 0]\<rparr>) n1"
  have tpm: "trap_page \<in> ms_pages ms" using us(3) pages by simp
  note w = child_writes [OF ap(1,3,5) tpm d(2) n1_def n2_def]
  have p: "trap_cx_page (phys m1) ms = Some (pte_ppn e')" using trap_cx_page_entry d(2) f(5) by simp
  obtain k' where run: "sys_fork e time k = Some (Ret (sint (pid h)), k')" "km k' = m\<lparr>phys := n2\<rparr>"
      "ready_queue (task_manager k') = ready_queue (task_manager k) @ [?c]"
      "get_tcb k' t = Some (tcb\<lparr>children := children tcb @ [?c]\<rparr>)"
      "get_tcb k' ?c = Some (new_tcb e time h (KernelStack i) (pte_ppn e') (base_size tcb) ms (Some t) (fd_table tcb)
         (heap_bottom tcb) (program_brk tcb))"
    using sys_fork_run [OF cur f(1) p pid f(2) n1_def n2_def, of time] by blast
  have copies: "page_copy (phys (km k)) ?us n2 ms v" if v: "v \<in> ms_pages ?us" "v \<noteq> trap_page" for v
    by (rule page_copy_later [OF _ w(1)]) (use v f(7) w(5) pages in auto)
  have same: "same_page (phys m) n2 q" if q: "q \<in> ?L" for q
  proof (rule w(3))
    show "ppn_ok q" using q ap(7) by (intro live_ppn_ok [OF ap(1)]) blast
    show "q \<noteq> pte_ppn e'" using q ap(8) w(4) by blast
  qed
  have und: "undisturbed ?L m (m\<lparr>phys := n2\<rparr>) ?us"
  proof -
    have us: "same_page (phys m) (phys (m\<lparr>phys := n2\<rparr>)) q" if "q \<in> ppns (ms_frames ?us)" for q
      using same ap(6) that by auto
    have lv: "ppns (ms_frames ?us) \<subseteq> frames_live lo (m\<lparr>phys := n2\<rparr>)"
      using ap(2) by (simp add: ms_inv_def frames_live_def)
    show ?thesis using ms_undisturbed(2) [OF ap(1,2) us lv] same by (simp add: undisturbed_def)
  qed
  have cx: "read_trap_cx n2 (pte_ppn e') = child_cx ?sp (read_trap_cx (phys (km k)) (trap_cx_ppn tcb))"
    using w(2) d(3) tp by (simp add: read_trap_cx_page)
  have "trap_cx_page n2 ms = Some (pte_ppn e')" using trap_cx_page_entry d(2) w(1) by simp
  then show ?thesis
    using run copies cx undisturbed_trans [OF f(4) und] f(6,8)
    by (intro exI [of _ k'] exI [of _ ms] exI [of _ "pte_ppn e'"]) simp
qed

lemma example_trap_va:
  "va_ok (VirtAddr 0x7FFFFFE000) (VirtAddr 0x7FFFFFF000)" "VirtAddr_floor (VirtAddr 0x7FFFFFE000) = trap_page"
  "VirtAddr_ceil (VirtAddr 0x7FFFFFF000) = trampoline_page" "{trap_page..<trampoline_page} = {trap_page}"
proof -
  show "{trap_page..<trampoline_page} = {trap_page}"
  proof (rule set_eqI)
    fix v :: VirtPageNum
    obtain n where v: "v = VirtPageNum n" by (cases v)
    have "0x7FFFFFE \<le> n \<and> n < 0x7FFFFFF \<longleftrightarrow> n = 0x7FFFFFE"
      by (auto simp: word_le_nat_alt word_less_nat_alt word_unat_eq_iff)
    then show "v \<in> {trap_page..<trampoline_page} \<longleftrightarrow> v \<in> {trap_page}"
      by (simp add: v less_eq_VirtPageNum_def less_VirtPageNum_def)
  qed
qed (simp_all add: va_ok_def less_eq_VirtAddr_def VirtAddr_floor_def VirtAddr_ceil_def PAGE_SIZE_def)

lemma example_tramp: "tramp_aligned (syms (example_env B E))"
  by (simp add: tramp_aligned_def example_env_def PhysAddr_page_offset_def PhysAddr_of_usize_def)

lemma example_fork:
  "\<exists>m ks us d. kmem_inv 16 m \<and> ms_inv 16 {} m ks \<and> ms_entries (phys m) ks = Map.empty \<and>
     ms_inv 16 {trampoline_page} m us \<and> all_framed us \<and> trap_page \<in> ms_pages us \<and>
     ms_entries (phys m) us trap_page = Some d \<and> ppns (ms_frames us) \<inter> ppns (ms_frames ks) = {} \<and>
     sum_list (map area_size (areas us)) = 1 \<and> 12 \<le> frames_room m"
proof -
  fix B :: "unit block_ops" and E
  have r0: "0 < frames_room small_mem" using small_mem_ok(2) by simp
  from small_mem_ok(1) r0 obtain pt k where k: "PageTable_new small_mem = Some (pt, k)" "kmem_inv 16 k" "pt_inv 16 k pt"
      "pt_entries (phys k) pt = Map.empty" "ms_inv 16 {} k (empty_space pt)" "Suc (frames_room k) = frames_room small_mem"
    by (rule new_space)
  let ?ks = "empty_space pt"
  have r1: "3 \<le> frames_room k" using k(6) small_mem_ok(2) by simp
  from k(2) r1 example_tramp obtain ms0 k0 ms k1 where f: "MemorySet_new_bare k = Some (ms0, k0)" "map_trampoline (syms (example_env B E)) ms0 k0 = Some (ms, k1)"
      "kmem_inv 16 k1" "ms_inv 16 {trampoline_page} k1 ms" "areas ms = []" "ppns (ms_frames ms) \<inter> frames_live 16 k = {}"
      "frames_live 16 k \<subseteq> frames_live 16 k1" "\<forall>p \<in> frames_live 16 k. same_page (phys k) (phys k1) p"
      "frames_room k \<le> frames_room k1 + 3" "ms_entries (phys k1) ms trampoline_page
        = Some (PageTableEntry_new (PhysAddr_floor (PhysAddr_of_usize (strampoline (syms (example_env B E))))) (PTE_R OR PTE_X OR PTE_V))"
    by (rule fresh_user_space)
  have own: "ppns (ms_frames ?ks) \<subseteq> frames_live 16 k" using k(5) by (simp add: ms_inv_def)
  have s1: "same_page (phys k) (phys k1) p" if "p \<in> ppns (ms_frames ?ks)" for p using f(8) own that by blast
  note ks1 = ms_undisturbed [OF k(2,5) s1 subset_trans [OF own f(7)]]
  have d1: "dom (ms_entries (phys k1) ms) = {trampoline_page}" using f(4,5) by (simp add: ms_inv_def ms_pages_def)
  have h: "{VirtAddr_floor (VirtAddr 0x7FFFFFE000)..<VirtAddr_ceil (VirtAddr 0x7FFFFFF000)} \<inter> dom (ms_entries (phys k1) ms) = {}"
    "3 * (unat (vpn (VirtAddr_ceil (VirtAddr 0x7FFFFFF000))) - unat (vpn (VirtAddr_floor (VirtAddr 0x7FFFFFE000)))) \<le> frames_room k1"
    using k(6) small_mem_ok(2) f(9) unfolding example_trap_va d1 by simp_all
  from f(3,4) example_trap_va(1) h obtain a pt' m nf fs df where
    r: "insert_framed_area (VirtAddr 0x7FFFFFE000) (VirtAddr 0x7FFFFFF000) 6 ms k1
        = Some (\<lparr>page_table = pt', areas = areas ms @ [a\<lparr>data_frames := df\<rparr>]\<rparr>, m)"
      "ms_inv 16 {trampoline_page} m \<lparr>page_table = pt', areas = areas ms @ [a\<lparr>data_frames := df\<rparr>]\<rparr>"
      "space_step 16 (page_table ms) k1 nf fs pt' m" "set (map snd df) = set fs"
      "area_pages a = {VirtAddr_floor (VirtAddr 0x7FFFFFE000)..<VirtAddr_ceil (VirtAddr 0x7FFFFFF000)}" "map_type a = Framed"
      "get_start (vpn_range a) = VirtAddr_floor (VirtAddr 0x7FFFFFE000)" "get_end (vpn_range a) = VirtAddr_ceil (VirtAddr 0x7FFFFFF000)"
    by (rule insert_area_returns)
  let ?us = "\<lparr>page_table = pt', areas = areas ms @ [a\<lparr>data_frames := df\<rparr>]\<rparr>"
  note st = space_stepD [OF r(3)]
  have sub: "ppns (pt_frames (page_table ms)) \<subseteq> ppns (ms_frames ms)" by (auto simp: ms_frames_def)
  have s2: "same_page (phys k1) (phys m) p" if p: "p \<in> ppns (ms_frames ?ks)" for p
  proof (rule space_step_other [OF r(3) f(3)])
    have pk: "p \<in> frames_live 16 k" using p own by (rule set_mp [rotated])
    then show "p \<in> frames_live 16 k1" using f(7) by (rule set_mp [rotated])
    show "p \<notin> ppns (pt_frames (page_table ms))" using pk f(6) sub by blast
  qed
  have lm: "ppns (ms_frames ?ks) \<subseteq> frames_live 16 m"
    using subset_trans [OF own f(7)] unfolding st(7) by (rule le_supI1)
  note ks2 = ms_undisturbed [OF f(3) ks1(1) s2 lm]
  have "set (area_frames (a\<lparr>data_frames := df\<rparr>)) = set fs" using r(4) by (simp add: area_frames_def)
  then have "ppns (ms_frames ?us) = ppns (ms_frames ms) \<union> ppns (nf @ fs)" using st(1) by (auto simp: ms_frames_def image_Un)
  then have disj: "ppns (ms_frames ?us) \<inter> ppns (ms_frames ?ks) = {}" using own f(6,7) st(6) by blast
  have pg: "trap_page \<in> ms_pages ?us" using r(5) unfolding example_trap_va by (simp add: ms_pages_def area_pages_def)
  have "dom (ms_entries (phys m) ?us) = {trampoline_page} \<union> ms_pages ?us" using r(2) by (simp only: ms_inv_def)
  then obtain d where d: "ms_entries (phys m) ?us trap_page = Some d" using pg by blast
  have "frames_room k1 \<le> frames_room m + 3"
    using insert_area_room [OF f(3,4) example_trap_va(1) h r(1)] unfolding example_trap_va by simp
  then have "12 \<le> frames_room m" using k(6) small_mem_ok(2) f(9) by simp
  moreover have "sum_list (map area_size (areas ?us)) = 1" using r(7,8) f(5) by (simp add: example_trap_va)
  moreover have "all_framed ?us" using f(5) r(6) by (simp add: all_framed_def)
  moreover have "ms_entries (phys m) ?ks = Map.empty" using ks1(2) ks2(2) k(4) by (simp add: empty_space_def)
  ultimately show ?thesis using st(3) ks2(1) r(2) pg d disj
    by (intro exI [of _ m] exI [of _ ?ks] exI [of _ ?us] exI [of _ d]) simp
qed

theorem sys_fork_copies_witness:
  "\<exists>(e :: unit kernel_env) (k :: unit kernel) k' ms p. sys_fork e 0 k = Some (Ret 2, k') \<and>
     trap_cx_page (phys (km k')) ms = Some p \<and> ready_queue (task_manager k') = [0, 2]"
proof -
  fix B E f
  obtain m ks us d where x: "kmem_inv 16 m" "ms_inv 16 {} m ks" "ms_entries (phys m) ks = Map.empty"
     "ms_inv 16 {trampoline_page} m us" "all_framed us" "trap_page \<in> ms_pages us"
     "ms_entries (phys m) us trap_page = Some d" "ppns (ms_frames us) \<inter> ppns (ms_frames ks) = {}"
     "sum_list (map area_size (areas us)) = 1" "12 \<le> frames_room m"
    using example_fork by blast
  let ?k = "(example_kernel m (pte_ppn d) us f ())\<lparr>kernel_space := ks\<rparr>" and ?tcb = "example_tcb (pte_ppn d) us"
  have cur: "current_tcb ?k = Some (1, ?tcb)"
    by (simp add: current_tcb_def current_task_def get_tcb_def example_kernel_def)
  have stk: "RecycleAllocator_alloc (kstack_allocator ?k) = (2, \<lparr>ra_current = 3, ra_recycled = []\<rparr>)"
    "pid_alloc (pid_allocator ?k) = (PidHandle 2, \<lparr>ra_current = 3, ra_recycled = []\<rparr>)" "unat (2 :: usize) < kstack_limit"
    by (simp_all add: RecycleAllocator_alloc_def pid_alloc_def example_kernel_def kstack_limit_def)
  have q: "kmem_inv 16 (km ?k)" "ms_inv 16 {trampoline_page} (km ?k) (memory_set ?tcb)" "all_framed (memory_set ?tcb)"
    "trap_page \<in> ms_pages (memory_set ?tcb)" "trap_cx_page (phys (km ?k)) (memory_set ?tcb) = Some (trap_cx_ppn ?tcb)"
    "ms_inv 16 {} (km ?k) (kernel_space ?k)" "ppns (ms_frames (memory_set ?tcb)) \<inter> ppns (ms_frames (kernel_space ?k)) = {}"
    "kstack_pages 2 \<inter> dom (ms_entries (phys (km ?k)) (kernel_space ?k)) = {}"
    "9 + 3 * sum_list (map area_size (areas (memory_set ?tcb))) \<le> frames_room (km ?k)"
    using x trap_cx_page_entry [OF x(7)] by simp_all
  have "ready_queue (task_manager ?k) @ [length (tcbs ?k)] = [0, 2]" by (simp add: example_kernel_def)
  moreover have "sint (pid (PidHandle 2)) = 2" by simp
  ultimately show ?thesis
    using sys_fork_copies [OF cur q(1-7) stk(1,3) q(8) example_tramp [of B E] q(9) stk(2), of 0] by metis
qed

end
