(* ===== verification/LifeOps.thy ===== *)
theory LifeOps
  imports ForkSpec
begin

text \<open>
  The end of a process: dropping address spaces and kernel stacks, handing the children
  over to the initial process, and the reference counts of tasks.
\<close>

section \<open>Dropping address spaces\<close>

lemma drop_frames_append: "drop_frames (xs @ ys) k = Option.bind (drop_frames xs k) (drop_frames ys)"
  by (induction xs arbitrary: k) (simp_all split: bind_splits)

lemma drop_areas_eq: "drop_areas as k = drop_frames (concat (map area_frames as)) k"
  by (induction as arbitrary: k) (auto simp: drop_frames_append MapArea_drop_def area_frames_def split: bind_splits)

lemma MemorySet_drop_eq: "MemorySet_drop ms k = drop_frames (ms_frames ms) k"
  by (simp add: MemorySet_drop_def PageTable_drop_def drop_areas_eq [abs_def] drop_frames_append ms_frames_def)

section \<open>The children of a process\<close>

lemma reparent_returns:
  assumes "get_tcb k i = Some ini" and "i \<notin> set cs" and "\<forall>c \<in> set cs. get_tcb k c \<noteq> None"
  shows "\<exists>T. reparent i cs k = Some (k\<lparr>tcbs := T\<rparr>) \<and> length T = length (tcbs k) \<and>
    get_tcb (k\<lparr>tcbs := T\<rparr>) i = Some (ini\<lparr>children := children ini @ cs\<rparr>) \<and>
    (\<forall>c \<in> set cs. get_tcb (k\<lparr>tcbs := T\<rparr>) c = map_option (\<lambda>tcb. tcb\<lparr>parent := Some i\<rparr>) (get_tcb k c)) \<and>
    (\<forall>u. u \<noteq> i \<longrightarrow> u \<notin> set cs \<longrightarrow> get_tcb (k\<lparr>tcbs := T\<rparr>) u = get_tcb k u)"
  using assms
proof (induction cs arbitrary: k ini)
  case Nil
  then show ?case by (intro exI [of _ "tcbs k"]) simp
next
  case (Cons c cs)
  obtain child where c: "get_tcb k c = Some child" "c \<noteq> i" using Cons.prems by auto
  let ?k1 = "put_tcb c (child\<lparr>parent := Some i\<rparr>) k"
  let ?k2 = "put_tcb i (ini\<lparr>children := children ini @ [c]\<rparr>) ?k1"
  have len: "c < length (tcbs k)" "i < length (tcbs k)" using c(1) Cons.prems(1) by (auto dest: get_tcb_length)
  have i1: "get_tcb ?k1 i = Some ini" using c(2) Cons.prems(1) by (simp add: get_put_tcb)
  have at: "get_tcb ?k2 u = (if u = i then Some (ini\<lparr>children := children ini @ [c]\<rparr>)
      else if u = c then Some (child\<lparr>parent := Some i\<rparr>) else get_tcb k u)" for u
    using len by (auto simp: get_tcb_def put_tcb_def nth_list_update)
  have p: "get_tcb ?k2 i = Some (ini\<lparr>children := children ini @ [c]\<rparr>)" "i \<notin> set cs" "\<forall>d \<in> set cs. get_tcb ?k2 d \<noteq> None"
    using Cons.prems(2,3) unfolding at by simp_all
  obtain T where T: "reparent i cs ?k2 = Some (?k2\<lparr>tcbs := T\<rparr>)" "length T = length (tcbs ?k2)"
      "get_tcb (?k2\<lparr>tcbs := T\<rparr>) i = Some (ini\<lparr>children := children ini @ [c] @ cs\<rparr>)"
      "\<forall>d \<in> set cs. get_tcb (?k2\<lparr>tcbs := T\<rparr>) d = map_option (\<lambda>tcb. tcb\<lparr>parent := Some i\<rparr>) (get_tcb ?k2 d)"
      "\<forall>u. u \<noteq> i \<longrightarrow> u \<notin> set cs \<longrightarrow> get_tcb (?k2\<lparr>tcbs := T\<rparr>) u = get_tcb ?k2 u"
    using Cons.IH [OF p] by auto
  have k2: "?k2\<lparr>tcbs := T\<rparr> = k\<lparr>tcbs := T\<rparr>" by (simp add: put_tcb_def)
  have "reparent i (c # cs) k = Some (k\<lparr>tcbs := T\<rparr>)" using c(1) i1 T(1) k2 by simp
  moreover have "get_tcb (k\<lparr>tcbs := T\<rparr>) d = map_option (\<lambda>tcb. tcb\<lparr>parent := Some i\<rparr>) (get_tcb k d)"
    if "d \<in> set (c # cs)" for d
  proof (cases "d \<in> set cs")
    case True
    then show ?thesis using T(4) Cons.prems(2) c(1) unfolding k2 at by auto
  next
    case False
    then show ?thesis using T(5) that c unfolding k2 at by auto
  qed
  moreover have "get_tcb (k\<lparr>tcbs := T\<rparr>) u = get_tcb k u" if "u \<noteq> i" "u \<notin> set (c # cs)" for u
    using T(5) that unfolding k2 at by auto
  moreover have "length T = length (tcbs k)" using T(2) by (simp add: put_tcb_def)
  ultimately show ?case using T(3) unfolding k2 by auto
qed

section \<open>Reference counts\<close>

lemma strong_count_child:
  assumes "get_tcb k p = Some tcb" and "t \<in> set (children tcb)"
  shows "0 < strong_count k t"
proof -
  have "Some tcb \<in> set (tcbs k)" using assms(1) by (auto simp: get_tcb_def in_set_conv_nth split: if_splits)
  moreover have "0 < count_list (children tcb) t" using assms(2) count_list_0_iff [of "children tcb" t] by simp
  ultimately show ?thesis unfolding strong_count_def
    by (force simp: sum_list_eq_0_iff intro!: gr0I)
qed

lemma drop_arcs_held: "\<forall>t \<in> set ts. 0 < strong_count k t \<Longrightarrow> drop_arcs ts k = Some k"
  by (induction ts) (subst drop_arcs.simps, simp)+

lemma count_list_remove:
  "n < length xs \<Longrightarrow> Suc (count_list (take n xs @ drop (Suc n) xs) (xs ! n)) = count_list xs (xs ! n)"
  by (subst (2) id_take_nth_drop [of n xs]) simp_all

lemma sum_list_replace:
  fixes f :: "'a \<Rightarrow> nat"
  assumes "t < length xs"
  shows "sum_list (map f (xs[t := y])) + f (xs ! t) = sum_list (map f xs) + f y"
  using assms by (subst (2) id_take_nth_drop [of t xs]) (simp_all add: upd_conv_take_nth_drop)

text \<open>Taking a child out of the list of its parent releases one reference to it.\<close>

lemma strong_count_take_child:
  assumes t: "get_tcb k t = Some tcb" and n: "n < length (children tcb)"
  shows "Suc (strong_count (put_tcb t (tcb\<lparr>children := take n (children tcb) @ drop (Suc n) (children tcb)\<rparr>) k)
      (children tcb ! n)) = strong_count k (children tcb ! n)"
proof -
  let ?c = "children tcb ! n" and ?tcb = "tcb\<lparr>children := take n (children tcb) @ drop (Suc n) (children tcb)\<rparr>"
  let ?f = "\<lambda>x. case x of None \<Rightarrow> 0 | Some tcb \<Rightarrow> count_list (children tcb) ?c"
  have l: "t < length (tcbs k)" "tcbs k ! t = Some tcb" using t by (auto simp: get_tcb_def split: if_splits)
  have "sum_list (map ?f ((tcbs k)[t := Some ?tcb])) + count_list (children tcb) ?c
      = sum_list (map ?f (tcbs k)) + count_list (children ?tcb) ?c"
    using sum_list_replace [OF l(1), of ?f "Some ?tcb"] l(2) by simp
  then show ?thesis using count_list_remove [OF n] by (simp add: strong_count_def put_tcb_def)
qed

lemma strong_count_set_phys [simp]: "strong_count (set_phys m k) t = strong_count k t"
  by (simp add: strong_count_def set_phys_def)

section \<open>Storing a value at a user address\<close>

abbreviation page_of :: "nat \<Rightarrow> VirtPageNum" where
  "page_of x \<equiv> VirtPageNum (of_nat (x div 4096))"

text \<open>The bytes of a user within one page.\<close>

lemma user_bytes_page:
  assumes e: "ms_entries m ms (page_of x) = Some e" and n: "x mod 4096 + n \<le> 4096"
  shows "user_bytes m ms x n = take n (drop (x mod 4096) (get_bytes_array m (pte_ppn e)))"
proof (rule nth_equalityI)
  show len: "length (user_bytes m ms x n) = length (take n (drop (x mod 4096) (get_bytes_array m (pte_ppn e))))"
    using n by simp
  fix i assume "i < length (user_bytes m ms x n)"
  then have i: "i < n" by simp
  have s: "x + i = (x mod 4096 + i) + x div 4096 * 4096" using div_mult_mod_eq [of x 4096] by linarith
  have lt: "x mod 4096 + i < 4096" using i n by linarith
  have "(x + i) div 4096 = x div 4096" by (subst s, subst div_mult_self1) (use div_less [OF lt] in simp_all)
  moreover have "(x + i) mod 4096 = x mod 4096 + i" by (subst s) (simp only: mod_mult_self1 mod_less [OF lt])
  ultimately have "user_phys m ms (x + i) = Some (page_addr (pte_ppn e) + of_nat (x mod 4096 + i))"
    using e unfolding user_phys_def by simp
  then show "user_bytes m ms x n ! i = take n (drop (x mod 4096) (get_bytes_array m (pte_ppn e))) ! i"
    using i n by (simp add: user_bytes_def user_addrs_def get_bytes_array_def)
qed

lemma user_store:
  assumes k: "kmem_inv lo k" "ms_inv lo X k ms" "all_framed ms" and v: "page_of (unat ptr) \<in> ms_pages ms"
    and fits: "unat ptr < 2 ^ 38" "unat ptr mod 4096 + length bs \<le> 4096"
  obtains a d where "translated_refmut (phys k) (MemorySet_token ms) ptr = Some a"
    and "ms_entries (phys k) ms (page_of (unat ptr)) = Some d" and "pte_ppn d \<in> ppns (ms_frames ms)"
    and "\<forall>q. ppn_ok q \<longrightarrow> q \<noteq> pte_ppn d \<longrightarrow> same_page (phys k) (PhysAddr_set_mut a bs (phys k)) q"
    and "ms_inv lo X (k\<lparr>phys := PhysAddr_set_mut a bs (phys k)\<rparr>) ms"
    and "ms_entries (PhysAddr_set_mut a bs (phys k)) ms = ms_entries (phys k) ms"
    and "user_bytes (PhysAddr_set_mut a bs (phys k)) ms (unat ptr) (length bs) = bs"
proof -
  let ?x = "unat ptr"
  from k v obtain d f where d: "ms_entries (phys k) ms (page_of ?x) = Some d" "(page_of ?x, f) \<in> set (page_frames ms)"
      "frame_ppn f = pte_ppn d" "ppn_ok (pte_ppn d)" "pte_ppn d \<in> ppns (ms_frames ms)" by (rule ms_page_entry)
  have "user_phys (phys k) ms ?x = Some (page_addr (pte_ppn d) + of_nat (?x mod 4096))"
    using d(1) by (simp add: user_phys_def)
  from phys_of_user [OF k(1,2) fits(1) this] obtain a where
    a: "translated_refmut (phys k) (MemorySet_token ms) ptr = Some a" "pa a = page_addr (pte_ppn d) + of_nat (?x mod 4096)"
    by (auto simp: phys_of_def translated_refmut_def)
  let ?m = "PhysAddr_set_mut a bs (phys k)"
  have m: "?m = put_bytes_array (pte_ppn d) (?x mod 4096) bs (phys k)"
    using a(2) by (simp add: PhysAddr_set_mut_def put_bytes_array_def)
  have other: "same_page (phys k) ?m q" if "ppn_ok q" "q \<noteq> pte_ppn d" for q
    unfolding m using put_bytes_other [OF d(4) that(1)] that(2) fits(2) by auto
  have oth: "same_page (phys k) ?m q" if "ppn_ok q" "q \<noteq> frame_ppn f" for q using other that d(3) by simp
  note keep = ms_data_change [OF k(1,2) d(2) oth]
  have e: "ms_entries ?m ms (page_of ?x) = Some d" using keep(3) d(1) by simp
  have "user_bytes ?m ms ?x (length bs) = bs"
    unfolding user_bytes_page [OF e fits(2)] unfolding m get_put_bytes_array [OF d(4) fits(2)]
    using fits(2) by (simp add: buf_put_def)
  then show ?thesis using that a(1) d(1,5) other keep(2,3) by blast
qed

section \<open>The kernel stack of a task\<close>

definition kstack_area :: "usize \<Rightarrow> MapArea \<Rightarrow> bool" where
  "kstack_area i a \<longleftrightarrow> get_start (vpn_range a) = VirtAddr_floor (VirtAddr_of_usize (fst (kernel_stack_position i)))"

lemma kstack_bottom_vpn:
  assumes "unat i < kstack_limit"
  shows "VirtPageNum_of_VirtAddr (VirtAddr_of_usize (fst (kernel_stack_position i)))
    = Some (VirtAddr_floor (VirtAddr_of_usize (fst (kernel_stack_position i))))"
proof -
  let ?b = "fst (kernel_stack_position i)"
  have n: "unat i * 12288 \<le> 2 ^ 38" using assms by (simp add: kstack_limit_def)
  have "unat ?b = 2 ^ 64 - 4096 - unat i * 12288 - 8192" using kernel_stack_position_eq [OF assms] by simp
  then have "unat ?b = (4503599627370493 - unat i * 3) * 4096" using n by simp
  then have "unat ?b mod 4096 = 0" by simp
  moreover have "unat (VirtAddr_page_offset (VirtAddr_of_usize ?b)) = unat ?b mod 4096"
    unfolding VirtAddr_page_offset_def of_usize_eqs page_offset_take_bit by (simp add: unat_take_bit)
  ultimately have "VirtAddr_page_offset (VirtAddr_of_usize ?b) = 0" by (simp add: unat_eq_0)
  then show ?thesis by (simp add: VirtPageNum_of_VirtAddr_def)
qed

lemma KernelStack_drop_returns:
  assumes k: "kmem_inv lo (km k)" "ms_inv lo Y (km k) (kernel_space k)"
    and j: "find_idx (kstack_area i) (areas (kernel_space k)) = Some j" "map_type (areas (kernel_space k) ! j) = Framed"
    and i: "unat i < kstack_limit" "ra_inv (kstack_allocator k)" "i \<in> ra_live (kstack_allocator k)"
  obtains ms m a where "KernelStack_drop (KernelStack i) k = Some (k\<lparr>kernel_space := ms, km := m, kstack_allocator := a\<rparr>)"
    and "kmem_inv lo m" and "ms_inv lo Y m ms"
    and "frames_live lo m = frames_live lo (km k) - ppns (area_frames (areas (kernel_space k) ! j))"
    and "frames_room m = frames_room (km k) + length (area_frames (areas (kernel_space k) ! j))"
    and "\<forall>p. ppn_ok p \<longrightarrow> p \<notin> ppns (ms_frames (kernel_space k)) \<longrightarrow> same_page (phys (km k)) (phys m) p"
    and "ra_inv a" and "ra_live a = ra_live (kstack_allocator k) - {i}"
proof -
  let ?ks = "kernel_space k"
  obtain b t where p: "kernel_stack_position i = (b, t)" by fastforce
  from k j obtain m where m: "remove_area_loop (kstack_area i) (areas ?ks) (page_table ?ks) (km k)
        = Some (Some (take j (areas ?ks) @ drop (Suc j) (areas ?ks)), m)"
      "shrink_step lo (page_table ?ks) (km k) (area_frames (areas ?ks ! j)) m"
      "ms_inv lo Y m (?ks\<lparr>areas := take j (areas ?ks) @ drop (Suc j) (areas ?ks)\<rparr>)"
    by (rule remove_area_returns)
  have P: "(\<lambda>area. get_start (vpn_range area) = VirtAddr_floor (VirtAddr_of_usize b)) = kstack_area i"
    using p by (simp add: fun_eq_iff kstack_area_def)
  have rm: "remove_area_with_start_vpn (VirtAddr_floor (VirtAddr_of_usize b)) ?ks (km k)
      = Some (?ks\<lparr>areas := take j (areas ?ks) @ drop (Suc j) (areas ?ks)\<rparr>, m)"
    unfolding remove_area_with_start_vpn_def P using m(1) by simp
  obtain a where a: "RecycleAllocator_dealloc i (kstack_allocator k) = Some a" "ra_inv a"
      "ra_live a = ra_live (kstack_allocator k) - {i}" using i(2,3) by (rule ra.deallocE)
  have "KernelStack_drop (KernelStack i) k
      = Some (k\<lparr>kernel_space := ?ks\<lparr>areas := take j (areas ?ks) @ drop (Suc j) (areas ?ks)\<rparr>, km := m, kstack_allocator := a\<rparr>)"
    using p kstack_bottom_vpn [OF i(1)] rm a(1) by (simp add: KernelStack_drop_def)
  moreover have "same_page (phys (km k)) (phys m) q" if q: "ppn_ok q" "q \<notin> ppns (ms_frames ?ks)" for q
    using m(2) q by (auto simp: shrink_step_def ms_frames_def)
  ultimately show ?thesis using that m(2,3) a(2,3) by (auto simp: shrink_step_def)
qed

text \<open>What remains of a task that has exited: its identifier, its kernel stack and its page table.\<close>

lemma free_task_returns:
  fixes k :: "'s kernel"
  assumes k: "kmem_inv lo (km k)" "ms_inv lo Y (km k) (kernel_space k)" and tcb: "get_tcb k t = Some tcb"
    and j: "find_idx (kstack_area i) (areas (kernel_space k)) = Some j" "map_type (areas (kernel_space k) ! j) = Framed"
    and i: "kernel_stack tcb = KernelStack i" "unat i < kstack_limit" "ra_inv (kstack_allocator k)" "i \<in> ra_live (kstack_allocator k)"
    and pid: "ra_inv (pid_allocator k)" "pid (tcb_pid tcb) \<in> ra_live (pid_allocator k)"
    and fr: "distinct (ms_frames (memory_set tcb))" "ppns (ms_frames (memory_set tcb)) \<subseteq> frames_live lo (km k)"
      "ppns (ms_frames (memory_set tcb)) \<inter> ppns (ms_frames (kernel_space k)) = {}"
  obtains k' where "free_task t k = Some (children tcb, k')"
    and "k' = k\<lparr>kernel_space := kernel_space k', km := km k', kstack_allocator := kstack_allocator k',
      pid_allocator := pid_allocator k', tcbs := (tcbs k)[t := None]\<rparr>"
    and "kmem_inv lo (km k')"
    and "frames_live lo (km k') = frames_live lo (km k) - ppns (area_frames (areas (kernel_space k) ! j))
      - ppns (ms_frames (memory_set tcb))"
    and "\<forall>p. ppn_ok p \<longrightarrow> p \<notin> ppns (ms_frames (kernel_space k)) \<longrightarrow> same_page (phys (km k)) (phys (km k')) p"
    and "ra_live (kstack_allocator k') = ra_live (kstack_allocator k) - {i}"
    and "ra_live (pid_allocator k') = ra_live (pid_allocator k) - {pid (tcb_pid tcb)}"
proof -
  obtain a where a: "RecycleAllocator_dealloc (pid (tcb_pid tcb)) (pid_allocator k) = Some a" "ra_inv a"
      "ra_live a = ra_live (pid_allocator k) - {pid (tcb_pid tcb)}" using pid by (rule ra.deallocE)
  let ?k = "k\<lparr>pid_allocator := a\<rparr>"
  have h: "kmem_inv lo (km ?k)" "ms_inv lo Y (km ?k) (kernel_space ?k)" "find_idx (kstack_area i) (areas (kernel_space ?k)) = Some j"
    "map_type (areas (kernel_space ?k) ! j) = Framed" "ra_inv (kstack_allocator ?k)" "i \<in> ra_live (kstack_allocator ?k)"
    using k j i(3,4) by simp_all
  from h(1-4) i(2) h(5,6) obtain ms m b where
    d: "KernelStack_drop (KernelStack i) ?k = Some (?k\<lparr>kernel_space := ms, km := m, kstack_allocator := b\<rparr>)" "kmem_inv lo m"
      "ms_inv lo Y m ms" "frames_live lo m = frames_live lo (km ?k) - ppns (area_frames (areas (kernel_space ?k) ! j))"
      "frames_room m = frames_room (km ?k) + length (area_frames (areas (kernel_space ?k) ! j))"
      "\<forall>p. ppn_ok p \<longrightarrow> p \<notin> ppns (ms_frames (kernel_space ?k)) \<longrightarrow> same_page (phys (km ?k)) (phys m) p"
      "ra_inv b" "ra_live b = ra_live (kstack_allocator ?k) - {i}"
    by (rule KernelStack_drop_returns)
  have "j < length (areas (kernel_space k))" using find_idx_SomeD [OF j(1)] by simp
  then have "set (area_frames (areas (kernel_space k) ! j)) \<subseteq> set (ms_frames (kernel_space k))"
    by (auto simp: ms_frames_def)
  then have "ppns (ms_frames (memory_set tcb)) \<inter> ppns (area_frames (areas (kernel_space k) ! j)) = {}"
    using fr(3) by blast
  then have "frame_ppn ` set (ms_frames (memory_set tcb)) \<subseteq> frames_live lo m" using fr(2) d(4) by auto
  from drop_frames_returns [OF d(2) fr(1) this] obtain n where
    n: "drop_frames (ms_frames (memory_set tcb)) m = Some n" "kmem_inv lo n" "phys n = phys m"
      "frames_live lo n = frames_live lo m - frame_ppn ` set (ms_frames (memory_set tcb))" by blast
  have "free_task t k = Some (children tcb, k\<lparr>pid_allocator := a, kernel_space := ms, km := n, kstack_allocator := b,
      tcbs := (tcbs k)[t := None]\<rparr>)"
    using tcb a(1) d(1) n(1) i(1) by (simp add: free_task_def PidHandle_drop_def MemorySet_drop_eq)
  then show ?thesis using that [of "k\<lparr>pid_allocator := a, kernel_space := ms, km := n, kstack_allocator := b,
      tcbs := (tcbs k)[t := None]\<rparr>"] a(3) d(4,6,8) n(2-4) by simp
qed

section \<open>Several address spaces\<close>

text \<open>Address spaces with one owner for each frame, and how one more is made or grows.\<close>

definition spaces_ok :: "usize \<Rightarrow> kmem \<Rightarrow> (VirtPageNum set \<times> MemorySet) list \<Rightarrow> bool" where
  "spaces_ok lo k S \<longleftrightarrow> kmem_inv lo k \<and> (\<forall>(X, ms) \<in> set S. ms_inv lo X k ms) \<and>
     sorted_wrt (\<lambda>a b. ppns (ms_frames (snd a)) \<inter> ppns (ms_frames (snd b)) = {}) S"

lemma spaces_step:
  assumes S: "spaces_ok lo k S" and k': "kmem_inv lo k'" "ms_inv lo X k' ms" "frames_live lo k \<subseteq> frames_live lo k'"
    and own: "\<forall>(Y, us) \<in> set S. ppns (ms_frames ms) \<inter> ppns (ms_frames us) = {}"
    and same: "\<forall>(Y, us) \<in> set S. \<forall>p \<in> ppns (ms_frames us). same_page (phys k) (phys k') p"
  shows "spaces_ok lo k' ((X, ms) # S)"
proof -
  have "ms_inv lo Y k' us" if u: "(Y, us) \<in> set S" for Y us
  proof (rule ms_undisturbed(1))
    show "kmem_inv lo k" using S by (simp add: spaces_ok_def)
    show inv: "ms_inv lo Y k us" using S u by (auto simp: spaces_ok_def)
    show "ppns (ms_frames us) \<subseteq> frames_live lo k'" using inv k'(3) unfolding ms_inv_def by blast
    fix p assume "p \<in> ppns (ms_frames us)"
    then show "same_page (phys k) (phys k') p" using same u by blast
  qed
  then have "\<forall>(Y, us) \<in> set S. ms_inv lo Y k' us" by blast
  then show ?thesis using S k'(1,2) own by (simp add: spaces_ok_def case_prod_beta)
qed

lemma spaces_live: "spaces_ok lo k S \<Longrightarrow> (Y, us) \<in> set S \<Longrightarrow> ppns (ms_frames us) \<subseteq> frames_live lo k"
  unfolding spaces_ok_def ms_inv_def by fast

lemma spaces_new:
  assumes S: "spaces_ok lo k S" and room: "0 < frames_room k"
  obtains ms k' where "spaces_ok lo k' (({}, ms) # S)" and "ms_entries (phys k') ms = Map.empty" and "areas ms = []"
    and "Suc (frames_room k') = frames_room k"
proof -
  have k: "kmem_inv lo k" using S by (simp add: spaces_ok_def)
  from k room obtain pt k' where n: "PageTable_new k = Some (pt, k')" "kmem_inv lo k'" "pt_inv lo k' pt"
      "pt_entries (phys k') pt = Map.empty" "ms_inv lo {} k' (empty_space pt)" "Suc (frames_room k') = frames_room k"
      "frames_live lo k' = frames_live lo k \<union> ppns (ms_frames (empty_space pt))"
      "ppns (ms_frames (empty_space pt)) \<inter> frames_live lo k = {}" by (rule new_space)
  have "spaces_ok lo k' (({}, empty_space pt) # S)"
  proof (rule spaces_step [OF S n(2,5)])
    show "frames_live lo k \<subseteq> frames_live lo k'" using n(7) by blast
    show "\<forall>(Y, us) \<in> set S. ppns (ms_frames (empty_space pt)) \<inter> ppns (ms_frames us) = {}"
      using spaces_live [OF S] n(8) by blast
    show "\<forall>(Y, us) \<in> set S. \<forall>p \<in> ppns (ms_frames us). same_page (phys k) (phys k') p"
      using spaces_live [OF S] PageTable_new_other [OF k room n(1)] by blast
  qed
  then show ?thesis using that n(4,6) by (simp add: empty_space_def)
qed

lemma spaces_insert:
  assumes S: "spaces_ok lo k ((X, ms) # S)" and va: "va_ok s t"
    and free: "{VirtAddr_floor s..<VirtAddr_ceil t} \<inter> dom (ms_entries (phys k) ms) = {}"
    and room: "3 * (unat (vpn (VirtAddr_ceil t)) - unat (vpn (VirtAddr_floor s))) \<le> frames_room k"
  obtains ms' k' a where "spaces_ok lo k' ((X, ms') # S)" and "areas ms' = areas ms @ [a]" and "map_type a = Framed"
    and "get_start (vpn_range a) = VirtAddr_floor s" and "get_end (vpn_range a) = VirtAddr_ceil t"
    and "frames_room k \<le> frames_room k' + 3 * (unat (vpn (VirtAddr_ceil t)) - unat (vpn (VirtAddr_floor s)))"
proof -
  have k: "kmem_inv lo k" "ms_inv lo X k ms" "spaces_ok lo k S" using S by (simp_all add: spaces_ok_def)
  fix perm
  from k(1,2) va free room obtain a pt' k' nf fs df where
    r: "insert_framed_area s t perm ms k = Some (\<lparr>page_table = pt', areas = areas ms @ [a\<lparr>data_frames := df\<rparr>]\<rparr>, k')"
      "ms_inv lo X k' \<lparr>page_table = pt', areas = areas ms @ [a\<lparr>data_frames := df\<rparr>]\<rparr>"
      "space_step lo (page_table ms) k nf fs pt' k'" "set (map snd df) = set fs" "map_type a = Framed"
      "get_start (vpn_range a) = VirtAddr_floor s" "get_end (vpn_range a) = VirtAddr_ceil t"
    by (rule insert_area_returns)
  let ?ms = "\<lparr>page_table = pt', areas = areas ms @ [a\<lparr>data_frames := df\<rparr>]\<rparr>"
  note st = space_stepD [OF r(3)]
  have "set (area_frames (a\<lparr>data_frames := df\<rparr>)) = set fs" using r(4) by (simp add: area_frames_def)
  then have fr: "ppns (ms_frames ?ms) = ppns (ms_frames ms) \<union> ppns (nf @ fs)" using st(1) by (auto simp: ms_frames_def image_Un)
  have dis: "ppns (ms_frames ms) \<inter> ppns (ms_frames us) = {}" if "(Y, us) \<in> set S" for Y us
    using S that by (force simp: spaces_ok_def)
  have sub: "ppns (pt_frames (page_table ms)) \<subseteq> ppns (ms_frames ms)" by (auto simp: ms_frames_def)
  have "spaces_ok lo k' ((X, ?ms) # S)"
  proof (rule spaces_step [OF k(3) st(3) r(2)])
    show "frames_live lo k \<subseteq> frames_live lo k'" using st(7) by blast
    show "\<forall>(Y, us) \<in> set S. ppns (ms_frames ?ms) \<inter> ppns (ms_frames us) = {}"
      using spaces_live [OF k(3)] dis st(6) unfolding fr by blast
    have "same_page (phys k) (phys k') p" if u: "(Y, us) \<in> set S" "p \<in> ppns (ms_frames us)" for Y us p
      by (rule space_step_other [OF r(3) k(1)]) (use spaces_live [OF k(3) u(1)] dis [OF u(1)] u(2) sub in blast)+
    then show "\<forall>(Y, us) \<in> set S. \<forall>p \<in> ppns (ms_frames us). same_page (phys k) (phys k') p" by blast
  qed
  moreover note insert_area_room [OF k(1,2) va free room r(1)]
  ultimately show ?thesis using that r(5-7) by simp
qed

end
