(* ===== verification/ElfOps.thy ===== *)
theory ElfOps
  imports LifeOps
begin

text \<open>
  Loading a program, \<^verbatim>\<open>MemorySet::from_elf\<close>. An address space is seen as a partial function from
  pages to flags and bytes (\<open>page_at\<close>); pushing an area with data adds the pages of the data to
  it, and loading the segments of a file adds the pages of its image.
\<close>

section \<open>A space under construction\<close>

text \<open>\<open>L\<close> is a set of frames in use that building \<open>ms\<close> must leave alone.\<close>

definition built :: "usize \<Rightarrow> VirtPageNum set \<Rightarrow> PhysPageNum set \<Rightarrow> kmem \<Rightarrow> MemorySet \<Rightarrow> bool" where
  "built lo X L k ms \<longleftrightarrow> kmem_inv lo k \<and> ms_inv lo X k ms \<and> all_framed ms \<and> L \<subseteq> frames_live lo k \<and> L \<inter> ppns (ms_frames ms) = {}"

definition page_at :: "phys_mem \<Rightarrow> MemorySet \<Rightarrow> VirtPageNum \<Rightarrow> (PTEFlags \<times> bytes) option" where
  "page_at m ms v = map_option (\<lambda>e. (pte_flags e, get_bytes_array m (pte_ppn e))) (ms_entries m ms v)"

lemma builtD:
  assumes "built lo X L k ms"
  shows "kmem_inv lo k" and "ms_inv lo X k ms" and "all_framed ms" and "L \<subseteq> frames_live lo k" and "L \<inter> ppns (ms_frames ms) = {}"
  using assms by (simp_all add: built_def)

text \<open>Writing to a page changes that page only.\<close>

lemma write_page:
  assumes b: "built lo X L k ms" and v: "v \<in> ms_pages ms" "ms_entries (phys k) ms v = Some e" and bs: "length bs \<le> 4096"
  defines "m \<equiv> put_bytes_array (pte_ppn e) 0 bs (phys k)"
  shows "built lo X L (k\<lparr>phys := m\<rparr>) ms" and "ms_entries m ms = ms_entries (phys k) ms"
    and "p \<in> L \<Longrightarrow> same_page (phys k) m p"
    and "page_at m ms v = Some (pte_flags e, buf_put 0 bs (get_bytes_array (phys k) (pte_ppn e)))"
    and "u \<in> ms_pages ms \<Longrightarrow> u \<noteq> v \<Longrightarrow> page_at m ms u = page_at (phys k) ms u"
proof -
  note B = builtD [OF b]
  from B(1-3) v(1) obtain e' f where e': "ms_entries (phys k) ms v = Some e'" and f: "(v, f) \<in> set (page_frames ms)"
      and fe: "frame_ppn f = pte_ppn e'" and ok: "ppn_ok (pte_ppn e')" and own: "pte_ppn e' \<in> ppns (ms_frames ms)"
    by (rule ms_page_entry)
  have e: "e' = e" using e' v(2) by simp
  note w = ms_data_write [OF B(1,2) f bs, unfolded fe e, folded m_def]
  have lv: "frames_live lo (k\<lparr>phys := m\<rparr>) = frames_live lo k" by (simp add: frames_live_def)
  show "built lo X L (k\<lparr>phys := m\<rparr>) ms" using w(1,2) B(3-5) unfolding built_def lv by simp
  show ent: "ms_entries m ms = ms_entries (phys k) ms" by (rule w(3))
  show "same_page (phys k) m p" if "p \<in> L"
    using that B(4,5) own e by (intro w(4) live_ppn_ok [OF B(1)]) auto
  have "get_bytes_array m (pte_ppn e) = buf_put 0 bs (get_bytes_array (phys k) (pte_ppn e))"
    unfolding m_def using ok e bs by (intro get_put_bytes_array) simp_all
  then show "page_at m ms v = Some (pte_flags e, buf_put 0 bs (get_bytes_array (phys k) (pte_ppn e)))"
    by (simp add: page_at_def ent v(2))
  show "page_at m ms u = page_at (phys k) ms u" if u: "u \<in> ms_pages ms" "u \<noteq> v"
  proof -
    from B(1-3) u(1) obtain c g where c: "ms_entries (phys k) ms u = Some c" "(u, g) \<in> set (page_frames ms)"
      "frame_ppn g = pte_ppn c" "ppn_ok (pte_ppn c)" "pte_ppn c \<in> ppns (ms_frames ms)" by (rule ms_page_entry)
    have "pte_ppn c \<noteq> pte_ppn e"
    proof
      assume "pte_ppn c = pte_ppn e"
      then have "g = f" using c(3) fe e by (intro frame_ppn_inj) simp
      then show False using page_frames_inj [OF B(2) c(2)] f u(2) by blast
    qed
    then have "get_bytes_array m (pte_ppn c) = get_bytes_array (phys k) (pte_ppn c)"
      using w(4) [OF c(4)] by (simp add: same_page_def)
    then show ?thesis using c(1) by (simp add: page_at_def ent)
  qed
qed

section \<open>Copying data\<close>

definition chunk :: "bytes \<Rightarrow> nat \<Rightarrow> bytes" where
  "chunk data i = buf_get (4096 * i) 4096 data"

abbreviation nth_page :: "usize \<Rightarrow> nat \<Rightarrow> VirtPageNum" where
  "nth_page w i \<equiv> VirtPageNum (w + of_nat i)"

lemma length_chunk: "length (chunk data i) \<le> 4096"
  by (simp add: chunk_def)

lemma chunk_eq: "buf_get (4096 * i) (min (length data) (4096 * i + 4096) - 4096 * i) data = chunk data i"
  by (auto simp: chunk_def buf_get_def min_def)

text \<open>The pages that the loop writes: the first one always, the others while data is left.\<close>

abbreviation copied :: "bytes \<Rightarrow> nat \<Rightarrow> nat \<Rightarrow> bool" where
  "copied data j i \<equiv> j \<le> i \<and> (i = j \<or> 4096 * i < length data)"

lemma nth_page_inj:
  assumes "nth_page w i = nth_page w j" and "i < 2 ^ 64" and "j < 2 ^ 64"
  shows "i = j"
proof -
  have "(of_nat i :: usize) = of_nat j" using assms(1) by simp
  then have "unat (of_nat i :: usize) = unat (of_nat j :: usize)" by (rule arg_cong)
  moreover have "unat (of_nat i :: usize) = i" "unat (of_nat j :: usize) = j" using assms(2,3) by (simp_all add: unat_of_nat_exact)
  ultimately show ?thesis by simp
qed

lemma copy_loop_returns:
  assumes "built lo X L k ms" and "\<forall>i. copied data j i \<longrightarrow> nth_page w i \<in> ms_pages ms" and "length data < 2 ^ 64" "j < 2 ^ 64"
  shows "\<exists>m. copy_loop (page_table ms) data (4096 * j) (nth_page w j) (phys k) = Some m \<and>
    built lo X L (k\<lparr>phys := m\<rparr>) ms \<and> ms_entries m ms = ms_entries (phys k) ms \<and> (\<forall>p \<in> L. same_page (phys k) m p) \<and>
    (\<forall>i. copied data j i \<longrightarrow> page_at m ms (nth_page w i) = map_option (apsnd (buf_put 0 (chunk data i))) (page_at (phys k) ms (nth_page w i))) \<and>
    (\<forall>u \<in> ms_pages ms. (\<forall>i. copied data j i \<longrightarrow> u \<noteq> nth_page w i) \<longrightarrow> page_at m ms u = page_at (phys k) ms u)"
  using assms
proof (induction "length data - 4096 * j" arbitrary: j k rule: less_induct)
  case less
  let ?v = "nth_page w j"
  have v: "?v \<in> ms_pages ms" using less.prems(2) by simp
  note B = builtD [OF less.prems(1)]
  from B(1-3) v obtain e where e: "ms_entries (phys k) ms ?v = Some e" by (rule ms_page_entry)
  let ?m = "put_bytes_array (pte_ppn e) 0 (chunk data j) (phys k)"
  note w = write_page [OF less.prems(1) v e length_chunk [of data j]]
  have t: "PageTable_translate (phys k) (page_table ms) ?v = Some e"
    using translate_entry [OF e] by (simp add: MemorySet_translate_def)
  have here: "page_at ?m ms ?v = map_option (apsnd (buf_put 0 (chunk data j))) (page_at (phys k) ms ?v)"
    using w(4) e by (simp add: page_at_def)
  have run: "copy_loop (page_table ms) data (4096 * j) ?v (phys k)
      = (if 4096 * j + 4096 \<ge> length data then Some ?m else copy_loop (page_table ms) data (4096 * Suc j) (nth_page w (Suc j)) ?m)"
    using t chunk_eq [of j data] by (subst copy_loop.simps) (simp add: Let_def VirtPageNum_step_def add.commute add.left_commute)
  show ?case
  proof (cases "4096 * j + 4096 \<ge> length data")
    case True
    then have c: "copied data j i \<longleftrightarrow> i = j" for i by auto
    show ?thesis unfolding c using True run w(1-3,5) here by (intro exI [of _ ?m]) auto
  next
    case False
    then have c: "copied data j i \<longleftrightarrow> i = j \<or> copied data (Suc j) i" for i by auto
    let ?k = "k\<lparr>phys := ?m\<rparr>"
    have p2: "\<forall>i. copied data (Suc j) i \<longrightarrow> nth_page w i \<in> ms_pages ms" using less.prems(2) c by blast
    have j2: "Suc j < 2 ^ 64" "length data - 4096 * Suc j < length data - 4096 * j" using False less.prems(3) by simp_all
    from less.hyps [OF j2(2) w(1) p2 less.prems(3) j2(1)] obtain m where
      m: "copy_loop (page_table ms) data (4096 * Suc j) (nth_page w (Suc j)) ?m = Some m" "built lo X L (k\<lparr>phys := m\<rparr>) ms"
        "ms_entries m ms = ms_entries ?m ms" "\<forall>p \<in> L. same_page ?m m p"
        "\<forall>i. copied data (Suc j) i \<longrightarrow> page_at m ms (nth_page w i) = map_option (apsnd (buf_put 0 (chunk data i))) (page_at ?m ms (nth_page w i))"
        "\<forall>u \<in> ms_pages ms. (\<forall>i. copied data (Suc j) i \<longrightarrow> u \<noteq> nth_page w i) \<longrightarrow> page_at m ms u = page_at ?m ms u"
      by auto
    have ne: "nth_page w i \<noteq> ?v" if "copied data (Suc j) i" for i
      using nth_page_inj [of w i j] that less.prems(3,4) j2(1) by auto
    have "page_at m ms (nth_page w i) = map_option (apsnd (buf_put 0 (chunk data i))) (page_at (phys k) ms (nth_page w i))"
      if i: "copied data (Suc j) i" for i
      using m(5) w(5) [OF _ ne [OF i]] p2 i by auto
    moreover have "page_at m ms ?v = map_option (apsnd (buf_put 0 (chunk data j))) (page_at (phys k) ms ?v)"
      using m(6) v here ne by metis
    moreover have "page_at m ms u = page_at (phys k) ms u"
      if u: "u \<in> ms_pages ms" "\<forall>i. copied data j i \<longrightarrow> u \<noteq> nth_page w i" for u
    proof -
      have "page_at m ms u = page_at ?m ms u" using m(6) u c by blast
      moreover have "u \<noteq> ?v" using u(2) by blast
      ultimately show ?thesis using w(5) u(1) by simp
    qed
    moreover have "\<forall>p \<in> L. same_page (phys k) m p" using w(3) m(4) by (blast intro: same_page_trans)
    moreover have "ms_entries m ms = ms_entries (phys k) ms" using m(3) w(2) by simp
    ultimately show ?thesis unfolding c using False run m(1,2) by (intro exI [of _ m]) auto
  qed
qed

section \<open>Pushing an area\<close>

definition filled :: "bytes \<Rightarrow> bytes" where
  "filled bs = bs @ replicate (4096 - length bs) 0"

text \<open>The pages of an area with its data, starting at the first page and padded with zeros.\<close>

definition area_image :: "MapArea \<Rightarrow> bytes \<Rightarrow> VirtPageNum \<Rightarrow> (PTEFlags \<times> bytes) option" where
  "area_image a data v = (if v \<in> area_pages a
     then Some (map_perm a OR PTE_V, filled (chunk data (unat (vpn v) - unat (vpn (get_start (vpn_range a)))))) else None)"

definition extends :: "usize \<Rightarrow> VirtPageNum set \<Rightarrow> PhysPageNum set \<Rightarrow> kmem \<Rightarrow> MemorySet \<Rightarrow>
    (VirtPageNum \<Rightarrow> (PTEFlags \<times> bytes) option) \<Rightarrow> kmem \<Rightarrow> MemorySet \<Rightarrow> bool" where
  "extends lo X L k ms I k' ms' \<longleftrightarrow> built lo X L k' ms' \<and> (\<forall>p \<in> L. same_page (phys k) (phys k') p) \<and>
     (\<forall>v \<in> X. ms_entries (phys k') ms' v = ms_entries (phys k) ms v) \<and>
     (\<forall>v. v \<notin> X \<longrightarrow> page_at (phys k') ms' v = (page_at (phys k) ms ++ I) v)"

lemma filled_chunk_Nil [simp]: "filled (chunk [] i) = replicate 4096 0"
  by (simp add: filled_def chunk_def buf_get_def)

lemma buf_put_zeros: "length bs \<le> 4096 \<Longrightarrow> buf_put 0 bs (replicate 4096 0) = filled bs"
  by (simp add: buf_put_def filled_def)

lemma page_at_None: "v \<notin> dom (ms_entries m ms) \<Longrightarrow> page_at m ms v = None"
  by (simp add: page_at_def domIff)

lemma push_empty:
  assumes b: "built lo X L k ms" and a: "map_type a = Framed" "data_frames a = []"
    and r: "range_ok (vpn_range a)" and free: "area_pages a \<inter> dom (ms_entries (phys k) ms) = {}"
    and room: "3 * area_size a \<le> frames_room k"
  obtains pt' df k' where "MemorySet_push a None ms k = Some (\<lparr>page_table = pt', areas = areas ms @ [a\<lparr>data_frames := df\<rparr>]\<rparr>, k')"
    and "extends lo X L k ms (area_image a []) k' \<lparr>page_table = pt', areas = areas ms @ [a\<lparr>data_frames := df\<rparr>]\<rparr>"
    and "frames_room k \<le> frames_room k' + 3 * area_size a"
proof -
  note p = builtD [OF b]
  from p(1,2) a r free room obtain pt' k' nf fs df where
    q: "MemorySet_push a None ms k = Some (\<lparr>page_table = pt', areas = areas ms @ [a\<lparr>data_frames := df\<rparr>]\<rparr>, k')"
      "ms_inv lo X k' \<lparr>page_table = pt', areas = areas ms @ [a\<lparr>data_frames := df\<rparr>]\<rparr>"
      "space_step lo (page_table ms) k nf fs pt' k'" "set (map snd df) = set fs" "length fs = area_size a"
      "\<forall>v. v \<notin> area_pages a \<longrightarrow> pt_entries (phys k') pt' v = ms_entries (phys k) ms v"
    by (rule MemorySet_push_framed)
  let ?a = "a\<lparr>data_frames := df\<rparr>"
  let ?ms = "\<lparr>page_table = pt', areas = areas ms @ [?a]\<rparr>"
  note st = space_stepD [OF q(3)]
  have own: "ppns (ms_frames ms) \<subseteq> frames_live lo k" using p(2) by (simp add: ms_inv_def)
  have sub: "ppns (pt_frames (page_table ms)) \<subseteq> ppns (ms_frames ms)" by (auto simp: ms_frames_def)
  have same: "same_page (phys k) (phys k') x" if x: "x \<in> L" for x
    by (rule space_step_other [OF q(3) p(1)]) (use x p(4,5) sub in blast)+
  have "set (area_frames ?a) = set fs" using q(4) by (simp add: area_frames_def)
  then have "ppns (ms_frames ?ms) = ppns (ms_frames ms) \<union> ppns (nf @ fs)"
    using st(1) by (auto simp: ms_frames_def image_Un)
  then have "L \<inter> ppns (ms_frames ?ms) = {}" using p(4,5) st(6) by blast
  then have bt: "built lo X L k' ?ms" using st(3,7) q(2) p(3,4) a(1) by (auto simp: built_def all_framed_def)
  have old: "page_at (phys k') ?ms v = page_at (phys k) ms v" if v: "v \<in> ms_pages ms" for v
  proof -
    from p(1-3) v obtain e f where e: "ms_entries (phys k) ms v = Some e" "(v, f) \<in> set (page_frames ms)"
      "frame_ppn f = pte_ppn e" "pte_ppn e \<in> ppns (ms_frames ms)" by (rule ms_page_entry)
    have "same_page (phys k) (phys k') (pte_ppn e)"
      using e(3,4) own page_frames_not_table [OF p(2) e(2)] by (intro space_step_other [OF q(3) p(1)]) auto
    moreover have "v \<notin> area_pages a" using free e(1) by blast
    ultimately show ?thesis using q(6) e(1) by (simp add: page_at_def same_page_def)
  qed
  have "area_ok (ms_entries (phys k') ?ms) ?a" using q(2) by (simp add: ms_inv_def)
  note ok = area_ok_framedD [OF this]
  have new: "page_at (phys k') ?ms v = area_image a [] v" if v: "v \<in> area_pages a" for v
  proof -
    have "v \<in> fst ` set df" using v ok(1) a(1) by (simp add: area_pages_def)
    then obtain f where f: "(v, f) \<in> set df" by force
    then have x: "frame_ppn f \<in> ppns fs" using q(4) by force
    moreover have "ppn_ok (frame_ppn f)" using x st(7) by (intro live_ppn_ok [OF st(3)]) auto
    ultimately show ?thesis
      using ok(2) [of v f] f a(1) st(9) [OF x] v by (simp add: page_at_def area_image_def zero_page_def)
  qed
  have X: "X \<inter> area_pages a = {}" "dom (ms_entries (phys k) ms) = X \<union> ms_pages ms" using p(2) free by (auto simp: ms_inv_def)
  have "page_at (phys k') ?ms v = (page_at (phys k) ms ++ area_image a []) v" if v: "v \<notin> X" for v
  proof (cases "v \<in> area_pages a")
    case True
    then show ?thesis using new [OF True] by (simp add: area_image_def)
  next
    case False
    then have "page_at (phys k') ?ms v = page_at (phys k) ms v"
      using old [of v] page_at_None [of v "phys k" ms] page_at_None [of v "phys k'" ?ms] X(2) v q(6) by (cases "v \<in> ms_pages ms") (auto simp: domIff)
    then show ?thesis using False by (simp add: map_add_def area_image_def)
  qed
  then have "extends lo X L k ms (area_image a []) k' ?ms" unfolding extends_def using bt same q(6) X(1) by auto
  then show ?thesis using that q(1) push_room [OF p(1,2) a r free room q(1)] by blast
qed

lemma area_index:
  assumes r: "range_ok (vpn_range a)"
  defines "w \<equiv> vpn (get_start (vpn_range a))"
  shows "i < area_size a \<Longrightarrow> nth_page w i \<in> area_pages a" and "i < area_size a \<Longrightarrow> unat (vpn (nth_page w i)) - unat w = i"
    and "v \<in> area_pages a \<Longrightarrow> \<exists>i < area_size a. v = nth_page w i"
proof -
  have bd: "unat (vpn (get_end (vpn_range a))) \<le> 2 ^ 27" using r by (simp add: range_ok_def)
  have u: "unat (w + of_nat i) = unat w + i" if i: "i < area_size a"
  proof -
    have "unat (of_nat i :: usize) = i" using i bd by (intro unat_of_nat_exact) simp
    then show ?thesis using i bd unfolding w_def by (subst word_add_exact) simp_all
  qed
  show "nth_page w i \<in> area_pages a" "unat (vpn (nth_page w i)) - unat w = i" if i: "i < area_size a"
    using u [OF i] i by (simp_all add: w_def area_pages_def less_eq_VirtPageNum_def less_VirtPageNum_def word_le_nat_alt word_less_nat_alt)
  show "\<exists>i < area_size a. v = nth_page w i" if v: "v \<in> area_pages a"
  proof -
    have le: "unat w \<le> unat (vpn v)" "unat (vpn v) < unat (vpn (get_end (vpn_range a)))"
      using v by (simp_all add: w_def area_pages_def less_eq_VirtPageNum_def less_VirtPageNum_def word_le_nat_alt word_less_nat_alt)
    have "vpn v = w + of_nat (unat (vpn v) - unat w)" using le(1) by (simp add: of_nat_diff)
    then have "v = nth_page w (unat (vpn v) - unat w)" by (metis VirtPageNum.collapse)
    then show ?thesis using le by (intro exI [of _ "unat (vpn v) - unat w"]) (simp add: w_def)
  qed
qed

text \<open>Copying data into an area of zeros.\<close>

lemma copy_area:
  assumes b: "built lo X L k ms" and r: "range_ok (vpn_range a)" and pages: "area_pages a \<subseteq> ms_pages ms"
    and z: "\<forall>v \<in> area_pages a. page_at (phys k) ms v = area_image a [] v"
    and data: "0 < area_size a" "length data \<le> 4096 * area_size a"
  obtains m where "copy_loop (page_table ms) data 0 (get_start (vpn_range a)) (phys k) = Some m" and "built lo X L (k\<lparr>phys := m\<rparr>) ms"
    and "ms_entries m ms = ms_entries (phys k) ms" and "\<forall>p \<in> L. same_page (phys k) m p"
    and "\<forall>v \<in> area_pages a. page_at m ms v = area_image a data v"
    and "\<forall>v \<in> ms_pages ms. v \<notin> area_pages a \<longrightarrow> page_at m ms v = page_at (phys k) ms v"
proof -
  let ?w = "vpn (get_start (vpn_range a))"
  note ix = area_index [OF r]
  have bd: "unat (vpn (get_end (vpn_range a))) \<le> 2 ^ 27" using r by (simp add: range_ok_def)
  have cp: "copied data 0 i \<Longrightarrow> i < area_size a" for i using data by auto
  have len: "length data < 2 ^ 64" using data(2) bd by simp
  have "\<forall>i. copied data 0 i \<longrightarrow> nth_page ?w i \<in> ms_pages ms" using cp ix(1) pages by blast
  from copy_loop_returns [OF b this len] obtain m where
    m: "copy_loop (page_table ms) data 0 (nth_page ?w 0) (phys k) = Some m" "built lo X L (k\<lparr>phys := m\<rparr>) ms"
      "ms_entries m ms = ms_entries (phys k) ms" "\<forall>p \<in> L. same_page (phys k) m p"
      "\<forall>i. copied data 0 i \<longrightarrow> page_at m ms (nth_page ?w i) = map_option (apsnd (buf_put 0 (chunk data i))) (page_at (phys k) ms (nth_page ?w i))"
      "\<forall>u \<in> ms_pages ms. (\<forall>i. copied data 0 i \<longrightarrow> u \<noteq> nth_page ?w i) \<longrightarrow> page_at m ms u = page_at (phys k) ms u"
    by auto
  have "page_at m ms v = area_image a data v" if v: "v \<in> area_pages a" for v
  proof -
    obtain i where i: "i < area_size a" "v = nth_page ?w i" using ix(3) [OF v] by blast
    have zv: "page_at (phys k) ms v = Some (map_perm a OR PTE_V, replicate 4096 0)" using z v by (simp add: area_image_def)
    show ?thesis
    proof (cases "copied data 0 i")
      case True
      then have "page_at m ms v = map_option (apsnd (buf_put 0 (chunk data i))) (page_at (phys k) ms v)"
        unfolding i(2) using m(5) by blast
      then have "page_at m ms v = Some (map_perm a OR PTE_V, filled (chunk data i))"
        using zv buf_put_zeros [OF length_chunk] by simp
      then show ?thesis using ix(2) [OF i(1)] v i(2) by (simp add: area_image_def)
    next
      case False
      have "v \<noteq> nth_page ?w j" if j: "copied data 0 j" for j
      proof
        assume "v = nth_page ?w j"
        then have "nth_page ?w j = nth_page ?w i" using i(2) by simp
        moreover have "i < 2 ^ 64" "j < 2 ^ 64" using cp [OF j] i(1) bd by simp_all
        ultimately have "j = i" by (intro nth_page_inj)
        then show False using j False by blast
      qed
      then have "page_at m ms v = page_at (phys k) ms v" using m(6) v pages by blast
      moreover have "chunk data i = []" using False by (simp add: chunk_def buf_get_def)
      then have "filled (chunk data i) = replicate 4096 0" by (simp add: filled_def)
      ultimately show ?thesis using zv ix(2) [OF i(1)] v i(2) by (simp add: area_image_def)
    qed
  qed
  moreover have "page_at m ms v = page_at (phys k) ms v" if "v \<in> ms_pages ms" "v \<notin> area_pages a" for v
  proof -
    have "v \<noteq> nth_page ?w i" if "copied data 0 i" for i using ix(1) [OF cp [OF that]] \<open>v \<notin> area_pages a\<close> by metis
    then show ?thesis using m(6) that(1) by blast
  qed
  moreover have "nth_page ?w 0 = get_start (vpn_range a)" by simp
  ultimately show ?thesis using that m(1-4) by simp
qed

lemma push_data:
  assumes b: "built lo X L k ms" and a: "map_type a = Framed" "data_frames a = []"
    and r: "range_ok (vpn_range a)" and free: "area_pages a \<inter> dom (ms_entries (phys k) ms) = {}"
    and room: "3 * area_size a \<le> frames_room k" and data: "0 < area_size a" "length data \<le> 4096 * area_size a"
  obtains pt' df k' where "MemorySet_push a (Some data) ms k = Some (\<lparr>page_table = pt', areas = areas ms @ [a\<lparr>data_frames := df\<rparr>]\<rparr>, k')"
    and "extends lo X L k ms (area_image a data) k' \<lparr>page_table = pt', areas = areas ms @ [a\<lparr>data_frames := df\<rparr>]\<rparr>"
    and "frames_room k \<le> frames_room k' + 3 * area_size a"
proof -
  from b a r free room obtain pt' df k1 where
    q: "MemorySet_push a None ms k = Some (\<lparr>page_table = pt', areas = areas ms @ [a\<lparr>data_frames := df\<rparr>]\<rparr>, k1)"
      "extends lo X L k ms (area_image a []) k1 \<lparr>page_table = pt', areas = areas ms @ [a\<lparr>data_frames := df\<rparr>]\<rparr>"
      "frames_room k \<le> frames_room k1 + 3 * area_size a" by (rule push_empty)
  let ?a = "a\<lparr>data_frames := df\<rparr>"
  let ?ms = "\<lparr>page_table = pt', areas = areas ms @ [?a]\<rparr>"
  have x: "built lo X L k1 ?ms" "\<forall>p \<in> L. same_page (phys k) (phys k1) p"
      "\<forall>v \<in> X. ms_entries (phys k1) ?ms v = ms_entries (phys k) ms v"
      "\<forall>v. v \<notin> X \<longrightarrow> page_at (phys k1) ?ms v = (page_at (phys k) ms ++ area_image a []) v"
    using q(2) by (simp_all add: extends_def)
  have dom1: "dom (ms_entries (phys k1) ?ms) = X \<union> ms_pages ?ms" and pages: "area_pages a \<subseteq> ms_pages ?ms" "X \<inter> area_pages a = {}"
    using builtD(2) [OF x(1)] by (auto simp: ms_pages_def area_pages_def ms_inv_def)
  have "\<forall>v \<in> area_pages a. page_at (phys k1) ?ms v = area_image a [] v" using x(4) pages(2) by (auto simp: area_image_def)
  from x(1) r pages(1) this data obtain m where m: "copy_loop (page_table ?ms) data 0 (get_start (vpn_range a)) (phys k1) = Some m"
      "built lo X L (k1\<lparr>phys := m\<rparr>) ?ms" "ms_entries m ?ms = ms_entries (phys k1) ?ms" "\<forall>p \<in> L. same_page (phys k1) m p"
      "\<forall>v \<in> area_pages a. page_at m ?ms v = area_image a data v"
      "\<forall>v \<in> ms_pages ?ms. v \<notin> area_pages a \<longrightarrow> page_at m ?ms v = page_at (phys k1) ?ms v"
    by (rule copy_area)
  have "page_at m ?ms v = (page_at (phys k) ms ++ area_image a data) v" if v: "v \<notin> X" for v
  proof (cases "v \<in> area_pages a")
    case True
    then show ?thesis using m(5) by (simp add: area_image_def)
  next
    case False
    then have "page_at m ?ms v = page_at (phys k1) ?ms v"
      using m(3,6) page_at_None [of v "phys k1" ?ms] page_at_None [of v m ?ms] dom1 v by (cases "v \<in> ms_pages ?ms") auto
    then show ?thesis using False x(4) v by (simp add: map_add_def area_image_def)
  qed
  then have "extends lo X L k ms (area_image a data) (k1\<lparr>phys := m\<rparr>) ?ms"
    unfolding extends_def using m(2-4) x(2,3) by (auto intro: same_page_trans)
  moreover have "MapArea_map a (page_table ms) k = Some (?a, pt', k1)" using q(1) by (cases ms) (auto simp: MemorySet_push_def split: bind_splits)
  then have "MemorySet_push a (Some data) ms k = Some (?ms, k1\<lparr>phys := m\<rparr>)"
    using m(1) a(1) by (simp add: MemorySet_push_def copy_data_def)
  moreover have "frames_room (k1\<lparr>phys := m\<rparr>) = frames_room k1" by (simp add: frames_room_def)
  ultimately show ?thesis using that q(3) by simp
qed

lemma extends_trans:
  assumes "extends lo X L k ms I k1 ms1" and "extends lo X L k1 ms1 J k2 ms2"
  shows "extends lo X L k ms (I ++ J) k2 ms2"
  using assms unfolding extends_def by (auto simp: map_add_def intro: same_page_trans split: option.splits)

lemma extends_built: "extends lo X L k ms I k' ms' \<Longrightarrow> built lo X L k' ms'"
  by (simp add: extends_def)

lemma page_at_dom: "v \<in> dom (ms_entries m ms) \<longleftrightarrow> page_at m ms v \<noteq> None"
  by (auto simp: page_at_def)

lemma extends_dom:
  assumes "extends lo X L k ms I k' ms'"
  shows "dom (ms_entries (phys k') ms') \<subseteq> dom (ms_entries (phys k) ms) \<union> dom I"
proof
  fix v assume v: "v \<in> dom (ms_entries (phys k') ms')"
  show "v \<in> dom (ms_entries (phys k) ms) \<union> dom I"
  proof (cases "v \<in> X")
    case True
    then have "ms_entries (phys k') ms' v = ms_entries (phys k) ms v" using assms by (simp add: extends_def)
    then show ?thesis using v by (simp add: domIff)
  next
    case False
    then have "page_at (phys k') ms' v = (page_at (phys k) ms ++ I) v" using assms by (simp add: extends_def)
    then have "(page_at (phys k) ms ++ I) v \<noteq> None" using v by (simp add: page_at_dom)
    then show ?thesis by (auto simp: page_at_dom map_add_None)
  qed
qed

section \<open>Segments\<close>

definition seg_first :: "ProgramHeader \<Rightarrow> nat" where
  "seg_first ph = unat (virtual_addr ph) div 4096"

definition seg_end :: "ProgramHeader \<Rightarrow> nat" where
  "seg_end ph = (unat (virtual_addr ph) + unat (mem_size ph) + 4095) div 4096"

definition seg_data :: "bytes \<Rightarrow> ProgramHeader \<Rightarrow> bytes" where
  "seg_data input ph = buf_get (unat (ph_offset ph)) (unat (file_size ph)) input"

definition seg_ok :: "bytes \<Rightarrow> ProgramHeader \<Rightarrow> bool" where
  "seg_ok input ph \<longleftrightarrow> unat (virtual_addr ph) mod 4096 = 0 \<and> 0 < unat (mem_size ph) \<and> unat (file_size ph) \<le> unat (mem_size ph) \<and>
     unat (ph_offset ph) + unat (file_size ph) \<le> length input \<and> unat (virtual_addr ph) + unat (mem_size ph) + 0x4000 < 2 ^ 38"

text \<open>The pages of a segment: its bytes of the file, then zeros, with the permissions of the header.\<close>

definition seg_image :: "bytes \<Rightarrow> ProgramHeader \<Rightarrow> VirtPageNum \<Rightarrow> (PTEFlags \<times> bytes) option" where
  "seg_image input ph v = (if seg_first ph \<le> unat (vpn v) \<and> unat (vpn v) < seg_end ph
     then Some (ph_perm ph OR PTE_V, filled (chunk (seg_data input ph) (unat (vpn v) - seg_first ph))) else None)"

fun image :: "bytes \<Rightarrow> ProgramHeader list \<Rightarrow> VirtPageNum \<Rightarrow> (PTEFlags \<times> bytes) option" where
  "image input [] = Map.empty"
| "image input (ph # phs) = seg_image input ph ++ image input phs"

abbreviation is_loaded :: "ProgramHeader \<Rightarrow> bool" where
  "is_loaded ph \<equiv> ph_is_load ph = Some True"

abbreviation segs_size :: "ProgramHeader list \<Rightarrow> nat" where
  "segs_size segs \<equiv> sum_list (map (\<lambda>ph. seg_end ph - seg_first ph) segs)"

lemma seg_size:
  assumes "seg_ok input ph"
  shows "seg_first ph < seg_end ph" and "seg_end ph + 3 < 2 ^ 26" and "length (seg_data input ph) \<le> 4096 * (seg_end ph - seg_first ph)"
proof -
  let ?v = "unat (virtual_addr ph)" and ?s = "unat (mem_size ph)"
  obtain q where q: "?v = 4096 * q" using assms by (auto simp: seg_ok_def)
  have e: "seg_first ph = q" "seg_end ph = q + (?s + 4095) div 4096" unfolding seg_first_def seg_end_def q by simp_all
  have "0 < ?s" "?v + ?s + 0x4000 < 2 ^ 38" "unat (file_size ph) \<le> ?s" using assms by (simp_all add: seg_ok_def)
  then show "seg_first ph < seg_end ph" "seg_end ph + 3 < 2 ^ 26" unfolding e using q by simp_all
  have "?s \<le> 4096 * ((?s + 4095) div 4096)"
    using mult_div_mod_eq [of 4096 "?s + 4095"] mod_less_divisor [of 4096 "?s + 4095"] by linarith
  then show "length (seg_data input ph) \<le> 4096 * (seg_end ph - seg_first ph)"
    unfolding e seg_data_def using \<open>unat (file_size ph) \<le> ?s\<close> by simp
qed

lemma seg_area:
  assumes ok: "seg_ok input ph" and len: "length input < 2 ^ 64"
  obtains a where "MapArea_new (VirtAddr_of_usize (virtual_addr ph)) (VirtAddr_of_usize (virtual_addr ph + mem_size ph)) Framed (ph_perm ph) = Some a"
    and "input_slice input (ph_offset ph) (ph_offset ph + file_size ph) = Some (seg_data input ph)"
    and "range_ok (vpn_range a)" and "data_frames a = []" and "map_type a = Framed" and "area_size a = seg_end ph - seg_first ph"
    and "area_image a (seg_data input ph) = seg_image input ph" and "vpn (get_end (vpn_range a)) = of_nat (seg_end ph)"
proof -
  have lt: "unat (virtual_addr ph) + unat (mem_size ph) < 2 ^ 38" using ok by (simp add: seg_ok_def)
  note l = low_pages [OF lt]
  from l(1) obtain a where a: "MapArea_new (VirtAddr_of_usize (virtual_addr ph)) (VirtAddr_of_usize (virtual_addr ph + mem_size ph)) Framed (ph_perm ph) = Some a"
      "range_ok (vpn_range a)" "data_frames a = []" "map_type a = Framed" "map_perm a = ph_perm ph"
      "get_start (vpn_range a) = VirtAddr_floor (VirtAddr_of_usize (virtual_addr ph))"
      "get_end (vpn_range a) = VirtAddr_ceil (VirtAddr_of_usize (virtual_addr ph + mem_size ph))"
    by (rule MapArea_new_returns)
  have u: "unat (vpn (get_start (vpn_range a))) = seg_first ph" "unat (vpn (get_end (vpn_range a))) = seg_end ph"
    using l(2,3) a(6,7) by (simp_all add: seg_first_def seg_end_def)
  have e: "unat (ph_offset ph + file_size ph) = unat (ph_offset ph) + unat (file_size ph)"
    using ok len by (intro word_add_exact) (simp add: seg_ok_def)
  have sl: "input_slice input (ph_offset ph) (ph_offset ph + file_size ph) = Some (seg_data input ph)"
    using ok e by (simp add: input_slice_def seg_data_def seg_ok_def word_le_nat_alt)
  have "area_image a (seg_data input ph) = seg_image input ph"
    using a(5) u by (auto simp: fun_eq_iff area_image_def seg_image_def area_pages_def less_eq_VirtPageNum_def less_VirtPageNum_def
        word_le_nat_alt word_less_nat_alt)
  moreover have "vpn (get_end (vpn_range a)) = of_nat (seg_end ph)" using arg_cong [OF u(2), of "of_nat :: nat \<Rightarrow> usize"] by simp
  ultimately show ?thesis using that a(1-4) sl u by simp
qed

text \<open>The end of the last segment, where the user stack is placed.\<close>

definition last_end :: "ProgramHeader list \<Rightarrow> VirtPageNum \<Rightarrow> VirtPageNum" where
  "last_end segs v = (if segs = [] then v else VirtPageNum (of_nat (seg_end (last segs))))"

lemma load_segment:
  assumes b: "built lo X L k ms" and ok: "seg_ok input ph" and fr: "dom (seg_image input ph) \<inter> dom (ms_entries (phys k) ms) = {}"
    and room: "3 * (seg_end ph - seg_first ph) \<le> frames_room k" and len: "length input < 2 ^ 64"
  obtains a ms' k' where "MapArea_new (VirtAddr_of_usize (virtual_addr ph)) (VirtAddr_of_usize (virtual_addr ph + mem_size ph)) Framed (ph_perm ph) = Some a"
    and "input_slice input (ph_offset ph) (ph_offset ph + file_size ph) = Some (seg_data input ph)"
    and "get_end (vpn_range a) = VirtPageNum (of_nat (seg_end ph))"
    and "MemorySet_push a (Some (seg_data input ph)) ms k = Some (ms', k')"
    and "extends lo X L k ms (seg_image input ph) k' ms'" and "frames_room k \<le> frames_room k' + 3 * (seg_end ph - seg_first ph)"
proof -
  let ?data = "seg_data input ph"
  from ok len obtain a where a: "MapArea_new (VirtAddr_of_usize (virtual_addr ph)) (VirtAddr_of_usize (virtual_addr ph + mem_size ph)) Framed (ph_perm ph) = Some a"
      "input_slice input (ph_offset ph) (ph_offset ph + file_size ph) = Some ?data"
      "range_ok (vpn_range a)" "data_frames a = []" "map_type a = Framed" "area_size a = seg_end ph - seg_first ph"
      "area_image a ?data = seg_image input ph" "vpn (get_end (vpn_range a)) = of_nat (seg_end ph)"
    by (rule seg_area)
  note sz = seg_size [OF ok]
  have "area_pages a = dom (area_image a ?data)" by (auto simp: area_image_def split: if_splits)
  then have fr': "area_pages a \<inter> dom (ms_entries (phys k) ms) = {}" using fr a(7) by simp
  have h: "3 * area_size a \<le> frames_room k" "0 < area_size a" "length ?data \<le> 4096 * area_size a"
    using room a(6) sz by simp_all
  from b a(5,4,3) fr' h obtain pt' df k1 where
    q: "MemorySet_push a (Some ?data) ms k = Some (\<lparr>page_table = pt', areas = areas ms @ [a\<lparr>data_frames := df\<rparr>]\<rparr>, k1)"
      "extends lo X L k ms (area_image a ?data) k1 \<lparr>page_table = pt', areas = areas ms @ [a\<lparr>data_frames := df\<rparr>]\<rparr>"
      "frames_room k \<le> frames_room k1 + 3 * area_size a" by (rule push_data)
  moreover have "get_end (vpn_range a) = VirtPageNum (of_nat (seg_end ph))" using a(8) by (metis VirtPageNum.collapse)
  ultimately show ?thesis using that a(1,2,6,7) by simp
qed

lemma load_segments_returns:
  assumes "built lo X L k ms" and "map (program_header elf) is = map Some hs" and "\<forall>ph \<in> set hs. ph_is_load ph \<noteq> None"
    and "\<forall>ph \<in> set (filter is_loaded hs). seg_ok input ph" and "sorted_wrt (\<lambda>a b. seg_end a \<le> seg_first b) (filter is_loaded hs)"
    and "\<forall>ph \<in> set (filter is_loaded hs). dom (seg_image input ph) \<inter> dom (ms_entries (phys k) ms) = {}"
    and "3 * segs_size (filter is_loaded hs) \<le> frames_room k" and "length input < 2 ^ 64"
  shows "\<exists>ms' k'. load_segments input elf is mx ms k = Some (last_end (filter is_loaded hs) mx, ms', k') \<and>
    extends lo X L k ms (image input (filter is_loaded hs)) k' ms' \<and>
    frames_room k \<le> frames_room k' + 3 * segs_size (filter is_loaded hs)"
  using assms
proof (induction hs arbitrary: "is" mx ms k)
  case Nil
  then show ?case by (simp add: last_end_def extends_def same_page_def)
next
  case (Cons ph hs)
  obtain i js where i: "is = i # js" "program_header elf i = Some ph" "map (program_header elf) js = map Some hs"
    using Cons.prems(2) by auto
  show ?case
  proof (cases "is_loaded ph")
    case False
    then have "ph_is_load ph = Some False" using Cons.prems(3) by (cases "ph_is_load ph") auto
    then show ?thesis using Cons.IH [OF Cons.prems(1) i(3), of mx] Cons.prems i by simp
  next
    case True
    let ?segs = "filter is_loaded hs" and ?e = "VirtPageNum (of_nat (seg_end ph))"
    have ok: "seg_ok input ph" "\<forall>b \<in> set ?segs. seg_end ph \<le> seg_first b" "3 * (seg_end ph - seg_first ph) \<le> frames_room k"
        "dom (seg_image input ph) \<inter> dom (ms_entries (phys k) ms) = {}" using Cons.prems(4-7) True by simp_all
    from Cons.prems(1) ok(1,4,3) Cons.prems(8) obtain a ms1 k1 where
      q: "MapArea_new (VirtAddr_of_usize (virtual_addr ph)) (VirtAddr_of_usize (virtual_addr ph + mem_size ph)) Framed (ph_perm ph) = Some a"
        "input_slice input (ph_offset ph) (ph_offset ph + file_size ph) = Some (seg_data input ph)" "get_end (vpn_range a) = ?e"
        "MemorySet_push a (Some (seg_data input ph)) ms k = Some (ms1, k1)" "extends lo X L k ms (seg_image input ph) k1 ms1"
        "frames_room k \<le> frames_room k1 + 3 * (seg_end ph - seg_first ph)" by (rule load_segment)
    have fr: "\<forall>b \<in> set ?segs. dom (seg_image input b) \<inter> dom (ms_entries (phys k1) ms1) = {}"
    proof
      fix b assume b: "b \<in> set ?segs"
      have "dom (seg_image input b) \<inter> dom (ms_entries (phys k) ms) = {}" using Cons.prems(6) b by simp
      moreover have "dom (seg_image input b) \<inter> dom (seg_image input ph) = {}"
        using ok(2) b by (auto simp: seg_image_def split: if_splits)
      ultimately show "dom (seg_image input b) \<inter> dom (ms_entries (phys k1) ms1) = {}" using extends_dom [OF q(5)] by blast
    qed
    have r1: "3 * segs_size ?segs \<le> frames_room k1" using q(6) Cons.prems(7) True by simp
    obtain ms' k' where f: "load_segments input elf js ?e ms1 k1 = Some (last_end ?segs ?e, ms', k')"
        "extends lo X L k1 ms1 (image input ?segs) k' ms'" "frames_room k1 \<le> frames_room k' + 3 * segs_size ?segs"
      using Cons.IH [OF extends_built [OF q(5)] i(3) _ _ _ fr r1 Cons.prems(8), of ?e] Cons.prems(3-5) True by auto
    have "extends lo X L k ms (image input (ph # ?segs)) k' ms'" using extends_trans [OF q(5) f(2)] by simp
    moreover have "last_end ?segs ?e = last_end (ph # ?segs) mx" by (simp add: last_end_def)
    ultimately show ?thesis using f(1,3) q(1-4,6) i(1,2) True by (simp add: Let_def)
  qed
qed

section \<open>The stack and the trap context\<close>

definition zeros :: "nat \<Rightarrow> nat \<Rightarrow> PTEFlags \<Rightarrow> VirtPageNum \<Rightarrow> (PTEFlags \<times> bytes) option" where
  "zeros i j flags v = (if i \<le> unat (vpn v) \<and> unat (vpn v) < j then Some (flags, replicate 4096 0) else None)"

lemma push_framed_returns:
  assumes b: "built lo X L k ms" and va: "va_ok (VirtAddr_of_usize l) (VirtAddr_of_usize r)"
    and i: "unat (vpn (VirtAddr_floor (VirtAddr_of_usize l))) = i" "unat (vpn (VirtAddr_ceil (VirtAddr_of_usize r))) = j"
    and fr: "dom (zeros i j (perm OR PTE_V)) \<inter> dom (ms_entries (phys k) ms) = {}" and room: "3 * (j - i) \<le> frames_room k"
  obtains ms' k' where "push_framed l r perm ms k = Some (ms', k')" and "extends lo X L k ms (zeros i j (perm OR PTE_V)) k' ms'"
    and "frames_room k \<le> frames_room k' + 3 * (j - i)"
proof -
  from va obtain a where a: "MapArea_new (VirtAddr_of_usize l) (VirtAddr_of_usize r) Framed perm = Some a" "range_ok (vpn_range a)"
      "data_frames a = []" "map_type a = Framed" "map_perm a = perm" "get_start (vpn_range a) = VirtAddr_floor (VirtAddr_of_usize l)"
      "get_end (vpn_range a) = VirtAddr_ceil (VirtAddr_of_usize r)"
    by (rule MapArea_new_returns)
  have img: "area_image a [] = zeros i j (perm OR PTE_V)"
    using a(5-7) i by (auto simp: fun_eq_iff area_image_def zeros_def area_pages_def less_eq_VirtPageNum_def less_VirtPageNum_def
        word_le_nat_alt word_less_nat_alt)
  have "area_pages a = dom (area_image a [])" by (auto simp: area_image_def split: if_splits)
  then have fr': "area_pages a \<inter> dom (ms_entries (phys k) ms) = {}" using fr img by simp
  have rm: "3 * area_size a \<le> frames_room k" using room a(6,7) i by simp
  from b a(4,3,2) fr' rm obtain pt' df k' where
    q: "MemorySet_push a None ms k = Some (\<lparr>page_table = pt', areas = areas ms @ [a\<lparr>data_frames := df\<rparr>]\<rparr>, k')"
      "extends lo X L k ms (area_image a []) k' \<lparr>page_table = pt', areas = areas ms @ [a\<lparr>data_frames := df\<rparr>]\<rparr>"
      "frames_room k \<le> frames_room k' + 3 * area_size a" by (rule push_empty)
  show ?thesis using that q a(1,6,7) i img by (simp add: push_framed_def)
qed

end
