(* ===== verification/FsInv.thy ===== *)
theory FsInv
  imports Vfs
begin

text \<open>
  The invariant of a file system on disk and its abstract contents.

  \<open>fs_inv N E d\<close>: the areas fit the device, every allocated inode is well formed,
  its blocks lie in the data area and are marked in the data bitmap, and no block
  belongs to two inodes. \<open>fs_files E d\<close> is what the disk means: a map from inode
  numbers to a type and a byte string. \<open>fs_update\<close> is the step every operation that
  rewrites one inode goes through.
\<close>

section \<open>Definitions\<close>

abbreviation n_data :: "DiskInode \<Rightarrow> nat" where
  "n_data ino \<equiv> unat (data_blocks ino)"

definition cells_of :: "(nat \<Rightarrow> bytes) \<Rightarrow> DiskInode \<Rightarrow> u32 list" where
  "cells_of d ino = inode_cells d ino (n_data ino)"

abbreviation used_inodes :: "EasyFileSystem \<Rightarrow> (nat \<Rightarrow> bytes) \<Rightarrow> nat set" where
  "used_inodes E d \<equiv> bm_used d (inode_bitmap E)"

abbreviation used_data :: "EasyFileSystem \<Rightarrow> (nat \<Rightarrow> bytes) \<Rightarrow> nat set" where
  "used_data E d \<equiv> bm_used d (data_bitmap E)"

definition MAX_FILE_SIZE :: nat where
  "MAX_FILE_SIZE = 16540 * 512"

definition inode_good :: "nat \<Rightarrow> EasyFileSystem \<Rightarrow> (nat \<Rightarrow> bytes) \<Rightarrow> DiskInode \<Rightarrow> bool" where
  "inode_good N E d ino \<longleftrightarrow> unat (isize ino) \<le> MAX_FILE_SIZE \<and> inode_ok N d ino (n_data ino) \<and>
     (\<forall>b \<in> set (cells_of d ino). data_start E \<le> unat b \<and> unat b - data_start E \<in> used_data E d)"

definition fs_inv :: "nat \<Rightarrow> EasyFileSystem \<Rightarrow> (nat \<Rightarrow> bytes) \<Rightarrow> bool" where
  "fs_inv N E d \<longleftrightarrow> efs_ok N E \<and> disk_ok N d \<and>
     (\<forall>i. unat i < Bitmap_maximum (inode_bitmap E) \<longrightarrow> inode_at E d i \<noteq> None) \<and>
     (\<forall>i ino. unat i \<in> used_inodes E d \<longrightarrow> inode_at E d i = Some ino \<longrightarrow> inode_good N E d ino) \<and>
     (\<forall>i j ino jno. unat i \<in> used_inodes E d \<longrightarrow> unat j \<in> used_inodes E d \<longrightarrow> i \<noteq> j \<longrightarrow>
        inode_at E d i = Some ino \<longrightarrow> inode_at E d j = Some jno \<longrightarrow>
        set (cells_of d ino) \<inter> set (cells_of d jno) = {})"

text \<open>The files of a disk: type and contents by inode number.\<close>

definition fs_files :: "EasyFileSystem \<Rightarrow> (nat \<Rightarrow> bytes) \<Rightarrow> u32 \<Rightarrow> (DiskInodeType \<times> bytes) option" where
  "fs_files E d i = (if unat i \<in> used_inodes E d
     then map_option (\<lambda>ino. (itype ino, inode_content d ino)) (inode_at E d i) else None)"

definition fs_free :: "nat \<Rightarrow> EasyFileSystem \<Rightarrow> (nat \<Rightarrow> bytes) \<Rightarrow> nat" where
  "fs_free N E d = card ({..<N - data_start E} - used_data E d)"

definition inode_ref :: "EasyFileSystem \<Rightarrow> u32 \<Rightarrow> Inode" where
  "inode_ref E i = (let (block_id, block_offset) = get_disk_inode_pos E i in Inode_new block_id block_offset)"

section \<open>Sizes\<close>

lemma n_data_size:
  assumes "unat (isize ino) \<le> MAX_FILE_SIZE"
  shows "n_data ino = (unat (isize ino) + 511) div 512" and "n_data ino \<le> 16540"
    and "unat (isize ino) \<le> n_data ino * 512" and "unat (total_blocks (isize ino)) = n_cells (n_data ino)"
proof -
  have sz: "unat (isize ino) \<le> 16540 * 512" using assms by (simp add: MAX_FILE_SIZE_def)
  then show eq: "n_data ino = (unat (isize ino) + 511) div 512"
    by (simp add: data_blocks_def data_blocks_of_exact)
  show "n_data ino \<le> 16540" using data_blocks_of_le [OF sz] by (simp add: data_blocks_def)
  show "unat (isize ino) \<le> n_data ino * 512"
    unfolding eq using div_mult_mod_eq [of "unat (isize ino) + 511" 512]
      mod_less_divisor [of 512 "unat (isize ino) + 511"] by linarith
  show "unat (total_blocks (isize ino)) = n_cells (n_data ino)"
    using total_blocks_exact [OF sz] by (simp add: data_blocks_def)
qed

lemma length_inode_content:
  assumes "inode_good N E d ino"
  shows "length (inode_content d ino) = unat (isize ino)"
proof -
  have sz: "unat (isize ino) \<le> MAX_FILE_SIZE" and ok: "inode_ok N d ino (n_data ino)"
    using assms by (simp_all add: inode_good_def)
  show ?thesis using length_data_bytes [OF ok] n_data_size(3) [OF sz] by (simp add: inode_content_def)
qed

lemma n_cells_mono: "m \<le> n \<Longrightarrow> n_cells m \<le> n_cells n"
  using n_subs_mono [OF diff_le_mono, of m n 156] by (auto simp: n_cells_def)

section \<open>Locality\<close>

text \<open>An inode depends on its blocks and its bits only.\<close>

lemma inode_good_frame:
  assumes good: "inode_good N E d ino" and disk: "disk_ok N d'"
    and same: "\<And>b. b \<in> set (cells_of d ino) \<Longrightarrow> d' (unat b) = d (unat b)"
    and bits: "\<And>b. b \<in> set (cells_of d ino) \<Longrightarrow> unat b - data_start E \<in> used_data E d'"
  shows "inode_good N E d' ino" and "cells_of d' ino = cells_of d ino"
    and "inode_content d' ino = inode_content d ino"
proof -
  have ok: "inode_ok N d ino (n_data ino)" using good by (simp add: inode_good_def)
  have cells: "set (cells_of d ino) = set (inode_meta d ino (n_data ino)) \<union> set (inode_data d ino (n_data ino))"
    unfolding cells_of_def by (rule set_inode_cells [OF ok])
  have meta: "\<And>b. b \<in> set (inode_meta d ino (n_data ino)) \<Longrightarrow> d' (unat b) = d (unat b)"
    using same cells by auto
  have frame: "inode_cells d' ino (n_data ino) = inode_cells d ino (n_data ino)"
      "inode_data d' ino (n_data ino) = inode_data d ino (n_data ino)" "inode_ok N d' ino (n_data ino)"
    using inode_frame [OF ok disk] meta by blast+
  show c: "cells_of d' ino = cells_of d ino" using frame(1) by (simp add: cells_of_def)
  show "inode_good N E d' ino"
    using good frame(3) bits by (simp add: inode_good_def c)
  have "data_bytes d' ino (n_data ino) = data_bytes d ino (n_data ino)"
    unfolding data_bytes_def frame(2)
    using same cells by (intro arg_cong [of _ _ concat] map_cong) auto
  then show "inode_content d' ino = inode_content d ino" by (simp add: inode_content_def)
qed

lemma fs_invD:
  assumes "fs_inv N E d"
  shows "efs_ok N E" and "disk_ok N d"
    and "unat i < Bitmap_maximum (inode_bitmap E) \<Longrightarrow> inode_at E d i \<noteq> None"
    and "unat i \<in> used_inodes E d \<Longrightarrow> inode_at E d i = Some ino \<Longrightarrow> inode_good N E d ino"
    and "unat i \<in> used_inodes E d \<Longrightarrow> unat j \<in> used_inodes E d \<Longrightarrow> i \<noteq> j \<Longrightarrow>
        inode_at E d i = Some ino \<Longrightarrow> inode_at E d j = Some jno \<Longrightarrow>
        set (cells_of d ino) \<inter> set (cells_of d jno) = {}"
  using assms unfolding fs_inv_def by blast+

lemma used_inodes_max: "k \<in> used_inodes E d \<Longrightarrow> k < Bitmap_maximum (inode_bitmap E)"
  by (simp add: bm_used_def)

lemma cells_in_data:
  assumes "inode_good N E d ino" and "b \<in> set (cells_of d ino)"
  shows "data_start E \<le> unat b" and "unat b < N" and "unat b - data_start E \<in> used_data E d"
  using assms inode_okD(7) by (auto simp: inode_good_def cells_of_def)

section \<open>Rewriting one inode\<close>

lemma fs_update:
  assumes inv: "fs_inv N E d" and i: "unat i \<in> used_inodes E d" and ino: "inode_at E d i = Some ino"
    and pos: "get_disk_inode_pos E i = (blk, off)" and old: "length old = 128"
    and disk: "disk_ok N d1"
    and frame: "\<And>b. b \<notin> bm_area (data_bitmap E) \<Longrightarrow> b < data_start E \<Longrightarrow> d1 b = d b"
    and others: "\<And>j jno b. unat j \<in> used_inodes E d \<Longrightarrow> j \<noteq> i \<Longrightarrow> inode_at E d j = Some jno \<Longrightarrow>
        b \<in> set (cells_of d jno) \<Longrightarrow> d1 (unat b) = d (unat b) \<and> unat b - data_start E \<in> used_data E d1"
    and good: "inode_good N E d1 ino'"
    and disj: "\<And>j jno. unat j \<in> used_inodes E d \<Longrightarrow> j \<noteq> i \<Longrightarrow> inode_at E d j = Some jno \<Longrightarrow>
        set (cells_of d1 ino') \<inter> set (cells_of d jno) = {}"
  defines "d2 \<equiv> d1(unat blk := buf_put off (DiskInode_encode ino' old) (d1 (unat blk)))"
  shows "fs_inv N E d2" and "fs_files E d2 = (fs_files E d)(i \<mapsto> (itype ino', inode_content d1 ino'))"
    and "used_data E d2 = used_data E d1" and "inode_at E d2 i = Some ino'" and "used_inodes E d2 = used_inodes E d"
    and "j \<noteq> i \<Longrightarrow> unat j < Bitmap_maximum (inode_bitmap E) \<Longrightarrow> inode_at E d2 j = inode_at E d j"
proof -
  note invD = fs_invD [OF inv]
  note areas = efs_areas [OF invD(1)]
  have imax: "unat i < Bitmap_maximum (inode_bitmap E)" using i by (rule used_inodes_max)
  have blk: "unat blk \<in> inode_area E" "off + 128 \<le> 512"
    using inode_pos [OF invD(1) imax] pos by (metis prod.inject)+
  have blk_lt: "unat blk < data_start E" "unat blk < N" "unat blk \<notin> bm_area (inode_bitmap E)"
    "unat blk \<notin> bm_area (data_bitmap E)"
    using blk(1) areas(3,5,6,9) by auto
  have len: "length (d1 (unat blk)) = 512" using disk blk_lt(2) by (simp add: disk_ok_def)
  have dir: "length (direct ino') = 28" using good by (simp add: inode_good_def inode_ok_def)
  have enc: "length (DiskInode_encode ino' old) = 128" using dir old by (rule length_DiskInode_encode)
  have disk2: "disk_ok N d2" using disk len enc blk(2) by (simp add: d2_def disk_ok_def)
  have d2_data: "d2 b = d1 b" if "data_start E \<le> b" for b using that blk_lt(1) by (simp add: d2_def)
  show bits: "used_data E d2 = used_data E d1"
    using blk_lt(4) by (intro bm_used_cong) (auto simp: d2_def)
  show used: "used_inodes E d2 = used_inodes E d"
    using blk_lt(3) frame areas(4,7) by (intro bm_used_cong) (force simp: d2_def)
  have at: "inode_at E d2 j = (if j = i then Some ino' else inode_at E d j)"
    if j: "unat j < Bitmap_maximum (inode_bitmap E)" for j
  proof -
    have "inode_at E d1 j = inode_at E d j"
      using frame areas(6,9) by (intro inode_at_cong [OF invD(1) j]) force
    then show ?thesis unfolding d2_def using inode_at_upd [where d = d1, OF invD(1) imax pos dir len old j] by simp
  qed
  then show "inode_at E d2 i = Some ino'"
    "j \<noteq> i \<Longrightarrow> unat j < Bitmap_maximum (inode_bitmap E) \<Longrightarrow> inode_at E d2 j = inode_at E d j"
    using imax by simp_all
  have new: "inode_good N E d2 ino'" "cells_of d2 ino' = cells_of d1 ino'" "inode_content d2 ino' = inode_content d1 ino'"
    using inode_good_frame [OF good disk2] cells_in_data [OF good] d2_data bits by auto
  have old_j: "inode_good N E d2 jno \<and> cells_of d2 jno = cells_of d jno \<and> inode_content d2 jno = inode_content d jno"
    if "unat j \<in> used_inodes E d" "j \<noteq> i" "inode_at E d j = Some jno" for j jno
  proof -
    have g: "inode_good N E d jno" using invD(4) that by blast
    then show ?thesis
      using inode_good_frame [OF g disk2] others [OF that] cells_in_data(1) [OF g] d2_data bits by auto
  qed
  show "fs_inv N E d2"
    unfolding fs_inv_def used
  proof (intro conjI allI impI)
    show "efs_ok N E" "disk_ok N d2" using invD(1) disk2 by simp_all
    show "inode_at E d2 j \<noteq> None" if "unat j < Bitmap_maximum (inode_bitmap E)" for j
      using at [OF that] invD(3) [OF that] by simp
  next
    fix j jno
    assume "unat j \<in> used_inodes E d" "inode_at E d2 j = Some jno"
    then show "inode_good N E d2 jno"
      using at [of j] used_inodes_max new(1) old_j by (auto split: if_splits)
  next
    fix j k jno kno
    assume jk: "unat j \<in> used_inodes E d" "unat k \<in> used_inodes E d" "j \<noteq> k"
      "inode_at E d2 j = Some jno" "inode_at E d2 k = Some kno"
    note at_jk = at [OF used_inodes_max [OF jk(1)]] at [OF used_inodes_max [OF jk(2)]]
    consider "j = i" "k \<noteq> i" | "k = i" "j \<noteq> i" | "j \<noteq> i" "k \<noteq> i" using jk(3) by blast
    then show "set (cells_of d2 jno) \<inter> set (cells_of d2 kno) = {}"
    proof cases
      case 1
      then have "jno = ino'" "inode_at E d k = Some kno" using at_jk jk(4,5) by simp_all
      with 1 jk(2) disj [of k kno] old_j [of k kno] new(2) show ?thesis by simp
    next
      case 2
      then have "kno = ino'" "inode_at E d j = Some jno" using at_jk jk(4,5) by simp_all
      with 2 jk(1) disj [of j jno] old_j [of j jno] new(2) show ?thesis by (simp add: Int_commute)
    next
      case 3
      then have "inode_at E d j = Some jno" "inode_at E d k = Some kno" using at_jk jk(4,5) by simp_all
      with 3 jk(1-3) invD(5) [of j k jno kno] old_j [of j jno] old_j [of k kno] show ?thesis by simp
    qed
  qed
  show "fs_files E d2 = (fs_files E d)(i \<mapsto> (itype ino', inode_content d1 ino'))"
  proof
    fix j
    show "fs_files E d2 j = ((fs_files E d)(i \<mapsto> (itype ino', inode_content d1 ino'))) j"
    proof (cases "j = i")
      case True
      with at imax i new(3) show ?thesis by (simp add: fs_files_def used)
    next
      case False
      with at [of j] old_j used_inodes_max show ?thesis
        by (auto simp: fs_files_def used map_option_case split: option.splits)
    qed
  qed
qed

end
