(* ===== verification/VfsGrow.thy ===== *)
theory VfsGrow
  imports FsInv
begin

text \<open>
  Growing and clearing an inode within a file system: the new blocks come from the
  free blocks of the data area, so the inode stays well formed and no other inode is
  touched; clearing gives all blocks back.
\<close>

section \<open>Growing keeps the contents\<close>

lemma grow_data:
  assumes ok: "inode_ok N d ino n0" and ok': "inode_ok N d' ino' n1" and n: "n0 \<le> n1"
    and cells: "inode_cells d' ino' n1 = inode_cells d ino n0 @ nb"
    and frame: "\<forall>b. b \<notin> unat ` set (inode_meta d' ino' n1) \<longrightarrow> d' b = d b \<or> b \<in> A"
    and A: "A \<inter> unat ` set (inode_data d ino n0) = {}"
  shows "take n0 (inode_data d' ino' n1) = inode_data d ino n0"
    and "take (n0 * 512) (data_bytes d' ino' n1) = data_bytes d ino n0"
proof -
  have len: "length (inode_data d ino n0) = n0" "length (inode_data d' ino' n1) = n1"
    using length_inode_data [OF ok] length_inode_data [OF ok'] .
  have nth: "inode_data d' ino' n1 ! i = inode_data d ino n0 ! i" if "i < n0" for i
  proof -
    have "cell_pos i < length (inode_cells d ino n0)"
      using cell_pos_less [OF that] length_inode_cells [OF ok] by simp
    then show ?thesis
      using nth_inode_cells [OF ok' order_less_le_trans [OF that n]] nth_inode_cells [OF ok that] cells
      by (simp add: nth_append)
  qed
  show data: "take n0 (inode_data d' ino' n1) = inode_data d ino n0"
    using len n nth by (intro nth_equalityI) simp_all
  then have split: "inode_data d' ino' n1 = inode_data d ino n0 @ drop n0 (inode_data d' ino' n1)"
    by (metis append_take_drop_id)
  have same: "d' (unat b) = d (unat b)" if "b \<in> set (inode_data d ino n0)" for b
  proof -
    have "b \<in> set (inode_data d' ino' n1)" using that split by (metis in_set_conv_decomp Un_iff set_append)
    then have "unat b \<notin> unat ` set (inode_meta d' ino' n1)"
      using inode_data_distinct(2) [OF ok'] by (auto simp: image_iff)
    then show ?thesis using frame A that by blast
  qed
  have eq: "map (\<lambda>b. d' (unat b)) (inode_data d ino n0) = map (\<lambda>b. d (unat b)) (inode_data d ino n0)"
    using same by simp
  have "data_bytes d' ino' n1 = data_bytes d ino n0 @ concat (map (\<lambda>b. d' (unat b)) (drop n0 (inode_data d' ino' n1)))"
    using arg_cong [OF split, of "\<lambda>xs. concat (map (\<lambda>b. d' (unat b)) xs)"]
    by (simp only: data_bytes_def map_append concat_append eq)
  then show "take (n0 * 512) (data_bytes d' ino' n1) = data_bytes d ino n0"
    using length_data_bytes [OF ok] by simp
qed

lemma n_data_mono:
  assumes "unat (isize ino) \<le> unat new_size" and "unat new_size \<le> MAX_FILE_SIZE"
  shows "n_data ino \<le> unat (data_blocks_of new_size)" and "unat (data_blocks_of new_size) \<le> 16540"
proof -
  have "n_data ino = (unat (isize ino) + 511) div 512" using assms by (intro n_data_size(1)) simp
  moreover have "unat (data_blocks_of new_size) = (unat new_size + 511) div 512"
    using assms(2) by (intro data_blocks_of_exact) (simp add: MAX_FILE_SIZE_def)
  ultimately show "n_data ino \<le> unat (data_blocks_of new_size)" using assms(1) by (simp add: div_le_mono)
  show "unat (data_blocks_of new_size) \<le> 16540"
    using assms(2) by (intro data_blocks_of_le) (simp add: MAX_FILE_SIZE_def)
qed

context block_store
begin

lemma alloc_many_returns:
  assumes "inv s" and ok: "efs_ok n_blocks E" and "card (held s) < 16"
    and "bm_area (data_bitmap E) \<inter> held s = {}" and "n \<le> fs_free n_blocks E (view s)"
  shows "returns (alloc_many B E n v s) (held s) (\<lambda>w d. \<exists>nb. w = v @ nb \<and> length nb = n \<and> distinct nb \<and>
    (\<forall>b \<in> set nb. data_start E \<le> unat b \<and> unat b < n_blocks \<and> unat b - data_start E \<notin> used_data E (view s)) \<and>
    used_data E d = used_data E (view s) \<union> (\<lambda>b. unat b - data_start E) ` set nb \<and>
    (\<forall>b. b \<notin> bm_area (data_bitmap E) \<longrightarrow> d b = view s b))"
  using assms(1,3-5)
proof (induction n arbitrary: v s)
  case 0
  then show ?case by (auto intro!: returns_Some)
next
  case (Suc n)
  let ?bits = "\<lambda>s. {..<n_blocks - data_start E} - used_data E (view s)"
  have "?bits s \<noteq> {}" using Suc.prems(4) unfolding fs_free_def by (metis card.empty Suc_le_D nat.distinct(1))
  then have free: "\<exists>k<n_blocks - data_start E. k \<notin> used_data E (view s)" by auto
  show ?case
    unfolding alloc_many.simps
  proof (rule returns_bind [OF alloc_data_returns [OF Suc.prems(1) ok order_refl Suc.prems(2,3) free]])
    fix b :: u32 and s1
    assume s1: "inv s1" "held s1 = held s" "data_start E \<le> unat b \<and> unat b < n_blocks \<and>
      unat b - data_start E \<notin> used_data E (view s) \<and>
      used_data E (view s1) = insert (unat b - data_start E) (used_data E (view s)) \<and>
      (\<forall>b. b \<notin> bm_area (data_bitmap E) \<longrightarrow> view s1 b = view s b)"
    have "?bits s1 = ?bits s - {unat b - data_start E}" using s1(3) by auto
    moreover have "unat b - data_start E \<in> ?bits s" using s1(3) by auto
    ultimately have "card (?bits s1) = card (?bits s) - 1" by (simp only: card_Diff_singleton)
    then have n: "n \<le> fs_free n_blocks E (view s1)" using Suc.prems(4) by (simp add: fs_free_def)
    have "returns (alloc_many B E n (v @ [b]) s1) (held s1) (\<lambda>w d. \<exists>nb. w = (v @ [b]) @ nb \<and> length nb = n \<and>
      distinct nb \<and> (\<forall>b \<in> set nb. data_start E \<le> unat b \<and> unat b < n_blocks \<and>
        unat b - data_start E \<notin> used_data E (view s1)) \<and>
      used_data E d = used_data E (view s1) \<union> (\<lambda>b. unat b - data_start E) ` set nb \<and>
      (\<forall>b. b \<notin> bm_area (data_bitmap E) \<longrightarrow> d b = view s1 b))"
      using s1(1,2) Suc.prems(2,3) n by (intro Suc.IH) simp_all
    then show "returns (case (b, s1) of (b, s1) \<Rightarrow> alloc_many B E n (v @ [b]) s1) (held s) (\<lambda>w d. \<exists>nb. w = v @ nb \<and>
      length nb = Suc n \<and> distinct nb \<and> (\<forall>b \<in> set nb. data_start E \<le> unat b \<and> unat b < n_blocks \<and>
        unat b - data_start E \<notin> used_data E (view s)) \<and>
      used_data E d = used_data E (view s) \<union> (\<lambda>b. unat b - data_start E) ` set nb \<and>
      (\<forall>b. b \<notin> bm_area (data_bitmap E) \<longrightarrow> d b = view s b))"
      unfolding case_prod_conv s1(2)
    proof (rule returns_mono, elim exE conjE)
      fix w d nb
      assume "w = (v @ [b]) @ nb" "length nb = n" "distinct nb"
        "\<forall>b \<in> set nb. data_start E \<le> unat b \<and> unat b < n_blocks \<and> unat b - data_start E \<notin> used_data E (view s1)"
        "used_data E d = used_data E (view s1) \<union> (\<lambda>b. unat b - data_start E) ` set nb"
        "\<forall>b. b \<notin> bm_area (data_bitmap E) \<longrightarrow> d b = view s1 b"
      then show "\<exists>nb. w = v @ nb \<and> length nb = Suc n \<and> distinct nb \<and>
        (\<forall>b \<in> set nb. data_start E \<le> unat b \<and> unat b < n_blocks \<and> unat b - data_start E \<notin> used_data E (view s)) \<and>
        used_data E d = used_data E (view s) \<union> (\<lambda>b. unat b - data_start E) ` set nb \<and>
        (\<forall>b. b \<notin> bm_area (data_bitmap E) \<longrightarrow> d b = view s b)"
        using s1(3) by (intro exI [of _ "b # nb"]) auto
    qed
  qed
qed

lemma vfs_increase_returns:
  assumes inv: "inv s" and ok: "efs_ok n_blocks E" and room: "card (held s) < 15"
    and held: "bm_area (data_bitmap E) \<inter> held s = {}" "{data_start E..} \<inter> held s = {}"
    and good: "inode_good n_blocks E (view s) ino"
    and size: "isize ino \<le> new_size" "unat new_size \<le> MAX_FILE_SIZE"
    and free: "n_cells (unat (data_blocks_of new_size)) - n_cells (n_data ino) \<le> fs_free n_blocks E (view s)"
  shows "returns (Inode_increase_size B E new_size ino s) (held s) (\<lambda>ino' d. \<exists>nb.
    isize ino' = new_size \<and> itype ino' = itype ino \<and> inode_good n_blocks E d ino' \<and>
    cells_of d ino' = cells_of (view s) ino @ nb \<and>
    (\<forall>b \<in> set nb. data_start E \<le> unat b \<and> unat b - data_start E \<notin> used_data E (view s)) \<and>
    length nb = n_cells (unat (data_blocks_of new_size)) - n_cells (n_data ino) \<and>
    used_data E d = used_data E (view s) \<union> (\<lambda>b. unat b - data_start E) ` set nb \<and>
    (\<forall>b. b \<notin> bm_area (data_bitmap E) \<union> unat ` set (cells_of d ino') \<longrightarrow> d b = view s b) \<and>
    take (unat (isize ino)) (inode_content d ino') = inode_content (view s) ino)"
proof -
  let ?n0 = "n_data ino" and ?n1 = "unat (data_blocks_of new_size)" and ?d = "view s"
  have sz: "unat (isize ino) \<le> unat new_size" using size(1) by (simp add: word_le_nat_alt)
  have n: "?n0 \<le> ?n1" "?n1 \<le> 16540" using n_data_mono [OF sz size(2)] .
  have okI: "inode_ok n_blocks ?d ino ?n0" and szI: "unat (isize ino) \<le> MAX_FILE_SIZE"
    using good by (simp_all add: inode_good_def)
  have t1: "unat (total_blocks new_size) = n_cells ?n1"
    using total_blocks_exact [of new_size] size(2) by (simp add: MAX_FILE_SIZE_def)
  have t0: "unat (total_blocks (isize ino)) = n_cells ?n0" using n_data_size(4) [OF szI] .
  have needed: "blocks_num_needed ino new_size = Some (total_blocks new_size - total_blocks (isize ino))"
    "unat (total_blocks new_size - total_blocks (isize ino)) = n_cells ?n1 - n_cells ?n0"
    using size(1) n_cells_mono [OF n(1)] t0 t1 by (simp_all add: blocks_num_needed_def word_sub_exact)
  have room1: "card (held s) < 16" using room by simp
  obtain nb s1 where s1: "alloc_many B E (n_cells ?n1 - n_cells ?n0) [] s = Some (nb, s1)" "inv s1" "held s1 = held s"
      "length nb = n_cells ?n1 - n_cells ?n0" "distinct nb"
    and nb: "\<forall>b \<in> set nb. data_start E \<le> unat b \<and> unat b < n_blocks \<and> unat b - data_start E \<notin> used_data E ?d"
    and used: "used_data E (view s1) = used_data E ?d \<union> (\<lambda>b. unat b - data_start E) ` set nb"
    and same1: "\<forall>b. b \<notin> bm_area (data_bitmap E) \<longrightarrow> view s1 b = ?d b"
    using alloc_many_returns [OF inv ok room1 held(1) free, of "[]"] by (rule returnsE) auto
  have data_out: "b \<notin> bm_area (data_bitmap E)" if "data_start E \<le> b" for b
    using that efs_areas(8) [OF ok] by auto
  note old = inode_good_frame [OF good view_disk_ok [OF s1(2)]]
  have old1: "inode_good n_blocks E (view s1) ino" "cells_of (view s1) ino = cells_of ?d ino"
      "inode_content (view s1) ino = inode_content ?d ino"
    using old same1 used cells_in_data [OF good] data_out by auto
  have okI1: "inode_ok n_blocks (view s1) ino ?n0" using old1(1) by (simp add: inode_good_def)
  have disj: "set (cells_of ?d ino) \<inter> set nb = {}" using nb cells_in_data(3) [OF good] by auto
  have dist: "distinct (inode_cells (view s1) ino ?n0 @ nb)"
    using okI1 s1(5) disj old1(2) by (simp add: inode_ok_def cells_of_def)
  have free1: "unat ` set (inode_cells (view s1) ino ?n0 @ nb) \<inter> held s1 = {}"
    using held(2) nb cells_in_data(1) [OF old1(1)] s1(3) by (auto simp: cells_of_def)
  obtain ino' s2 where s2: "increase_size B new_size nb ino s1 = Some (ino', s2)" "inv s2" "held s2 = held s"
    and ino': "isize ino' = new_size \<and> itype ino' = itype ino \<and> inode_ok n_blocks (view s2) ino' ?n1 \<and>
      inode_cells (view s2) ino' ?n1 = inode_cells (view s1) ino ?n0 @ nb \<and>
      (\<forall>b. b \<notin> unat ` set (inode_meta (view s2) ino' ?n1) \<longrightarrow> view s2 b = view s1 b)"
    using increase_size_returns [OF s1(2) _ okI1 refl refl n s1(4) dist _ free1, unfolded s1(3), OF room] nb
    by (auto elim!: returnsE)
  have nd: "n_data ino' = ?n1" using ino' by (simp add: data_blocks_def)
  have cells: "cells_of (view s2) ino' = cells_of ?d ino @ nb"
    using ino' old1(2) by (simp add: cells_of_def nd)
  have meta: "set (inode_meta (view s2) ino' ?n1) \<subseteq> set (cells_of (view s2) ino')"
    using set_inode_cells [of n_blocks "view s2" ino' ?n1] ino' unfolding cells_of_def nd by blast
  have cells_ge: "data_start E \<le> unat b" if "b \<in> set (cells_of (view s2) ino')" for b
    using that cells nb cells_in_data(1) [OF good] by auto
  have frame: "view s2 b = ?d b" if "b \<notin> bm_area (data_bitmap E) \<union> unat ` set (cells_of (view s2) ino')" for b
  proof -
    have "b \<notin> unat ` set (inode_meta (view s2) ino' ?n1)" using that image_mono [OF meta, of unat] by auto
    then have "view s2 b = view s1 b" using ino' by simp
    also have "\<dots> = ?d b" using that same1 by simp
    finally show ?thesis .
  qed
  have used2: "used_data E (view s2) = used_data E (view s1)"
  proof (rule bm_used_cong)
    fix b assume b: "b \<in> bm_area (data_bitmap E)"
    have "b \<notin> unat ` set (inode_meta (view s2) ino' ?n1)"
    proof
      assume "b \<in> unat ` set (inode_meta (view s2) ino' ?n1)"
      then obtain c where "b = unat c" "c \<in> set (cells_of (view s2) ino')" using meta by auto
      with cells_ge have "data_start E \<le> b" by simp
      with data_out b show False by simp
    qed
    then show "view s2 b = view s1 b" using ino' by blast
  qed
  have good': "inode_good n_blocks E (view s2) ino'"
    unfolding inode_good_def nd used2 used cells
    using ino' size(2) cells_ge cells cells_in_data(3) [OF good] by auto
  have D: "take (?n0 * 512) (data_bytes (view s2) ino' ?n1) = data_bytes (view s1) ino ?n0"
    using ino' by (intro grow_data(2) [where A = "{}", OF okI1 _ n(1)]) auto
  have "take (unat (isize ino)) (data_bytes (view s2) ino' ?n1) =
      take (unat (isize ino)) (take (?n0 * 512) (data_bytes (view s2) ino' ?n1))"
    using n_data_size(3) [OF szI] by (simp add: min_absorb1)
  then have "take (unat (isize ino)) (data_bytes (view s2) ino' ?n1) = inode_content (view s1) ino"
    unfolding D inode_content_def .
  then have "take (unat (isize ino)) (inode_content (view s2) ino') = inode_content ?d ino"
    using ino' sz old1(3) by (simp add: inode_content_def nd min_def)
  moreover have "Inode_increase_size B E new_size ino s = Some (ino', s2)"
    using size(1) s1(1) s2(1) needed by (simp add: Inode_increase_size_def not_less [symmetric])
  ultimately show ?thesis
    using s2(2,3) good' cells s1(4) used used2 nb conjunct1 [OF ino'] conjunct1 [OF conjunct2 [OF ino']] frame
    unfolding returns_def by (intro exI [of _ ino'] exI [of _ s2] exI [of _ nb] conjI allI impI ballI) simp_all
qed

end

end
