(* ===== verification/VfsFile.thy ===== *)
theory VfsFile
  imports VfsGrow InodeClear
begin

text \<open>
  Reading, writing and clearing one file through its inode
  (\<^verbatim>\<open>read_at\<close>, \<^verbatim>\<open>write_at\<close> and \<^verbatim>\<open>clear\<close> of \<^verbatim>\<open>easy-fs/src/vfs.rs\<close>), against the abstract
  contents \<open>fs_files\<close>.

  \<open>inode_step\<close> is what a closure run by \<^verbatim>\<open>modify_disk_inode\<close> may do to the disk: it
  touches only the blocks of its inode, free blocks and the data bitmap.
  \<open>modify_file_returns\<close> turns such a closure into an update of one file that keeps
  \<open>fs_inv\<close>; the operations below only show that their closures are such steps.
\<close>

section \<open>Steps on one inode\<close>

definition inode_step ::
  "nat \<Rightarrow> EasyFileSystem \<Rightarrow> (nat \<Rightarrow> bytes) \<Rightarrow> DiskInode \<Rightarrow> (nat \<Rightarrow> bytes) \<Rightarrow> DiskInode \<Rightarrow> bool"
where
  "inode_step N E d ino d1 ino' \<longleftrightarrow> inode_good N E d1 ino' \<and>
     (\<forall>b. b \<notin> bm_area (data_bitmap E) \<longrightarrow> b < data_start E \<longrightarrow> d1 b = d b) \<and>
     (\<forall>b. data_start E \<le> unat b \<longrightarrow> unat b - data_start E \<in> used_data E d \<longrightarrow> b \<notin> set (cells_of d ino) \<longrightarrow>
        d1 (unat b) = d (unat b) \<and> unat b - data_start E \<in> used_data E d1) \<and>
     (\<forall>b \<in> set (cells_of d1 ino'). b \<in> set (cells_of d ino) \<or> unat b - data_start E \<notin> used_data E d)"

lemma inode_place:
  assumes inv: "fs_inv N E d" and i: "unat i \<in> used_inodes E d"
  obtains blk off ino where "get_disk_inode_pos E i = (blk, off)"
    and "inode_ref E i = \<lparr>vi_block_id = unat blk, vi_block_offset = off\<rparr>"
    and "unat blk < N" and "unat blk < data_start E" and "unat blk \<notin> bm_area (data_bitmap E)"
    and "unat blk \<notin> bm_area (inode_bitmap E)" and "off + 128 \<le> 512" and "inode_at E d i = Some ino"
    and "DiskInode_decode (buf_get off 128 (d (unat blk))) = Some ino" and "inode_good N E d ino"
    and "fs_files E d i = Some (itype ino, inode_content d ino)"
proof -
  note invD = fs_invD [OF inv]
  note areas = efs_areas [OF invD(1)]
  have imax: "unat i < Bitmap_maximum (inode_bitmap E)" using i by (rule used_inodes_max)
  obtain blk off where pos: "get_disk_inode_pos E i = (blk, off)" "unat blk \<in> inode_area E" "off + 128 \<le> 512"
    using inode_pos [OF invD(1) imax] by metis
  obtain ino where at: "inode_at E d i = Some ino" using invD(3) [OF imax] by blast
  have dec: "DiskInode_decode (buf_get off 128 (d (unat blk))) = Some ino"
    using at pos(1) by (simp add: inode_at_def)
  have ref: "inode_ref E i = \<lparr>vi_block_id = unat blk, vi_block_offset = off\<rparr>"
    using pos(1) by (simp add: inode_ref_def Inode_new_def)
  have b: "unat blk < N" "unat blk < data_start E" "unat blk \<notin> bm_area (data_bitmap E)"
      "unat blk \<notin> bm_area (inode_bitmap E)"
    using pos(2) areas(3,5,6,9) by auto
  have f: "fs_files E d i = Some (itype ino, inode_content d ino)" using i at by (simp add: fs_files_def)
  show ?thesis by (rule that [OF pos(1) ref b pos(3) at dec invD(4) [OF i at] f])
qed

lemma fs_files_used: "fs_files E d i = Some x \<Longrightarrow> unat i \<in> used_inodes E d"
  by (simp add: fs_files_def split: if_splits)

lemma fs_filesE:
  assumes "fs_files E d i = Some (t, bs)"
  obtains ino where "unat i \<in> used_inodes E d" and "inode_at E d i = Some ino" and "itype ino = t"
    and "inode_content d ino = bs"
  using assms by (auto simp: fs_files_def split: if_splits)

lemma fs_step:
  assumes inv: "fs_inv N E d" and i: "unat i \<in> used_inodes E d" and ino: "inode_at E d i = Some ino"
    and pos: "get_disk_inode_pos E i = (blk, off)" and old: "length old = 128" and disk: "disk_ok N d1"
    and step: "inode_step N E d ino d1 ino'"
  defines "d2 \<equiv> d1(unat blk := buf_put off (DiskInode_encode ino' old) (d1 (unat blk)))"
  shows "fs_inv N E d2" and "fs_files E d2 = (fs_files E d)(i \<mapsto> (itype ino', inode_content d1 ino'))"
    and "used_data E d2 = used_data E d1" and "inode_at E d2 i = Some ino'" and "used_inodes E d2 = used_inodes E d"
proof -
  have stepD: "inode_good N E d1 ino'"
    "\<And>b. b \<notin> bm_area (data_bitmap E) \<Longrightarrow> b < data_start E \<Longrightarrow> d1 b = d b"
    "\<And>b. data_start E \<le> unat b \<Longrightarrow> unat b - data_start E \<in> used_data E d \<Longrightarrow> b \<notin> set (cells_of d ino) \<Longrightarrow>
        d1 (unat b) = d (unat b) \<and> unat b - data_start E \<in> used_data E d1"
    "\<And>b. b \<in> set (cells_of d1 ino') \<Longrightarrow> b \<in> set (cells_of d ino) \<or> unat b - data_start E \<notin> used_data E d"
    using step unfolding inode_step_def by blast+
  have jD: "data_start E \<le> unat b \<and> unat b - data_start E \<in> used_data E d \<and> b \<notin> set (cells_of d ino)"
    if "unat j \<in> used_inodes E d" "j \<noteq> i" "inode_at E d j = Some jno" "b \<in> set (cells_of d jno)" for j jno b
  proof -
    have g: "inode_good N E d jno" using fs_invD(4) [OF inv that(1,3)] .
    have "set (cells_of d jno) \<inter> set (cells_of d ino) = {}"
      using fs_invD(5) [OF inv that(1) i that(2,3) ino] .
    then show ?thesis using cells_in_data(1,3) [OF g that(4)] that(4) by blast
  qed
  have others: "d1 (unat b) = d (unat b) \<and> unat b - data_start E \<in> used_data E d1"
    if "unat j \<in> used_inodes E d" "j \<noteq> i" "inode_at E d j = Some jno" "b \<in> set (cells_of d jno)" for j jno b
    using jD [OF that] stepD(3) by blast
  have disj: "set (cells_of d1 ino') \<inter> set (cells_of d jno) = {}"
    if "unat j \<in> used_inodes E d" "j \<noteq> i" "inode_at E d j = Some jno" for j jno
    using jD [OF that] stepD(4) by blast
  note upd = fs_update [OF inv i ino pos old disk stepD(2) others stepD(1) disj, folded d2_def]
  show "fs_inv N E d2" "fs_files E d2 = (fs_files E d)(i \<mapsto> (itype ino', inode_content d1 ino'))"
    "used_data E d2 = used_data E d1" "inode_at E d2 i = Some ino'" "used_inodes E d2 = used_inodes E d"
    by (rule upd; assumption)+
qed

lemma inode_step_cells:
  assumes "inode_good N E d ino" and "inode_good N E d1 ino'"
    and "\<And>b. b \<notin> unat ` set (cells_of d ino) \<Longrightarrow> d1 b = d b" and "used_data E d1 = used_data E d"
    and "set (cells_of d1 ino') \<subseteq> set (cells_of d ino)"
  shows "inode_step N E d ino d1 ino'"
proof -
  have "d1 b = d b" if "b < data_start E" for b
  proof -
    have "b \<notin> unat ` set (cells_of d ino)" using cells_in_data(1) [OF assms(1)] that by force
    then show ?thesis by (rule assms(3))
  qed
  moreover have "d1 (unat b) = d (unat b)" if "b \<notin> set (cells_of d ino)" for b
    using that by (intro assms(3)) auto
  ultimately show ?thesis using assms(2,4,5) unfolding inode_step_def by auto
qed

lemma inode_step_trans:
  assumes "inode_step N E d ino d1 ino1" and "inode_step N E d1 ino1 d2 ino2"
  shows "inode_step N E d ino d2 ino2"
proof -
  have a: "\<And>b. b \<notin> bm_area (data_bitmap E) \<Longrightarrow> b < data_start E \<Longrightarrow> d1 b = d b"
    "\<And>b. data_start E \<le> unat b \<Longrightarrow> unat b - data_start E \<in> used_data E d \<Longrightarrow> b \<notin> set (cells_of d ino) \<Longrightarrow>
        d1 (unat b) = d (unat b) \<and> unat b - data_start E \<in> used_data E d1"
    "\<And>b. b \<in> set (cells_of d1 ino1) \<Longrightarrow> b \<in> set (cells_of d ino) \<or> unat b - data_start E \<notin> used_data E d"
    using assms(1) unfolding inode_step_def by blast+
  have b: "inode_good N E d2 ino2" "\<And>b. b \<notin> bm_area (data_bitmap E) \<Longrightarrow> b < data_start E \<Longrightarrow> d2 b = d1 b"
    "\<And>b. data_start E \<le> unat b \<Longrightarrow> unat b - data_start E \<in> used_data E d1 \<Longrightarrow> b \<notin> set (cells_of d1 ino1) \<Longrightarrow>
        d2 (unat b) = d1 (unat b) \<and> unat b - data_start E \<in> used_data E d2"
    "\<And>b. b \<in> set (cells_of d2 ino2) \<Longrightarrow> b \<in> set (cells_of d1 ino1) \<or> unat b - data_start E \<notin> used_data E d1"
    using assms(2) unfolding inode_step_def by blast+
  show ?thesis
    unfolding inode_step_def
  proof (intro conjI allI impI ballI)
    fix b :: u32
    assume x: "data_start E \<le> unat b" "unat b - data_start E \<in> used_data E d" "b \<notin> set (cells_of d ino)"
    show "d2 (unat b) = d (unat b)" "unat b - data_start E \<in> used_data E d2"
      using a(2) [OF x] a(3) [of b] b(3) [OF x(1)] x(2,3) by auto
  next
    fix c assume c: "c \<in> set (cells_of d2 ino2)"
    then show "c \<in> set (cells_of d ino) \<or> unat c - data_start E \<notin> used_data E d"
      using a(2) [OF cells_in_data(1) [OF b(1) c]] a(3) [of c] b(4) [OF c] by blast
  qed (use a(1) b(1,2) in simp_all)
qed

text \<open>The blocks a file of a given size takes, index blocks included.\<close>

definition blocks_for :: "nat \<Rightarrow> nat" where
  "blocks_for sz = n_cells ((sz + 511) div 512)"

lemma blocks_for_mono: "m \<le> n \<Longrightarrow> blocks_for m \<le> blocks_for n"
  unfolding blocks_for_def by (intro n_cells_mono div_le_mono) simp

lemma blocks_for_size:
  "unat sz \<le> MAX_FILE_SIZE \<Longrightarrow> n_cells (unat (data_blocks_of sz)) = blocks_for (unat sz)"
  by (simp add: blocks_for_def MAX_FILE_SIZE_def data_blocks_of_exact)

lemma fs_free_grow:
  assumes good: "inode_good N E d ino'" and cells: "cells_of d ino' = cs @ nb"
    and nb: "\<forall>b \<in> set nb. data_start E \<le> unat b \<and> unat b - data_start E \<notin> used_data E d0"
    and used: "used_data E d = used_data E d0 \<union> (\<lambda>b. unat b - data_start E) ` set nb"
  shows "fs_free N E d + length nb = fs_free N E d0"
proof -
  let ?f = "\<lambda>b :: u32. unat b - data_start E" and ?A = "{..<N - data_start E} - used_data E d0"
  have dist: "distinct nb" using good cells by (simp add: inode_good_def inode_ok_def cells_of_def)
  have "inj_on ?f (set nb)" using nb by (intro inj_onI) (metis le_add_diff_inverse unat_eq_iff)
  then have card: "card (?f ` set nb) = length nb" using dist by (simp add: card_image distinct_card)
  have sub: "?f ` set nb \<subseteq> ?A"
  proof
    fix x assume "x \<in> ?f ` set nb"
    then obtain b where b: "b \<in> set nb" "x = ?f b" by blast
    have "unat b < N" using cells_in_data(2) [OF good] b(1) cells by simp
    with nb b show "x \<in> ?A" by auto
  qed
  have "{..<N - data_start E} - used_data E d = ?A - ?f ` set nb" unfolding used by blast
  then have "fs_free N E d = card ?A - length nb"
    using card_Diff_subset [OF finite_imageI sub] card by (simp add: fs_free_def)
  moreover have "length nb \<le> card ?A" using card_mono [OF _ sub] card by simp
  ultimately show ?thesis by (simp add: fs_free_def)
qed

lemma inode_good_0:
  assumes "disk_ok N d" and "length (direct ino) = 28" and "isize ino = 0"
  shows "inode_good N E d ino" and "cells_of d ino = []" and "inode_content d ino = []"
proof -
  have n: "n_data ino = 0" using assms(3) by (simp add: data_blocks_def data_blocks_of_exact)
  then show c: "cells_of d ino = []" by (simp add: cells_of_def inode_cells_def)
  show "inode_good N E d ino"
    unfolding inode_good_def c using assms c n by (simp add: inode_ok_def cells_of_def)
  show "inode_content d ino = []" using assms(3) by (simp add: inode_content_def)
qed

lemma fs_free_clear:
  assumes good: "inode_good N E d0 ino"
    and used: "used_data E d = used_data E d0 - (\<lambda>b. unat b - data_start E) ` set (cells_of d0 ino)"
  shows "fs_free N E d = fs_free N E d0 + blocks_for (unat (isize ino))"
proof -
  let ?f = "\<lambda>b :: u32. unat b - data_start E" and ?A = "{..<N - data_start E} - used_data E d0"
  let ?C = "?f ` set (cells_of d0 ino)"
  have sz: "unat (isize ino) \<le> MAX_FILE_SIZE" and ok: "inode_ok N d0 ino (n_data ino)"
    using good by (simp_all add: inode_good_def)
  have "inj_on ?f (set (cells_of d0 ino))"
    using cells_in_data(1) [OF good] by (intro inj_onI) (metis le_add_diff_inverse unat_eq_iff)
  then have "card ?C = length (cells_of d0 ino)"
    using ok by (simp add: card_image distinct_card inode_ok_def cells_of_def)
  then have card: "card ?C = blocks_for (unat (isize ino))"
    using length_inode_cells [OF ok] blocks_for_size [OF sz] by (simp add: cells_of_def data_blocks_def)
  have C: "x < N - data_start E \<and> x \<in> used_data E d0" if "x \<in> ?C" for x
    using that cells_in_data [OF good] by (auto simp: diff_less_mono)
  have "{..<N - data_start E} - used_data E d = ?A \<union> ?C" using C unfolding used by auto
  moreover have "?A \<inter> ?C = {}" using C by blast
  ultimately show ?thesis using card by (simp add: fs_free_def card_Un_disjoint)
qed

context block_store
begin

lemma view_ok: "inv s \<Longrightarrow> disk_ok n_blocks (view s)"
  using view_length by (simp add: disk_ok_def)

lemma read_file_returns:
  assumes s: "inv s" "held s = {}" and fs: "fs_inv n_blocks E (view s)" and i: "fs_files E (view s) i = Some (t, bs)"
    and f: "\<And>s1 ino. inv s1 \<Longrightarrow> view s1 = view s \<Longrightarrow> card (held s1) = 1 \<Longrightarrow> {data_start E..} \<inter> held s1 = {} \<Longrightarrow>
      inode_at E (view s) i = Some ino \<Longrightarrow>
      inode_good n_blocks E (view s) ino \<Longrightarrow> itype ino = t \<Longrightarrow> inode_content (view s) ino = bs \<Longrightarrow>
      returns (f ino s1) (held s1) Q"
  shows "returns (read_disk_inode B (inode_ref E i) f s) {} Q"
proof -
  obtain blk off ino where p: "get_disk_inode_pos E i = (blk, off)"
      "inode_ref E i = \<lparr>vi_block_id = unat blk, vi_block_offset = off\<rparr>" "unat blk < n_blocks" "unat blk < data_start E"
      "off + 128 \<le> 512" "DiskInode_decode (buf_get off 128 (view s (unat blk))) = Some ino" "inode_at E (view s) i = Some ino"
    and good: "inode_good n_blocks E (view s) ino" "fs_files E (view s) i = Some (itype ino, inode_content (view s) ino)"
    using inode_place [OF fs fs_files_used [OF i]] by metis
  have tb: "itype ino = t" "inode_content (view s) ino = bs" using good(2) i by simp_all
  have "returns (bc_read B (unat blk) off 128 (\<lambda>bs s1. do { ino \<leftarrow> DiskInode_decode bs; f ino s1 }) s) (held s) Q"
  proof (rule returns_read [OF s(1) p(3)])
    fix s1
    assume s1: "inv s1" "view s1 = view s" "held s1 = insert (unat blk) (held s)"
    have h: "held s1 = {unat blk}" using s1(3) s(2) by simp
    have "returns (f ino s1) (held s1) Q"
      by (rule f [OF s1(1,2) _ _ p(7) good(1) tb]) (use h p(4) in auto)
    then show "returns (do { ino \<leftarrow> DiskInode_decode (buf_get off 128 (view s (unat blk))); f ino s1 }) (insert (unat blk) (held s)) Q"
      using p(6) s1(3) by simp
  qed (use s(2) p(5) in auto)
  then show ?thesis using p(2) s(2) by (simp add: read_disk_inode_def)
qed

lemma modify_file_returns:
  assumes s: "inv s" "held s = {}" and fs: "fs_inv n_blocks E (view s)" and i: "fs_files E (view s) i = Some (t, bs)"
    and f: "\<And>s1 ino. inv s1 \<Longrightarrow> view s1 = view s \<Longrightarrow> card (held s1) = 1 \<Longrightarrow> {data_start E..} \<inter> held s1 = {} \<Longrightarrow>
      bm_area (data_bitmap E) \<inter> held s1 = {} \<Longrightarrow> inode_at E (view s) i = Some ino \<Longrightarrow>
      inode_good n_blocks E (view s) ino \<Longrightarrow> itype ino = t \<Longrightarrow> inode_content (view s) ino = bs \<Longrightarrow>
      returns (f ino s1) (held s1) (\<lambda>(v, ino') d1. inode_step n_blocks E (view s) ino d1 ino' \<and>
        P v (itype ino', inode_content d1 ino') (used_data E d1))"
  shows "returns (modify_disk_inode B (inode_ref E i) f s) {} (\<lambda>v d. fs_inv n_blocks E d \<and>
    used_inodes E d = used_inodes E (view s) \<and>
    (\<exists>x. fs_files E d = (fs_files E (view s))(i \<mapsto> x) \<and> P v x (used_data E d)))"
proof -
  have iu: "unat i \<in> used_inodes E (view s)" using i by (rule fs_files_used)
  obtain blk off ino where p: "get_disk_inode_pos E i = (blk, off)"
      "inode_ref E i = \<lparr>vi_block_id = unat blk, vi_block_offset = off\<rparr>" "unat blk < n_blocks" "unat blk < data_start E"
      "unat blk \<notin> bm_area (data_bitmap E)" "off + 128 \<le> 512" "inode_at E (view s) i = Some ino"
      "DiskInode_decode (buf_get off 128 (view s (unat blk))) = Some ino"
    and good: "inode_good n_blocks E (view s) ino" "fs_files E (view s) i = Some (itype ino, inode_content (view s) ino)"
    using inode_place [OF fs iu] by metis
  have tb: "itype ino = t" "inode_content (view s) ino = bs" using good(2) i by simp_all
  let ?old = "buf_get off 128 (view s (unat blk))"
  have old: "length ?old = 128" using view_length [OF s(1) p(3)] p(6) by simp
  have "returns (bc_modify_inode B (unat blk) off f s) (held s) (\<lambda>v d. fs_inv n_blocks E d \<and>
    used_inodes E d = used_inodes E (view s) \<and>
    (\<exists>x. fs_files E d = (fs_files E (view s))(i \<mapsto> x) \<and> P v x (used_data E d)))"
  proof (rule returns_modify_inode [OF s(1) p(3) _ _ p(6) p(8)])
    fix s1
    assume s1: "inv s1" "view s1 = view s" "held s1 = insert (unat blk) (held s)"
    have h: "held s1 = {unat blk}" using s1(3) s(2) by simp
    have "returns (f ino s1) (held s1) (\<lambda>(v, ino') d1. inode_step n_blocks E (view s) ino d1 ino' \<and>
        P v (itype ino', inode_content d1 ino') (used_data E d1))"
      by (rule f [OF s1(1,2) _ _ _ p(7) good(1) tb]) (use h p(4,5) in auto)
    then obtain v ino' s2 where s2: "f ino s1 = Some ((v, ino'), s2)" "inv s2" "held s2 = held s1"
        "inode_step n_blocks E (view s) ino (view s2) ino'"
        "P v (itype ino', inode_content (view s2) ino') (used_data E (view s2))"
      by (rule returnsE) auto
    note st = fs_step [OF fs iu p(7,1) old view_ok [OF s2(2)] s2(4)]
    have dir: "length (direct ino') = 28"
      using s2(4) by (simp add: inode_step_def inode_good_def inode_ok_def)
    show "returns (f ino s1) (insert (unat blk) (held s)) (\<lambda>(v, ino') d. length (direct ino') = 28 \<and>
      fs_inv n_blocks E (d(unat blk := buf_put off (DiskInode_encode ino' ?old) (d (unat blk)))) \<and>
      used_inodes E (d(unat blk := buf_put off (DiskInode_encode ino' ?old) (d (unat blk)))) = used_inodes E (view s) \<and>
      (\<exists>x. fs_files E (d(unat blk := buf_put off (DiskInode_encode ino' ?old) (d (unat blk)))) = (fs_files E (view s))(i \<mapsto> x) \<and>
        P v x (used_data E (d(unat blk := buf_put off (DiskInode_encode ino' ?old) (d (unat blk)))))))"
      unfolding s2(1) s1(3) [symmetric]
      by (rule returns_Some [OF s2(2,3)], unfold case_prod_conv st(2,3,5)) (use dir st(1) s2(5) in blast)
  qed (use s(2) in auto)
  then show ?thesis using p(2) s(2) by (simp add: modify_disk_inode_def)
qed

text \<open>\<^verbatim>\<open>read_at\<close> returns the part of the contents that overlaps the buffer.\<close>

lemma Inode_read_at_returns:
  assumes s: "inv s" "held s = {}" and fs: "fs_inv n_blocks E (view s)" and i: "fs_files E (view s) i = Some (t, bs)"
  shows "returns (Inode_read_at B (inode_ref E i) off buf s) {} (\<lambda>(k, buf') d. d = view s \<and>
    k = length (buf_get off (length buf) bs) \<and> buf' = buf_put 0 (buf_get off (length buf) bs) buf)"
  unfolding Inode_read_at_def
proof (rule read_file_returns [OF s fs i])
  fix s1 ino
  assume s1: "inv s1" "view s1 = view s" "card (held s1) = 1" "{data_start E..} \<inter> held s1 = {}"
    and good: "inode_good n_blocks E (view s) ino" and bs: "inode_content (view s) ino = bs"
  have g: "unat (isize ino) \<le> MAX_FILE_SIZE" "inode_ok n_blocks (view s) ino (n_data ino)"
    using good by (simp_all add: inode_good_def)
  have free: "unat ` set (inode_cells (view s) ino (n_data ino)) \<inter> held s1 = {}"
    using cells_in_data(1) [OF good] s1(4) by (auto simp: cells_of_def)
  show "returns (DiskInode_read_at B ino off buf s1) (held s1) (\<lambda>(k, buf') d. d = view s \<and>
    k = length (buf_get off (length buf) bs) \<and> buf' = buf_put 0 (buf_get off (length buf) bs) buf)"
    using read_at_returns [OF s1(1) _ refl n_data_size(3) [OF g(1)], unfolded s1(2) bs, OF g(2) _ free] s1(3) by simp
qed

text \<open>Growing a file to at least \<open>m\<close> bytes is a step on its inode.\<close>

lemma grow_returns:
  assumes s: "inv s" "card (held s) = 1" "{data_start E..} \<inter> held s = {}" "bm_area (data_bitmap E) \<inter> held s = {}"
    and ok: "efs_ok n_blocks E" and good: "inode_good n_blocks E (view s) ino"
    and m: "m \<le> MAX_FILE_SIZE" "blocks_for m \<le> blocks_for (unat (isize ino)) + fs_free n_blocks E (view s)"
  shows "returns (Inode_increase_size B E (of_nat m) ino s) (held s) (\<lambda>ino' d.
    inode_step n_blocks E (view s) ino d ino' \<and> itype ino' = itype ino \<and>
    unat (isize ino') = max (unat (isize ino)) m \<and>
    take (unat (isize ino)) (inode_content d ino') = inode_content (view s) ino \<and>
    fs_free n_blocks E d + blocks_for (unat (isize ino')) = fs_free n_blocks E (view s) + blocks_for (unat (isize ino)))"
proof (cases "(of_nat m :: u32) < isize ino")
  case True
  have m32: "unat (of_nat m :: u32) = m" using m(1) by (simp add: MAX_FILE_SIZE_def unat_of_nat take_bit_nat_eq_self)
  have "m < unat (isize ino)" using True m32 by (simp add: word_less_nat_alt)
  moreover have "inode_step n_blocks E (view s) ino (view s) ino"
    by (rule inode_step_cells [OF good good]) auto
  ultimately show ?thesis
    using True s(1) length_inode_content [OF good] by (auto simp: Inode_increase_size_def intro!: returns_Some)
next
  case False
  have m32: "unat (of_nat m :: u32) = m" using m(1) by (simp add: MAX_FILE_SIZE_def unat_of_nat take_bit_nat_eq_self)
  have le: "isize ino \<le> of_nat m" using False by simp
  then have le_m: "unat (isize ino) \<le> m" using m32 by (simp add: word_le_nat_alt)
  have sz: "unat (isize ino) \<le> MAX_FILE_SIZE" using good by (simp add: inode_good_def)
  have bf: "n_cells (unat (data_blocks_of (of_nat m))) = blocks_for m" "n_cells (n_data ino) = blocks_for (unat (isize ino))"
    using blocks_for_size [of "of_nat m"] blocks_for_size [OF sz] m(1) m32 by (simp_all add: data_blocks_def)
  have mono: "blocks_for (unat (isize ino)) \<le> blocks_for m"
    unfolding blocks_for_def using le_m by (intro n_cells_mono div_le_mono) simp
  have "card (held s) < 15" "unat (of_nat m :: u32) \<le> MAX_FILE_SIZE"
    "n_cells (unat (data_blocks_of (of_nat m))) - n_cells (n_data ino) \<le> fs_free n_blocks E (view s)"
    using s(2) m32 m bf by simp_all
  note grow = vfs_increase_returns [OF s(1) ok this(1) s(4,3) good le this(2,3)]
  show ?thesis
  proof (rule returns_mono [OF grow], elim exE conjE)
    fix ino' d nb
    assume g: "isize ino' = of_nat m" "itype ino' = itype ino" "inode_good n_blocks E d ino'"
      "cells_of d ino' = cells_of (view s) ino @ nb"
      "\<forall>b \<in> set nb. data_start E \<le> unat b \<and> unat b - data_start E \<notin> used_data E (view s)"
      "length nb = n_cells (unat (data_blocks_of (of_nat m))) - n_cells (n_data ino)"
      "used_data E d = used_data E (view s) \<union> (\<lambda>b. unat b - data_start E) ` set nb"
      "\<forall>b. b \<notin> bm_area (data_bitmap E) \<union> unat ` set (cells_of d ino') \<longrightarrow> d b = view s b"
      "take (unat (isize ino)) (inode_content d ino') = inode_content (view s) ino"
    have low: "d b = view s b" if b: "b \<notin> bm_area (data_bitmap E)" "b < data_start E" for b
    proof -
      have "b \<notin> unat ` set (cells_of d ino')" using cells_in_data(1) [OF g(3)] b(2) by force
      then show ?thesis using g(8) b(1) by simp
    qed
    have high: "d (unat b) = view s (unat b)"
      if b: "data_start E \<le> unat b" "unat b - data_start E \<in> used_data E (view s)" "b \<notin> set (cells_of (view s) ino)" for b
    proof -
      have "b \<notin> set (cells_of d ino')" using g(4,5) b(2,3) by auto
      moreover have "unat b \<notin> bm_area (data_bitmap E)" using efs_areas(8) [OF ok] b(1) by auto
      ultimately have "unat b \<notin> bm_area (data_bitmap E) \<union> unat ` set (cells_of d ino')" by auto
      then show ?thesis using g(8) by blast
    qed
    have "inode_step n_blocks E (view s) ino d ino'"
      unfolding inode_step_def using low high g(3-5,7) by auto
    moreover have "fs_free n_blocks E d + length nb = fs_free n_blocks E (view s)"
      by (rule fs_free_grow [OF g(3,4,5,7)])
    ultimately show "inode_step n_blocks E (view s) ino d ino' \<and> itype ino' = itype ino \<and>
      unat (isize ino') = max (unat (isize ino)) m \<and>
      take (unat (isize ino)) (inode_content d ino') = inode_content (view s) ino \<and>
      fs_free n_blocks E d + blocks_for (unat (isize ino')) = fs_free n_blocks E (view s) + blocks_for (unat (isize ino))"
      using g(1,2,6,9) m32 le_m bf mono by simp
  qed
qed

text \<open>Overwriting a part of the contents is a step on the inode.\<close>

lemma overwrite_returns:
  assumes s: "inv s" "card (held s) = 1" "{data_start E..} \<inter> held s = {}" and ok: "efs_ok n_blocks E"
    and good: "inode_good n_blocks E (view s) ino" and buf: "buf \<noteq> []" "off + length buf \<le> unat (isize ino)"
  shows "returns (DiskInode_write_at B ino off buf s) (held s) (\<lambda>k d. k = length buf \<and>
    inode_step n_blocks E (view s) ino d ino \<and> used_data E d = used_data E (view s) \<and>
    inode_content d ino = buf_put off buf (inode_content (view s) ino))"
proof -
  have g: "unat (isize ino) \<le> MAX_FILE_SIZE" "inode_ok n_blocks (view s) ino (n_data ino)"
    using good by (simp_all add: inode_good_def)
  have free: "unat ` set (inode_cells (view s) ino (n_data ino)) \<inter> held s = {}"
    using cells_in_data(1) [OF good] s(3) by (auto simp: cells_of_def)
  have off: "off < unat (isize ino)" using buf by (cases buf) auto
  have dat: "set (inode_data (view s) ino (n_data ino)) \<subseteq> set (cells_of (view s) ino)"
    using set_inode_cells [OF g(2)] by (auto simp: cells_of_def)
  have room: "card (held s) < 16" using s(2) by simp
  note wr = write_at_returns [OF s(1) g(2) refl n_data_size(3) [OF g(1)] room free off buf(1)]
  show ?thesis
  proof (rule returns_mono [OF wr], elim conjE)
    fix k d
    assume w: "k = min (length buf) (unat (isize ino) - off)" "inode_ok n_blocks d ino (n_data ino)"
      "inode_cells d ino (n_data ino) = inode_cells (view s) ino (n_data ino)"
      "inode_content d ino = buf_put off (take k buf) (inode_content (view s) ino)"
      "\<forall>b. b \<notin> unat ` set (inode_data (view s) ino (n_data ino)) \<longrightarrow> d b = view s b"
    have k: "k = length buf" using w(1) buf(2) by simp
    have frame: "d b = view s b" if "b \<notin> unat ` set (cells_of (view s) ino)" for b
      using w(5) that dat by blast
    have bits: "used_data E d = used_data E (view s)"
    proof (rule bm_used_cong)
      fix b assume "b \<in> bm_area (data_bitmap E)"
      then have "b < data_start E" using efs_areas(8) [OF ok] by auto
      then show "d b = view s b" using cells_in_data(1) [OF good] by (intro frame) force
    qed
    have c: "cells_of d ino = cells_of (view s) ino" using w(3) by (simp add: cells_of_def)
    have g': "inode_good n_blocks E d ino" using good w(2) bits c by (simp add: inode_good_def)
    have "inode_step n_blocks E (view s) ino d ino"
      by (rule inode_step_cells [OF good g' frame bits]) (simp_all add: c)
    then show "k = length buf \<and> inode_step n_blocks E (view s) ino d ino \<and> used_data E d = used_data E (view s) \<and>
      inode_content d ino = buf_put off buf (inode_content (view s) ino)"
      using k w(4) bits by simp
  qed
qed

lemma write_closure_returns:
  assumes s: "inv s" "card (held s) = 1" "{data_start E..} \<inter> held s = {}" "bm_area (data_bitmap E) \<inter> held s = {}"
    and ok: "efs_ok n_blocks E" and good: "inode_good n_blocks E (view s) ino"
    and m: "off + length buf \<le> MAX_FILE_SIZE" "buf \<noteq> []"
      "blocks_for (off + length buf) \<le> blocks_for (unat (isize ino)) + fs_free n_blocks E (view s)"
  shows "returns (do {
           (ino', s2) \<leftarrow> Inode_increase_size B E (of_nat (off + length buf)) ino s;
           (k, s3) \<leftarrow> DiskInode_write_at B ino' off buf s2;
           Some ((k, ino'), s3)
         }) (held s) (\<lambda>(k, ino') d. inode_step n_blocks E (view s) ino d ino' \<and> k = length buf \<and>
    itype ino' = itype ino \<and> (\<exists>base. inode_content d ino' = buf_put off buf base \<and>
      length base = max (unat (isize ino)) (off + length buf) \<and>
      take (unat (isize ino)) base = inode_content (view s) ino) \<and>
    card ({..<n_blocks - data_start E} - used_data E d) + blocks_for (max (unat (isize ino)) (off + length buf)) =
      fs_free n_blocks E (view s) + blocks_for (unat (isize ino)))"
proof (rule returns_bind [OF grow_returns [OF s ok good m(1,3)]], elim conjE, unfold case_prod_conv)
  fix ino1 s1
  assume s1: "inv s1" "held s1 = held s" and st: "inode_step n_blocks E (view s) ino (view s1) ino1"
    "itype ino1 = itype ino" "unat (isize ino1) = max (unat (isize ino)) (off + length buf)"
    "take (unat (isize ino)) (inode_content (view s1) ino1) = inode_content (view s) ino"
    "fs_free n_blocks E (view s1) + blocks_for (unat (isize ino1)) = fs_free n_blocks E (view s) + blocks_for (unat (isize ino))"
  have good1: "inode_good n_blocks E (view s1) ino1" using st(1) by (simp add: inode_step_def)
  have "returns (DiskInode_write_at B ino1 off buf s1) (held s1) (\<lambda>k d. k = length buf \<and>
    inode_step n_blocks E (view s1) ino1 d ino1 \<and> used_data E d = used_data E (view s1) \<and>
    inode_content d ino1 = buf_put off buf (inode_content (view s1) ino1))"
    by (rule overwrite_returns [OF s1(1) _ _ ok good1 m(2)]) (use s(2,3) s1(2) st(3) in simp_all)
  then obtain s2 where s2: "DiskInode_write_at B ino1 off buf s1 = Some (length buf, s2)" "inv s2" "held s2 = held s"
      "inode_step n_blocks E (view s1) ino1 (view s2) ino1" "used_data E (view s2) = used_data E (view s1)"
      "inode_content (view s2) ino1 = buf_put off buf (inode_content (view s1) ino1)"
    unfolding s1(2) by (rule returnsE) auto
  show "returns (do { (k, s3) \<leftarrow> DiskInode_write_at B ino1 off buf s1; Some ((k, ino1), s3) }) (held s)
    (\<lambda>(k, ino') d. inode_step n_blocks E (view s) ino d ino' \<and> k = length buf \<and>
    itype ino' = itype ino \<and> (\<exists>base. inode_content d ino' = buf_put off buf base \<and>
      length base = max (unat (isize ino)) (off + length buf) \<and>
      take (unat (isize ino)) base = inode_content (view s) ino) \<and>
    card ({..<n_blocks - data_start E} - used_data E d) + blocks_for (max (unat (isize ino)) (off + length buf)) =
      fs_free n_blocks E (view s) + blocks_for (unat (isize ino)))"
    using s2(1-3,5,6) inode_step_trans [OF st(1) s2(4)] st(2-5) length_inode_content [OF good1]
    by (auto intro!: returns_Some simp: fs_free_def)
qed

text \<open>
  \<^verbatim>\<open>write_at\<close> stores the buffer, growing the file as needed. The bytes of a gap
  between the old end and the offset are what the new blocks held.
\<close>

lemma Inode_write_at_returns:
  assumes s: "inv s" "held s = {}" and fs: "fs_inv n_blocks E (view s)" and i: "fs_files E (view s) i = Some (t, bs)"
    and m: "off + length buf \<le> MAX_FILE_SIZE" "buf \<noteq> []"
      "blocks_for (off + length buf) \<le> blocks_for (length bs) + fs_free n_blocks E (view s)"
  shows "settles (Inode_write_at B E (inode_ref E i) off buf s) (\<lambda>k d. k = length buf \<and> fs_inv n_blocks E d \<and>
    used_inodes E d = used_inodes E (view s) \<and>
    (\<exists>base. fs_files E d = (fs_files E (view s))(i \<mapsto> (t, buf_put off buf base)) \<and>
      length base = max (length bs) (off + length buf) \<and> take (length bs) base = bs) \<and>
    fs_free n_blocks E d + blocks_for (max (length bs) (off + length buf)) =
      fs_free n_blocks E (view s) + blocks_for (length bs))"
proof -
  let ?f = "\<lambda>ino s1. do {
           (ino', s2) \<leftarrow> Inode_increase_size B E (of_nat (off + length buf)) ino s1;
           (k, s3) \<leftarrow> DiskInode_write_at B ino' off buf s2;
           Some ((k, ino'), s3)
         }"
  have "returns (modify_disk_inode B (inode_ref E i) ?f s) {} (\<lambda>v d. fs_inv n_blocks E d \<and>
    used_inodes E d = used_inodes E (view s) \<and>
    (\<exists>x. fs_files E d = (fs_files E (view s))(i \<mapsto> x) \<and> (v = length buf \<and>
      (\<exists>base. x = (t, buf_put off buf base) \<and>
        length base = max (length bs) (off + length buf) \<and> take (length bs) base = bs) \<and>
      card ({..<n_blocks - data_start E} - used_data E d) + blocks_for (max (length bs) (off + length buf)) =
        fs_free n_blocks E (view s) + blocks_for (length bs))))"
  proof (rule modify_file_returns [OF s fs i])
    fix s1 ino
    assume s1: "inv s1" "view s1 = view s" "card (held s1) = 1" "{data_start E..} \<inter> held s1 = {}"
        "bm_area (data_bitmap E) \<inter> held s1 = {}"
      and good: "inode_good n_blocks E (view s) ino" and t: "itype ino = t" and bs: "inode_content (view s) ino = bs"
    have len: "length bs = unat (isize ino)" using length_inode_content [OF good] bs by simp
    note w = write_closure_returns [OF s1(1,3-5) fs_invD(1) [OF fs], unfolded s1(2), OF good m(1,2) m(3) [unfolded len]]
    show "returns (?f ino s1) (held s1) (\<lambda>(v, ino') d1. inode_step n_blocks E (view s) ino d1 ino' \<and>
        (v = length buf \<and> (\<exists>base. (itype ino', inode_content d1 ino') = (t, buf_put off buf base) \<and>
          length base = max (length bs) (off + length buf) \<and> take (length bs) base = bs) \<and>
         card ({..<n_blocks - data_start E} - used_data E d1) + blocks_for (max (length bs) (off + length buf)) =
           fs_free n_blocks E (view s) + blocks_for (length bs)))"
      by (rule returns_mono [OF w]) (auto simp: len bs t)
  qed
  then obtain k s1 base where s1: "modify_disk_inode B (inode_ref E i) ?f s = Some (k, s1)" "inv s1" "held s1 = {}"
      and q: "k = length buf" "fs_inv n_blocks E (view s1)" "used_inodes E (view s1) = used_inodes E (view s)"
        "fs_files E (view s1) = (fs_files E (view s))(i \<mapsto> (t, buf_put off buf base))"
        "length base = max (length bs) (off + length buf)" "take (length bs) base = bs"
        "fs_free n_blocks E (view s1) + blocks_for (max (length bs) (off + length buf)) =
          fs_free n_blocks E (view s) + blocks_for (length bs)"
    unfolding fs_free_def by (rule returnsE) blast
  obtain s2 where s2: "sync_blocks B s1 = Some s2" "inv s2" "held s2 = {}" "view s2 = view s1" "durable s2"
    using sync_ok [OF s1(2,3)] by blast
  have "Inode_write_at B E (inode_ref E i) off buf s = Some (k, s2)"
    using s1(1) s2(1) by (simp add: Inode_write_at_def)
  with s2(2-5) q show ?thesis by (auto intro!: settles_Some)
qed

text \<open>A write that starts inside the file or at its end leaves no gap.\<close>

lemma Inode_write_inside_returns:
  assumes s: "inv s" "held s = {}" and fs: "fs_inv n_blocks E (view s)" and i: "fs_files E (view s) i = Some (t, bs)"
    and m: "off + length buf \<le> MAX_FILE_SIZE" "buf \<noteq> []"
      "blocks_for (off + length buf) \<le> blocks_for (length bs) + fs_free n_blocks E (view s)"
    and off: "off \<le> length bs"
  shows "settles (Inode_write_at B E (inode_ref E i) off buf s) (\<lambda>k d. k = length buf \<and> fs_inv n_blocks E d \<and>
    used_inodes E d = used_inodes E (view s) \<and>
    (\<exists>bs'. bs' = take off bs @ buf @ drop (off + length buf) bs \<and>
      fs_files E d = (fs_files E (view s))(i \<mapsto> (t, bs')) \<and>
      fs_free n_blocks E d + blocks_for (length bs') = fs_free n_blocks E (view s) + blocks_for (length bs)))"
proof -
  have put: "buf_put off buf base = take off bs @ buf @ drop (off + length buf) bs"
    if base: "length base = max (length bs) (off + length buf)" "take (length bs) base = bs" for base
  proof -
    have "take off base = take off bs" using off base(2) by (metis min.absorb1 take_take)
    moreover have "drop (off + length buf) base = drop (off + length buf) bs"
      using base by (cases "off + length buf \<le> length bs") (auto simp: max_def)
    ultimately show ?thesis by (simp add: buf_put_def)
  qed
  have len: "length (take off bs @ buf @ drop (off + length buf) bs) = max (length bs) (off + length buf)"
    using off by simp
  obtain k s' base where r: "Inode_write_at B E (inode_ref E i) off buf s = Some (k, s')" "inv s'" "held s' = {}"
      "durable s'" "k = length buf" "fs_inv n_blocks E (view s')" "used_inodes E (view s') = used_inodes E (view s)"
      "fs_files E (view s') = (fs_files E (view s))(i \<mapsto> (t, buf_put off buf base))"
      "length base = max (length bs) (off + length buf)" "take (length bs) base = bs"
      "fs_free n_blocks E (view s') + blocks_for (max (length bs) (off + length buf)) =
        fs_free n_blocks E (view s) + blocks_for (length bs)"
    using Inode_write_at_returns [OF s fs i m] unfolding settles_def by blast
  show ?thesis
    unfolding r(1) using r(2-7) r(8) [unfolded put [OF r(9,10)]] r(11) [folded len] by (intro settles_Some) blast+
qed

section \<open>Clearing\<close>

lemma dealloc_many_returns:
  assumes "inv s" and ok: "efs_ok n_blocks E" and "card (held s) < 16"
    and "bm_area (data_bitmap E) \<inter> held s = {}" and "unat ` set bs \<inter> held s = {}" and "distinct bs"
    and "\<forall>b \<in> set bs. data_start E \<le> unat b \<and> unat b < n_blocks \<and> unat b - data_start E \<in> used_data E (view s)"
  shows "returns (dealloc_many B E bs s) (held s) (\<lambda>u d.
    used_data E d = used_data E (view s) - (\<lambda>b. unat b - data_start E) ` set bs \<and>
    (\<forall>c. c \<notin> unat ` set bs \<union> bm_area (data_bitmap E) \<longrightarrow> d c = view s c))"
  using assms(1,3-7)
proof (induction bs arbitrary: s)
  case Nil
  then show ?case by (auto intro!: returns_Some)
next
  case (Cons b bs)
  have b: "unat b \<notin> held s" "data_start E \<le> unat b" "unat b < n_blocks" "unat b - data_start E \<in> used_data E (view s)"
    using Cons.prems by auto
  show ?case
    unfolding dealloc_many.simps
  proof (rule returns_bind [OF dealloc_data_returns [OF Cons.prems(1) ok order_refl Cons.prems(2,3) b]],
      elim conjE, unfold case_prod_conv)
    fix u s1
    assume s1: "inv s1" "held s1 = held s" "used_data E (view s1) = used_data E (view s) - {unat b - data_start E}"
      "\<forall>c. c \<notin> insert (unat b) (bm_area (data_bitmap E)) \<longrightarrow> view s1 c = view s c"
    have ne: "unat c - data_start E \<noteq> unat b - data_start E" if "c \<in> set bs" for c
    proof
      assume "unat c - data_start E = unat b - data_start E"
      then have "unat c = unat b" using that b(2) Cons.prems(6) by (metis le_add_diff_inverse list.set_intros(2))
      then show False using that Cons.prems(5) by simp
    qed
    have "returns (dealloc_many B E bs s1) (held s1) (\<lambda>u d.
      used_data E d = used_data E (view s1) - (\<lambda>b. unat b - data_start E) ` set bs \<and>
      (\<forall>c. c \<notin> unat ` set bs \<union> bm_area (data_bitmap E) \<longrightarrow> d c = view s1 c))"
      by (rule Cons.IH) (use s1(1-3) Cons.prems ne in auto)
    then show "returns (dealloc_many B E bs s1) (held s) (\<lambda>u d.
      used_data E d = used_data E (view s) - (\<lambda>b. unat b - data_start E) ` set (b # bs) \<and>
      (\<forall>c. c \<notin> unat ` set (b # bs) \<union> bm_area (data_bitmap E) \<longrightarrow> d c = view s c))"
      unfolding s1(2) by (rule returns_mono) (use s1(3,4) in auto)
  qed
qed

lemma clear_closure_returns:
  assumes s: "inv s" "card (held s) = 1" "{data_start E..} \<inter> held s = {}" "bm_area (data_bitmap E) \<inter> held s = {}"
    and ok: "efs_ok n_blocks E" and good: "inode_good n_blocks E (view s) ino"
  shows "returns (do {
           ((v, ino'), s2) \<leftarrow> clear_size B ino s;
           if length v = unat (total_blocks (isize ino)) then do {
             (u, s3) \<leftarrow> dealloc_many B E v s2;
             Some (((), ino'), s3)
           } else None
         }) (held s) (\<lambda>(k, ino') d. inode_step n_blocks E (view s) ino d ino' \<and>
    itype ino' = itype ino \<and> inode_content d ino' = [] \<and>
    fs_free n_blocks E d = fs_free n_blocks E (view s) + blocks_for (unat (isize ino)))"
proof -
  let ?C = "cells_of (view s) ino"
  have g: "unat (isize ino) \<le> MAX_FILE_SIZE" "inode_ok n_blocks (view s) ino (n_data ino)"
    using good by (simp_all add: inode_good_def)
  note cells = cells_in_data [OF good]
  have free: "unat ` set ?C \<inter> held s = {}" using cells(1) s(3) by auto
  have meta: "unat ` set (inode_meta (view s) ino (n_data ino)) \<inter> held s = {}"
    using free set_inode_cells [OF g(2)] by (auto simp: cells_of_def)
  have room: "card (held s) < 15" "card (held s) < 16" using s(2) by simp_all
  obtain ino' s1 where s1: "clear_size B ino s = Some ((?C, ino'), s1)" "inv s1" "held s1 = held s" "view s1 = view s"
      "isize ino' = 0" "length (direct ino') = 28" "itype ino' = itype ino"
    using clear_size_returns [OF s(1) room(1) g(2) refl meta] by (rule returnsE) (auto simp: cells_of_def)
  have len: "length ?C = unat (total_blocks (isize ino))"
    using length_inode_cells [OF g(2)] n_data_size(4) [OF g(1)] by (simp add: cells_of_def)
  have dist: "distinct ?C" using g(2) by (simp add: inode_ok_def cells_of_def)
  have "returns (dealloc_many B E ?C s1) (held s1) (\<lambda>u d.
    used_data E d = used_data E (view s1) - (\<lambda>b. unat b - data_start E) ` set ?C \<and>
    (\<forall>c. c \<notin> unat ` set ?C \<union> bm_area (data_bitmap E) \<longrightarrow> d c = view s1 c))"
    by (rule dealloc_many_returns [OF s1(2) ok]) (use s1(3,4) room s(4) free dist cells in auto)
  then obtain u s2 where s2: "dealloc_many B E ?C s1 = Some (u, s2)" "inv s2" "held s2 = held s"
    "used_data E (view s2) = used_data E (view s) - (\<lambda>b. unat b - data_start E) ` set ?C"
    "\<forall>c. c \<notin> unat ` set ?C \<union> bm_area (data_bitmap E) \<longrightarrow> view s2 c = view s c"
    unfolding s1(3,4) by (rule returnsE) blast
  note zero = inode_good_0 [OF view_ok [OF s2(2)] s1(6,5)]
  have low: "view s2 b = view s b" if "b \<notin> bm_area (data_bitmap E)" "b < data_start E" for b
    using s2(5) that cells(1) by force
  have high: "view s2 (unat b) = view s (unat b) \<and> unat b - data_start E \<in> used_data E (view s2)"
    if b: "data_start E \<le> unat b" "unat b - data_start E \<in> used_data E (view s)" "b \<notin> set ?C" for b
  proof -
    have "unat b \<notin> unat ` set ?C \<union> bm_area (data_bitmap E)" using b(1,3) efs_areas(8) [OF ok] by auto
    moreover have "unat b - data_start E \<notin> (\<lambda>b. unat b - data_start E) ` set ?C"
    proof
      assume "unat b - data_start E \<in> (\<lambda>b. unat b - data_start E) ` set ?C"
      then obtain c where c: "c \<in> set ?C" "unat b - data_start E = unat c - data_start E" by blast
      then have "unat b = unat c" using b(1) cells(1) by (metis le_add_diff_inverse)
      then show False using c(1) b(3) by simp
    qed
    ultimately show ?thesis using s2(4,5) b(2) by blast
  qed
  have "inode_step n_blocks E (view s) ino (view s2) ino'"
    unfolding inode_step_def zero(2) using zero(1) low high by simp
  then show ?thesis
    using s1(1,7) s2(1-3) len zero(3) fs_free_clear [OF good s2(4)] by (auto intro!: returns_Some)
qed

text \<open>\<^verbatim>\<open>clear\<close> empties the file and gives all its blocks back.\<close>

lemma Inode_clear_returns:
  assumes s: "inv s" "held s = {}" and fs: "fs_inv n_blocks E (view s)" and i: "fs_files E (view s) i = Some (t, bs)"
  shows "settles (Inode_clear B E (inode_ref E i) s) (\<lambda>_ d. fs_inv n_blocks E d \<and>
    used_inodes E d = used_inodes E (view s) \<and> fs_files E d = (fs_files E (view s))(i \<mapsto> (t, [])) \<and>
    fs_free n_blocks E d = fs_free n_blocks E (view s) + blocks_for (length bs))"
proof -
  let ?f = "\<lambda>ino s1. do {
           ((v, ino'), s2) \<leftarrow> clear_size B ino s1;
           if length v = unat (total_blocks (isize ino)) then do {
             (u, s3) \<leftarrow> dealloc_many B E v s2;
             Some (((), ino'), s3)
           } else None
         }"
  have "returns (modify_disk_inode B (inode_ref E i) ?f s) {} (\<lambda>v d. fs_inv n_blocks E d \<and>
    used_inodes E d = used_inodes E (view s) \<and>
    (\<exists>x. fs_files E d = (fs_files E (view s))(i \<mapsto> x) \<and> (x = (t, []) \<and>
      card ({..<n_blocks - data_start E} - used_data E d) = fs_free n_blocks E (view s) + blocks_for (length bs))))"
  proof (rule modify_file_returns [OF s fs i])
    fix s1 ino
    assume s1: "inv s1" "view s1 = view s" "card (held s1) = 1" "{data_start E..} \<inter> held s1 = {}"
        "bm_area (data_bitmap E) \<inter> held s1 = {}"
      and good: "inode_good n_blocks E (view s) ino" and t: "itype ino = t" and bs: "inode_content (view s) ino = bs"
    have len: "length bs = unat (isize ino)" using length_inode_content [OF good] bs by simp
    note w = clear_closure_returns [OF s1(1,3-5) fs_invD(1) [OF fs], unfolded s1(2), OF good]
    show "returns (?f ino s1) (held s1) (\<lambda>(v, ino') d1. inode_step n_blocks E (view s) ino d1 ino' \<and>
        ((itype ino', inode_content d1 ino') = (t, []) \<and>
         card ({..<n_blocks - data_start E} - used_data E d1) = fs_free n_blocks E (view s) + blocks_for (length bs)))"
      by (rule returns_mono [OF w]) (auto simp: len t fs_free_def)
  qed
  then obtain u s1 where s1: "modify_disk_inode B (inode_ref E i) ?f s = Some (u, s1)" "inv s1" "held s1 = {}"
      and q: "fs_inv n_blocks E (view s1)" "used_inodes E (view s1) = used_inodes E (view s)"
        "fs_files E (view s1) = (fs_files E (view s))(i \<mapsto> (t, []))"
        "fs_free n_blocks E (view s1) = fs_free n_blocks E (view s) + blocks_for (length bs)"
    unfolding fs_free_def by (rule returnsE) blast
  obtain s2 where s2: "sync_blocks B s1 = Some s2" "inv s2" "held s2 = {}" "view s2 = view s1" "durable s2"
    using sync_ok [OF s1(2,3)] by blast
  have "Inode_clear B E (inode_ref E i) s = Some ((), s2)"
    using s1(1) s2(1) by (simp add: Inode_clear_def)
  with s2(2-5) q show ?thesis by (auto intro!: settles_Some)
qed

end

end
