(* ===== verification/VfsDir.thy ===== *)
theory VfsDir
  imports VfsFile DirEntry
begin

text \<open>
  Directories (\<^verbatim>\<open>find\<close>, \<^verbatim>\<open>ls\<close>, \<^verbatim>\<open>create\<close>, \<^verbatim>\<open>link\<close>, \<^verbatim>\<open>unlink\<close> and \<^verbatim>\<open>get_link_num\<close> of
  \<^verbatim>\<open>easy-fs/src/vfs.rs\<close>), against the list of names and inode numbers that the bytes
  of a directory stand for.

  \<open>dir_ok\<close>: the bytes are whole entries whose names can be read. \<open>dir_list\<close>: the
  entries in order; a lookup is \<open>map_of\<close> on it.
\<close>

section \<open>The entries of a directory\<close>

definition dirent_at :: "bytes \<Rightarrow> nat \<Rightarrow> DirEntry" where
  "dirent_at bs i = DirEntry_of_bytes (buf_get (32 * i) 32 bs)"

definition dir_count :: "bytes \<Rightarrow> nat" where
  "dir_count bs = length bs div 32"

definition dir_ok :: "bytes \<Rightarrow> bool" where
  "dir_ok bs \<longleftrightarrow> length bs = 32 * dir_count bs \<and> (\<forall>i < dir_count bs. DirEntry_name (dirent_at bs i) \<noteq> None)"

definition dir_item :: "bytes \<Rightarrow> nat \<Rightarrow> bytes \<times> u32" where
  "dir_item bs i = (the (DirEntry_name (dirent_at bs i)), de_inode_id (dirent_at bs i))"

definition dir_list :: "bytes \<Rightarrow> (bytes \<times> u32) list" where
  "dir_list bs = map (dir_item bs) [0..<dir_count bs]"

lemma length_dir_list [simp]: "length (dir_list bs) = dir_count bs"
  by (simp add: dir_list_def)

lemma dir_Nil [simp]: "dir_ok []" "dir_list [] = []" "dir_count [] = 0"
  by (simp_all add: dir_ok_def dir_list_def dir_count_def)

lemma file_count_eq: "inode_good N E d ino \<Longrightarrow> file_count ino = dir_count (inode_content d ino)"
  by (simp add: file_count_def dir_count_def length_inode_content)

lemma dir_item_upt:
  assumes "k \<le> dir_count bs"
  shows "map (dir_item bs) [k..<dir_count bs] = drop k (dir_list bs)"
  by (simp add: dir_list_def drop_map)

lemma dir_append:
  assumes ok: "dir_ok bs" and e: "length (de_name e) = 28" "DirEntry_name e = Some name"
  shows "dir_ok (bs @ DirEntry_as_bytes e)" and "dir_list (bs @ DirEntry_as_bytes e) = dir_list bs @ [(name, de_inode_id e)]"
proof -
  let ?bs = "bs @ DirEntry_as_bytes e" and ?n = "dir_count bs"
  have len: "length bs = 32 * ?n" "length (DirEntry_as_bytes e) = 32"
    using ok length_as_bytes [OF e(1)] by (simp_all add: dir_ok_def)
  have n: "dir_count ?bs = Suc ?n" using len by (simp add: dir_count_def)
  have old: "dirent_at ?bs i = dirent_at bs i" if "i < ?n" for i
    using that len(1) by (simp add: dirent_at_def buf_get_def)
  have new: "dirent_at ?bs ?n = e"
    using len DirEntry_bytes_roundtrip [OF e(1)] by (simp add: dirent_at_def buf_get_def)
  show "dir_ok ?bs" using ok e(2) len old new by (auto simp: dir_ok_def n less_Suc_eq)
  have "dir_item ?bs ?n = (name, de_inode_id e)" using new e(2) by (simp add: dir_item_def)
  moreover have "map (dir_item ?bs) [0..<?n] = map (dir_item bs) [0..<?n]" using old by (simp add: dir_item_def)
  ultimately show "dir_list ?bs = dir_list bs @ [(name, de_inode_id e)]" by (simp add: dir_list_def n)
qed

section \<open>A new inode\<close>

lemma fs_add:
  fixes t
  assumes inv: "fs_inv N E d" and j: "unat j < Bitmap_maximum (inode_bitmap E)" "unat j \<notin> used_inodes E d"
    and disk: "disk_ok N d1" and same: "\<And>b. b \<notin> bm_area (inode_bitmap E) \<Longrightarrow> d1 b = d b"
    and used: "used_inodes E d1 = insert (unat j) (used_inodes E d)"
    and pos: "get_disk_inode_pos E j = (blk, off)" and old: "length old = 128"
  defines "d2 \<equiv> d1(unat blk := buf_put off (DiskInode_encode (empty_inode t) old) (d1 (unat blk)))"
  shows "fs_inv N E d2" and "fs_files E d2 = (fs_files E d)(j \<mapsto> (t, []))" and "used_data E d2 = used_data E d"
    and "used_inodes E d2 = insert (unat j) (used_inodes E d)"
proof -
  note invD = fs_invD [OF inv]
  note areas = efs_areas [OF invD(1)]
  have blk: "unat blk \<in> inode_area E" "off + 128 \<le> 512"
    using inode_pos [OF invD(1) j(1)] pos by (metis prod.inject)+
  have b: "unat blk < data_start E" "unat blk < N" "unat blk \<notin> bm_area (inode_bitmap E)" "unat blk \<notin> bm_area (data_bitmap E)"
    using blk(1) areas(3,5,6,9) by auto
  have len: "length (d1 (unat blk)) = 512" using disk b(2) by (simp add: disk_ok_def)
  have dir: "length (direct (empty_inode t)) = 28" "isize (empty_inode t) = 0" by (simp_all add: empty_inode_def)
  have enc: "length (DiskInode_encode (empty_inode t) old) = 128" using dir(1) old by (rule length_DiskInode_encode)
  have disk2: "disk_ok N d2" using disk len enc blk(2) by (simp add: d2_def disk_ok_def)
  have data: "d2 c = d c" if "data_start E \<le> c" for c
  proof -
    have "c \<notin> bm_area (inode_bitmap E)" "c \<noteq> unat blk" using that b(1) areas(7) by auto
    then show ?thesis using same by (simp add: d2_def)
  qed
  show bits: "used_data E d2 = used_data E d"
    using b(4) same areas(4) by (intro bm_used_cong) (auto simp: d2_def)
  show usd: "used_inodes E d2 = insert (unat j) (used_inodes E d)"
    unfolding used [symmetric] using b(3) by (intro bm_used_cong) (auto simp: d2_def)
  have at: "inode_at E d2 k = (if k = j then Some (empty_inode t) else inode_at E d k)"
    if k: "unat k < Bitmap_maximum (inode_bitmap E)" for k
  proof -
    have "inode_at E d1 k = inode_at E d k"
      using same areas(5) by (intro inode_at_cong [OF invD(1) k]) blast
    then show ?thesis
      unfolding d2_def using inode_at_upd [where d = d1, OF invD(1) j(1) pos dir(1) len old k] by simp
  qed
  note zero = inode_good_0 [OF disk2 dir]
  have keep: "inode_good N E d2 jno \<and> cells_of d2 jno = cells_of d jno \<and> inode_content d2 jno = inode_content d jno"
    if "unat k \<in> used_inodes E d" "inode_at E d k = Some jno" for k jno
  proof -
    have g: "inode_good N E d jno" using invD(4) that by blast
    have c: "d2 (unat b) = d (unat b)" "unat b - data_start E \<in> used_data E d2" if "b \<in> set (cells_of d jno)" for b
      using data [OF cells_in_data(1) [OF g that]] cells_in_data(3) [OF g that] bits by simp_all
    show ?thesis using inode_good_frame [OF g disk2 c] by simp
  qed
  have old_k: "k \<noteq> j \<and> unat k < Bitmap_maximum (inode_bitmap E)" if "unat k \<in> used_inodes E d" for k
    using that j(2) used_inodes_max by auto
  show "fs_inv N E d2"
    unfolding fs_inv_def usd
  proof (intro conjI allI impI)
    show "efs_ok N E" "disk_ok N d2" using invD(1) disk2 by simp_all
    show "inode_at E d2 k \<noteq> None" if "unat k < Bitmap_maximum (inode_bitmap E)" for k
      using at [OF that] invD(3) [OF that] by simp
  next
    fix k ino
    assume "unat k \<in> insert (unat j) (used_inodes E d)" "inode_at E d2 k = Some ino"
    then show "inode_good N E d2 ino" using at [of k] j(1) old_k [of k] zero(1) keep [of k] by auto
  next
    fix k l ino jno
    assume kl: "unat k \<in> insert (unat j) (used_inodes E d)" "unat l \<in> insert (unat j) (used_inodes E d)" "k \<noteq> l"
      "inode_at E d2 k = Some ino" "inode_at E d2 l = Some jno"
    show "set (cells_of d2 ino) \<inter> set (cells_of d2 jno) = {}"
    proof (cases "k = j \<or> l = j")
      case True
      then show ?thesis using at [of j] j(1) kl(4,5) zero(2) by auto
    next
      case False
      then have u: "unat k \<in> used_inodes E d" "unat l \<in> used_inodes E d" using kl(1,2) by auto
      then have at0: "inode_at E d k = Some ino" "inode_at E d l = Some jno"
        using at [of k] at [of l] old_k kl(4,5) by auto
      show ?thesis
        using invD(5) [OF u kl(3) at0] keep [OF u(1) at0(1)] keep [OF u(2) at0(2)] by simp
    qed
  qed
  show "fs_files E d2 = (fs_files E d)(j \<mapsto> (t, []))"
  proof
    fix k
    show "fs_files E d2 k = ((fs_files E d)(j \<mapsto> (t, []))) k"
    proof (cases "k = j")
      case True
      have "itype (empty_inode t) = t" by (simp add: empty_inode_def)
      then show ?thesis using True at [OF j(1)] zero(3) by (simp add: fs_files_def usd)
    next
      case False
      then show ?thesis
        using at [of k] old_k [of k] keep [of k] by (auto simp: fs_files_def usd map_option_case split: option.splits)
    qed
  qed
qed

context block_store
begin

lemma read_dirent_returns:
  assumes s: "inv s" "card (held s) = 1" "{data_start E..} \<inter> held s = {}"
    and good: "inode_good n_blocks E (view s) ino" and bs: "inode_content (view s) ino = bs" "dir_ok bs"
    and i: "i < dir_count bs" and e: "length (de_name e) = 28"
  shows "returns (read_dirent B ino i e s) (held s) (\<lambda>e' d. d = view s \<and> e' = dirent_at bs i)"
proof -
  have g: "unat (isize ino) \<le> MAX_FILE_SIZE" "inode_ok n_blocks (view s) ino (n_data ino)"
    using good by (simp_all add: inode_good_def)
  have free: "unat ` set (inode_cells (view s) ino (n_data ino)) \<inter> held s = {}"
    using cells_in_data(1) [OF good] s(3) by (auto simp: cells_of_def)
  have room: "card (held s) < 16" using s(2) by simp
  have len: "length (DirEntry_as_bytes e) = 32" using e by (rule length_as_bytes)
  have "32 * Suc i \<le> 32 * dir_count bs" using i by (intro mult_le_mono2) simp
  then have got: "length (buf_get (32 * i) 32 bs) = 32" using bs(2) by (simp add: dir_ok_def)
  show ?thesis
    using read_at_returns [OF s(1) g(2) refl n_data_size(3) [OF g(1)] room free, of "32 * i" "DirEntry_as_bytes e"]
    unfolding bs(1) len by (rule returnsE) (use got len in \<open>auto simp: read_dirent_def dirent_at_def intro!: returns_Some\<close>)
qed

lemma dirent_at_name: "i < dir_count bs \<Longrightarrow> dir_ok bs \<Longrightarrow> length (de_name (dirent_at bs i)) = 28"
proof -
  assume i: "i < dir_count bs" and ok: "dir_ok bs"
  have "32 * Suc i \<le> 32 * dir_count bs" using i by (intro mult_le_mono2) simp
  then show ?thesis using ok by (simp add: dirent_at_def DirEntry_of_bytes_def dir_ok_def)
qed

lemma find_loop_returns:
  assumes "inv s" and "card (held s) = 1" and "{data_start E..} \<inter> held s = {}"
    and "inode_good n_blocks E (view s) ino" and "inode_content (view s) ino = bs" and ok: "dir_ok bs"
    and "\<forall>i \<in> set is. i < dir_count bs" and "length (de_name e) = 28"
  shows "returns (find_loop B name ino is e s) (held s)
    (\<lambda>r d. d = view s \<and> r = map_of (map (dir_item bs) is) name)"
  using assms(1-5,7,8)
proof (induction "is" arbitrary: s e)
  case Nil
  then show ?case by (auto intro!: returns_Some)
next
  case (Cons i "is")
  have i: "i < dir_count bs" using Cons.prems(6) by simp
  obtain nm where nm: "DirEntry_name (dirent_at bs i) = Some nm" using ok i unfolding dir_ok_def by blast
  have item: "dir_item bs i = (nm, de_inode_id (dirent_at bs i))" using nm by (simp add: dir_item_def)
  obtain s1 where s1: "read_dirent B ino i e s = Some (dirent_at bs i, s1)" "inv s1" "held s1 = held s" "view s1 = view s"
    using read_dirent_returns [OF Cons.prems(1-5) ok i Cons.prems(7)] by (rule returnsE) auto
  show ?case
  proof (cases "nm = name")
    case True
    then show ?thesis using s1 nm item by (auto intro!: returns_Some)
  next
    case False
    have "returns (find_loop B name ino is (dirent_at bs i) s1) (held s1)
      (\<lambda>r d. d = view s1 \<and> r = map_of (map (dir_item bs) is) name)"
      by (rule Cons.IH) (use s1 Cons.prems dirent_at_name [OF i ok] in simp_all)
    then show ?thesis using False s1 nm item by simp
  qed
qed

lemma find_inode_id_returns:
  assumes "inv s" and "card (held s) = 1" and "{data_start E..} \<inter> held s = {}"
    and good: "inode_good n_blocks E (view s) ino" and "inode_content (view s) ino = bs" and "dir_ok bs"
    and "itype ino = Directory"
  shows "returns (find_inode_id B name ino s) (held s) (\<lambda>r d. d = view s \<and> r = map_of (dir_list bs) name)"
proof -
  have n: "file_count ino = dir_count bs" using file_count_eq [OF good] assms(5) by simp
  have "returns (find_loop B name ino [0..<dir_count bs] DirEntry_empty s) (held s)
    (\<lambda>r d. d = view s \<and> r = map_of (map (dir_item bs) [0..<dir_count bs]) name)"
    by (rule find_loop_returns [OF assms(1-6)]) auto
  then show ?thesis using assms(7) n by (simp add: find_inode_id_def is_dir_def dir_list_def)
qed

lemma Inode_find_returns:
  assumes s: "inv s" "held s = {}" and fs: "fs_inv n_blocks E (view s)"
    and i: "fs_files E (view s) i = Some (Directory, bs)" and ok: "dir_ok bs"
  shows "returns (Inode_find B E (inode_ref E i) name s) {} (\<lambda>r d. d = view s \<and>
    r = map_option (inode_ref E) (map_of (dir_list bs) name))"
  unfolding Inode_find_def
proof (rule read_file_returns [OF s fs i])
  fix s1 ino
  assume s1: "inv s1" "view s1 = view s" "card (held s1) = 1" "{data_start E..} \<inter> held s1 = {}"
    and good: "inode_good n_blocks E (view s) ino" and t: "itype ino = Directory" and bs: "inode_content (view s) ino = bs"
  have "returns (find_inode_id B name ino s1) (held s1) (\<lambda>r d. d = view s1 \<and> r = map_of (dir_list bs) name)"
    by (rule find_inode_id_returns [OF s1(1,3,4) _ _ ok t]) (use s1(2) good bs in simp_all)
  then obtain s2 where "find_inode_id B name ino s1 = Some (map_of (dir_list bs) name, s2)" "inv s2" "held s2 = held s1" "view s2 = view s"
    unfolding s1(2) by (rule returnsE) auto
  then show "returns (do { (r, s2) \<leftarrow> find_inode_id B name ino s1;
        Some (map_option (\<lambda>inode_id. let (block_id, block_offset) = get_disk_inode_pos E inode_id
                                     in Inode_new block_id block_offset) r, s2) }) (held s1)
    (\<lambda>r d. d = view s \<and> r = map_option (inode_ref E) (map_of (dir_list bs) name))"
    by (auto intro!: returns_Some option.map_cong simp: inode_ref_def)
qed

lemma lookup_returns:
  assumes s: "inv s" "held s = {}" and fs: "fs_inv n_blocks E (view s)"
    and i: "fs_files E (view s) i = Some (Directory, bs)" and ok: "dir_ok bs"
  shows "\<exists>s1. read_disk_inode B (inode_ref E i)
      (\<lambda>ino s1. if is_dir ino then find_inode_id B name ino s1 else None) s = Some (map_of (dir_list bs) name, s1) \<and>
    inv s1 \<and> held s1 = {} \<and> view s1 = view s"
proof -
  have "returns (read_disk_inode B (inode_ref E i)
      (\<lambda>ino s1. if is_dir ino then find_inode_id B name ino s1 else None) s) {}
      (\<lambda>r d. d = view s \<and> r = map_of (dir_list bs) name)"
  proof (rule read_file_returns [OF s fs i])
    fix s1 ino
    assume s1: "inv s1" "view s1 = view s" "card (held s1) = 1" "{data_start E..} \<inter> held s1 = {}"
      and good: "inode_good n_blocks E (view s) ino" and t: "itype ino = Directory" and bs: "inode_content (view s) ino = bs"
    have "returns (find_inode_id B name ino s1) (held s1) (\<lambda>r d. d = view s1 \<and> r = map_of (dir_list bs) name)"
      by (rule find_inode_id_returns [OF s1(1,3,4) _ _ ok t]) (use s1(2) good bs in simp_all)
    then show "returns (if is_dir ino then find_inode_id B name ino s1 else None) (held s1)
      (\<lambda>r d. d = view s \<and> r = map_of (dir_list bs) name)"
      using t s1(2) by (simp add: is_dir_def)
  qed
  then show ?thesis by (rule returnsE) blast
qed

lemma ls_loop_returns:
  assumes "inv s" and "card (held s) = 1" and "{data_start E..} \<inter> held s = {}"
    and "inode_good n_blocks E (view s) ino" and "inode_content (view s) ino = bs" and ok: "dir_ok bs"
    and "\<forall>i \<in> set is. i < dir_count bs"
  shows "returns (ls_loop B ino is v s) (held s) (\<lambda>r d. d = view s \<and> r = v @ map (\<lambda>i. fst (dir_item bs i)) is)"
  using assms(1-5,7)
proof (induction "is" arbitrary: s v)
  case Nil
  then show ?case by (auto intro!: returns_Some)
next
  case (Cons i "is")
  have i: "i < dir_count bs" using Cons.prems(6) by simp
  obtain nm where nm: "DirEntry_name (dirent_at bs i) = Some nm" using ok i unfolding dir_ok_def by blast
  then have item: "fst (dir_item bs i) = nm" by (simp add: dir_item_def)
  obtain s1 where s1: "read_dirent B ino i DirEntry_empty s = Some (dirent_at bs i, s1)" "inv s1" "held s1 = held s" "view s1 = view s"
    using read_dirent_returns [OF Cons.prems(1-5) ok i DirEntry_empty_length] by (rule returnsE) auto
  have "returns (ls_loop B ino is (v @ [nm]) s1) (held s1)
    (\<lambda>r d. d = view s1 \<and> r = (v @ [nm]) @ map (\<lambda>i. fst (dir_item bs i)) is)"
    by (rule Cons.IH) (use s1 Cons.prems in simp_all)
  then show ?case using s1 nm item by simp
qed

lemma Inode_ls_returns:
  assumes s: "inv s" "held s = {}" and fs: "fs_inv n_blocks E (view s)"
    and i: "fs_files E (view s) i = Some (t, bs)" and ok: "dir_ok bs"
  shows "returns (Inode_ls B (inode_ref E i) s) {} (\<lambda>r d. d = view s \<and> r = map fst (dir_list bs))"
  unfolding Inode_ls_def
proof (rule read_file_returns [OF s fs i])
  fix s1 ino
  assume s1: "inv s1" "view s1 = view s" "card (held s1) = 1" "{data_start E..} \<inter> held s1 = {}"
    and good: "inode_good n_blocks E (view s) ino" and bs: "inode_content (view s) ino = bs"
  have n: "file_count ino = dir_count bs" using file_count_eq [OF good] bs by simp
  have "returns (ls_loop B ino [0..<dir_count bs] [] s1) (held s1)
    (\<lambda>r d. d = view s1 \<and> r = [] @ map (\<lambda>i. fst (dir_item bs i)) [0..<dir_count bs])"
    by (rule ls_loop_returns [OF s1(1,3,4) _ _ ok]) (use s1(2) good bs in simp_all)
  then show "returns (ls_loop B ino [0..<file_count ino] [] s1) (held s1) (\<lambda>r d. d = view s \<and> r = map fst (dir_list bs))"
    by (simp add: n s1(2) dir_list_def comp_def)
qed

section \<open>Adding an entry\<close>

lemma append_closure_returns:
  assumes s: "inv s" "card (held s) = 1" "{data_start E..} \<inter> held s = {}" "bm_area (data_bitmap E) \<inter> held s = {}"
    and ok: "efs_ok n_blocks E" and good: "inode_good n_blocks E (view s) ino"
    and bs: "inode_content (view s) ino = bs" "dir_ok bs" and e: "DirEntry_new name j = Some e"
    and m: "length bs + 32 \<le> MAX_FILE_SIZE" "blocks_for (length bs + 32) \<le> blocks_for (length bs) + fs_free n_blocks E (view s)"
  shows "returns (append_dirent B E name j ino s) (held s) (\<lambda>(k, ino') d. inode_step n_blocks E (view s) ino d ino' \<and>
    itype ino' = itype ino \<and> inode_content d ino' = bs @ DirEntry_as_bytes e \<and>
    fs_free n_blocks E d + blocks_for (length bs + 32) = fs_free n_blocks E (view s) + blocks_for (length bs))"
proof -
  let ?b = "DirEntry_as_bytes e"
  have len: "length ?b = 32" using length_as_bytes [OF DirEntry_new_length [OF e]] .
  have sz: "length bs = unat (isize ino)" using length_inode_content [OF good] bs(1) by simp
  have n: "file_count ino * 32 = length bs" using file_count_eq [OF good] bs by (simp add: dir_ok_def)
  have n1: "(file_count ino + 1) * 32 = length bs + length ?b" using n len by simp
  have "length bs + length ?b \<le> MAX_FILE_SIZE" "?b \<noteq> []"
    "blocks_for (length bs + length ?b) \<le> blocks_for (unat (isize ino)) + fs_free n_blocks E (view s)"
    using m len sz by auto
  from write_closure_returns [OF s ok good this] obtain k ino' s3 base where
    w: "do { (ino', s2) \<leftarrow> Inode_increase_size B E (of_nat (length bs + length ?b)) ino s;
           (k, s3) \<leftarrow> DiskInode_write_at B ino' (length bs) ?b s2; Some ((k, ino'), s3) } = Some ((k, ino'), s3)"
      "inv s3" "held s3 = held s"
    and q: "inode_step n_blocks E (view s) ino (view s3) ino'" "itype ino' = itype ino"
      "inode_content (view s3) ino' = buf_put (length bs) ?b base" "length base = length bs + 32"
      "take (length bs) base = bs"
      "fs_free n_blocks E (view s3) + blocks_for (length bs + 32) = fs_free n_blocks E (view s) + blocks_for (length bs)"
    unfolding sz [symmetric] len bs(1) by (elim returnsE) (auto simp: fs_free_def)
  have "append_dirent B E name j ino s = Some (((), ino'), s3)"
    using w(1) e unfolding append_dirent_def Let_def dirent_consts n n1
    by (auto split: Option.bind_splits)
  moreover have "inode_content (view s3) ino' = bs @ ?b" using q(3-5) len by (simp add: buf_put_def)
  ultimately show ?thesis using w(2,3) q(1,2,6) by (auto intro!: returns_Some)
qed

lemma append_file_returns:
  assumes s: "inv s" "held s = {}" and fs: "fs_inv n_blocks E (view s)"
    and i: "fs_files E (view s) i = Some (t, bs)" and ok: "dir_ok bs" and e: "DirEntry_new name j = Some e"
    and m: "length bs + 32 \<le> MAX_FILE_SIZE" "blocks_for (length bs + 32) \<le> blocks_for (length bs) + fs_free n_blocks E (view s)"
  shows "\<exists>s1. modify_disk_inode B (inode_ref E i) (append_dirent B E name j) s = Some ((), s1) \<and> inv s1 \<and> held s1 = {} \<and>
    fs_inv n_blocks E (view s1) \<and> used_inodes E (view s1) = used_inodes E (view s) \<and>
    fs_files E (view s1) = (fs_files E (view s))(i \<mapsto> (t, bs @ DirEntry_as_bytes e)) \<and>
    fs_free n_blocks E (view s1) + blocks_for (length bs + 32) = fs_free n_blocks E (view s) + blocks_for (length bs)"
proof -
  have "returns (modify_disk_inode B (inode_ref E i) (append_dirent B E name j) s) {} (\<lambda>v d. fs_inv n_blocks E d \<and>
    used_inodes E d = used_inodes E (view s) \<and>
    (\<exists>x. fs_files E d = (fs_files E (view s))(i \<mapsto> x) \<and> (x = (t, bs @ DirEntry_as_bytes e) \<and>
      card ({..<n_blocks - data_start E} - used_data E d) + blocks_for (length bs + 32) =
        fs_free n_blocks E (view s) + blocks_for (length bs))))"
  proof (rule modify_file_returns [OF s fs i])
    fix s1 ino
    assume s1: "inv s1" "view s1 = view s" "card (held s1) = 1" "{data_start E..} \<inter> held s1 = {}"
        "bm_area (data_bitmap E) \<inter> held s1 = {}"
      and good: "inode_good n_blocks E (view s) ino" and t: "itype ino = t" and bs: "inode_content (view s) ino = bs"
    note w = append_closure_returns [OF s1(1,3-5) fs_invD(1) [OF fs], unfolded s1(2), OF good bs ok e m]
    show "returns (append_dirent B E name j ino s1) (held s1) (\<lambda>(v, ino') d1. inode_step n_blocks E (view s) ino d1 ino' \<and>
        ((itype ino', inode_content d1 ino') = (t, bs @ DirEntry_as_bytes e) \<and>
         card ({..<n_blocks - data_start E} - used_data E d1) + blocks_for (length bs + 32) =
           fs_free n_blocks E (view s) + blocks_for (length bs)))"
      by (rule returns_mono [OF w]) (auto simp: t fs_free_def)
  qed
  then show ?thesis unfolding fs_free_def by (rule returnsE) auto
qed

lemma new_inode_returns:
  assumes s: "inv s" "held s = {}" and fs: "fs_inv n_blocks E (view s)"
    and room: "used_inodes E (view s) \<noteq> {..<Bitmap_maximum (inode_bitmap E)}"
  obtains j blk off s1 s2 where "alloc_inode B E s = Some (j, s1)" and "get_disk_inode_pos E j = (blk, off)"
    and "bc_modify_inode B (unat blk) off (\<lambda>ino s. Some (((), DiskInode_initialize File ino), s)) s1 = Some ((), s2)"
    and "inv s2" and "held s2 = {}" and "unat j \<notin> used_inodes E (view s)" and "fs_inv n_blocks E (view s2)"
    and "fs_files E (view s2) = (fs_files E (view s))(j \<mapsto> (File, []))"
    and "used_data E (view s2) = used_data E (view s)"
    and "used_inodes E (view s2) = insert (unat j) (used_inodes E (view s))"
proof -
  note invD = fs_invD [OF fs]
  note areas = efs_areas [OF invD(1)]
  obtain j s1 where s1: "alloc_inode B E s = Some (j, s1)" "inv s1" "held s1 = {}"
    and j: "unat j < Bitmap_maximum (inode_bitmap E)" "unat j \<notin> used_inodes E (view s)"
      "used_inodes E (view s1) = insert (unat j) (used_inodes E (view s))"
    and same: "\<forall>b. b \<notin> bm_area (inode_bitmap E) \<longrightarrow> view s1 b = view s b"
    using alloc_inode_returns [OF s(1) invD(1) order_refl _ _ room] s(2) by (auto elim!: returnsE)
  obtain blk off where pos: "get_disk_inode_pos E j = (blk, off)" "unat blk \<in> inode_area E" "off + 128 \<le> 512"
    using inode_pos [OF invD(1) j(1)] by metis
  have blk: "unat blk < n_blocks" "unat blk \<notin> bm_area (inode_bitmap E)" using pos(2) areas(3,5) by auto
  obtain ino where "inode_at E (view s) j = Some ino" using invD(3) [OF j(1)] by blast
  then have dec: "DiskInode_decode (buf_get off 128 (view s1 (unat blk))) = Some ino"
    using pos(1) same blk(2) by (simp add: inode_at_def)
  let ?old = "buf_get off 128 (view s1 (unat blk))"
  have old: "length ?old = 128" using view_length [OF s1(2) blk(1)] pos(3) by simp
  have dir: "length (direct ino) = 28" using DiskInode_decode_direct [OF dec] .
  have "returns (bc_modify_inode B (unat blk) off (\<lambda>ino s. Some (((), DiskInode_initialize File ino), s)) s1) (held s1)
    (\<lambda>_ d. d = (view s1)(unat blk := buf_put off (DiskInode_encode (empty_inode File) ?old) (view s1 (unat blk))))"
    by (rule returns_modify_inode [OF s1(2) blk(1) _ _ pos(3) dec])
      (use s1(3) initialize_empty [OF dir] in \<open>auto intro!: returns_Some simp: empty_inode_def\<close>)
  then obtain s2 where s2: "bc_modify_inode B (unat blk) off (\<lambda>ino s. Some (((), DiskInode_initialize File ino), s)) s1 = Some ((), s2)"
      "inv s2" "held s2 = {}"
      "view s2 = (view s1)(unat blk := buf_put off (DiskInode_encode (empty_inode File) ?old) (view s1 (unat blk)))"
    unfolding s1(3) by (rule returnsE) auto
  have same': "\<And>b. b \<notin> bm_area (inode_bitmap E) \<Longrightarrow> view s1 b = view s b" using same by blast
  note add = fs_add [OF fs j(1,2) view_ok [OF s1(2)] same' j(3) pos(1) old, where t = File, folded s2(4)]
  show ?thesis by (rule that [OF s1(1) pos(1) s2(1-3) j(2)]) (rule add; assumption)+
qed

text \<open>\<^verbatim>\<open>create\<close> of a new name: a fresh empty file and one more entry.\<close>

lemma Inode_create_returns:
  assumes s: "inv s" "held s = {}" and fs: "fs_inv n_blocks E (view s)"
    and i: "fs_files E (view s) i = Some (Directory, bs)" and ok: "dir_ok bs"
    and name: "length name \<le> 27" "0 \<notin> set name" "utf8_valid name" "map_of (dir_list bs) name = None"
    and room: "used_inodes E (view s) \<noteq> {..<Bitmap_maximum (inode_bitmap E)}"
    and m: "length bs + 32 \<le> MAX_FILE_SIZE" "blocks_for (length bs + 32) \<le> blocks_for (length bs) + fs_free n_blocks E (view s)"
  shows "settles (Inode_create B E (inode_ref E i) name s) (\<lambda>r d. \<exists>j bs'. r = Some (inode_ref E j) \<and>
    fs_files E (view s) j = None \<and> fs_inv n_blocks E d \<and> dir_ok bs' \<and> dir_list bs' = dir_list bs @ [(name, j)] \<and>
    length bs' = length bs + 32 \<and>
    fs_files E d = (fs_files E (view s))(j \<mapsto> (File, []), i \<mapsto> (Directory, bs')) \<and>
    used_inodes E d = insert (unat j) (used_inodes E (view s)) \<and>
    fs_free n_blocks E d + blocks_for (length bs + 32) = fs_free n_blocks E (view s) + blocks_for (length bs))"
proof -
  obtain s1 where s1: "read_disk_inode B (inode_ref E i)
      (\<lambda>ino s1. if is_dir ino then find_inode_id B name ino s1 else None) s = Some (None, s1)"
    and s1': "inv s1" "held s1 = {}" and v1: "view s1 = view s"
    using lookup_returns [OF s fs i ok, of name] name(4) by auto
  obtain j blk off s2 s3 where s2: "alloc_inode B E s1 = Some (j, s2)" "get_disk_inode_pos E j = (blk, off)"
      "bc_modify_inode B (unat blk) off (\<lambda>ino s. Some (((), DiskInode_initialize File ino), s)) s2 = Some ((), s3)"
    and s3: "inv s3" "held s3 = {}" "unat j \<notin> used_inodes E (view s)" "fs_inv n_blocks E (view s3)"
      "fs_files E (view s3) = (fs_files E (view s))(j \<mapsto> (File, []))" "used_data E (view s3) = used_data E (view s)"
      "used_inodes E (view s3) = insert (unat j) (used_inodes E (view s))"
    by (rule new_inode_returns [OF s1', unfolded v1, OF fs room])
  let ?e = "\<lparr>de_name = name @ replicate (28 - length name) 0, de_inode_id = j\<rparr>"
  note e = DirEntry_new_name [OF name(1-3), where i = j]
  have ij: "i \<noteq> j" using fs_files_used [OF i] s3(3) by auto
  have i3: "fs_files E (view s3) i = Some (Directory, bs)" using s3(5) i ij by simp
  have m3: "blocks_for (length bs + 32) \<le> blocks_for (length bs) + fs_free n_blocks E (view s3)"
    using m(2) s3(6) by (simp add: fs_free_def)
  obtain s4 where s4: "modify_disk_inode B (inode_ref E i) (append_dirent B E name j) s3 = Some ((), s4)" "inv s4" "held s4 = {}"
    and q: "fs_inv n_blocks E (view s4)" "used_inodes E (view s4) = used_inodes E (view s3)"
      "fs_files E (view s4) = (fs_files E (view s3))(i \<mapsto> (Directory, bs @ DirEntry_as_bytes ?e))"
      "fs_free n_blocks E (view s4) + blocks_for (length bs + 32) = fs_free n_blocks E (view s3) + blocks_for (length bs)"
    using append_file_returns [OF s3(1,2,4) i3 ok e(1) m(1) m3] by blast
  obtain s5 where s5: "sync_blocks B s4 = Some s5" "inv s5" "held s5 = {}" "view s5 = view s4" "durable s5"
    using sync_ok [OF s4(2,3)] by blast
  have run: "Inode_create B E (inode_ref E i) name s = Some (Some (inode_ref E j), s5)"
    using s1 s2 s4(1) s5(1) by (simp add: Inode_create_def inode_ref_def)
  have len: "length (de_name ?e) = 28" using name(1) by simp
  have free3: "fs_free n_blocks E (view s3) = fs_free n_blocks E (view s)" using s3(6) by (simp add: fs_free_def)
  note app = dir_append [OF ok len e(2)] and blen = length_as_bytes [OF len]
  have files_j: "fs_files E (view s) j = None" using s3(3) by (simp add: fs_files_def)
  show ?thesis
    unfolding run
  proof (rule settles_Some [OF s5(2,3,5)], intro exI conjI)
    show "Some (inode_ref E j) = Some (inode_ref E j)" "fs_files E (view s) j = None" using files_j by simp_all
    show "fs_inv n_blocks E (view s5)" "used_inodes E (view s5) = insert (unat j) (used_inodes E (view s))"
      "fs_files E (view s5) = (fs_files E (view s))(j \<mapsto> (File, []), i \<mapsto> (Directory, bs @ DirEntry_as_bytes ?e))"
      "fs_free n_blocks E (view s5) + blocks_for (length bs + 32) = fs_free n_blocks E (view s) + blocks_for (length bs)"
      using q s3(5,7) free3 unfolding s5(4) by simp_all
    show "dir_ok (bs @ DirEntry_as_bytes ?e)" "dir_list (bs @ DirEntry_as_bytes ?e) = dir_list bs @ [(name, j)]"
      "length (bs @ DirEntry_as_bytes ?e) = length bs + 32"
      using app blen by simp_all
  qed
qed

lemma Inode_create_exists_returns:
  assumes s: "inv s" "held s = {}" and fs: "fs_inv n_blocks E (view s)"
    and i: "fs_files E (view s) i = Some (Directory, bs)" and ok: "dir_ok bs"
    and name: "map_of (dir_list bs) name \<noteq> None"
  shows "returns (Inode_create B E (inode_ref E i) name s) {} (\<lambda>r d. r = None \<and> d = view s)"
  using lookup_returns [OF s fs i ok, of name] name by (auto simp: Inode_create_def intro!: returns_Some)

text \<open>\<^verbatim>\<open>link\<close>: one more entry for the inode of the old name.\<close>

lemma Inode_link_returns:
  assumes s: "inv s" "held s = {}" and fs: "fs_inv n_blocks E (view s)"
    and i: "fs_files E (view s) i = Some (Directory, bs)" and ok: "dir_ok bs"
    and name: "length name \<le> 27" "0 \<notin> set name" "utf8_valid name" and old: "map_of (dir_list bs) old = Some j"
    and m: "length bs + 32 \<le> MAX_FILE_SIZE" "blocks_for (length bs + 32) \<le> blocks_for (length bs) + fs_free n_blocks E (view s)"
  shows "returns (Inode_link B E (inode_ref E i) old name s) {} (\<lambda>r d. \<exists>bs'. r = Some (inode_ref E j) \<and>
    fs_inv n_blocks E d \<and> dir_ok bs' \<and> dir_list bs' = dir_list bs @ [(name, j)] \<and> length bs' = length bs + 32 \<and>
    fs_files E d = (fs_files E (view s))(i \<mapsto> (Directory, bs')) \<and>
    fs_free n_blocks E d + blocks_for (length bs + 32) = fs_free n_blocks E (view s) + blocks_for (length bs))"
proof -
  obtain s1 where s1: "read_disk_inode B (inode_ref E i)
      (\<lambda>ino s1. if is_dir ino then find_inode_id B old ino s1 else None) s = Some (Some j, s1)"
    and s1': "inv s1" "held s1 = {}" and v1: "view s1 = view s"
    using lookup_returns [OF s fs i ok, of old] unfolding assms(9) by auto
  let ?e = "\<lparr>de_name = name @ replicate (28 - length name) 0, de_inode_id = j\<rparr>"
  note e = DirEntry_new_name [OF name, where i = j]
  obtain s4 where s4: "modify_disk_inode B (inode_ref E i) (append_dirent B E name j) s1 = Some ((), s4)" "inv s4" "held s4 = {}"
    and q: "fs_inv n_blocks E (view s4)"
      "fs_files E (view s4) = (fs_files E (view s))(i \<mapsto> (Directory, bs @ DirEntry_as_bytes ?e))"
      "fs_free n_blocks E (view s4) + blocks_for (length bs + 32) = fs_free n_blocks E (view s) + blocks_for (length bs)"
    using append_file_returns [OF s1', unfolded v1, OF fs i ok e(1) m] by blast
  have run: "Inode_link B E (inode_ref E i) old name s = Some (Some (inode_ref E j), s4)"
    using s1 s4(1) by (simp add: Inode_link_def inode_ref_def case_prod_unfold Let_def)
  have len: "length (de_name ?e) = 28" using name(1) by simp
  note app = dir_append [OF ok len e(2)] and blen = length_as_bytes [OF len]
  show ?thesis
    unfolding run
    by (rule returns_Some [OF s4(2,3)], intro exI [of _ "bs @ DirEntry_as_bytes ?e"]) (use q app blen in simp)
qed

end

end
