(* ===== verification/VfsUnlink.thy ===== *)
theory VfsUnlink
  imports VfsDir
begin

text \<open>
  Removing an entry (\<^verbatim>\<open>unlink\<close>) and counting the entries of an inode
  (\<^verbatim>\<open>get_link_num\<close>). \<^verbatim>\<open>unlink\<close> overwrites the first entry of the name with the last
  entry and shrinks the directory by one entry: \<open>dir_unlink\<close> on the list of entries.
  The size shrinks but no block is given back.
\<close>

section \<open>Shrinking an inode in place\<close>

lemma cells2_add: "cells2 e sub (m + k) = cells2 e sub m @ concat (map (cell2 e sub) [m..<m + k])"
  by (simp add: cells2_def upt_add_eq_append [of 0 m k, simplified])

lemma take_prefix [simp]: "\<exists>r. xs @ ys = take m xs @ r" "\<exists>r. xs = take m xs @ r"
  by (metis append.assoc append_take_drop_id)+

lemma inode_cells_prefix:
  assumes ok: "inode_ok N d ino n" and m: "m \<le> n"
  shows "\<exists>r. inode_cells d ino n = inode_cells d ino m @ r"
proof -
  have dir: "length (direct ino) = 28" using inode_okD(1) [OF ok] .
  consider "n \<le> 28" | "m \<le> 28" "28 < n" | "28 < m" "n \<le> 156" | "28 < m" "m \<le> 156" "156 < n" | "156 < m"
    by linarith
  then show ?thesis
  proof cases
    case 1
    have "take n (direct ino) = take m (direct ino) @ take (n - m) (drop m (direct ino))"
      using m take_add [of m "n - m" "direct ino"] by simp
    then show ?thesis using 1 m by (simp add: inode_cells_def)
  next
    case 2
    then show ?thesis using dir by (simp add: inode_cells_def)
  next
    case 3
    then have "take (n - 28) (slots d (indirect1 ino)) = take (m - 28) (slots d (indirect1 ino)) @
        take (n - m) (drop (m - 28) (slots d (indirect1 ino)))"
      using m take_add [of "m - 28" "n - m" "slots d (indirect1 ino)"] by simp
    then show ?thesis using 3 m dir by (simp add: inode_cells_def)
  next
    case 4
    then show ?thesis using dir inode_ok_slots(1) [OF ok] by (simp add: inode_cells_def)
  next
    case 5
    have "n - 156 = (m - 156) + (n - m)" using 5 m by simp
    then have "cells2 (slots d (indirect2 ino)) (slots d) (n - 156) = cells2 (slots d (indirect2 ino)) (slots d) (m - 156) @
        concat (map (cell2 (slots d (indirect2 ino)) (slots d)) [m - 156..<m - 156 + (n - m)])"
      by (simp only: cells2_add)
    then show ?thesis using 5 m dir inode_ok_slots(1) [OF ok] by (simp add: inode_cells_def)
  qed
qed

lemma isize_irrelevant [simp]:
  "inode_cells d (ino\<lparr>isize := sz\<rparr>) n = inode_cells d ino n" "data_bytes d (ino\<lparr>isize := sz\<rparr>) n = data_bytes d ino n"
  by (simp_all add: inode_cells_def data_bytes_def inode_data_def)

lemma shrink_good:
  assumes good: "inode_good N E d ino" and sz: "unat sz \<le> unat (isize ino)"
  shows "inode_good N E d (ino\<lparr>isize := sz\<rparr>)" and "set (cells_of d (ino\<lparr>isize := sz\<rparr>)) \<subseteq> set (cells_of d ino)"
    and "inode_content d (ino\<lparr>isize := sz\<rparr>) = take (unat sz) (inode_content d ino)"
proof -
  let ?i = "ino\<lparr>isize := sz\<rparr>"
  have g: "unat (isize ino) \<le> MAX_FILE_SIZE" "inode_ok N d ino (n_data ino)"
    using good by (simp_all add: inode_good_def)
  have n: "n_data ?i \<le> n_data ino"
    using n_data_mono(1) [of ?i "isize ino"] sz g(1) by (simp add: data_blocks_def)
  obtain r where r: "inode_cells d ino (n_data ino) = inode_cells d ino (n_data ?i) @ r"
    using inode_cells_prefix [OF g(2) n] by blast
  have ok1: "inode_ok N d ino (n_data ?i)"
    using g(2) n r unfolding inode_ok_def by auto
  have cells: "cells_of d ?i = inode_cells d ino (n_data ?i)" by (simp add: cells_of_def)
  show sub: "set (cells_of d ?i) \<subseteq> set (cells_of d ino)" unfolding cells by (simp add: cells_of_def r)
  have "inode_ok N d ?i (n_data ?i)" using ok1 by (simp add: inode_ok_def)
  then show "inode_good N E d ?i" using good sz sub by (auto simp: inode_good_def)
  have D: "take (n_data ?i * 512) (data_bytes d ino (n_data ino)) = data_bytes d ino (n_data ?i)"
    by (rule grow_data(2) [OF ok1 g(2) n r, of "{}"]) simp_all
  have "unat sz \<le> n_data ?i * 512" using n_data_size(3) [of ?i] sz g(1) by simp
  then show "inode_content d ?i = take (unat sz) (inode_content d ino)"
    using sz by (simp add: inode_content_def D [symmetric] min_def)
qed

section \<open>Removing from the list of entries\<close>

definition dir_unlink :: "bytes \<Rightarrow> (bytes \<times> u32) list \<Rightarrow> (bytes \<times> u32) list" where
  "dir_unlink name l = (case find_idx (\<lambda>x. fst x = name) l of
     None \<Rightarrow> l | Some k \<Rightarrow> butlast (l[k := last l]))"

lemma mset_butlast: "xs \<noteq> [] \<Longrightarrow> mset (butlast xs) = mset xs - {#last xs#}"
  by (induction xs rule: rev_induct) auto

lemma last_update: "k < length l \<Longrightarrow> last (l[k := last l]) = last l"
  by (cases l rule: rev_cases) (auto simp: list_update_append nth_append split: nat.splits)

lemma mset_dir_unlink:
  assumes "find_idx (\<lambda>x. fst x = name) l = Some k"
  shows "mset (dir_unlink name l) = mset l - {#l ! k#}"
proof -
  have k: "k < length l" using find_idx_SomeD [OF assms] by blast
  then have "mset (l[k := last l]) = add_mset (last l) (mset l - {#l ! k#})" by (simp add: mset_update)
  moreover have "l[k := last l] \<noteq> []" using k by auto
  ultimately show ?thesis using assms k by (simp add: dir_unlink_def mset_butlast last_update)
qed

lemma map_of_dir_unlink:
  assumes dist: "distinct (map fst l)"
  shows "map_of (dir_unlink name l) = (map_of l)(name := None)" and "distinct (map fst (dir_unlink name l))"
proof -
  have "map_of (dir_unlink name l) = (map_of l)(name := None) \<and> distinct (map fst (dir_unlink name l))"
  proof (cases "find_idx (\<lambda>x. fst x = name) l")
    case None
    then have "name \<notin> fst ` set l" by (auto simp: find_idx_None_iff)
    then have "map_of l name = None" by (simp add: map_of_eq_None_iff)
    then show ?thesis using None dist by (simp add: dir_unlink_def fun_upd_idem)
  next
    case (Some k)
    have k: "k < length l" "fst (l ! k) = name" using find_idx_SomeD [OF Some] by simp_all
    note ms = mset_dir_unlink [OF Some]
    have "mset (map fst l) = add_mset name (mset (map fst (dir_unlink name l)))"
      using k ms by (simp add: image_mset_Diff insert_DiffM flip: k(2))
    then have d: "distinct (name # map fst (dir_unlink name l))"
      using dist mset_eq_imp_distinct_iff [of "map fst l" "name # map fst (dir_unlink name l)"] by simp
    have "mset l = mset (l ! k # dir_unlink name l)" using k(1) ms by simp
    then have "set l = set (l ! k # dir_unlink name l)" by (rule mset_eq_setD)
    then have "map_of l = map_of (l ! k # dir_unlink name l)"
      using dist d k(2) by (intro map_of_inject_set [THEN iffD2]) simp_all
    then have "(map_of l)(name := None) = (map_of (dir_unlink name l))(name := None)"
      using k(2) by (cases "l ! k") simp
    moreover have "map_of (dir_unlink name l) name = None" using d by (simp add: map_of_eq_None_iff)
    ultimately show ?thesis using d by (simp add: fun_upd_idem)
  qed
  then show "map_of (dir_unlink name l) = (map_of l)(name := None)" "distinct (map fst (dir_unlink name l))"
    by simp_all
qed

text \<open>The bytes after the swap and the shrink stand for \<open>dir_unlink\<close>.\<close>

lemma dir_swap:
  assumes ok: "dir_ok bs" and k: "k < dir_count bs"
  defines "bs' \<equiv> take (length bs - 32) (buf_put (32 * k) (buf_get (32 * (dir_count bs - 1)) 32 bs) bs)"
  shows "dir_ok bs'" and "dir_list bs' = butlast ((dir_list bs)[k := last (dir_list bs)])"
    and "length bs' = length bs - 32"
proof -
  let ?n = "dir_count bs" and ?l = "buf_get (32 * (dir_count bs - 1)) 32 bs"
  have len: "length bs = 32 * ?n" using ok by (simp add: dir_ok_def)
  have "32 * Suc k \<le> 32 * ?n" using k by (intro mult_le_mono2) simp
  then have kk: "32 * k + 32 \<le> length bs" using len by simp
  have "32 * (?n - 1) + 32 = 32 * ?n" using k by (simp add: diff_mult_distrib2)
  then have ll: "length ?l = 32" using len by simp
  show len': "length bs' = length bs - 32" using kk ll by (simp add: bs'_def)
  have "32 * ?n - 32 = 32 * (?n - 1)" by (simp add: diff_mult_distrib2)
  then have "length bs' = 32 * (?n - 1)" using len' unfolding len by simp
  then have n': "dir_count bs' = ?n - 1" unfolding dir_count_def [of bs'] by simp
  have at: "dirent_at bs' i = dirent_at bs (if i = k then ?n - 1 else i)" if i: "i < ?n - 1" for i
  proof -
    have "32 * Suc i \<le> 32 * (?n - 1)" using i by (intro mult_le_mono2) simp
    then have ii: "32 * i + 32 \<le> length bs - 32" using len by (simp add: diff_mult_distrib2)
    have cut: "buf_get (32 * i) 32 bs' = buf_get (32 * i) 32 (buf_put (32 * k) ?l bs)"
      unfolding bs'_def using ii kk ll by (intro nth_equalityI) (auto simp: buf_get_def)
    show ?thesis
    proof (cases "i = k")
      case True
      then show ?thesis using cut kk ll by (simp add: dirent_at_def)
    next
      case False
      then have "32 * i + 32 \<le> 32 * k \<or> 32 * k + 32 \<le> 32 * i" by linarith
      then have "buf_get (32 * i) 32 (buf_put (32 * k) ?l bs) = buf_get (32 * i) 32 bs"
        using kk ll ii by (intro buf_get_put_disjoint) auto
      then show ?thesis using cut False by (simp add: dirent_at_def)
    qed
  qed
  have "?n - 1 < ?n" using k by simp
  then show "dir_ok bs'"
    using ok at len' n' by (auto simp: dir_ok_def diff_mult_distrib2)
  have last: "last (dir_list bs) = dir_item bs (?n - 1)"
    using k by (simp add: dir_list_def last_map)
  show "dir_list bs' = butlast ((dir_list bs)[k := last (dir_list bs)])"
    unfolding last
    by (rule nth_equalityI) (use k at n' in \<open>auto simp: dir_list_def nth_butlast nth_list_update dir_item_def\<close>)
qed

context block_store
begin

lemma read_entry_returns:
  assumes s: "inv s" "card (held s) = 1" "{data_start E..} \<inter> held s = {}"
    and good: "inode_good n_blocks E (view s) ino" and bs: "inode_content (view s) ino = bs" "dir_ok bs"
    and i: "i < dir_count bs" and buf: "length buf = 32"
  shows "\<exists>s1. DiskInode_read_at B ino (32 * i) buf s = Some ((32, buf_get (32 * i) 32 bs), s1) \<and>
    inv s1 \<and> held s1 = held s \<and> view s1 = view s"
proof -
  have g: "unat (isize ino) \<le> MAX_FILE_SIZE" "inode_ok n_blocks (view s) ino (n_data ino)"
    using good by (simp_all add: inode_good_def)
  have free: "unat ` set (inode_cells (view s) ino (n_data ino)) \<inter> held s = {}"
    using cells_in_data(1) [OF good] s(3) by (auto simp: cells_of_def)
  have room: "card (held s) < 16" using s(2) by simp
  have "32 * Suc i \<le> 32 * dir_count bs" using i by (intro mult_le_mono2) simp
  then have got: "length (buf_get (32 * i) 32 bs) = 32" using bs(2) by (simp add: dir_ok_def)
  show ?thesis
    using read_at_returns [OF s(1) g(2) refl n_data_size(3) [OF g(1)] room free, of "32 * i" buf]
    unfolding bs(1) buf by (rule returnsE) (use got buf in auto)
qed

lemma swap_returns:
  assumes s: "inv s" "card (held s) = 1" "{data_start E..} \<inter> held s = {}" and ok: "efs_ok n_blocks E"
    and good: "inode_good n_blocks E (view s) ino" and bs: "inode_content (view s) ino = bs" "dir_ok bs"
    and k: "k < dir_count bs"
  shows "returns (do {
         ((k2, swap), s2) \<leftarrow> DiskInode_read_at B ino (32 * (dir_count bs - 1)) (DirEntry_as_bytes DirEntry_empty) s;
         (k3, s3) \<leftarrow> DiskInode_write_at B ino (32 * k) swap s2;
         Some (((), ino\<lparr>isize := isize ino - of_nat 32\<rparr>), s3)
       }) (held s) (\<lambda>(v, ino') d. inode_step n_blocks E (view s) ino d ino' \<and> itype ino' = itype ino \<and>
    used_data E d = used_data E (view s) \<and>
    inode_content d ino' = take (length bs - 32) (buf_put (32 * k) (buf_get (32 * (dir_count bs - 1)) 32 bs) bs))"
proof -
  let ?n = "dir_count bs" and ?l = "buf_get (32 * (dir_count bs - 1)) 32 bs" and ?i = "ino\<lparr>isize := isize ino - of_nat 32\<rparr>"
  have n: "?n - 1 < ?n" using k by simp
  have blen: "length (DirEntry_as_bytes DirEntry_empty) = 32" by (rule length_as_bytes) simp
  obtain s2 where s2: "DiskInode_read_at B ino (32 * (?n - 1)) (DirEntry_as_bytes DirEntry_empty) s = Some ((32, ?l), s2)"
      "inv s2" "held s2 = held s" "view s2 = view s"
    using read_entry_returns [OF s good bs n blen] by blast
  have len: "length bs = unat (isize ino)" "length bs = 32 * ?n"
    using length_inode_content [OF good] bs by (simp_all add: dir_ok_def)
  have "32 * Suc k \<le> 32 * ?n" "32 * (?n - 1) + 32 = 32 * ?n"
    using k mult_le_mono2 [of "Suc k" ?n 32] by (simp_all add: diff_mult_distrib2)
  then have kk: "32 * k + 32 \<le> length bs" and ll: "length ?l = 32" using len(2) by simp_all
  have ne: "?l \<noteq> []" using ll by (metis list.size(3) zero_neq_numeral)
  have fits: "32 * k + length ?l \<le> unat (isize ino)" unfolding ll using kk len(1) by simp
  have "returns (DiskInode_write_at B ino (32 * k) ?l s2) (held s2) (\<lambda>w d. w = length ?l \<and>
    inode_step n_blocks E (view s2) ino d ino \<and> used_data E d = used_data E (view s2) \<and>
    inode_content d ino = buf_put (32 * k) ?l (inode_content (view s2) ino))"
    by (rule overwrite_returns [OF s2(2) _ _ ok _ ne fits]) (use s2(3,4) s good in simp_all)
  then obtain w s3 where s3: "DiskInode_write_at B ino (32 * k) ?l s2 = Some (w, s3)" "inv s3" "held s3 = held s"
    and st: "inode_step n_blocks E (view s) ino (view s3) ino" "used_data E (view s3) = used_data E (view s)"
      "inode_content (view s3) ino = buf_put (32 * k) ?l bs"
    unfolding s2(3,4) bs(1) by (rule returnsE) blast
  have sz: "unat (isize ino - of_nat 32) = length bs - 32"
    using kk len(1) by (simp add: unat_sub word_le_nat_alt)
  have g3: "inode_good n_blocks E (view s3) ino" using st(1) by (simp add: inode_step_def)
  have "unat (isize ino - of_nat 32) \<le> unat (isize ino)" using sz len(1) by simp
  note sh = shrink_good [OF g3 this]
  have "inode_step n_blocks E (view s3) ino (view s3) ?i"
    by (rule inode_step_cells [OF g3 sh(1)]) (use sh(2) in simp_all)
  then have "inode_step n_blocks E (view s) ino (view s3) ?i" by (rule inode_step_trans [OF st(1)])
  moreover have "inode_content (view s3) ?i = take (length bs - 32) (buf_put (32 * k) ?l bs)"
    unfolding sh(3) st(3) sz ..
  ultimately show ?thesis using s2(1) s3 st(2) by (auto intro!: returns_Some)
qed

lemma unlink_loop_returns:
  assumes "inv s" and "card (held s) = 1" and "{data_start E..} \<inter> held s = {}" and ok: "efs_ok n_blocks E"
    and "inode_good n_blocks E (view s) ino" and "inode_content (view s) ino = bs" and dir: "dir_ok bs"
    and "\<forall>i \<in> set is. i < dir_count bs" and "length (de_name e) = 28"
    and "find_idx (\<lambda>i. fst (dir_item bs i) = name) is = Some p"
  shows "returns (unlink_loop B name (dir_count bs) is e ino s) (held s)
    (\<lambda>(v, ino') d. inode_step n_blocks E (view s) ino d ino' \<and> itype ino' = itype ino \<and>
      used_data E d = used_data E (view s) \<and>
      inode_content d ino' = take (length bs - 32) (buf_put (32 * (is ! p)) (buf_get (32 * (dir_count bs - 1)) 32 bs) bs))"
  using assms(1-3,5,6,8-10)
proof (induction "is" arbitrary: s e p)
  case Nil
  then show ?case by simp
next
  case (Cons i "is")
  have i: "i < dir_count bs" using Cons.prems(6) by simp
  obtain nm where nm: "DirEntry_name (dirent_at bs i) = Some nm" using dir i unfolding dir_ok_def by blast
  then have item: "fst (dir_item bs i) = nm" by (simp add: dir_item_def)
  obtain s1 where s1: "DiskInode_read_at B ino (32 * i) (DirEntry_as_bytes e) s = Some ((32, buf_get (32 * i) 32 bs), s1)"
      "inv s1" "held s1 = held s" "view s1 = view s"
    using read_entry_returns [OF Cons.prems(1-5) dir i length_as_bytes [OF Cons.prems(7)]] by blast
  have e: "DirEntry_of_bytes (buf_get (32 * i) 32 bs) = dirent_at bs i" by (simp add: dirent_at_def)
  show ?case
  proof (cases "nm = name")
    case True
    have p: "p = 0" using Cons.prems(8) True item by simp
    have "card (held s1) = 1" "{data_start E..} \<inter> held s1 = {}" using Cons.prems(2,3) s1(3) by simp_all
    note sw = swap_returns [OF s1(2) this ok, unfolded s1(3,4), OF Cons.prems(4,5) dir i]
    show ?thesis using sw s1(1) nm e True p by simp
  next
    case False
    obtain q where q: "find_idx (\<lambda>i. fst (dir_item bs i) = name) is = Some q" "p = Suc q"
      using Cons.prems(8) False item by auto
    have "returns (unlink_loop B name (dir_count bs) is (dirent_at bs i) ino s1) (held s1)
      (\<lambda>(v, ino') d. inode_step n_blocks E (view s1) ino d ino' \<and> itype ino' = itype ino \<and>
      used_data E d = used_data E (view s1) \<and>
      inode_content d ino' = take (length bs - 32) (buf_put (32 * (is ! q)) (buf_get (32 * (dir_count bs - 1)) 32 bs) bs))"
      by (rule Cons.IH) (use s1 Cons.prems dirent_at_name [OF i dir] q in simp_all)
    then show ?thesis using False s1 nm e q(2) by simp
  qed
qed

lemma find_idx_map: "find_idx P (map f xs) = find_idx (\<lambda>x. P (f x)) xs"
  by (induction xs) auto

text \<open>\<^verbatim>\<open>unlink\<close> removes the first entry of the name.\<close>

lemma Inode_unlink_returns:
  assumes s: "inv s" "held s = {}" and fs: "fs_inv n_blocks E (view s)"
    and i: "fs_files E (view s) i = Some (Directory, bs)" and ok: "dir_ok bs"
    and name: "map_of (dir_list bs) name \<noteq> None"
  shows "returns (Inode_unlink B (inode_ref E i) name s) {} (\<lambda>r d. r = 0 \<and> fs_inv n_blocks E d \<and>
    (\<exists>bs'. dir_ok bs' \<and> dir_list bs' = dir_unlink name (dir_list bs) \<and> length bs' = length bs - 32 \<and>
      fs_files E d = (fs_files E (view s))(i \<mapsto> (Directory, bs'))) \<and>
    fs_free n_blocks E d = fs_free n_blocks E (view s))"
proof -
  obtain s1 x where s1: "read_disk_inode B (inode_ref E i)
      (\<lambda>ino s1. if is_dir ino then find_inode_id B name ino s1 else None) s = Some (Some x, s1)"
    and s1': "inv s1" "held s1 = {}" and v1: "view s1 = view s"
    using lookup_returns [OF s fs i ok, of name] name by auto
  have "find_idx (\<lambda>x. fst x = name) (dir_list bs) \<noteq> None"
    using name by (auto simp only: find_idx_None_iff map_of_eq_None_iff)
  then obtain k where k: "find_idx (\<lambda>x. fst x = name) (dir_list bs) = Some k" by blast
  have kn: "k < dir_count bs" using find_idx_SomeD [OF k] by simp
  have k': "find_idx (\<lambda>i. fst (dir_item bs i) = name) [0..<dir_count bs] = Some k"
    using k by (simp add: dir_list_def find_idx_map)
  note sw = dir_swap [OF ok kn]
  let ?bs = "take (length bs - 32) (buf_put (32 * k) (buf_get (32 * (dir_count bs - 1)) 32 bs) bs)"
  let ?f = "\<lambda>ino s2. unlink_loop B name (file_count ino) [0..<file_count ino] DirEntry_empty ino s2"
  have "returns (modify_disk_inode B (inode_ref E i) ?f s1) {} (\<lambda>v d. fs_inv n_blocks E d \<and>
    used_inodes E d = used_inodes E (view s1) \<and>
    (\<exists>x. fs_files E d = (fs_files E (view s1))(i \<mapsto> x) \<and> (x = (Directory, ?bs) \<and>
      card ({..<n_blocks - data_start E} - used_data E d) = fs_free n_blocks E (view s))))"
  proof (rule modify_file_returns [OF s1' fs [folded v1] i [folded v1]], unfold v1)
    fix s2 ino
    assume s2: "inv s2" "view s2 = view s" "card (held s2) = 1" "{data_start E..} \<inter> held s2 = {}"
      and good: "inode_good n_blocks E (view s) ino" and t: "itype ino = Directory" and bs: "inode_content (view s) ino = bs"
    have n: "file_count ino = dir_count bs" using file_count_eq [OF good] bs by simp
    have "returns (unlink_loop B name (dir_count bs) [0..<dir_count bs] DirEntry_empty ino s2) (held s2)
      (\<lambda>(v, ino') d. inode_step n_blocks E (view s2) ino d ino' \<and> itype ino' = itype ino \<and>
      used_data E d = used_data E (view s2) \<and>
      inode_content d ino' = take (length bs - 32) (buf_put (32 * ([0..<dir_count bs] ! k)) (buf_get (32 * (dir_count bs - 1)) 32 bs) bs))"
      by (rule unlink_loop_returns [OF s2(1,3,4) fs_invD(1) [OF fs] _ _ ok _ _ k']) (use s2(2) good bs in simp_all)
    then show "returns (?f ino s2) (held s2) (\<lambda>(v, ino') d1. inode_step n_blocks E (view s) ino d1 ino' \<and>
        ((itype ino', inode_content d1 ino') = (Directory, ?bs) \<and>
         card ({..<n_blocks - data_start E} - used_data E d1) = fs_free n_blocks E (view s)))"
      unfolding n s2(2) by (rule returns_mono) (use t kn in \<open>auto simp: fs_free_def\<close>)
  qed
  then obtain s3 where s3: "modify_disk_inode B (inode_ref E i) ?f s1 = Some ((), s3)" "inv s3" "held s3 = {}"
    and q: "fs_inv n_blocks E (view s3)" "fs_files E (view s3) = (fs_files E (view s))(i \<mapsto> (Directory, ?bs))"
      "fs_free n_blocks E (view s3) = fs_free n_blocks E (view s)"
    unfolding fs_free_def v1 by (rule returnsE) auto
  have run: "Inode_unlink B (inode_ref E i) name s = Some (0, s3)" using s1 s3(1) by (simp add: Inode_unlink_def)
  have un: "dir_list ?bs = dir_unlink name (dir_list bs)" using sw(2) k by (simp add: dir_unlink_def)
  show ?thesis
    unfolding run by (rule returns_Some [OF s3(2,3)]) (use q sw(1,3) un in blast)
qed

lemma Inode_unlink_missing_returns:
  assumes s: "inv s" "held s = {}" and fs: "fs_inv n_blocks E (view s)"
    and i: "fs_files E (view s) i = Some (Directory, bs)" and ok: "dir_ok bs"
    and name: "map_of (dir_list bs) name = None"
  shows "returns (Inode_unlink B (inode_ref E i) name s) {} (\<lambda>r d. r = - 1 \<and> d = view s)"
  using lookup_returns [OF s fs i ok, of name] name by (auto simp: Inode_unlink_def intro!: returns_Some)

section \<open>Counting links\<close>

lemma inode_pos_inj:
  assumes "efs_ok N E" and "unat i < Bitmap_maximum (inode_bitmap E)" and "unat j < Bitmap_maximum (inode_bitmap E)"
  shows "get_disk_inode_pos E i = get_disk_inode_pos E j \<longleftrightarrow> i = j"
proof
  assume eq: "get_disk_inode_pos E i = get_disk_inode_pos E j"
  obtain b off where p: "get_disk_inode_pos E i = (b, off)" by fastforce
  show "i = j"
  proof (rule ccontr)
    assume "i \<noteq> j"
    from inode_pos_disjoint [OF assms this p p [unfolded eq]] show False by simp
  qed
qed simp

lemma link_num_loop_returns:
  assumes "inv s" and "card (held s) = 1" and "{data_start E..} \<inter> held s = {}" and ok: "efs_ok n_blocks E"
    and "inode_good n_blocks E (view s) ino" and "inode_content (view s) ino = bs" and dir: "dir_ok bs"
    and ids: "\<forall>x \<in> set (dir_list bs). unat (snd x) < Bitmap_maximum (inode_bitmap E)"
    and j: "unat j < Bitmap_maximum (inode_bitmap E)" and pos: "get_disk_inode_pos E j = (blk, off)"
    and "\<forall>i \<in> set is. i < dir_count bs" and "length (de_name e) = 28"
  shows "returns (link_num_loop B E (unat blk) off ino is e cnt s) (held s)
    (\<lambda>r d. d = view s \<and> r = cnt + of_nat (length (filter (\<lambda>i. snd (dir_item bs i) = j) is)))"
  using assms(1-3,5,6,11,12)
proof (induction "is" arbitrary: s e cnt)
  case Nil
  then show ?case by (auto intro!: returns_Some)
next
  case (Cons i "is")
  have i: "i < dir_count bs" using Cons.prems(6) by simp
  obtain s1 where s1: "read_dirent B ino i e s = Some (dirent_at bs i, s1)" "inv s1" "held s1 = held s" "view s1 = view s"
    using read_dirent_returns [OF Cons.prems(1-5) dir i Cons.prems(7)] by (rule returnsE) auto
  let ?x = "de_inode_id (dirent_at bs i)"
  have sx: "snd (dir_item bs i) = ?x" by (simp add: dir_item_def)
  have "dir_item bs i \<in> set (dir_list bs)" using i by (simp add: dir_list_def)
  then have xm: "unat ?x < Bitmap_maximum (inode_bitmap E)" using ids sx by force
  obtain b o' where bo: "get_disk_inode_pos E ?x = (b, o')" by fastforce
  have eq: "unat b = unat blk \<and> o' = off \<longleftrightarrow> ?x = j"
    using inode_pos_inj [OF ok xm j] bo pos by auto
  let ?cnt = "if ?x = j then cnt + 1 else cnt"
  have "returns (link_num_loop B E (unat blk) off ino is (dirent_at bs i) ?cnt s1) (held s1)
    (\<lambda>r d. d = view s1 \<and> r = ?cnt + of_nat (length (filter (\<lambda>i. snd (dir_item bs i) = j) is)))"
    by (rule Cons.IH) (use s1 Cons.prems dirent_at_name [OF i dir] in simp_all)
  then show ?case using s1 bo eq sx by (simp add: algebra_simps split: if_splits)
qed

lemma get_link_num_returns:
  assumes s: "inv s" "held s = {}" and fs: "fs_inv n_blocks E (view s)"
    and i: "fs_files E (view s) i = Some (t, bs)" and dir: "dir_ok bs"
    and ids: "\<forall>x \<in> set (dir_list bs). unat (snd x) < Bitmap_maximum (inode_bitmap E)"
    and j: "unat j < Bitmap_maximum (inode_bitmap E)"
  shows "returns (get_link_num B E (inode_ref E i) (vi_block_id (inode_ref E j)) (vi_block_offset (inode_ref E j)) s) {}
    (\<lambda>r d. d = view s \<and> unat r = length (filter (\<lambda>x. snd x = j) (dir_list bs)))"
proof -
  obtain blk off where pos: "get_disk_inode_pos E j = (blk, off)" by fastforce
  then have ref: "vi_block_id (inode_ref E j) = unat blk" "vi_block_offset (inode_ref E j) = off"
    by (simp_all add: inode_ref_def Inode_new_def)
  let ?c = "length (filter (\<lambda>x. snd x = j) (dir_list bs))"
  show ?thesis
    unfolding get_link_num_def ref
  proof (rule read_file_returns [OF s fs i])
    fix s1 ino
    assume s1: "inv s1" "view s1 = view s" "card (held s1) = 1" "{data_start E..} \<inter> held s1 = {}"
      and good: "inode_good n_blocks E (view s) ino" and bs: "inode_content (view s) ino = bs"
    have n: "file_count ino = dir_count bs" using file_count_eq [OF good] bs by simp
    have "length bs \<le> MAX_FILE_SIZE" using good length_inode_content [OF good] bs by (simp add: inode_good_def)
    then have "dir_count bs \<le> MAX_FILE_SIZE" unfolding dir_count_def using div_le_dividend le_trans by blast
    moreover have "?c \<le> dir_count bs" using length_filter_le [of _ "dir_list bs"] by simp
    ultimately have c: "unat (of_nat ?c :: u32) = ?c"
      by (simp add: MAX_FILE_SIZE_def unat_of_nat take_bit_nat_eq_self)
    have flt: "length (filter (\<lambda>i. snd (dir_item bs i) = j) [0..<dir_count bs]) = ?c"
      by (simp add: dir_list_def filter_map comp_def)
    have "returns (link_num_loop B E (unat blk) off ino [0..<dir_count bs] DirEntry_empty 0 s1) (held s1)
      (\<lambda>r d. d = view s1 \<and> r = 0 + of_nat (length (filter (\<lambda>i. snd (dir_item bs i) = j) [0..<dir_count bs])))"
      by (rule link_num_loop_returns [OF s1(1,3,4) fs_invD(1) [OF fs] _ _ dir ids j pos]) (use s1(2) good bs in simp_all)
    then show "returns (link_num_loop B E (unat blk) off ino [0..<file_count ino] DirEntry_empty 0 s1) (held s1)
      (\<lambda>r d. d = view s \<and> unat r = ?c)"
      unfolding n s1(2) flt by (rule returns_mono) (use c in simp)
  qed
qed

end

end
