(* ===== verification/FileOps.thy ===== *)
theory FileOps
  imports OpenFile VfsUnlink
begin

text \<open>
  Reading and writing open files: the loops of \<^verbatim>\<open>os/src/fs/inode.rs\<close> on an abstract file.
  The slices of a user buffer count as the list of their physical addresses; reading a
  file scatters its bytes over that list.
\<close>

section \<open>Scattered bytes\<close>

fun scatter :: "usize list \<Rightarrow> bytes \<Rightarrow> phys_mem \<Rightarrow> phys_mem" where
  "scatter (a # as) (b # bs) m = scatter as bs (m(a := b))"
| "scatter as bs m = m"

lemma scatter_Nil [simp]: "scatter [] bs m = m" "scatter as [] m = m"
  by (cases as; simp)+

lemma scatter_append: "scatter (as @ as') bs m = scatter as' (drop (length as) bs) (scatter as bs m)"
proof (induction as arbitrary: bs m)
  case (Cons a as)
  then show ?case by (cases bs) (simp_all add: fun_upd_def)
qed simp

lemma scatter_take: "scatter as (take (length as) bs) m = scatter as bs m"
proof (induction as arbitrary: bs m)
  case (Cons a as)
  then show ?case by (cases bs) (simp_all add: fun_upd_def)
qed simp

lemma scatter_other: "x \<notin> set (take (length bs) as) \<Longrightarrow> scatter as bs m x = m x"
proof (induction as arbitrary: bs m)
  case (Cons a as)
  then show ?case by (cases bs) auto
qed simp

lemma scatter_nth:
  "distinct as \<Longrightarrow> i < length as \<Longrightarrow> i < length bs \<Longrightarrow> scatter as bs m (as ! i) = bs ! i"
proof (induction as arbitrary: bs m i)
  case (Cons a as)
  obtain b bs' where bs: "bs = b # bs'" using Cons.prems(3) by (cases bs) auto
  show ?case
  proof (cases i)
    case 0
    have "a \<notin> set (take (length bs') as)" using Cons.prems(1) in_set_takeD by fastforce
    then show ?thesis using bs 0 by (simp add: scatter_other)
  next
    case (Suc j)
    then show ?thesis using bs Cons by simp
  qed
qed simp

lemma scatter_get: "distinct as \<Longrightarrow> length bs = length as \<Longrightarrow> map (scatter as bs m) as = bs"
  by (rule nth_equalityI) (simp_all add: scatter_nth)

lemma slice_bytes: "mem_get m (slice_addr x) (slice_len x) = map m (slice_addrs x)"
  by (cases x) (simp add: mem_get_def)

lemma distinct_slice:
  assumes "slice_len x \<le> 2 ^ 64"
  shows "distinct (slice_addrs x)"
proof -
  have "i = j" if "i < slice_len x" "j < slice_len x" "of_nat i = (of_nat j :: usize)" for i j
  proof -
    have "unat (of_nat i :: usize) = i" "unat (of_nat j :: usize) = j"
      using that(1,2) assms by (simp_all add: unat_of_nat_exact)
    then show ?thesis using that(3) by metis
  qed
  then show ?thesis by (cases x) (auto simp: distinct_map inj_on_def)
qed

lemma mem_put_slice:
  assumes len: "slice_len x \<le> 2 ^ 64" and d: "length bs \<le> slice_len x"
  shows "mem_put (slice_addr x) (buf_put 0 bs (map m (slice_addrs x))) m = scatter (slice_addrs x) bs m"
proof
  fix y
  obtain a n where x: "x = Slice a n" by (cases x)
  let ?i = "unat (y - a)"
  have at: "slice_addrs x ! i = a + of_nat i" if "i < n" for i using that x by simp
  have yi: "y = a + of_nat ?i" by simp
  have ui: "unat (of_nat i :: usize) = i" if "i < n" for i using that len x by (intro unat_of_nat_exact) simp
  show "mem_put (slice_addr x) (buf_put 0 bs (map m (slice_addrs x))) m y = scatter (slice_addrs x) bs m y"
  proof (cases "?i < length bs")
    case True
    then have "scatter (slice_addrs x) bs m y = bs ! ?i"
      using scatter_nth [OF distinct_slice [OF len], of ?i bs m] at [of ?i] yi d x by simp
    then show ?thesis using True x d by (simp add: mem_put_def nth_buf_put)
  next
    case False
    have "y \<notin> set (take (length bs) (slice_addrs x))"
    proof
      assume "y \<in> set (take (length bs) (slice_addrs x))"
      then obtain i where "i < length bs" "i < n" "y = a + of_nat i"
        using at x by (auto simp: in_set_conv_nth)
      then show False using False ui [of i] by simp
    qed
    then show ?thesis using False x d by (simp add: scatter_other mem_put_def nth_buf_put)
  qed
qed

abbreviation buf_addrs :: "slice list \<Rightarrow> usize list" where
  "buf_addrs xs \<equiv> concat (map slice_addrs xs)"

abbreviation slices_ok :: "slice list \<Rightarrow> bool" where
  "slices_ok xs \<equiv> \<forall>x \<in> set xs. 0 < slice_len x \<and> slice_len x \<le> 2 ^ 64"

lemma buf_get_rest: "buf_get off n bs @ drop (off + length (buf_get off n bs)) bs = drop off bs"
proof (cases "n \<le> length bs - off")
  case True
  then have "drop (off + length (buf_get off n bs)) bs = drop n (drop off bs)" by (simp add: add.commute)
  then show ?thesis by (simp add: buf_get_def del: drop_drop)
qed (simp add: buf_get_def)

context block_store
begin

lemma read_all_loop_returns:
  assumes "inv s" and "held s = {}" and "fs_inv n_blocks E (view s)" and "fs_files E (view s) i = Some (t, bs)"
    and "length buf = 512"
  shows "returns (read_all_loop B (inode_ref E i) off buf v s) {}
    (\<lambda>(v', off') d. d = view s \<and> v' = v @ drop off bs \<and> off' = max off (length bs))"
  using assms
proof (induction "length bs - off" arbitrary: off buf v s rule: less_induct)
  case less
  let ?n = "length (buf_get off 512 bs)" and ?b = "buf_put 0 (buf_get off 512 bs) buf"
  obtain s1 where s1: "Inode_read_at B (inode_ref E i) off buf s = Some ((?n, ?b), s1)" "inv s1" "held s1 = {}"
      "view s1 = view s"
    using Inode_read_at_returns [OF less.prems(1-4), of off buf] less.prems(5) unfolding returns_def by auto
  show ?case
  proof (cases "?n = 0")
    case True
    then show ?thesis
      using s1 by (subst read_all_loop.simps) (auto intro!: returns_Some)
  next
    case False
    have "take ?n ?b = buf_get off 512 bs" by (simp add: buf_put_def)
    then have v: "(v @ take ?n ?b) @ drop (off + ?n) bs = v @ drop off bs" using buf_get_rest [of off 512 bs] by simp
    have m: "max (off + ?n) (length bs) = max off (length bs)" by simp
    have "read_all_loop B (inode_ref E i) off buf v s = read_all_loop B (inode_ref E i) (off + ?n) ?b (v @ take ?n ?b) s1"
      using s1(1) False by (subst read_all_loop.simps) (simp del: length_buf_get)
    moreover have "returns (read_all_loop B (inode_ref E i) (off + ?n) ?b (v @ take ?n ?b) s1) {}
        (\<lambda>(v', off') d. d = view s \<and> v' = v @ drop off bs \<and> off' = max off (length bs))"
      using less.hyps [of "off + ?n" s1 ?b "v @ take ?n ?b"] False s1 less.prems(3-5) unfolding v m by simp
    ultimately show ?thesis by simp
  qed
qed

lemma OSInode_read_loop_returns:
  assumes "inv s" and "held s = {}" and "fs_inv n_blocks E (view s)" and "fs_files E (view s) i = Some (t, bs)"
    and "slices_ok xs"
  shows "returns (OSInode_read_loop B (inode_ref E i) xs off acc m s) {} (\<lambda>(acc', off', m') d. d = view s \<and>
    (\<exists>n. n = min (length (buf_addrs xs)) (length bs - off) \<and> acc' = acc + n \<and> off' = off + n) \<and>
    m' = scatter (buf_addrs xs) (drop off bs) m)"
  using assms
proof (induction xs arbitrary: off acc m s)
  case Nil
  then show ?case by (simp add: returns_Some)
next
  case (Cons x xs)
  let ?g = "buf_get off (slice_len x) bs"
  let ?n = "length ?g"
  let ?Q = "\<lambda>(acc', off', m') d. d = view s \<and>
    (\<exists>n. n = min (length (buf_addrs (x # xs))) (length bs - off) \<and> acc' = acc + n \<and> off' = off + n) \<and>
    m' = scatter (buf_addrs (x # xs)) (drop off bs) m"
  have x: "0 < slice_len x" "slice_len x \<le> 2 ^ 64" using Cons.prems(5) by simp_all
  obtain s1 where s1: "Inode_read_at B (inode_ref E i) off (map m (slice_addrs x)) s =
        Some ((?n, buf_put 0 ?g (map m (slice_addrs x))), s1)" "inv s1" "held s1 = {}" "view s1 = view s"
    using Inode_read_at_returns [OF Cons.prems(1-4), of off "map m (slice_addrs x)"] unfolding returns_def by auto
  have put: "mem_put (slice_addr x) (buf_put 0 ?g (map m (slice_addrs x))) m = scatter (slice_addrs x) (drop off bs) m"
    using mem_put_slice [OF x(2), of ?g m] scatter_take [of "slice_addrs x" "drop off bs" m] by (simp add: buf_get_def)
  let ?m = "scatter (slice_addrs x) (drop off bs) m"
  have step: "OSInode_read_loop B (inode_ref E i) (x # xs) off acc m s = (if ?n = 0 then Some ((acc, off, ?m), s1)
      else OSInode_read_loop B (inode_ref E i) xs (off + ?n) (acc + ?n) ?m s1)"
    unfolding OSInode_read_loop.simps slice_bytes s1(1) Option.bind.simps prod.case Let_def put by (rule refl)
  show ?case
  proof (cases "?n = 0")
    case True
    then have "length bs \<le> off" using x(1) by auto
    then show ?thesis unfolding step using True s1 by (auto intro!: returns_Some)
  next
    case False
    have ih: "returns (OSInode_read_loop B (inode_ref E i) xs (off + ?n) (acc + ?n) ?m s1) {} (\<lambda>(acc', off', m') d.
      d = view s \<and> (\<exists>n. n = min (length (buf_addrs xs)) (length bs - (off + ?n)) \<and> acc' = acc + ?n + n \<and>
        off' = off + ?n + n) \<and> m' = scatter (buf_addrs xs) (drop (off + ?n) bs) ?m)"
      using Cons.IH [of s1 "off + ?n" "acc + ?n" ?m] s1 Cons.prems(3-5) by simp
    have dr: "scatter (buf_addrs xs) (drop (off + ?n) bs) ?m = scatter (buf_addrs (x # xs)) (drop off bs) m"
      by (simp add: scatter_append min_def add.commute)
    have ct: "?n + min (length (buf_addrs xs)) (length bs - (off + ?n)) =
      min (length (buf_addrs (x # xs))) (length bs - off)" using x(1) by simp
    have "returns (OSInode_read_loop B (inode_ref E i) xs (off + ?n) (acc + ?n) ?m s1) {} ?Q"
      using ih unfolding dr by (rule returns_mono) (use ct in auto)
    then show ?thesis unfolding step if_not_P [OF False] .
  qed
qed

lemma OSInode_write_loop_returns:
  assumes "inv s" and "held s = {}" and "fs_inv n_blocks E (view s)" and "fs_files E (view s) i = Some (t, bs)"
    and "slices_ok xs" and "off \<le> length bs" and "off + length (buf_addrs xs) \<le> MAX_FILE_SIZE"
    and "blocks_for (off + length (buf_addrs xs)) \<le> blocks_for (length bs) + fs_free n_blocks E (view s)"
  shows "returns (OSInode_write_loop B E (inode_ref E i) xs off acc m s) {} (\<lambda>(acc', off') d.
    acc' = acc + length (buf_addrs xs) \<and> off' = off + length (buf_addrs xs) \<and> fs_inv n_blocks E d \<and>
    used_inodes E d = used_inodes E (view s) \<and>
    (\<exists>bs'. bs' = take off bs @ map m (buf_addrs xs) @ drop (off + length (buf_addrs xs)) bs \<and>
      fs_files E d = (fs_files E (view s))(i \<mapsto> (t, bs')) \<and>
      fs_free n_blocks E d + blocks_for (length bs') = fs_free n_blocks E (view s) + blocks_for (length bs)))"
  using assms
proof (induction xs arbitrary: off acc bs s)
  case Nil
  then show ?case by (auto intro!: returns_Some)
next
  case (Cons x xs)
  let ?d = "map m (slice_addrs x)" and ?n = "length (buf_addrs xs)"
  let ?bs = "take off bs @ ?d @ drop (off + slice_len x) bs"
  have x: "?d \<noteq> []" "slices_ok xs" using Cons.prems(5) by (auto simp flip: length_0_conv)
  have "blocks_for (off + slice_len x) \<le> blocks_for (off + length (buf_addrs (x # xs)))"
    by (rule blocks_for_mono) simp
  then have fits: "off + length ?d \<le> MAX_FILE_SIZE"
      "blocks_for (off + length ?d) \<le> blocks_for (length bs) + fs_free n_blocks E (view s)"
    using Cons.prems(7,8) by simp_all
  obtain s1 where s1: "Inode_write_at B E (inode_ref E i) off ?d s = Some (slice_len x, s1)" "inv s1" "held s1 = {}"
      "fs_inv n_blocks E (view s1)" "used_inodes E (view s1) = used_inodes E (view s)"
      "fs_files E (view s1) = (fs_files E (view s))(i \<mapsto> (t, ?bs))"
      "fs_free n_blocks E (view s1) + blocks_for (length ?bs) = fs_free n_blocks E (view s) + blocks_for (length bs)"
    using Inode_write_inside_returns [OF Cons.prems(1-4) fits(1) x(1) fits(2) Cons.prems(6)] unfolding settles_def by auto
  have f1: "fs_files E (view s1) i = Some (t, ?bs)" using s1(6) by simp
  have off1: "off + slice_len x \<le> length ?bs" using Cons.prems(6) by simp
  have ih: "returns (OSInode_write_loop B E (inode_ref E i) xs (off + slice_len x) (acc + slice_len x) m s1) {} (\<lambda>(acc', off') d.
    acc' = acc + slice_len x + ?n \<and> off' = off + slice_len x + ?n \<and> fs_inv n_blocks E d \<and>
    used_inodes E d = used_inodes E (view s1) \<and>
    (\<exists>bs'. bs' = take (off + slice_len x) ?bs @ map m (buf_addrs xs) @ drop (off + slice_len x + ?n) ?bs \<and>
      fs_files E d = (fs_files E (view s1))(i \<mapsto> (t, bs')) \<and>
      fs_free n_blocks E d + blocks_for (length bs') = fs_free n_blocks E (view s1) + blocks_for (length ?bs)))"
    by (rule Cons.IH [OF s1(2-4) f1 x(2) off1]) (use Cons.prems(7,8) s1(7) in \<open>simp_all add: add.assoc\<close>)
  have eq: "take (off + slice_len x) ?bs @ map m (buf_addrs xs) @ drop (off + slice_len x + ?n) ?bs =
      take off bs @ map m (buf_addrs (x # xs)) @ drop (off + length (buf_addrs (x # xs))) bs"
    using Cons.prems(6) by (simp add: add.assoc add.commute)
  have step: "OSInode_write_loop B E (inode_ref E i) (x # xs) off acc m s =
      OSInode_write_loop B E (inode_ref E i) xs (off + slice_len x) (acc + slice_len x) m s1"
    using s1(1) by (simp add: slice_bytes)
  have len: "length (buf_addrs (x # xs)) = slice_len x + ?n" by simp
  show ?case using ih [unfolded eq, unfolded s1(5,6,7) fun_upd_upd len add.assoc] unfolding step len add.assoc .
qed

end

end
