(* ===== verification/BlockCache.thy ===== *)
theory BlockCache
  imports BlockStore
begin

text \<open>
  The block cache (\<^verbatim>\<open>easy-fs/src/block_cache.rs\<close>): \<^verbatim>\<open>BlockCache\<close>, the manager with
  its queue of at most 16 cached blocks, write-back on eviction and
  \<^verbatim>\<open>block_cache_sync_all\<close>.

  The state holds the queue of the global \<^verbatim>\<open>BLOCK_CACHE_MANAGER\<close>, the guards that are
  currently held (an \<^verbatim>\<open>Arc\<close> clone of the entry together with its locked mutex) and
  the device. The queue owns one reference to each entry, so the strong count of an
  entry is one more than the number of guards on it. Entries are identified by
  their block number, which the invariant keeps unique in the queue.

  The last section shows that the manager over any device that meets
  \<open>block_device\<close> meets \<open>block_store\<close>: the contents a client sees (\<open>cache_view\<close>) are
  the cached bytes where a block is cached and the device's bytes elsewhere.
\<close>

record BlockCache =
  cache :: bytes
  block_id :: nat
  modified :: bool

record 'd cache_state =
  queue :: "(nat \<times> BlockCache) list"
  guards :: "nat list"
  device :: 'd

definition BlockCache_new :: "'d BlockDevice \<Rightarrow> nat \<Rightarrow> 'd \<Rightarrow> (BlockCache \<times> 'd) option" where
  "BlockCache_new D bid d = do {
     (buf, d') \<leftarrow> read_block D bid d;
     Some (\<lparr>cache = buf, block_id = bid, modified = False\<rparr>, d')
   }"

definition BlockCache_sync :: "'d BlockDevice \<Rightarrow> BlockCache \<Rightarrow> 'd \<Rightarrow> (BlockCache \<times> 'd) option" where
  "BlockCache_sync D c d =
     (if modified c
      then do { d' \<leftarrow> write_block D (block_id c) (cache c) d; Some (c\<lparr>modified := False\<rparr>, d') }
      else Some (c, d))"

definition BlockCacheManager_new :: "'d \<Rightarrow> 'd cache_state" where
  "BlockCacheManager_new d = \<lparr>queue = [], guards = [], device = d\<rparr>"

definition strong_count :: "'d cache_state \<Rightarrow> nat \<Rightarrow> nat" where
  "strong_count s b = 1 + count_list (guards s) b"

text \<open>Removing an entry from the queue drops it, and dropping it writes it back.\<close>

definition evict :: "'d BlockDevice \<Rightarrow> 'd cache_state \<Rightarrow> 'd cache_state option" where
  "evict D s =
     (case find_idx (\<lambda>pair. strong_count s (fst pair) = 1) (queue s) of
        Some idx \<Rightarrow> do {
          (c, d) \<leftarrow> BlockCache_sync D (snd (queue s ! idx)) (device s);
          Some (s\<lparr>queue := take idx (queue s) @ drop (Suc idx) (queue s), device := d\<rparr>)
        }
      | None \<Rightarrow> None)"

definition get_block_cache :: "'d BlockDevice \<Rightarrow> nat \<Rightarrow> 'd cache_state \<Rightarrow> 'd cache_state option" where
  "get_block_cache D bid s =
     (case find (\<lambda>pair. fst pair = bid) (queue s) of
        Some pair \<Rightarrow> Some s
      | None \<Rightarrow> do {
          s1 \<leftarrow> (if length (queue s) = BLOCK_CACHE_SIZE then evict D s else Some s);
          (c, d) \<leftarrow> BlockCache_new D bid (device s1);
          Some (s1\<lparr>queue := queue s1 @ [(bid, c)], device := d\<rparr>)
        })"

text \<open>\<^verbatim>\<open>get_block_cache(bid, dev).lock()\<close>; a second lock of a held block spins forever.\<close>

definition cache_lock :: "'d BlockDevice \<Rightarrow> nat \<Rightarrow> 'd cache_state \<Rightarrow> 'd cache_state option" where
  "cache_lock D bid s = do {
     s1 \<leftarrow> get_block_cache D bid s;
     if bid \<in> set (guards s1) then None else Some (s1\<lparr>guards := bid # guards s1\<rparr>)
   }"

definition cache_peek :: "nat \<Rightarrow> 'd cache_state \<Rightarrow> bytes" where
  "cache_peek bid s = (case map_of (queue s) bid of Some c \<Rightarrow> cache c | None \<Rightarrow> [])"

definition set_bytes :: "bytes \<Rightarrow> BlockCache \<Rightarrow> BlockCache" where
  "set_bytes bs c = c\<lparr>cache := bs, modified := True\<rparr>"

definition cache_poke :: "nat \<Rightarrow> bytes \<Rightarrow> 'd cache_state \<Rightarrow> 'd cache_state" where
  "cache_poke bid bs s =
     s\<lparr>queue := map (\<lambda>(i, c). (i, if i = bid then set_bytes bs c else c)) (queue s)\<rparr>"

definition cache_unlock :: "nat \<Rightarrow> 'd cache_state \<Rightarrow> 'd cache_state" where
  "cache_unlock bid s = s\<lparr>guards := remove1 bid (guards s)\<rparr>"

fun sync_queue ::
  "'d BlockDevice \<Rightarrow> nat list \<Rightarrow> (nat \<times> BlockCache) list \<Rightarrow> 'd \<Rightarrow> ((nat \<times> BlockCache) list \<times> 'd) option"
where
  "sync_queue D gs [] d = Some ([], d)"
| "sync_queue D gs ((i, c) # q) d =
     (if i \<in> set gs then None
      else do {
        (c', d1) \<leftarrow> BlockCache_sync D c d;
        (q', d2) \<leftarrow> sync_queue D gs q d1;
        Some ((i, c') # q', d2)
      })"

definition block_cache_sync_all :: "'d BlockDevice \<Rightarrow> 'd cache_state \<Rightarrow> 'd cache_state option" where
  "block_cache_sync_all D s = do {
     (q, d) \<leftarrow> sync_queue D (guards s) (queue s) (device s);
     Some (s\<lparr>queue := q, device := d\<rparr>)
   }"

definition cache_ops :: "'d BlockDevice \<Rightarrow> 'd cache_state block_ops" where
  "cache_ops D = \<lparr>lock_block = cache_lock D, peek_block = cache_peek, poke_block = cache_poke,
     unlock_block = cache_unlock, sync_blocks = block_cache_sync_all D\<rparr>"

section \<open>Invariant and abstraction\<close>

definition cache_view :: "('d \<Rightarrow> nat \<Rightarrow> bytes) \<Rightarrow> 'd cache_state \<Rightarrow> nat \<Rightarrow> bytes" where
  "cache_view dview s b =
     (case map_of (queue s) b of Some c \<Rightarrow> cache c | None \<Rightarrow> dview (device s) b)"

text \<open>The device holds everything the cache shows.\<close>

definition synced :: "('d \<Rightarrow> nat \<Rightarrow> bytes) \<Rightarrow> 'd cache_state \<Rightarrow> bool" where
  "synced dview s \<longleftrightarrow> dview (device s) = cache_view dview s"

definition cache_held :: "'d cache_state \<Rightarrow> nat set" where
  "cache_held s = set (guards s)"

definition entry_ok :: "(nat \<Rightarrow> bytes) \<Rightarrow> nat \<Rightarrow> nat \<times> BlockCache \<Rightarrow> bool" where
  "entry_ok disk n = (\<lambda>(i, c). i < n \<and> block_id c = i \<and> length (cache c) = BLOCK_SZ \<and>
     (\<not> modified c \<longrightarrow> cache c = disk i))"

definition cache_inv ::
  "('d \<Rightarrow> bool) \<Rightarrow> ('d \<Rightarrow> nat \<Rightarrow> bytes) \<Rightarrow> nat \<Rightarrow> 'd cache_state \<Rightarrow> bool"
where
  "cache_inv dinv dview n s \<longleftrightarrow>
     dinv (device s) \<and> distinct (map fst (queue s)) \<and> length (queue s) \<le> BLOCK_CACHE_SIZE \<and>
     list_all (entry_ok (dview (device s)) n) (queue s) \<and>
     distinct (guards s) \<and> set (guards s) \<subseteq> fst ` set (queue s)"

section \<open>Lemmas on association lists\<close>

lemma find_fst_eq: "find (\<lambda>p. fst p = k) xs = None \<longleftrightarrow> k \<notin> fst ` set xs"
  by (force simp: find_None_iff)

lemma map_of_map_snd: "map_of (map (\<lambda>(i, c). (i, f i c)) xs) k = map_option (f k) (map_of xs k)"
  by (induction xs) auto

lemma map_of_remove_nth:
  assumes "distinct (map fst xs)" and "i < length xs"
  shows "map_of (take i xs @ drop (Suc i) xs) = (map_of xs)(fst (xs ! i) := None)"
proof
  fix k
  let ?ys = "take i xs" and ?zs = "drop (Suc i) xs" and ?x = "xs ! i"
  have split: "xs = ?ys @ ?x # ?zs" using assms(2) by (simp add: id_take_nth_drop)
  then have "distinct (map fst (?ys @ ?x # ?zs))" using assms(1) by metis
  then have "fst ?x \<notin> fst ` set ?ys" "fst ?x \<notin> fst ` set ?zs" by auto
  then have none: "map_of ?ys (fst ?x) = None" "map_of ?zs (fst ?x) = None"
    by (simp_all add: map_of_eq_None_iff)
  have "map_of xs k = map_of (?ys @ ?x # ?zs) k" using split by metis
  also have "\<dots> = (map_of ?zs ++ map_of [?x] ++ map_of ?ys) k"
    by (simp add: map_add_def split: option.splits)
  finally show "map_of (?ys @ ?zs) k = ((map_of xs)(fst ?x := None)) k"
    using none by (cases ?x) (auto simp: map_add_def split: option.splits)
qed

lemma fst_comp_map_snd [simp]: "fst \<circ> (\<lambda>(i, c). (i, f i c)) = fst"
  by (auto simp: fun_eq_iff)

lemma fst_image_map_snd [simp]: "fst ` (\<lambda>(i, c). (i, f i c)) ` A = fst ` A"
  by (simp add: image_comp)

lemma cache_view_guards [simp]: "cache_view dview (s\<lparr>guards := g\<rparr>) = cache_view dview s"
  by (auto simp: cache_view_def fun_eq_iff split: option.split)

lemma cache_inv_map:
  assumes "cache_inv dinv dview n s" and "dinv d"
    and "\<And>i c. (i, c) \<in> set (queue s) \<Longrightarrow> entry_ok (dview d) n (i, f i c)"
  shows "cache_inv dinv dview n (s\<lparr>queue := map (\<lambda>(i, c). (i, f i c)) (queue s), device := d\<rparr>)"
proof -
  have "list_all (entry_ok (dview d) n) (map (\<lambda>(i, c). (i, f i c)) (queue s))"
    using assms(3) by (auto simp: list_all_iff)
  then show ?thesis using assms(1,2) by (simp add: cache_inv_def)
qed

section \<open>Operations on the queue\<close>

context block_device
begin

lemma sync_ok:
  assumes "dinv d" and "entry_ok (dview d) n_blocks (i, c)"
  obtains c' d' where "BlockCache_sync D c d = Some (c', d')" and "dinv d'"
    and "c' = c\<lparr>modified := False\<rparr>" and "dview d' = (dview d)(i := cache c)"
proof (cases "modified c")
  case True
  with assms write_ok [of d i "cache c"] obtain d' where
    "write_block D i (cache c) d = Some d'" "dinv d'" "dview d' = (dview d)(i := cache c)"
    by (auto simp: entry_ok_def)
  with True assms show ?thesis
    by (intro that) (auto simp: BlockCache_sync_def entry_ok_def)
next
  case False
  with assms show ?thesis
    by (intro that) (auto simp: BlockCache_sync_def entry_ok_def fun_eq_iff)
qed

lemma entry_ok_other:
  "entry_ok disk n (i, c) \<Longrightarrow> i \<noteq> k \<Longrightarrow> entry_ok (disk(k := bs)) n (i, c)"
  by (simp add: entry_ok_def)

lemma evict_ok:
  assumes inv: "cache_inv dinv dview n_blocks s" and held: "card (cache_held s) < BLOCK_CACHE_SIZE"
    and full: "length (queue s) = BLOCK_CACHE_SIZE"
  obtains s' where "evict D s = Some s'" and "cache_inv dinv dview n_blocks s'"
    and "cache_view dview s' = cache_view dview s" and "guards s' = guards s"
    and "length (queue s') < BLOCK_CACHE_SIZE" and "fst ` set (queue s') \<subseteq> fst ` set (queue s)"
proof -
  let ?P = "\<lambda>pair. strong_count s (fst pair) = 1" and ?q = "queue s"
  have count: "strong_count s b = Suc 0 \<longleftrightarrow> b \<notin> set (guards s)" for b
    by (simp add: strong_count_def count_list_0_iff)
  have dist: "distinct (map fst ?q)" and ok: "list_all (entry_ok (dview (device s)) n_blocks) ?q"
    and dinv: "dinv (device s)" and gs: "set (guards s) \<subseteq> fst ` set ?q"
    using inv by (auto simp: cache_inv_def)
  have "card (fst ` set ?q) = BLOCK_CACHE_SIZE"
    using dist full distinct_card [of "map fst ?q"] by simp
  then have "\<not> fst ` set ?q \<subseteq> set (guards s)"
    using held card_mono [of "set (guards s)" "fst ` set ?q"] by (auto simp: cache_held_def)
  then have "find_idx ?P ?q \<noteq> None"
    by (auto simp: find_idx_None_iff count)
  then obtain idx where idx: "find_idx ?P ?q = Some idx" by blast
  from find_idx_SomeD [OF idx] have lt: "idx < length ?q"
    and free: "fst (?q ! idx) \<notin> set (guards s)" by (auto simp: count)
  obtain i c where ic: "?q ! idx = (i, c)" by (cases "?q ! idx")
  then have eok: "entry_ok (dview (device s)) n_blocks (i, c)"
    using ok lt by (metis list_all_length)
  obtain c' d' where sync: "BlockCache_sync D c (device s) = Some (c', d')" "dinv d'"
      "dview d' = (dview (device s))(i := cache c)"
    using sync_ok [OF dinv eok] by metis
  let ?q' = "take idx ?q @ drop (Suc idx) ?q"
  let ?s' = "s\<lparr>queue := ?q', device := d'\<rparr>"
  have split: "?q = take idx ?q @ (i, c) # drop (Suc idx) ?q"
    using lt ic by (metis id_take_nth_drop)
  then have dist': "distinct (map fst (take idx ?q @ (i, c) # drop (Suc idx) ?q))"
    using dist by metis
  then have i_notin: "i \<notin> fst ` set ?q'" by auto
  have mem: "map_of ?q i = Some c"
    using dist lt ic by (metis map_of_eq_Some_iff nth_mem)
  have map_of': "map_of ?q' = (map_of ?q)(i := None)"
    using map_of_remove_nth [OF dist lt] ic by simp
  have keys: "fst ` set ?q = insert i (fst ` set ?q')"
  proof -
    have "set ?q = set (take idx ?q @ (i, c) # drop (Suc idx) ?q)" using split by metis
    then show ?thesis by auto
  qed
  have sub: "set ?q' \<subseteq> set ?q" by (auto dest: in_set_takeD in_set_dropD)
  have "entry_ok (dview d') n_blocks p" if "p \<in> set ?q'" for p
  proof -
    have "fst p \<noteq> i" using that i_notin by auto
    moreover have "entry_ok (dview (device s)) n_blocks p"
      using that sub ok by (auto simp: list_all_iff)
    ultimately show ?thesis using sync(3) by (cases p) (auto intro: entry_ok_other)
  qed
  then have "cache_inv dinv dview n_blocks ?s'"
    using inv sync(2) dist' gs keys free ic full lt by (auto simp: cache_inv_def list_all_iff)
  moreover have "cache_view dview ?s' = cache_view dview s"
    using mem sync(3) map_of' by (auto simp: cache_view_def fun_eq_iff split: option.splits)
  moreover have "evict D s = Some ?s'"
    using idx ic sync by (simp add: evict_def)
  ultimately show ?thesis
    using keys lt full by (intro that [of ?s']) auto
qed

lemma load_ok:
  assumes inv: "cache_inv dinv dview n_blocks s" and b: "b < n_blocks"
    and new: "b \<notin> fst ` set (queue s)" and room: "length (queue s) < BLOCK_CACHE_SIZE"
  obtains c d where "BlockCache_new D b (device s) = Some (c, d)"
    and "cache_inv dinv dview n_blocks (s\<lparr>queue := queue s @ [(b, c)], device := d\<rparr>)"
    and "cache_view dview (s\<lparr>queue := queue s @ [(b, c)], device := d\<rparr>) = cache_view dview s"
proof -
  have dinv: "dinv (device s)" using inv by (simp add: cache_inv_def)
  obtain d where d: "read_block D b (device s) = Some (dview (device s) b, d)" "dinv d"
      "dview d = dview (device s)"
    using read_ok [OF dinv b] by blast
  let ?c = "\<lparr>cache = dview (device s) b, block_id = b, modified = False\<rparr>"
  let ?s' = "s\<lparr>queue := queue s @ [(b, ?c)], device := d\<rparr>"
  have "entry_ok (dview (device s)) n_blocks (b, ?c)"
    using b dview_length [OF dinv b] by (simp add: entry_ok_def)
  then have "cache_inv dinv dview n_blocks ?s'"
    using inv d new room by (auto simp: cache_inv_def)
  moreover have "map_of (queue s) b = None"
    using new by (simp add: map_of_eq_None_iff)
  then have "cache_view dview ?s' = cache_view dview s"
    using d(3) by (auto simp: cache_view_def fun_eq_iff map_add_def split: option.splits)
  moreover have "BlockCache_new D b (device s) = Some (?c, d)"
    by (simp add: BlockCache_new_def d(1))
  ultimately show ?thesis by (intro that)
qed

lemma get_block_cache_ok:
  assumes inv: "cache_inv dinv dview n_blocks s" and b: "b < n_blocks"
    and held: "card (cache_held s) < BLOCK_CACHE_SIZE"
  obtains s' where "get_block_cache D b s = Some s'" and "cache_inv dinv dview n_blocks s'"
    and "cache_view dview s' = cache_view dview s" and "guards s' = guards s"
    and "b \<in> fst ` set (queue s')"
proof (cases "b \<in> fst ` set (queue s)")
  case True
  then obtain p where "find (\<lambda>pair. fst pair = b) (queue s) = Some p"
    using find_fst_eq [of b "queue s"] by auto
  then show ?thesis using inv True by (intro that [of s]) (auto simp: get_block_cache_def)
next
  case False
  then have miss: "find (\<lambda>pair. fst pair = b) (queue s) = None"
    by (simp add: find_fst_eq)
  obtain s1 where s1: "(if length (queue s) = BLOCK_CACHE_SIZE then evict D s else Some s) = Some s1"
      "cache_inv dinv dview n_blocks s1" "cache_view dview s1 = cache_view dview s"
      "guards s1 = guards s" "length (queue s1) < BLOCK_CACHE_SIZE" "b \<notin> fst ` set (queue s1)"
  proof (cases "length (queue s) = BLOCK_CACHE_SIZE")
    case True
    from evict_ok [OF inv held True] obtain s1 where "evict D s = Some s1"
      "cache_inv dinv dview n_blocks s1" "cache_view dview s1 = cache_view dview s"
      "guards s1 = guards s" "length (queue s1) < BLOCK_CACHE_SIZE"
      "fst ` set (queue s1) \<subseteq> fst ` set (queue s)" by metis
    with True False show ?thesis by (intro that [of s1]) auto
  next
    case no: False
    with inv False show ?thesis by (intro that [of s]) (auto simp: cache_inv_def)
  qed
  from load_ok [OF s1(2) b s1(6,5)] obtain c d where
    new: "BlockCache_new D b (device s1) = Some (c, d)"
    "cache_inv dinv dview n_blocks (s1\<lparr>queue := queue s1 @ [(b, c)], device := d\<rparr>)"
    "cache_view dview (s1\<lparr>queue := queue s1 @ [(b, c)], device := d\<rparr>) = cache_view dview s1"
    by metis
  have "get_block_cache D b s = Some (s1\<lparr>queue := queue s1 @ [(b, c)], device := d\<rparr>)"
    using miss s1(1) new(1) by (simp add: get_block_cache_def)
  then show ?thesis using new s1 by (intro that) (assumption | simp)+
qed

lemma poke_keeps:
  assumes inv: "cache_inv dinv dview n_blocks s" and b: "b \<in> cache_held s"
    and len: "length bs = BLOCK_SZ"
  shows "cache_inv dinv dview n_blocks (cache_poke b bs s)"
    and "cache_view dview (cache_poke b bs s) = (cache_view dview s)(b := bs)"
proof -
  have "entry_ok disk n_blocks (i, if i = b then set_bytes bs c else c)"
    if "entry_ok disk n_blocks (i, c)" for disk i c
    using that len by (auto simp: entry_ok_def set_bytes_def)
  then have "cache_inv dinv dview n_blocks
      (s\<lparr>queue := map (\<lambda>(i, c). (i, if i = b then set_bytes bs c else c)) (queue s),
         device := device s\<rparr>)"
    using inv by (intro cache_inv_map) (auto simp: cache_inv_def list_all_iff)
  then show "cache_inv dinv dview n_blocks (cache_poke b bs s)"
    by (simp add: cache_poke_def)
  have "b \<in> fst ` set (queue s)" using inv b by (auto simp: cache_inv_def cache_held_def)
  then obtain c where "map_of (queue s) b = Some c"
    by (metis map_of_eq_None_iff not_None_eq)
  then show "cache_view dview (cache_poke b bs s) = (cache_view dview s)(b := bs)"
    by (auto simp: cache_view_def cache_poke_def map_of_map_snd set_bytes_def fun_eq_iff
        split: option.splits)
qed

lemma sync_queue_ok:
  assumes "dinv d" and "list_all (entry_ok (dview d) n_blocks) q" and "distinct (map fst q)"
    and "set gs \<inter> fst ` set q = {}"
  shows "\<exists>d'. sync_queue D gs q d = Some (map (\<lambda>(i, c). (i, c\<lparr>modified := False\<rparr>)) q, d') \<and> dinv d' \<and>
    dview d' = (\<lambda>b. case map_of q b of Some c \<Rightarrow> cache c | None \<Rightarrow> dview d b)"
  using assms
proof (induction q arbitrary: d)
  case Nil
  then show ?case by simp
next
  case (Cons p q)
  obtain i c where p: "p = (i, c)" by (cases p)
  have eok: "entry_ok (dview d) n_blocks (i, c)" using Cons.prems(2) p by simp
  obtain d1 where d1: "BlockCache_sync D c d = Some (c\<lparr>modified := False\<rparr>, d1)" "dinv d1"
      "dview d1 = (dview d)(i := cache c)"
    using sync_ok [OF Cons.prems(1) eok] by metis
  have i: "i \<notin> fst ` set q" using Cons.prems(3) p by auto
  have "list_all (entry_ok (dview d1) n_blocks) q"
    using Cons.prems(2) i d1(3) by (auto simp: list_all_iff image_iff intro!: entry_ok_other)
  then obtain d2 where d2: "sync_queue D gs q d1 = Some (map (\<lambda>(i, c). (i, c\<lparr>modified := False\<rparr>)) q, d2)"
      "dinv d2" "dview d2 = (\<lambda>b. case map_of q b of Some c \<Rightarrow> cache c | None \<Rightarrow> dview d1 b)"
    using Cons.IH [OF d1(2)] Cons.prems by auto
  have "map_of q i = None" using i by (simp add: map_of_eq_None_iff)
  then have "dview d2 = (\<lambda>b. case map_of (p # q) b of Some c \<Rightarrow> cache c | None \<Rightarrow> dview d b)"
    using d2(3) d1(3) p by (auto simp: fun_eq_iff split: option.splits)
  moreover have "i \<notin> set gs" using Cons.prems(4) p by auto
  ultimately show ?case using d1 d2 p by simp
qed

lemma sync_all_ok:
  assumes inv: "cache_inv dinv dview n_blocks s" and held: "cache_held s = {}"
  obtains s' where "block_cache_sync_all D s = Some s'" and "cache_inv dinv dview n_blocks s'"
    and "cache_view dview s' = cache_view dview s" and "cache_held s' = {}"
    and "dview (device s') = cache_view dview s"
proof -
  let ?clean = "map (\<lambda>(i, c). (i, c\<lparr>modified := False\<rparr>)) (queue s)"
  obtain d' where d': "sync_queue D (guards s) (queue s) (device s) = Some (?clean, d')" "dinv d'"
      "dview d' = cache_view dview s"
    using sync_queue_ok [of "device s" "queue s" "guards s"] inv held
    by (auto simp: cache_inv_def cache_held_def cache_view_def fun_eq_iff)
  let ?s' = "s\<lparr>queue := ?clean, device := d'\<rparr>"
  have mem: "map_of (queue s) (fst p) = Some (snd p)" if "p \<in> set (queue s)" for p
    using that inv by (simp add: cache_inv_def)
  have "entry_ok (dview d') n_blocks (i, c\<lparr>modified := False\<rparr>)" if "(i, c) \<in> set (queue s)" for i c
    using that inv mem [OF that] d'(3)
    by (auto simp: cache_inv_def list_all_iff entry_ok_def cache_view_def)
  then have "cache_inv dinv dview n_blocks ?s'"
    using inv d'(2) by (intro cache_inv_map)
  moreover have "cache_view dview ?s' = cache_view dview s"
    using d'(3) by (auto simp: cache_view_def map_of_map_snd fun_eq_iff split: option.splits)
  ultimately show ?thesis
    using d' held by (intro that [of ?s']) (simp_all add: block_cache_sync_all_def cache_held_def)
qed

end

section \<open>The manager meets the contract of the block store\<close>

sublocale block_device \<subseteq> store: block_store "cache_ops D" "cache_inv dinv dview n_blocks"
  "cache_view dview" cache_held n_blocks "synced dview"
proof
  fix s b
  assume s: "cache_inv dinv dview n_blocks s" and b: "b < n_blocks" "b \<notin> cache_held s"
    and room: "card (cache_held s) < BLOCK_CACHE_SIZE"
  from get_block_cache_ok [OF s b(1) room] obtain s' where s': "get_block_cache D b s = Some s'"
    "cache_inv dinv dview n_blocks s'" "cache_view dview s' = cache_view dview s"
    "guards s' = guards s" "b \<in> fst ` set (queue s')" .
  let ?s'' = "s'\<lparr>guards := b # guards s'\<rparr>"
  have "cache_lock D b s = Some ?s''"
    using s' b(2) by (simp add: cache_lock_def cache_held_def)
  moreover have "cache_inv dinv dview n_blocks ?s''"
    using s' b(2) by (simp add: cache_inv_def cache_held_def)
  moreover have "cache_view dview ?s'' = cache_view dview s"
    using s'(3) by simp
  ultimately show "\<exists>s'. lock_block (cache_ops D) b s = Some s' \<and> cache_inv dinv dview n_blocks s' \<and>
      cache_view dview s' = cache_view dview s \<and> cache_held s' = insert b (cache_held s)"
    using s'(4) by (simp add: cache_ops_def cache_held_def)
next
  fix s b
  assume "cache_inv dinv dview n_blocks s" "b \<in> cache_held s"
  then have "b \<in> fst ` set (queue s)" by (auto simp: cache_inv_def cache_held_def)
  then obtain c where "map_of (queue s) b = Some c"
    by (metis map_of_eq_None_iff not_None_eq)
  then show "peek_block (cache_ops D) b s = cache_view dview s b"
    by (simp add: cache_ops_def cache_peek_def cache_view_def)
next
  fix s b and bs :: bytes
  assume "cache_inv dinv dview n_blocks s" "b \<in> cache_held s" "length bs = BLOCK_SZ"
  from poke_keeps [OF this]
  show "cache_inv dinv dview n_blocks (poke_block (cache_ops D) b bs s) \<and>
      cache_view dview (poke_block (cache_ops D) b bs s) = (cache_view dview s)(b := bs) \<and>
      cache_held (poke_block (cache_ops D) b bs s) = cache_held s"
    by (simp add: cache_ops_def) (simp add: cache_held_def cache_poke_def)
next
  fix s b
  assume s: "cache_inv dinv dview n_blocks s" "b \<in> cache_held s"
  then have dist: "distinct (guards s)" by (simp add: cache_inv_def)
  then have "set (remove1 b (guards s)) = set (guards s) - {b}" by simp
  moreover from this have "cache_inv dinv dview n_blocks (cache_unlock b s)"
    using s dist by (auto simp: cache_inv_def cache_unlock_def)
  ultimately show "cache_inv dinv dview n_blocks (unlock_block (cache_ops D) b s) \<and>
      cache_view dview (unlock_block (cache_ops D) b s) = cache_view dview s \<and>
      cache_held (unlock_block (cache_ops D) b s) = cache_held s - {b}"
    by (simp add: cache_ops_def) (simp add: cache_unlock_def cache_held_def)
next
  fix s
  assume "cache_inv dinv dview n_blocks s" "cache_held s = {}"
  from sync_all_ok [OF this] obtain s' where "block_cache_sync_all D s = Some s'" "cache_inv dinv dview n_blocks s'"
    "cache_view dview s' = cache_view dview s" "cache_held s' = {}" "dview (device s') = cache_view dview s" .
  then show "\<exists>s'. sync_blocks (cache_ops D) s = Some s' \<and> cache_inv dinv dview n_blocks s' \<and>
      cache_view dview s' = cache_view dview s \<and> cache_held s' = {} \<and> synced dview s'"
    by (simp add: cache_ops_def synced_def)
next
  fix s b
  assume s: "cache_inv dinv dview n_blocks s" and b: "b < n_blocks"
  show "length (cache_view dview s b) = BLOCK_SZ"
  proof (cases "map_of (queue s) b")
    case None
    then show ?thesis using s b dview_length by (simp add: cache_view_def cache_inv_def)
  next
    case (Some c)
    then have "(b, c) \<in> set (queue s)" by (rule map_of_SomeD)
    with s Some show ?thesis by (auto simp: cache_view_def cache_inv_def list_all_iff entry_ok_def)
  qed
next
  fix s
  assume s: "cache_inv dinv dview n_blocks s"
  then have "b < n_blocks" if "(b, c) \<in> set (queue s)" for b c
    using that by (auto simp: cache_inv_def list_all_iff entry_ok_def)
  with s show "cache_held s \<subseteq> {..<n_blocks}"
    by (fastforce simp: cache_inv_def cache_held_def)
qed

context block_device
begin

lemma cache_store: "block_store (cache_ops D) (cache_inv dinv dview n_blocks) (cache_view dview) cache_held n_blocks (synced dview)"
  by (rule store.block_store_axioms)

end

lemma empty_cache:
  "dinv d \<Longrightarrow> cache_inv dinv dview n (BlockCacheManager_new d)"
  "cache_held (BlockCacheManager_new d) = {}" "cache_view dview (BlockCacheManager_new d) = dview d"
  by (simp_all add: BlockCacheManager_new_def cache_inv_def cache_held_def cache_view_def fun_eq_iff)

end
