(* ===== verification/FsSpec.thy ===== *)
theory FsSpec
  imports BlockCache VfsUnlink
begin

text \<open>
  The file system as its users see it: the inode operations on the block cache over
  any block device, against the abstract files.

  A state is \<open>fs_ready\<close> when the cache and the disk it shows are well formed and no
  block is locked; \<open>files\<close> maps inode numbers to types and contents; \<open>free_blocks\<close> is
  the number of data blocks that are not allocated. The theorems state, for each
  operation of \<^verbatim>\<open>vfs.rs\<close>, that it returns (no panic, no deadlock), what it returns, the
  files afterwards, the blocks it took or gave back, and, where the code syncs, that
  the device holds the result (\<open>synced\<close>).
\<close>

section \<open>States\<close>

definition fs_ready ::
  "('d \<Rightarrow> bool) \<Rightarrow> ('d \<Rightarrow> nat \<Rightarrow> bytes) \<Rightarrow> nat \<Rightarrow> EasyFileSystem \<Rightarrow> 'd cache_state \<Rightarrow> bool"
where
  "fs_ready dinv dview N E s \<longleftrightarrow>
     cache_inv dinv dview N s \<and> cache_held s = {} \<and> fs_inv N E (cache_view dview s)"

definition files ::
  "('d \<Rightarrow> nat \<Rightarrow> bytes) \<Rightarrow> EasyFileSystem \<Rightarrow> 'd cache_state \<Rightarrow> u32 \<Rightarrow> (DiskInodeType \<times> bytes) option"
where
  "files dview E s = fs_files E (cache_view dview s)"

definition free_blocks :: "('d \<Rightarrow> nat \<Rightarrow> bytes) \<Rightarrow> nat \<Rightarrow> EasyFileSystem \<Rightarrow> 'd cache_state \<Rightarrow> nat" where
  "free_blocks dview N E s = fs_free N E (cache_view dview s)"

definition free_inodes :: "('d \<Rightarrow> nat \<Rightarrow> bytes) \<Rightarrow> EasyFileSystem \<Rightarrow> 'd cache_state \<Rightarrow> nat" where
  "free_inodes dview E s =
     card ({..<Bitmap_maximum (inode_bitmap E)} - used_inodes E (cache_view dview s))"

text \<open>A name that a directory entry can hold and give back.\<close>

definition valid_name :: "bytes \<Rightarrow> bool" where
  "valid_name name \<longleftrightarrow> length name \<le> 27 \<and> 0 \<notin> set name \<and> utf8_valid name"

lemmas fs_state_defs = fs_ready_def files_def free_blocks_def free_inodes_def

lemma fs_readyD:
  assumes "fs_ready dinv dview N E s"
  shows "cache_inv dinv dview N s" and "cache_held s = {}" and "fs_inv N E (cache_view dview s)"
  using assms by (simp_all add: fs_ready_def)

lemma free_inodes_pos:
  assumes "0 < free_inodes dview E s"
  shows "used_inodes E (cache_view dview s) \<noteq> {..<Bitmap_maximum (inode_bitmap E)}"
proof
  assume "used_inodes E (cache_view dview s) = {..<Bitmap_maximum (inode_bitmap E)}"
  with assms show False unfolding free_inodes_def by (simp only: Diff_cancel card.empty less_irrefl)
qed

lemma used_inodes_files:
  assumes "fs_inv N E d"
  shows "used_inodes E d = unat ` dom (fs_files E d)"
proof -
  have max: "Bitmap_maximum (inode_bitmap E) < 2 ^ 32"
    using assms by (simp add: fs_inv_def efs_ok_def Bitmap_maximum_def)
  have "k \<in> unat ` dom (fs_files E d)" if k: "k \<in> used_inodes E d" for k
  proof -
    have u: "unat (of_nat k :: u32) = k" using used_inodes_max [OF k] max by (intro unat_of_nat_exact) simp
    then have "inode_at E d (of_nat k) \<noteq> None" using assms used_inodes_max [OF k] by (simp add: fs_inv_def)
    then have "of_nat k \<in> dom (fs_files E d)" using k u by (auto simp: fs_files_def)
    then show ?thesis using u by (metis imageI)
  qed
  then show ?thesis by (auto simp: fs_files_def split: if_splits)
qed

lemma free_inodes_eq:
  assumes "fs_ready dinv dview N E s"
  shows "free_inodes dview E s = Bitmap_maximum (inode_bitmap E) - card (dom (files dview E s))"
proof -
  let ?d = "cache_view dview s"
  have u: "used_inodes E ?d = unat ` dom (files dview E s)"
    using used_inodes_files [OF fs_readyD(3) [OF assms]] by (simp add: files_def)
  have sub: "used_inodes E ?d \<subseteq> {..<Bitmap_maximum (inode_bitmap E)}" using used_inodes_max by blast
  then have "finite (used_inodes E ?d)" by (rule finite_subset) simp
  then have "free_inodes dview E s = Bitmap_maximum (inode_bitmap E) - card (used_inodes E ?d)"
    unfolding free_inodes_def using sub by (simp add: card_Diff_subset)
  also have "card (used_inodes E ?d) = card (dom (files dview E s))"
    unfolding u by (intro card_image) (simp add: inj_on_def)
  finally show ?thesis .
qed

lemma finite_files: "finite (dom (files dview E s))"
  by simp

section \<open>A fresh file system\<close>

lemma fresh_fs_inv:
  assumes ok: "efs_ok N E" and disk: "disk_ok N d" and fresh: "fresh N E sb d"
  shows "fs_inv N E d" and "fs_files E d = [0 \<mapsto> (Directory, [])]" and "fs_free N E d = N - data_start E"
    and "used_inodes E d = {0}"
proof -
  have used: "used_inodes E d = {0}" "used_data E d = {}" using fresh by (simp_all add: fresh_def)
  have at: "inode_at E d i = Some (empty_inode (if i = 0 then Directory else File))"
    if "unat i < Bitmap_maximum (inode_bitmap E)" for i
    using fresh that by (simp add: fresh_def)
  have "0 \<in> used_inodes E d" using used(1) by simp
  then have max: "0 < Bitmap_maximum (inode_bitmap E)" using used_inodes_max by fastforce
  have dir: "length (direct (empty_inode t)) = 28" "isize (empty_inode t) = 0" "itype (empty_inode t) = t" for t
    by (simp_all add: empty_inode_def)
  have zero: "unat i \<in> used_inodes E d \<longleftrightarrow> i = 0" for i using used(1) by (simp add: unat_eq_0)
  have root: "inode_at E d 0 = Some (empty_inode Directory)" using at [of 0] max by simp
  show "fs_inv N E d"
    unfolding fs_inv_def zero
  proof (intro conjI allI impI)
    fix i ino assume "i = 0" "inode_at E d i = Some ino"
    then have "ino = empty_inode Directory" using root by simp
    then show "inode_good N E d ino" using inode_good_0(1) [OF disk dir(1,2)] by simp
  qed (use ok disk at in simp_all)
  show "fs_files E d = [0 \<mapsto> (Directory, [])]"
    using root inode_good_0(3) [OF disk dir(1,2)] dir(3) by (auto simp: fs_files_def zero fun_eq_iff)
  show "fs_free N E d = N - data_start E" by (simp add: fs_free_def used(2))
  show "used_inodes E d = {0}" by fact
qed

definition blank_image :: "nat \<Rightarrow> image_file cache_state" where
  "blank_image n = BlockCacheManager_new \<lparr>contents = replicate (n * 512) 0, cursor = 0\<rparr>"

lemma blank_image_ok:
  "cache_inv (file_ok n) file_block n (blank_image n)" "cache_held (blank_image n) = {}"
  unfolding blank_image_def by (rule empty_cache, simp add: file_ok_def) (rule empty_cache)

lemma new_image:
  "\<exists>s. fs_ready (file_ok 2000) file_block 2000 (fst (EasyFileSystem_layout 2000 1)) s \<and>
     files file_block (fst (EasyFileSystem_layout 2000 1)) s = [0 \<mapsto> (Directory, [])] \<and>
     free_blocks file_block 2000 (fst (EasyFileSystem_layout 2000 1)) s = 973 \<and>
     free_inodes file_block (fst (EasyFileSystem_layout 2000 1)) s = 4095"
proof -
  let ?E = "fst (EasyFileSystem_layout 2000 1)"
  note B = block_device.cache_store [OF image.block_device_axioms, of 2000]
  obtain s where s: "cache_inv (file_ok 2000) file_block 2000 s" "cache_held s = {}" "efs_ok 2000 ?E"
      "fresh 2000 ?E (snd (EasyFileSystem_layout 2000 1)) (cache_view file_block s)"
    using block_store.create_returns [OF B blank_image_ok, of 1 2000] unfolding block_store.settles_def [OF B] by auto
  have "disk_ok 2000 (cache_view file_block s)" using block_store.view_ok [OF B s(1)] .
  note f = fresh_fs_inv [OF s(3) this s(4)]
  have E: "data_start ?E = 1027" "Bitmap_maximum (inode_bitmap ?E) = 4096"
    by (simp_all add: EasyFileSystem_layout_def Let_def data_start_def Bitmap_maximum_def Bitmap_new_def)
  have "{..<4096} - {0} = {1..<4096 :: nat}" by auto
  then have "card ({..<Bitmap_maximum (inode_bitmap ?E)} - used_inodes ?E (cache_view file_block s)) = 4095"
    unfolding f(4) E(2) by simp
  then show ?thesis unfolding fs_state_defs using s(1,2) f(1-3) E(1) by (intro exI [of _ s]) simp
qed

text \<open>An image with one file, named \<^verbatim>\<open>a\<close>, of three bytes.\<close>

abbreviation img :: EasyFileSystem where
  "img \<equiv> fst (EasyFileSystem_layout 2000 1)"

abbreviation img_ready :: "image_file cache_state \<Rightarrow> bool" where
  "img_ready \<equiv> fs_ready (file_ok 2000) file_block 2000 img"

lemma blocks_for_small: "0 < n \<Longrightarrow> n \<le> 512 \<Longrightarrow> blocks_for n = 1"
proof -
  assume "0 < n" and "n \<le> 512"
  then have "(n + 511) div 512 = 1" by (intro div_nat_eqI) simp_all
  then show ?thesis by (simp add: blocks_for_def n_cells_def)
qed

lemma blocks_for_0 [simp]: "blocks_for 0 = 0"
  by (simp add: blocks_for_def n_cells_def)

lemma valid_name_a [simp]: "valid_name [97]"
  by (simp add: valid_name_def)

lemma used_image:
  "\<exists>s bs j. img_ready s \<and> files file_block img s 0 = Some (Directory, bs) \<and> dir_ok bs \<and> length bs = 32 \<and>
     dir_list bs = [([97], j)] \<and> files file_block img s j = Some (File, [1, 2, 3]) \<and>
     900 \<le> free_blocks file_block 2000 img s \<and> unat j < Bitmap_maximum (inode_bitmap img)"
proof -
  note B = block_device.cache_store [OF image.block_device_axioms, of 2000]
  obtain s where s: "img_ready s" "files file_block img s = [0 \<mapsto> (Directory, [])]"
      "free_blocks file_block 2000 img s = 973" "free_inodes file_block img s = 4095"
    using new_image by blast
  note r = fs_readyD [OF s(1)]
  have room: "used_inodes img (cache_view file_block s) \<noteq> {..<Bitmap_maximum (inode_bitmap img)}"
    using s(4) by (intro free_inodes_pos) simp
  have name: "length [97 :: u8] \<le> 27" "0 \<notin> set [97 :: u8]" "utf8_valid [97]" by simp_all
  have "fs_files img (cache_view file_block s) 0 = Some (Directory, [])" using s(2) by (simp add: files_def)
  from block_store.Inode_create_returns [OF B r this dir_Nil(1) name _ room] s(3)
  obtain s1 j bs where s1: "cache_inv (file_ok 2000) file_block 2000 s1" "cache_held s1 = {}"
    and q: "fs_files img (cache_view file_block s) j = None" "fs_inv 2000 img (cache_view file_block s1)" "dir_ok bs"
      "dir_list bs = [([97], j)]" "length bs = 32"
      "fs_files img (cache_view file_block s1) = (fs_files img (cache_view file_block s))(j \<mapsto> (File, []), 0 \<mapsto> (Directory, bs))"
      "fs_free 2000 img (cache_view file_block s1) = 972"
    unfolding block_store.settles_def [OF B] by (auto simp: MAX_FILE_SIZE_def blocks_for_small free_blocks_def)
  have j: "j \<noteq> 0" using q(1) s(2) by (auto simp: files_def)
  have fj: "fs_files img (cache_view file_block s1) j = Some (File, [])" using q(6) j by simp
  from block_store.Inode_write_at_returns [OF B s1 q(2) fj, of 0 "[1, 2, 3]"] q(7)
  obtain s2 where s2: "cache_inv (file_ok 2000) file_block 2000 s2" "cache_held s2 = {}"
    and w: "fs_inv 2000 img (cache_view file_block s2)"
      "fs_files img (cache_view file_block s2) = (fs_files img (cache_view file_block s1))(j \<mapsto> (File, [1, 2, 3]))"
      "fs_free 2000 img (cache_view file_block s2) = 971"
    unfolding block_store.settles_def [OF B] by (auto simp: MAX_FILE_SIZE_def blocks_for_small)
  have "unat j < Bitmap_maximum (inode_bitmap img)" using fs_files_used [OF fj] by (rule used_inodes_max)
  then show ?thesis
    using s2 w q(3-6) j by (intro exI [of _ s2] exI [of _ bs] exI [of _ j]) (simp add: fs_state_defs)
qed

section \<open>Reading and writing\<close>

lemma write_ready:
  assumes dev: "block_device D dinv dview N" and s: "fs_ready dinv dview N E s"
    and i: "files dview E s i = Some (t, bs)" and off: "off \<le> length bs" and buf: "buf \<noteq> []"
    and fits: "off + length buf \<le> MAX_FILE_SIZE"
      "blocks_for (off + length buf) \<le> blocks_for (length bs) + free_blocks dview N E s"
  shows "\<exists>s' bs'. Inode_write_at (cache_ops D) E (inode_ref E i) off buf s = Some (length buf, s') \<and>
    fs_ready dinv dview N E s' \<and> synced dview s' \<and>
    bs' = take off bs @ buf @ drop (off + length buf) bs \<and> files dview E s' = (files dview E s)(i \<mapsto> (t, bs')) \<and>
    free_blocks dview N E s' + blocks_for (length bs') = free_blocks dview N E s + blocks_for (length bs)"
proof -
  note B = block_device.cache_store [OF dev] and r = fs_readyD [OF s]
  show ?thesis
    using block_store.Inode_write_inside_returns [OF B r i [unfolded files_def] fits(1) buf fits(2) [unfolded free_blocks_def] off]
    unfolding block_store.settles_def [OF B] fs_state_defs by blast
qed

text \<open>
  C2 (refinement). \<^verbatim>\<open>write_at\<close> at an offset inside a file or at its end replaces the bytes
  from there on, growing the file as needed. It returns the length of the buffer, no
  other file changes, the free blocks shrink by what the growth takes, and the device
  holds the result.
\<close>

theorem fs_write_at:
  assumes dev: "block_device D dinv dview N" and s: "fs_ready dinv dview N E s"
    and i: "files dview E s i = Some (t, bs)" and off: "off \<le> length bs" and buf: "buf \<noteq> []"
    and fits: "off + length buf \<le> MAX_FILE_SIZE"
      "blocks_for (off + length buf) \<le> blocks_for (length bs) + free_blocks dview N E s"
  shows "\<exists>s' bs'. Inode_write_at (cache_ops D) E (inode_ref E i) off buf s = Some (length buf, s') \<and>
    fs_ready dinv dview N E s' \<and> synced dview s' \<and>
    bs' = take off bs @ buf @ drop (off + length buf) bs \<and> files dview E s' = (files dview E s)(i \<mapsto> (t, bs')) \<and>
    free_blocks dview N E s' + blocks_for (length bs') = free_blocks dview N E s + blocks_for (length bs)"
  using assms by (rule write_ready)

theorem fs_write_at_witness:
  "\<exists>s j s'. files file_block img s j = Some (File, [1, 2, 3]) \<and>
     Inode_write_at (cache_ops BlockFile) img (inode_ref img j) 2 [7, 8] s = Some (2, s') \<and>
     files file_block img s' j = Some (File, [1, 2, 7, 8])"
proof -
  obtain s j where s: "img_ready s" "files file_block img s j = Some (File, [1, 2, 3])" using used_image by blast
  show ?thesis
    by (rule exI [of _ s], rule exI [of _ j], use fs_write_at [OF image.block_device_axioms s, of 2 "[7, 8]"] s(2)
        in \<open>auto simp: MAX_FILE_SIZE_def blocks_for_small numeral_2_eq_2\<close>)
qed

text \<open>
  C26 (functional). \<^verbatim>\<open>read_at\<close> fills the buffer with the bytes of the file from the offset
  on, up to the end of the file, returns how many there were, and changes no file.
\<close>

theorem fs_read_at:
  assumes dev: "block_device D dinv dview N" and s: "fs_ready dinv dview N E s"
    and i: "files dview E s i = Some (t, bs)"
  shows "\<exists>s' k. k = min (length buf) (length bs - off) \<and>
    Inode_read_at (cache_ops D) (inode_ref E i) off buf s = Some ((k, take k (drop off bs) @ drop k buf), s') \<and>
    fs_ready dinv dview N E s' \<and> files dview E s' = files dview E s"
proof -
  note B = block_device.cache_store [OF dev] and r = fs_readyD [OF s]
  obtain s' where s': "Inode_read_at (cache_ops D) (inode_ref E i) off buf s =
        Some ((length (buf_get off (length buf) bs), buf_put 0 (buf_get off (length buf) bs) buf), s')"
      "cache_inv dinv dview N s'" "cache_held s' = {}" "cache_view dview s' = cache_view dview s"
    using block_store.Inode_read_at_returns [OF B r i [unfolded files_def], of off buf]
    unfolding block_store.returns_def [OF B] by auto
  let ?k = "min (length buf) (length bs - off)"
  have "buf_put 0 (buf_get off (length buf) bs) buf = take ?k (drop off bs) @ drop ?k buf"
    by (simp add: buf_put_def buf_get_def min_def)
  then show ?thesis using s' r(3) by (auto simp: fs_state_defs)
qed

theorem fs_read_at_witness:
  "\<exists>s j s'. files file_block img s j = Some (File, [1, 2, 3]) \<and>
     Inode_read_at (cache_ops BlockFile) (inode_ref img j) 1 [0, 0, 9, 9] s = Some ((2, [2, 3, 9, 9]), s')"
proof -
  obtain s j where s: "img_ready s" "files file_block img s j = Some (File, [1, 2, 3])" using used_image by blast
  show ?thesis
    by (rule exI [of _ s], rule exI [of _ j], use fs_read_at [OF image.block_device_axioms s, of "[0, 0, 9, 9]" 1] s(2)
        in \<open>auto simp: numeral_2_eq_2\<close>)
qed

text \<open>
  C7 (roundtrip). What \<^verbatim>\<open>write_at\<close> stores at any offset, also past the end of the file,
  \<^verbatim>\<open>read_at\<close> returns from that offset, and the bytes before the old end that the write
  does not cover are kept.
\<close>

theorem fs_write_read:
  assumes dev: "block_device D dinv dview N" and s: "fs_ready dinv dview N E s"
    and i: "files dview E s i = Some (t, bs)" and buf: "buf \<noteq> []" "length buf' = length buf"
    and fits: "off + length buf \<le> MAX_FILE_SIZE"
      "blocks_for (off + length buf) \<le> blocks_for (length bs) + free_blocks dview N E s"
  shows "\<exists>s1 s2 bs'. Inode_write_at (cache_ops D) E (inode_ref E i) off buf s = Some (length buf, s1) \<and>
    Inode_read_at (cache_ops D) (inode_ref E i) off buf' s1 = Some ((length buf, buf), s2) \<and>
    files dview E s2 i = Some (t, bs') \<and> length bs' = max (length bs) (off + length buf) \<and>
    (\<forall>k<length bs. k < off \<or> off + length buf \<le> k \<longrightarrow> bs' ! k = bs ! k)"
proof -
  note B = block_device.cache_store [OF dev] and r = fs_readyD [OF s]
  obtain s1 base where s1: "Inode_write_at (cache_ops D) E (inode_ref E i) off buf s = Some (length buf, s1)"
      "cache_inv dinv dview N s1" "cache_held s1 = {}" "fs_inv N E (cache_view dview s1)"
      "fs_files E (cache_view dview s1) = (fs_files E (cache_view dview s))(i \<mapsto> (t, buf_put off buf base))"
      "length base = max (length bs) (off + length buf)" "take (length bs) base = bs"
    using block_store.Inode_write_at_returns [OF B r i [unfolded files_def] fits(1) buf(1) fits(2) [unfolded free_blocks_def]]
    unfolding block_store.settles_def [OF B] by blast
  have len: "off + length buf \<le> length base" using s1(6) by simp
  have get: "buf_get off (length buf) (buf_put off buf base) = buf" using len by simp
  have "fs_files E (cache_view dview s1) i = Some (t, buf_put off buf base)" using s1(5) by simp
  from block_store.Inode_read_at_returns [OF B s1(2-4) this, of off buf'] obtain s2 where
    s2: "Inode_read_at (cache_ops D) (inode_ref E i) off buf' s1 = Some ((length buf, buf), s2)"
      "cache_view dview s2 = cache_view dview s1"
    unfolding block_store.returns_def [OF B] buf(2) get by (auto simp: buf(2))
  have "buf_put off buf base ! k = bs ! k" if "k < length bs" "k < off \<or> off + length buf \<le> k" for k
  proof -
    have "base ! k = bs ! k" using s1(7) that(1) by (metis nth_take)
    then show ?thesis using that len s1(6) by (subst nth_buf_put) auto
  qed
  then show ?thesis using s1(1,5,6) s2 len by (auto simp: files_def)
qed

theorem fs_write_read_witness:
  "\<exists>s j s1 s2 bs'. files file_block img s j = Some (File, [1, 2, 3]) \<and>
     Inode_write_at (cache_ops BlockFile) img (inode_ref img j) 600 [7, 8] s = Some (2, s1) \<and>
     Inode_read_at (cache_ops BlockFile) (inode_ref img j) 600 [0, 0] s1 = Some ((2, [7, 8]), s2) \<and>
     files file_block img s2 j = Some (File, bs') \<and> length bs' = 602 \<and> bs' ! 2 = 3"
proof -
  obtain s j where s: "img_ready s" "files file_block img s j = Some (File, [1, 2, 3])"
    and free: "900 \<le> free_blocks file_block 2000 img s" using used_image by blast
  have "blocks_for 602 = 2" by (simp add: blocks_for_def n_cells_def)
  then show ?thesis
    using fs_write_read [OF image.block_device_axioms s, of "[7, 8]" "[0, 0]" 600] s(2) free
    by (force simp: MAX_FILE_SIZE_def)
qed

text \<open>
  C5 (invariant). \<^verbatim>\<open>clear\<close> empties a file of any size, gives every block it had, index
  blocks included, back to the allocator, changes no other file, keeps the file system
  well formed, and leaves the result on the device.
\<close>

theorem fs_clear:
  assumes dev: "block_device D dinv dview N" and s: "fs_ready dinv dview N E s"
    and i: "files dview E s i = Some (t, bs)"
  shows "\<exists>s'. Inode_clear (cache_ops D) E (inode_ref E i) s = Some ((), s') \<and>
    fs_ready dinv dview N E s' \<and> synced dview s' \<and> files dview E s' = (files dview E s)(i \<mapsto> (t, [])) \<and>
    free_blocks dview N E s' = free_blocks dview N E s + blocks_for (length bs)"
proof -
  note B = block_device.cache_store [OF dev] and r = fs_readyD [OF s]
  show ?thesis
    using block_store.Inode_clear_returns [OF B r i [unfolded files_def]]
    unfolding block_store.settles_def [OF B] by (auto simp: fs_state_defs)
qed

theorem fs_clear_witness:
  "\<exists>s j s'. files file_block img s j = Some (File, [1, 2, 3]) \<and>
     Inode_clear (cache_ops BlockFile) img (inode_ref img j) s = Some ((), s') \<and>
     files file_block img s' j = Some (File, []) \<and>
     free_blocks file_block 2000 img s' = free_blocks file_block 2000 img s + 1"
proof -
  obtain s j where s: "img_ready s" "files file_block img s j = Some (File, [1, 2, 3])" using used_image by blast
  show ?thesis
    by (rule exI [of _ s], rule exI [of _ j], use fs_clear [OF image.block_device_axioms s] s(2)
        in \<open>auto simp: blocks_for_small\<close>)
qed

end
