(* ===== verification/FsDirSpec.thy ===== *)
theory FsDirSpec
  imports FsSpec
begin

text \<open>
  The directory operations as their users see them: \<^verbatim>\<open>find\<close>, \<^verbatim>\<open>ls\<close>, \<^verbatim>\<open>create\<close>, \<^verbatim>\<open>link\<close>,
  \<^verbatim>\<open>unlink\<close> and \<^verbatim>\<open>get_link_num\<close> of \<^verbatim>\<open>vfs.rs\<close> on the block cache, against the list of names
  and inode numbers of the directory (\<open>dir_list\<close>).
\<close>

section \<open>Looking up\<close>

text \<open>
  C25 (equivalence). \<^verbatim>\<open>find\<close> agrees with a lookup in the list of entries: it returns the
  inode of the first entry with the name, or nothing, and changes no file.
\<close>

theorem fs_find:
  assumes dev: "block_device D dinv dview N" and s: "fs_ready dinv dview N E s"
    and i: "files dview E s i = Some (Directory, bs)" and ok: "dir_ok bs"
  shows "\<exists>s'. Inode_find (cache_ops D) E (inode_ref E i) name s =
      Some (map_option (inode_ref E) (map_of (dir_list bs) name), s') \<and>
    fs_ready dinv dview N E s' \<and> files dview E s' = files dview E s"
proof -
  note B = block_device.cache_store [OF dev] and r = fs_readyD [OF s]
  show ?thesis
    using block_store.Inode_find_returns [OF B r i [unfolded files_def] ok, of name] r(3)
    unfolding block_store.returns_def [OF B] by (auto simp: fs_state_defs)
qed

theorem fs_find_witness:
  "\<exists>s j s1 s2. files file_block img s j = Some (File, [1, 2, 3]) \<and>
     Inode_find (cache_ops BlockFile) img (inode_ref img 0) [97] s = Some (Some (inode_ref img j), s1) \<and>
     Inode_find (cache_ops BlockFile) img (inode_ref img 0) [98] s = Some (None, s2)"
proof -
  obtain s bs j where s: "img_ready s" "files file_block img s 0 = Some (Directory, bs)" "dir_ok bs"
    and j: "dir_list bs = [([97], j)]" "files file_block img s j = Some (File, [1, 2, 3])" using used_image by blast
  note find = fs_find [OF image.block_device_axioms s]
  obtain s1 s2 where "Inode_find (cache_ops BlockFile) img (inode_ref img 0) [97] s = Some (Some (inode_ref img j), s1)"
      "Inode_find (cache_ops BlockFile) img (inode_ref img 0) [98] s = Some (None, s2)"
    using find [of "[97]"] find [of "[98]"] by (auto simp: j(1))
  then show ?thesis using j(2) by blast
qed

text \<open>
  C27 (functional). \<^verbatim>\<open>ls\<close> returns the names of all entries in order and changes no file.
\<close>

theorem fs_ls:
  assumes dev: "block_device D dinv dview N" and s: "fs_ready dinv dview N E s"
    and i: "files dview E s i = Some (t, bs)" and ok: "dir_ok bs"
  shows "\<exists>s'. Inode_ls (cache_ops D) (inode_ref E i) s = Some (map fst (dir_list bs), s') \<and>
    fs_ready dinv dview N E s' \<and> files dview E s' = files dview E s"
proof -
  note B = block_device.cache_store [OF dev] and r = fs_readyD [OF s]
  show ?thesis
    using block_store.Inode_ls_returns [OF B r i [unfolded files_def] ok] r(3)
    unfolding block_store.returns_def [OF B] by (auto simp: fs_state_defs)
qed

theorem fs_ls_witness:
  "\<exists>s s'. img_ready s \<and> Inode_ls (cache_ops BlockFile) (inode_ref img 0) s = Some ([[97]], s')"
proof -
  obtain s bs j where s: "img_ready s" "files file_block img s 0 = Some (Directory, bs)" "dir_ok bs"
    and j: "dir_list bs = [([97], j)]" using used_image by blast
  show ?thesis using fs_ls [OF image.block_device_axioms s] s(1) j by auto
qed

section \<open>Adding entries\<close>

lemma create_ready:
  assumes dev: "block_device D dinv dview N" and s: "fs_ready dinv dview N E s"
    and i: "files dview E s i = Some (Directory, bs)" and ok: "dir_ok bs"
    and name: "valid_name name" "map_of (dir_list bs) name = None"
    and room: "0 < free_inodes dview E s" "length bs + 32 \<le> MAX_FILE_SIZE"
      "blocks_for (length bs + 32) \<le> blocks_for (length bs) + free_blocks dview N E s"
  shows "\<exists>s' j bs'. Inode_create (cache_ops D) E (inode_ref E i) name s = Some (Some (inode_ref E j), s') \<and>
    fs_ready dinv dview N E s' \<and> synced dview s' \<and> files dview E s j = None \<and>
    files dview E s' = (files dview E s)(j \<mapsto> (File, []), i \<mapsto> (Directory, bs')) \<and>
    dir_ok bs' \<and> dir_list bs' = dir_list bs @ [(name, j)] \<and>
    free_blocks dview N E s' + blocks_for (length bs') = free_blocks dview N E s + blocks_for (length bs) \<and>
    length bs' = length bs + 32 \<and> Suc (free_inodes dview E s') = free_inodes dview E s"
proof -
  note B = block_device.cache_store [OF dev] and r = fs_readyD [OF s]
  have nm: "length name \<le> 27" "0 \<notin> set name" "utf8_valid name" using name(1) by (simp_all add: valid_name_def)
  obtain s' j bs' where
    c: "Inode_create (cache_ops D) E (inode_ref E i) name s = Some (Some (inode_ref E j), s')"
    "cache_inv dinv dview N s'" "cache_held s' = {}" "synced dview s'" "fs_files E (cache_view dview s) j = None"
    "fs_inv N E (cache_view dview s')" "dir_ok bs'" "dir_list bs' = dir_list bs @ [(name, j)]" "length bs' = length bs + 32"
    "fs_files E (cache_view dview s') = (fs_files E (cache_view dview s))(j \<mapsto> (File, []), i \<mapsto> (Directory, bs'))"
    "fs_free N E (cache_view dview s') + blocks_for (length bs + 32) =
      fs_free N E (cache_view dview s) + blocks_for (length bs)"
    using block_store.Inode_create_returns [OF B r i [unfolded files_def] ok nm name(2) free_inodes_pos [OF room(1)]
        room(2) room(3) [unfolded free_blocks_def]]
    unfolding block_store.settles_def [OF B] by blast
  have rd: "fs_ready dinv dview N E s'" using c(2,3,6) by (simp add: fs_ready_def)
  have f: "files dview E s' = (files dview E s)(j \<mapsto> (File, []), i \<mapsto> (Directory, bs'))" "files dview E s j = None"
    using c(5,10) by (simp_all add: files_def)
  have "dom (files dview E s') = insert j (dom (files dview E s))" using f i by auto
  then have "Suc (free_inodes dview E s') = free_inodes dview E s"
    using free_inodes_eq [OF s] free_inodes_eq [OF rd] room(1) f(2) finite_files [of dview E s] by (simp add: card_insert_if domIff)
  then show ?thesis
    using c rd f by (intro exI [of _ s'] exI [of _ j] exI [of _ bs']) (simp add: free_blocks_def)
qed

text \<open>
  C3 (refinement). \<^verbatim>\<open>create\<close> of a name that the directory does not have takes a free inode,
  makes it an empty file, appends the entry, and leaves the result on the device. All
  other files and entries stay.
\<close>

theorem fs_create:
  assumes dev: "block_device D dinv dview N" and s: "fs_ready dinv dview N E s"
    and i: "files dview E s i = Some (Directory, bs)" and ok: "dir_ok bs"
    and name: "valid_name name" "map_of (dir_list bs) name = None"
    and room: "0 < free_inodes dview E s" "length bs + 32 \<le> MAX_FILE_SIZE"
      "blocks_for (length bs + 32) \<le> blocks_for (length bs) + free_blocks dview N E s"
  shows "\<exists>s' j bs'. Inode_create (cache_ops D) E (inode_ref E i) name s = Some (Some (inode_ref E j), s') \<and>
    fs_ready dinv dview N E s' \<and> synced dview s' \<and> files dview E s j = None \<and>
    files dview E s' = (files dview E s)(j \<mapsto> (File, []), i \<mapsto> (Directory, bs')) \<and>
    dir_ok bs' \<and> dir_list bs' = dir_list bs @ [(name, j)] \<and>
    free_blocks dview N E s' + blocks_for (length bs') = free_blocks dview N E s + blocks_for (length bs)"
  using create_ready [OF assms] by blast

theorem fs_create_witness:
  "\<exists>s s' j. img_ready s \<and> files file_block img s = [0 \<mapsto> (Directory, [])] \<and>
     Inode_create (cache_ops BlockFile) img (inode_ref img 0) [97] s = Some (Some (inode_ref img j), s') \<and>
     files file_block img s' j = Some (File, [])"
proof -
  obtain s where s: "img_ready s" "files file_block img s = [0 \<mapsto> (Directory, [])]"
    and free: "free_blocks file_block 2000 img s = 973" "free_inodes file_block img s = 4095"
    using new_image by blast
  have root: "files file_block img s 0 = Some (Directory, [])" using s(2) by simp
  obtain s' j bs' where c: "Inode_create (cache_ops BlockFile) img (inode_ref img 0) [97] s = Some (Some (inode_ref img j), s')"
      "files file_block img s j = None"
      "files file_block img s' = (files file_block img s)(j \<mapsto> (File, []), 0 \<mapsto> (Directory, bs'))"
    using fs_create [OF image.block_device_axioms s(1) root dir_Nil(1) valid_name_a] free
    by (auto simp: MAX_FILE_SIZE_def blocks_for_small)
  have "j \<noteq> 0" using c(2) root by auto
  then have "files file_block img s' j = Some (File, [])" using c(3) by simp
  with c(1) s show ?thesis by blast
qed

text \<open>
  \<^verbatim>\<open>create\<close> of a name that the directory already has returns \<^verbatim>\<open>None\<close> and
  changes no file.
\<close>

lemma fs_create_exists:
  assumes dev: "block_device D dinv dview N" and s: "fs_ready dinv dview N E s"
    and i: "files dview E s i = Some (Directory, bs)" and ok: "dir_ok bs"
    and name: "map_of (dir_list bs) name \<noteq> None"
  shows "\<exists>s'. Inode_create (cache_ops D) E (inode_ref E i) name s = Some (None, s') \<and>
    fs_ready dinv dview N E s' \<and> files dview E s' = files dview E s"
proof -
  note B = block_device.cache_store [OF dev] and r = fs_readyD [OF s]
  show ?thesis
    using block_store.Inode_create_exists_returns [OF B r i [unfolded files_def] ok name] r(3)
    unfolding block_store.returns_def [OF B] by (auto simp: fs_state_defs)
qed

text \<open>
  C24 (functional). \<^verbatim>\<open>link\<close> appends an entry for the inode of the old name; afterwards
  \<^verbatim>\<open>get_link_num\<close> reports one link more for that inode, and no other file changes.
\<close>

theorem fs_link:
  assumes dev: "block_device D dinv dview N" and s: "fs_ready dinv dview N E s"
    and i: "files dview E s i = Some (Directory, bs)" and ok: "dir_ok bs"
    and ids: "\<forall>x \<in> set (dir_list bs). unat (snd x) < Bitmap_maximum (inode_bitmap E)"
    and old: "map_of (dir_list bs) old = Some j" and name: "valid_name name"
    and room: "length bs + 32 \<le> MAX_FILE_SIZE"
      "blocks_for (length bs + 32) \<le> blocks_for (length bs) + free_blocks dview N E s"
  shows "\<exists>s1 s2 bs' cnt. Inode_link (cache_ops D) E (inode_ref E i) old name s = Some (Some (inode_ref E j), s1) \<and>
    get_link_num (cache_ops D) E (inode_ref E i) (vi_block_id (inode_ref E j)) (vi_block_offset (inode_ref E j)) s1 =
      Some (cnt, s2) \<and> unat cnt = Suc (length (filter (\<lambda>x. snd x = j) (dir_list bs))) \<and>
    fs_ready dinv dview N E s2 \<and> files dview E s2 = (files dview E s)(i \<mapsto> (Directory, bs')) \<and>
    dir_ok bs' \<and> dir_list bs' = dir_list bs @ [(name, j)]"
proof -
  note B = block_device.cache_store [OF dev] and r = fs_readyD [OF s]
  have nm: "length name \<le> 27" "0 \<notin> set name" "utf8_valid name" using name(1) by (simp_all add: valid_name_def)
  have j: "unat j < Bitmap_maximum (inode_bitmap E)" using map_of_SomeD [OF old] ids by force
  obtain s1 bs' where s1: "Inode_link (cache_ops D) E (inode_ref E i) old name s = Some (Some (inode_ref E j), s1)"
    "cache_inv dinv dview N s1" "cache_held s1 = {}" "fs_inv N E (cache_view dview s1)"
    and q: "dir_ok bs'" "dir_list bs' = dir_list bs @ [(name, j)]"
      "fs_files E (cache_view dview s1) = (fs_files E (cache_view dview s))(i \<mapsto> (Directory, bs'))"
    using block_store.Inode_link_returns [OF B r i [unfolded files_def] ok nm old room(1) room(2) [unfolded free_blocks_def]]
    unfolding block_store.returns_def [OF B] by blast
  have ids': "\<forall>x \<in> set (dir_list bs'). unat (snd x) < Bitmap_maximum (inode_bitmap E)" using q(2) ids j by simp
  have i': "fs_files E (cache_view dview s1) i = Some (Directory, bs')" using q(3) by simp
  obtain cnt s2 where "get_link_num (cache_ops D) E (inode_ref E i) (vi_block_id (inode_ref E j)) (vi_block_offset (inode_ref E j)) s1 =
      Some (cnt, s2)" "cache_inv dinv dview N s2" "cache_held s2 = {}" "cache_view dview s2 = cache_view dview s1"
      "unat cnt = length (filter (\<lambda>x. snd x = j) (dir_list bs'))"
    using block_store.get_link_num_returns [OF B s1(2-4) i' q(1) ids' j] unfolding block_store.returns_def [OF B] by blast
  then show ?thesis
    using s1 q by (intro exI [of _ s1] exI [of _ s2] exI [of _ bs'] exI [of _ cnt]) (simp add: fs_state_defs)
qed

theorem fs_link_witness:
  "\<exists>s s1 s2 j. img_ready s \<and>
     Inode_link (cache_ops BlockFile) img (inode_ref img 0) [97] [98] s = Some (Some (inode_ref img j), s1) \<and>
     get_link_num (cache_ops BlockFile) img (inode_ref img 0) (vi_block_id (inode_ref img j)) (vi_block_offset (inode_ref img j)) s1 =
       Some (2, s2)"
proof -
  obtain s bs j where s: "img_ready s" "files file_block img s 0 = Some (Directory, bs)" "dir_ok bs"
    and j: "length bs = 32" "dir_list bs = [([97], j)]" "unat j < Bitmap_maximum (inode_bitmap img)" using used_image by blast
  have ids: "\<forall>x \<in> set (dir_list bs). unat (snd x) < Bitmap_maximum (inode_bitmap img)" using j(2,3) by simp
  have old: "map_of (dir_list bs) [97] = Some j" and nm: "valid_name [98]" using j(2) by (simp_all add: valid_name_def)
  obtain s1 s2 cnt where r: "Inode_link (cache_ops BlockFile) img (inode_ref img 0) [97] [98] s = Some (Some (inode_ref img j), s1)"
      "get_link_num (cache_ops BlockFile) img (inode_ref img 0) (vi_block_id (inode_ref img j)) (vi_block_offset (inode_ref img j)) s1 =
        Some (cnt, s2)" "unat cnt = 2"
    using fs_link [OF image.block_device_axioms s ids old nm] j(1,2) by (auto simp: MAX_FILE_SIZE_def blocks_for_small)
  have "cnt = 2" using r(3) using word_unat_eq_iff [of cnt 2] by simp
  then show ?thesis using s(1) r(1,2) by blast
qed

section \<open>Removing entries\<close>

text \<open>
  C4 (refinement). \<^verbatim>\<open>unlink\<close> of a name of the directory returns 0 and removes the entry: with
  distinct names, the lookup afterwards is the old one without that name. The entries
  stay distinct, the file itself keeps its contents and its blocks, and a name that the
  directory does not have gives \<open>-1\<close> and changes nothing.
\<close>

theorem fs_unlink:
  assumes dev: "block_device D dinv dview N" and s: "fs_ready dinv dview N E s"
    and i: "files dview E s i = Some (Directory, bs)" and ok: "dir_ok bs"
    and dist: "distinct (map fst (dir_list bs))"
  shows "\<exists>s' bs'. Inode_unlink (cache_ops D) (inode_ref E i) name s =
      Some (if map_of (dir_list bs) name = None then - 1 else 0, s') \<and>
    fs_ready dinv dview N E s' \<and> files dview E s' = (files dview E s)(i \<mapsto> (Directory, bs')) \<and>
    dir_ok bs' \<and> map_of (dir_list bs') = (map_of (dir_list bs))(name := None) \<and>
    distinct (map fst (dir_list bs')) \<and> free_blocks dview N E s' = free_blocks dview N E s"
proof -
  note B = block_device.cache_store [OF dev] and r = fs_readyD [OF s]
  note i' = i [unfolded files_def] and un = map_of_dir_unlink [OF dist, of name]
  show ?thesis
  proof (cases "map_of (dir_list bs) name = None")
    case True
    obtain s' where "Inode_unlink (cache_ops D) (inode_ref E i) name s = Some (- 1, s')"
        "cache_inv dinv dview N s'" "cache_held s' = {}" "cache_view dview s' = cache_view dview s"
      using block_store.Inode_unlink_missing_returns [OF B r i' ok True] unfolding block_store.returns_def [OF B] by blast
    then show ?thesis
      using True ok dist r(3) i' by (intro exI [of _ s'] exI [of _ bs]) (simp add: fs_state_defs fun_upd_idem)
  next
    case False
    obtain s' bs' where "Inode_unlink (cache_ops D) (inode_ref E i) name s = Some (0, s')"
        "cache_inv dinv dview N s'" "cache_held s' = {}" "fs_inv N E (cache_view dview s')"
        "dir_ok bs'" "dir_list bs' = dir_unlink name (dir_list bs)"
        "fs_files E (cache_view dview s') = (fs_files E (cache_view dview s))(i \<mapsto> (Directory, bs'))"
        "fs_free N E (cache_view dview s') = fs_free N E (cache_view dview s)"
      using block_store.Inode_unlink_returns [OF B r i' ok False] unfolding block_store.returns_def [OF B] by blast
    then show ?thesis
      using False un by (intro exI [of _ s'] exI [of _ bs']) (simp add: fs_state_defs)
  qed
qed

theorem fs_unlink_witness:
  "\<exists>s s' bs'. img_ready s \<and> Inode_unlink (cache_ops BlockFile) (inode_ref img 0) [97] s = Some (0, s') \<and>
     files file_block img s' 0 = Some (Directory, bs') \<and> map_of (dir_list bs') = Map.empty"
proof -
  obtain s bs j where s: "img_ready s" "files file_block img s 0 = Some (Directory, bs)" "dir_ok bs"
    and j: "dir_list bs = [([97], j)]" using used_image by blast
  have dist: "distinct (map fst (dir_list bs))" using j by simp
  show ?thesis
    using fs_unlink [OF image.block_device_axioms s dist, of "[97]"] s(1) j by (auto simp: fun_eq_iff)
qed

section \<open>A session\<close>

text \<open>
  C6 (roundtrip). Creating a file, writing it, looking it up by its name and reading it gives
  back what was written.
\<close>

theorem fs_session:
  assumes dev: "block_device D dinv dview N" and s: "fs_ready dinv dview N E s"
    and i: "files dview E s i = Some (Directory, bs)" and ok: "dir_ok bs"
    and name: "valid_name name" "map_of (dir_list bs) name = None"
    and room: "0 < free_inodes dview E s" "length bs + 32 \<le> MAX_FILE_SIZE"
    and buf: "buf \<noteq> []" "length buf \<le> MAX_FILE_SIZE" "length buf' = length buf"
    and free: "blocks_for (length bs + 32) + blocks_for (length buf) \<le> blocks_for (length bs) + free_blocks dview N E s"
  shows "\<exists>f s1 s2 s3 s4. Inode_create (cache_ops D) E (inode_ref E i) name s = Some (Some f, s1) \<and>
    Inode_write_at (cache_ops D) E f 0 buf s1 = Some (length buf, s2) \<and>
    Inode_find (cache_ops D) E (inode_ref E i) name s2 = Some (Some f, s3) \<and>
    Inode_read_at (cache_ops D) f 0 buf' s3 = Some ((length buf, buf), s4)"
proof -
  note B = block_device.cache_store [OF dev] and r = fs_readyD [OF s]
  have nm: "length name \<le> 27" "0 \<notin> set name" "utf8_valid name" using name(1) by (simp_all add: valid_name_def)
  have fr: "blocks_for (length bs + 32) \<le> blocks_for (length bs) + fs_free N E (cache_view dview s)"
    using free by (simp add: free_blocks_def)
  obtain s1 j bs' where s1: "Inode_create (cache_ops D) E (inode_ref E i) name s = Some (Some (inode_ref E j), s1)"
      "cache_inv dinv dview N s1" "cache_held s1 = {}" "fs_inv N E (cache_view dview s1)"
    and q: "fs_files E (cache_view dview s) j = None" "dir_ok bs'" "dir_list bs' = dir_list bs @ [(name, j)]"
      "fs_files E (cache_view dview s1) = (fs_files E (cache_view dview s))(j \<mapsto> (File, []), i \<mapsto> (Directory, bs'))"
      "fs_free N E (cache_view dview s1) + blocks_for (length bs + 32) = fs_free N E (cache_view dview s) + blocks_for (length bs)"
    using block_store.Inode_create_returns [OF B r i [unfolded files_def] ok nm name(2) free_inodes_pos [OF room(1)] room(2) fr]
    unfolding block_store.settles_def [OF B] by blast
  have ij: "i \<noteq> j" using q(1) i by (auto simp: files_def)
  have j1: "fs_files E (cache_view dview s1) j = Some (File, [])" using q(4) ij by simp
  have fits: "0 + length buf \<le> MAX_FILE_SIZE" "blocks_for (0 + length buf) \<le> blocks_for (length ([] :: bytes)) + fs_free N E (cache_view dview s1)"
    using buf(2) free q(5) by (simp_all add: free_blocks_def)
  obtain s2 base where s2: "Inode_write_at (cache_ops D) E (inode_ref E j) 0 buf s1 = Some (length buf, s2)"
      "cache_inv dinv dview N s2" "cache_held s2 = {}" "fs_inv N E (cache_view dview s2)"
      "fs_files E (cache_view dview s2) = (fs_files E (cache_view dview s1))(j \<mapsto> (File, buf_put 0 buf base))"
      "length base = max (length ([] :: bytes)) (0 + length buf)"
    using block_store.Inode_write_at_returns [OF B s1(2-4) j1 fits(1) buf(1) fits(2)]
    unfolding block_store.settles_def [OF B] by blast
  have i2: "fs_files E (cache_view dview s2) i = Some (Directory, bs')" using s2(5) q(4) ij by simp
  have find: "map_of (dir_list bs') name = Some j" using q(3) name(2) by (simp add: map_add_Some_iff)
  obtain s3 where s3: "Inode_find (cache_ops D) E (inode_ref E i) name s2 = Some (Some (inode_ref E j), s3)"
      "cache_inv dinv dview N s3" "cache_held s3 = {}" "cache_view dview s3 = cache_view dview s2"
    using block_store.Inode_find_returns [OF B s2(2-4) i2 q(2), of name] find unfolding block_store.returns_def [OF B] by auto
  have j3: "fs_files E (cache_view dview s3) j = Some (File, buf)" using s3(4) s2(5,6) by simp
  have "fs_inv N E (cache_view dview s3)" using s3(4) s2(4) by simp
  from block_store.Inode_read_at_returns [OF B s3(2,3) this j3, of 0 buf'] obtain s4 where
    "Inode_read_at (cache_ops D) (inode_ref E j) 0 buf' s3 = Some ((length buf, buf), s4)"
    unfolding block_store.returns_def [OF B] by (auto simp: buf(3))
  with s1(1) s2(1) s3(1) show ?thesis by blast
qed

theorem fs_session_witness:
  "\<exists>s f s1 s2 s3 s4. img_ready s \<and>
    Inode_create (cache_ops BlockFile) img (inode_ref img 0) [97] s = Some (Some f, s1) \<and>
    Inode_write_at (cache_ops BlockFile) img f 0 [7, 8] s1 = Some (2, s2) \<and>
    Inode_find (cache_ops BlockFile) img (inode_ref img 0) [97] s2 = Some (Some f, s3) \<and>
    Inode_read_at (cache_ops BlockFile) f 0 [0, 0] s3 = Some ((2, [7, 8]), s4)"
proof -
  obtain s where s: "img_ready s" "files file_block img s = [0 \<mapsto> (Directory, [])]"
    and free: "free_blocks file_block 2000 img s = 973" "free_inodes file_block img s = 4095"
    using new_image by blast
  have root: "files file_block img s 0 = Some (Directory, [])" using s(2) by simp
  have two: "length [7, 8 :: u8] = 2" by simp
  show ?thesis
    using fs_session [OF image.block_device_axioms s(1) root dir_Nil(1) valid_name_a, of "[7, 8]" "[0, 0]", unfolded two] s(1) free
    by (auto simp: MAX_FILE_SIZE_def blocks_for_small)
qed

end
