(* ===== verification/FileSpec.thy ===== *)
theory FileSpec
  imports FileOps FsDirSpec KernelBase
begin

text \<open>
  What the file system calls guarantee: reading a program, and \<^verbatim>\<open>read\<close> and \<^verbatim>\<open>write\<close> on an open
  file, from the memory of the user through the open file to the disk and back.
\<close>

section \<open>Reading a whole file\<close>

text \<open>
  C23 (termination). \<^verbatim>\<open>read_all\<close>, which loads the programs, ends on every file, returns the bytes
  from the offset of the open file to the end of the file, moves the offset to the end
  and changes no file.
\<close>

theorem read_all_file:
  assumes dev: "block_device D dinv dview N" and s: "fs_ready dinv dview N E s"
    and i: "files dview E s i = Some (t, bs)" and f: "os_inode f = inode_ref E i"
  shows "\<exists>s'. read_all (cache_ops D) f s
      = Some ((drop (os_offset f) bs, f\<lparr>os_offset := max (os_offset f) (length bs)\<rparr>), s') \<and>
    fs_ready dinv dview N E s' \<and> files dview E s' = files dview E s"
proof -
  note B = block_device.cache_store [OF dev] and r = fs_readyD [OF s]
  obtain s' where s': "read_all_loop (cache_ops D) (inode_ref E i) (os_offset f) (replicate 512 0) [] s =
        Some ((drop (os_offset f) bs, max (os_offset f) (length bs)), s')"
      "cache_inv dinv dview N s'" "cache_held s' = {}" "cache_view dview s' = cache_view dview s"
    using block_store.read_all_loop_returns [OF B r i [unfolded files_def], of "replicate 512 0" "os_offset f" "[]"]
    unfolding block_store.returns_def [OF B] by auto
  then show ?thesis using r(3) f by (auto simp: read_all_def fs_state_defs)
qed

theorem read_all_file_witness:
  "\<exists>s f s'. os_offset f = 1 \<and> read_all (cache_ops BlockFile) f s = Some (([2, 3], f\<lparr>os_offset := 3\<rparr>), s')"
proof -
  obtain s j where s: "img_ready s" "files file_block img s j = Some (File, [1, 2, 3])" using used_image by blast
  let ?f = "\<lparr>os_readable = True, os_writable = True, os_offset = 1, os_inode = inode_ref img j\<rparr>"
  have three: "Suc (Suc (Suc 0)) = 3" by simp
  show ?thesis
    by (rule exI [of _ s], rule exI [of _ ?f], use read_all_file [OF image.block_device_axioms s, of ?f]
        in \<open>auto simp: three\<close>)
qed

section \<open>Writing and reading an open file\<close>

text \<open>
  C21 (functional). \<^verbatim>\<open>write\<close> on a file opened for writing stores the bytes of the user's buffer,
  which may cross pages, at the offset of the open file, returns their number and
  advances the offset. No other file, no memory and no other part of the kernel changes.
\<close>

theorem sys_write_file:
  assumes dev: "block_device D dinv dview N" and s: "fs_ready dinv dview N E (fs k)"
    and env: "blk e = cache_ops D" "efs_of e = E"
    and cur: "current_tcb k = Some (t, tcb)" "unat fd < length (fd_table tcb)" "fd_table tcb ! unat fd = Some (OSFile i)"
    and f: "i < length (open_files k)" "os_writable (open_files k ! i)" "os_inode (open_files k ! i) = inode_ref E j"
      "os_offset (open_files k ! i) = off"
    and j: "files dview E (fs k) j = Some (ty, bs)" "off \<le> length bs"
    and user: "kmem_inv lo (km k)" "ms_inv lo X (km k) (memory_set tcb)" "unat ptr + unat len < 2 ^ 38"
      "user_mapped (phys (km k)) (memory_set tcb) (unat ptr) (unat len)"
    and fits: "off + unat len \<le> MAX_FILE_SIZE"
      "blocks_for (off + unat len) \<le> blocks_for (length bs) + free_blocks dview N E (fs k)"
  shows "\<exists>s' d. sys_write e fd ptr len k = Some (Ret (int (unat len)),
        k\<lparr>open_files := (open_files k)[i := (open_files k ! i)\<lparr>os_offset := off + unat len\<rparr>], fs := s'\<rparr>) \<and>
    fs_ready dinv dview N E s' \<and> d = user_bytes (phys (km k)) (memory_set tcb) (unat ptr) (unat len) \<and>
    files dview E s' = (files dview E (fs k))(j \<mapsto> (ty, take off bs @ d @ drop (off + length d) bs))"
proof -
  note B = block_device.cache_store [OF dev] and r = fs_readyD [OF s]
  let ?f = "open_files k ! i" and ?m = "phys (km k)"
  obtain w where w: "translated_byte_buffer ?m (MemorySet_token (memory_set tcb)) ptr len = Some w"
      "buf_addrs w = user_addrs ?m (memory_set tcb) (unat ptr) (unat len)" "slices_ok w"
    using user_buffer_returns [OF user] by blast
  obtain s' where s': "OSInode_write_loop (cache_ops D) E (inode_ref E j) w off 0 ?m (fs k) =
        Some ((unat len, off + unat len), s')"
      "cache_inv dinv dview N s'" "cache_held s' = {}" "fs_inv N E (cache_view dview s')"
      "fs_files E (cache_view dview s') = (fs_files E (cache_view dview (fs k)))(j \<mapsto>
        (ty, take off bs @ map ?m (buf_addrs w) @ drop (off + unat len) bs))"
    using block_store.OSInode_write_loop_returns [OF B r j(1) [unfolded files_def] w(3) j(2), of 0 ?m]
      fits [unfolded free_blocks_def]
    unfolding block_store.returns_def [OF B] w(2) length_user_addrs by auto
  have "sys_write e fd ptr len k = Some (Ret (int (unat len)),
      k\<lparr>open_files := (open_files k)[i := ?f\<lparr>os_offset := off + unat len\<rparr>], fs := s'\<rparr>)"
    using cur(2,3) f w(1) s'(1)
    by (simp add: sys_write_def cur(1) current_user_token_eq [OF cur(1)] file_writable_def nth_opt_def dyn_write_def
        OSInode_write_def UserBuffer_new_def env)
  moreover have "fs_ready dinv dview N E s'" using s'(2-4) by (simp add: fs_ready_def)
  moreover have "files dview E s' = (files dview E (fs k))(j \<mapsto> (ty, take off bs @
      user_bytes ?m (memory_set tcb) (unat ptr) (unat len) @ drop (off + unat len) bs))"
    using s'(5) w(2) by (simp add: files_def user_bytes_def)
  ultimately show ?thesis by (intro exI [of _ s']) simp
qed

theorem sys_write_file_witness:
  "\<exists>k j k'. sys_write (example_env (cache_ops BlockFile) img) 3 0x1000 2 k = Some (Ret 2, k') \<and>
     files file_block img (fs k) j = Some (File, [1, 2, 3]) \<and> files file_block img (fs k') j = Some (File, [1, 97, 98])"
proof -
  obtain s j where s: "img_ready s" "files file_block img s j = Some (File, [1, 2, 3])" using used_image by blast
  obtain m ms e f where m: "kmem_inv 16 m" "ms_inv 16 {} m ms"
    and e: "ms_entries (phys m) ms (VirtPageNum 1) = Some e" "ms_entries (phys m) ms (VirtPageNum 2) = Some f"
      "get_bytes_array (phys m) (pte_ppn e) = buf_put 0 [97, 98] (replicate 4096 0)"
    using example_user by blast
  let ?f = "\<lparr>os_readable = True, os_writable = True, os_offset = 1, os_inode = inode_ref img j\<rparr>"
  let ?k = "example_kernel m (pte_ppn f) ms ?f s"
  have "user_bytes (phys m) ms 4096 3 = [97, 98, 0]"
    using example_str [OF e] unfolding user_str_def by (simp add: numeral_3_eq_3)
  then have d: "user_bytes (phys m) ms 4096 2 = [97, 98]"
    by (simp add: user_bytes_def user_addrs_def numeral_3_eq_3 numeral_2_eq_2)
  have mapped: "user_mapped (phys m) ms 4096 2" by (rule example_mapped [OF e(1,2)]) simp_all
  have c: "Suc (Suc (Suc 0)) = 3" by simp
  from sys_write_file [OF image.block_device_axioms, where k = ?k and e = "example_env (cache_ops BlockFile) img"
      and fd = 3 and ptr = "0x1000" and len = 2 and off = 1 and i = 0 and j = j and bs = "[1, 2, 3]" and lo = 16 and X = "{}"]
    s m mapped d
  show ?thesis by (fastforce simp: MAX_FILE_SIZE_def blocks_for_small c)
qed

text \<open>
  C22 (functional). \<^verbatim>\<open>read\<close> on a file opened for reading fills the user's buffer, which may cross
  pages, with the bytes of the file from the offset on, up to the end of the file,
  returns their number and advances the offset. No file and no other memory changes.
\<close>

theorem sys_read_file:
  assumes dev: "block_device D dinv dview N" and s: "fs_ready dinv dview N E (fs k)" and env: "blk e = cache_ops D"
    and cur: "current_tcb k = Some (t, tcb)" "unat fd < length (fd_table tcb)" "fd_table tcb ! unat fd = Some (OSFile i)"
    and f: "i < length (open_files k)" "os_readable (open_files k ! i)" "os_inode (open_files k ! i) = inode_ref E j"
      "os_offset (open_files k ! i) = off"
    and j: "files dview E (fs k) j = Some (ty, bs)"
    and user: "kmem_inv lo (km k)" "ms_inv lo X (km k) (memory_set tcb)" "unat ptr + unat len < 2 ^ 38"
      "user_mapped (phys (km k)) (memory_set tcb) (unat ptr) (unat len)" "all_framed (memory_set tcb)"
      "\<forall>x. unat ptr \<le> x \<and> x < unat ptr + unat len \<longrightarrow> VirtPageNum (of_nat (x div 4096)) \<notin> X"
  shows "\<exists>s' n m as. n = min (unat len) (length bs - off) \<and>
    as = user_addrs (phys (km k)) (memory_set tcb) (unat ptr) (unat len) \<and>
    sys_read e fd ptr len k = Some (Ret (int n), k\<lparr>km := (km k)\<lparr>phys := m\<rparr>,
        open_files := (open_files k)[i := (open_files k ! i)\<lparr>os_offset := off + n\<rparr>], fs := s'\<rparr>) \<and>
    map m (take n as) = take n (drop off bs) \<and> (\<forall>a. a \<notin> set (take n as) \<longrightarrow> m a = phys (km k) a) \<and>
    fs_ready dinv dview N E s' \<and> files dview E s' = files dview E (fs k)"
proof -
  note B = block_device.cache_store [OF dev] and r = fs_readyD [OF s]
  let ?f = "open_files k ! i" and ?m = "phys (km k)"
  let ?as = "user_addrs ?m (memory_set tcb) (unat ptr) (unat len)" and ?n = "min (unat len) (length bs - off)"
  let ?m' = "scatter ?as (drop off bs) ?m"
  obtain w where w: "translated_byte_buffer ?m (MemorySet_token (memory_set tcb)) ptr len = Some w"
      "buf_addrs w = ?as" "slices_ok w"
    using user_buffer_returns [OF user(1-4)] by blast
  obtain s' where s': "OSInode_read_loop (cache_ops D) (inode_ref E j) w off 0 ?m (fs k) = Some ((?n, off + ?n, ?m'), s')"
      "cache_inv dinv dview N s'" "cache_held s' = {}" "cache_view dview s' = cache_view dview (fs k)"
    using block_store.OSInode_read_loop_returns [OF B r j(1) [unfolded files_def] w(3), of off 0 ?m]
    unfolding block_store.returns_def [OF B] w(2) length_user_addrs by auto
  have "sys_read e fd ptr len k = Some (Ret (int ?n), k\<lparr>km := (km k)\<lparr>phys := ?m'\<rparr>,
      open_files := (open_files k)[i := ?f\<lparr>os_offset := off + ?n\<rparr>], fs := s'\<rparr>)"
    using cur(2,3) f w(1) s'(1)
    by (simp add: sys_read_def cur(1) current_user_token_eq [OF cur(1)] file_readable_def nth_opt_def dyn_read_def
        OSInode_read_def UserBuffer_new_def env set_phys_def)
  moreover have "map ?m' (take ?n ?as) = take ?n (drop off bs)" 
    using user_addrs_distinct [OF user(1,2,5,3,4,6)] by (intro nth_equalityI) (auto simp: scatter_nth)
  moreover have "?m' a = ?m a" if a: "a \<notin> set (take ?n ?as)" for a
  proof -
    have "take (length (drop off bs)) ?as = take ?n ?as" by (simp add: min_def)
    then have "a \<notin> set (take (length (drop off bs)) ?as)" using a by simp
    then show ?thesis by (rule scatter_other)
  qed
  moreover have "fs_ready dinv dview N E s'" "files dview E s' = files dview E (fs k)"
    using s'(2-4) r(3) by (simp_all add: fs_state_defs)
  ultimately show ?thesis
    by (intro exI [of _ s'] exI [of _ ?n] exI [of _ ?m'] exI [of _ ?as]) blast
qed

theorem sys_read_file_witness:
  "\<exists>k k' as. sys_read (example_env (cache_ops BlockFile) img) 3 0x1FFF 8 k = Some (Ret 2, k') \<and>
     length as = 8 \<and> map (phys (km k')) (take 2 as) = [2, 3]"
proof -
  obtain s j where s: "img_ready s" "files file_block img s j = Some (File, [1, 2, 3])" using used_image by blast
  obtain m ms e f where m: "kmem_inv 16 m" "ms_inv 16 {} m ms" "all_framed ms"
    and e: "ms_entries (phys m) ms (VirtPageNum 1) = Some e" "ms_entries (phys m) ms (VirtPageNum 2) = Some f"
    using example_user by blast
  let ?f = "\<lparr>os_readable = True, os_writable = True, os_offset = 1, os_inode = inode_ref img j\<rparr>"
  let ?k = "example_kernel m (pte_ppn f) ms ?f s"
  have mapped: "user_mapped (phys m) ms 8191 8" by (rule example_mapped [OF e]) simp_all
  have c: "Suc (Suc (Suc 0)) = 3" "Suc (Suc 0) = 2" by simp_all
  obtain s' as mm where r: "sys_read (example_env (cache_ops BlockFile) img) 3 0x1FFF 8 ?k = Some (Ret 2,
        ?k\<lparr>km := (km ?k)\<lparr>phys := mm\<rparr>, open_files := [?f\<lparr>os_offset := 3\<rparr>], fs := s'\<rparr>)"
      "map mm (take 2 as) = [2, 3]" "as = user_addrs (phys m) ms 8191 8"
    using sys_read_file [OF image.block_device_axioms, where k = ?k and e = "example_env (cache_ops BlockFile) img"
      and fd = 3 and ptr = "0x1FFF" and len = 8 and off = 1 and i = 0 and j = j and bs = "[1, 2, 3]" and lo = 16 and X = "{}"
      and t = 1 and E = img and N = 2000 and tcb = "example_tcb (pte_ppn f) ms" and ty = File]
      s m mapped c by auto
  have "length as = 8" using r(3) by simp
  then show ?thesis using r(1,2) by (intro exI [of _ ?k] exI [of _ "?k\<lparr>km := (km ?k)\<lparr>phys := mm\<rparr>,
      open_files := [?f\<lparr>os_offset := 3\<rparr>], fs := s'\<rparr>"] exI [of _ as]) simp
qed

end
