(* ===== verification/ElfSpec.thy ===== *)
theory ElfSpec
  imports ElfOps FileSpec TrapOps
begin

text \<open>
  What \<^verbatim>\<open>MemorySet::from_elf\<close> and \<^verbatim>\<open>exec\<close> do with a program: the new address space is the image of
  the file, a stack and a page for the trap context, and nothing else.
\<close>

section \<open>The image of a program\<close>

definition last_page :: "ProgramHeader list \<Rightarrow> nat" where
  "last_page segs = (if segs = [] then 0 else seg_end (last segs))"

text \<open>
  The segments, the user stack of two pages after an unmapped guard page, and the trap
  context below the trampoline, which the user cannot access.
\<close>

definition program_image :: "bytes \<Rightarrow> ProgramHeader list \<Rightarrow> VirtPageNum \<Rightarrow> (PTEFlags \<times> bytes) option" where
  "program_image data segs = image data segs
     ++ zeros (last_page segs + 1) (last_page segs + 3) (PERM_R OR PERM_W OR PERM_U OR PTE_V)
     ++ zeros 0x7FFFFFE 0x7FFFFFF (PERM_R OR PERM_W OR PTE_V)"

text \<open>
  A program that the kernel can load: its headers decode, its segments are aligned, lie in
  the file and in the lower half, and are sorted and disjoint by pages.
\<close>

definition loadable :: "ElfFile \<Rightarrow> bytes \<Rightarrow> ProgramHeader list \<Rightarrow> bool" where
  "loadable elf data segs \<longleftrightarrow> ElfFile.magic elf = [0x7f, 0x45, 0x4c, 0x46] \<and> length data < 2 ^ 64 \<and>
     (\<exists>hs. map (program_header elf) [0..<ph_count elf] = map Some hs \<and> (\<forall>ph \<in> set hs. ph_is_load ph \<noteq> None) \<and> segs = filter is_loaded hs) \<and>
     (\<forall>ph \<in> set segs. seg_ok data ph) \<and> sorted_wrt (\<lambda>a b. seg_end a \<le> seg_first b) segs"

lemma seg_end_last:
  assumes "sorted_wrt (\<lambda>a b. seg_end a \<le> seg_first b) segs" and "\<forall>ph \<in> set segs. seg_first ph < seg_end ph" and "ph \<in> set segs"
  shows "seg_end ph \<le> seg_end (last segs)"
  using assms
proof (induction segs)
  case (Cons a segs)
  show ?case
  proof (cases "segs = []")
    case False
    then have l: "last segs \<in> set segs" by simp
    show ?thesis
    proof (cases "ph = a")
      case True
      then have "seg_end ph \<le> seg_first (last segs)" using Cons.prems(1) l by simp
      moreover have "seg_first (last segs) < seg_end (last segs)" using Cons.prems(2) l by simp
      ultimately show ?thesis using False by simp
    qed (use Cons False in simp)
  qed (use Cons.prems in simp)
qed simp

lemma image_dom: "dom (image data segs) = (\<Union>ph \<in> set segs. dom (seg_image data ph))"
  by (induction segs) auto

lemma image_low:
  assumes "loadable elf data segs"
  shows "v \<in> dom (image data segs) \<Longrightarrow> unat (vpn v) < last_page segs" and "last_page segs + 3 < 2 ^ 26"
proof -
  have ok: "\<forall>ph \<in> set segs. seg_ok data ph" "sorted_wrt (\<lambda>a b. seg_end a \<le> seg_first b) segs"
    using assms by (simp_all add: loadable_def)
  have sz: "\<forall>ph \<in> set segs. seg_first ph < seg_end ph" using ok(1) seg_size(1) by blast
  have "seg_end (last segs) + 3 < 2 ^ 26" if "segs \<noteq> []" using ok(1) last_in_set [OF that] by (blast intro: seg_size(2))
  then show "last_page segs + 3 < 2 ^ 26" by (simp add: last_page_def)
  show "unat (vpn v) < last_page segs" if v: "v \<in> dom (image data segs)"
  proof -
    from v obtain ph where ph: "ph \<in> set segs" "v \<in> dom (seg_image data ph)" unfolding image_dom by blast
    then have "unat (vpn v) < seg_end ph" by (auto simp: seg_image_def split: if_splits)
    then show ?thesis using seg_end_last [OF ok(2) sz ph(1)] ph(1) by (auto simp: last_page_def)
  qed
qed

lemma stack_bottom:
  assumes "n + 3 < 2 ^ 26"
  defines "b \<equiv> usize_of_VirtAddr (VirtAddr_of_VirtPageNum (VirtPageNum (of_nat n))) + PAGE_SIZE"
  shows "unat b = 4096 * (n + 1)" and "b + USER_STACK_SIZE = of_nat (4096 * (n + 3))"
proof -
  have v: "va (VirtAddr_of_VirtPageNum (VirtPageNum (of_nat n))) = of_nat (4096 * n)"
    by (simp add: VirtAddr_of_VirtPageNum_def PAGE_SIZE_BITS_def push_bit_eq_mult mult.commute)
  have u: "unat (of_nat (4096 * n) :: usize) = 4096 * n" using assms(1) by (intro unat_of_nat_exact) simp
  have "unat (push_bit 38 1 :: usize) = 2 ^ 38" by (simp add: push_bit_eq_mult)
  then have "\<not> push_bit 38 1 \<le> (of_nat (4096 * n) :: usize)" unfolding word_le_nat_alt u using assms(1) by simp
  then have "usize_of_VirtAddr (VirtAddr_of_VirtPageNum (VirtPageNum (of_nat n))) = of_nat (4096 * n)"
    by (simp add: usize_of_VirtAddr_def v VA_WIDTH_SV39_def)
  then have b: "b = of_nat (4096 * (n + 1))" by (simp add: b_def PAGE_SIZE_def algebra_simps)
  then show "unat b = 4096 * (n + 1)" using assms(1) unat_of_nat_exact [of "4096 * (n + 1)", where 'a = 64] by simp
  show "b + USER_STACK_SIZE = of_nat (4096 * (n + 3))" by (simp add: b USER_STACK_SIZE_def algebra_simps)
qed

lemma trap_area:
  "va_ok (VirtAddr_of_usize TRAP_CONTEXT_BASE) (VirtAddr_of_usize TRAMPOLINE)"
  "unat (vpn (VirtAddr_floor (VirtAddr_of_usize TRAP_CONTEXT_BASE))) = 0x7FFFFFE"
  "unat (vpn (VirtAddr_ceil (VirtAddr_of_usize TRAMPOLINE))) = 0x7FFFFFF"
  by (simp_all add: va_ok_def TRAP_CONTEXT_BASE_def TRAMPOLINE_def PAGE_SIZE_def VirtAddr_of_usize_def VA_WIDTH_SV39_def
      less_eq_VirtAddr_def VirtAddr_floor_def VirtAddr_ceil_def)

lemma zeros_empty [simp]: "zeros i i f = Map.empty"
  by (simp add: zeros_def fun_eq_iff)

lemma zeros_dom: "v \<in> dom (zeros i j f) \<Longrightarrow> i \<le> unat (vpn v) \<and> unat (vpn v) < j"
  by (auto simp: zeros_def split: if_splits)

text \<open>The end of \<^verbatim>\<open>from_elf\<close>: the stack, the heap without pages, and the trap context.\<close>

lemma push_rest:
  assumes b: "built lo {trampoline_page} L k ms" and n: "n + 3 < 2 ^ 26"
    and low: "\<And>v. v \<in> dom (ms_entries (phys k) ms) \<Longrightarrow> v = trampoline_page \<or> unat (vpn v) < n" and room: "9 \<le> frames_room k"
  defines "base \<equiv> usize_of_VirtAddr (VirtAddr_of_VirtPageNum (VirtPageNum (of_nat n))) + PAGE_SIZE"
  obtains ms1 k1 ms2 k2 ms3 k3 where "push_framed base (base + USER_STACK_SIZE) (PERM_R OR PERM_W OR PERM_U) ms k = Some (ms1, k1)"
    and "push_framed (base + USER_STACK_SIZE) (base + USER_STACK_SIZE) (PERM_R OR PERM_W OR PERM_U) ms1 k1 = Some (ms2, k2)"
    and "push_framed TRAP_CONTEXT_BASE TRAMPOLINE (PERM_R OR PERM_W) ms2 k2 = Some (ms3, k3)"
    and "extends lo {trampoline_page} L k ms (zeros (n + 1) (n + 3) (PERM_R OR PERM_W OR PERM_U OR PTE_V)
      ++ zeros 0x7FFFFFE 0x7FFFFFF (PERM_R OR PERM_W OR PTE_V)) k3 ms3"
    and "frames_room k \<le> frames_room k3 + 9"
proof -
  let ?X = "{trampoline_page}" and ?f = "PERM_R OR PERM_W OR PERM_U" and ?top = "base + USER_STACK_SIZE"
  let ?S = "zeros (n + 1) (n + 3) (?f OR PTE_V)" and ?T = "zeros 0x7FFFFFE 0x7FFFFFF ((PERM_R OR PERM_W) OR PTE_V)"
  note sb = stack_bottom [OF n, folded base_def]
  have t: "unat ?top = 4096 * (n + 3)" using sb(2) n unat_of_nat_exact [of "4096 * (n + 3)", where 'a = 64] by simp
  have us: "unat USER_STACK_SIZE = 8192" by (simp add: USER_STACK_SIZE_def)
  have l1: "unat base + unat USER_STACK_SIZE < 2 ^ 38" "unat ?top + unat (0 :: usize) < 2 ^ 38" using n sb(1) t us by simp_all
  note p1 = low_pages [OF l1(1)] and p2 = low_pages [OF l1(2)]
  have tp: "unat (vpn trampoline_page) = 0x7FFFFFF" by simp
  have i1: "unat (vpn (VirtAddr_floor (VirtAddr_of_usize base))) = n + 1" "unat (vpn (VirtAddr_ceil (VirtAddr_of_usize ?top))) = n + 3"
    using p1(2,3) sb(1) us by simp_all
  have fr1: "dom ?S \<inter> dom (ms_entries (phys k) ms) = {}" using low zeros_dom [of _ "n + 1" "n + 3"] n by fastforce
  have r1: "3 * ((n + 3) - (n + 1)) \<le> frames_room k" using room by simp
  from b p1(1) i1 fr1 r1 obtain ms1 k1 where q1: "push_framed base ?top ?f ms k = Some (ms1, k1)" "extends lo ?X L k ms ?S k1 ms1"
      "frames_room k \<le> frames_room k1 + 3 * ((n + 3) - (n + 1))" by (rule push_framed_returns)
  have i2: "unat (vpn (VirtAddr_floor (VirtAddr_of_usize ?top))) = n + 3" "va_ok (VirtAddr_of_usize ?top) (VirtAddr_of_usize ?top)"
    using p2(1,2) t by simp_all
  have fr2: "dom (zeros (n + 3) (n + 3) (?f OR PTE_V)) \<inter> dom (ms_entries (phys k1) ms1) = {}" by simp
  have r2: "3 * ((n + 3) - (n + 3)) \<le> frames_room k1" by simp
  from extends_built [OF q1(2)] i2(2,1) i1(2) fr2 r2 obtain ms2 k2 where q2: "push_framed ?top ?top ?f ms1 k1 = Some (ms2, k2)"
      "extends lo ?X L k1 ms1 (zeros (n + 3) (n + 3) (?f OR PTE_V)) k2 ms2"
      "frames_room k1 \<le> frames_room k2 + 3 * ((n + 3) - (n + 3))" by (rule push_framed_returns)
  have e2: "extends lo ?X L k ms ?S k2 ms2" using extends_trans [OF q1(2) q2(2)] by simp
  have "unat (vpn v) < 0x7FFFFFE \<or> v = trampoline_page" if "v \<in> dom (ms_entries (phys k2) ms2)" for v
    using extends_dom [OF e2] that low [of v] zeros_dom [of v "n + 1" "n + 3"] n by fastforce
  then have fr3: "dom ?T \<inter> dom (ms_entries (phys k2) ms2) = {}" using zeros_dom [of _ "0x7FFFFFE" "0x7FFFFFF"] tp by fastforce
  have r3: "3 * (0x7FFFFFF - 0x7FFFFFE) \<le> frames_room k2" using room q1(3) q2(3) by simp
  from extends_built [OF e2] trap_area fr3 r3 obtain ms3 k3 where
    q3: "push_framed TRAP_CONTEXT_BASE TRAMPOLINE (PERM_R OR PERM_W) ms2 k2 = Some (ms3, k3)" "extends lo ?X L k2 ms2 ?T k3 ms3"
      "frames_room k2 \<le> frames_room k3 + 3 * (0x7FFFFFF - 0x7FFFFFE)" by (rule push_framed_returns)
  have "extends lo ?X L k ms (?S ++ ?T) k3 ms3" using extends_trans [OF e2 q3(2)] .
  then show ?thesis using that q1(1,3) q2(1,3) q3(1,3) by (simp add: or.assoc)
qed

text \<open>The room that a program needs: three frames for each page, the root table and the trampoline.\<close>

abbreviation program_room :: "ProgramHeader list \<Rightarrow> nat" where
  "program_room segs \<equiv> 3 + 3 * segs_size segs + 9"

lemma from_elf_returns:
  assumes k: "kmem_inv lo k" and al: "tramp_aligned sy" and elf: "ElfFile_new data = Some elf" "loadable elf data segs"
    and room: "program_room segs \<le> frames_room k"
  obtains ms k' where "from_elf ElfFile_new sy data k = Some ((ms, of_nat (4096 * (last_page segs + 3)), entry_point elf), k')"
    and "built lo {trampoline_page} (frames_live lo k) k' ms" and "\<forall>p \<in> frames_live lo k. same_page (phys k) (phys k') p"
    and "\<forall>v. v \<noteq> trampoline_page \<longrightarrow> page_at (phys k') ms v = program_image data segs v"
    and "ms_entries (phys k') ms trampoline_page = Some (PageTableEntry_new (PhysAddr_floor (PhysAddr_of_usize (strampoline sy))) (PTE_R OR PTE_X OR PTE_V))"
    and "frames_room k \<le> frames_room k' + program_room segs"
proof -
  let ?X = "{trampoline_page}" and ?L = "frames_live lo k" and ?n = "last_page segs"
  let ?b = "usize_of_VirtAddr (VirtAddr_of_VirtPageNum (VirtPageNum (of_nat ?n))) + PAGE_SIZE"
  have r3: "3 \<le> frames_room k" using room by simp
  from k r3 al obtain ms0 k0 ms1 k1 where f: "MemorySet_new_bare k = Some (ms0, k0)" "map_trampoline sy ms0 k0 = Some (ms1, k1)"
      "kmem_inv lo k1" "ms_inv lo {trampoline_page} k1 ms1" "areas ms1 = []"
      "ppns (ms_frames ms1) \<inter> frames_live lo k = {}" "frames_live lo k \<subseteq> frames_live lo k1"
      "\<forall>p \<in> frames_live lo k. same_page (phys k) (phys k1) p" "frames_room k \<le> frames_room k1 + 3"
      "ms_entries (phys k1) ms1 trampoline_page = Some (PageTableEntry_new (PhysAddr_floor (PhysAddr_of_usize (strampoline sy))) (PTE_R OR PTE_X OR PTE_V))"
    by (rule fresh_user_space)
  have b1: "built lo ?X ?L k1 ms1" using f(3-7) by (auto simp: built_def all_framed_def)
  have d1: "dom (ms_entries (phys k1) ms1) = ?X" using f(4,5) by (simp add: ms_inv_def ms_pages_def)
  obtain hs where hs: "map (program_header elf) [0..<ph_count elf] = map Some hs" "\<forall>ph \<in> set hs. ph_is_load ph \<noteq> None"
      "segs = filter is_loaded hs" and ok: "\<forall>ph \<in> set segs. seg_ok data ph" "sorted_wrt (\<lambda>a b. seg_end a \<le> seg_first b) segs"
      "length data < 2 ^ 64" "ElfFile.magic elf = [0x7f, 0x45, 0x4c, 0x46]" using elf(2) unfolding loadable_def by blast
  note low = image_low [OF elf(2)]
  have tp: "unat (vpn trampoline_page) = 0x7FFFFFF" by simp
  have "dom (seg_image data ph) \<inter> ?X = {}" if "ph \<in> set segs" for ph
    using low(1) [of trampoline_page] low(2) that tp unfolding image_dom by fastforce
  then have fr: "\<forall>ph \<in> set (filter is_loaded hs). dom (seg_image data ph) \<inter> dom (ms_entries (phys k1) ms1) = {}"
    using d1 hs(3) by simp
  have r1: "3 * segs_size (filter is_loaded hs) \<le> frames_room k1" using room f(9) hs(3) by simp
  obtain ms2 k2 where q: "load_segments data elf [0..<ph_count elf] (VirtPageNum 0) ms1 k1 = Some (last_end segs (VirtPageNum 0), ms2, k2)"
      "extends lo ?X ?L k1 ms1 (image data segs) k2 ms2" "frames_room k1 \<le> frames_room k2 + 3 * segs_size segs"
    using load_segments_returns [OF b1 hs(1,2) _ _ fr r1 ok(3)] ok(1,2) hs(3) by blast
  have le: "last_end segs (VirtPageNum 0) = VirtPageNum (of_nat ?n)" by (simp add: last_end_def last_page_def)
  have "v = trampoline_page \<or> unat (vpn v) < ?n" if "v \<in> dom (ms_entries (phys k2) ms2)" for v
    using extends_dom [OF q(2)] that d1 low(1) by blast
  moreover have "9 \<le> frames_room k2" using room f(9) q(3) by simp
  ultimately obtain ms3 k3 ms4 k4 ms5 k5 where p: "push_framed ?b (?b + USER_STACK_SIZE) (PERM_R OR PERM_W OR PERM_U) ms2 k2 = Some (ms3, k3)"
      "push_framed (?b + USER_STACK_SIZE) (?b + USER_STACK_SIZE) (PERM_R OR PERM_W OR PERM_U) ms3 k3 = Some (ms4, k4)"
      "push_framed TRAP_CONTEXT_BASE TRAMPOLINE (PERM_R OR PERM_W) ms4 k4 = Some (ms5, k5)"
      "extends lo ?X ?L k2 ms2 (zeros (?n + 1) (?n + 3) (PERM_R OR PERM_W OR PERM_U OR PTE_V) ++ zeros 0x7FFFFFE 0x7FFFFFF (PERM_R OR PERM_W OR PTE_V)) k5 ms5"
      "frames_room k2 \<le> frames_room k5 + 9"
    using push_rest [OF extends_built [OF q(2)] low(2)] by blast
  have ex: "extends lo ?X ?L k1 ms1 (program_image data segs) k5 ms5"
    using extends_trans [OF q(2) p(4)] by (simp add: program_image_def)
  have run: "from_elf ElfFile_new sy data k = Some ((ms5, of_nat (4096 * (?n + 3)), entry_point elf), k5)"
    using f(1,2) elf(1) ok(4) q(1) p(1-3) le stack_bottom(2) [OF low(2)] by (simp add: from_elf_def Let_def)
  have "page_at (phys k1) ms1 v = None" if "v \<noteq> trampoline_page" for v
    using that d1 by (intro page_at_None) simp
  then have im: "\<forall>v. v \<noteq> trampoline_page \<longrightarrow> page_at (phys k5) ms5 v = program_image data segs v"
    using ex by (simp add: extends_def map_add_def split: option.splits)
  have s: "\<forall>p \<in> ?L. same_page (phys k) (phys k5) p" using ex f(8) unfolding extends_def by (blast intro: same_page_trans)
  have t: "ms_entries (phys k5) ms5 trampoline_page = ms_entries (phys k1) ms1 trampoline_page" using ex by (simp add: extends_def)
  have r: "frames_room k \<le> frames_room k5 + program_room segs" using f(9) q(3) p(5) by simp
  show ?thesis by (rule that [OF run extends_built [OF ex] s im t [unfolded f(10)] r])
qed

text \<open>
  C10 (functional). \<^verbatim>\<open>from_elf\<close> of a program that can be loaded, with enough memory, returns an address
  space in which every page has the bytes and the permissions of the image of the program,
  with the code of the trampoline, without access for the user, on top. It returns the top of the
  new stack and the entry point. The frames of the space are its own and no frame in use changes.
\<close>

theorem from_elf_image:
  assumes k: "kmem_inv lo k" and al: "tramp_aligned sy" and elf: "ElfFile_new data = Some elf" "loadable elf data segs"
    and room: "program_room segs \<le> frames_room k"
  shows "\<exists>ms k'. from_elf ElfFile_new sy data k = Some ((ms, of_nat (4096 * (last_page segs + 3)), entry_point elf), k') \<and>
     kmem_inv lo k' \<and> ms_inv lo {trampoline_page} k' ms \<and>
     (\<forall>v. v \<noteq> trampoline_page \<longrightarrow> page_at (phys k') ms v = program_image data segs v) \<and>
     ms_entries (phys k') ms trampoline_page
       = Some (PageTableEntry_new (PhysAddr_floor (PhysAddr_of_usize (strampoline sy))) (PTE_R OR PTE_X OR PTE_V)) \<and>
     ppns (ms_frames ms) \<inter> frames_live lo k = {} \<and> (\<forall>p \<in> frames_live lo k. same_page (phys k) (phys k') p)"
proof -
  from k al elf room obtain ms k' where f: "from_elf ElfFile_new sy data k = Some ((ms, of_nat (4096 * (last_page segs + 3)), entry_point elf), k')"
      "built lo {trampoline_page} (frames_live lo k) k' ms" "\<forall>p \<in> frames_live lo k. same_page (phys k) (phys k') p"
      "\<forall>v. v \<noteq> trampoline_page \<longrightarrow> page_at (phys k') ms v = program_image data segs v"
      "ms_entries (phys k') ms trampoline_page = Some (PageTableEntry_new (PhysAddr_floor (PhysAddr_of_usize (strampoline sy))) (PTE_R OR PTE_X OR PTE_V))"
      "frames_room k \<le> frames_room k' + program_room segs" by (rule from_elf_returns)
  have own: "ppns (ms_frames ms) \<inter> frames_live lo k = {}" using builtD(5) [OF f(2)] by blast
  note res = f(1) builtD(1,2) [OF f(2)] f(4,5) own f(3)
  show ?thesis by (rule exI [of _ ms], rule exI [of _ k']) (intro conjI res)
qed

text \<open>A program of one segment: two bytes of the file at the start of two readable, executable pages.\<close>

definition example_ph :: ProgramHeader where
  "example_ph = \<lparr>ph_is_load = Some True, virtual_addr = 0x10000, mem_size = 0x1008, ph_offset = 1, file_size = 2,
     is_read = True, is_write = False, is_execute = True\<rparr>"

definition example_elf :: ElfFile where
  "example_elf = \<lparr>ElfFile.magic = [0x7f, 0x45, 0x4c, 0x46], ph_count = 1, program_header = (\<lambda>_. Some example_ph), entry_point = 0x10000\<rparr>"

lemma example_loadable: "loadable example_elf [1, 2, 3] [example_ph]"
  unfolding loadable_def
proof (intro conjI)
  show "\<exists>hs. map (program_header example_elf) [0..<ph_count example_elf] = map Some hs \<and> (\<forall>ph \<in> set hs. ph_is_load ph \<noteq> None) \<and>
      [example_ph] = filter is_loaded hs"
    by (rule exI [of _ "[example_ph]"]) (simp add: example_elf_def example_ph_def)
qed (simp_all add: example_elf_def example_ph_def seg_ok_def)

lemma example_pages: "seg_first example_ph = 16" "seg_end example_ph = 18"
  by (simp_all add: seg_first_def seg_end_def example_ph_def)

lemma example_image:
  "program_image [1, 2, 3] [example_ph] (VirtPageNum 16) = Some (PERM_U OR PERM_R OR PERM_X OR PTE_V, [2, 3] @ replicate 4094 0)"
proof -
  have "seg_data [1, 2, 3] example_ph = [2, 3]" by (simp add: seg_data_def example_ph_def buf_get_def)
  then have "seg_image [1, 2, 3] example_ph (VirtPageNum 16) = Some (PERM_U OR PERM_R OR PERM_X OR PTE_V, [2, 3] @ replicate 4094 0)"
    unfolding seg_image_def example_pages by (simp add: chunk_def buf_get_def filled_def ph_perm_def example_ph_def or.assoc)
  then show ?thesis by (simp add: program_image_def map_add_def zeros_def last_page_def example_pages)
qed

theorem from_elf_image_witness:
  "\<exists>ms k'. from_elf (\<lambda>_. Some example_elf) (syms (example_env (cache_ops BlockFile) img)) [1, 2, 3] small_mem = Some ((ms, 0x15000, 0x10000), k') \<and>
     page_at (phys k') ms (VirtPageNum 16) = Some (PERM_U OR PERM_R OR PERM_X OR PTE_V, [2, 3] @ replicate 4094 0)"
proof -
  have r: "program_room [example_ph] \<le> frames_room small_mem" by (simp add: example_pages small_mem_ok(2))
  have "entry_point example_elf = 0x10000" "of_nat (4096 * (last_page [example_ph] + 3)) = (0x15000 :: usize)"
    by (simp_all add: example_elf_def last_page_def example_pages)
  moreover have "VirtPageNum 16 \<noteq> trampoline_page" by simp
  ultimately show ?thesis
    using from_elf_image [OF small_mem_ok(1) example_tramp [of "cache_ops BlockFile" img] _ example_loadable r, of "\<lambda>_. Some example_elf"] example_image
    by fastforce
qed

section \<open>exec\<close>

lemma init_cx_ok [simp]: "cx_ok (init_cx e entry sp ks k)"
  by (simp add: init_cx_def app_init_context_def set_sp_def cx_ok_def Let_def)

lemma program_image_trap: "program_image data segs trap_page = Some (PERM_R OR PERM_W OR PTE_V, replicate 4096 0)"
  by (simp add: program_image_def zeros_def)

lemma built_release:
  assumes b: "built lo X L k ms" and k': "kmem_inv lo k'" "phys k' = phys k" "frames_live lo k' = frames_live lo k - F" and F: "F \<subseteq> L"
  shows "built lo X (L - F) k' ms"
proof -
  note B = builtD [OF b]
  have "ppns (ms_frames ms) \<subseteq> frames_live lo k" using B(2) unfolding ms_inv_def by blast
  then have "ppns (ms_frames ms) \<subseteq> frames_live lo k'" using B(5) F unfolding k'(3) by blast
  then have "ms_inv lo X k' ms" by (intro ms_undisturbed(1) [OF B(1,2)]) (simp_all add: k'(2) same_page_def)
  then show ?thesis using B(3-5) k'(1) unfolding built_def k'(3) by blast
qed

text \<open>Writing a trap context to its page changes nothing else.\<close>

lemma write_cx:
  assumes b: "built lo {trampoline_page} L k ms" and t: "page_at (phys k) ms trap_page \<noteq> None" and cx: "cx_ok cx"
  obtains p where "trap_cx_page (phys k) ms = Some p" and "built lo {trampoline_page} L (k\<lparr>phys := write_trap_cx p cx (phys k)\<rparr>) ms"
    and "\<forall>q \<in> L. same_page (phys k) (write_trap_cx p cx (phys k)) q"
    and "\<forall>v. v \<noteq> trampoline_page \<longrightarrow> v \<noteq> trap_page \<longrightarrow> page_at (write_trap_cx p cx (phys k)) ms v = page_at (phys k) ms v"
    and "trap_cx_page (write_trap_cx p cx (phys k)) ms = Some p" and "read_trap_cx (write_trap_cx p cx (phys k)) p = cx"
proof -
  note B = builtD [OF b]
  obtain d where d: "ms_entries (phys k) ms trap_page = Some d" using t by (auto simp: page_at_def)
  have dom: "dom (ms_entries (phys k) ms) = {trampoline_page} \<union> ms_pages ms" using B(2) by (simp only: ms_inv_def)
  moreover have "trap_page \<noteq> trampoline_page" by simp
  ultimately have tp: "trap_page \<in> ms_pages ms" using domI [of "ms_entries (phys k) ms", OF d] by blast
  define w where "w = write_trap_cx (pte_ppn d) cx (phys k)"
  have "length (bytes_of 8 (TrapContext_words cx)) \<le> 4096" by (simp add: cx_words [OF cx])
  note wp = write_page [OF b tp d this, folded write_trap_cx_def, folded w_def]
  have ok: "ppn_ok (pte_ppn d)" using ms_page_entry [OF B(1-3) tp] d by auto
  have "page_at w ms v = page_at (phys k) ms v" if v: "v \<noteq> trampoline_page" "v \<noteq> trap_page" for v
  proof (cases "v \<in> ms_pages ms")
    case False
    then have "v \<notin> dom (ms_entries (phys k) ms)" using dom v(1) by blast
    then show ?thesis using page_at_None wp(2) by metis
  qed (use wp(5) v(2) in blast)
  moreover have "trap_cx_page (phys k) ms = Some (pte_ppn d)" "trap_cx_page w ms = Some (pte_ppn d)"
    using trap_cx_page_entry d wp(2) by simp_all
  ultimately show ?thesis
    using that [of "pte_ppn d", folded w_def] wp(1,3) read_write_trap_cx [OF ok cx, of "phys k", folded w_def] by simp
qed

text \<open>The frames of the old address space are given back and the task is as at the start of the program.\<close>

lemma TaskControlBlock_exec_returns:
  fixes k :: "'s kernel"
  assumes k: "kmem_inv lo (km k)" "ms_inv lo X (km k) (memory_set tcb)" and tcb: "get_tcb k t = Some tcb"
    and al: "tramp_aligned (syms e)" and elf: "parse_elf e data = Some elf" "loadable elf data segs"
    and room: "program_room segs \<le> frames_room (km k)"
  obtains ms p k' where "TaskControlBlock_exec e t data k = Some k'"
    and "k' = put_tcb t (tcb\<lparr>memory_set := ms, trap_cx_ppn := p\<rparr>) (k\<lparr>km := km k'\<rparr>)"
    and "built lo {trampoline_page} (frames_live lo (km k) - ppns (ms_frames (memory_set tcb))) (km k') ms"
    and "\<forall>q \<in> frames_live lo (km k) - ppns (ms_frames (memory_set tcb)). same_page (phys (km k)) (phys (km k')) q"
    and "\<forall>v. v \<noteq> trampoline_page \<longrightarrow> v \<noteq> trap_page \<longrightarrow> page_at (phys (km k')) ms v = program_image data segs v"
    and "trap_cx_page (phys (km k')) ms = Some p"
    and "read_trap_cx (phys (km k')) p = init_cx e (entry_point elf) (of_nat (4096 * (last_page segs + 3))) (kernel_stack tcb) k"
    and "frames_live lo (km k') \<inter> ppns (ms_frames (memory_set tcb)) = {}"
proof -
  let ?old = "memory_set tcb" and ?L = "frames_live lo (km k)" and ?X = "{trampoline_page}"
  let ?F = "ppns (ms_frames ?old)" and ?sp = "of_nat (4096 * (last_page segs + 3)) :: usize"
  let ?cx = "init_cx e (entry_point elf) ?sp (kernel_stack tcb) k"
  from k(1) al elf room obtain ms m where f: "from_elf (parse_elf e) (syms e) data (km k) = Some ((ms, ?sp, entry_point elf), m)"
      "built lo ?X ?L m ms" "\<forall>p \<in> ?L. same_page (phys (km k)) (phys m) p"
      "\<forall>v. v \<noteq> trampoline_page \<longrightarrow> page_at (phys m) ms v = program_image data segs v"
      "ms_entries (phys m) ms trampoline_page = Some (PageTableEntry_new (PhysAddr_floor (PhysAddr_of_usize (strampoline (syms e)))) (PTE_R OR PTE_X OR PTE_V))"
      "frames_room (km k) \<le> frames_room m + program_room segs" by (rule from_elf_returns)
  note B = builtD [OF f(2)]
  have old: "distinct (ms_frames ?old)" "?F \<subseteq> ?L" using k(2) unfolding ms_inv_def by blast+
  then have "frame_ppn ` set (ms_frames ?old) \<subseteq> frames_live lo m" using B(4) by blast
  from drop_frames_returns [OF B(1) old(1) this] obtain n where
    n: "drop_frames (ms_frames ?old) m = Some n" "kmem_inv lo n" "phys n = phys m" "frames_live lo n = frames_live lo m - ?F" by blast
  have bn: "built lo ?X (?L - ?F) n ms" by (rule built_release [OF f(2) n(2-4) old(2)])
  have "page_at (phys n) ms trap_page \<noteq> None" using f(4) program_image_trap n(3) by simp
  from bn this init_cx_ok obtain p where p: "trap_cx_page (phys n) ms = Some p"
      "built lo ?X (?L - ?F) (n\<lparr>phys := write_trap_cx p ?cx (phys n)\<rparr>) ms"
      "\<forall>q \<in> ?L - ?F. same_page (phys n) (write_trap_cx p ?cx (phys n)) q"
      "\<forall>v. v \<noteq> trampoline_page \<longrightarrow> v \<noteq> trap_page \<longrightarrow> page_at (write_trap_cx p ?cx (phys n)) ms v = page_at (phys n) ms v"
      "trap_cx_page (write_trap_cx p ?cx (phys n)) ms = Some p" "read_trap_cx (write_trap_cx p ?cx (phys n)) p = ?cx"
    by (rule write_cx)
  let ?w = "write_trap_cx p ?cx (phys n)"
  define k' where "k' = put_tcb t (tcb\<lparr>memory_set := ms, trap_cx_ppn := p\<rparr>) (k\<lparr>km := n\<lparr>phys := ?w\<rparr>\<rparr>)"
  have cxk: "init_cx e en sp ks (put_tcb t x (k\<lparr>km := y\<rparr>)) = init_cx e en sp ks k" for en sp ks x y
    by (simp add: init_cx_def put_tcb_def)
  have g: "get_tcb (k\<lparr>km := m\<rparr>) t = Some tcb" using tcb by (simp add: get_tcb_def)
  have st: "set_phys v (put_tcb t x (k\<lparr>km := n\<rparr>)) = put_tcb t x (k\<lparr>km := n\<lparr>phys := v\<rparr>\<rparr>)" "km (put_tcb t x k) = km k" for v x and k :: "'s kernel"
    by (simp_all add: set_phys_def put_tcb_def)
  have run: "TaskControlBlock_exec e t data k = Some k'"
    using f(1) p(1) g n(1,3) by (simp add: TaskControlBlock_exec_def MemorySet_drop_eq st cxk k'_def)
  have km: "km k' = n\<lparr>phys := ?w\<rparr>" and kp: "phys (km k') = ?w" by (simp_all add: k'_def put_tcb_def)
  have same: "\<forall>q \<in> ?L - ?F. same_page (phys (km k)) (phys (km k')) q"
    unfolding kp using f(3) p(3) by (auto simp: n(3) intro: same_page_trans)
  have pages: "\<forall>v. v \<noteq> trampoline_page \<longrightarrow> v \<noteq> trap_page \<longrightarrow> page_at (phys (km k')) ms v = program_image data segs v"
    unfolding kp using f(4) p(4) n(3) by simp
  have rel: "frames_live lo (km k') \<inter> ?F = {}" unfolding km using n(4) by (auto simp: frames_live_def)
  show ?thesis
    by (rule that [OF run _ p(2) [folded km] same pages p(5,6) [folded kp] rel]) (unfold km, rule k'_def)
qed

section \<open>From the path to the program\<close>

lemma open_file_rdonly:
  assumes dev: "block_device D dinv dview N" and s: "fs_ready dinv dview N E s"
    and root: "files dview E s 0 = Some (Directory, bs)" "dir_ok bs" and j: "map_of (dir_list bs) name = Some j"
  obtains s' where "open_file (cache_ops D) E name O_RDONLY s = Some (Some (OSInode_new True False (inode_ref E j)), s')"
    and "fs_ready dinv dview N E s'" and "files dview E s' = files dview E s"
proof -
  note B = block_device.cache_store [OF dev] and r = fs_readyD [OF s]
  have e: "root_inode E = inode_ref E 0" by (simp add: root_inode_def inode_ref_def case_prod_beta)
  have fl: "read_write O_RDONLY = (True, False)" "\<not> flags_contain O_RDONLY O_CREATE" "\<not> flags_contain O_RDONLY O_TRUNC"
    by (simp_all add: read_write_def flags_contain_def O_RDONLY_def O_CREATE_def O_TRUNC_def)
  obtain s' where s': "Inode_find (cache_ops D) E (inode_ref E 0) name s = Some (Some (inode_ref E j), s')"
      "cache_inv dinv dview N s'" "cache_held s' = {}" "cache_view dview s' = cache_view dview s"
    using block_store.Inode_find_returns [OF B r root(1) [unfolded files_def] root(2), of name] j
    unfolding block_store.returns_def [OF B] by auto
  show ?thesis
    by (rule that [of s']) (use s' r(3) in \<open>simp_all add: open_file_def e fl fs_state_defs\<close>)
qed

lemma read_all_returns:
  assumes dev: "block_device D dinv dview N" and s: "fs_ready dinv dview N E s" and i: "files dview E s i = Some (t, bs)"
  obtains f s' where "read_all (cache_ops D) (OSInode_new r w (inode_ref E i)) s = Some ((bs, f), s')"
    and "fs_ready dinv dview N E s'" and "files dview E s' = files dview E s"
proof -
  note B = block_device.cache_store [OF dev] and r = fs_readyD [OF s]
  obtain s' where s': "read_all_loop (cache_ops D) (inode_ref E i) 0 (replicate 512 0) [] s = Some ((bs, length bs), s')"
      "cache_inv dinv dview N s'" "cache_held s' = {}" "cache_view dview s' = cache_view dview s"
    using block_store.read_all_loop_returns [OF B r i [unfolded files_def], of "replicate 512 0" 0 "[]"]
    unfolding block_store.returns_def [OF B] by auto
  show ?thesis
    by (rule that [of "(OSInode_new r w (inode_ref E i))\<lparr>os_offset := length bs\<rparr>" s'])
      (use s' r(3) in \<open>simp_all add: read_all_def OSInode_new_def fs_state_defs\<close>)
qed

text \<open>
  C9 (functional). \<^verbatim>\<open>exec\<close> of a path that names a program in the root directory, with enough memory,
  returns 0 to a process that is as at the start of the program: its address space has
  exactly the pages of the image with their bytes and permissions, its trap context is the
  initial one, with the entry point of the program and the top of the new stack. The frames of
  the old address space are given back; every other frame in use and every file keeps its contents.
\<close>

theorem sys_exec_loads:
  fixes k :: "'d cache_state kernel"
  assumes dev: "block_device D dinv dview N" and s: "fs_ready dinv dview N E (fs k)"
    and env: "blk e = cache_ops D" "efs_of e = E" "parse_elf e data = Some elf" "tramp_aligned (syms e)"
    and cur: "current_tcb k = Some (t, tcb)" and user: "kmem_inv lo (km k)" "ms_inv lo X (km k) (memory_set tcb)"
    and path: "unat ptr + length path < 2 ^ 38" "user_str (phys (km k)) (memory_set tcb) (unat ptr) path"
    and dir: "files dview E (fs k) 0 = Some (Directory, bs)" "dir_ok bs" "map_of (dir_list bs) path = Some j"
      "files dview E (fs k) j = Some (ty, data)"
    and prog: "loadable elf data segs" "program_room segs \<le> frames_room (km k)"
  shows "\<exists>k' ms p. sys_exec e ptr k = Some (Ret 0, k') \<and>
     get_tcb k' t = Some (tcb\<lparr>memory_set := ms, trap_cx_ppn := p\<rparr>) \<and>
     kmem_inv lo (km k') \<and> ms_inv lo {trampoline_page} (km k') ms \<and>
     (\<forall>v. v \<noteq> trampoline_page \<longrightarrow> v \<noteq> trap_page \<longrightarrow> page_at (phys (km k')) ms v = program_image data segs v) \<and>
     trap_cx_page (phys (km k')) ms = Some p \<and>
     read_trap_cx (phys (km k')) p
       = init_cx e (entry_point elf) (of_nat (4096 * (last_page segs + 3))) (kernel_stack tcb) k \<and>
     frames_live lo (km k') \<inter> ppns (ms_frames (memory_set tcb)) = {} \<and>
     (\<forall>q \<in> frames_live lo (km k) - ppns (ms_frames (memory_set tcb)).
        q \<in> frames_live lo (km k') \<and> same_page (phys (km k)) (phys (km k')) q) \<and>
     fs_ready dinv dview N E (fs k') \<and> files dview E (fs k') = files dview E (fs k)"
proof -
  have str: "translated_str (phys (km k)) (MemorySet_token (memory_set tcb)) ptr = Some path"
    by (rule user_str_returns [OF user path])
  from dev s dir(1-3) obtain s1 where
    s1: "open_file (cache_ops D) E path O_RDONLY (fs k) = Some (Some (OSInode_new True False (inode_ref E j)), s1)"
      "fs_ready dinv dview N E s1" "files dview E s1 = files dview E (fs k)" by (rule open_file_rdonly)
  have "files dview E s1 j = Some (ty, data)" using dir(4) s1(3) by simp
  from dev s1(2) this obtain f s2 where
    s2: "read_all (cache_ops D) (OSInode_new True False (inode_ref E j)) s1 = Some ((data, f), s2)"
      "fs_ready dinv dview N E s2" "files dview E s2 = files dview E s1" by (rule read_all_returns)
  let ?k = "k\<lparr>fs := s2\<rparr>"
  have h: "kmem_inv lo (km ?k)" "ms_inv lo X (km ?k) (memory_set tcb)" "get_tcb ?k t = Some tcb" "program_room segs \<le> frames_room (km ?k)"
    using user prog(2) current_tcbD(2) [OF cur] by (simp_all add: get_tcb_def)
  from h(1-3) env(4,3) prog(1) h(4) obtain ms p k' where x: "TaskControlBlock_exec e t data ?k = Some k'"
      "k' = put_tcb t (tcb\<lparr>memory_set := ms, trap_cx_ppn := p\<rparr>) (?k\<lparr>km := km k'\<rparr>)"
      "built lo {trampoline_page} (frames_live lo (km ?k) - ppns (ms_frames (memory_set tcb))) (km k') ms"
      "\<forall>q \<in> frames_live lo (km ?k) - ppns (ms_frames (memory_set tcb)). same_page (phys (km ?k)) (phys (km k')) q"
      "\<forall>v. v \<noteq> trampoline_page \<longrightarrow> v \<noteq> trap_page \<longrightarrow> page_at (phys (km k')) ms v = program_image data segs v"
      "trap_cx_page (phys (km k')) ms = Some p"
      "read_trap_cx (phys (km k')) p = init_cx e (entry_point elf) (of_nat (4096 * (last_page segs + 3))) (kernel_stack tcb) ?k"
      "frames_live lo (km k') \<inter> ppns (ms_frames (memory_set tcb)) = {}"
    by (rule TaskControlBlock_exec_returns)
  have run: "sys_exec e ptr k = Some (Ret 0, k')"
    using str s1(1) s2(1) x(1) current_tcbD(1) [OF cur]
    by (simp add: sys_exec_def current_user_token_eq [OF cur] env(1,2) current_task_def)
  have t': "get_tcb k' t = Some (tcb\<lparr>memory_set := ms, trap_cx_ppn := p\<rparr>)" and s': "fs k' = s2"
    using get_tcb_length [OF h(3)] by (subst x(2), simp add: get_tcb_def put_tcb_def)+
  have "init_cx e en sp ks ?k = init_cx e en sp ks k" for en sp ks by (simp add: init_cx_def)
  then have cx: "read_trap_cx (phys (km k')) p
      = init_cx e (entry_point elf) (of_nat (4096 * (last_page segs + 3))) (kernel_stack tcb) k" using x(7) by simp
  have live: "\<forall>q \<in> frames_live lo (km k) - ppns (ms_frames (memory_set tcb)).
      q \<in> frames_live lo (km k') \<and> same_page (phys (km k)) (phys (km k')) q" using x(4) builtD(4) [OF x(3)] by auto
  have files: "fs_ready dinv dview N E (fs k')" "files dview E (fs k') = files dview E (fs k)" using s' s2(2,3) s1(3) by simp_all
  note res = run t' builtD(1,2) [OF x(3)] x(5,6) cx x(8) live files
  show ?thesis by (rule exI [of _ k'], rule exI [of _ ms], rule exI [of _ p]) (intro conjI res)
qed

text \<open>A user with the string \<^verbatim>\<open>a\<close> at the start of page 1.\<close>

lemma example_path:
  obtains m ms where "kmem_inv 16 m" and "ms_inv 16 {} m ms" and "user_str (phys m) ms 4096 [97]" and "57 \<le> frames_room m"
proof -
  have S: "spaces_ok 16 small_mem []" using small_mem_ok(1) by (simp add: spaces_ok_def)
  have r: "0 < frames_room small_mem" using small_mem_ok(2) by simp
  from S r obtain ms0 k0 where n: "spaces_ok 16 k0 [({}, ms0)]" "ms_entries (phys k0) ms0 = Map.empty" "areas ms0 = []"
      "Suc (frames_room k0) = frames_room small_mem" by (rule spaces_new)
  have h: "{VirtAddr_floor (VirtAddr 0x1000)..<VirtAddr_ceil (VirtAddr 0x2800)} \<inter> dom (ms_entries (phys k0) ms0) = {}"
    "3 * (unat (vpn (VirtAddr_ceil (VirtAddr 0x2800))) - unat (vpn (VirtAddr_floor (VirtAddr 0x1000)))) \<le> frames_room k0"
    using n(2,4) small_mem_ok(2) by (simp_all add: example_va)
  from n(1) example_va(1) h obtain ms k a where i: "spaces_ok 16 k [({}, ms)]" "areas ms = areas ms0 @ [a]" "map_type a = Framed"
      "get_start (vpn_range a) = VirtAddr_floor (VirtAddr 0x1000)" "get_end (vpn_range a) = VirtAddr_ceil (VirtAddr 0x2800)"
      "frames_room k0 \<le> frames_room k + 3 * (unat (vpn (VirtAddr_ceil (VirtAddr 0x2800))) - unat (vpn (VirtAddr_floor (VirtAddr 0x1000))))"
    by (rule spaces_insert)
  have k: "kmem_inv 16 k" "ms_inv 16 {} k ms" "all_framed ms" using i(1-3) n(3) by (simp_all add: spaces_ok_def all_framed_def)
  have pg: "page_of (unat (0x1000 :: usize)) \<in> ms_pages ms"
    using i(2,4,5) n(3) by (simp add: ms_pages_def area_pages_def example_va less_eq_VirtPageNum_def less_VirtPageNum_def)
  have fits: "unat (0x1000 :: usize) < 2 ^ 38" "unat (0x1000 :: usize) mod 4096 + length ([97, 0] :: bytes) \<le> 4096" by simp_all
  from k pg fits obtain a d where "translated_refmut (phys k) (MemorySet_token ms) 0x1000 = Some a"
      and d: "ms_entries (phys k) ms (page_of (unat (0x1000 :: usize))) = Some d" "pte_ppn d \<in> ppns (ms_frames ms)"
      and "\<forall>q. ppn_ok q \<longrightarrow> q \<noteq> pte_ppn d \<longrightarrow> same_page (phys k) (PhysAddr_set_mut a [97, 0] (phys k)) q"
      and u: "ms_inv 16 {} (k\<lparr>phys := PhysAddr_set_mut a [97, 0] (phys k)\<rparr>) ms"
        "ms_entries (PhysAddr_set_mut a [97, 0] (phys k)) ms = ms_entries (phys k) ms"
        "user_bytes (PhysAddr_set_mut a [97, 0] (phys k)) ms (unat (0x1000 :: usize)) (length ([97, 0] :: bytes)) = [97, 0]"
    by (rule user_store)
  let ?m = "PhysAddr_set_mut a [97, 0] (phys k)"
  have "user_phys ?m ms x \<noteq> None" if "4096 \<le> x \<and> x < 4096 + 2" for x
  proof -
    have "x div 4096 = 1" using that by (intro div_nat_eqI) simp_all
    then show ?thesis using d(1) u(2) by (simp add: user_phys_def)
  qed
  moreover have "Suc (Suc 0) = 2" by simp
  ultimately have str: "user_str ?m ms 4096 [97]" using u(3) by (simp add: user_str_def user_mapped_def)
  have "kmem_inv 16 (k\<lparr>phys := ?m\<rparr>)" using k(1) by (simp add: kmem_inv_def)
  moreover have "57 \<le> frames_room (k\<lparr>phys := ?m\<rparr>)" using i(6) n(4) small_mem_ok(2) by (simp add: example_va frames_room_def)
  ultimately show ?thesis using that [of "k\<lparr>phys := ?m\<rparr>" ms] u(1) str by simp
qed

theorem sys_exec_loads_witness:
  "\<exists>k k' tcb ms p. sys_exec ((example_env (cache_ops BlockFile) img)\<lparr>parse_elf := \<lambda>_. Some example_elf\<rparr>) 0x1000 k = Some (Ret 0, k') \<and>
     get_tcb k' 1 = Some (tcb\<lparr>memory_set := ms, trap_cx_ppn := p\<rparr>) \<and>
     page_at (phys (km k')) ms (VirtPageNum 16) = Some (PERM_U OR PERM_R OR PERM_X OR PTE_V, [2, 3] @ replicate 4094 0) \<and>
     cx_sepc (read_trap_cx (phys (km k')) p) = 0x10000"
proof -
  obtain s bs j where s: "img_ready s" "files file_block img s 0 = Some (Directory, bs)" "dir_ok bs"
    and j: "dir_list bs = [([97], j)]" "files file_block img s j = Some (File, [1, 2, 3])" using used_image by blast
  obtain m us where m: "kmem_inv 16 m" "ms_inv 16 {} m us" "user_str (phys m) us 4096 [97]" "57 \<le> frames_room m"
    by (rule example_path)
  fix q f
  let ?e = "(example_env (cache_ops BlockFile) img)\<lparr>parse_elf := \<lambda>_. Some example_elf\<rparr>"
  let ?k = "example_kernel m q us f s" and ?tcb = "example_tcb q us"
  have env: "blk ?e = cache_ops BlockFile" "efs_of ?e = img" "parse_elf ?e [1, 2, 3] = Some example_elf" "tramp_aligned (syms ?e)"
    using example_tramp [of "cache_ops BlockFile" img] by (simp_all add: example_env_def)
  have h: "img_ready (fs ?k)" "kmem_inv 16 (km ?k)" "ms_inv 16 {} (km ?k) (memory_set ?tcb)"
    "unat (0x1000 :: usize) + length ([97] :: bytes) < 2 ^ 38" "user_str (phys (km ?k)) (memory_set ?tcb) (unat (0x1000 :: usize)) [97]"
    "files file_block img (fs ?k) 0 = Some (Directory, bs)" "map_of (dir_list bs) [97] = Some j"
    "files file_block img (fs ?k) j = Some (File, [1, 2, 3])" "program_room [example_ph] \<le> frames_room (km ?k)"
    using s m j by (simp_all add: example_pages)
  have entry: "cx_sepc (init_cx ?e (entry_point example_elf) sp ks ?k) = 0x10000" for sp ks
    by (simp add: init_cx_def app_init_context_def set_sp_def example_elf_def)
  obtain k' ms p where x: "sys_exec ?e 0x1000 ?k = Some (Ret 0, k')" "get_tcb k' 1 = Some (?tcb\<lparr>memory_set := ms, trap_cx_ppn := p\<rparr>)"
      "\<forall>v. v \<noteq> trampoline_page \<longrightarrow> v \<noteq> trap_page \<longrightarrow> page_at (phys (km k')) ms v = program_image [1, 2, 3] [example_ph] v"
      "read_trap_cx (phys (km k')) p = init_cx ?e (entry_point example_elf) (of_nat (4096 * (last_page [example_ph] + 3))) (kernel_stack ?tcb) ?k"
    using sys_exec_loads [OF image.block_device_axioms h(1) env example_current h(2-6) s(3) h(7,8) example_loadable h(9)] by metis
  have "page_at (phys (km k')) ms (VirtPageNum 16) = Some (PERM_U OR PERM_R OR PERM_X OR PTE_V, [2, 3] @ replicate 4094 0)"
    using x(3) example_image by simp
  moreover have "cx_sepc (read_trap_cx (phys (km k')) p) = 0x10000" unfolding x(4) by (rule entry)
  ultimately show ?thesis using x(1,2) by blast
qed

end
