(* ===== verification/LifeSpec.thy ===== *)
theory LifeSpec
  imports LifeOps
begin

text \<open>
  The end of a process as its parent sees it: \<^verbatim>\<open>exit\<close> gives the memory of the process back
  and leaves a zombie, \<^verbatim>\<open>waitpid\<close> collects its exit code and everything that was left of it.
\<close>

section \<open>Exit\<close>

abbreviation data_frames_of :: "MemorySet \<Rightarrow> FrameTracker list" where
  "data_frames_of ms \<equiv> concat (map area_frames (areas ms))"

text \<open>
  C11 (functional). \<^verbatim>\<open>sys_exit\<close> of a process that a parent still refers to, other than the idle and
  the initial process, returns to the scheduler with the process a zombie that keeps its exit
  code, identifier and page table only. Its children become the last children of the initial
  process, every other process and the ready queue are as before, and exactly the frames of its
  pages are given back.
\<close>

theorem sys_exit_releases:
  fixes k :: "'s kernel" and e :: "'s kernel_env"
  assumes cur: "current_tcb k = Some (t, tcb)" and pid: "pid (tcb_pid tcb) \<noteq> IDLE_PID"
    and init: "initproc k = Some i" "i \<noteq> t" "get_tcb k i = Some ini"
    and kids: "\<forall>c \<in> set (children tcb). get_tcb k c \<noteq> None" "t \<notin> set (children tcb)" "i \<notin> set (children tcb)"
    and par: "get_tcb k p = Some ptcb" "t \<in> set (children ptcb)" "p \<noteq> t"
    and mem: "kmem_inv lo (km k)" "ms_inv lo X (km k) (memory_set tcb)"
  shows "\<exists>k'. sys_exit e time code k = Some (Switched, k') \<and> current_task k' = None \<and> task_manager k' = task_manager k \<and>
     get_tcb k' t = Some (tcb\<lparr>task_status := Zombie, exit_code := code, children := [],
       memory_set := (memory_set tcb)\<lparr>areas := []\<rparr>, fd_table := []\<rparr>) \<and>
     get_tcb k' i = Some (ini\<lparr>children := children ini @ children tcb\<rparr>) \<and>
     (\<forall>c \<in> set (children tcb). get_tcb k' c = map_option (\<lambda>c. c\<lparr>parent := Some i\<rparr>) (get_tcb k c)) \<and>
     (\<forall>u. u \<noteq> t \<and> u \<noteq> i \<and> u \<notin> set (children tcb) \<longrightarrow> get_tcb k' u = get_tcb k u) \<and>
     kmem_inv lo (km k') \<and> phys (km k') = phys (km k) \<and>
     frames_live lo (km k') = frames_live lo (km k) - ppns (data_frames_of (memory_set tcb)) \<and>
     frames_room (km k') = frames_room (km k) + length (data_frames_of (memory_set tcb))"
proof -
  let ?z = "tcb\<lparr>task_status := Zombie, exit_code := code\<rparr>" and ?cs = "children tcb" and ?ms = "memory_set tcb"
  let ?k0 = "snd (take_current_task k)"
  let ?k1 = "put_tcb t ?z ?k0"
  have t: "current_task k = Some t" "get_tcb k t = Some tcb" using current_tcbD [OF cur] by simp_all
  have len: "t < length (tcbs k)" using t(2) by (rule get_tcb_length)
  have at1: "get_tcb ?k1 u = (if u = t then Some ?z else get_tcb k u)" for u
    using len by (simp add: get_tcb_def put_tcb_def take_current_task_def)
  have r: "get_tcb ?k1 i = Some ini" "\<forall>c \<in> set ?cs. get_tcb ?k1 c \<noteq> None"
    using init kids unfolding at1 by auto
  obtain T where T: "reparent i ?cs ?k1 = Some (?k1\<lparr>tcbs := T\<rparr>)" "length T = length (tcbs ?k1)"
      "get_tcb (?k1\<lparr>tcbs := T\<rparr>) i = Some (ini\<lparr>children := children ini @ ?cs\<rparr>)"
      "\<forall>c \<in> set ?cs. get_tcb (?k1\<lparr>tcbs := T\<rparr>) c = map_option (\<lambda>tcb. tcb\<lparr>parent := Some i\<rparr>) (get_tcb ?k1 c)"
      "\<forall>u. u \<noteq> i \<longrightarrow> u \<notin> set ?cs \<longrightarrow> get_tcb (?k1\<lparr>tcbs := T\<rparr>) u = get_tcb ?k1 u"
    using reparent_returns [OF r(1) kids(3) r(2)] by blast
  let ?k2 = "?k1\<lparr>tcbs := T\<rparr>"
  have t2: "get_tcb ?k2 t = Some ?z" using T(5) init(2) kids(2) unfolding at1 by auto
  let ?k3 = "put_tcb t (?z\<lparr>children := []\<rparr>) ?k2"
  have fr: "distinct (data_frames_of ?ms)" "frame_ppn ` set (data_frames_of ?ms) \<subseteq> frames_live lo (km k)"
    using mem(2) by (auto simp: ms_inv_def ms_frames_def)
  obtain m where m: "drop_frames (data_frames_of ?ms) (km k) = Some m" "kmem_inv lo m" "phys m = phys (km k)"
      "frames_live lo m = frames_live lo (km k) - frame_ppn ` set (data_frames_of ?ms)"
      "frames_room m = frames_room (km k) + length (data_frames_of ?ms)"
    using drop_frames_returns [OF mem(1) fr] by blast
  let ?w = "?z\<lparr>children := [], memory_set := ?ms\<lparr>areas := []\<rparr>, fd_table := []\<rparr>"
  let ?k4 = "put_tcb t ?w (?k3\<lparr>km := m\<rparr>)"
  have len2: "t < length T" using T(2) len by (simp add: put_tcb_def take_current_task_def)
  have at3: "get_tcb ?k3 u = (if u = t then Some (?z\<lparr>children := []\<rparr>) else get_tcb ?k2 u)"
    and at4: "get_tcb ?k4 u = (if u = t then Some ?w else get_tcb ?k2 u)" for u
    using len2 by (simp_all add: get_tcb_def put_tcb_def)
  have "\<forall>c \<in> set ?cs. 0 < strong_count ?k3 c"
    using strong_count_child [of ?k3 i "ini\<lparr>children := children ini @ ?cs\<rparr>"] T(3) init(2) unfolding at3 by simp
  then have d1: "drop_arcs ?cs ?k3 = Some ?k3" by (rule drop_arcs_held)
  obtain q where q: "get_tcb ?k4 p = Some q" "t \<in> set (children q)"
  proof (cases "p = i")
    case True
    then show ?thesis using that T(3) par init(2,3) unfolding at4 by auto
  next
    case False
    then show ?thesis using that T(4,5) par unfolding at4 at1 by (cases "p \<in> set ?cs") auto
  qed
  then have d2: "drop_arcs [t] ?k4 = Some ?k4"
    by (intro drop_arcs_held) (use strong_count_child in auto)
  have km: "km ?k3 = km k" by (simp add: put_tcb_def take_current_task_def)
  have ini: "INITPROC e time ?k1 = Some (i, ?k1)" using init(1) by (simp add: INITPROC_def put_tcb_def take_current_task_def)
  have t0: "get_tcb ?k0 t = Some tcb" using t(2) by (simp add: get_tcb_def take_current_task_def)
  have t3: "get_tcb ?k3 t = Some (?z\<lparr>children := []\<rparr>)" using at3 [of t] by simp
  have "exit_current_and_run_next e time code k = Some ?k4"
    unfolding exit_current_and_run_next_def
    by (subst take_current_task_eq) (simp add: t(1) t0 pid ini km [simplified] init(2) kids(2,3) T(1) t2 d1 [simplified] t3 [simplified]
      recycle_data_pages_def drop_areas_eq m(1) d2 [simplified] Let_def)
  then have run: "sys_exit e time code k = Some (Switched, ?k4)" by (simp add: sys_exit_def)
  have "current_task ?k4 = None" "task_manager ?k4 = task_manager k" "km ?k4 = m"
    by (simp_all add: put_tcb_def take_current_task_def current_task_def)
  then show ?thesis
    using run T(3-5) m(2-5) init(2) kids(2,3) by (intro exI [of _ ?k4]) (auto simp: at4 at1)
qed

lemma example_init [simp]:
  "initproc (example_kernel m p ms f s) = Some 0"
  "get_tcb (example_kernel m p ms f s) 0
    = Some ((example_tcb p ms)\<lparr>tcb_pid := PidHandle 0, task_status := Ready, parent := None, children := [1]\<rparr>)"
  by (simp_all add: example_kernel_def get_tcb_def)

theorem sys_exit_releases_witness:
  "\<exists>(e :: unit kernel_env) (k :: unit kernel) k' tcb. sys_exit e 0 7 k = Some (Switched, k') \<and>
     get_tcb k' 1 = Some tcb \<and> task_status tcb = Zombie \<and> exit_code tcb = 7"
proof -
  fix e :: "unit kernel_env" and p f
  obtain m ms where m: "kmem_inv 16 m" "ms_inv 16 {} m ms" using example_user by blast
  let ?k = "example_kernel m p ms f ()" and ?tcb = "example_tcb p ms"
  have "pid (tcb_pid ?tcb) \<noteq> IDLE_PID" "children ?tcb = []" by (simp_all add: example_tcb_def IDLE_PID_def)
  then obtain k' where "sys_exit e 0 7 ?k = Some (Switched, k')"
      "get_tcb k' 1 = Some (?tcb\<lparr>task_status := Zombie, exit_code := 7, children := [], memory_set := ms\<lparr>areas := []\<rparr>, fd_table := []\<rparr>)"
    using sys_exit_releases [OF example_current [of m p ms f "()"] _ example_init(1) _ example_init(2) _ _ _ example_init(2),
        of 16 "{}" e 0 7] m by auto
  then show ?thesis by - (rule exI [of _ e], rule exI [of _ ?k], rule exI [of _ k'], simp)
qed

section \<open>Waiting\<close>

abbreviation zombie_child :: "int \<Rightarrow> 's kernel \<Rightarrow> nat \<Rightarrow> bool" where
  "zombie_child p k c \<equiv> child_zombie k c \<and> (p = -1 \<or> word_of_int p = child_pid k c)"

text \<open>
  C12 (functional). \<^verbatim>\<open>sys_waitpid\<close> of a caller whose first matching zombie child nobody else refers to
  returns the identifier of the child and stores its exit code at the address given. The child
  is gone from the list of the caller and from the system; its identifier, its kernel stack
  and all its frames are free again, and no other process changes.
\<close>

theorem sys_waitpid_reaps:
  fixes k :: "'s kernel"
  assumes cur: "current_tcb k = Some (t, tcb)"
    and n: "find_idx (zombie_child p k) (children tcb) = Some n" and c: "c = children tcb ! n" "c \<noteq> t"
    and z: "get_tcb k c = Some z" "children z = []" "strong_count k c = 1"
    and inv: "kmem_inv lo (km k)" "ms_inv lo Y (km k) (kernel_space k)"
    and us: "ms_inv lo X (km k) (memory_set tcb)" "all_framed (memory_set tcb)"
      "ppns (ms_frames (memory_set tcb)) \<inter> ppns (ms_frames (kernel_space k)) = {}"
    and ptr: "unat ptr < 2 ^ 38" "unat ptr mod 4096 + 4 \<le> 4096" "page_of (unat ptr) \<in> ms_pages (memory_set tcb)"
    and stack: "kernel_stack z = KernelStack i" "unat i < kstack_limit" "ra_inv (kstack_allocator k)"
      "i \<in> ra_live (kstack_allocator k)" "find_idx (kstack_area i) (areas (kernel_space k)) = Some j"
      "map_type (areas (kernel_space k) ! j) = Framed"
    and pid: "ra_inv (pid_allocator k)" "pid (tcb_pid z) \<in> ra_live (pid_allocator k)"
    and fr: "distinct (ms_frames (memory_set z))" "ppns (ms_frames (memory_set z)) \<subseteq> frames_live lo (km k)"
      "ppns (ms_frames (memory_set z)) \<inter> ppns (ms_frames (kernel_space k)) = {}"
      "ppns (ms_frames (memory_set z)) \<inter> ppns (ms_frames (memory_set tcb)) = {}"
  shows "\<exists>k'. sys_waitpid p ptr k = Some (Ret (sint (pid (tcb_pid z))), k') \<and> get_tcb k' c = None \<and>
     get_tcb k' t = Some (tcb\<lparr>children := take n (children tcb) @ drop (Suc n) (children tcb)\<rparr>) \<and>
     (\<forall>u. u \<noteq> t \<and> u \<noteq> c \<longrightarrow> get_tcb k' u = get_tcb k u) \<and>
     user_bytes (phys (km k')) (memory_set tcb) (unat ptr) 4 = le_enc 4 (unat (exit_code z)) \<and>
     kmem_inv lo (km k') \<and> ms_inv lo X (km k') (memory_set tcb) \<and>
     frames_live lo (km k') = frames_live lo (km k) - ppns (area_frames (areas (kernel_space k) ! j)) - ppns (ms_frames (memory_set z)) \<and>
     ra_live (kstack_allocator k') = ra_live (kstack_allocator k) - {i} \<and>
     ra_live (pid_allocator k') = ra_live (pid_allocator k) - {pid (tcb_pid z)}"
proof -
  let ?us = "memory_set tcb" and ?b = "le_enc 4 (unat (exit_code z))"
  let ?par = "tcb\<lparr>children := take n (children tcb) @ drop (Suc n) (children tcb)\<rparr>"
  have t: "get_tcb k t = Some tcb" using current_tcbD [OF cur] by simp
  have nl: "n < length (children tcb)" "zombie_child p k c" using find_idx_SomeD [OF n] c(1) by simp_all
  have len: "length ?b = 4" by simp
  have pf: "unat ptr mod 4096 + length ?b \<le> 4096" using ptr(2) by simp
  from inv(1) us(1,2) ptr(3,1) pf obtain a d where
    a: "translated_refmut (phys (km k)) (MemorySet_token ?us) ptr = Some a"
      "ms_entries (phys (km k)) ?us (page_of (unat ptr)) = Some d" "pte_ppn d \<in> ppns (ms_frames ?us)"
      "\<forall>q. ppn_ok q \<longrightarrow> q \<noteq> pte_ppn d \<longrightarrow> same_page (phys (km k)) (PhysAddr_set_mut a ?b (phys (km k))) q"
      "ms_inv lo X ((km k)\<lparr>phys := PhysAddr_set_mut a ?b (phys (km k))\<rparr>) ?us"
      "ms_entries (PhysAddr_set_mut a ?b (phys (km k))) ?us = ms_entries (phys (km k)) ?us"
      "user_bytes (PhysAddr_set_mut a ?b (phys (km k))) ?us (unat ptr) (length ?b) = ?b"
    by (rule user_store)
  let ?m = "PhysAddr_set_mut a ?b (phys (km k))"
  let ?k1 = "put_tcb t ?par k"
  let ?k2 = "set_phys ?m ?k1"
  have km: "km ?k2 = (km k)\<lparr>phys := ?m\<rparr>" "kernel_space ?k2 = kernel_space k" "kstack_allocator ?k2 = kstack_allocator k"
    "pid_allocator ?k2 = pid_allocator k" by (simp_all add: set_phys_def put_tcb_def)
  have lv: "frames_live lo (km ?k2) = frames_live lo (km k)" by (simp add: km frames_live_def)
  have inv2: "kmem_inv lo (km ?k2)" using inv(1) by (simp add: km kmem_inv_def)
  have kl: "ppns (ms_frames (kernel_space k)) \<subseteq> frames_live lo (km k)" using inv(2) by (simp add: ms_inv_def)
  have ks: "same_page (phys (km k)) (phys (km ?k2)) q" if q: "q \<in> ppns (ms_frames (kernel_space k))" for q
  proof -
    have "ppn_ok q" using q kl by (intro live_ppn_ok [OF inv(1)]) blast
    moreover have "q \<noteq> pte_ppn d" using a(3) us(3) q by blast
    ultimately show ?thesis using a(4) by (simp add: km)
  qed
  have kern2: "ms_inv lo Y (km ?k2) (kernel_space ?k2)" using ms_undisturbed(1) [OF inv ks] kl lv km(2) by simp
  have c2: "get_tcb ?k2 c = Some z" using z(1) c(2) by (simp add: get_tcb_def put_tcb_def set_phys_def split: if_splits)
  from inv2 kern2 c2 stack(5,6) [folded km(2)] stack(1,2) stack(3,4) [folded km(3)] pid [folded km(4)] fr(1) fr(2) [folded lv]
    fr(3) [folded km(2)] obtain k' where
    f: "free_task c ?k2 = Some (children z, k')"
      "k' = ?k2\<lparr>kernel_space := kernel_space k', km := km k', kstack_allocator := kstack_allocator k',
        pid_allocator := pid_allocator k', tcbs := (tcbs ?k2)[c := None]\<rparr>"
      "kmem_inv lo (km k')"
      "frames_live lo (km k') = frames_live lo (km ?k2) - ppns (area_frames (areas (kernel_space ?k2) ! j)) - ppns (ms_frames (memory_set z))"
      "\<forall>p. ppn_ok p \<longrightarrow> p \<notin> ppns (ms_frames (kernel_space ?k2)) \<longrightarrow> same_page (phys (km ?k2)) (phys (km k')) p"
      "ra_live (kstack_allocator k') = ra_live (kstack_allocator ?k2) - {i}"
      "ra_live (pid_allocator k') = ra_live (pid_allocator ?k2) - {pid (tcb_pid z)}"
    by (rule free_task_returns)
  have us_same: "same_page (phys (km ?k2)) (phys (km k')) q" if q: "q \<in> ppns (ms_frames ?us)" for q
  proof -
    have "ppn_ok q" using q us(1) by (intro live_ppn_ok [OF inv(1)]) (auto simp: ms_inv_def)
    then show ?thesis using f(5) us(3) q km(2) by auto
  qed
  have us2: "ms_inv lo X (km ?k2) ?us" using a(5) km(1) by simp
  have "ppns (area_frames (areas (kernel_space k) ! j)) \<subseteq> ppns (ms_frames (kernel_space k))"
    using find_idx_SomeD [OF stack(5)] by (intro image_mono) (auto simp: ms_frames_def)
  then have usl: "ppns (ms_frames ?us) \<subseteq> frames_live lo (km k')"
    using us(1,3) fr(4) unfolding f(4) lv km(2) ms_inv_def by blast
  note us' = ms_undisturbed [OF inv2 us2 us_same usl]
  have e2: "ms_entries (phys (km ?k2)) ?us (page_of (unat ptr)) = Some d" using a(2,6) km(1) by simp
  then have e': "ms_entries (phys (km k')) ?us (page_of (unat ptr)) = Some d" using us'(2) by simp
  have bytes: "user_bytes (phys (km k')) ?us (unat ptr) 4 = ?b"
    using user_bytes_page [OF e' ptr(2)] user_bytes_page [OF e2 ptr(2)] us_same [OF a(3)] a(7) km(1) by (simp add: same_page_def)
  have "strong_count ?k1 c = 0" using strong_count_take_child [OF t nl(1)] z(3) c(1) by simp
  moreover have "drop_arcs [c] ?k2 = Some k'" if "strong_count ?k1 c = 0"
    using that f(1) z(2) by (subst drop_arcs.simps) (simp add: drop_arcs.simps)
  moreover have "get_tcb ?k1 c = Some z" using z(1) c(2) by (simp add: get_put_tcb)
  moreover have "\<exists>c \<in> set (children tcb). p = -1 \<or> word_of_int p = child_pid k c" using nl nth_mem [OF nl(1)] c(1) by blast
  ultimately have run: "sys_waitpid p ptr k = Some (Ret (sint (pid (tcb_pid z))), k')"
    using n c(1) a(1) cur unfolding sys_waitpid_def by (auto simp: tcb_user_token_def put_tcb_def)
  have T: "tcbs k' = ((tcbs k)[t := Some ?par])[c := None]" by (subst f(2)) (simp add: set_phys_def put_tcb_def)
  have "t < length (tcbs k)" using t by (rule get_tcb_length)
  then have "get_tcb k' u = (if u = c then None else if u = t then Some ?par else get_tcb k u)" for u
    unfolding get_tcb_def T using c(2) by (auto simp: nth_list_update)
  then show ?thesis using run bytes f(3,4,6,7) us'(1) c(2) lv km by (intro exI [of _ k']) auto
qed

lemma example_family:
  "\<exists>m ks us zs a b. spaces_ok 16 m [({}, zs), ({}, us), ({}, ks)] \<and> areas ks = [a] \<and> map_type a = Framed \<and> kstack_area 2 a \<and>
     areas us = [b] \<and> map_type b = Framed \<and> area_pages b = {VirtPageNum 1..<VirtPageNum 3}"
proof -
  have ok0: "spaces_ok 16 small_mem []" using small_mem_ok(1) by (simp add: spaces_ok_def)
  have r0: "0 < frames_room small_mem" using small_mem_ok(2) by simp
  from ok0 r0 obtain ks0 k0 where s0: "spaces_ok 16 k0 [({}, ks0)]" "ms_entries (phys k0) ks0 = Map.empty" "areas ks0 = []"
    "Suc (frames_room k0) = frames_room small_mem" by (rule spaces_new)
  have l: "unat (2 :: usize) < kstack_limit" by (simp add: kstack_limit_def)
  obtain b t where bt: "kernel_stack_position 2 = (b, t)" by fastforce
  note va = kstack_va [OF l bt]
  have h0: "{VirtAddr_floor (VirtAddr_of_usize b)..<VirtAddr_ceil (VirtAddr_of_usize t)} \<inter> dom (ms_entries (phys k0) ks0) = {}"
    "3 * (unat (vpn (VirtAddr_ceil (VirtAddr_of_usize t))) - unat (vpn (VirtAddr_floor (VirtAddr_of_usize b)))) \<le> frames_room k0"
    using s0(2,4) small_mem_ok(2) va(2) by simp_all
  from s0(1) va(1) h0 obtain ks k1 a where s1: "spaces_ok 16 k1 [({}, ks)]" "areas ks = areas ks0 @ [a]" "map_type a = Framed"
    "get_start (vpn_range a) = VirtAddr_floor (VirtAddr_of_usize b)" "get_end (vpn_range a) = VirtAddr_ceil (VirtAddr_of_usize t)"
    "frames_room k0 \<le> frames_room k1 + 3 * (unat (vpn (VirtAddr_ceil (VirtAddr_of_usize t))) - unat (vpn (VirtAddr_floor (VirtAddr_of_usize b))))"
    by (rule spaces_insert)
  have r1: "0 < frames_room k1" using s1(6) s0(4) small_mem_ok(2) va(2) by simp
  from s1(1) r1 obtain us0 k2 where s2: "spaces_ok 16 k2 [({}, us0), ({}, ks)]" "ms_entries (phys k2) us0 = Map.empty" "areas us0 = []"
    "Suc (frames_room k2) = frames_room k1" by (rule spaces_new)
  have h2: "{VirtAddr_floor (VirtAddr 0x1000)..<VirtAddr_ceil (VirtAddr 0x2800)} \<inter> dom (ms_entries (phys k2) us0) = {}"
    "3 * (unat (vpn (VirtAddr_ceil (VirtAddr 0x2800))) - unat (vpn (VirtAddr_floor (VirtAddr 0x1000)))) \<le> frames_room k2"
    using s2(2,4) s1(6) s0(4) small_mem_ok(2) va(2) by (simp_all add: example_va)
  from s2(1) example_va(1) h2 obtain us k3 c where s3: "spaces_ok 16 k3 [({}, us), ({}, ks)]" "areas us = areas us0 @ [c]"
    "map_type c = Framed" "get_start (vpn_range c) = VirtAddr_floor (VirtAddr 0x1000)" "get_end (vpn_range c) = VirtAddr_ceil (VirtAddr 0x2800)"
    "frames_room k2 \<le> frames_room k3 + 3 * (unat (vpn (VirtAddr_ceil (VirtAddr 0x2800))) - unat (vpn (VirtAddr_floor (VirtAddr 0x1000))))"
    by (rule spaces_insert)
  have r3: "0 < frames_room k3" using s3(6) s2(4) s1(6) s0(4) small_mem_ok(2) va(2) by (simp add: example_va)
  from s3(1) r3 obtain zs m where s4: "spaces_ok 16 m [({}, zs), ({}, us), ({}, ks)]" "ms_entries (phys m) zs = Map.empty" "areas zs = []"
    "Suc (frames_room m) = frames_room k3" by (rule spaces_new)
  have "kstack_area 2 a" using s1(4) bt by (simp add: kstack_area_def)
  moreover have "area_pages c = {VirtPageNum 1..<VirtPageNum 3}" using s3(4,5) by (simp add: area_pages_def example_va)
  ultimately show ?thesis using s4(1) s1(2,3) s0(3) s3(2,3) s2(3)
    by (intro exI [of _ m] exI [of _ ks] exI [of _ us] exI [of _ zs] exI [of _ a] exI [of _ c]) simp
qed

definition example_zombie :: "MemorySet \<Rightarrow> TaskControlBlock" where
  "example_zombie ms = (example_tcb (PhysPageNum 0) ms)\<lparr>tcb_pid := PidHandle 2, kernel_stack := KernelStack 2,
     task_status := Zombie, parent := Some 1, exit_code := 7\<rparr>"

definition example_parent :: "kmem \<Rightarrow> MemorySet \<Rightarrow> MemorySet \<Rightarrow> MemorySet \<Rightarrow> OSInode \<Rightarrow> unit kernel" where
  "example_parent m ks us zs f = (example_kernel m (PhysPageNum 0) us f ())\<lparr>kernel_space := ks,
     pid_allocator := \<lparr>ra_current = 3, ra_recycled = []\<rparr>, kstack_allocator := \<lparr>ra_current = 3, ra_recycled = []\<rparr>,
     tcbs := [None, Some ((example_tcb (PhysPageNum 0) us)\<lparr>children := [2]\<rparr>), Some (example_zombie zs)], initproc := None\<rparr>"

theorem sys_waitpid_reaps_witness:
  "\<exists>(k :: unit kernel) k'. sys_waitpid (-1) 0x1000 k = Some (Ret 2, k') \<and> get_tcb k' 2 = None"
proof -
  fix f
  obtain m ks us zs a b where x: "spaces_ok 16 m [({}, zs), ({}, us), ({}, ks)]" "areas ks = [a]" "map_type a = Framed" "kstack_area 2 a"
     "areas us = [b]" "map_type b = Framed" "area_pages b = {VirtPageNum 1..<VirtPageNum 3}"
    using example_family by blast
  let ?k = "example_parent m ks us zs f" and ?tcb = "(example_tcb (PhysPageNum 0) us)\<lparr>children := [2]\<rparr>" and ?z = "example_zombie zs"
  have cur: "current_tcb ?k = Some (1, ?tcb)"
    by (simp add: example_parent_def example_kernel_def current_tcb_def current_task_def get_tcb_def)
  have z: "get_tcb ?k 2 = Some ?z" "children ?z = []" "strong_count ?k 2 = 1"
    by (simp_all add: example_parent_def example_zombie_def example_kernel_def example_tcb_def get_tcb_def strong_count_def)
  have n: "find_idx (zombie_child (-1) ?k) (children ?tcb) = Some 0"
    using z(1) by (simp add: child_zombie_def is_zombie_def example_zombie_def)
  have sp: "kmem_inv 16 m" "ms_inv 16 {} m ks" "ms_inv 16 {} m us" "ms_inv 16 {} m zs"
      "ppns (ms_frames us) \<inter> ppns (ms_frames ks) = {}" "ppns (ms_frames zs) \<inter> ppns (ms_frames ks) = {}"
      "ppns (ms_frames zs) \<inter> ppns (ms_frames us) = {}"
    using x(1) by (simp_all add: spaces_ok_def)
  have fl: "km ?k = m" "kernel_space ?k = ks" "memory_set ?tcb = us" "memory_set ?z = zs" "kernel_stack ?z = KernelStack 2"
      "tcb_pid ?z = PidHandle 2" "ra_inv (kstack_allocator ?k)" "2 \<in> ra_live (kstack_allocator ?k)"
      "ra_inv (pid_allocator ?k)" "2 \<in> ra_live (pid_allocator ?k)" "unat (2 :: usize) < kstack_limit"
    by (simp_all add: example_parent_def example_zombie_def ra_inv_def ra_live_def kstack_limit_def)
  have pg: "page_of (unat (0x1000 :: usize)) \<in> ms_pages us" using x(5,7)
    by (simp add: ms_pages_def less_eq_VirtPageNum_def less_VirtPageNum_def)
  have j: "find_idx (kstack_area 2) (areas ks) = Some 0" "map_type (areas ks ! 0) = Framed" "all_framed us"
    using x by (simp_all add: all_framed_def)
  have "distinct (ms_frames zs)" "ppns (ms_frames zs) \<subseteq> frames_live 16 m" using sp(4) by (simp_all add: ms_inv_def)
  then show ?thesis
    using sys_waitpid_reaps [OF cur n, of 2 ?z 16 "{}" "{}" "0x1000" 2 0] z sp fl pg j
    by - (rule exI [of _ ?k], auto)
qed

end
