(* ===== verification/TrapSpec.thy ===== *)
theory TrapSpec
  imports TrapOps
begin

text \<open>
  System calls as a user program sees them: the trap handler around the handler of a call.
\<close>

section \<open>Entering the kernel\<close>

abbreviation counted :: "usize \<Rightarrow> TaskControlBlock \<Rightarrow> TaskControlBlock" where
  "counted i tcb \<equiv> tcb\<lparr>task_info := (task_info tcb)\<lparr>syscall_times :=
     (syscall_times (task_info tcb))[unat i := syscall_times (task_info tcb) ! unat i + 1]\<rparr>\<rparr>"

abbreviation skip_ecall :: "TrapContext \<Rightarrow> TrapContext" where
  "skip_ecall cx \<equiv> cx\<lparr>cx_sepc := cx_sepc cx + 4\<rparr>"

text \<open>The state in which the handler of a call runs: the program counter is past the call, the call is counted.\<close>

definition entered :: "nat \<Rightarrow> TaskControlBlock \<Rightarrow> TrapContext \<Rightarrow> 's kernel \<Rightarrow> 's kernel" where
  "entered t tcb cx k =
     put_tcb t (counted (cx_x cx ! 17) tcb) (set_phys (write_trap_cx (trap_cx_ppn tcb) (skip_ecall cx) (phys (km k))) k)"

abbreviation syscall_args :: "TrapContext \<Rightarrow> usize list" where
  "syscall_args cx \<equiv> [cx_x cx ! 10, cx_x cx ! 11, cx_x cx ! 12, cx_x cx ! 13]"

lemma current_tcb_set_phys [simp]: "current_tcb (set_phys m k) = current_tcb k"
  by (simp add: current_tcb_def current_task_def get_tcb_def set_phys_def)

lemma put_current:
  assumes "current_tcb k = Some (t, tcb)"
  shows "current_tcb (put_tcb t tcb' k) = Some (t, tcb')"
    and "set_current t (put_tcb t tcb' (snd (take_current_task k))) = put_tcb t tcb' k"
proof -
  note c = current_tcbD [OF assms]
  show "current_tcb (put_tcb t tcb' k) = Some (t, tcb')"
    using c get_tcb_length [OF c(2)] by (simp add: current_tcb_def current_task_def put_tcb_def get_tcb_def)
  show "set_current t (put_tcb t tcb' (snd (take_current_task k))) = put_tcb t tcb' k"
    using c(1) by (simp add: set_current_def put_tcb_def take_current_task_def current_task_def)
qed

lemma update_taskinfo_eq:
  assumes "current_tcb k = Some (t, tcb)"
  shows "update_taskinfo i k = (if unat i < length (syscall_times (task_info tcb))
    then Some (0, put_tcb t (counted i tcb) k) else None)"
proof -
  note c = current_tcbD [OF assms]
  have "get_tcb (snd (take_current_task k)) t = Some tcb" using c(2) by (simp add: get_tcb_taken)
  then show ?thesis
    unfolding update_taskinfo_def
    by (subst take_current_task_eq)
      (simp add: c(1) tcb_update_taskinfo_def nth_opt_def upd_opt_def put_current(2) [OF assms])
qed

lemma handle_syscall_eq:
  assumes cur: "current_tcb k = Some (t, tcb)" and cx: "cx = read_trap_cx (phys (km k)) (trap_cx_ppn tcb)"
  shows "handle_syscall e time k = (if unat (cx_x cx ! 17) < length (syscall_times (task_info tcb))
    then do { (r, k) \<leftarrow> syscall_match e time (cx_x cx ! 17) (syscall_args cx) (entered t tcb cx k);
      (case r of Ret n \<Rightarrow> store_result n k | Switched \<Rightarrow> Some k) } else None)"
proof -
  let ?k = "set_phys (write_trap_cx (trap_cx_ppn tcb) (skip_ecall cx) (phys (km k))) k"
  have "current_tcb ?k = Some (t, tcb)" using cur by simp
  from update_taskinfo_eq [OF this] show ?thesis
    using cur by (simp add: handle_syscall_def current_trap_cx_def set_trap_cx_def cx syscall_def entered_def)
qed

section \<open>Calls that leave the memory alone\<close>

text \<open>
  After such a call the memory is the same, and the same task runs in the same address space
  with the same place for its trap context.
\<close>

definition quiet :: "'s kernel \<Rightarrow> 's kernel \<Rightarrow> bool" where
  "quiet k k' \<longleftrightarrow> km k' = km k \<and> (\<forall>t tcb. current_tcb k = Some (t, tcb) \<longrightarrow>
     (\<exists>tcb'. current_tcb k' = Some (t, tcb') \<and> trap_cx_ppn tcb' = trap_cx_ppn tcb \<and> memory_set tcb' = memory_set tcb))"

lemma quiet_refl [simp]: "quiet k k"
  by (simp add: quiet_def)

lemma quiet_trans: "quiet k k1 \<Longrightarrow> quiet k1 k2 \<Longrightarrow> quiet k k2"
  unfolding quiet_def by metis

lemma quiet_fields [simp]:
  "quiet k (k\<lparr>fs := s\<rparr>)" "quiet k (k\<lparr>open_files := fl\<rparr>)" "quiet k (k\<lparr>console_out := out\<rparr>)"
  "quiet k (k\<lparr>open_files := fl, fs := s\<rparr>)" "quiet k (k\<lparr>fs := s, open_files := fl\<rparr>)" "quiet k (k\<lparr>console_out := out, fs := s\<rparr>)"
  by (simp_all add: quiet_def current_tcb_def current_task_def get_tcb_def)

lemma quiet_put:
  assumes "current_tcb k = Some (t, tcb)" "trap_cx_ppn tcb' = trap_cx_ppn tcb" "memory_set tcb' = memory_set tcb"
  shows "quiet k (put_tcb t tcb' k)"
  using assms put_current(1) [OF assms(1), of tcb'] by (auto simp: quiet_def) (simp add: put_tcb_def)

lemma alloc_fd_keeps:
  assumes "alloc_fd tcb = (fd, tcb')"
  shows "trap_cx_ppn tcb' = trap_cx_ppn tcb" "memory_set tcb' = memory_set tcb"
  using assms by (auto simp: alloc_fd_def split: option.splits)

lemma sys_open_quiet:
  assumes run: "sys_open e path flags k = Some (r, k')" and cur: "current_tcb k = Some (t, tcb)"
  shows "quiet k k' \<and> (\<exists>n. r = Ret n)"
proof -
  note c = current_tcbD [OF cur]
  have "quiet k (put_tcb t (tcb'\<lparr>fd_table := fds\<rparr>) (k\<lparr>fs := s, open_files := fl\<rparr>))" if "alloc_fd tcb = (fd, tcb')" for s fl fd tcb' fds
  proof (rule quiet_trans)
    show "quiet k (k\<lparr>fs := s, open_files := fl\<rparr>)" by simp
    have "current_tcb (k\<lparr>fs := s, open_files := fl\<rparr>) = Some (t, tcb)"
      using cur by (simp add: current_tcb_def current_task_def get_tcb_def)
    then show "quiet (k\<lparr>fs := s, open_files := fl\<rparr>) (put_tcb t (tcb'\<lparr>fd_table := fds\<rparr>) (k\<lparr>fs := s, open_files := fl\<rparr>))"
      by (rule quiet_put) (simp_all add: alloc_fd_keeps [OF that])
  qed
  moreover have "get_tcb (k\<lparr>fs := s\<rparr>) t = Some tcb" for s using c(2) by (simp add: get_tcb_def)
  ultimately show ?thesis
    using run c(1) by (auto simp: sys_open_def Let_def split: bind_splits option.splits prod.splits)
qed

lemma sys_write_quiet: "sys_write e fd buf len k = Some (r, k') \<Longrightarrow> quiet k k' \<and> (\<exists>n. r = Ret n)"
  by (auto simp: sys_write_def dyn_write_def Let_def split: bind_splits option.splits if_splits fd_file.splits prod.splits)

lemma sys_close_quiet:
  "sys_close fd k = Some (r, k') \<Longrightarrow> quiet k k' \<and> (\<exists>n. r = Ret n)"
  by (auto simp: sys_close_def split: bind_splits if_splits) (rule quiet_put, simp_all)

lemma sys_linkat_quiet: "sys_linkat e p q k = Some (r, k') \<Longrightarrow> quiet k k' \<and> (\<exists>n. r = Ret n)"
  by (auto simp: sys_linkat_def Let_def split: bind_splits if_splits)

lemma sys_unlinkat_quiet: "sys_unlinkat e p k = Some (r, k') \<Longrightarrow> quiet k k' \<and> (\<exists>n. r = Ret n)"
  by (auto simp: sys_unlinkat_def Let_def split: bind_splits if_splits option.splits)

lemma sys_getpid_quiet: "sys_getpid k = Some (r, k') \<Longrightarrow> quiet k k' \<and> (\<exists>n. r = Ret n)"
  by (auto simp: sys_getpid_def split: bind_splits)

lemma sys_set_priority_quiet:
  assumes run: "sys_set_priority prio k = Some (r, k')" and cur: "current_tcb k = Some (t, tcb)"
  shows "quiet k k' \<and> (\<exists>n. r = Ret n)"
proof (cases "prio < 2")
  case False
  note c = current_tcbD [OF cur]
  have "get_tcb (snd (take_current_task k)) t = Some tcb" using c(2) by (simp add: get_tcb_taken)
  then have "k' = put_tcb t (tcb\<lparr>pro_lev := word_of_int prio\<rparr>) k" "r = Ret prio"
    using run False unfolding sys_set_priority_def
    by (subst (asm) take_current_task_eq, simp add: c(1) put_current(2) [OF cur])+
  then show ?thesis using quiet_put [OF cur] by simp
qed (use run in \<open>auto simp: sys_set_priority_def\<close>)

text \<open>An \<^verbatim>\<open>exec\<close> of a file that does not exist.\<close>

lemma sys_exec_quiet: "sys_exec e path k = Some (Ret (-1), k') \<Longrightarrow> quiet k k'"
  by (auto simp: sys_exec_def Let_def split: bind_splits option.splits)

definition quiet_calls :: "usize set" where
  "quiet_calls = {SYSCALL_UNLINKAT, SYSCALL_LINKAT, SYSCALL_OPEN, SYSCALL_CLOSE, SYSCALL_WRITE, SYSCALL_SET_PRIORITY, SYSCALL_GETPID}"

lemma quiet_call:
  assumes run: "syscall_match e time i args k = Some (r, k')" and cur: "current_tcb k = Some (t, tcb)"
    and i: "i \<in> quiet_calls \<or> i = SYSCALL_EXEC \<and> r = Ret (-1)"
  shows "quiet k k' \<and> (\<exists>n. r = Ret n)"
  using run i sys_open_quiet [OF _ cur] sys_set_priority_quiet [OF _ cur]
  by (auto simp: syscall_match_def quiet_calls_def syscall_ids
      dest!: sys_write_quiet sys_close_quiet sys_linkat_quiet sys_unlinkat_quiet sys_getpid_quiet sys_exec_quiet)

section \<open>Returning to the user\<close>

lemma entered_current:
  assumes cur: "current_tcb k = Some (t, tcb)"
  shows "current_tcb (entered t tcb cx k) = Some (t, counted (cx_x cx ! 17) tcb)"
  unfolding entered_def by (rule put_current(1)) (simp add: cur)

text \<open>What the trap handler does after a quiet call that returns a value.\<close>

lemma quiet_return:
  fixes k :: "'s kernel"
  assumes cur: "current_tcb k = Some (t, tcb)" and p: "ppn_ok (trap_cx_ppn tcb)"
    and cx: "cx = read_trap_cx (phys (km k)) (trap_cx_ppn tcb)" and q: "quiet (entered t tcb cx k) k1"
  obtains k' tcb' where "store_result n k1 = Some k'" and "current_tcb k' = Some (t, tcb')" and "trap_cx_ppn tcb' = trap_cx_ppn tcb"
    and "memory_set tcb' = memory_set tcb"
    and "read_trap_cx (phys (km k')) (trap_cx_ppn tcb) = (skip_ecall cx)\<lparr>cx_x := (cx_x cx)[10 := word_of_int n]\<rparr>"
    and "\<forall>q. ppn_ok q \<longrightarrow> q \<noteq> trap_cx_ppn tcb \<longrightarrow> same_page (phys (km k)) (phys (km k')) q"
proof -
  let ?p = "trap_cx_ppn tcb" and ?in = "entered t tcb cx k"
  have ok: "cx_ok (skip_ecall cx)" "length (cx_x cx) = 32" using cx by simp_all
  obtain tcb' where t: "current_tcb k1 = Some (t, tcb')" "trap_cx_ppn tcb' = ?p" "memory_set tcb' = memory_set tcb"
    using q entered_current [OF cur, of cx] by (auto simp: quiet_def)
  have m: "phys (km k1) = write_trap_cx ?p (skip_ecall cx) (phys (km k))"
    using q by (simp add: quiet_def entered_def put_tcb_def set_phys_def)
  have r1: "read_trap_cx (phys (km k1)) ?p = skip_ecall cx" unfolding m by (rule read_write_trap_cx [OF p ok(1)])
  let ?cx = "(skip_ecall cx)\<lparr>cx_x := (cx_x cx)[10 := word_of_int n]\<rparr>"
  have cok: "cx_ok ?cx" using ok by simp
  let ?k = "set_phys (write_trap_cx ?p ?cx (phys (km k1))) k1"
  have run: "store_result n k1 = Some ?k" using t r1 by (simp add: store_result_def current_trap_cx_def set_trap_cx_def)
  have pk: "phys (km ?k) = write_trap_cx ?p ?cx (phys (km k1))" by (simp add: set_phys_def)
  have "same_page (phys (km k)) (phys (km ?k)) q" if "ppn_ok q" "q \<noteq> ?p" for q
  proof (rule same_page_trans)
    show "same_page (phys (km k)) (phys (km k1)) q"
      unfolding m by (rule write_trap_cx_other [OF p that(1) _ ok(1)]) (use that(2) in auto)
    show "same_page (phys (km k1)) (phys (km ?k)) q"
      unfolding pk by (rule write_trap_cx_other [OF p that(1) _ cok]) (use that(2) in auto)
  qed
  then have same: "\<forall>q. ppn_ok q \<longrightarrow> q \<noteq> ?p \<longrightarrow> same_page (phys (km k)) (phys (km ?k)) q" by blast
  have cur': "current_tcb ?k = Some (t, tcb')" using t(1) by simp
  have rd: "read_trap_cx (phys (km ?k)) ?p = ?cx" unfolding pk by (rule read_write_trap_cx [OF p cok])
  show ?thesis by (rule that [OF run cur' t(2,3) rd same])
qed

text \<open>
  C18 (functional). Of the calls \<^verbatim>\<open>unlinkat\<close>, \<^verbatim>\<open>linkat\<close>, \<^verbatim>\<open>open\<close>, \<^verbatim>\<open>close\<close>, \<^verbatim>\<open>write\<close>, \<^verbatim>\<open>set_priority\<close> and \<^verbatim>\<open>getpid\<close>, and of
  an \<^verbatim>\<open>exec\<close> that fails with \<open>-1\<close>, the trap handler panics exactly if the handler of the call does.
  Otherwise it continues the caller, in the same address space, after its \<^verbatim>\<open>ecall\<close> with
  the result in a0 and every other register as before the trap; no byte of memory changes
  outside the page of the trap context.
\<close>

theorem syscall_frame:
  fixes k :: "'s kernel" and e :: "'s kernel_env"
  assumes cur: "current_tcb k = Some (t, tcb)" and p: "ppn_ok (trap_cx_ppn tcb)"
    and cx: "cx = read_trap_cx (phys (km k)) (trap_cx_ppn tcb)"
    and times: "length (syscall_times (task_info tcb)) = MAX_SYSCALL_NUM"
    and call: "cx_x cx ! 17 \<in> insert SYSCALL_EXEC quiet_calls"
  shows "case syscall_match e time (cx_x cx ! 17) (syscall_args cx) (entered t tcb cx k) of
      None \<Rightarrow> trap_handler e time UserEnvCall k = None
    | Some (r, k1) \<Rightarrow> (cx_x cx ! 17 = SYSCALL_EXEC \<longrightarrow> r = Ret (-1)) \<longrightarrow>
       (\<exists>n k' tcb'. r = Ret n \<and> trap_handler e time UserEnvCall k = Some k' \<and>
         current_tcb k' = Some (t, tcb') \<and> trap_cx_ppn tcb' = trap_cx_ppn tcb \<and> memory_set tcb' = memory_set tcb \<and>
         read_trap_cx (phys (km k')) (trap_cx_ppn tcb) = cx\<lparr>cx_sepc := cx_sepc cx + 4, cx_x := (cx_x cx)[10 := word_of_int n]\<rparr> \<and>
         (\<forall>q. ppn_ok q \<longrightarrow> q \<noteq> trap_cx_ppn tcb \<longrightarrow> same_page (phys (km k)) (phys (km k')) q))"
proof -
  let ?i = "cx_x cx ! 17"
  have "unat ?i < length (syscall_times (task_info tcb))"
    using call times by (auto simp: quiet_calls_def syscall_ids MAX_SYSCALL_NUM_def)
  then have h: "trap_handler e time UserEnvCall k =
      do { (r, k) \<leftarrow> syscall_match e time ?i (syscall_args cx) (entered t tcb cx k);
        (case r of Ret n \<Rightarrow> store_result n k | Switched \<Rightarrow> Some k) }"
    using handle_syscall_eq [OF cur cx] by (simp add: trap_handler_def)
  show ?thesis
  proof (cases "syscall_match e time ?i (syscall_args cx) (entered t tcb cx k)")
    case None
    then show ?thesis using h by simp
  next
    case (Some x)
    obtain r k1 where x: "x = (r, k1)" by (cases x)
    show ?thesis
    proof (cases "?i = SYSCALL_EXEC \<and> r \<noteq> Ret (-1)")
      case False
      then have i: "?i \<in> quiet_calls \<or> ?i = SYSCALL_EXEC \<and> r = Ret (-1)" using call by blast
      from quiet_call [OF Some [unfolded x] entered_current [OF cur] i] obtain n where n: "r = Ret n" "quiet (entered t tcb cx k) k1" by blast
      from cur p cx n(2) obtain k' tcb' where q: "store_result n k1 = Some k'" "current_tcb k' = Some (t, tcb')"
          "trap_cx_ppn tcb' = trap_cx_ppn tcb" "memory_set tcb' = memory_set tcb"
          "read_trap_cx (phys (km k')) (trap_cx_ppn tcb) = (skip_ecall cx)\<lparr>cx_x := (cx_x cx)[10 := word_of_int n]\<rparr>"
          "\<forall>q. ppn_ok q \<longrightarrow> q \<noteq> trap_cx_ppn tcb \<longrightarrow> same_page (phys (km k)) (phys (km k')) q"
        by (rule quiet_return)
      have "trap_handler e time UserEnvCall k = Some k'" using h Some x n(1) q(1) by simp
      then show ?thesis using Some x n(1) q(2-6) by auto
    qed (unfold Some x, simp)
  qed
qed

definition getpid_cx :: TrapContext where
  "getpid_cx = TrapContext_of_words ((replicate 37 0)[17 := 172])"

definition calling :: "TrapContext \<Rightarrow> unit kernel" where
  "calling cx = example_kernel \<lparr>phys = write_trap_cx (PhysPageNum 5) cx (\<lambda>_. 0),
     frame_allocator = \<lparr>sfa_current = 16, sfa_end = 80, sfa_recycled = []\<rparr>\<rparr> (PhysPageNum 5) \<lparr>page_table = \<lparr>root_ppn = PhysPageNum 6, pt_frames = []\<rparr>,
     areas = []\<rparr> (OSInode_new True True \<lparr>vi_block_id = 0, vi_block_offset = 0\<rparr>) ()"

lemma calling_cx:
  assumes "cx_ok cx"
  shows "current_tcb (calling cx) = Some (1, example_tcb (PhysPageNum 5) \<lparr>page_table = \<lparr>root_ppn = PhysPageNum 6, pt_frames = []\<rparr>, areas = []\<rparr>)"
    and "read_trap_cx (phys (km (calling cx))) (PhysPageNum 5) = cx"
  using read_write_trap_cx [OF _ assms, of "PhysPageNum 5"] by (simp_all add: calling_def ppn_ok_def)

theorem syscall_frame_witness:
  "\<exists>(e :: unit kernel_env) k'. trap_handler e 0 UserEnvCall (calling getpid_cx) = Some k' \<and>
     read_trap_cx (phys (km k')) (PhysPageNum 5) = (skip_ecall getpid_cx)\<lparr>cx_x := (cx_x getpid_cx)[10 := 1]\<rparr>"
proof -
  fix e :: "unit kernel_env"
  have ok: "cx_ok getpid_cx" "cx_x getpid_cx ! 17 = 172"
    by (simp_all add: getpid_cx_def cx_ok_def TrapContext_of_words_def)
  note c = calling_cx [OF ok(1)]
  let ?tcb = "example_tcb (PhysPageNum 5) \<lparr>page_table = \<lparr>root_ppn = PhysPageNum 6, pt_frames = []\<rparr>, areas = []\<rparr>"
  have tl: "length (syscall_times (task_info ?tcb)) = 500" "trap_cx_ppn ?tcb = PhysPageNum 5" "pid (tcb_pid ?tcb) = 1"
    by (simp_all add: example_tcb_def TaskInfo_new_def MAX_SYSCALL_NUM_def)
  let ?in = "entered 1 ?tcb getpid_cx (calling getpid_cx)"
  have cin: "current_tcb ?in = Some (1, counted 172 ?tcb)"
    unfolding entered_def ok(2) by (rule put_current(1)) (simp add: c(1))
  have run: "syscall_match e 0 172 (syscall_args getpid_cx) ?in = Some (Ret 1, ?in)"
    using cin tl(3) by (simp add: syscall_match_def syscall_ids sys_getpid_def)
  have h: "ppn_ok (trap_cx_ppn ?tcb)" "getpid_cx = read_trap_cx (phys (km (calling getpid_cx))) (trap_cx_ppn ?tcb)"
    "length (syscall_times (task_info ?tcb)) = MAX_SYSCALL_NUM" "cx_x getpid_cx ! 17 \<in> insert SYSCALL_EXEC quiet_calls"
    using c(2) ok(2) tl by (simp_all add: ppn_ok_def MAX_SYSCALL_NUM_def quiet_calls_def syscall_ids)
  have "172 \<noteq> SYSCALL_EXEC" by (simp add: syscall_ids)
  then show ?thesis using syscall_frame [OF c(1) h, where e = e and time = 0] unfolding ok(2) run tl(2) by auto
qed

text \<open>
  A system call with a number that the kernel does not know, whether or not it fits
  the table of counters, panics the kernel.
\<close>

lemma unknown_syscall_panics:
  assumes cur: "current_tcb k = Some (t, tcb)" and cx: "cx = read_trap_cx (phys (km k)) (trap_cx_ppn tcb)"
    and id: "cx_x cx ! 17 \<notin> {35, 37, 56, 57, 63, 64, 80, 93, 124, 140, 169, 172, 214, 215, 220, 221, 222, 260, 400, 410}"
  shows "trap_handler e time UserEnvCall k = None"
  using id by (simp add: trap_handler_def handle_syscall_eq [OF cur cx] syscall_match_def syscall_ids)

end
