(* ===== verification/SchedSpec.thy ===== *)
theory SchedSpec
  imports SchedInv
begin

text \<open>
  What the scheduler guarantees: no task is lost or run twice, and under the timer every
  ready task gets the processor in the order of the queue.
\<close>

section \<open>The first state\<close>

lemma TaskControlBlock_new_sched:
  assumes "TaskControlBlock_new e time elf k = Some (tcb, k')"
  shows "same_sched k k'" and "task_status tcb = Ready"
proof -
  obtain m a ks k1 m' where n: "kstack_alloc (k\<lparr>km := m, pid_allocator := a\<rparr>) = Some (ks, k1)" "k' = set_phys m' k1"
      "task_status tcb = Ready"
    using assms unfolding TaskControlBlock_new_def by (auto simp: Let_def split: bind_splits prod.splits)
  show "same_sched k k'"
    unfolding n(2) using same_sched_trans [OF _ kstack_alloc_sched(1) [OF n(1)], of k] by simp
  show "task_status tcb = Ready" by fact
qed

lemma boot_inv:
  assumes "add_initproc e time k = Some k'" and "tcbs k = []" and "ready_queue (task_manager k) = []"
    and "current_task k = None" and "initproc k = None"
  shows "sched_inv k'" and "current_task k' = None"
proof -
  obtain s v tcb k1 i k2 where b: "TaskControlBlock_new e time v (k\<lparr>fs := s\<rparr>) = Some (tcb, k1)" "Arc_new tcb k1 = (i, k2)"
      "k' = add_task i (k2\<lparr>initproc := Some i\<rparr>)"
    using assms(1,5) unfolding add_initproc_def INITPROC_def
    by (auto simp: Let_def split: bind_splits prod.splits)
  have "same_sched k k1" using TaskControlBlock_new_sched(1) [OF b(1)] by (auto intro: same_sched_trans [rotated])
  then have "born i k k2"
    using born_same [OF _ Arc_new_born(1) [OF b(2) TaskControlBlock_new_sched(2) [OF b(1)]] same_sched_refl] by blast
  moreover have "status k = Map.empty" using assms(2) by (simp add: status_def fun_eq_iff get_tcb_def)
  moreover have "status (k2\<lparr>initproc := Some i\<rparr>) = status k2" "current_task (k2\<lparr>initproc := Some i\<rparr>) = current_task k2"
    by (simp_all add: status_def [abs_def] current_task_def)
  ultimately show "sched_inv k'" "current_task k' = None"
    using assms(3,4) unfolding b(3) by (auto simp: sched_inv_def born_def)
qed

lemma count_list_distinct: "distinct xs \<Longrightarrow> count_list xs x = (if x \<in> set xs then 1 else 0)"
  by (induction xs) (auto simp: count_list_0_iff)

section \<open>Accounting of tasks\<close>

lemma example_sched_inv: "sched_inv (example_kernel m p ms f s)"
proof -
  have "status (example_kernel m p ms f s) = [0 \<mapsto> Ready, 1 \<mapsto> Running]"
    by (auto simp: status_def fun_eq_iff get_tcb_def example_kernel_def example_tcb_def less_Suc_eq nth_Cons')
  then show ?thesis by (auto simp: sched_inv_def example_kernel_def current_task_def split: if_splits)
qed

text \<open>
  C13 (invariant). Whatever the tasks do, in every state the kernel reaches no ready task is lost
  or queued twice: the queue holds each task whose status is ready exactly once and no
  other, the task whose status is running is the current one and is not queued, and the
  initial process exists.
\<close>

theorem tasks_accounted:
  assumes inv: "sched_inv k" and steps: "(kstep e)\<^sup>*\<^sup>* k k'" and t: "get_tcb k' t = Some tcb"
  shows "count_list (ready_queue (task_manager k')) t = (if task_status tcb = Ready then 1 else 0) \<and>
    (task_status tcb = Running \<longleftrightarrow> current_task k' = Some t) \<and> (\<exists>i. initproc k' = Some i \<and> get_tcb k' i \<noteq> None)"
proof -
  have i: "sched_inv k'" using ksteps_inv [OF steps inv] .
  have st: "status k' t = Some (task_status tcb)" using t by (simp add: status_def)
  have q: "distinct (ready_queue (task_manager k'))" "set (ready_queue (task_manager k')) = {u. status k' u = Some Ready}"
      "{u. status k' u = Some Running} = set_option (current_task k')" "\<exists>i. initproc k' = Some i \<and> status k' i \<noteq> None"
    using i by (simp_all add: sched_inv_def)
  have "count_list (ready_queue (task_manager k')) t = (if t \<in> set (ready_queue (task_manager k')) then 1 else 0)"
    using q(1) by (rule count_list_distinct)
  moreover have "t \<in> {u. status k' u = Some Running} \<longleftrightarrow> t \<in> set_option (current_task k')" unfolding q(3) ..
  ultimately show ?thesis using q(2,4) st by (auto simp: status_def)
qed

lemma timer_interrupt:
  assumes "current_task k = Some t" and "get_tcb k t = Some tcb"
  obtains k' where "trap_handler e time SupervisorTimer k = Some k'" and "current_task k' = None"
    and "ready_queue (task_manager k') = ready_queue (task_manager k) @ [t]"
    and "get_tcb k' = (get_tcb k)(t \<mapsto> tcb\<lparr>task_status := Ready, tcb_kont := TrapReturn\<rparr>)"
proof -
  have len: "t < length (tcbs k)" using assms(2) by (rule get_tcb_length)
  let ?k = "snd (take_current_task k)" and ?tcb = "tcb\<lparr>task_status := Ready, tcb_kont := TrapReturn\<rparr>"
  have "trap_handler e time SupervisorTimer k = Some (add_task t (put_tcb t ?tcb ?k))"
    unfolding trap_handler_def suspend_current_and_run_next_def
    by (subst take_current_task_eq) (use assms in \<open>simp add: get_tcb_taken\<close>)
  moreover have "get_tcb (put_tcb t ?tcb ?k) = (get_tcb k)(t \<mapsto> ?tcb)"
    using len by (auto simp: fun_eq_iff get_tcb_def put_tcb_def take_current_task_def nth_list_update)
  moreover have "current_task ?k = None" by (simp add: take_current_task_def current_task_def)
  ultimately show ?thesis using that by simp
qed

text \<open>The running system after a timer interrupt.\<close>

lemma example_preempted:
  obtains k where "trap_handler e time SupervisorTimer (example_kernel m p ms f s) = Some k" and "current_task k = None"
    and "ready_queue (task_manager k) = [0, 1]" and "get_tcb k 1 = Some ((example_tcb p ms)\<lparr>task_status := Ready\<rparr>)"
    and "get_tcb k 0 = get_tcb (example_kernel m p ms f s) 0"
proof -
  note cur = current_tcbD [OF example_current [of m p ms f s]]
  from cur obtain k where "trap_handler e time SupervisorTimer (example_kernel m p ms f s) = Some k"
      "current_task k = None" "ready_queue (task_manager k) = ready_queue (task_manager (example_kernel m p ms f s)) @ [1]"
      "get_tcb k = (get_tcb (example_kernel m p ms f s))(1 \<mapsto> (example_tcb p ms)\<lparr>task_status := Ready, tcb_kont := TrapReturn\<rparr>)"
    by (rule timer_interrupt)
  then show ?thesis using that by (simp add: example_kernel_def example_tcb_def)
qed

theorem tasks_accounted_witness:
  "\<exists>(e :: unit kernel_env) k k' tcb. (kstep e)\<^sup>*\<^sup>* k k' \<and> sched_inv k \<and> get_tcb k' 1 = Some tcb \<and> current_task k' \<noteq> Some 1 \<and>
     count_list (ready_queue (task_manager k')) 1 = 1"
proof -
  fix e :: "unit kernel_env" and m p ms f
  let ?k = "example_kernel m p ms f ()"
  obtain k' where k': "trap_handler e 0 SupervisorTimer ?k = Some k'"
      "get_tcb k' 1 = Some ((example_tcb p ms)\<lparr>task_status := Ready\<rparr>)" by (rule example_preempted)
  have "current_task ?k \<noteq> None" using current_tcbD(1) [OF example_current [of m p ms f "()"]] by simp
  then have st: "(kstep e)\<^sup>*\<^sup>* ?k k'" using kstep.trap [OF _ k'(1)] by blast
  from tasks_accounted [OF example_sched_inv st k'(2)] st k'(2) show ?thesis
    using example_sched_inv [of m p ms f "()"] by (intro exI [of _ e] exI [of _ ?k] exI [of _ k']) simp
qed

section \<open>Round robin\<close>

text \<open>The next task runs until the timer interrupts it.\<close>

definition time_slice :: "'s kernel_env \<Rightarrow> usize \<Rightarrow> 's kernel \<Rightarrow> 's kernel option" where
  "time_slice e time k = do { k \<leftarrow> run_tasks_iter k; trap_handler e time SupervisorTimer k }"

fun time_slices :: "'s kernel_env \<Rightarrow> usize \<Rightarrow> nat \<Rightarrow> 's kernel \<Rightarrow> 's kernel option" where
  "time_slices e time 0 k = Some k"
| "time_slices e time (Suc n) k = do { k \<leftarrow> time_slice e time k; time_slices e time n k }"

text \<open>No task of the queue waits for the console.\<close>

definition all_runnable :: "'s kernel \<Rightarrow> bool" where
  "all_runnable k \<longleftrightarrow> (\<forall>t \<in> set (ready_queue (task_manager k)). \<exists>tcb. get_tcb k t = Some tcb \<and>
     (\<forall>b. tcb_kont tcb \<noteq> StdinRetry b))"

lemma store_result_Some:
  assumes "current_tcb k = Some (t, tcb)"
  shows "\<exists>m. store_result r k = Some (set_phys m k)"
  using assms by (auto simp: store_result_def current_trap_cx_def set_trap_cx_def)

lemma run_next:
  assumes q: "ready_queue (task_manager k) = t # ts" and r: "all_runnable k"
  obtains k' tcb where "run_tasks_iter k = Some k'" and "current_task k' = Some t" and "ready_queue (task_manager k') = ts"
    and "get_tcb k' = (get_tcb k)(t \<mapsto> tcb)" and "tcb_kont tcb = TrapReturn"
proof -
  obtain tcb where tcb: "get_tcb k t = Some tcb" "\<And>b. tcb_kont tcb \<noteq> StdinRetry b"
    using r q by (auto simp: all_runnable_def)
  let ?k0 = "k\<lparr>task_manager := (task_manager k)\<lparr>ready_queue := ts\<rparr>\<rparr>"
  let ?k1 = "set_current t (put_tcb t (tcb\<lparr>task_status := Running\<rparr>) ?k0)"
  let ?tcb = "tcb\<lparr>task_status := Running, tcb_kont := TrapReturn\<rparr>"
  let ?k2 = "put_tcb t ?tcb ?k1"
  have len: "t < length (tcbs k)" using tcb(1) by (rule get_tcb_length)
  have cur: "current_tcb ?k1 = Some (t, tcb\<lparr>task_status := Running\<rparr>)" "current_tcb ?k2 = Some (t, ?tcb)"
    using len by (simp_all add: current_tcb_def current_task_def set_current_def put_tcb_def get_tcb_def)
  have "run_tasks_iter k = resume ?k1"
    using q tcb(1) by (simp add: run_tasks_iter_def fetch_task_def TaskManager_fetch_def)
  moreover have "\<exists>m. resume ?k1 = Some (set_phys m ?k2) \<or> resume ?k1 = Some ?k2"
    using store_result_Some [OF cur(2)] cur(1) tcb(2) by (auto simp: resume_def Let_def split: kont.splits)
  moreover have "get_tcb ?k2 = (get_tcb k)(t \<mapsto> ?tcb)"
    using len by (auto simp: fun_eq_iff get_tcb_def put_tcb_def set_current_def nth_list_update)
  ultimately show ?thesis using that [of _ ?tcb] by (auto simp: current_task_def set_phys_def set_current_def put_tcb_def)
qed

lemma time_slice_rotates:
  assumes q: "ready_queue (task_manager k) = t # ts" and r: "all_runnable k"
  obtains k' where "time_slice e time k = Some k'" and "ready_queue (task_manager k') = ts @ [t]" and "all_runnable k'"
proof -
  from assms obtain k1 tcb where k1: "run_tasks_iter k = Some k1" "current_task k1 = Some t" "ready_queue (task_manager k1) = ts"
      "get_tcb k1 = (get_tcb k)(t \<mapsto> tcb)" "tcb_kont tcb = TrapReturn" by (rule run_next)
  have g: "get_tcb k1 t = Some tcb" using k1(4) by simp
  from k1(2) g obtain k2 where k2: "trap_handler e time SupervisorTimer k1 = Some k2" "current_task k2 = None"
      "ready_queue (task_manager k2) = ready_queue (task_manager k1) @ [t]"
      "get_tcb k2 = (get_tcb k1)(t \<mapsto> tcb\<lparr>task_status := Ready, tcb_kont := TrapReturn\<rparr>)" by (rule timer_interrupt)
  have "all_runnable k2" using r q k1(3,4) k2(3,4) by (auto simp: all_runnable_def)
  moreover have "time_slice e time k = Some k2" using k1(1) k2(1) by (simp add: time_slice_def)
  ultimately show ?thesis using that k2(3) k1(3) by simp
qed

lemma time_slices_rotate:
  assumes "n \<le> length (ready_queue (task_manager k))" and "all_runnable k"
  obtains k' where "time_slices e time n k = Some k'" and "all_runnable k'"
    and "ready_queue (task_manager k') = drop n (ready_queue (task_manager k)) @ take n (ready_queue (task_manager k))"
  using assms
proof (induction n arbitrary: k thesis)
  case 0
  then show ?case by simp
next
  case (Suc n)
  obtain t ts where q: "ready_queue (task_manager k) = t # ts"
    using Suc.prems(2) by (cases "ready_queue (task_manager k)") auto
  from q Suc.prems(3) obtain k1 where k1: "time_slice e time k = Some k1" "ready_queue (task_manager k1) = ts @ [t]"
      "all_runnable k1" by (rule time_slice_rotates)
  have len: "n \<le> length (ready_queue (task_manager k1))" using Suc.prems(2) q k1(2) by simp
  obtain k' where k': "time_slices e time n k1 = Some k'" "all_runnable k'"
      "ready_queue (task_manager k') = drop n (ready_queue (task_manager k1)) @ take n (ready_queue (task_manager k1))"
    using Suc.IH [OF _ len k1(3)] by blast
  show ?case
    by (rule Suc.prems(1) [of k']) (use k' k1 q Suc.prems(2) in simp_all)
qed

text \<open>
  C16 (liveness). Under timer interrupts alone the ready tasks run in the order of the queue: the
  task at position \<open>n\<close> runs after \<open>n\<close> slices, so none starves, and a full round leaves the
  queue as it was.
\<close>

theorem round_robin:
  assumes r: "all_runnable k" and n: "n < length (ready_queue (task_manager k))"
  shows "\<exists>k1 k2 k3. time_slices e time n k = Some k1 \<and> run_tasks_iter k1 = Some k2 \<and>
    current_task k2 = Some (ready_queue (task_manager k) ! n) \<and>
    time_slices e time (length (ready_queue (task_manager k))) k = Some k3 \<and>
    ready_queue (task_manager k3) = ready_queue (task_manager k)"
proof -
  from n have "n \<le> length (ready_queue (task_manager k))" by simp
  from this r obtain k1 where k1: "time_slices e time n k = Some k1" "all_runnable k1"
      "ready_queue (task_manager k1) = drop n (ready_queue (task_manager k)) @ take n (ready_queue (task_manager k))"
    by (rule time_slices_rotate)
  obtain ts where q: "ready_queue (task_manager k1) = (ready_queue (task_manager k) ! n) # ts"
    using k1(3) n by (simp add: Cons_nth_drop_Suc [symmetric])
  from q k1(2) obtain k2 where "run_tasks_iter k1 = Some k2" "current_task k2 = Some (ready_queue (task_manager k) ! n)"
    by (rule run_next)
  moreover from order_refl r obtain k3 where "time_slices e time (length (ready_queue (task_manager k))) k = Some k3"
      "ready_queue (task_manager k3) = drop (length (ready_queue (task_manager k))) (ready_queue (task_manager k)) @
        take (length (ready_queue (task_manager k))) (ready_queue (task_manager k))"
    by (rule time_slices_rotate)
  ultimately show ?thesis using k1(1) by auto
qed

theorem round_robin_witness:
  "\<exists>(e :: unit kernel_env) k k1 k2. ready_queue (task_manager k) = [0, 1] \<and> time_slices e 0 1 k = Some k1 \<and> run_tasks_iter k1 = Some k2 \<and>
     current_task k2 = Some 1"
proof -
  fix e :: "unit kernel_env" and m p ms f
  obtain k :: "unit kernel" where k: "ready_queue (task_manager k) = [0, 1]" "get_tcb k 1 = Some ((example_tcb p ms)\<lparr>task_status := Ready\<rparr>)"
      "get_tcb k 0 = get_tcb (example_kernel m p ms f ()) 0"
    by (rule example_preempted [of e 0 m p ms f "()"]) blast
  then have "all_runnable k" by (auto simp: all_runnable_def example_kernel_def example_tcb_def get_tcb_def)
  then show ?thesis using round_robin [of k 1 e 0] k(1) by (auto simp del: One_nat_def time_slices.simps)
qed

end
