(* ===== verification/TypeInv.thy ===== *)
theory TypeInv
  imports SchedSpec
begin

text \<open>
  The types of the references that the kernel holds. \<open>types_ok\<close> says that a descriptor table
  refers to open files only, that the children of a task, the ready queue, the processor and
  the initial process refer to tasks that are still allocated, and that the table of system
  call counters keeps its length. Every system call, trap and turn of the scheduling loop
  keeps it, the release of tasks by reference counting included.
\<close>

section \<open>Well-typed states\<close>

definition live :: "'s kernel \<Rightarrow> nat set" where
  "live k = {t. get_tcb k t \<noteq> None}"

fun fd_ok :: "nat \<Rightarrow> fd_file option \<Rightarrow> bool" where
  "fd_ok n (Some (OSFile i)) = (i < n)"
| "fd_ok n f = True"

definition tcb_ok :: "nat \<Rightarrow> nat set \<Rightarrow> TaskControlBlock \<Rightarrow> bool" where
  "tcb_ok n L tcb \<longleftrightarrow> length (syscall_times (task_info tcb)) = MAX_SYSCALL_NUM \<and>
     (\<forall>f \<in> set (fd_table tcb). fd_ok n f) \<and> set (children tcb) \<subseteq> L"

definition roots :: "'s kernel \<Rightarrow> nat set" where
  "roots k = set (ready_queue (task_manager k)) \<union> set_option (current (processor k)) \<union> set_option (initproc k)"

definition types_ok :: "'s kernel \<Rightarrow> bool" where
  "types_ok k \<longleftrightarrow> (\<forall>tcb. Some tcb \<in> set (tcbs k) \<longrightarrow> tcb_ok (length (open_files k)) (live k) tcb) \<and> roots k \<subseteq> live k"

lemma fd_ok_mono: "fd_ok n f \<Longrightarrow> n \<le> m \<Longrightarrow> fd_ok m f"
  by (cases "(n, f)" rule: fd_ok.cases) auto

lemma tcb_ok_mono: "tcb_ok n L tcb \<Longrightarrow> n \<le> m \<Longrightarrow> L \<subseteq> M \<Longrightarrow> tcb_ok m M tcb"
  by (auto simp: tcb_ok_def intro: fd_ok_mono)

lemma tcb_ok_upd [simp]:
  "tcb_ok n L (tcb\<lparr>tcb_kont := c\<rparr>) = tcb_ok n L tcb" "tcb_ok n L (tcb\<lparr>task_status := s\<rparr>) = tcb_ok n L tcb"
  "tcb_ok n L (tcb\<lparr>memory_set := ms\<rparr>) = tcb_ok n L tcb" "tcb_ok n L (tcb\<lparr>parent := p\<rparr>) = tcb_ok n L tcb"
  "tcb_ok n L (tcb\<lparr>pro_lev := v\<rparr>) = tcb_ok n L tcb" "tcb_ok n L (tcb\<lparr>trap_cx_ppn := q\<rparr>) = tcb_ok n L tcb"
  "tcb_ok n L (tcb\<lparr>exit_code := x\<rparr>) = tcb_ok n L tcb" "tcb_ok n L (tcb\<lparr>program_brk := v\<rparr>) = tcb_ok n L tcb"
  by (simp_all add: tcb_ok_def)

lemma tcb_ok_children: "tcb_ok n L tcb \<Longrightarrow> set cs \<subseteq> L \<Longrightarrow> tcb_ok n L (tcb\<lparr>children := cs\<rparr>)"
  by (simp add: tcb_ok_def)

lemma live_get: "get_tcb k t = Some tcb \<Longrightarrow> t \<in> live k"
  by (simp add: live_def)

lemma live_upd [simp]:
  "live (k\<lparr>km := m\<rparr>) = live k" "live (k\<lparr>fs := s\<rparr>) = live k" "live (k\<lparr>console_out := out\<rparr>) = live k"
  "live (k\<lparr>console_in := inp\<rparr>) = live k" "live (k\<lparr>pid_allocator := a\<rparr>) = live k" "live (k\<lparr>kstack_allocator := a\<rparr>) = live k"
  "live (k\<lparr>kernel_space := ks\<rparr>) = live k" "live (k\<lparr>task_manager := tm\<rparr>) = live k" "live (k\<lparr>processor := pr\<rparr>) = live k"
  "live (k\<lparr>initproc := i\<rparr>) = live k" "live (k\<lparr>open_files := fl\<rparr>) = live k" "live (set_phys m0 k) = live k"
  "live (add_task t k) = live k" "live (snd (take_current_task k)) = live k" "live (set_current t k) = live k"
  by (simp_all add: live_def get_tcb_taken set_current_def)

lemma live_put: "live k \<subseteq> live (put_tcb t tcb k)"
proof
  fix u assume "u \<in> live k"
  then show "u \<in> live (put_tcb t tcb k)"
    by (cases "u = t") (auto simp: live_def get_tcb_def put_tcb_def split: if_splits)
qed

text \<open>Everything but the tasks, the open files and the references to tasks.\<close>

lemma types_ok_upd [simp]:
  "types_ok (k\<lparr>km := m\<rparr>) = types_ok k" "types_ok (k\<lparr>fs := s\<rparr>) = types_ok k" "types_ok (k\<lparr>console_out := out\<rparr>) = types_ok k"
  "types_ok (k\<lparr>console_in := inp\<rparr>) = types_ok k" "types_ok (k\<lparr>pid_allocator := a\<rparr>) = types_ok k"
  "types_ok (k\<lparr>kstack_allocator := a\<rparr>) = types_ok k" "types_ok (k\<lparr>kernel_space := ks\<rparr>) = types_ok k"
  "types_ok (set_phys m0 k) = types_ok k"
  by (simp_all add: types_ok_def roots_def set_phys_def)

lemma types_ok_replace [simp]: "types_ok (k\<lparr>open_files := (open_files k)[i := f]\<rparr>) = types_ok k"
  by (simp add: types_ok_def roots_def)

lemma files_put [simp]: "open_files (put_tcb t tcb k) = open_files k" "open_files (set_phys m k) = open_files k"
  "open_files (snd (take_current_task k)) = open_files k" "open_files (set_current t k) = open_files k"
  by (simp_all add: put_tcb_def set_phys_def take_current_task_def set_current_def)

lemma types_okD: "types_ok k \<Longrightarrow> get_tcb k t = Some tcb \<Longrightarrow> tcb_ok (length (open_files k)) (live k) tcb"
  by (auto simp: types_ok_def get_tcb_def split: if_splits) (metis nth_mem)

lemma types_ok_add_task: "types_ok k \<Longrightarrow> t \<in> live k \<Longrightarrow> types_ok (add_task t k)"
  by (simp add: types_ok_def roots_def) (simp add: add_task_def ready.content_add)

lemma types_ok_take: "types_ok k \<Longrightarrow> types_ok (snd (take_current_task k))"
  by (simp add: types_ok_def roots_def) (simp add: take_current_task_def)

lemma types_ok_current: "types_ok k \<Longrightarrow> t \<in> live k \<Longrightarrow> types_ok (set_current t k)"
  by (simp add: types_ok_def roots_def) (simp add: set_current_def)

lemma types_ok_put:
  assumes "types_ok k" and "tcb_ok (length (open_files k)) (live k) tcb"
  shows "types_ok (put_tcb t tcb k)"
proof -
  have "tcb_ok (length (open_files k)) (live k) x" if "Some x \<in> set (tcbs (put_tcb t tcb k))" for x
    using that assms set_update_subset_insert [of "tcbs k" t "Some tcb"] by (auto simp: put_tcb_def types_ok_def)
  then have "tcb_ok (length (open_files k)) (live (put_tcb t tcb k)) x" if "Some x \<in> set (tcbs (put_tcb t tcb k))" for x
    using that tcb_ok_mono [OF _ order_refl live_put] by blast
  moreover have "roots (put_tcb t tcb k) = roots k" by (simp add: roots_def)
  ultimately show ?thesis using assms(1) live_put [of k t tcb] by (auto simp: types_ok_def)
qed

lemma live_putI: "t \<in> live k \<Longrightarrow> t \<in> live (put_tcb u tcb k)"
  using live_put by blast

lemmas types_ok_intros = types_ok_put types_ok_add_task types_ok_current types_ok_take live_putI

lemma types_ok_Arc_new:
  assumes "Arc_new tcb k = (c, k')" and "types_ok k" and "tcb_ok (length (open_files k)) (live k) tcb"
  shows "types_ok k'" and "c \<in> live k'" and "live k \<subseteq> live k'" and "open_files k' = open_files k"
proof -
  have k': "k' = k\<lparr>tcbs := tcbs k @ [Some tcb]\<rparr>" "c = length (tcbs k)" using assms(1) by (auto simp: Arc_new_def)
  show "live k \<subseteq> live k'" unfolding k'(1) by (auto simp: live_def get_tcb_def nth_append split: if_splits)
  then show "types_ok k'" using assms(2,3) unfolding types_ok_def k'(1) roots_def by (auto intro: tcb_ok_mono)
qed (use assms(1) in \<open>auto simp: Arc_new_def live_def get_tcb_def\<close>)

section \<open>Calls that keep the tasks\<close>

lemma current_typed:
  "types_ok k \<Longrightarrow> current_tcb k = Some (t, tcb) \<Longrightarrow> tcb_ok (length (open_files k)) (live k) tcb"
  by (auto dest!: current_tcbD intro: types_okD)

lemma set_trap_cx_types: "set_trap_cx cx k = Some k' \<Longrightarrow> types_ok k \<Longrightarrow> types_ok k'"
  by (auto simp: set_trap_cx_def split: bind_splits)

lemma store_result_types: "store_result n k = Some k' \<Longrightarrow> types_ok k \<Longrightarrow> types_ok k'"
  by (auto simp: store_result_def split: bind_splits intro: set_trap_cx_types)

lemma update_taskinfo_types:
  assumes "update_taskinfo i k = Some (r, k')" and ok: "types_ok k"
  shows "types_ok k'"
proof -
  obtain t tcb tcb' where t: "get_tcb k t = Some tcb" "tcb_update_taskinfo i tcb = Some (r, tcb')"
      "k' = set_current t (put_tcb t tcb' (snd (take_current_task k)))"
    using assms by (subst (asm) update_taskinfo_def, subst (asm) take_current_task_eq)
      (auto simp: get_tcb_taken split: bind_splits)
  have "tcb_ok (length (open_files k)) (live k) tcb'" using t(2) types_okD [OF ok t(1)]
    by (auto simp: tcb_update_taskinfo_def tcb_ok_def upd_opt_def split: bind_splits if_splits)
  then show ?thesis unfolding t(3) using ok t(1) by (auto intro!: types_ok_intros intro: live_get)
qed

lemma add_maparea_types: "add_maparea a b p k = Some k' \<Longrightarrow> types_ok k \<Longrightarrow> types_ok k'"
  by (subst (asm) add_maparea_def, subst (asm) take_current_task_eq)
    (auto simp: get_tcb_taken types_okD live_get split: bind_splits intro!: types_ok_intros)

lemma remove_maparea_types: "remove_maparea a b k = Some (r, k') \<Longrightarrow> types_ok k \<Longrightarrow> types_ok k'"
  by (subst (asm) remove_maparea_def, subst (asm) take_current_task_eq)
    (auto simp: get_tcb_taken types_okD live_get split: bind_splits intro!: types_ok_intros)

lemma sys_mmap_types: "sys_mmap a len p k = Some (r, k') \<Longrightarrow> types_ok k \<Longrightarrow> types_ok k'"
  by (auto simp: sys_mmap_def Let_def split: if_splits bind_splits dest!: check_maparea_eq intro: add_maparea_types)

lemma sys_munmap_types: "sys_munmap a len k = Some (r, k') \<Longrightarrow> types_ok k \<Longrightarrow> types_ok k'"
  by (auto simp: sys_munmap_def Let_def split: if_splits bind_splits intro: remove_maparea_types)

lemma sys_set_priority_types: "sys_set_priority p k = Some (r, k') \<Longrightarrow> types_ok k \<Longrightarrow> types_ok k'"
  by (subst (asm) sys_set_priority_def, subst (asm) take_current_task_eq)
    (auto simp: get_tcb_taken types_okD live_get split: if_splits bind_splits intro!: types_ok_intros)

lemma change_program_brk_ok:
  "change_program_brk sz tcb m = Some (r, tcb', m') \<Longrightarrow> tcb_ok n L tcb \<Longrightarrow> tcb_ok n L tcb'"
  by (auto simp: change_program_brk_def Let_def split: if_splits bind_splits)

lemma sys_sbrk_types:
  assumes "sys_sbrk sz k = Some (r, k')" and ok: "types_ok k"
  shows "types_ok k'"
proof -
  obtain t tcb x tcb' m where t: "current_tcb k = Some (t, tcb)" "change_program_brk sz tcb (km k) = Some (x, tcb', m)"
      "k' = put_tcb t tcb' (k\<lparr>km := m\<rparr>)"
    using assms(1) by (auto simp: sys_sbrk_def split: bind_splits)
  have "tcb_ok (length (open_files k)) (live k) tcb'" by (rule change_program_brk_ok [OF t(2) current_typed [OF ok t(1)]])
  then show ?thesis unfolding t(3) using ok by (intro types_ok_put) simp_all
qed

lemma sys_getpid_types: "sys_getpid k = Some (r, k') \<Longrightarrow> types_ok k \<Longrightarrow> types_ok k'"
  by (auto simp: sys_getpid_def split: bind_splits)

lemma sys_get_time_types: "sys_get_time time ts tz k = Some (r, k') \<Longrightarrow> types_ok k \<Longrightarrow> types_ok k'"
  by (auto simp: sys_get_time_def Let_def split: bind_splits)

lemma sys_task_info_types: "sys_task_info e time ti k = Some (r, k') \<Longrightarrow> types_ok k \<Longrightarrow> types_ok k'"
  by (auto simp: sys_task_info_def Let_def split: bind_splits dest!: get_taskinfo_eq)

lemma sys_exec_types: "sys_exec e path k = Some (r, k') \<Longrightarrow> types_ok k \<Longrightarrow> types_ok k'"
  by (auto simp: sys_exec_def TaskControlBlock_exec_def Let_def types_okD split: bind_splits option.splits prod.splits
      intro!: types_ok_put)

section \<open>Files\<close>

lemma sys_write_types: "sys_write e fd buf len k = Some (r, k') \<Longrightarrow> types_ok k \<Longrightarrow> types_ok k'"
  by (auto simp: sys_write_def dyn_write_def split: if_splits bind_splits option.splits fd_file.splits)

lemma sys_fstat_types: "sys_fstat e fd st k = Some (r, k') \<Longrightarrow> types_ok k \<Longrightarrow> types_ok k'"
  by (auto simp: sys_fstat_def Let_def split: if_splits bind_splits option.splits fd_file.splits prod.splits)

lemma sys_linkat_types: "sys_linkat e a b k = Some (r, k') \<Longrightarrow> types_ok k \<Longrightarrow> types_ok k'"
  by (auto simp: sys_linkat_def Let_def split: if_splits bind_splits)

lemma sys_unlinkat_types: "sys_unlinkat e a k = Some (r, k') \<Longrightarrow> types_ok k \<Longrightarrow> types_ok k'"
  by (auto simp: sys_unlinkat_def Let_def split: if_splits bind_splits option.splits)

lemma tcb_ok_set_fd:
  assumes "tcb_ok n L tcb" and "fd_ok n f"
  shows "tcb_ok n L (tcb\<lparr>fd_table := (fd_table tcb)[i := f]\<rparr>)"
  using assms set_update_subset_insert [of "fd_table tcb" i f] by (auto simp: tcb_ok_def)

lemma sys_close_types: "sys_close fd k = Some (r, k') \<Longrightarrow> types_ok k \<Longrightarrow> types_ok k'"
  by (auto simp: sys_close_def split: if_splits bind_splits intro: current_typed intro!: types_ok_put tcb_ok_set_fd)

lemma alloc_fd_ok: "alloc_fd tcb = (fd, tcb') \<Longrightarrow> tcb_ok n L tcb \<Longrightarrow> tcb_ok n L tcb'"
  by (auto simp: alloc_fd_def tcb_ok_def split: option.splits)

lemma open_types:
  assumes ok: "types_ok k" and "get_tcb k t = Some tcb" and fd: "alloc_fd tcb = (fd, tcb')"
  shows "types_ok (put_tcb t (tcb'\<lparr>fd_table := (fd_table tcb')[fd := Some (OSFile (length (open_files k)))]\<rparr>)
    (k\<lparr>open_files := open_files k @ [f]\<rparr>))"
proof -
  let ?k = "k\<lparr>open_files := open_files k @ [f]\<rparr>"
  have "tcb_ok (length (open_files k)) (live k) tcb'" using alloc_fd_ok [OF fd types_okD] assms(1,2) by blast
  then have "tcb_ok (length (open_files ?k)) (live ?k) tcb'" by (auto intro: tcb_ok_mono)
  moreover have "types_ok ?k" using ok by (auto simp: types_ok_def roots_def intro: tcb_ok_mono)
  ultimately show ?thesis by (intro types_ok_put tcb_ok_set_fd) auto
qed

lemma sys_open_types: "sys_open e path flags k = Some (r, k') \<Longrightarrow> types_ok k \<Longrightarrow> types_ok k'"
  using open_types [of "k\<lparr>fs := s\<rparr>" for s]
  by (auto simp: sys_open_def Let_def split: bind_splits option.splits prod.splits)

section \<open>Suspending and resuming\<close>

lemma suspend_types: "suspend_current_and_run_next c k = Some k' \<Longrightarrow> types_ok k \<Longrightarrow> types_ok k'"
  by (subst (asm) suspend_current_and_run_next_def, subst (asm) take_current_task_eq)
    (auto simp: get_tcb_taken types_okD live_get Let_def split: bind_splits intro!: types_ok_intros)

lemma Stdin_read_types:
  assumes "Stdin_read buf k = Some (r, k')" and "types_ok k"
  shows "types_ok k'"
proof -
  obtain c k1 where c: "console_getchar k = (c, k1)" by fastforce
  then have "types_ok k1" using assms(2) by (auto simp: console_getchar_def split: list.splits)
  then show ?thesis using assms(1) c by (auto simp: Stdin_read_def split: if_splits bind_splits intro: suspend_types)
qed

lemma sys_read_types: "sys_read e fd buf len k = Some (r, k') \<Longrightarrow> types_ok k \<Longrightarrow> types_ok k'"
  by (auto simp: sys_read_def dyn_read_def split: if_splits bind_splits option.splits fd_file.splits intro: Stdin_read_types)

lemma resume_types:
  assumes "resume k = Some k'" and ok: "types_ok k"
  shows "types_ok k'"
proof -
  obtain t tcb where t: "current_tcb k = Some (t, tcb)" using assms(1) by (auto simp: resume_def split: bind_splits)
  have "types_ok (put_tcb t (tcb\<lparr>tcb_kont := TrapReturn\<rparr>) k)" using current_typed [OF ok t] ok by (simp add: types_ok_put)
  then show ?thesis
    using assms(1) t by (auto simp: resume_def Let_def split: kont.splits bind_splits option.splits
        intro: store_result_types dest!: Stdin_read_types)
qed

lemma run_tasks_iter_types:
  assumes "run_tasks_iter k = Some k'" and ok: "types_ok k"
  shows "types_ok k'"
proof (cases "ready_queue (task_manager k)")
  case Nil
  then show ?thesis using assms by (simp add: run_tasks_iter_def fetch_task_def TaskManager_fetch_def)
next
  case (Cons t ts)
  let ?k = "k\<lparr>task_manager := (task_manager k)\<lparr>ready_queue := ts\<rparr>\<rparr>"
  obtain tcb where tcb: "get_tcb k t = Some tcb" "resume (set_current t (put_tcb t (tcb\<lparr>task_status := Running\<rparr>) ?k)) = Some k'"
    using assms(1) Cons by (auto simp: run_tasks_iter_def fetch_task_def TaskManager_fetch_def split: bind_splits)
  have k: "types_ok ?k" using ok Cons by (simp add: types_ok_def roots_def)
  have "types_ok (set_current t (put_tcb t (tcb\<lparr>task_status := Running\<rparr>) ?k))"
    using types_okD [OF ok tcb(1)] live_get [OF tcb(1)] by (intro types_ok_current types_ok_put [OF k] live_putI) simp_all
  then show ?thesis by (rule resume_types [OF tcb(2)])
qed

section \<open>New tasks\<close>

lemma kstack_alloc_types:
  assumes "kstack_alloc k = Some (ks, k')"
  shows "types_ok k' = types_ok k" and "live k' = live k" and "open_files k' = open_files k"
  using assms by (auto simp: kstack_alloc_def Let_def split: bind_splits prod.splits)

lemma new_tcb_ok:
  assumes "\<forall>f \<in> set fds. fd_ok n f"
  shows "tcb_ok n L (new_tcb e time h ks p b ms par fds hb brk)"
  using assms by (simp add: tcb_ok_def new_tcb_def TaskInfo_new_def)

lemma copy_fd_table_ok: "tcb_ok n L tcb \<Longrightarrow> \<forall>f \<in> set (copy_fd_table (fd_table tcb)). fd_ok n f"
  by (auto simp: copy_fd_table_def tcb_ok_def split: option.splits)

text \<open>The end of \<^verbatim>\<open>fork\<close> and \<^verbatim>\<open>spawn\<close>.\<close>

lemma adopt_types:
  assumes ok: "types_ok k" and par: "get_tcb k t = Some par"
    and ks: "kstack_alloc (k\<lparr>km := m, pid_allocator := a\<rparr>) = Some (ks, k1)"
    and new: "Arc_new (new_tcb e time h ks p b ms q (copy_fd_table (fd_table par)) hb brk) k1 = (c, k2)"
  shows "types_ok (put_tcb t (par\<lparr>children := children par @ [c]\<rparr>) k2)" and "c \<in> live k2"
proof -
  note k1 = kstack_alloc_types [OF ks]
  have p: "tcb_ok (length (open_files k)) (live k) par" by (rule types_okD [OF ok par])
  have t1: "types_ok k1" using k1(1) ok by simp
  have "tcb_ok (length (open_files k1)) (live k1) (new_tcb e time h ks p b ms q (copy_fd_table (fd_table par)) hb brk)"
    using k1(3) by (intro new_tcb_ok) (simp add: copy_fd_table_ok [OF p])
  note k2 = types_ok_Arc_new [OF new t1 this]
  have "tcb_ok (length (open_files k2)) (live k2) par" using p k1 k2(3,4) by (auto intro: tcb_ok_mono)
  then have "tcb_ok (length (open_files k2)) (live k2) (par\<lparr>children := children par @ [c]\<rparr>)"
    using k2(2) by (intro tcb_ok_children) (auto simp: tcb_ok_def)
  then show "types_ok (put_tcb t (par\<lparr>children := children par @ [c]\<rparr>) k2)" by (rule types_ok_put [OF k2(1)])
  show "c \<in> live k2" by (rule k2(2))
qed

lemma fork_types:
  assumes "TaskControlBlock_fork e time t k = Some (c, k')" and ok: "types_ok k"
  shows "types_ok k'" and "c \<in> live k'"
proof -
  obtain par ms m p h a ks k1 k2 where f: "get_tcb k t = Some par"
      "kstack_alloc (k\<lparr>km := m, pid_allocator := a\<rparr>) = Some (ks, k1)"
      "Arc_new (new_tcb e time h ks p (base_size par) ms (Some t) (copy_fd_table (fd_table par))
        (heap_bottom par) (program_brk par)) k1 = (c, k2)"
      "k' = set_kernel_sp p (KernelStack_get_top ks) (put_tcb t (par\<lparr>children := children par @ [c]\<rparr>) k2)"
    using assms unfolding TaskControlBlock_fork_def by (auto simp: Let_def split: bind_splits prod.splits)
  show "types_ok k'" "c \<in> live k'"
    using adopt_types [OF ok f(1-3)] by (simp_all add: f(4) set_kernel_sp_def live_putI)
qed

lemma spawn_types:
  assumes "TaskControlBlock_spawn e time t elf k = Some (c, k')" and ok: "types_ok k"
  shows "types_ok k'" and "c \<in> live k'"
proof -
  obtain par ms sp m m' p h a ks k1 k2 where f: "get_tcb k t = Some par"
      "kstack_alloc (k\<lparr>km := m, pid_allocator := a\<rparr>) = Some (ks, k1)"
      "Arc_new (new_tcb e time h ks p sp ms (Some t) (copy_fd_table (fd_table par))
        (heap_bottom par) (program_brk par)) k1 = (c, k2)"
      "k' = set_kernel_sp p (KernelStack_get_top ks) (put_tcb t (par\<lparr>children := children par @ [c]\<rparr>) (set_phys m' k2))"
    using assms unfolding TaskControlBlock_spawn_def by (auto simp: Let_def split: bind_splits prod.splits)
  have "put_tcb t tcb (set_phys m' k2) = set_phys m' (put_tcb t tcb k2)" for tcb
    by (simp add: put_tcb_def set_phys_def)
  then show "types_ok k'" "c \<in> live k'"
    using adopt_types [OF ok f(1-3)] by (simp_all add: f(4) set_kernel_sp_def live_putI)
qed

lemma clear_a0_types:
  assumes "clear_a0 c k = Some k'"
  shows "types_ok k' = types_ok k" and "live k' = live k"
  using assms by (auto simp: clear_a0_def Let_def split: bind_splits)

lemma sys_fork_types:
  assumes "sys_fork e time k = Some (r, k')" and "types_ok k"
  shows "types_ok k'"
proof -
  obtain t c k1 k2 where f: "TaskControlBlock_fork e time t k = Some (c, k1)" "clear_a0 c k1 = Some k2" "k' = add_task c k2"
    using assms(1) by (auto simp: sys_fork_def split: bind_splits)
  show ?thesis unfolding f(3) using fork_types [OF f(1) assms(2)] clear_a0_types [OF f(2)]
    by (intro types_ok_add_task) simp_all
qed

lemma sys_spawn_types:
  assumes "sys_spawn e time path k = Some (r, k')" and "types_ok k"
  shows "types_ok k'"
proof -
  have "types_ok (add_task c k2)"
    if "TaskControlBlock_spawn e time t elf (k\<lparr>fs := s\<rparr>) = Some (c, k1)" "clear_a0 c k1 = Some k2" for t elf s c k1 k2
    using spawn_types [OF that(1)] clear_a0_types [OF that(2)] assms(2) by (intro types_ok_add_task) simp_all
  then show ?thesis
    using assms by (auto simp: sys_spawn_def Let_def split: bind_splits option.splits)
qed

lemma INITPROC_types:
  assumes "INITPROC e time k = Some (i, k')" and ok: "types_ok k"
  shows "types_ok k'" and "i \<in> live k'"
proof -
  have "types_ok k' \<and> i \<in> live k'"
  proof (cases "initproc k")
    case (Some j)
    then show ?thesis using assms by (auto simp: INITPROC_def types_ok_def roots_def)
  next
    case None
    then obtain s m a ks k1 m' h p sp ms k2 where f:
        "kstack_alloc (k\<lparr>fs := s, km := m, pid_allocator := a\<rparr>) = Some (ks, k1)"
        "Arc_new (new_tcb e time h ks p sp ms None [Some Stdin, Some Stdout, Some Stdout] sp sp) (set_phys m' k1) = (i, k2)"
        "k' = k2\<lparr>initproc := Some i\<rparr>"
      using assms(1) unfolding INITPROC_def TaskControlBlock_new_def
      by (auto simp: Let_def split: bind_splits prod.splits)
    have "types_ok (set_phys m' k1)" using kstack_alloc_types(1) [OF f(1)] ok by simp
    note k2 = types_ok_Arc_new [OF f(2) this new_tcb_ok]
    show ?thesis unfolding f(3) using k2 by (auto simp: types_ok_def roots_def)
  qed
  then show "types_ok k'" "i \<in> live k'" by simp_all
qed

section \<open>Tasks that end\<close>

lemma KernelStack_drop_types:
  assumes "KernelStack_drop ks k = Some k'"
  shows "types_ok k' = types_ok k" and "live k' = live k" and "open_files k' = open_files k" and "roots k' = roots k"
  using assms by (auto simp: KernelStack_drop_def Let_def roots_def split: bind_splits prod.splits)

lemma unreferenced:
  assumes "strong_count k t = 0"
  shows "t \<notin> roots k" and "Some tcb \<in> set (tcbs k) \<Longrightarrow> t \<notin> set (children tcb)"
proof -
  show "t \<notin> roots k" using assms by (auto simp: strong_count_def roots_def count_list_0_iff split: if_splits)
  show "t \<notin> set (children tcb)" if "Some tcb \<in> set (tcbs k)"
    using assms that by (force simp: strong_count_def count_list_0_iff)
qed

text \<open>A task is freed only when nothing refers to it, so no reference is left dangling.\<close>

lemma free_task_types:
  assumes f: "free_task t k = Some (cs, k')" and c: "strong_count k t = 0" and ok: "types_ok k"
  shows "types_ok k'" and "set cs \<subseteq> live k'" and "live k' = live k - {t}"
proof -
  obtain tcb a k1 m where k1: "get_tcb k t = Some tcb" "cs = children tcb"
      "KernelStack_drop (kernel_stack tcb) (k\<lparr>pid_allocator := a\<rparr>) = Some k1" "k' = k1\<lparr>km := m, tcbs := (tcbs k1)[t := None]\<rparr>"
    using f by (auto simp: free_task_def split: bind_splits prod.splits)
  note d = KernelStack_drop_types [OF k1(3)] KernelStack_drop_sched(3) [OF k1(3)]
  have tcbs: "tcbs k' = (tcbs k)[t := None]" using d(5) by (simp add: k1(4))
  have "u \<in> live k' \<longleftrightarrow> u \<in> live k - {t}" for u
    by (cases "u = t") (simp_all add: live_def get_tcb_def tcbs)
  then show l: "live k' = live k - {t}" by blast
  have m: "Some tcb \<in> set (tcbs k)" using k1(1) by (auto simp: get_tcb_def in_set_conv_nth split: if_splits)
  show "set cs \<subseteq> live k'"
    using types_okD [OF ok k1(1)] unreferenced(2) [OF c m] by (auto simp: l k1(2) tcb_ok_def)
  have "tcb_ok (length (open_files k)) (live k - {t}) x" if "Some x \<in> set (tcbs k)" for x
    using ok that unreferenced(2) [OF c that] by (auto simp: types_ok_def tcb_ok_def)
  moreover have "Some x \<in> set (tcbs k)" if "Some x \<in> set (tcbs k')" for x
    using that set_update_subset_insert [of "tcbs k" t None] by (auto simp: tcbs)
  moreover have "roots k' = roots k" "open_files k' = open_files k" using d(3,4) by (simp_all add: k1(4) roots_def)
  ultimately show "types_ok k'" using ok unreferenced(1) [OF c] by (auto simp: types_ok_def l)
qed

lemma drop_arcs_types:
  assumes "drop_arcs ts k = Some k'" and "types_ok k" and "set ts \<subseteq> live k"
  shows "types_ok k'"
proof -
  have "types_ok k \<and> set ts \<subseteq> live k \<longrightarrow> types_ok k'"
  proof (rule drop_arcs.raw_induct [where P = "\<lambda>ts k k'. types_ok k \<and> set ts \<subseteq> live k \<longrightarrow> types_ok k'", OF _ assms(1)], rule impI)
    fix f :: "nat list \<Rightarrow> 'a kernel \<Rightarrow> 'a kernel option" and ts k k'
    assume IH: "\<And>ts k k'. f ts k = Some k' \<Longrightarrow> types_ok k \<and> set ts \<subseteq> live k \<longrightarrow> types_ok k'"
      and ok: "types_ok k \<and> set ts \<subseteq> live k"
      and b: "(case ts of [] \<Rightarrow> Some k | t # ts \<Rightarrow> if t \<in> set ts \<or> strong_count k t > 0 then f ts k
        else free_task t k \<bind> (\<lambda>(cs, k). f (cs @ ts) k)) = Some k'"
    show "types_ok k'"
    proof (cases ts)
      case (Cons t us)
      show ?thesis
      proof (cases "t \<in> set us \<or> strong_count k t > 0")
        case True
        then show ?thesis using b ok Cons IH by auto
      next
        case False
        then obtain cs k1 where k1: "free_task t k = Some (cs, k1)" "f (cs @ us) k1 = Some k'"
          using b Cons by (auto split: bind_splits)
        have "strong_count k t = 0" using False by simp
        note k2 = free_task_types [OF k1(1) this conjunct1 [OF ok]]
        have "set (cs @ us) \<subseteq> live k1" using k2(2,3) ok False Cons by auto
        then show ?thesis using IH [OF k1(2)] k2(1) by blast
      qed
    qed (use b ok in simp)
  qed
  then show ?thesis using assms(2,3) by blast
qed

lemma find_idx_mem: "find_idx P xs = Some i \<Longrightarrow> xs ! i \<in> set xs"
  by (drule find_idx_SomeD) simp

lemma sys_waitpid_types:
  assumes w: "sys_waitpid p a k = Some (r, k')" and ok: "types_ok k"
  shows "types_ok k'"
proof -
  have "types_ok k2" if "drop_arcs [children tcb ! i] (set_phys m (put_tcb t
        (tcb\<lparr>children := take i (children tcb) @ drop (Suc i) (children tcb)\<rparr>) k)) = Some k2"
      "get_tcb k t = Some tcb" "children tcb ! i \<in> set (children tcb)" for m t tcb i k2
  proof -
    have tcb: "tcb_ok (length (open_files k)) (live k) tcb" by (rule types_okD [OF ok that(2)])
    then have c: "set (children tcb) \<subseteq> live k" by (simp add: tcb_ok_def)
    then have "set (take i (children tcb) @ drop (Suc i) (children tcb)) \<subseteq> live k"
      using set_take_subset [of i "children tcb"] set_drop_subset [of "Suc i" "children tcb"] by auto
    from types_ok_put [OF ok tcb_ok_children [OF tcb this]] show ?thesis
      using c that(3) by (intro drop_arcs_types [OF that(1)]) (auto intro: live_putI)
  qed
  then show ?thesis using w ok
    by (auto simp: sys_waitpid_def Let_def split: if_splits bind_splits option.splits dest!: current_tcbD find_idx_mem)
qed

lemma reparent_types: "reparent i cs k = Some k' \<Longrightarrow> types_ok k \<Longrightarrow> types_ok k'"
proof (induction cs arbitrary: k)
  case (Cons c cs)
  then obtain child ini where r: "get_tcb k c = Some child" "get_tcb (put_tcb c (child\<lparr>parent := Some i\<rparr>) k) i = Some ini"
    "reparent i cs (put_tcb i (ini\<lparr>children := children ini @ [c]\<rparr>) (put_tcb c (child\<lparr>parent := Some i\<rparr>) k)) = Some k'"
    by (auto simp: Let_def split: bind_splits)
  let ?k = "put_tcb c (child\<lparr>parent := Some i\<rparr>) k"
  have k: "types_ok ?k" using types_okD [OF Cons.prems(2) r(1)] Cons.prems(2) by (intro types_ok_put) simp_all
  have ini: "tcb_ok (length (open_files ?k)) (live ?k) ini" by (rule types_okD [OF k r(2)])
  have "c \<in> live ?k" using live_get [OF r(1)] by (rule live_putI)
  then have "set (children ini @ [c]) \<subseteq> live ?k" using ini by (simp add: tcb_ok_def)
  then show ?case by (intro Cons.IH [OF r(3)] types_ok_put [OF k] tcb_ok_children [OF ini])
qed simp

lemma exit_types:
  assumes ex: "exit_current_and_run_next e time code k = Some k'" and ok: "types_ok k"
  shows "types_ok k'"
proof -
  let ?k = "snd (take_current_task k)"
  obtain t tcb where t: "current_task k = Some t" "get_tcb k t = Some tcb"
    using ex by (subst (asm) exit_current_and_run_next_def, subst (asm) take_current_task_eq)
      (auto simp: get_tcb_taken split: bind_splits)
  let ?k1 = "put_tcb t (tcb\<lparr>task_status := Zombie, exit_code := code\<rparr>) ?k"
  obtain i k0 k2 tcb2 k3 tcb3 ms m where r: "INITPROC e time ?k1 = Some (i, k0)" "reparent i (children tcb) k0 = Some k2"
      "get_tcb k2 t = Some tcb2"
      "drop_arcs (children tcb2) (put_tcb t (tcb2\<lparr>children := []\<rparr>) k2) = Some k3" "get_tcb k3 t = Some tcb3"
      "drop_arcs [t] (put_tcb t (tcb3\<lparr>memory_set := ms, fd_table := []\<rparr>) (k3\<lparr>km := m\<rparr>)) = Some k'"
    using ex t by (subst (asm) exit_current_and_run_next_def, subst (asm) take_current_task_eq)
      (auto simp: get_tcb_taken Let_def split: bind_splits if_splits)
  have "types_ok ?k1" using types_okD [OF ok t(2)] ok by (intro types_ok_put types_ok_take) simp_all
  then have k2: "types_ok k2" using INITPROC_types(1) [OF r(1)] reparent_types [OF r(2)] by blast
  have tcb2: "tcb_ok (length (open_files k2)) (live k2) tcb2" by (rule types_okD [OF k2 r(3)])
  have "set (children tcb2) \<subseteq> live (put_tcb t (tcb2\<lparr>children := []\<rparr>) k2)"
    using tcb2 live_putI [of _ k2] by (auto simp: tcb_ok_def)
  moreover have "types_ok (put_tcb t (tcb2\<lparr>children := []\<rparr>) k2)"
    by (intro types_ok_put [OF k2] tcb_ok_children [OF tcb2]) simp
  ultimately have k3: "types_ok k3" by (intro drop_arcs_types [OF r(4)])
  have "tcb_ok (length (open_files k3)) (live k3) (tcb3\<lparr>memory_set := ms, fd_table := []\<rparr>)"
    using types_okD [OF k3 r(5)] by (simp add: tcb_ok_def)
  then have "types_ok (put_tcb t (tcb3\<lparr>memory_set := ms, fd_table := []\<rparr>) (k3\<lparr>km := m\<rparr>))"
    using k3 by (intro types_ok_put) simp_all
  then show ?thesis using live_get [OF r(5)] by (intro drop_arcs_types [OF r(6)]) (simp_all add: live_putI)
qed

section \<open>The kernel as a state machine\<close>

lemma sys_yield_types: "sys_yield k = Some (r, k') \<Longrightarrow> types_ok k \<Longrightarrow> types_ok k'"
  by (auto simp: sys_yield_def split: bind_splits intro: suspend_types)

lemma sys_exit_types: "sys_exit e time c k = Some (r, k') \<Longrightarrow> types_ok k \<Longrightarrow> types_ok k'"
  by (auto simp: sys_exit_def split: bind_splits intro: exit_types)

lemmas syscall_types =
  sys_open_types sys_close_types sys_linkat_types sys_unlinkat_types sys_read_types sys_write_types sys_fstat_types
  sys_exit_types sys_yield_types sys_getpid_types sys_fork_types sys_exec_types sys_waitpid_types sys_get_time_types
  sys_task_info_types sys_mmap_types sys_munmap_types sys_sbrk_types sys_spawn_types sys_set_priority_types

lemma syscall_match_types:
  assumes "syscall_match e time i args k = Some (r, k')" and "types_ok k"
  shows "types_ok k'"
  using assms(1) unfolding syscall_match_def
  by (elim if_SomeE) (erule syscall_types, rule assms(2) | simp)+

lemma handle_syscall_types:
  assumes "handle_syscall e time k = Some k'" and ok: "types_ok k"
  shows "types_ok k'"
proof -
  obtain cx k1 r k2 k3 where h: "set_trap_cx (cx\<lparr>cx_sepc := cx_sepc cx + 4\<rparr>) k = Some k1"
      "update_taskinfo (cx_x cx ! 17) k1 = Some (r, k2)"
      "\<exists>out. syscall_match e time (cx_x cx ! 17) [cx_x cx ! 10, cx_x cx ! 11, cx_x cx ! 12, cx_x cx ! 13] k2 = Some (out, k3)"
      "(\<exists>n. store_result n k3 = Some k') \<or> k3 = k'"
    using assms(1) unfolding handle_syscall_def syscall_def
    by (auto split: bind_splits outcome.splits) blast
  have "types_ok k3" using h(3) syscall_match_types update_taskinfo_types [OF h(2) set_trap_cx_types [OF h(1) ok]] by blast
  then show ?thesis using h(4) by (auto intro: store_result_types)
qed

lemma trap_handler_types: "trap_handler e time cause k = Some k' \<Longrightarrow> types_ok k \<Longrightarrow> types_ok k'"
  by (cases cause) (auto simp: trap_handler_def intro: handle_syscall_types exit_types suspend_types)

lemma kstep_types: "kstep e k k' \<Longrightarrow> types_ok k \<Longrightarrow> types_ok k'"
  by (erule kstepE) (auto intro: trap_handler_types run_tasks_iter_types)

lemma ksteps_types: "(kstep e)\<^sup>*\<^sup>* k k' \<Longrightarrow> types_ok k \<Longrightarrow> types_ok k'"
  by (induction rule: rtranclp_induct) (blast intro: kstep_types)+

text \<open>The first state: \<^verbatim>\<open>add_initproc\<close> on a kernel without tasks.\<close>

lemma boot_types:
  assumes "add_initproc e time k = Some k'" and "tcbs k = []" and "roots k = {}"
  shows "types_ok k'"
proof -
  obtain i k1 where i: "INITPROC e time k = Some (i, k1)" "k' = add_task i k1"
    using assms(1) by (auto simp: add_initproc_def split: bind_splits)
  have "types_ok k" using assms(2,3) by (simp add: types_ok_def)
  note k1 = INITPROC_types [OF i(1) this]
  show ?thesis unfolding i(2) using k1 by (rule types_ok_add_task)
qed

text \<open>
  C14 (type). In every state the kernel reaches, no reference dangles: each descriptor of a task
  refers to an open file, so that the kernel finds its access mode and does not panic; the
  children of a task, the tasks of the ready queue, the running task and the initial process
  are allocated, although \<^verbatim>\<open>exit\<close> and \<^verbatim>\<open>waitpid\<close> release tasks; and the table of system call
  counters has its length.
\<close>

theorem references_live:
  assumes ok: "types_ok k" and steps: "(kstep e)\<^sup>*\<^sup>* k k'" and t: "get_tcb k' t = Some tcb"
  shows "(\<forall>f. Some f \<in> set (fd_table tcb) \<longrightarrow> file_readable k' f \<noteq> None \<and> file_writable k' f \<noteq> None) \<and>
    (\<forall>c \<in> set (children tcb). get_tcb k' c \<noteq> None) \<and>
    (\<forall>c \<in> set (ready_queue (task_manager k')). get_tcb k' c \<noteq> None) \<and>
    (\<forall>c. current_task k' = Some c \<or> initproc k' = Some c \<longrightarrow> get_tcb k' c \<noteq> None) \<and>
    length (syscall_times (task_info tcb)) = MAX_SYSCALL_NUM"
proof -
  have k: "types_ok k'" by (rule ksteps_types [OF steps ok])
  have tcb: "tcb_ok (length (open_files k')) (live k') tcb" by (rule types_okD [OF k t])
  have "file_readable k' f \<noteq> None \<and> file_writable k' f \<noteq> None" if "Some f \<in> set (fd_table tcb)" for f
    using tcb that by (cases f) (auto simp: file_readable_def file_writable_def tcb_ok_def nth_opt_def)
  moreover have "roots k' \<subseteq> live k'" using k by (simp add: types_ok_def)
  then have "\<forall>c \<in> roots k'. get_tcb k' c \<noteq> None" by (auto simp: live_def)
  ultimately show ?thesis using tcb by (auto simp: tcb_ok_def roots_def live_def current_task_def)
qed

theorem references_live_witness:
  "\<exists>(e :: unit kernel_env) k k' tcb. (kstep e)\<^sup>*\<^sup>* k k' \<and> types_ok k \<and> get_tcb k' 1 = Some tcb \<and> k' \<noteq> k \<and>
     length (syscall_times (task_info tcb)) = MAX_SYSCALL_NUM"
proof -
  fix e :: "unit kernel_env" and m p ms f
  let ?k = "example_kernel m p ms f ()"
  obtain k' where k': "trap_handler e 0 SupervisorTimer ?k = Some k'" "current_task k' = None"
      "get_tcb k' 1 = Some ((example_tcb p ms)\<lparr>task_status := Ready\<rparr>)" by (rule example_preempted)
  have cur: "current_task ?k \<noteq> None" using current_tcbD(1) [OF example_current [of m p ms f "()"]] by simp
  then have st: "(kstep e)\<^sup>*\<^sup>* ?k k'" using kstep.trap [OF _ k'(1)] by blast
  have ok: "types_ok ?k"
    by (auto simp: types_ok_def tcb_ok_def roots_def live_def example_kernel_def example_tcb_def TaskInfo_new_def get_tcb_def)
  show ?thesis using references_live [OF ok st k'(3)] st k'(2,3) ok cur by (intro exI [of _ e] exI [of _ ?k] exI [of _ k']) auto
qed

end
