(* ===== verification/TrapAsm.thy ===== *)
theory TrapAsm
  imports TrapOps
begin

text \<open>
  The assembly routines of the kernel: \<^verbatim>\<open>__alltraps\<close> and \<^verbatim>\<open>__restore\<close> of \<^verbatim>\<open>os/src/trap/trap.S\<close>,
  \<^verbatim>\<open>__switch\<close> of \<^verbatim>\<open>os/src/task/switch.S\<close>. They are lists of instructions run by a hart with
  its registers and memory. The address translation of the hardware is the argument \<open>mmu\<close>:
  it gives the physical address of a virtual one, from the memory and \<^verbatim>\<open>satp\<close>; instruction fetch
  and privilege levels are not modelled.
\<close>

section \<open>The machine\<close>

datatype csr = SSCRATCH | SSTATUS | SEPC | SATP

text \<open>Offsets are in bytes; \<open>Ret\<close> of the assembler is \<open>Jr\<close> of \<^verbatim>\<open>ra\<close>.\<close>

datatype instr =
  Sd nat nat nat | Ld nat nat nat | Csrrw nat csr nat | Csrr nat csr | Csrw csr nat | Mv nat nat
| Sfence | Jr nat | Sret

record hart =
  gp :: "usize list"
  csrs :: "csr \<Rightarrow> usize"
  pc :: usize
  ram :: phys_mem

type_synonym mmu = "phys_mem \<Rightarrow> usize \<Rightarrow> usize \<Rightarrow> usize option"

definition reg :: "hart \<Rightarrow> nat \<Rightarrow> usize" where
  "reg h r = (if r = 0 then 0 else gp h ! r)"

definition set_reg :: "nat \<Rightarrow> usize \<Rightarrow> hart \<Rightarrow> hart" where
  "set_reg r v h = (if r = 0 then h else h\<lparr>gp := (gp h)[r := v]\<rparr>)"

definition set_csr :: "csr \<Rightarrow> usize \<Rightarrow> hart \<Rightarrow> hart" where
  "set_csr c v h = h\<lparr>csrs := (csrs h)(c := v)\<rparr>"

fun step :: "mmu \<Rightarrow> instr \<Rightarrow> hart \<Rightarrow> hart option" where
  "step mmu (Sd r off base) h = do {
     a \<leftarrow> mmu (ram h) (csrs h SATP) (reg h base + of_nat off);
     Some (h\<lparr>ram := mem_put a (le_enc 8 (unat (reg h r))) (ram h)\<rparr>)
   }"
| "step mmu (Ld r off base) h = do {
     a \<leftarrow> mmu (ram h) (csrs h SATP) (reg h base + of_nat off);
     Some (set_reg r (of_nat (le_dec (mem_get (ram h) a 8))) h)
   }"
| "step mmu (Csrrw rd c rs) h = Some (set_reg rd (csrs h c) (set_csr c (reg h rs) h))"
| "step mmu (Csrr rd c) h = Some (set_reg rd (csrs h c) h)"
| "step mmu (Csrw c rs) h = Some (set_csr c (reg h rs) h)"
| "step mmu (Mv rd rs) h = Some (set_reg rd (reg h rs) h)"
| "step mmu Sfence h = Some h"
| "step mmu (Jr r) h = Some (h\<lparr>pc := reg h r\<rparr>)"
| "step mmu Sret h = Some (h\<lparr>pc := csrs h SEPC\<rparr>)"

fun run :: "mmu \<Rightarrow> instr list \<Rightarrow> hart \<Rightarrow> hart option" where
  "run mmu [] h = Some h"
| "run mmu (i # is) h = do { h \<leftarrow> step mmu i h; run mmu is h }"

section \<open>The routines\<close>

text \<open>The registers by their names: \<^verbatim>\<open>ra\<close>, \<^verbatim>\<open>sp\<close>, \<^verbatim>\<open>t0\<close> to \<^verbatim>\<open>t2\<close>, \<^verbatim>\<open>a0\<close>, \<^verbatim>\<open>a1\<close> and the saved ones.\<close>

abbreviation (input) "x_ra \<equiv> 1 :: nat"

abbreviation (input) "x_sp \<equiv> 2 :: nat"

abbreviation (input) "x_t0 \<equiv> 5 :: nat"

abbreviation (input) "x_t1 \<equiv> 6 :: nat"

abbreviation (input) "x_t2 \<equiv> 7 :: nat"

abbreviation (input) "x_a0 \<equiv> 10 :: nat"

abbreviation (input) "x_a1 \<equiv> 11 :: nat"

definition x_s :: "nat \<Rightarrow> nat" where
  "x_s n = (if n < 2 then n + 8 else n + 16)"

definition SAVE_GP :: "nat \<Rightarrow> instr" where
  "SAVE_GP n = Sd n (n * 8) x_sp"

definition LOAD_GP :: "nat \<Rightarrow> instr" where
  "LOAD_GP n = Ld n (n * 8) x_sp"

text \<open>The counter of \<^verbatim>\<open>.set n, start\<close> and \<^verbatim>\<open>.rept count\<close>.\<close>

definition rept :: "nat \<Rightarrow> nat \<Rightarrow> nat list" where
  "rept n k = [n..<n + k]"

definition alltraps :: "instr list" where
  "alltraps =
     [Csrrw x_sp SSCRATCH x_sp, Sd 1 (1 * 8) x_sp, Sd 3 (3 * 8) x_sp] @ map SAVE_GP (rept 5 27) @
     [Csrr x_t0 SSTATUS, Csrr x_t1 SEPC, Sd x_t0 (32 * 8) x_sp, Sd x_t1 (33 * 8) x_sp,
      Csrr x_t2 SSCRATCH, Sd x_t2 (2 * 8) x_sp,
      Ld x_t0 (34 * 8) x_sp, Ld x_t1 (36 * 8) x_sp, Ld x_sp (35 * 8) x_sp,
      Csrw SATP x_t0, Sfence, Jr x_t1]"

definition restore :: "instr list" where
  "restore =
     [Csrw SATP x_a1, Sfence, Csrw SSCRATCH x_a0, Mv x_sp x_a0,
      Ld x_t0 (32 * 8) x_sp, Ld x_t1 (33 * 8) x_sp, Csrw SSTATUS x_t0, Csrw SEPC x_t1,
      Ld 1 (1 * 8) x_sp, Ld 3 (3 * 8) x_sp] @ map LOAD_GP (rept 5 27) @
     [Ld x_sp (2 * 8) x_sp, Sret]"

definition SAVE_SN :: "nat \<Rightarrow> instr" where
  "SAVE_SN n = Sd (x_s n) ((n + 2) * 8) x_a0"

definition LOAD_SN :: "nat \<Rightarrow> instr" where
  "LOAD_SN n = Ld (x_s n) ((n + 2) * 8) x_a1"

definition switch :: "instr list" where
  "switch =
     [Sd x_sp 8 x_a0, Sd x_ra 0 x_a0] @ map SAVE_SN (rept 0 12) @
     [Ld x_ra 0 x_a1] @ map LOAD_SN (rept 0 12) @ [Ld x_sp 8 x_a1, Jr x_ra]"

section \<open>A frame of words in memory\<close>

definition frame :: "phys_mem \<Rightarrow> usize \<Rightarrow> nat \<Rightarrow> usize list" where
  "frame m a n = words_of 8 (mem_get m a (8 * n))"

definition put_frame :: "usize \<Rightarrow> usize list \<Rightarrow> phys_mem \<Rightarrow> phys_mem" where
  "put_frame a ws m = mem_put a (bytes_of 8 ws) m"

text \<open>The memories that differ from a given one in a frame only.\<close>

definition except :: "phys_mem \<Rightarrow> usize \<Rightarrow> nat \<Rightarrow> phys_mem set" where
  "except m a n = {m'. \<forall>x. 8 * n \<le> unat (x - a) \<longrightarrow> m' x = m x}"

text \<open>In all memories of a set, the hardware maps the frame at \<open>v\<close> to the one at \<open>a\<close>.\<close>

definition mapped :: "mmu \<Rightarrow> phys_mem set \<Rightarrow> usize \<Rightarrow> usize \<Rightarrow> usize \<Rightarrow> nat \<Rightarrow> bool" where
  "mapped mmu M token v a n \<longleftrightarrow>
     (\<forall>m \<in> M. \<forall>i < n. mmu m token (v + of_nat (i * 8)) = Some (a + of_nat (i * 8)))"

lemma put_frame_except: "put_frame a ws m \<in> except m a (length ws)"
  by (simp add: put_frame_def except_def mem_put_def)

lemma length_frame [simp]: "length (frame m a n) = n"
  by (simp add: frame_def)

lemma put_part:
  assumes "off + length bs \<le> length cs" and "length cs \<le> 2 ^ 64"
  shows "mem_put (a + of_nat off) bs (mem_put a cs m) = mem_put a (buf_put off bs cs) m"
proof
  fix x :: usize
  have *: "x - (a + of_nat off) = (x - a) - of_nat off" by simp
  have "unat (x - a) < 2 ^ 64" using unsigned_less [of "x - a", where ?'a = nat] by simp
  then have d: "unat (x - (a + of_nat off)) = (if off \<le> unat (x - a) then unat (x - a) - off else unat (x - a) + 2 ^ 64 - off)"
    if "off < 2 ^ 64" unfolding * using that by (simp add: unat_sub_if_size word_size unat_of_nat_exact)
  show "mem_put (a + of_nat off) bs (mem_put a cs m) x = mem_put a (buf_put off bs cs) m x"
  proof (cases "bs = []")
    case True
    then show ?thesis using assms(1) by (simp add: mem_put_def buf_put_def)
  next
    case False
    then have "off < 2 ^ 64" using assms by (cases bs) auto
    with d have u: "unat (x - (a + of_nat off)) = (if off \<le> unat (x - a) then unat (x - a) - off else unat (x - a) + 2 ^ 64 - off)"
      by blast
    show ?thesis using assms by (auto simp: mem_put_def u buf_put_def nth_append)
  qed
qed

lemma get_part:
  assumes "off + n \<le> length cs" and "length cs \<le> 2 ^ 64"
  shows "mem_get (mem_put a cs m) (a + of_nat off) n = buf_get off n cs"
proof (rule nth_equalityI)
  fix i assume "i < length (mem_get (mem_put a cs m) (a + of_nat off) n)"
  then have i: "i < n" by simp
  have "(a + of_nat off + of_nat i) - a = of_nat (off + i)" by simp
  moreover have "unat (of_nat (off + i) :: usize) = off + i" using assms i by (intro unat_of_nat_exact) simp
  ultimately have "unat (a + of_nat off + of_nat i - a) = off + i" by metis
  then show "mem_get (mem_put a cs m) (a + of_nat off) n ! i = buf_get off n cs ! i"
    using assms i by (simp add: mem_put_in buf_get_def)
qed (use assms in \<open>simp add: buf_get_def\<close>)

lemma frame_put [simp]: "n = length ws \<Longrightarrow> 8 * length ws \<le> 2 ^ 64 \<Longrightarrow> frame (put_frame a ws m) a n = ws"
  by (simp add: frame_def put_frame_def)

lemma put_frame_id:
  assumes "8 * n \<le> 2 ^ 64"
  shows "put_frame a (frame m a n) m = m"
proof
  fix x
  have "mem_get m a (8 * n) ! unat (x - a) = m x" if "unat (x - a) < 8 * n" using that by simp
  then show "put_frame a (frame m a n) m x = m x" by (simp add: put_frame_def frame_def mem_put_def)
qed

lemma store_frame:
  assumes "i < length ws" and "8 * length ws \<le> 2 ^ 64"
  shows "mem_put (a + of_nat (i * 8)) (le_enc 8 (unat v)) (put_frame a ws m) = put_frame a (ws[i := v]) m"
  unfolding put_frame_def using assms by (subst put_part) (simp_all add: bytes_of_update)

lemma load_frame:
  assumes "i < length ws" and "8 * length ws \<le> 2 ^ 64"
  shows "of_nat (le_dec (mem_get (put_frame a ws m) (a + of_nat (i * 8)) 8)) = ws ! i"
  unfolding put_frame_def using assms word_at_bytes_of [of 8 i ws, unfolded word_at_def] by (subst get_part) simp_all

section \<open>Running the routines\<close>

lemma run_appendI: "run mmu is h = Some h1 \<Longrightarrow> run mmu js h1 = r \<Longrightarrow> run mmu (is @ js) h = r"
  by (induction "is" arbitrary: h) (auto split: bind_splits)

text \<open>Accesses to a frame, at the state in which the routine has its contents \<open>ws\<close>.\<close>

lemma step_Sd:
  assumes "mapped mmu (except m a (length ws)) (csrs h SATP) (reg h b) a (length ws)" and "8 * length ws \<le> 2 ^ 64"
    and "ram h = put_frame a ws m" and "8 dvd off" and "off div 8 < length ws"
  shows "step mmu (Sd r off b) h = Some (h\<lparr>ram := put_frame a (ws[off div 8 := reg h r]) m\<rparr>)"
proof -
  have "mmu (ram h) (csrs h SATP) (reg h b + of_nat (off div 8 * 8)) = Some (a + of_nat (off div 8 * 8))"
    using assms(1,3,5) put_frame_except [of a ws m] unfolding mapped_def by metis
  then show ?thesis using store_frame [OF assms(5,2), of a "reg h r" m] assms(3,4) by simp
qed

lemma step_Ld:
  assumes "mapped mmu (except m a (length ws)) (csrs h SATP) (reg h b) a (length ws)" and "8 * length ws \<le> 2 ^ 64"
    and "ram h = put_frame a ws m" and "8 dvd off" and "off div 8 < length ws"
  shows "step mmu (Ld r off b) h = Some (set_reg r (ws ! (off div 8)) h)"
proof -
  have "mmu (ram h) (csrs h SATP) (reg h b + of_nat (off div 8 * 8)) = Some (a + of_nat (off div 8 * 8))"
    using assms(1,3,5) put_frame_except [of a ws m] unfolding mapped_def by metis
  then show ?thesis using load_frame [OF assms(5,2), of a m] assms(3,4) by simp
qed

lemma reg_simps [simp]:
  "reg (h\<lparr>ram := m\<rparr>) = reg h" "reg (h\<lparr>pc := q\<rparr>) = reg h" "reg (h\<lparr>csrs := c\<rparr>) = reg h" "reg (set_csr d v h) = reg h"
  "csrs (set_reg r v h) = csrs h" "ram (set_reg r v h) = ram h" "pc (set_reg r v h) = pc h"
  "length (gp (set_reg r v h)) = length (gp h)" "ram (set_csr d v h) = ram h" "gp (set_csr d v h) = gp h"
  "csrs (set_csr d v h) = (csrs h)(d := v)"
  by (simp_all add: reg_def [abs_def] set_reg_def set_csr_def cong: if_cong)

lemma reg_0 [simp]: "reg h 0 = 0"
  by (simp add: reg_def)

lemma reg_set_reg [simp]: "r < length (gp h) \<Longrightarrow> reg (set_reg r v h) q = (if q = r \<and> r \<noteq> 0 then v else reg h q)"
  by (simp add: reg_def set_reg_def)

text \<open>The repeated stores and loads.\<close>

definition put_all :: "(nat \<Rightarrow> nat) \<Rightarrow> (nat \<Rightarrow> usize) \<Rightarrow> nat list \<Rightarrow> usize list \<Rightarrow> usize list" where
  "put_all pos f ns ws = fold (\<lambda>n ws. ws[pos n := f n]) ns ws"

lemma length_put_all [simp]: "length (put_all pos f ns ws) = length ws"
  unfolding put_all_def by (induction ns arbitrary: ws) simp_all

lemma nth_put_all:
  "inj_on pos (set ns) \<Longrightarrow> n \<in> set ns \<Longrightarrow> pos n < length ws \<Longrightarrow> put_all pos f ns ws ! pos n = f n"
  "i \<notin> pos ` set ns \<Longrightarrow> put_all pos f ns ws ! i = ws ! i"
proof -
  show o: "i \<notin> pos ` set ns \<Longrightarrow> put_all pos f ns ws ! i = ws ! i" for i ws ns
    unfolding put_all_def by (induction ns arbitrary: ws) auto
  show "inj_on pos (set ns) \<Longrightarrow> n \<in> set ns \<Longrightarrow> pos n < length ws \<Longrightarrow> put_all pos f ns ws ! pos n = f n"
  proof (induction ns arbitrary: ws)
    case (Cons k ns)
    show ?case
    proof (cases "n \<in> set ns")
      case False
      then have "n = k" "pos n \<notin> pos ` set ns" using Cons.prems by (auto simp: inj_on_def)
      then show ?thesis using o [of "pos n" ns] Cons.prems(3) by (simp add: put_all_def)
    qed (use Cons in \<open>simp add: put_all_def\<close>)
  qed simp
qed

lemma put_all_cong: "(\<And>n. n \<in> set ns \<Longrightarrow> f n = g n) \<Longrightarrow> put_all pos f ns ws = put_all pos g ns ws"
  unfolding put_all_def by (rule fold_cong) simp_all

lemma run_stores:
  assumes "mapped mmu (except m a N) (csrs h SATP) (reg h b) a N" and "8 * N \<le> 2 ^ 64"
    and "ram h = put_frame a ws m" and "length ws = N" and "\<forall>n \<in> set ns. pos n < N"
  shows "run mmu (map (\<lambda>n. Sd (r n) (pos n * 8) b) ns) h
    = Some (h\<lparr>ram := put_frame a (put_all pos (\<lambda>n. reg h (r n)) ns ws) m\<rparr>)"
  using assms
proof (induction ns arbitrary: h ws)
  case (Cons n ns)
  have "step mmu (Sd (r n) (pos n * 8) b) h = Some (h\<lparr>ram := put_frame a (ws[pos n := reg h (r n)]) m\<rparr>)"
    using step_Sd [of mmu m a ws h b "pos n * 8"] Cons.prems by simp
  moreover have "run mmu (map (\<lambda>n. Sd (r n) (pos n * 8) b) ns) (h\<lparr>ram := put_frame a (ws[pos n := reg h (r n)]) m\<rparr>)
    = Some (h\<lparr>ram := put_frame a (put_all pos (\<lambda>n. reg h (r n)) ns (ws[pos n := reg h (r n)])) m\<rparr>)"
    using Cons.IH [of "h\<lparr>ram := put_frame a (ws[pos n := reg h (r n)]) m\<rparr>" "ws[pos n := reg h (r n)]"] Cons.prems by simp
  ultimately show ?case by (simp add: put_all_def)
qed (simp add: put_all_def)


text \<open>Loads into registers other than the base, one after the other.\<close>

definition load_all :: "(nat \<Rightarrow> nat) \<Rightarrow> (nat \<Rightarrow> usize) \<Rightarrow> nat list \<Rightarrow> hart \<Rightarrow> hart" where
  "load_all r f ns h = fold (\<lambda>n. set_reg (r n) (f n)) ns h"

lemma load_all_fields [simp]:
  "csrs (load_all r f ns h) = csrs h" "ram (load_all r f ns h) = ram h" "pc (load_all r f ns h) = pc h"
  "length (gp (load_all r f ns h)) = length (gp h)"
  unfolding load_all_def by (induction ns arbitrary: h) simp_all

lemma reg_load_all:
  "inj_on r (set ns) \<Longrightarrow> n \<in> set ns \<Longrightarrow> r n \<noteq> 0 \<Longrightarrow> r n < length (gp h) \<Longrightarrow> reg (load_all r f ns h) (r n) = f n"
  "q \<notin> r ` set ns \<Longrightarrow> reg (load_all r f ns h) q = reg h q"
proof -
  show o: "q \<notin> r ` set ns \<Longrightarrow> reg (load_all r f ns h) q = reg h q" for q h ns
  proof (induction ns arbitrary: h)
    case (Cons n ns)
    then have "reg (set_reg (r n) (f n) h) q = reg h q" by (simp add: reg_def set_reg_def)
    then show ?case using Cons by (simp add: load_all_def)
  qed (simp add: load_all_def)
  show "inj_on r (set ns) \<Longrightarrow> n \<in> set ns \<Longrightarrow> r n \<noteq> 0 \<Longrightarrow> r n < length (gp h) \<Longrightarrow> reg (load_all r f ns h) (r n) = f n"
  proof (induction ns arbitrary: h)
    case (Cons k ns)
    show ?case
    proof (cases "n \<in> set ns")
      case False
      then have "n = k" "r n \<notin> r ` set ns" using Cons.prems by (auto simp: inj_on_def)
      then show ?thesis using o [of "r n" ns] Cons.prems(3,4) by (simp add: load_all_def)
    qed (use Cons in \<open>simp add: load_all_def\<close>)
  qed simp
qed

lemma run_loads:
  assumes "mapped mmu (except m a N) (csrs h SATP) (reg h b) a N" and "8 * N \<le> 2 ^ 64"
    and "ram h = put_frame a ws m" and "length ws = N" and "\<forall>n \<in> set ns. pos n < N" and "b \<notin> r ` set ns"
  shows "run mmu (map (\<lambda>n. Ld (r n) (pos n * 8) b) ns) h = Some (load_all r (\<lambda>n. ws ! pos n) ns h)"
  using assms
proof (induction ns arbitrary: h)
  case (Cons n ns)
  have "step mmu (Ld (r n) (pos n * 8) b) h = Some (set_reg (r n) (ws ! pos n) h)"
    using step_Ld [of mmu m a ws h b "pos n * 8"] Cons.prems by simp
  moreover have "reg (set_reg (r n) (ws ! pos n) h) b = reg h b" using Cons.prems(6) by (simp add: reg_def set_reg_def)
  then have "run mmu (map (\<lambda>n. Ld (r n) (pos n * 8) b) ns) (set_reg (r n) (ws ! pos n) h)
    = Some (load_all r (\<lambda>n. ws ! pos n) ns (set_reg (r n) (ws ! pos n) h))"
    using Cons.IH [of "set_reg (r n) (ws ! pos n) h"] Cons.prems by simp
  ultimately show ?case by (simp add: load_all_def)
qed (simp add: load_all_def)

section \<open>Traps\<close>

text \<open>The user's registers as \<^verbatim>\<open>__alltraps\<close> saves them: all but \<^verbatim>\<open>x0\<close> and \<^verbatim>\<open>tp\<close>, which keep their place in \<open>old\<close>.\<close>

definition saved :: "hart \<Rightarrow> usize list \<Rightarrow> usize list" where
  "saved h old = map (\<lambda>r. if r = 0 \<or> r = 4 then old ! r else reg h r) [0..<32]"

lemma read_trap_cx_frame: "read_trap_cx m p = TrapContext_of_words (frame m (page_addr p) 37)"
  by (simp add: read_trap_cx_def frame_def TRAP_CX_SIZE_def)

lemma write_trap_cx_frame: "write_trap_cx p cx m = put_frame (page_addr p) (TrapContext_words cx) m"
  by (simp add: write_trap_cx_def put_bytes_array_def put_frame_def)

lemma set_rept [simp]: "set (rept n k) = {n..<n + k}"
  by (simp add: rept_def)

lemma alltraps_run:
  assumes regs: "length (gp h) = 32" and map: "mapped mmu (except m a 37) (csrs h SATP) (csrs h SSCRATCH) a 37"
    and m: "ram h = put_frame a ws m" and len: "length ws = 37"
  defines "ws1 \<equiv> put_all id (reg h) (rept 5 27) (ws[1 := reg h 1, 3 := reg h 3])"
  defines "ws' \<equiv> ws1[32 := csrs h SSTATUS, 33 := csrs h SEPC, 2 := reg h 2]"
  shows "\<exists>h'. run mmu alltraps h = Some h' \<and> ram h' = put_frame a ws' m \<and> length (gp h') = 32 \<and>
    reg h' 2 = ws ! 35 \<and> csrs h' SATP = ws ! 34 \<and> pc h' = ws ! 36"
proof -
  let ?ns = "rept 5 27"
  let ?h1 = "set_reg 2 (csrs h SSCRATCH) (set_csr SSCRATCH (reg h 2) h)" and ?ws = "ws[1 := reg h 1, 3 := reg h 3]"
  let ?h2 = "?h1\<lparr>ram := put_frame a ?ws m\<rparr>" and ?h3 = "?h1\<lparr>ram := put_frame a ws1 m\<rparr>"
  note sd = step_Sd [where a = a and m = m] and ld = step_Ld [where a = a and m = m]
  have s1: "run mmu [Csrrw 2 SSCRATCH 2, Sd 1 (1 * 8) 2, Sd 3 (3 * 8) 2] h = Some ?h2"
    using map regs m len by (simp add: sd [where ws = ws] sd [where ws = "ws[1 := reg h 1]"] del: step.simps(1,2) One_nat_def)
  have s2: "run mmu (map SAVE_GP ?ns) ?h2 = Some ?h3"
  proof -
    have "SAVE_GP = (\<lambda>n. Sd (id n) (id n * 8) 2)" by (simp add: SAVE_GP_def fun_eq_iff)
    moreover have "put_all id (\<lambda>n. reg ?h2 (id n)) ?ns ?ws = ws1"
      unfolding ws1_def using regs by (intro put_all_cong) simp
    ultimately show ?thesis using run_stores [of mmu m a 37 ?h2 2 ?ws ?ns id id] map len regs by simp
  qed
  have l1: "length ws1 = 37" using len by (simp add: ws1_def)
  have s3: "\<exists>h'. run mmu [Csrr 5 SSTATUS, Csrr 6 SEPC, Sd 5 (32 * 8) 2, Sd 6 (33 * 8) 2, Csrr 7 SSCRATCH, Sd 7 (2 * 8) 2,
      Ld 5 (34 * 8) 2, Ld 6 (36 * 8) 2, Ld 2 (35 * 8) 2, Csrw SATP 5, Sfence, Jr 6] ?h3 = Some h' \<and>
      ram h' = put_frame a ws' m \<and> length (gp h') = 32 \<and> reg h' 2 = ws1 ! 35 \<and> csrs h' SATP = ws1 ! 34 \<and> pc h' = ws1 ! 36"
    using map regs l1 by (simp add: sd [where ws = ws1] sd [where ws = "ws1[32 := csrs h SSTATUS]"]
      sd [where ws = "ws1[32 := csrs h SSTATUS, 33 := csrs h SEPC]"]
      ld [where ws = "ws1[32 := csrs h SSTATUS, 33 := csrs h SEPC, 2 := reg h 2]"] ws'_def del: step.simps(1,2) One_nat_def)
  have "ws1 ! i = ws ! i" if "32 \<le> i" for i
    unfolding ws1_def using that by (subst nth_put_all(2)) auto
  then have e: "ws1 ! 34 = ws ! 34" "ws1 ! 35 = ws ! 35" "ws1 ! 36 = ws ! 36" by simp_all
  from s3 obtain h' where h': "run mmu [Csrr 5 SSTATUS, Csrr 6 SEPC, Sd 5 (32 * 8) 2, Sd 6 (33 * 8) 2, Csrr 7 SSCRATCH, Sd 7 (2 * 8) 2,
      Ld 5 (34 * 8) 2, Ld 6 (36 * 8) 2, Ld 2 (35 * 8) 2, Csrw SATP 5, Sfence, Jr 6] ?h3 = Some h'"
    and f: "ram h' = put_frame a ws' m" "length (gp h') = 32" "reg h' 2 = ws1 ! 35" "csrs h' SATP = ws1 ! 34" "pc h' = ws1 ! 36"
    by blast
  have "run mmu alltraps h = Some h'"
    unfolding alltraps_def by (rule run_appendI [OF s1 run_appendI [OF s2 h']])
  then show ?thesis using f unfolding e by blast
qed

lemma restore_run:
  assumes regs: "length (gp h) = 32" and map: "mapped mmu (except m a 37) (reg h 11) (reg h 10) a 37"
    and m: "ram h = put_frame a ws m" and len: "length ws = 37"
  shows "\<exists>h'. run mmu restore h = Some h' \<and> ram h' = ram h \<and> length (gp h') = 32 \<and>
    (\<forall>r < 32. reg h' r = (if r = 0 then 0 else if r = 4 then reg h 4 else ws ! r)) \<and>
    csrs h' = (csrs h)(SATP := reg h 11, SSCRATCH := reg h 10, SSTATUS := ws ! 32, SEPC := ws ! 33) \<and> pc h' = ws ! 33"
proof -
  let ?ns = "rept 5 27"
  note ld = step_Ld [where a = a and m = m and ws = ws]
  have "\<exists>h1. run mmu [Csrw SATP 11, Sfence, Csrw SSCRATCH 10, Mv 2 10, Ld 5 (32 * 8) 2, Ld 6 (33 * 8) 2, Csrw SSTATUS 5, Csrw SEPC 6,
      Ld 1 (1 * 8) 2, Ld 3 (3 * 8) 2] h = Some h1 \<and> ram h1 = ram h \<and> length (gp h1) = 32 \<and> reg h1 1 = ws ! 1 \<and> reg h1 2 = reg h 10 \<and>
      reg h1 3 = ws ! 3 \<and> reg h1 4 = reg h 4 \<and>
      csrs h1 = (csrs h)(SATP := reg h 11, SSCRATCH := reg h 10, SSTATUS := ws ! 32, SEPC := ws ! 33)"
    using map regs m len by (simp add: ld del: step.simps(1,2) One_nat_def)
  then obtain h1 where s1: "run mmu [Csrw SATP 11, Sfence, Csrw SSCRATCH 10, Mv 2 10, Ld 5 (32 * 8) 2, Ld 6 (33 * 8) 2, Csrw SSTATUS 5,
      Csrw SEPC 6, Ld 1 (1 * 8) 2, Ld 3 (3 * 8) 2] h = Some h1"
    and f1: "ram h1 = ram h" "length (gp h1) = 32" "reg h1 1 = ws ! 1" "reg h1 2 = reg h 10" "reg h1 3 = ws ! 3" "reg h1 4 = reg h 4"
      "csrs h1 = (csrs h)(SATP := reg h 11, SSCRATCH := reg h 10, SSTATUS := ws ! 32, SEPC := ws ! 33)" by blast
  let ?h2 = "load_all id (\<lambda>n. ws ! id n) ?ns h1"
  have s2: "run mmu (map LOAD_GP ?ns) h1 = Some ?h2"
  proof -
    have "LOAD_GP = (\<lambda>n. Ld (id n) (id n * 8) 2)" by (simp add: LOAD_GP_def fun_eq_iff)
    then show ?thesis using run_loads [of mmu m a 37 h1 2 ws ?ns id id] map len f1 m by simp
  qed
  have r2: "reg ?h2 n = (if n \<in> {5..<32} then ws ! n else reg h1 n)" for n
    using reg_load_all(1) [of id ?ns n h1 "\<lambda>n. ws ! id n"] reg_load_all(2) [of n id ?ns "\<lambda>n. ws ! id n" h1] f1(2) by auto
  let ?h3 = "(set_reg 2 (ws ! 2) ?h2)\<lparr>pc := ws ! 33\<rparr>"
  have s3: "run mmu [Ld 2 (2 * 8) 2, Sret] ?h2 = Some ?h3"
    using map m len f1 r2 by (simp add: ld del: step.simps(1,2) One_nat_def)
  have "run mmu restore h = Some ?h3"
    unfolding restore_def by (rule run_appendI [OF s1 run_appendI [OF s2 s3]])
  moreover have "reg ?h3 r = (if r = 0 then 0 else if r = 4 then reg h 4 else ws ! r)" if "r < 32" for r
  proof -
    have "r = 0 \<or> r = 1 \<or> r = 2 \<or> r = 3 \<or> r = 4 \<or> r \<in> {5..<32}" using that by auto
    then show ?thesis using f1 r2 by auto
  qed
  ultimately show ?thesis using f1 by simp
qed

lemma words_of_cx:
  assumes "length ws = 37"
  shows "TrapContext_words (TrapContext_of_words ws) = ws"
proof (rule nth_equalityI)
  fix i assume "i < length (TrapContext_words (TrapContext_of_words ws))"
  then have "i < 32 \<or> i = 32 \<or> i = 33 \<or> i = 34 \<or> i = 35 \<or> i = 36"
    using assms by (auto simp: TrapContext_words_def TrapContext_of_words_def)
  then show "TrapContext_words (TrapContext_of_words ws) ! i = ws ! i"
    using assms by (auto simp: TrapContext_words_def TrapContext_of_words_def nth_append)
qed (use assms in \<open>simp add: TrapContext_words_def TrapContext_of_words_def\<close>)

lemma trap_enter:
  assumes regs: "length (gp h) = 32" and map: "mapped mmu (except (ram h) (page_addr p) 37) (csrs h SATP) (csrs h SSCRATCH) (page_addr p) 37"
  defines "cx \<equiv> read_trap_cx (ram h) p"
  shows "\<exists>h'. run mmu alltraps h = Some h' \<and> reg h' 2 = cx_kernel_sp cx \<and> csrs h' SATP = cx_kernel_satp cx \<and> pc h' = cx_trap_handler cx \<and>
    ram h' = write_trap_cx p (cx\<lparr>cx_x := saved h (cx_x cx), cx_sstatus := csrs h SSTATUS, cx_sepc := csrs h SEPC\<rparr>) (ram h)"
proof -
  define ws where "ws = frame (ram h) (page_addr p) 37"
  define ws1 where "ws1 = put_all id (reg h) (rept 5 27) (ws[1 := reg h 1, 3 := reg h 3])"
  define ws' where "ws' = ws1[32 := csrs h SSTATUS, 33 := csrs h SEPC, 2 := reg h 2]"
  have len: "length ws = 37" by (simp add: ws_def)
  have cx: "cx = TrapContext_of_words ws" by (simp add: cx_def ws_def read_trap_cx_frame)
  have m: "ram h = put_frame (page_addr p) ws (ram h)" by (simp add: ws_def put_frame_id)
  have in1: "ws1 ! i = reg h i" if "i \<in> {5..<32}" for i
    unfolding ws1_def using nth_put_all(1) [of id "rept 5 27" i "ws[1 := reg h 1, 3 := reg h 3]" "reg h"] that len by simp
  have out1: "ws1 ! i = ws[1 := reg h 1, 3 := reg h 3] ! i" if "i \<notin> {5..<32}" for i
    unfolding ws1_def using nth_put_all(2) [of i id "rept 5 27"] that by simp
  have l1: "length ws1 = 37" using len by (simp add: ws1_def)
  have "take 32 ws' = saved h (take 32 ws)"
  proof (rule nth_equalityI)
    fix i assume "i < length (take 32 ws')"
    then have i: "i < 32" by simp
    then have "i = 0 \<or> i = 1 \<or> i = 2 \<or> i = 3 \<or> i = 4 \<or> i \<in> {5..<32}" by auto
    moreover have "saved h (take 32 ws) ! i = (if i = 0 \<or> i = 4 then ws ! i else reg h i)" using i by (simp add: saved_def del: upt_Suc)
    ultimately show "take 32 ws' ! i = saved h (take 32 ws) ! i"
      using in1 [of i] out1 [of i] l1 len by (auto simp: ws'_def)
  qed (use l1 in \<open>simp add: saved_def ws'_def\<close>)
  then have "TrapContext_of_words ws' = cx\<lparr>cx_x := saved h (cx_x cx), cx_sstatus := csrs h SSTATUS, cx_sepc := csrs h SEPC\<rparr>"
    using l1 len out1 by (simp add: cx TrapContext_of_words_def ws'_def)
  moreover have "TrapContext_words (TrapContext_of_words ws') = ws'" using l1 by (intro words_of_cx) (simp add: ws'_def)
  ultimately have "put_frame (page_addr p) ws' (ram h)
      = write_trap_cx p (cx\<lparr>cx_x := saved h (cx_x cx), cx_sstatus := csrs h SSTATUS, cx_sepc := csrs h SEPC\<rparr>) (ram h)"
    by (simp add: write_trap_cx_frame)
  moreover note alltraps_run [OF regs map m len, folded ws1_def, folded ws'_def]
  ultimately show ?thesis by (auto simp: cx TrapContext_of_words_def)
qed

lemma trap_leave:
  assumes regs: "length (gp h) = 32" and map: "mapped mmu (except (ram h) (page_addr p) 37) (reg h 11) (reg h 10) (page_addr p) 37"
  defines "cx \<equiv> read_trap_cx (ram h) p"
  shows "\<exists>h'. run mmu restore h = Some h' \<and> ram h' = ram h \<and>
    (\<forall>r < 32. reg h' r = (if r = 0 then 0 else if r = 4 then reg h 4 else cx_x cx ! r)) \<and>
    csrs h' = (csrs h)(SATP := reg h 11, SSCRATCH := reg h 10, SSTATUS := cx_sstatus cx, SEPC := cx_sepc cx) \<and> pc h' = cx_sepc cx"
proof -
  have m: "ram h = put_frame (page_addr p) (frame (ram h) (page_addr p) 37) (ram h)" by (simp add: put_frame_id)
  from restore_run [OF regs map m] show ?thesis by (auto simp: cx_def read_trap_cx_frame TrapContext_of_words_def)
qed

text \<open>
  C15 (roundtrip). A trap is transparent to the user. \<^verbatim>\<open>__alltraps\<close> stores the registers and the control
  registers of the user in the trap context, changes nothing else in memory, and enters
  \<^verbatim>\<open>trap_handler\<close> on the kernel stack and in the kernel space recorded there. When the kernel
  later returns with the same context, \<^verbatim>\<open>__restore\<close> gives the user back every register, its
  address space and its program counter, with \<^verbatim>\<open>sscratch\<close> ready for the next trap. The register
  \<^verbatim>\<open>tp\<close> is not saved; the kernel has to keep it.
\<close>

theorem trap_transparent:
  assumes regs: "length (gp h) = 32" and p: "ppn_ok p" and s: "csrs h SSCRATCH = TRAP_CONTEXT_BASE"
    and map: "mapped mmu (except (ram h) (page_addr p) 37) (csrs h SATP) TRAP_CONTEXT_BASE (page_addr p) 37"
  shows "\<exists>h1 cx. run mmu alltraps h = Some h1 \<and> cx = read_trap_cx (ram h) p \<and>
    ram h1 = write_trap_cx p (cx\<lparr>cx_x := saved h (cx_x cx), cx_sstatus := csrs h SSTATUS, cx_sepc := csrs h SEPC\<rparr>) (ram h) \<and>
    reg h1 2 = cx_kernel_sp cx \<and> csrs h1 SATP = cx_kernel_satp cx \<and> pc h1 = cx_trap_handler cx \<and>
    (\<forall>h2. length (gp h2) = 32 \<and> read_trap_cx (ram h2) p = read_trap_cx (ram h1) p \<and> reg h2 4 = reg h 4 \<and>
        reg h2 10 = TRAP_CONTEXT_BASE \<and> reg h2 11 = csrs h SATP \<and>
        mapped mmu (except (ram h2) (page_addr p) 37) (csrs h SATP) TRAP_CONTEXT_BASE (page_addr p) 37 \<longrightarrow>
      (\<exists>h3. run mmu restore h2 = Some h3 \<and> (\<forall>r < 32. reg h3 r = reg h r) \<and> pc h3 = csrs h SEPC \<and>
        csrs h3 = (csrs h2)(SATP := csrs h SATP, SSCRATCH := TRAP_CONTEXT_BASE, SSTATUS := csrs h SSTATUS, SEPC := csrs h SEPC) \<and>
        ram h3 = ram h2))"
proof -
  let ?cx = "read_trap_cx (ram h) p"
  let ?cx1 = "?cx\<lparr>cx_x := saved h (cx_x ?cx), cx_sstatus := csrs h SSTATUS, cx_sepc := csrs h SEPC\<rparr>"
  obtain h1 where h1: "run mmu alltraps h = Some h1" "reg h1 2 = cx_kernel_sp ?cx" "csrs h1 SATP = cx_kernel_satp ?cx"
      "pc h1 = cx_trap_handler ?cx" "ram h1 = write_trap_cx p ?cx1 (ram h)"
    using trap_enter [OF regs] map s by metis
  have "cx_ok ?cx1" by (simp add: cx_ok_def saved_def)
  then have cx1: "read_trap_cx (ram h1) p = ?cx1" unfolding h1(5) by (rule read_write_trap_cx [OF p])
  have "\<exists>h3. run mmu restore h2 = Some h3 \<and> (\<forall>r < 32. reg h3 r = reg h r) \<and> pc h3 = csrs h SEPC \<and>
      csrs h3 = (csrs h2)(SATP := csrs h SATP, SSCRATCH := TRAP_CONTEXT_BASE, SSTATUS := csrs h SSTATUS, SEPC := csrs h SEPC) \<and>
      ram h3 = ram h2"
    if h2: "length (gp h2) = 32" "read_trap_cx (ram h2) p = read_trap_cx (ram h1) p" "reg h2 4 = reg h 4"
      "reg h2 10 = TRAP_CONTEXT_BASE" "reg h2 11 = csrs h SATP"
      "mapped mmu (except (ram h2) (page_addr p) 37) (csrs h SATP) TRAP_CONTEXT_BASE (page_addr p) 37" for h2
  proof -
    have x: "cx_x (read_trap_cx (ram h2) p) ! r = reg h r" if "r < 32" "r \<noteq> 0" "r \<noteq> 4" for r
      using that h2(2) cx1 by (simp add: saved_def del: upt_Suc)
    show ?thesis using trap_leave [OF h2(1), of mmu p] h2 cx1 x by auto
  qed
  then show ?thesis using h1 by blast
qed

theorem trap_transparent_witness:
  "\<exists>mmu h p h1 h2 h3. ppn_ok p \<and> csrs h SSCRATCH = TRAP_CONTEXT_BASE \<and> reg h 10 = 7 \<and> run mmu alltraps h = Some h1 \<and>
     read_trap_cx (ram h2) p = read_trap_cx (ram h1) p \<and> reg h2 7 = 5 \<and> run mmu restore h2 = Some h3 \<and> reg h3 7 = 3 \<and> reg h3 10 = 7"
proof -
  let ?p = "PhysPageNum 5"
  let ?mmu = "\<lambda>m t v. Some (page_addr ?p + (v - TRAP_CONTEXT_BASE)) :: usize option"
  let ?h = "\<lparr>gp = (replicate 32 0)[7 := 3, 10 := 7], csrs = (\<lambda>c. if c = SSCRATCH then TRAP_CONTEXT_BASE else 9), pc = 0, ram = \<lambda>x. 0\<rparr>"
  have map: "mapped ?mmu M t TRAP_CONTEXT_BASE (page_addr ?p) 37" for M t by (simp add: mapped_def)
  have p: "ppn_ok ?p" by (simp add: ppn_ok_def)
  obtain h1 where h1: "run ?mmu alltraps ?h = Some h1"
    and ret: "\<And>h2. length (gp h2) = 32 \<and> read_trap_cx (ram h2) ?p = read_trap_cx (ram h1) ?p \<and> reg h2 4 = reg ?h 4 \<and>
        reg h2 10 = TRAP_CONTEXT_BASE \<and> reg h2 11 = csrs ?h SATP \<longrightarrow> (\<exists>h3. run ?mmu restore h2 = Some h3 \<and> (\<forall>r < 32. reg h3 r = reg ?h r))"
    using trap_transparent [of ?h ?p ?mmu] p map by (simp (no_asm_use)) blast
  let ?h2 = "\<lparr>gp = (replicate 32 0)[7 := 5, 10 := TRAP_CONTEXT_BASE, 11 := 9], csrs = (\<lambda>c. 0), pc = 0, ram = ram h1\<rparr>"
  obtain h3 where h3: "run ?mmu restore ?h2 = Some h3" "\<forall>r < 32. reg h3 r = reg ?h r"
    using ret [of ?h2] by (auto simp: reg_def)
  then have "reg h3 7 = reg ?h 7" "reg h3 10 = reg ?h 10" by simp_all
  then have "reg h3 7 = 3" "reg h3 10 = 7" by (simp_all add: reg_def)
  then show ?thesis using p h1 h3(1)
    by - (rule exI [of _ ?mmu], rule exI [of _ ?h], rule exI [of _ ?p], rule exI [of _ h1], rule exI [of _ ?h2],
      rule exI [of _ h3], simp, simp add: reg_def)
qed

section \<open>Switching\<close>

text \<open>A task context in memory, and the registers of a hart that it holds.\<close>

definition read_task_cx :: "phys_mem \<Rightarrow> usize \<Rightarrow> TaskContext" where
  "read_task_cx m a = (let ws = frame m a 14 in \<lparr>tc_ra = ws ! 0, tc_sp = ws ! 1, tc_s = drop 2 ws\<rparr>)"

definition hart_cx :: "hart \<Rightarrow> TaskContext" where
  "hart_cx h = \<lparr>tc_ra = reg h 1, tc_sp = reg h 2, tc_s = map (\<lambda>n. reg h (x_s n)) [0..<12]\<rparr>"

definition apart_frames :: "usize \<Rightarrow> usize \<Rightarrow> bool" where
  "apart_frames a b \<longleftrightarrow> unat a + 112 \<le> 2 ^ 64 \<and> unat b + 112 \<le> 2 ^ 64 \<and> (unat a + 112 \<le> unat b \<or> unat b + 112 \<le> unat a)"

lemma frame_apart:
  assumes "apart_frames a b" and "length ws = 14"
  shows "frame (put_frame a ws m) b 14 = frame m b 14"
  unfolding frame_def put_frame_def using assms by (subst mem_get_put_disjoint) (auto simp: apart_frames_def)

lemma inj_x_s: "inj_on x_s A"
  by (auto simp: inj_on_def x_s_def split: if_splits)

lemma x_s_regs: "n < 12 \<Longrightarrow> x_s n \<in> {8, 9} \<union> {18..<28}"
  by (auto simp: x_s_def)

text \<open>The part of \<^verbatim>\<open>__switch\<close> that saves.\<close>

lemma switch_saves:
  assumes map: "mapped mmu (except m a 14) (csrs h SATP) (reg h 10) a 14"
    and m: "ram h = put_frame a ws m" and len: "length ws = 14"
  defines "ws' \<equiv> put_all (\<lambda>n. n + 2) (\<lambda>n. reg h (x_s n)) (rept 0 12) (ws[1 := reg h 2, 0 := reg h 1])"
  shows "run mmu ([Sd 2 8 10, Sd 1 0 10] @ map SAVE_SN (rept 0 12)) h = Some (h\<lparr>ram := put_frame a ws' m\<rparr>)"
proof (rule run_appendI)
  let ?ws = "ws[1 := reg h 2, 0 := reg h 1]"
  note sd = step_Sd [where a = a and m = m]
  show "run mmu [Sd 2 8 10, Sd 1 0 10] h = Some (h\<lparr>ram := put_frame a ?ws m\<rparr>)"
    using map m len by (simp add: sd [where ws = ws] sd [where ws = "ws[1 := reg h 2]"] del: step.simps(1,2) One_nat_def)
  have "SAVE_SN = (\<lambda>n. Sd (x_s n) ((n + 2) * 8) 10)" by (simp add: SAVE_SN_def fun_eq_iff)
  then show "run mmu (map SAVE_SN (rept 0 12)) (h\<lparr>ram := put_frame a ?ws m\<rparr>) = Some (h\<lparr>ram := put_frame a ws' m\<rparr>)"
    using run_stores [of mmu m a 14 "h\<lparr>ram := put_frame a ?ws m\<rparr>" 10 ?ws "rept 0 12" "\<lambda>n. n + 2" x_s] map len
    by (simp add: ws'_def)
qed

text \<open>The part that loads.\<close>

lemma switch_loads:
  assumes regs: "length (gp h) = 32" and map: "mapped mmu (except m b 14) (csrs h SATP) (reg h 11) b 14"
    and m: "ram h = put_frame b ws m" and len: "length ws = 14"
  shows "\<exists>h'. run mmu ([Ld 1 0 11] @ map LOAD_SN (rept 0 12) @ [Ld 2 8 11, Jr 1]) h = Some h' \<and> ram h' = ram h \<and>
    length (gp h') = 32 \<and> csrs h' = csrs h \<and> pc h' = ws ! 0 \<and> hart_cx h' = \<lparr>tc_ra = ws ! 0, tc_sp = ws ! 1, tc_s = drop 2 ws\<rparr>"
proof -
  note ld = step_Ld [where a = b and m = m and ws = ws]
  let ?h1 = "set_reg 1 (ws ! 0) h"
  let ?h2 = "load_all x_s (\<lambda>n. ws ! (n + 2)) (rept 0 12) ?h1"
  let ?h3 = "(set_reg 2 (ws ! 1) ?h2)\<lparr>pc := ws ! 0\<rparr>"
  have s1: "run mmu [Ld 1 0 11] h = Some ?h1" using map m len by (simp add: ld del: step.simps(1,2) One_nat_def)
  have "LOAD_SN = (\<lambda>n. Ld (x_s n) ((n + 2) * 8) 11)" by (simp add: LOAD_SN_def fun_eq_iff)
  moreover have "11 \<notin> x_s ` {0..<12}" using x_s_regs by force
  ultimately have s2: "run mmu (map LOAD_SN (rept 0 12)) ?h1 = Some ?h2"
    using run_loads [of mmu m b 14 ?h1 11 ws "rept 0 12" "\<lambda>n. n + 2" x_s] map m len regs by simp
  have in2: "reg ?h2 (x_s n) = ws ! (n + 2)" if "n < 12" for n
    using reg_load_all(1) [of x_s "rept 0 12" n ?h1] inj_x_s that x_s_regs [OF that] regs by auto
  have out2: "reg ?h2 r = reg ?h1 r" if "r \<in> {1, 2, 11}" for r
    using that x_s_regs by (intro reg_load_all(2)) force
  have s3: "run mmu [Ld 2 8 11, Jr 1] ?h2 = Some ?h3"
    using map m len regs out2 by (simp add: ld del: step.simps(1,2) One_nat_def)
  have "map (\<lambda>n. reg ?h3 (x_s n)) [0..<12] = drop 2 ws"
  proof (rule nth_equalityI)
    fix i assume "i < length (map (\<lambda>n. reg ?h3 (x_s n)) [0..<12])"
    then have i: "i < 12" by simp
    then show "map (\<lambda>n. reg ?h3 (x_s n)) [0..<12] ! i = drop 2 ws ! i"
      using in2 [OF i] x_s_regs [OF i] regs len by (auto simp: add.commute simp del: upt_Suc)
  qed (use len in simp)
  then have "hart_cx ?h3 = \<lparr>tc_ra = ws ! 0, tc_sp = ws ! 1, tc_s = drop 2 ws\<rparr>"
    using out2 regs by (simp add: hart_cx_def)
  moreover have "run mmu ([Ld 1 0 11] @ map LOAD_SN (rept 0 12) @ [Ld 2 8 11, Jr 1]) h = Some ?h3"
    by (rule run_appendI [OF s1 run_appendI [OF s2 s3]])
  ultimately show ?thesis using regs by simp
qed

lemma switch_run:
  assumes regs: "length (gp h) = 32" and ab: "apart_frames a b"
    and cur: "mapped mmu (except (ram h) a 14) (csrs h SATP) (reg h 10) a 14"
    and nxt: "\<forall>m \<in> except (ram h) a 14. mapped mmu (except m b 14) (csrs h SATP) (reg h 11) b 14"
  shows "\<exists>h'. run mmu switch h = Some h' \<and> read_task_cx (ram h') a = hart_cx h \<and> hart_cx h' = read_task_cx (ram h) b \<and>
    pc h' = tc_ra (read_task_cx (ram h) b) \<and> csrs h' = csrs h \<and> ram h' \<in> except (ram h) a 14"
proof -
  define ws where "ws = frame (ram h) a 14"
  define ws' where "ws' = put_all (\<lambda>n. n + 2) (\<lambda>n. reg h (x_s n)) (rept 0 12) (ws[1 := reg h 2, 0 := reg h 1])"
  have len: "length ws = 14" "length ws' = 14" by (simp_all add: ws_def ws'_def)
  have m: "ram h = put_frame a ws (ram h)" by (simp add: ws_def put_frame_id)
  let ?m = "put_frame a ws' (ram h)"
  have s1: "run mmu ([Sd 2 8 10, Sd 1 0 10] @ map SAVE_SN (rept 0 12)) h = Some (h\<lparr>ram := ?m\<rparr>)"
    using switch_saves [OF cur m len(1)] by (simp add: ws'_def)
  have e: "?m \<in> except (ram h) a 14" using put_frame_except [of a ws' "ram h"] len(2) by simp
  have "?m = put_frame b (frame ?m b 14) ?m" by (simp add: put_frame_id)
  then have fb: "?m = put_frame b (frame (ram h) b 14) ?m" using frame_apart [OF ab len(2)] by simp
  have l: "length (gp (h\<lparr>ram := ?m\<rparr>)) = 32" "mapped mmu (except ?m b 14) (csrs (h\<lparr>ram := ?m\<rparr>) SATP) (reg (h\<lparr>ram := ?m\<rparr>) 11) b 14"
      "ram (h\<lparr>ram := ?m\<rparr>) = put_frame b (frame (ram h) b 14) ?m" "csrs (h\<lparr>ram := ?m\<rparr>) = csrs h" "ram (h\<lparr>ram := ?m\<rparr>) = ?m"
    using bspec [OF nxt e] regs fb by simp_all
  obtain h' where h': "run mmu ([Ld 1 0 11] @ map LOAD_SN (rept 0 12) @ [Ld 2 8 11, Jr 1]) (h\<lparr>ram := ?m\<rparr>) = Some h'"
      "ram h' = ?m" "csrs h' = csrs h" "pc h' = frame (ram h) b 14 ! 0" "hart_cx h' = read_task_cx (ram h) b"
    using switch_loads [OF l(1-3) length_frame] unfolding l(4,5) read_task_cx_def Let_def by blast
  have "run mmu switch h = Some h'"
    using run_appendI [OF s1 h'(1)] unfolding switch_def by simp
  moreover have "read_task_cx ?m a = hart_cx h"
  proof -
    have s: "ws' ! (n + 2) = reg h (x_s n)" if "n < 12" for n
      unfolding ws'_def using that len(1) by (intro nth_put_all(1) [where pos = "\<lambda>n. n + 2"]) (auto simp: inj_on_def)
    have "ws' ! i = ws[1 := reg h 2, 0 := reg h 1] ! i" if "i < 2" for i
      unfolding ws'_def using that by (intro nth_put_all(2)) auto
    then have "ws' ! 0 = reg h 1" "ws' ! 1 = reg h 2" using len(1) by simp_all
    moreover have "drop 2 ws' = map (\<lambda>n. reg h (x_s n)) [0..<12]"
      using s len(2) by (intro nth_equalityI) (simp_all add: add.commute del: upt_Suc)
    ultimately show ?thesis using len(2) by (simp add: read_task_cx_def hart_cx_def Let_def)
  qed
  ultimately show ?thesis using h' e by (auto simp: read_task_cx_def Let_def)
qed

text \<open>
  C19 (roundtrip). \<^verbatim>\<open>__switch\<close> gives a task back what it had. It stores the return address, the stack
  pointer and the saved registers of the running task in its task context, touches no other memory, and
  continues at the return address of the next task with the registers of its context. A
  later switch to a context that was not changed meanwhile continues the first task after
  its call, with the same stack and saved registers.
\<close>

theorem switch_resumes:
  assumes regs: "length (gp h) = 32" and ab: "apart_frames a b"
    and cur: "mapped mmu (except (ram h) a 14) (csrs h SATP) (reg h 10) a 14"
    and nxt: "\<forall>m \<in> except (ram h) a 14. mapped mmu (except m b 14) (csrs h SATP) (reg h 11) b 14"
  shows "\<exists>h1. run mmu switch h = Some h1 \<and> read_task_cx (ram h1) a = hart_cx h \<and>
    (\<forall>x. 112 \<le> unat (x - a) \<longrightarrow> ram h1 x = ram h x) \<and>
    hart_cx h1 = read_task_cx (ram h) b \<and> pc h1 = tc_ra (read_task_cx (ram h) b) \<and> csrs h1 = csrs h \<and>
    (\<forall>h2 c. length (gp h2) = 32 \<and> read_task_cx (ram h2) a = read_task_cx (ram h1) a \<and> apart_frames c a \<and>
        mapped mmu (except (ram h2) c 14) (csrs h2 SATP) (reg h2 10) c 14 \<and>
        (\<forall>m \<in> except (ram h2) c 14. mapped mmu (except m a 14) (csrs h2 SATP) (reg h2 11) a 14) \<longrightarrow>
      (\<exists>h3. run mmu switch h2 = Some h3 \<and> hart_cx h3 = hart_cx h \<and> pc h3 = reg h 1))"
proof -
  from switch_run [OF assms] obtain h1 where h1: "run mmu switch h = Some h1" "read_task_cx (ram h1) a = hart_cx h"
      "hart_cx h1 = read_task_cx (ram h) b" "pc h1 = tc_ra (read_task_cx (ram h) b)" "csrs h1 = csrs h" "ram h1 \<in> except (ram h) a 14"
    by blast
  have "\<exists>h3. run mmu switch h2 = Some h3 \<and> hart_cx h3 = hart_cx h \<and> pc h3 = reg h 1"
    if h2: "length (gp h2) = 32" "read_task_cx (ram h2) a = read_task_cx (ram h1) a" "apart_frames c a"
      "mapped mmu (except (ram h2) c 14) (csrs h2 SATP) (reg h2 10) c 14"
      "\<forall>m \<in> except (ram h2) c 14. mapped mmu (except m a 14) (csrs h2 SATP) (reg h2 11) a 14" for h2 c
    using switch_run [OF h2(1,3,4,5)] h2(2) h1(2) by (auto simp: hart_cx_def)
  then show ?thesis using h1 by (auto simp: except_def)
qed

theorem switch_resumes_witness:
  "\<exists>mmu h h1 h2 h3. apart_frames 4096 8192 \<and> hart_cx h1 = read_task_cx (ram h) 8192 \<and> run mmu switch h = Some h1 \<and>
     read_task_cx (ram h2) 4096 = hart_cx h \<and> reg h2 2 \<noteq> 77 \<and> run mmu switch h2 = Some h3 \<and> reg h 2 = 77 \<and> reg h3 2 = 77"
proof -
  let ?mmu = "\<lambda>m t v. Some v :: usize option"
  let ?h = "\<lparr>gp = (replicate 32 0)[2 := 77, 10 := 4096, 11 := 8192], csrs = (\<lambda>c. 0), pc = 0, ram = \<lambda>x. 0\<rparr>"
  have ap: "apart_frames 4096 8192" "apart_frames 8192 4096" by (simp_all add: apart_frames_def)
  have map: "mapped ?mmu M t v v 14" for M t v by (simp add: mapped_def)
  obtain h1 where h1: "run ?mmu switch ?h = Some h1" "read_task_cx (ram h1) 4096 = hart_cx ?h" "hart_cx h1 = read_task_cx (ram ?h) 8192"
    and ret: "\<And>h2 c. length (gp h2) = 32 \<and> read_task_cx (ram h2) 4096 = read_task_cx (ram h1) 4096 \<and> apart_frames c 4096 \<and>
        mapped ?mmu (except (ram h2) c 14) (csrs h2 SATP) (reg h2 10) c 14 \<and>
        (\<forall>m \<in> except (ram h2) c 14. mapped ?mmu (except m 4096 14) (csrs h2 SATP) (reg h2 11) 4096 14) \<longrightarrow>
      (\<exists>h3. run ?mmu switch h2 = Some h3 \<and> hart_cx h3 = hart_cx ?h)"
    using switch_resumes [of ?h 4096 8192 ?mmu] ap map by (simp (no_asm_use) add: reg_def) blast
  let ?h2 = "\<lparr>gp = (replicate 32 0)[10 := 8192, 11 := 4096], csrs = (\<lambda>c. 0), pc = 0, ram = ram h1\<rparr>"
  obtain h3 where h3: "run ?mmu switch ?h2 = Some h3" "hart_cx h3 = hart_cx ?h"
    using ret [of ?h2 8192] ap map by (auto simp: reg_def)
  then have "reg h3 2 = reg ?h 2" by (simp add: hart_cx_def)
  then have "reg h3 2 = 77" "reg ?h 2 = 77" by (simp_all add: reg_def)
  then show ?thesis using ap h1 h3(1)
    by - (rule exI [of _ ?mmu], rule exI [of _ ?h], rule exI [of _ h1], rule exI [of _ ?h2], rule exI [of _ h3], simp, simp add: reg_def)
qed

end
