(* ===== verification/PackSpec.thy ===== *)
theory PackSpec
  imports FsDirSpec
begin

text \<open>
  The image packer, \<^verbatim>\<open>easy_fs_pack\<close> of \<^verbatim>\<open>easy-fs-fuse/src/main.rs\<close>. The names and contents of the
  applications that the host's directory yields, in its order, are an argument, and so are
  the bytes that the output file has before.
\<close>

section \<open>Definitions\<close>

definition PACK_BLOCKS :: u32 where
  "PACK_BLOCKS = 14000"

definition set_len :: "nat \<Rightarrow> image_file \<Rightarrow> image_file" where
  "set_len n f = f\<lparr>contents := take n (contents f) @ replicate (n - length (contents f)) 0\<rparr>"

fun pack_loop ::
  "'s block_ops \<Rightarrow> EasyFileSystem \<Rightarrow> Inode \<Rightarrow> (bytes \<times> bytes) list \<Rightarrow> 's \<Rightarrow> 's option" where
  "pack_loop B efs root [] s = Some s"
| "pack_loop B efs root ((name, all_data) # apps) s = do {
     (r, s1) \<leftarrow> Inode_create B efs root name s;
     inode \<leftarrow> r;
     (k, s2) \<leftarrow> Inode_write_at B efs inode 0 all_data s1;
     pack_loop B efs root apps s2
   }"

definition easy_fs_pack ::
  "(bytes \<times> bytes) list \<Rightarrow> image_file \<Rightarrow> ((EasyFileSystem \<times> bytes list) \<times> image_file cache_state) option" where
  "easy_fs_pack apps f = do {
     let s = BlockCacheManager_new (set_len (14000 * 512) f);
     (efs, s1) \<leftarrow> EasyFileSystem_create (cache_ops BlockFile) PACK_BLOCKS 1 s;
     s2 \<leftarrow> pack_loop (cache_ops BlockFile) efs (root_inode efs) apps s1;
     (names, s3) \<leftarrow> Inode_ls (cache_ops BlockFile) (root_inode efs) s2;
     Some ((efs, names), s3)
   }"

section \<open>Packing\<close>

abbreviation pack_blocks :: "(bytes \<times> bytes) list \<Rightarrow> nat" where
  "pack_blocks apps \<equiv> sum_list (map (\<lambda>(name, data). blocks_for (length data)) apps)"

text \<open>Every application is a file of its name with its bytes.\<close>

definition packed :: "(u32 \<Rightarrow> (DiskInodeType \<times> bytes) option) \<Rightarrow> bytes \<Rightarrow> (bytes \<times> bytes) list \<Rightarrow> bool" where
  "packed F bs apps \<longleftrightarrow> (\<forall>(name, data) \<in> set apps. \<exists>j. (name, j) \<in> set (dir_list bs) \<and> F j = Some (File, data))"

lemma pack_loop_returns:
  assumes "block_device D dinv dview N" and "fs_ready dinv dview N E s" and "synced dview s"
    and "files dview E s 0 = Some (Directory, bs)" and "dir_ok bs"
    and "\<forall>(name, data) \<in> set apps. valid_name name \<and> data \<noteq> [] \<and> length data \<le> MAX_FILE_SIZE"
    and "distinct (map fst (dir_list bs) @ map fst apps)"
    and "length apps \<le> free_inodes dview E s" and "length bs + 32 * length apps \<le> MAX_FILE_SIZE"
    and "blocks_for (length bs + 32 * length apps) + pack_blocks apps \<le> blocks_for (length bs) + free_blocks dview N E s"
  shows "\<exists>s' bs'. pack_loop (cache_ops D) E (inode_ref E 0) apps s = Some s' \<and> fs_ready dinv dview N E s' \<and> synced dview s' \<and>
    files dview E s' 0 = Some (Directory, bs') \<and> dir_ok bs' \<and> map fst (dir_list bs') = map fst (dir_list bs) @ map fst apps \<and>
    set (dir_list bs) \<subseteq> set (dir_list bs') \<and> (\<forall>i. i \<noteq> 0 \<longrightarrow> files dview E s i \<noteq> None \<longrightarrow> files dview E s' i = files dview E s i) \<and>
    packed (files dview E s') bs' apps"
  using assms(2-)
proof (induction apps arbitrary: s bs)
  case Nil
  then show ?case by (intro exI [of _ s] exI [of _ bs]) (simp add: packed_def)
next
  case (Cons a apps)
  obtain name data where a: "a = (name, data)" by (cases a)
  have ok: "valid_name name" "data \<noteq> []" "length data \<le> MAX_FILE_SIZE" using Cons.prems(5) a by auto
  have new: "map_of (dir_list bs) name = None" using Cons.prems(6) a by (auto simp: map_of_eq_None_iff)
  have mono: "blocks_for (length bs + 32) \<le> blocks_for (length bs + 32 * length (a # apps))" by (rule blocks_for_mono) simp
  have room: "0 < free_inodes dview E s" "length bs + 32 \<le> MAX_FILE_SIZE"
    "blocks_for (length bs + 32) \<le> blocks_for (length bs) + free_blocks dview N E s"
    using Cons.prems(7-9) mono a by auto
  obtain s1 j bs1 where c: "Inode_create (cache_ops D) E (inode_ref E 0) name s = Some (Some (inode_ref E j), s1)"
      "fs_ready dinv dview N E s1" "synced dview s1" "files dview E s j = None"
      "files dview E s1 = (files dview E s)(j \<mapsto> (File, []), 0 \<mapsto> (Directory, bs1))"
      "dir_ok bs1" "dir_list bs1 = dir_list bs @ [(name, j)]"
      "free_blocks dview N E s1 + blocks_for (length bs1) = free_blocks dview N E s + blocks_for (length bs)"
      "length bs1 = length bs + 32" "Suc (free_inodes dview E s1) = free_inodes dview E s"
    using create_ready [OF assms(1) Cons.prems(1,3,4) ok(1) new room] by blast
  have j0: "j \<noteq> 0" using c(4) Cons.prems(3) by auto
  have j1: "files dview E s1 j = Some (File, [])" using c(5) j0 by simp
  have fit: "0 + length data \<le> MAX_FILE_SIZE" "blocks_for (0 + length data) \<le> blocks_for (length ([] :: bytes)) + free_blocks dview N E s1"
    using ok(3) Cons.prems(9) a c(8,9) mono by auto
  obtain s2 where w: "Inode_write_at (cache_ops D) E (inode_ref E j) 0 data s1 = Some (length data, s2)"
      "fs_ready dinv dview N E s2" "synced dview s2" "files dview E s2 = (files dview E s1)(j \<mapsto> (File, data))"
      "free_blocks dview N E s2 + blocks_for (length data) = free_blocks dview N E s1"
    using write_ready [OF assms(1) c(2) j1 _ ok(2) fit] by auto
  have d2: "files dview E s2 0 = Some (Directory, bs1)" using w(4) c(5) j0 by simp
  have "dom (files dview E s2) = dom (files dview E s1)" using w(4) j1 by auto
  then have in2: "free_inodes dview E s2 = free_inodes dview E s1" using free_inodes_eq [OF w(2)] free_inodes_eq [OF c(2)] by simp
  have names: "distinct (map fst (dir_list bs1) @ map fst apps)" using Cons.prems(6) c(7) a by auto
  have sz: "length apps \<le> free_inodes dview E s2" "length bs1 + 32 * length apps \<le> MAX_FILE_SIZE"
    "blocks_for (length bs1 + 32 * length apps) + pack_blocks apps \<le> blocks_for (length bs1) + free_blocks dview N E s2"
    using Cons.prems(7-9) in2 c(8-10) w(5) a by (simp_all add: add.assoc)
  have rest: "\<forall>(name, data) \<in> set apps. valid_name name \<and> data \<noteq> [] \<and> length data \<le> MAX_FILE_SIZE" using Cons.prems(5) by simp
  obtain s' bs' where r: "pack_loop (cache_ops D) E (inode_ref E 0) apps s2 = Some s'" "fs_ready dinv dview N E s'" "synced dview s'"
      "files dview E s' 0 = Some (Directory, bs')" "dir_ok bs'" "map fst (dir_list bs') = map fst (dir_list bs1) @ map fst apps"
      "set (dir_list bs1) \<subseteq> set (dir_list bs')" "\<forall>i. i \<noteq> 0 \<longrightarrow> files dview E s2 i \<noteq> None \<longrightarrow> files dview E s' i = files dview E s2 i"
      "packed (files dview E s') bs' apps"
    using Cons.IH [OF w(2,3) d2 c(6) rest names sz] by blast
  have "files dview E s' j = Some (File, data)" using r(8) j0 w(4) by simp
  then have "packed (files dview E s') bs' (a # apps)" using r(7,9) c(7) a by (auto simp: packed_def)
  moreover have "files dview E s' i = files dview E s i" if "i \<noteq> 0" "files dview E s i \<noteq> None" for i
    using r(8) that w(4) c(4,5) by auto
  moreover have "pack_loop (cache_ops D) E (inode_ref E 0) (a # apps) s = Some s'" using c(1) w(1) r(1) a by simp
  ultimately show ?case using r(2-7) c(7) a by (intro exI [of _ s'] exI [of _ bs']) auto
qed

lemma set_len_ok: "file_ok n (set_len (n * 512) f)"
  by (simp add: file_ok_def set_len_def)

abbreviation pack_efs :: EasyFileSystem where
  "pack_efs \<equiv> fst (EasyFileSystem_layout PACK_BLOCKS 1)"

lemma create_pack:
  "\<exists>s. EasyFileSystem_create (cache_ops BlockFile) PACK_BLOCKS 1 (BlockCacheManager_new (set_len (14000 * 512) f)) = Some (pack_efs, s) \<and>
     fs_ready (file_ok 14000) file_block 14000 pack_efs s \<and> synced file_block s \<and>
     files file_block pack_efs s = [0 \<mapsto> (Directory, [])] \<and>
     free_blocks file_block 14000 pack_efs s = 12970 \<and> free_inodes file_block pack_efs s = 4095"
proof -
  let ?s = "BlockCacheManager_new (set_len (14000 * 512) f)"
  note B = block_device.cache_store [OF image.block_device_axioms, of 14000]
  have s0: "cache_inv (file_ok 14000) file_block 14000 ?s" "cache_held ?s = {}"
    using empty_cache set_len_ok [of 14000 f] by simp_all
  obtain s where s: "EasyFileSystem_create (cache_ops BlockFile) PACK_BLOCKS 1 ?s = Some (pack_efs, s)"
      "cache_inv (file_ok 14000) file_block 14000 s" "cache_held s = {}" "synced file_block s" "efs_ok 14000 pack_efs"
      "fresh 14000 pack_efs (snd (EasyFileSystem_layout PACK_BLOCKS 1)) (cache_view file_block s)"
    using block_store.create_returns [OF B s0, of 1 PACK_BLOCKS] unfolding block_store.settles_def [OF B]
    by (auto simp: PACK_BLOCKS_def)
  have "disk_ok 14000 (cache_view file_block s)" using block_store.view_ok [OF B s(2)] .
  note f = fresh_fs_inv [OF s(5) this s(6)]
  have E: "data_start pack_efs = 1030" "Bitmap_maximum (inode_bitmap pack_efs) = 4096"
    by (simp_all add: EasyFileSystem_layout_def PACK_BLOCKS_def Let_def data_start_def Bitmap_maximum_def Bitmap_new_def)
  have rd: "fs_ready (file_ok 14000) file_block 14000 pack_efs s" using s(2,3) f(1) by (simp add: fs_ready_def)
  have fl: "files file_block pack_efs s = [0 \<mapsto> (Directory, [])]" using f(2) by (simp add: files_def)
  have "free_inodes file_block pack_efs s = 4095" using free_inodes_eq [OF rd] fl E(2) by simp
  moreover have "free_blocks file_block 14000 pack_efs s = 12970" using f(3) E(1) by (simp add: free_blocks_def)
  ultimately show ?thesis using s(1,4) rd fl by blast
qed

text \<open>
  C17 (roundtrip). Packing non-empty applications with different valid names that fit on the image ends
  without a panic, whatever the output file held before. The root directory lists exactly
  their names, in the order of the host directory, every name leads to a file with the
  bytes of the application, and the image file holds all of it before the names are printed.
\<close>

theorem pack_image:
  assumes apps: "\<forall>(name, data) \<in> set apps. valid_name name \<and> data \<noteq> [] \<and> length data \<le> MAX_FILE_SIZE"
    and names: "distinct (map fst apps)" and count: "length apps \<le> 4095"
    and fit: "blocks_for (32 * length apps) + pack_blocks apps \<le> 12970"
  shows "\<exists>E s1 s2 s3 bs. easy_fs_pack apps f = Some ((E, map fst apps), s3) \<and>
     EasyFileSystem_create (cache_ops BlockFile) PACK_BLOCKS 1 (BlockCacheManager_new (set_len (14000 * 512) f)) = Some (E, s1) \<and>
     pack_loop (cache_ops BlockFile) E (root_inode E) apps s1 = Some s2 \<and> synced file_block s2 \<and>
     files file_block E s3 = files file_block E s2 \<and> files file_block E s3 0 = Some (Directory, bs) \<and>
     map fst (dir_list bs) = map fst apps \<and>
     (\<forall>(name, data) \<in> set apps. \<exists>j. map_of (dir_list bs) name = Some j \<and> files file_block E s3 j = Some (File, data))"
proof -
  obtain s1 where s1: "EasyFileSystem_create (cache_ops BlockFile) PACK_BLOCKS 1 (BlockCacheManager_new (set_len (14000 * 512) f))
        = Some (pack_efs, s1)"
      "fs_ready (file_ok 14000) file_block 14000 pack_efs s1" "synced file_block s1"
      "files file_block pack_efs s1 = [0 \<mapsto> (Directory, [])]" "free_blocks file_block 14000 pack_efs s1 = 12970"
      "free_inodes file_block pack_efs s1 = 4095"
    using create_pack by blast
  have root: "files file_block pack_efs s1 0 = Some (Directory, [])" using s1(4) by simp
  have h: "distinct (map fst (dir_list []) @ map fst apps)" "length apps \<le> free_inodes file_block pack_efs s1"
    "length ([] :: bytes) + 32 * length apps \<le> MAX_FILE_SIZE"
    "blocks_for (length ([] :: bytes) + 32 * length apps) + pack_blocks apps
      \<le> blocks_for (length ([] :: bytes)) + free_blocks file_block 14000 pack_efs s1"
    using names count fit s1(5,6) by (simp_all add: dir_Nil MAX_FILE_SIZE_def)
  obtain s2 bs where s2: "pack_loop (cache_ops BlockFile) pack_efs (inode_ref pack_efs 0) apps s1 = Some s2"
      "fs_ready (file_ok 14000) file_block 14000 pack_efs s2" "synced file_block s2"
      "files file_block pack_efs s2 0 = Some (Directory, bs)" "dir_ok bs" "map fst (dir_list bs) = map fst (dir_list []) @ map fst apps"
      "packed (files file_block pack_efs s2) bs apps"
    using pack_loop_returns [OF image.block_device_axioms s1(2,3) root dir_Nil(1) apps h] by blast
  note B = block_device.cache_store [OF image.block_device_axioms, of 14000]
  obtain s3 where s3: "Inode_ls (cache_ops BlockFile) (inode_ref pack_efs 0) s2 = Some (map fst (dir_list bs), s3)"
      "cache_view file_block s3 = cache_view file_block s2"
    using block_store.Inode_ls_returns [OF B fs_readyD [OF s2(2)] s2(4) [unfolded files_def] s2(5)]
    unfolding block_store.returns_def [OF B] by auto
  have r: "root_inode pack_efs = inode_ref pack_efs 0" by (simp add: root_inode_def inode_ref_def)
  have nm: "map fst (dir_list bs) = map fst apps" using s2(6) by (simp add: dir_Nil)
  have "easy_fs_pack apps f = Some ((pack_efs, map fst apps), s3)"
    unfolding easy_fs_pack_def Let_def r s1(1) using s2(1) s3(1) nm r by simp
  moreover have "\<exists>j. map_of (dir_list bs) name = Some j \<and> files file_block pack_efs s3 j = Some (File, data)"
    if nd: "(name, data) \<in> set apps" for name data
  proof -
    obtain j where j: "(name, j) \<in> set (dir_list bs)" "files file_block pack_efs s2 j = Some (File, data)"
      using s2(7) nd unfolding packed_def by blast
    have "map_of (dir_list bs) name = Some j" using j(1) nm names by (simp add: map_of_eq_Some_iff)
    then show ?thesis using j(2) s3(2) by (simp add: files_def)
  qed
  ultimately show ?thesis using s1(1) s2(1,3,4) s3(2) nm r
    by (intro exI [of _ pack_efs] exI [of _ s1] exI [of _ s2] exI [of _ s3] exI [of _ bs]) (auto simp: files_def)
qed

theorem pack_image_witness:
  "\<exists>E s. easy_fs_pack [([97], [1, 2]), ([98], [3])] \<lparr>contents = [9], cursor = 0\<rparr> = Some ((E, [[97], [98]]), s)"
  using pack_image [of "[([97], [1, 2]), ([98], [3])]" "\<lparr>contents = [9], cursor = 0\<rparr>"]
  by (auto simp: valid_name_def MAX_FILE_SIZE_def blocks_for_small)

end
