(* ===== verification/VirtioBlk.thy ===== *)
theory VirtioBlk
  imports MemSpec BlockDev
begin

text \<open>
  The block driver, \<^verbatim>\<open>os/src/drivers/block/virtio_blk.rs\<close>. The driver proper is the external crate
  \<^verbatim>\<open>virtio_drivers\<close>: its two operations, which may report an error, are the record \<open>VirtIOBlk\<close>.
  The kernel's side is the block device made of them and the memory services of \<^verbatim>\<open>VirtioHal\<close>:
  contiguous physical pages for the queues of the device, kept in \<^verbatim>\<open>QUEUE_FRAMES\<close>.
\<close>

section \<open>Definitions\<close>

record 'd VirtIOBlk =
  vb_read :: "nat \<Rightarrow> 'd \<Rightarrow> (unit + bytes) \<times> 'd"
  vb_write :: "nat \<Rightarrow> bytes \<Rightarrow> 'd \<Rightarrow> (unit + unit) \<times> 'd"

definition VirtIOBlock_read_block :: "'d VirtIOBlk \<Rightarrow> nat \<Rightarrow> 'd \<Rightarrow> (bytes \<times> 'd) option" where
  "VirtIOBlock_read_block V block_id d =
     (case vb_read V block_id d of (Inl e, d') \<Rightarrow> None | (Inr buf, d') \<Rightarrow> Some (buf, d'))"

definition VirtIOBlock_write_block :: "'d VirtIOBlk \<Rightarrow> nat \<Rightarrow> bytes \<Rightarrow> 'd \<Rightarrow> 'd option" where
  "VirtIOBlock_write_block V block_id buf d =
     (case vb_write V block_id buf d of (Inl e, d') \<Rightarrow> None | (Inr u, d') \<Rightarrow> Some d')"

definition VirtIOBlock :: "'d VirtIOBlk \<Rightarrow> 'd BlockDevice" where
  "VirtIOBlock V = \<lparr>read_block = VirtIOBlock_read_block V, write_block = VirtIOBlock_write_block V\<rparr>"

fun dma_alloc_loop ::
  "nat list \<Rightarrow> PhysPageNum \<Rightarrow> FrameTracker list \<Rightarrow> kmem \<Rightarrow> (PhysPageNum \<times> FrameTracker list \<times> kmem) option" where
  "dma_alloc_loop [] ppn_base queue_frames k = Some (ppn_base, queue_frames, k)"
| "dma_alloc_loop (i # is) ppn_base queue_frames k = do {
     (frame, k) \<leftarrow> frame_alloc_unwrap k;
     let ppn_base = (if i = 0 then frame_ppn frame else ppn_base);
     if ppn (frame_ppn frame) \<noteq> ppn ppn_base + of_nat i then None
     else dma_alloc_loop is ppn_base (queue_frames @ [frame]) k
   }"

definition dma_alloc :: "nat \<Rightarrow> FrameTracker list \<Rightarrow> kmem \<Rightarrow> (usize \<times> FrameTracker list \<times> kmem) option" where
  "dma_alloc pages queue_frames k = do {
     (ppn_base, queue_frames, k) \<leftarrow> dma_alloc_loop [0..<pages] (PhysPageNum 0) queue_frames k;
     Some (pa (PhysAddr_of_PhysPageNum ppn_base), queue_frames, k)
   }"

fun dma_dealloc_loop :: "nat \<Rightarrow> PhysPageNum \<Rightarrow> kmem \<Rightarrow> kmem option" where
  "dma_dealloc_loop 0 ppn_base k = Some k"
| "dma_dealloc_loop (Suc n) ppn_base k = do {
     k \<leftarrow> frame_dealloc ppn_base k;
     dma_dealloc_loop n (PhysPageNum_step ppn_base) k
   }"

definition dma_dealloc :: "usize \<Rightarrow> nat \<Rightarrow> kmem \<Rightarrow> (int \<times> kmem) option" where
  "dma_dealloc a pages k = do {
     ppn_base \<leftarrow> PhysPageNum_of_PhysAddr (PhysAddr_of_usize a);
     k \<leftarrow> dma_dealloc_loop pages ppn_base k;
     Some (0, k)
   }"

definition phys_to_virt :: "usize \<Rightarrow> usize" where
  "phys_to_virt addr = addr"

definition virt_to_phys :: "phys_mem \<Rightarrow> usize \<Rightarrow> usize \<Rightarrow> usize option" where
  "virt_to_phys m kernel_token vaddr =
     map_option pa (translate_va m (PageTable_from_token kernel_token) (VirtAddr_of_usize vaddr))"

section \<open>The block device\<close>

text \<open>
  A driver whose operations succeed inside the device and behave like memory gives a block
  device that meets the contract of the file system.
\<close>

lemma VirtIOBlock_device:
  assumes "\<And>d b. dinv d \<Longrightarrow> b < n \<Longrightarrow> \<exists>d'. vb_read V b d = (Inr (dview d b), d') \<and> dinv d' \<and> dview d' = dview d"
    and "\<And>d b bs. dinv d \<Longrightarrow> b < n \<Longrightarrow> length bs = BLOCK_SZ \<Longrightarrow>
      \<exists>d'. vb_write V b bs d = (Inr (), d') \<and> dinv d' \<and> dview d' = (dview d)(b := bs)"
    and "\<And>d b. dinv d \<Longrightarrow> b < n \<Longrightarrow> length (dview d b) = BLOCK_SZ"
  shows "block_device (VirtIOBlock V) dinv dview n"
  using assms by unfold_locales
    (fastforce simp: VirtIOBlock_def VirtIOBlock_read_block_def VirtIOBlock_write_block_def)+

section \<open>Contiguous pages\<close>

abbreviation pages_from :: "usize \<Rightarrow> nat \<Rightarrow> nat \<Rightarrow> FrameTracker list" where
  "pages_from c i n \<equiv> map (\<lambda>j. FrameTracker (PhysPageNum (c + of_nat j))) [i..<i + n]"

lemma frame_alloc_next:
  assumes k: "kmem_inv lo k" "sfa_recycled (frame_allocator k) = []" "0 < frames_room k"
  obtains k' where "frame_alloc_unwrap k = Some (FrameTracker (PhysPageNum (sfa_current (frame_allocator k))), k')"
    and "kmem_inv lo k'" and "sfa_recycled (frame_allocator k') = []"
    and "sfa_current (frame_allocator k') = sfa_current (frame_allocator k) + 1"
    and "PhysPageNum (sfa_current (frame_allocator k)) \<notin> frames_live lo k"
    and "frames_live lo k' = insert (PhysPageNum (sfa_current (frame_allocator k))) (frames_live lo k)"
    and "Suc (frames_room k') = frames_room k"
    and "get_bytes_array (phys k') (PhysPageNum (sfa_current (frame_allocator k))) = replicate 4096 0"
    and "\<forall>q. ppn_ok q \<longrightarrow> q \<noteq> PhysPageNum (sfa_current (frame_allocator k)) \<longrightarrow> same_page (phys k) (phys k') q"
proof -
  from k(1,3) obtain p k' where r: "frame_alloc_unwrap k = Some (FrameTracker p, k')" "kmem_inv lo k'"
    "p \<notin> frames_live lo k" "ppn_ok p" "frames_live lo k' = insert p (frames_live lo k)" "Suc (frames_room k') = frames_room k"
    "get_bytes_array (phys k') p = replicate 4096 0" "\<forall>q. ppn_ok q \<longrightarrow> q \<noteq> p \<longrightarrow> same_page (phys k) (phys k') q"
    by (rule frame_alloc_returns)
  have "sfa_current (frame_allocator k) \<noteq> sfa_end (frame_allocator k)" using k(2,3) by (auto simp: frames_room_def sfa_room_def)
  from sfa_alloc_next(1) [OF k(1) [unfolded kmem_inv_def] k(2) this]
  have "p = PhysPageNum (sfa_current (frame_allocator k))" "frame_allocator k' = (frame_allocator k)\<lparr>sfa_current := sfa_current (frame_allocator k) + 1\<rparr>"
    using r(1) by (auto simp: frame_alloc_unwrap_eq)
  then show ?thesis using that r k(2) by simp
qed

text \<open>What the frames handed out so far have in common with the state before.\<close>

definition dma_step :: "usize \<Rightarrow> FrameTracker list \<Rightarrow> kmem \<Rightarrow> kmem \<Rightarrow> bool" where
  "dma_step lo fs k k' \<longleftrightarrow> kmem_inv lo k' \<and> sfa_recycled (frame_allocator k') = [] \<and>
     frames_live lo k' = frames_live lo k \<union> ppns fs \<and> distinct fs \<and> ppns fs \<inter> frames_live lo k = {} \<and>
     frames_room k' + length fs = frames_room k \<and>
     (\<forall>p \<in> ppns fs. get_bytes_array (phys k') p = replicate 4096 0) \<and>
     (\<forall>q. ppn_ok q \<longrightarrow> q \<notin> ppns fs \<longrightarrow> same_page (phys k) (phys k') q)"

lemma dma_step_Cons:
  assumes "kmem_inv lo k1" and "p \<notin> frames_live lo k" and "frames_live lo k1 = insert p (frames_live lo k)"
    and "Suc (frames_room k1) = frames_room k" and "get_bytes_array (phys k1) p = replicate 4096 0"
    and same: "\<forall>q. ppn_ok q \<longrightarrow> q \<noteq> p \<longrightarrow> same_page (phys k) (phys k1) q" and step: "dma_step lo fs k1 k'"
  shows "dma_step lo (FrameTracker p # fs) k k'"
proof -
  note d = step [unfolded dma_step_def]
  have p: "ppn_ok p" using assms(1,3) by (intro live_ppn_ok [OF assms(1)]) simp
  have np: "p \<notin> ppns fs" using d assms(3) by blast
  then have "same_page (phys k1) (phys k') p" using d p by blast
  then have "get_bytes_array (phys k') p = replicate 4096 0" using assms(5) by (simp add: same_page_def)
  moreover have "same_page (phys k) (phys k') q" if "ppn_ok q" "q \<notin> ppns (FrameTracker p # fs)" for q
    using same d that by (auto intro: same_page_trans)
  moreover have "FrameTracker p \<notin> set fs" using np by force
  ultimately show ?thesis unfolding dma_step_def using d assms(2-4) by auto
qed

lemma dma_alloc_loop_returns:
  assumes "kmem_inv lo k" and "sfa_recycled (frame_allocator k) = []" and "n \<le> frames_room k"
    and "sfa_current (frame_allocator k) = c + of_nat i" and "0 < i \<longrightarrow> base = PhysPageNum c"
  shows "\<exists>k'. dma_alloc_loop [i..<i + n] base q k = Some (if n = 0 then base else PhysPageNum c, q @ pages_from c i n, k') \<and>
    dma_step lo (pages_from c i n) k k'"
  using assms
proof (induction n arbitrary: i base q k)
  case 0
  then show ?case by (simp add: dma_step_def)
next
  case (Suc n)
  let ?p = "PhysPageNum (sfa_current (frame_allocator k))"
  have r: "0 < frames_room k" using Suc.prems(3) by simp
  from Suc.prems(1,2) r obtain k1 where a: "frame_alloc_unwrap k = Some (FrameTracker ?p, k1)" "kmem_inv lo k1"
    "sfa_recycled (frame_allocator k1) = []" "sfa_current (frame_allocator k1) = sfa_current (frame_allocator k) + 1"
    "?p \<notin> frames_live lo k" "frames_live lo k1 = insert ?p (frames_live lo k)" "Suc (frames_room k1) = frames_room k"
    "get_bytes_array (phys k1) ?p = replicate 4096 0"
    "\<forall>q. ppn_ok q \<longrightarrow> q \<noteq> ?p \<longrightarrow> same_page (phys k) (phys k1) q"
    by (rule frame_alloc_next)
  let ?b = "if i = 0 then ?p else base"
  have b: "?b = PhysPageNum c" using Suc.prems(4,5) by simp
  have h: "n \<le> frames_room k1" "sfa_current (frame_allocator k1) = c + of_nat (Suc i)" "0 < Suc i \<longrightarrow> PhysPageNum c = PhysPageNum c"
    using a(4,7) Suc.prems(3,4) by simp_all
  obtain k' where k': "dma_alloc_loop [Suc i..<Suc i + n] (PhysPageNum c) (q @ [FrameTracker ?p]) k1
      = Some (if n = 0 then PhysPageNum c else PhysPageNum c, (q @ [FrameTracker ?p]) @ pages_from c (Suc i) n, k')"
      "dma_step lo (pages_from c (Suc i) n) k1 k'"
    using Suc.IH [OF a(2,3) h] by blast
  have l: "[i..<i + Suc n] = i # [Suc i..<Suc i + n]" by (simp add: upt_rec)
  have "pages_from c i (Suc n) = FrameTracker ?p # pages_from c (Suc i) n" unfolding l using Suc.prems(4) by simp
  moreover have "dma_step lo (FrameTracker ?p # pages_from c (Suc i) n) k k'"
    by (rule dma_step_Cons [OF a(2,5,6,7,8,9) k'(2)])
  moreover have "dma_alloc_loop [i..<i + Suc n] base q k = Some (PhysPageNum c, (q @ [FrameTracker ?p]) @ pages_from c (Suc i) n, k')"
    unfolding l using a(1) b k'(1) Suc.prems(4) by (auto simp: Let_def split: if_splits)
  ultimately show ?case by auto
qed

text \<open>
  C37 (functional). As long as no frame has been given back, \<^verbatim>\<open>dma_alloc\<close> with enough free frames
  returns the address of pages that are contiguous in physical memory, were not in use and are
  zeroed, keeps their frames in the queue, and changes no other page.
\<close>

theorem dma_alloc_contiguous:
  assumes inv: "kmem_inv lo k" and fresh: "sfa_recycled (frame_allocator k) = []" and room: "0 < n" "n \<le> frames_room k"
  shows "\<exists>c k'. dma_alloc n q k = Some (page_addr (PhysPageNum c), q @ pages_from c 0 n, k') \<and>
     kmem_inv lo k' \<and> frames_live lo k' = frames_live lo k \<union> ppns (pages_from c 0 n) \<and>
     ppns (pages_from c 0 n) \<inter> frames_live lo k = {} \<and>
     (\<forall>p \<in> ppns (pages_from c 0 n). get_bytes_array (phys k') p = replicate 4096 0) \<and>
     (\<forall>p. ppn_ok p \<longrightarrow> p \<notin> ppns (pages_from c 0 n) \<longrightarrow> same_page (phys k) (phys k') p)"
  using dma_alloc_loop_returns [OF inv fresh room(2), of "sfa_current (frame_allocator k)" 0 "PhysPageNum 0" q] room(1)
  unfolding dma_step_def dma_alloc_def by (auto simp: page_addr_def)

theorem dma_alloc_contiguous_witness:
  "\<exists>c k'. dma_alloc 3 [] small_mem = Some (page_addr (PhysPageNum c), pages_from c 0 3, k')"
  using dma_alloc_contiguous [OF small_mem_ok(1), of 3 "[]"] small_mem_ok(2) by (auto simp: small_mem_def)

section \<open>Pages that are given back\<close>

lemma page_addr_ppn:
  assumes p: "ppn_ok p"
  shows "PhysPageNum_of_PhysAddr (PhysAddr_of_usize (page_addr p)) = Some p"
proof -
  have "unat (take_bit 56 (page_addr p)) = unat (page_addr p)"
    using p by (simp add: unat_take_bit unat_page_addr ppn_ok_def)
  then have b: "take_bit 56 (page_addr p) = page_addr p" by (simp only: unat_eq_iff)
  have "unat (take_bit 12 (page_addr p)) = 0" "unat (drop_bit 12 (page_addr p)) = unat (ppn p)"
    using p by (simp_all add: unat_take_bit unat_drop_bit unat_page_addr)
  then have "take_bit 12 (page_addr p) = 0" "drop_bit 12 (page_addr p) = ppn p"
    by (simp_all only: unat_eq_0 unat_eq_iff)
  then show ?thesis
    unfolding PhysPageNum_of_PhysAddr_def PhysAddr_page_offset_def PhysAddr_floor_def of_usize_eqs b PhysAddr.sel
      page_offset_take_bit div_page_size by simp
qed

lemma dma_dealloc_loop_returns:
  assumes "kmem_inv lo k" and "ppns (pages_from c i n) \<subseteq> frames_live lo k" and "distinct (pages_from c i n)"
  shows "\<exists>k'. dma_dealloc_loop n (PhysPageNum (c + of_nat i)) k = Some k' \<and> kmem_inv lo k' \<and> phys k' = phys k \<and>
    frames_live lo k' = frames_live lo k - ppns (pages_from c i n) \<and>
    sfa_recycled (frame_allocator k') = sfa_recycled (frame_allocator k) @ map (\<lambda>j. c + of_nat j) [i..<i + n]"
  using assms
proof (induction n arbitrary: i k)
  case 0
  then show ?case by simp
next
  case (Suc n)
  let ?p = "PhysPageNum (c + of_nat i)"
  have l: "[i..<i + Suc n] = i # [Suc i..<Suc i + n]" by (simp add: upt_rec)
  have fr: "ppns (pages_from c i (Suc n)) = insert ?p (ppns (pages_from c (Suc i) n))"
    unfolding l list.map list.set image_insert FrameTracker.sel ..
  note pr = Suc.prems(2) [unfolded fr] Suc.prems(3) [unfolded l]
  have live: "?p \<in> frames_live lo k" using pr(1) by blast
  from Suc.prems(1) live obtain k1 where k1: "FrameTracker_drop (FrameTracker ?p) k = Some k1" "kmem_inv lo k1" "phys k1 = phys k"
      "frames_live lo k1 = frames_live lo k - {?p}" by (rule FrameTracker_drop_returns)
  have rec: "sfa_recycled (frame_allocator k1) = sfa_recycled (frame_allocator k) @ [c + of_nat i]"
    using k1(1) by (auto simp: FrameTracker_drop_def frame_dealloc_def StackFrameAllocator_dealloc_def split: if_splits)
  have "FrameTracker ?p \<notin> set (pages_from c (Suc i) n)" using pr(2) unfolding list.map distinct.simps by blast
  then have "?p \<notin> ppns (pages_from c (Suc i) n)" using ppns_mem_iff [of "FrameTracker ?p"] unfolding FrameTracker.sel by blast
  then have "ppns (pages_from c (Suc i) n) \<subseteq> frames_live lo k1" using pr(1) unfolding k1(4) by blast
  moreover have "distinct (pages_from c (Suc i) n)" using pr(2) unfolding list.map distinct.simps by blast
  ultimately obtain k' where k': "dma_dealloc_loop n (PhysPageNum (c + of_nat (Suc i))) k1 = Some k'" "kmem_inv lo k'" "phys k' = phys k1"
      "frames_live lo k' = frames_live lo k1 - ppns (pages_from c (Suc i) n)"
      "sfa_recycled (frame_allocator k') = sfa_recycled (frame_allocator k1) @ map (\<lambda>j. c + of_nat j) [Suc i..<Suc i + n]"
    using Suc.IH [OF k1(2)] by blast
  have "PhysPageNum_step ?p = PhysPageNum (c + of_nat (Suc i))" by (simp add: PhysPageNum_step_def add.assoc)
  then have "dma_dealloc_loop (Suc n) ?p k = Some k'" using k1(1) k'(1) by (simp add: FrameTracker_drop_def)
  moreover have "frames_live lo k' = frames_live lo k - ppns (pages_from c i (Suc n))" unfolding fr k'(4) k1(4) by (rule set_eqI) blast
  moreover have "sfa_recycled (frame_allocator k') = sfa_recycled (frame_allocator k) @ map (\<lambda>j. c + of_nat j) [i..<i + Suc n]"
    unfolding l k'(5) rec by simp
  ultimately show ?case using k'(2,3) k1(3) by (intro exI [of _ k'] conjI) simp_all
qed

lemma dma_alloc_fragmented:
  assumes k: "kmem_inv lo k" and rec: "sfa_recycled (frame_allocator k) = xs @ [u, v]" and gap: "u \<noteq> v + 1" and n: "2 \<le> n"
  shows "dma_alloc n q k = None"
proof -
  have l: "[0..<n] = 0 # Suc 0 # [Suc (Suc 0)..<n]" using n upt_conv_Cons [of 0 n] upt_conv_Cons [of "Suc 0" n] by simp
  let ?a = "frame_allocator k"
  have a1: "StackFrameAllocator_alloc ?a = (Some (PhysPageNum v), ?a\<lparr>sfa_recycled := xs @ [u]\<rparr>)"
      "sfa_inv lo (?a\<lparr>sfa_recycled := xs @ [u]\<rparr>)"
    using sfa_alloc_recycled(1,2) [OF k [unfolded kmem_inv_def], of "xs @ [u]" v] rec by simp_all
  have a2: "StackFrameAllocator_alloc (?a\<lparr>sfa_recycled := xs @ [u]\<rparr>) = (Some (PhysPageNum u), ?a\<lparr>sfa_recycled := xs\<rparr>)"
    using sfa_alloc_recycled(1) [OF a1(2), of xs u] by simp
  show ?thesis unfolding dma_alloc_def l using a1(1) a2 gap by (simp add: frame_alloc_unwrap_eq Let_def)
qed

text \<open>
  C38 (error). The pages of a queue of two or more pages can be given back, after which exactly the
  frames in use before are in use; but the allocator then hands them out last first, so the
  next request for as many pages panics although there is room.
\<close>

theorem dma_realloc_panics:
  assumes inv: "kmem_inv lo k" and fresh: "sfa_recycled (frame_allocator k) = []" and n: "2 \<le> n" "n \<le> frames_room k"
  shows "\<exists>a q' k1 k2. dma_alloc n q k = Some (a, q', k1) \<and> dma_dealloc a n k1 = Some (0, k2) \<and>
     frames_live lo k2 = frames_live lo k \<and> n \<le> frames_room k2 \<and> dma_alloc n q' k2 = None"
proof -
  let ?c = "sfa_current (frame_allocator k)"
  obtain k1 where k1: "dma_alloc_loop [0..<0 + n] (PhysPageNum 0) q k = Some (if n = 0 then PhysPageNum 0 else PhysPageNum ?c, q @ pages_from ?c 0 n, k1)"
      "dma_step lo (pages_from ?c 0 n) k k1"
    using dma_alloc_loop_returns [OF inv fresh n(2), of ?c 0 "PhysPageNum 0" q] by auto
  note d = k1(2) [unfolded dma_step_def]
  have al: "dma_alloc n q k = Some (page_addr (PhysPageNum ?c), q @ pages_from ?c 0 n, k1)"
    using k1(1) n(1) by (simp add: dma_alloc_def page_addr_def)
  have h: "kmem_inv lo k1" "ppns (pages_from ?c 0 n) \<subseteq> frames_live lo k1" "distinct (pages_from ?c 0 n)"
    using d by blast+
  obtain k2 where k2: "dma_dealloc_loop n (PhysPageNum (?c + of_nat 0)) k1 = Some k2" "kmem_inv lo k2"
      "frames_live lo k2 = frames_live lo k1 - ppns (pages_from ?c 0 n)"
      "sfa_recycled (frame_allocator k2) = sfa_recycled (frame_allocator k1) @ map (\<lambda>j. ?c + of_nat j) [0..<0 + n]"
    using dma_dealloc_loop_returns [OF h] by blast
  have "PhysPageNum ?c \<in> ppns (pages_from ?c 0 n)" using n(1) by (auto simp: image_iff intro: bexI [of _ 0])
  then have "ppn_ok (PhysPageNum ?c)" using h(2) by (intro live_ppn_ok [OF h(1)]) blast
  then have de: "dma_dealloc (page_addr (PhysPageNum ?c)) n k1 = Some (0, k2)"
    using k2(1) page_addr_ppn by (simp add: dma_dealloc_def)
  obtain m where m: "n = Suc (Suc m)" using n(1) by (metis add_2_eq_Suc le_Suc_ex)
  have rec: "sfa_recycled (frame_allocator k2) = map (\<lambda>j. ?c + of_nat j) [0..<m] @ [?c + of_nat m, ?c + of_nat (Suc m)]"
    using k2(4) d m by simp
  have "?c + of_nat m \<noteq> ?c + of_nat (Suc m) + 1" by simp
  then have "dma_alloc n (q @ pages_from ?c 0 n) k2 = None" by (rule dma_alloc_fragmented [OF k2(2) rec _ n(1)])
  moreover have "frames_live lo k1 = frames_live lo k \<union> ppns (pages_from ?c 0 n)" "ppns (pages_from ?c 0 n) \<inter> frames_live lo k = {}"
    using d by blast+
  then have "frames_live lo k2 = frames_live lo k" unfolding k2(3) by blast
  moreover have "n \<le> frames_room k2" using rec m by (simp add: frames_room_def sfa_room_def)
  ultimately show ?thesis using al de
    by (intro exI [of _ "page_addr (PhysPageNum ?c)"] exI [of _ "q @ pages_from ?c 0 n"] exI [of _ k1] exI [of _ k2]) simp
qed

theorem dma_realloc_panics_witness:
  "\<exists>a q' k1 k2. dma_alloc 2 [] small_mem = Some (a, q', k1) \<and> dma_dealloc a 2 k1 = Some (0, k2) \<and> dma_alloc 2 q' k2 = None"
  using dma_realloc_panics [OF small_mem_ok(1), of 2 "[]"] small_mem_ok(2) by (auto simp: small_mem_def)

end
