(* ===== verification/Spec2Isabelle.thy ===== *)
theory Spec2Isabelle
  imports ElfSpec LifeSpec TrapSpec TypeInv TrapAsm PackSpec VirtioBlk
begin

text \<open>
  Verification of the rCore tutorial kernel (\<^verbatim>\<open>src/os\<close>) and of its file system easy-fs
  (\<^verbatim>\<open>src/easy-fs\<close>, with the image packer \<^verbatim>\<open>src/easy-fs-fuse\<close>).

  \<^bold>\<open>The program.\<close> easy-fs stores files on a block device through a cache of 16 blocks: a super
  block, a bitmap and an area of disk inodes, a bitmap and an area of data blocks; one flat
  root directory maps names to inodes. The kernel runs processes in Sv39 address spaces. A
  process enters it by a trap; the handler runs a system call or a scheduling step and
  returns to the same or another process. System calls on files go through the open file
  table of the process and the buffers of the user to easy-fs.

  \<^bold>\<open>Conventions.\<close> Every operation is a function from a state to an optional result and state:
  \<open>None\<close> stands for a panic, a lock taken twice or a loop that does not end. Theorems that an
  operation works state that the result is \<open>Some\<close>. The sources are built in release mode, so
  arithmetic wraps; machine integers are words wherever that can matter. Loops whose length
  depends on the user or on the disk are partial functions in the option monad or recurse on
  a list of indexes; no fuel is used. Values of \<open>Arc\<close> and \<open>Box\<close> types are indexes into a list in the
  state; where Rust drops a value that owns a resource, the model calls its drop function.

  \<^bold>\<open>The file system.\<close>
  \<^item> \<open>BlockDev\<close> (\<^verbatim>\<open>block_dev.rs\<close>, \<^verbatim>\<open>BlockFile\<close> of the packer): the trait \<^verbatim>\<open>BlockDevice\<close> is a record
    of methods, its contract the locale \<open>block_device\<close>, interpreted by the image file (\<open>image\<close>).
    \<open>PackSpec\<close>: the packer itself, on a list of names and contents. \<open>VirtioBlk\<close>
    (\<^verbatim>\<open>drivers/block/virtio_blk.rs\<close>): the device of the kernel and the pages it gives to the driver.
  \<^item> \<open>BlockStore\<close>: the interface of the cache to its clients, locale \<open>block_store\<close>. \<open>BlockCache\<close>
    (\<^verbatim>\<open>block_cache.rs\<close>): the cache with eviction, guards and write-back meets it over any device.
  \<^item> \<open>Layout\<close>, \<open>InodeBlocks\<close>, \<open>InodeOps\<close>, \<open>InodeGrow\<close>, \<open>InodeClear\<close>, \<open>InodeData\<close>, \<open>DirEntry\<close>
    (\<^verbatim>\<open>layout.rs\<close>): super block, disk inode and directory entry with their bytes; the blocks of an
    inode through its three levels; growing, clearing, reading and writing.
  \<^item> \<open>Bitmap\<close> (\<^verbatim>\<open>bitmap.rs\<close>); \<open>Efs\<close>, \<open>EfsOps\<close>, \<open>EfsCreate\<close> (\<^verbatim>\<open>efs.rs\<close>): allocation of inodes and
    blocks, creation and opening.
  \<^item> \<open>Vfs\<close> (\<^verbatim>\<open>vfs.rs\<close>) defines all operations of \<^verbatim>\<open>Inode\<close>. \<open>FsInv\<close> is the invariant of a disk and
    its meaning, a map from inode numbers to types and bytes; \<open>VfsGrow\<close>, \<open>VfsFile\<close>, \<open>VfsDir\<close>,
    \<open>VfsUnlink\<close> show that each operation refines its effect on that map. \<open>FsSpec\<close> and \<open>FsDirSpec\<close>
    state this for the cache over any device, with what the device holds after the call.

  \<^bold>\<open>Memory.\<close>
  \<^item> \<open>Address\<close> (\<^verbatim>\<open>mm/address.rs\<close>, \<^verbatim>\<open>config.rs\<close>); \<open>Allocator\<close>, the contract of all allocators;
    \<open>FrameAllocator\<close> (\<^verbatim>\<open>mm/frame_allocator.rs\<close>) over physical memory as a function of addresses.
  \<^item> \<open>PageTable\<close>, \<open>PageTableMap\<close> (\<^verbatim>\<open>mm/page_table.rs\<close>): page tables live in physical frames; map and
    unmap refine the update of a partial function from pages to entries.
  \<^item> \<open>UserBuffer\<close> (second half of \<^verbatim>\<open>mm/page_table.rs\<close>): buffers and strings of a user.
  \<^item> \<open>MemorySet\<close>, \<open>AreaOps\<close>, \<open>MemorySetInv\<close> (\<^verbatim>\<open>mm/memory_set.rs\<close>): areas and address spaces, their
    invariant \<open>ms_inv\<close> (disjoint areas, one owner per frame), the kernel space, ELF images, copies.
  \<^item> \<open>MemSpec\<close>, \<open>SpaceSpec\<close>, \<open>UserSpec\<close> hold the theorems: frames are never shared, mapping and
    removing areas, isolation of address spaces, access to user memory.

  \<^bold>\<open>Processes.\<close>
  \<^item> \<open>TaskId\<close> (\<^verbatim>\<open>task/id.rs\<close>), \<open>TaskManager\<close> (\<^verbatim>\<open>task/manager.rs\<close>, contract \<open>fifo\<close>), \<open>OpenFile\<close>
    (\<^verbatim>\<open>fs/inode.rs\<close>, \<^verbatim>\<open>fs/stdio.rs\<close>, \<^verbatim>\<open>fs/mod.rs\<close>), \<open>Task\<close> (\<^verbatim>\<open>task/task.rs\<close>, \<^verbatim>\<open>task/context.rs\<close>,
    \<^verbatim>\<open>trap/context.rs\<close>) with the record \<open>kernel\<close> of the whole state, \<open>Sched\<close>
    (\<^verbatim>\<open>task/processor.rs\<close>, \<^verbatim>\<open>task/mod.rs\<close>), \<open>Syscall\<close> (\<^verbatim>\<open>syscall/*.rs\<close>, \<^verbatim>\<open>trap/mod.rs\<close>).
  \<^item> \<open>TrapAsm\<close> (\<^verbatim>\<open>trap/trap.S\<close>, \<^verbatim>\<open>task/switch.S\<close>): the assembly routines as lists of instructions on a
    machine of registers and memory; saving and restoring a trap context or a task context
    gives the registers back.
  \<^item> The other theories do not run \<^verbatim>\<open>__switch\<close>: a task that is switched away leaves the state with no current task and
    says in \<open>tcb_kont\<close> what it does when it runs again; \<open>run_tasks_iter\<close> is one turn of the loop of
    \<^verbatim>\<open>run_tasks\<close>. \<open>kstep\<close> of \<open>SchedInv\<close> is the step relation of the machine: a trap, a turn of the
    scheduling loop, a step of user code (any change of memory), or a key press.
  \<^item> \<open>KernelBase\<close> and \<open>TrapOps\<close> hold shared facts; \<open>FileOps\<close>, \<open>FileSpec\<close> the calls on files;
    \<open>SchedInv\<close>, \<open>SchedSpec\<close> the accounting of tasks and the round robin; \<open>MmapSpec\<close> what \<^verbatim>\<open>mmap\<close> maps,
    exactly what it refuses, and where its check is incomplete; \<open>ForkOps\<close>, \<open>ForkSpec\<close> the copy of a process; \<open>ElfOps\<close>, \<open>ElfSpec\<close> loading a program: the
    pages of the new address space are those of the image of the file; \<open>LifeOps\<close>, \<open>LifeSpec\<close> exiting and waiting;
    \<open>TrapSpec\<close> the frame of the system calls that leave the memory alone; \<open>TypeInv\<close> that no reference of the kernel dangles.

  \<^bold>\<open>Parameters.\<close> The block device is an argument with the contract \<open>block_device\<close>. The result of
  the external ELF parser, the methods of the virtio driver, the address translation of the hardware, the addresses of linker symbols and of assembly routines and the
  value of control registers are fields of \<open>kernel_env\<close> or arguments. The input of the console
  is a list in the state, and the time register an argument of the calls that read it.

  \<^bold>\<open>Bounds.\<close> Theorems on the file system hold for files up to \<open>MAX_FILE_SIZE\<close>, the size that three
  levels of indexes reach, and for devices of fewer than 2^32 blocks. Theorems that
  allocate memory ask for enough free frames: three for each page to be mapped, since a
  new page takes at most a frame and two tables. Programs to be loaded have segments that
  start at a page, lie in the file and in the lower half, and are sorted and disjoint by pages.

  \<^bold>\<open>Not modelled.\<close> Null checks of physical addresses and the changes that \<^verbatim>\<open>sret\<close> makes to \<^verbatim>\<open>sstatus\<close> are left out. The virtio queue, the SBI calls and the console are external or hardware I/O; the heap
  allocator is an external crate; \<^verbatim>\<open>entry.asm\<close> and \<^verbatim>\<open>rust_main\<close> only start the machine;
  \<^verbatim>\<open>UPSafeCell\<close> is a \<open>RefCell\<close>, replaced by explicit state; logging, Debug printers, the self-tests
  of \<^verbatim>\<open>mm\<close>, \<^verbatim>\<open>list_apps\<close> and the command line of the packer only print or walk host directories.
\<close>

section \<open>Creating and opening\<close>

text \<open>
  C1 (refinement). Creating a file system on a device and opening it again finds the
  areas that creation computed, and the fresh file system has exactly one inode, an
  empty root directory, and no used data block.
\<close>

theorem create_open:
  assumes dev: "block_device D dinv dview N" and s: "cache_inv dinv dview N s" "cache_held s = {}"
    and ibb: "0 < unat ibb" "unat ibb < 2 ^ 20" and tot: "unat tot + 4096 < 2 ^ 32"
      "1 + 1025 * unat ibb < unat tot" "unat tot \<le> N"
  shows "\<exists>E s1 s2. EasyFileSystem_create (cache_ops D) tot ibb s = Some (E, s1) \<and>
    fresh (unat tot) E (snd (EasyFileSystem_layout tot ibb)) (cache_view dview s1) \<and>
    EasyFileSystem_open (cache_ops D) s1 = Some (E, s2) \<and>
    cache_view dview s2 = cache_view dview s1"
proof -
  note B = block_device.cache_store [OF dev]
  obtain E s1 where s1: "EasyFileSystem_create (cache_ops D) tot ibb s = Some (E, s1)"
      "cache_inv dinv dview N s1" "cache_held s1 = {}" "E = fst (EasyFileSystem_layout tot ibb)"
      "fresh (unat tot) E (snd (EasyFileSystem_layout tot ibb)) (cache_view dview s1)"
    using block_store.create_returns [OF B s ibb tot] unfolding block_store.settles_def [OF B] by blast
  obtain s2 where "EasyFileSystem_open (cache_ops D) s1 = Some (E, s2)" "cache_view dview s2 = cache_view dview s1"
    using block_store.open_returns [OF B s1(2), of tot ibb] s1(3-5) tot
    unfolding block_store.returns_def [OF B] by (auto simp: fresh_def)
  with s1 show ?thesis by blast
qed

theorem create_open_witness:
  "\<exists>E s1 s2. EasyFileSystem_create (cache_ops BlockFile) 1100 1 (blank_image 1100) = Some (E, s1) \<and>
    fresh 1100 E (snd (EasyFileSystem_layout 1100 1)) (cache_view file_block s1) \<and>
    EasyFileSystem_open (cache_ops BlockFile) s1 = Some (E, s2) \<and>
    cache_view file_block s2 = cache_view file_block s1"
  using create_open [OF image.block_device_axioms blank_image_ok, of 1 1100 1100] by simp

end
